(* ===== verification/Jinx_Prelude.thy ===== *)
theory Jinx_Prelude
  imports Main "HOL-Library.Word"
begin

text \<open>
  Shared vocabulary of the development: the result enumeration every fallible operation of
  the library returns (\<^verbatim>\<open>include/jinx/result.hpp\<close>), the arithmetic of the 64-bit
  \<^verbatim>\<open>size_t\<close> on natural numbers with the wrap-around written out, and the generic lemmas on
  function updates, options and lists that the component proofs use.

  A computation that ends in undefined behaviour, in \<^verbatim>\<open>error::fatal\<close>/\<^verbatim>\<open>abort\<close> or in
  an endless loop does not return: its value is \<open>None\<close>. A theorem that states \<open>Some\<close>
  therefore excludes all three.
\<close>

section \<open>Collections of facts\<close>

named_theorems size_arith \<open>facts on wrap-around size arithmetic\<close>
named_theorems rep_intros \<open>preservation of representation predicates\<close>

section \<open>Results\<close>

datatype SuccessfulFailed = Successful | Failed

section \<open>64-bit unsigned arithmetic\<close>

abbreviation size_max :: nat where
  "size_max \<equiv> 18446744073709551616"

definition add64 :: "nat \<Rightarrow> nat \<Rightarrow> nat" where
  "add64 a b = (a + b) mod size_max"

definition sub64 :: "nat \<Rightarrow> nat \<Rightarrow> nat" where
  "sub64 a b = (a + (size_max - b mod size_max)) mod size_max"

lemma add64_exact [size_arith]: "a + b < size_max \<Longrightarrow> add64 a b = a + b"
  by (simp add: add64_def)

lemma sub64_exact [size_arith]:
  assumes "b \<le> a" and "a < size_max"
  shows "sub64 a b = a - b"
proof -
  have "a + (size_max - b mod size_max) = (a - b) + size_max"
    using assms by simp
  moreover have "((a - b) + size_max) mod size_max = a - b"
    using assms by (subst mod_add_self2) simp
  ultimately show ?thesis by (simp only: sub64_def)
qed

lemma add64_less [simp]: "add64 a b < size_max"
  by (simp add: add64_def)

lemma sub64_less [simp]: "sub64 a b < size_max"
  by (simp add: sub64_def)

text \<open>The operations are those of \<^typ>\<open>64 word\<close>.\<close>

lemma add64_word: "unat (x + y :: 64 word) = add64 (unat x) (unat y)"
  by (simp add: add64_def unat_word_ariths)

lemma sub64_word: "unat (x - y :: 64 word) = sub64 (unat x) (unat y)"
proof -
  have bounds: "unat x < size_max" "unat y < size_max"
    using unsigned_less [of x] unsigned_less [of y] by simp_all
  show ?thesis
  proof (cases "unat y \<le> unat x")
    case True
    with bounds show ?thesis
      by (simp add: unat_sub_if' sub64_exact)
  next
    case False
    with bounds show ?thesis
      by (simp add: unat_sub_if' sub64_def)
  qed
qed

section \<open>Generic lemmas\<close>

lemma bind_Some_iff: "Option.bind m f = Some y \<longleftrightarrow> (\<exists>x. m = Some x \<and> f x = Some y)"
  by (cases m) auto

lemma fold_bind_None [simp]: "foldl (\<lambda>m x. Option.bind m (f x)) None xs = None"
  by (induction xs) auto

text \<open>Running a partial action over a list, left to right.\<close>

fun run_all :: "('a \<Rightarrow> 's \<Rightarrow> 's option) \<Rightarrow> 'a list \<Rightarrow> 's \<Rightarrow> 's option" where
  "run_all f [] s = Some s"
| "run_all f (x # xs) s = Option.bind (f x s) (run_all f xs)"

lemma run_all_append: "run_all f (xs @ ys) s = Option.bind (run_all f xs s) (run_all f ys)"
  by (induction xs arbitrary: s) (auto split: bind_splits)

lemma run_all_total: "(\<And>x s. f x s = Some (g x s)) \<Longrightarrow> run_all f xs s = Some (fold g xs s)"
  by (induction xs arbitrary: s) auto

section \<open>Characters and numbers\<close>

definition CR :: char where "CR = CHR 0x0D"
definition LF :: char where "LF = CHR 0x0A"
definition TAB :: char where "TAB = CHR 0x09"

text \<open>\<^verbatim>\<open>std::isspace\<close> and \<^verbatim>\<open>std::isdigit\<close> of the C locale.\<close>

definition isspace :: "char \<Rightarrow> bool" where
  "isspace c \<longleftrightarrow> c \<in> {CHR '' '', TAB, LF, CHR 0x0B, CHR 0x0C, CR}"

definition isdigit :: "char \<Rightarrow> bool" where
  "isdigit c \<longleftrightarrow> 48 \<le> (of_char c :: nat) \<and> (of_char c :: nat) \<le> 57"

lemma blank_is_space [simp]: "isspace (CHR '' '')" "isspace CR" "isspace TAB"
  by (simp_all add: isspace_def)

lemma digit_is_no_space: "isdigit c \<Longrightarrow> \<not> isspace c \<and> c \<noteq> CHR '' '' \<and> c \<noteq> CR \<and> c \<noteq> LF"
  by (auto simp: isdigit_def isspace_def CR_def LF_def TAB_def)

text \<open>The decimal text a stream inserts for an unsigned number, and the number a text of digits denotes.\<close>

fun decimal :: "nat \<Rightarrow> string" where
  "decimal n = (if n < 10 then [char_of (48 + n)] else decimal (n div 10) @ [char_of (48 + n mod 10)])"

declare decimal.simps [simp del]

definition digits_value :: "string \<Rightarrow> nat" where
  "digits_value ds = foldl (\<lambda>n c. 10 * n + (of_char c - 48)) 0 ds"

lemma digit_char:
  assumes "k < 10"
  shows "isdigit (char_of (48 + k :: nat))" "of_char (char_of (48 + k :: nat)) = 48 + k"
  using assms by (simp_all add: isdigit_def of_char_of)

lemma decimal_digits: "c \<in> set (decimal n) \<Longrightarrow> isdigit c"
proof (induction n rule: decimal.induct)
  case (1 n)
  show ?case
    using 1 digit_char(1) [of n] digit_char(1) [of "n mod 10"] by (subst (asm) (2) decimal.simps) (auto split: if_splits)
qed

lemma decimal_nonempty [simp]: "decimal n \<noteq> []"
  by (subst decimal.simps) simp

lemma digits_value_decimal: "digits_value (decimal n) = n"
proof (induction n rule: decimal.induct)
  case (1 n)
  show ?case
  proof (cases "n < 10")
    case True
    then show ?thesis using digit_char(2) [of n] by (subst decimal.simps) (simp add: digits_value_def)
  next
    case False
    then have "digits_value (decimal n) = 10 * digits_value (decimal (n div 10)) + (of_char (char_of (48 + n mod 10 :: nat)) - 48)"
      by (subst decimal.simps) (simp add: digits_value_def)
    then show ?thesis using 1 [OF False] digit_char(2) [of "n mod 10"] by simp
  qed
qed

end
