(* ===== verification/Jinx_Variant.thy ===== *)
theory Jinx_Variant
  imports Jinx_Prelude "HOL-Library.Monad_Syntax"
begin

text \<open>
  \<^verbatim>\<open>Variant<Types...>\<close> (\<^verbatim>\<open>include/jinx/variant.hpp\<close>, \<^verbatim>\<open>include/jinx/meta.hpp\<close>): storage for an object of one of
  several types, in two implementations. \<^verbatim>\<open>VariantRecursive\<close> searches the list of types by recursion
  over the template arguments, \<^verbatim>\<open>VariantLookupTable\<close> indexes a table of functions.

  The list of types is an argument. The storage is modelled apart from the index \<^verbatim>\<open>_type\<close>: it is raw,
  holds an object of a type, or an object whose value was moved out. Using an object under another type
  is undefined behaviour. Variants live in a store, so that the operands of an assignment may be the
  same variant. Both implementations are shown to behave like an optional typed value.
\<close>

section \<open>Storage and types\<close>

datatype ('t, 'v) storage = NoObj | Obj 't 'v | MovedFrom 't

definition obj_read :: "'t \<Rightarrow> ('t, 'v) storage \<Rightarrow> 'v option" where
  "obj_read t m = (case m of Obj t' v \<Rightarrow> if t = t' then Some v else None | _ \<Rightarrow> None)"

definition obj_move :: "'t \<Rightarrow> ('t, 'v) storage \<Rightarrow> ('v \<times> ('t, 'v) storage) option" where
  "obj_move t m = do { v \<leftarrow> obj_read t m; Some (v, MovedFrom t) }"

definition obj_destroy :: "'t \<Rightarrow> ('t, 'v) storage \<Rightarrow> ('t, 'v) storage option" where
  "obj_destroy t m = (case m of NoObj \<Rightarrow> None | Obj t' v \<Rightarrow> if t = t' then Some NoObj else None
     | MovedFrom t' \<Rightarrow> if t = t' then Some NoObj else None)"

fun detail_index_of :: "'t \<Rightarrow> int \<Rightarrow> 't list \<Rightarrow> int" where
  "detail_index_of t i [] = -1"
| "detail_index_of t i [u] = (if t = u then i else -1)"
| "detail_index_of t i (u # us) = (if t = u then i else detail_index_of t (i + 1) us)"

definition index_of :: "'t \<Rightarrow> 't list \<Rightarrow> int" where
  "index_of t ts = detail_index_of t 0 ts"

fun union_size :: "('t \<Rightarrow> nat) \<Rightarrow> 't list \<Rightarrow> nat" where
  "union_size sizeof [] = 0"
| "union_size sizeof [t] = sizeof t"
| "union_size sizeof (t # ts) = (if union_size sizeof ts < sizeof t then sizeof t else union_size sizeof ts)"

record ('t, 'v) variant =
  vr_memory :: "('t, 'v) storage"
  vr_type :: int

type_synonym ('t, 'v) variants = "nat \<Rightarrow> ('t, 'v) variant"

definition variant_new :: "('t, 'v) variant" where
  "variant_new = \<lparr>vr_memory = NoObj, vr_type = -1\<rparr>"

definition variant_empty :: "('t, 'v) variant \<Rightarrow> bool" where
  "variant_empty x \<longleftrightarrow> vr_type x = -1"

text \<open>\<^verbatim>\<open>as_pointer\<close> gives a null pointer, or a pointer to the storage under the requested type.\<close>

definition as_pointer :: "'t list \<Rightarrow> 't \<Rightarrow> ('t, 'v) variant \<Rightarrow> ('t, 'v) storage option" where
  "as_pointer ts t x = (if index_of t ts \<noteq> vr_type x then None else Some (vr_memory x))"

section \<open>The recursive implementation\<close>

text \<open>The first list holds all types, the second one those that remain to be tried.\<close>

fun rv_free :: "'t list \<Rightarrow> 't list \<Rightarrow> int \<Rightarrow> ('t, 'v) storage \<Rightarrow> ('t, 'v) storage option" where
  "rv_free ts [] vtype m = Some m"
| "rv_free ts (t # us) vtype m = (if index_of t ts = vtype then obj_destroy t m else rv_free ts us vtype m)"

definition rv_reset :: "'t list \<Rightarrow> ('t, 'v) variant \<Rightarrow> ('t, 'v) variant option" where
  "rv_reset ts x = (if vr_type x \<noteq> -1
     then do { m \<leftarrow> rv_free ts ts (vr_type x) (vr_memory x); Some \<lparr>vr_memory = m, vr_type = -1\<rparr> }
     else Some x)"

fun rv_construct_copy :: "'t list \<Rightarrow> 't list \<Rightarrow> ('t, 'v) variant \<Rightarrow> ('t, 'v) variant \<Rightarrow> ('t, 'v) variant option" where
  "rv_construct_copy ts [] this other = Some this"
| "rv_construct_copy ts (t # us) this other =
     (if index_of t ts = vr_type other
      then do { v \<leftarrow> obj_read t (vr_memory other); Some \<lparr>vr_memory = Obj t v, vr_type = vr_type other\<rparr> }
      else rv_construct_copy ts us this other)"

fun rv_construct_move ::
  "'t list \<Rightarrow> 't list \<Rightarrow> ('t, 'v) variant \<Rightarrow> ('t, 'v) variant \<Rightarrow> (('t, 'v) variant \<times> ('t, 'v) variant) option" where
  "rv_construct_move ts [] this other = Some (this, other)"
| "rv_construct_move ts (t # us) this other =
     (if index_of t ts = vr_type other
      then do { (v, m) \<leftarrow> obj_move t (vr_memory other);
                Some (\<lparr>vr_memory = Obj t v, vr_type = vr_type other\<rparr>, \<lparr>vr_memory = m, vr_type = -1\<rparr>) }
      else rv_construct_move ts us this other)"

fun rv_compare ::
  "('t \<Rightarrow> 'v \<Rightarrow> 'v \<Rightarrow> bool) \<Rightarrow> 't list \<Rightarrow> 't list \<Rightarrow> ('t, 'v) variant \<Rightarrow> ('t, 'v) variant \<Rightarrow> bool option" where
  "rv_compare eq ts [] this other = Some False"
| "rv_compare eq ts (t # us) this other =
     (if index_of t ts = vr_type other
      then do { v \<leftarrow> obj_read t (vr_memory this); w \<leftarrow> obj_read t (vr_memory other); Some (eq t v w) }
      else rv_compare eq ts us this other)"

text \<open>
  The called function gets a reference to the object: it may change the object, and it has a state of
  its own. The recursion goes on after the call.
\<close>

fun rv_call ::
  "('t \<Rightarrow> 'v \<Rightarrow> 's \<Rightarrow> 'v \<times> 's) \<Rightarrow> 't list \<Rightarrow> 't list \<Rightarrow> int \<Rightarrow> ('t, 'v) storage \<times> 's \<Rightarrow> (('t, 'v) storage \<times> 's) option" where
  "rv_call f ts [] vtype (m, s) = Some (m, s)"
| "rv_call f ts (t # us) vtype (m, s) =
     (if index_of t ts = vtype
      then do { v \<leftarrow> obj_read t m; let (v', s') = f t v s in rv_call f ts us vtype (Obj t v', s') }
      else rv_call f ts us vtype (m, s))"

definition rv_emplace :: "'t list \<Rightarrow> 't \<Rightarrow> 'v \<Rightarrow> nat \<Rightarrow> ('t, 'v) variants \<Rightarrow> ('t, 'v) variants option" where
  "rv_emplace ts t v i st = (if index_of t ts = -1 then None
     else do { x \<leftarrow> rv_reset ts (st i); Some (st(i := x\<lparr>vr_type := index_of t ts, vr_memory := Obj t v\<rparr>)) })"

definition rv_copy_new :: "'t list \<Rightarrow> nat \<Rightarrow> nat \<Rightarrow> ('t, 'v) variants \<Rightarrow> ('t, 'v) variants option" where
  "rv_copy_new ts i j st = (if variant_empty (st j) then Some (st(i := variant_new))
     else do { x \<leftarrow> rv_construct_copy ts ts variant_new (st j); Some (st(i := x)) })"

definition rv_move_new :: "'t list \<Rightarrow> nat \<Rightarrow> nat \<Rightarrow> ('t, 'v) variants \<Rightarrow> ('t, 'v) variants option" where
  "rv_move_new ts i j st = (if variant_empty (st j) then Some (st(i := variant_new))
     else do { (x, y) \<leftarrow> rv_construct_move ts ts variant_new (st j); Some (st(i := x, j := y)) })"

definition rv_copy_assign :: "'t list \<Rightarrow> nat \<Rightarrow> nat \<Rightarrow> ('t, 'v) variants \<Rightarrow> ('t, 'v) variants option" where
  "rv_copy_assign ts i j st = do { r \<leftarrow> rv_reset ts (st i); let st' = st(i := r) in
     if \<not> variant_empty (st' j) then do { x \<leftarrow> rv_construct_copy ts ts r (st' j); Some (st'(i := x)) } else Some st' }"

definition rv_move_assign :: "'t list \<Rightarrow> nat \<Rightarrow> nat \<Rightarrow> ('t, 'v) variants \<Rightarrow> ('t, 'v) variants option" where
  "rv_move_assign ts i j st = do { r \<leftarrow> rv_reset ts (st i); let st' = st(i := r) in
     if \<not> variant_empty (st' j) then do { (x, y) \<leftarrow> rv_construct_move ts ts r (st' j); Some (st'(i := x, j := y)) }
     else Some st' }"

definition rv_eq :: "('t \<Rightarrow> 'v \<Rightarrow> 'v \<Rightarrow> bool) \<Rightarrow> 't list \<Rightarrow> ('t, 'v) variant \<Rightarrow> ('t, 'v) variant \<Rightarrow> bool option" where
  "rv_eq eq ts this other =
     (if vr_type this = vr_type other \<and> vr_type this = -1 then Some True else rv_compare eq ts ts this other)"

definition rv_apply ::
  "('t \<Rightarrow> 'v \<Rightarrow> 's \<Rightarrow> 'v \<times> 's) \<Rightarrow> 't list \<Rightarrow> ('t, 'v) variant \<Rightarrow> 's \<Rightarrow> (bool \<times> ('t, 'v) variant \<times> 's) option" where
  "rv_apply f ts x s = (if variant_empty x then Some (False, x, s)
     else do { (m, s') \<leftarrow> rv_call f ts ts (vr_type x) (vr_memory x, s); Some (True, x\<lparr>vr_memory := m\<rparr>, s') })"

section \<open>The table of functions\<close>

text \<open>One entry per type; an index outside the table reads other memory.\<close>

definition lookup_table_apply :: "('t \<Rightarrow> 'f) \<Rightarrow> 't list \<Rightarrow> int \<Rightarrow> 'f option" where
  "lookup_table_apply stub ts ty =
     (if 0 \<le> ty \<and> nat ty < length ts then Some (map stub ts ! nat ty) else None)"

definition stub_call ::
  "('t \<Rightarrow> 'v \<Rightarrow> 's \<Rightarrow> 'v \<times> 's) \<Rightarrow> 't \<Rightarrow> ('t, 'v) storage \<times> 's \<Rightarrow> (('t, 'v) storage \<times> 's) option" where
  "stub_call f t = (\<lambda>(m, s). do { v \<leftarrow> obj_read t m; let (v', s') = f t v s in Some (Obj t v', s') })"

definition stub_construct_copy :: "'t \<Rightarrow> ('t, 'v) storage \<Rightarrow> ('t, 'v) storage option" where
  "stub_construct_copy t other = do { v \<leftarrow> obj_read t other; Some (Obj t v) }"

definition stub_construct_move :: "'t \<Rightarrow> ('t, 'v) storage \<Rightarrow> (('t, 'v) storage \<times> ('t, 'v) storage) option" where
  "stub_construct_move t other = do { (v, m) \<leftarrow> obj_move t other; Some (Obj t v, m) }"

definition stub_compare :: "('t \<Rightarrow> 'v \<Rightarrow> 'v \<Rightarrow> bool) \<Rightarrow> 't \<Rightarrow> ('t, 'v) storage \<Rightarrow> ('t, 'v) storage \<Rightarrow> bool option" where
  "stub_compare eq t m other = do { v \<leftarrow> obj_read t m; w \<leftarrow> obj_read t other; Some (eq t v w) }"

definition lv_reset :: "'t list \<Rightarrow> ('t, 'v) variant \<Rightarrow> ('t, 'v) variant option" where
  "lv_reset ts x = (if vr_type x \<noteq> -1
     then do { f \<leftarrow> lookup_table_apply obj_destroy ts (vr_type x); m \<leftarrow> f (vr_memory x);
               Some \<lparr>vr_memory = m, vr_type = -1\<rparr> }
     else Some x)"

definition lv_emplace :: "'t list \<Rightarrow> 't \<Rightarrow> 'v \<Rightarrow> nat \<Rightarrow> ('t, 'v) variants \<Rightarrow> ('t, 'v) variants option" where
  "lv_emplace ts t v i st = (if index_of t ts = -1 then None
     else do { x \<leftarrow> lv_reset ts (st i); Some (st(i := x\<lparr>vr_type := index_of t ts, vr_memory := Obj t v\<rparr>)) })"

definition lv_copy_new :: "'t list \<Rightarrow> nat \<Rightarrow> nat \<Rightarrow> ('t, 'v) variants \<Rightarrow> ('t, 'v) variants option" where
  "lv_copy_new ts i j st = (if variant_empty (st j) then Some (st(i := variant_new))
     else do { f \<leftarrow> lookup_table_apply stub_construct_copy ts (vr_type (st j)); m \<leftarrow> f (vr_memory (st j));
               Some (st(i := \<lparr>vr_memory = m, vr_type = vr_type (st j)\<rparr>)) })"

definition lv_move_new :: "'t list \<Rightarrow> nat \<Rightarrow> nat \<Rightarrow> ('t, 'v) variants \<Rightarrow> ('t, 'v) variants option" where
  "lv_move_new ts i j st = (if variant_empty (st j) then Some (st(i := variant_new))
     else do { f \<leftarrow> lookup_table_apply stub_construct_move ts (vr_type (st j)); (m, m') \<leftarrow> f (vr_memory (st j));
               Some (st(i := \<lparr>vr_memory = m, vr_type = vr_type (st j)\<rparr>, j := \<lparr>vr_memory = m', vr_type = -1\<rparr>)) })"

definition lv_copy_assign :: "'t list \<Rightarrow> nat \<Rightarrow> nat \<Rightarrow> ('t, 'v) variants \<Rightarrow> ('t, 'v) variants option" where
  "lv_copy_assign ts i j st = do { r \<leftarrow> lv_reset ts (st i); let st' = st(i := r) in
     if \<not> variant_empty (st' j)
     then do { f \<leftarrow> lookup_table_apply stub_construct_copy ts (vr_type (st' j)); m \<leftarrow> f (vr_memory (st' j));
               Some (st'(i := \<lparr>vr_memory = m, vr_type = vr_type (st' j)\<rparr>)) }
     else Some st' }"

definition lv_move_assign :: "'t list \<Rightarrow> nat \<Rightarrow> nat \<Rightarrow> ('t, 'v) variants \<Rightarrow> ('t, 'v) variants option" where
  "lv_move_assign ts i j st = do { r \<leftarrow> lv_reset ts (st i); let st' = st(i := r) in
     if \<not> variant_empty (st' j)
     then do { f \<leftarrow> lookup_table_apply stub_construct_move ts (vr_type (st' j)); (m, m') \<leftarrow> f (vr_memory (st' j));
               Some (st'(i := \<lparr>vr_memory = m, vr_type = vr_type (st' j)\<rparr>, j := \<lparr>vr_memory = m', vr_type = -1\<rparr>)) }
     else Some st' }"

definition lv_eq :: "('t \<Rightarrow> 'v \<Rightarrow> 'v \<Rightarrow> bool) \<Rightarrow> 't list \<Rightarrow> ('t, 'v) variant \<Rightarrow> ('t, 'v) variant \<Rightarrow> bool option" where
  "lv_eq eq ts this other =
     (if vr_type this \<noteq> vr_type other then Some False
      else if vr_type this = -1 then Some True
      else do { f \<leftarrow> lookup_table_apply (stub_compare eq) ts (vr_type this); f (vr_memory this) (vr_memory other) })"

definition lv_apply ::
  "('t \<Rightarrow> 'v \<Rightarrow> 's \<Rightarrow> 'v \<times> 's) \<Rightarrow> 't list \<Rightarrow> ('t, 'v) variant \<Rightarrow> 's \<Rightarrow> (bool \<times> ('t, 'v) variant \<times> 's) option" where
  "lv_apply f ts x s = (if variant_empty x then Some (False, x, s)
     else do { g \<leftarrow> lookup_table_apply (stub_call f) ts (vr_type x); (m, s') \<leftarrow> g (vr_memory x, s);
               Some (True, x\<lparr>vr_memory := m\<rparr>, s') })"

section \<open>Sequences of operations\<close>

datatype ('t, 'v) vcmd =
    VEmplace nat 't 'v | VReset nat | VCopyNew nat nat | VMoveNew nat nat
  | VCopyAssign nat nat | VMoveAssign nat nat | VCall nat "'t \<Rightarrow> 'v \<Rightarrow> 'v"

definition on_variant :: "(('t, 'v) variant \<Rightarrow> ('t, 'v) variant option) \<Rightarrow> nat \<Rightarrow> ('t, 'v) variants \<Rightarrow> ('t, 'v) variants option" where
  "on_variant f i st = do { x \<leftarrow> f (st i); Some (st(i := x)) }"

fun rv_exec :: "'t list \<Rightarrow> ('t, 'v) vcmd \<Rightarrow> ('t, 'v) variants \<Rightarrow> ('t, 'v) variants option" where
  "rv_exec ts (VEmplace i t v) st = rv_emplace ts t v i st"
| "rv_exec ts (VReset i) st = on_variant (rv_reset ts) i st"
| "rv_exec ts (VCopyNew i j) st = rv_copy_new ts i j st"
| "rv_exec ts (VMoveNew i j) st = rv_move_new ts i j st"
| "rv_exec ts (VCopyAssign i j) st = rv_copy_assign ts i j st"
| "rv_exec ts (VMoveAssign i j) st = rv_move_assign ts i j st"
| "rv_exec ts (VCall i f) st =
     on_variant (\<lambda>x. do { (_, y, _) \<leftarrow> rv_apply (\<lambda>t v s. (f t v, s)) ts x (); Some y }) i st"

fun lv_exec :: "'t list \<Rightarrow> ('t, 'v) vcmd \<Rightarrow> ('t, 'v) variants \<Rightarrow> ('t, 'v) variants option" where
  "lv_exec ts (VEmplace i t v) st = lv_emplace ts t v i st"
| "lv_exec ts (VReset i) st = on_variant (lv_reset ts) i st"
| "lv_exec ts (VCopyNew i j) st = lv_copy_new ts i j st"
| "lv_exec ts (VMoveNew i j) st = lv_move_new ts i j st"
| "lv_exec ts (VCopyAssign i j) st = lv_copy_assign ts i j st"
| "lv_exec ts (VMoveAssign i j) st = lv_move_assign ts i j st"
| "lv_exec ts (VCall i f) st =
     on_variant (\<lambda>x. do { (_, y, _) \<leftarrow> lv_apply (\<lambda>t v s. (f t v, s)) ts x (); Some y }) i st"

text \<open>\<^verbatim>\<open>Variant\<close> chooses the implementation by the number of types.\<close>

definition variant_switch :: nat where "variant_switch = 5"

definition variant_exec :: "'t list \<Rightarrow> ('t, 'v) vcmd \<Rightarrow> ('t, 'v) variants \<Rightarrow> ('t, 'v) variants option" where
  "variant_exec ts = (if length ts \<le> variant_switch then rv_exec ts else lv_exec ts)"

text \<open>What the operations mean: a variant is an optional value with its type.\<close>

type_synonym ('t, 'v) typed_values = "nat \<Rightarrow> ('t \<times> 'v) option"

fun value_exec :: "('t, 'v) vcmd \<Rightarrow> ('t, 'v) typed_values \<Rightarrow> ('t, 'v) typed_values" where
  "value_exec (VEmplace i t v) a = a(i := Some (t, v))"
| "value_exec (VReset i) a = a(i := None)"
| "value_exec (VCopyNew i j) a = a(i := a j)"
| "value_exec (VMoveNew i j) a = a(i := a j, j := None)"
| "value_exec (VCopyAssign i j) a = a(i := a j)"
| "value_exec (VMoveAssign i j) a = a(i := a j, j := None)"
| "value_exec (VCall i f) a = a(i := map_option (\<lambda>(t, v). (t, f t v)) (a i))"

fun value_eq :: "('t \<Rightarrow> 'v \<Rightarrow> 'v \<Rightarrow> bool) \<Rightarrow> ('t \<times> 'v) option \<Rightarrow> ('t \<times> 'v) option \<Rightarrow> bool" where
  "value_eq eq None None = True"
| "value_eq eq (Some (t, v)) (Some (u, w)) = (t = u \<and> eq t v w)"
| "value_eq eq _ _ = False"

text \<open>
  A variant is emplaced with one of its types, constructed from another variant, and copy-assigned from
  another variant; it may be move-assigned from itself.
\<close>

fun vcmd_ok :: "'t list \<Rightarrow> ('t, 'v) vcmd \<Rightarrow> bool" where
  "vcmd_ok ts (VEmplace i t v) \<longleftrightarrow> t \<in> set ts"
| "vcmd_ok ts (VCopyNew i j) \<longleftrightarrow> i \<noteq> j"
| "vcmd_ok ts (VMoveNew i j) \<longleftrightarrow> i \<noteq> j"
| "vcmd_ok ts (VCopyAssign i j) \<longleftrightarrow> i \<noteq> j"
| "vcmd_ok ts c \<longleftrightarrow> True"

definition variant_abs :: "('t, 'v) variant \<Rightarrow> ('t \<times> 'v) option" where
  "variant_abs x = (if variant_empty x then None else
     case vr_memory x of Obj t v \<Rightarrow> Some (t, v) | _ \<Rightarrow> None)"

definition variant_ok :: "'t list \<Rightarrow> ('t, 'v) variant \<Rightarrow> bool" where
  "variant_ok ts x \<longleftrightarrow> vr_type x = -1 \<or>
     (case vr_memory x of Obj t v \<Rightarrow> t \<in> set ts \<and> vr_type x = index_of t ts | _ \<Rightarrow> False)"

section \<open>Indices\<close>

lemma detail_index_of_range:
  "t \<in> set ts \<Longrightarrow> i \<le> detail_index_of t i ts \<and> detail_index_of t i ts < i + int (length ts) \<and>
     ts ! nat (detail_index_of t i ts - i) = t"
proof (induction t i ts rule: detail_index_of.induct)
  case (3 t i u u' us)
  show ?case
  proof (cases "t = u")
    case False
    then have r: "i + 1 \<le> detail_index_of t (i + 1) (u' # us)"
      "detail_index_of t (i + 1) (u' # us) < i + 1 + int (length (u' # us))"
      "(u' # us) ! nat (detail_index_of t (i + 1) (u' # us) - (i + 1)) = t" using 3 by auto
    then have "nat (detail_index_of t (i + 1) (u' # us) - i) = Suc (nat (detail_index_of t (i + 1) (u' # us) - (i + 1)))"
      by simp
    then show ?thesis using r False by simp
  qed simp
qed auto

lemma index_of_range:
  assumes "t \<in> set ts"
  shows "0 \<le> index_of t ts" "nat (index_of t ts) < length ts" "ts ! nat (index_of t ts) = t" "index_of t ts \<noteq> -1"
  using detail_index_of_range [OF assms, of 0] by (auto simp: index_of_def)

lemma index_of_eq_iff: "t \<in> set ts \<Longrightarrow> u \<in> set ts \<Longrightarrow> index_of t ts = index_of u ts \<longleftrightarrow> t = u"
  using index_of_range(3) by metis

lemma table_entry: "t \<in> set ts \<Longrightarrow> lookup_table_apply stub ts (index_of t ts) = Some (stub t)"
  by (simp add: lookup_table_apply_def index_of_range)

lemma union_size_ge: "t \<in> set ts \<Longrightarrow> sizeof t \<le> union_size sizeof ts"
  by (induction sizeof ts rule: union_size.induct) auto

section \<open>Both implementations agree\<close>

text \<open>The recursion over the types stops at the type of the object.\<close>

lemma recursion_finds:
  assumes "t \<in> set ts" and "t \<in> set us" and "set us \<subseteq> set ts"
  shows "rv_free ts us (index_of t ts) m = obj_destroy t m"
    and "vr_type other = index_of t ts \<Longrightarrow> rv_construct_copy ts us this other =
      do { v \<leftarrow> obj_read t (vr_memory other); Some \<lparr>vr_memory = Obj t v, vr_type = vr_type other\<rparr> }"
    and "vr_type other = index_of t ts \<Longrightarrow> rv_construct_move ts us this other =
      do { (v, m) \<leftarrow> obj_move t (vr_memory other);
           Some (\<lparr>vr_memory = Obj t v, vr_type = vr_type other\<rparr>, \<lparr>vr_memory = m, vr_type = -1\<rparr>) }"
    and "vr_type other = index_of t ts \<Longrightarrow> rv_compare eq ts us this other =
      do { v \<leftarrow> obj_read t (vr_memory this); w \<leftarrow> obj_read t (vr_memory other); Some (eq t v w) }"
  using assms(2,3) by (induction us) (auto simp: index_of_eq_iff assms(1))

lemma rv_call_skips: "t \<in> set ts \<Longrightarrow> t \<notin> set us \<Longrightarrow> set us \<subseteq> set ts \<Longrightarrow> rv_call f ts us (index_of t ts) ms = Some ms"
  by (induction us) (cases ms; auto simp: index_of_eq_iff)+

lemma rv_call_once:
  assumes "t \<in> set ts" and "t \<in> set us" and "set us \<subseteq> set ts" and "distinct us"
  shows "rv_call f ts us (index_of t ts) (Obj t v, s) = Some (Obj t (fst (f t v s)), snd (f t v s))"
  using assms(2-4)
  by (induction us) (auto simp: index_of_eq_iff assms(1) obj_read_def rv_call_skips split: prod.splits)

lemma variant_okE:
  assumes "variant_ok ts x"
  obtains "vr_type x = -1" "variant_abs x = None"
  | t v where "t \<in> set ts" "x = \<lparr>vr_memory = Obj t v, vr_type = index_of t ts\<rparr>" "variant_abs x = Some (t, v)"
proof (cases "vr_type x = -1")
  case True
  then show ?thesis using that(1) by (simp add: variant_abs_def variant_empty_def)
next
  case False
  then obtain t v where "vr_memory x = Obj t v" "t \<in> set ts" "vr_type x = index_of t ts"
    using assms by (auto simp: variant_ok_def split: storage.splits)
  then show ?thesis using that(2) [of t v] by (simp add: variant_abs_def variant_empty_def index_of_range)
qed

lemma variant_ok_object [simp]:
  "t \<in> set ts \<Longrightarrow> variant_ok ts \<lparr>vr_memory = Obj t v, vr_type = index_of t ts\<rparr>"
  "t \<in> set ts \<Longrightarrow> variant_abs \<lparr>vr_memory = Obj t v, vr_type = index_of t ts\<rparr> = Some (t, v)"
  "variant_ok ts \<lparr>vr_memory = m, vr_type = -1\<rparr>" "variant_abs \<lparr>vr_memory = m, vr_type = -1\<rparr> = None"
  by (simp_all add: variant_ok_def variant_abs_def variant_empty_def index_of_range)

lemma variant_new_ok [simp]: "variant_ok ts variant_new" "variant_abs variant_new = None" "variant_empty variant_new"
  by (simp_all add: variant_ok_def variant_abs_def variant_empty_def variant_new_def)

lemma variant_eta [simp]: "\<lparr>vr_memory = vr_memory x, vr_type = vr_type x\<rparr> = (x :: ('t, 'v) variant)"
  by (cases x) simp

lemma variant_empty_iff: "variant_ok ts x \<Longrightarrow> variant_empty x \<longleftrightarrow> variant_abs x = None"
  by (erule variant_okE) (auto simp: variant_empty_def index_of_range)

lemma reset_ok:
  assumes "variant_ok ts x"
  shows "\<exists>y. rv_reset ts x = Some y \<and> lv_reset ts x = Some y \<and> vr_type y = -1 \<and> variant_ok ts y \<and> variant_abs y = None"
  using assms
  by (cases rule: variant_okE)
    (auto simp: rv_reset_def lv_reset_def index_of_range recursion_finds(1) [OF _ _ order_refl] table_entry obj_destroy_def variant_ok_def)

text \<open>
  Copying and moving an object to another variant: the same in both implementations, whatever the
  target was before.
\<close>

lemma copy_ok:
  assumes "variant_ok ts x" and "\<not> variant_empty x"
  shows "rv_construct_copy ts ts this x = Some x"
    and "\<exists>f. lookup_table_apply stub_construct_copy ts (vr_type x) = Some f \<and> f (vr_memory x) = Some (vr_memory x)"
  using assms
  by (auto elim!: variant_okE simp: variant_empty_def recursion_finds(2) [OF _ _ order_refl] table_entry
      obj_read_def stub_construct_copy_def)

lemma move_ok:
  assumes "variant_ok ts x" and "\<not> variant_empty x"
  obtains m f where "rv_construct_move ts ts this x = Some (x, \<lparr>vr_memory = m, vr_type = -1\<rparr>)"
    and "lookup_table_apply stub_construct_move ts (vr_type x) = Some f" "f (vr_memory x) = Some (vr_memory x, m)"
  using assms
  by (auto elim!: variant_okE simp: variant_empty_def recursion_finds(3) [OF _ _ order_refl] table_entry
      obj_read_def obj_move_def stub_construct_move_def)

lemma apply_ok:
  assumes "variant_ok ts x" and "distinct ts"
  shows "\<exists>y s'. rv_apply f ts x s = Some (\<not> variant_empty x, y, s') \<and> lv_apply f ts x s = Some (\<not> variant_empty x, y, s') \<and>
    variant_ok ts y \<and> variant_abs y = map_option (\<lambda>(t, v). (t, fst (f t v s))) (variant_abs x) \<and>
    s' = (case variant_abs x of None \<Rightarrow> s | Some (t, v) \<Rightarrow> snd (f t v s))"
  using assms(1)
proof (cases rule: variant_okE)
  case (2 t v)
  then have "rv_apply f ts x s = Some (True, \<lparr>vr_memory = Obj t (fst (f t v s)), vr_type = index_of t ts\<rparr>, snd (f t v s))"
    using rv_call_once [OF 2(1,1) order_refl assms(2), of f v s] by (simp add: rv_apply_def variant_empty_def index_of_range)
  moreover have "lv_apply f ts x s = Some (True, \<lparr>vr_memory = Obj t (fst (f t v s)), vr_type = index_of t ts\<rparr>, snd (f t v s))"
    using 2 by (simp add: lv_apply_def variant_empty_def index_of_range table_entry stub_call_def obj_read_def split: prod.splits)
  ultimately show ?thesis using 2 by (simp add: variant_empty_def index_of_range)
qed (use assms in \<open>auto simp: rv_apply_def lv_apply_def variant_empty_def\<close>)

text \<open>One operation.\<close>

definition refines :: "'t list \<Rightarrow> ('t, 'v) variants option \<Rightarrow> ('t, 'v) variants option \<Rightarrow> ('t, 'v) typed_values \<Rightarrow> bool" where
  "refines ts r l a \<longleftrightarrow> (\<exists>st. r = Some st \<and> l = Some st \<and> (\<forall>i. variant_ok ts (st i)) \<and> (\<forall>i. variant_abs (st i) = a i))"

lemma refinesI:
  "r = Some st \<Longrightarrow> l = Some st \<Longrightarrow> (\<And>i. variant_ok ts (st i)) \<Longrightarrow> (\<And>i. variant_abs (st i) = a i) \<Longrightarrow> refines ts r l a"
  by (auto simp: refines_def)

lemma new_refines:
  assumes st: "\<And>k. variant_ok ts (st k)" and "i \<noteq> j"
  shows "refines ts (rv_copy_new ts i j st) (lv_copy_new ts i j st) (value_exec (VCopyNew i j) (variant_abs \<circ> st))"
    and "refines ts (rv_move_new ts i j st) (lv_move_new ts i j st) (value_exec (VMoveNew i j) (variant_abs \<circ> st))"
proof -
  show "refines ts (rv_copy_new ts i j st) (lv_copy_new ts i j st) (value_exec (VCopyNew i j) (variant_abs \<circ> st))"
  proof (cases "variant_empty (st j)")
    case False
    then show ?thesis using copy_ok [OF st False] st
      by (intro refinesI [of _ "st(i := st j)"]) (auto simp: rv_copy_new_def lv_copy_new_def)
  qed (use st variant_empty_iff [OF st, of j] in \<open>auto simp: rv_copy_new_def lv_copy_new_def intro!: refinesI\<close>)
  show "refines ts (rv_move_new ts i j st) (lv_move_new ts i j st) (value_exec (VMoveNew i j) (variant_abs \<circ> st))"
  proof (cases "variant_empty (st j)")
    case False
    from move_ok [OF st False, of variant_new] obtain m f
      where "rv_construct_move ts ts variant_new (st j) = Some (st j, \<lparr>vr_memory = m, vr_type = -1\<rparr>)"
        "lookup_table_apply stub_construct_move ts (vr_type (st j)) = Some f" "f (vr_memory (st j)) = Some (vr_memory (st j), m)"
      by blast
    then show ?thesis using False st assms(2)
      by (intro refinesI [of _ "st(i := st j, j := \<lparr>vr_memory = m, vr_type = -1\<rparr>)"]) (auto simp: rv_move_new_def lv_move_new_def)
  qed (use st variant_empty_iff [OF st, of j] in \<open>auto simp: rv_move_new_def lv_move_new_def intro!: refinesI\<close>)
qed

lemma assign_refines:
  assumes st: "\<And>k. variant_ok ts (st k)"
  shows "refines ts (rv_copy_assign ts i j st) (lv_copy_assign ts i j st) ((variant_abs \<circ> st)(i := if i = j then None else variant_abs (st j)))"
    and "refines ts (rv_move_assign ts i j st) (lv_move_assign ts i j st) (value_exec (VMoveAssign i j) (variant_abs \<circ> st))"
proof -
  obtain r where r: "rv_reset ts (st i) = Some r" "lv_reset ts (st i) = Some r" "variant_ok ts r" "variant_abs r = None"
    using reset_ok [OF st, of i] by blast
  let ?st = "st(i := r)"
  have st': "variant_ok ts (?st k)" for k using st r(3) by simp
  have ij: "\<not> variant_empty (?st j) \<Longrightarrow> i \<noteq> j" using variant_empty_iff [OF r(3)] r(4) by auto
  show "refines ts (rv_copy_assign ts i j st) (lv_copy_assign ts i j st) ((variant_abs \<circ> st)(i := if i = j then None else variant_abs (st j)))"
  proof (cases "variant_empty (?st j)")
    case False
    then show ?thesis using copy_ok [OF st' False] r(1,2) st ij [OF False]
      by (intro refinesI [of _ "st(i := st j)"]) (auto simp: rv_copy_assign_def lv_copy_assign_def)
  qed (use st' r variant_empty_iff [OF st'] in \<open>auto simp: rv_copy_assign_def lv_copy_assign_def intro!: refinesI [of _ ?st]\<close>)
  show "refines ts (rv_move_assign ts i j st) (lv_move_assign ts i j st) (value_exec (VMoveAssign i j) (variant_abs \<circ> st))"
  proof (cases "variant_empty (?st j)")
    case False
    from move_ok [OF st' False, of r] obtain m f
      where "rv_construct_move ts ts r (?st j) = Some (?st j, \<lparr>vr_memory = m, vr_type = -1\<rparr>)"
        "lookup_table_apply stub_construct_move ts (vr_type (?st j)) = Some f" "f (vr_memory (?st j)) = Some (vr_memory (?st j), m)"
      by blast
    then show ?thesis using False st r(1,2) ij [OF False]
      by (intro refinesI [of _ "st(i := st j, j := \<lparr>vr_memory = m, vr_type = -1\<rparr>)"])
        (auto simp: rv_move_assign_def lv_move_assign_def)
  qed (use st' r variant_empty_iff [OF st'] in \<open>auto simp: rv_move_assign_def lv_move_assign_def intro!: refinesI [of _ ?st]\<close>)
qed

lemma exec_refines:
  assumes ok: "\<forall>k. variant_ok ts (st k)" and "distinct ts" and "vcmd_ok ts c"
  shows "refines ts (rv_exec ts c st) (lv_exec ts c st) (value_exec c (variant_abs \<circ> st))"
proof -
  have st: "variant_ok ts (st k)" for k using ok by blast
  show ?thesis
  proof (cases c)
    case (VEmplace i t v)
    obtain y where "rv_reset ts (st i) = Some y" "lv_reset ts (st i) = Some y" using reset_ok [OF st] by blast
    then show ?thesis using VEmplace st assms(3)
      by (intro refinesI [of _ "st(i := \<lparr>vr_memory = Obj t v, vr_type = index_of t ts\<rparr>)"])
        (auto simp: rv_emplace_def lv_emplace_def index_of_range)
  next
    case (VReset i)
    obtain y where "rv_reset ts (st i) = Some y" "lv_reset ts (st i) = Some y" "variant_ok ts y" "variant_abs y = None"
      using reset_ok [OF st] by blast
    then show ?thesis using VReset st by (intro refinesI [of _ "st(i := y)"]) (auto simp: on_variant_def)
  next
    case (VCall i f)
    obtain b y where "rv_apply (\<lambda>t v s. (f t v, s)) ts (st i) () = Some (b, y, ())" "variant_ok ts y"
        "lv_apply (\<lambda>t v s. (f t v, s)) ts (st i) () = Some (b, y, ())"
        "variant_abs y = map_option (\<lambda>(t, v). (t, f t v)) (variant_abs (st i))"
      using apply_ok [OF st [of i] assms(2), of "\<lambda>t v s. (f t v, s)" "()"] by auto
    then show ?thesis using VCall st by (intro refinesI [of _ "st(i := y)"]) (auto simp: on_variant_def)
  next
    case (VCopyAssign i j)
    then show ?thesis using assign_refines(1) [of ts st i j, OF st] assms(3) by simp
  qed (use new_refines [OF st] assign_refines(2) [OF st] assms(3) in auto)
qed

lemma run_refines:
  assumes "\<forall>k. variant_ok ts (st k)" and "distinct ts" and "\<forall>c \<in> set cs. vcmd_ok ts c"
  shows "refines ts (run_all (rv_exec ts) cs st) (run_all (lv_exec ts) cs st) (fold value_exec cs (variant_abs \<circ> st))"
  using assms(1,3)
proof (induction cs arbitrary: st)
  case Nil
  then show ?case by (intro refinesI [of _ st]) auto
next
  case (Cons c cs)
  obtain st1 where st1: "rv_exec ts c st = Some st1" "lv_exec ts c st = Some st1" "\<forall>i. variant_ok ts (st1 i)"
      "\<forall>i. variant_abs (st1 i) = value_exec c (variant_abs \<circ> st) i"
    using exec_refines [OF Cons.prems(1) assms(2), of c] Cons.prems(2) by (auto simp: refines_def)
  then have "variant_abs \<circ> st1 = value_exec c (variant_abs \<circ> st)" by auto
  then show ?case using Cons.IH [of st1] Cons.prems(2) st1 by (simp add: comp_def)
qed

lemma as_pointer_iff:
  "variant_ok ts x \<Longrightarrow> t \<in> set ts \<Longrightarrow> as_pointer ts t x = Some (Obj t v) \<longleftrightarrow> variant_abs x = Some (t, v)"
  by (erule variant_okE) (auto simp: as_pointer_def index_of_range)

lemma compare_absent: "set us \<subseteq> set ts \<Longrightarrow> vr_type y = -1 \<Longrightarrow> rv_compare eq ts us z y = Some False"
  by (induction us) (auto simp: index_of_range)

lemma comparison_ok:
  assumes "variant_ok ts x" and "variant_ok ts y"
  shows "lv_eq eq ts x y = Some (value_eq eq (variant_abs x) (variant_abs y))"
    and "variant_empty y \<or> map_option fst (variant_abs x) = map_option fst (variant_abs y) \<Longrightarrow>
      rv_eq eq ts x y = Some (value_eq eq (variant_abs x) (variant_abs y))"
proof -
  have "lv_eq eq ts x y = Some (value_eq eq (variant_abs x) (variant_abs y)) \<and>
    (variant_empty y \<or> map_option fst (variant_abs x) = map_option fst (variant_abs y) \<longrightarrow>
      rv_eq eq ts x y = Some (value_eq eq (variant_abs x) (variant_abs y)))"
    using assms(2)
  proof (cases rule: variant_okE)
    case 1
    with assms(1) show ?thesis
      by (cases rule: variant_okE) (auto simp: rv_eq_def lv_eq_def compare_absent variant_empty_def index_of_range)
  next
    case (2 u w)
    with assms(1) show ?thesis
      by (cases rule: variant_okE)
        (auto simp: rv_eq_def lv_eq_def variant_empty_def index_of_range index_of_range(4) [symmetric] index_of_eq_iff table_entry stub_compare_def
          obj_read_def recursion_finds(4) [OF _ _ order_refl])
  qed
  then show "lv_eq eq ts x y = Some (value_eq eq (variant_abs x) (variant_abs y))"
    "variant_empty y \<or> map_option fst (variant_abs x) = map_option fst (variant_abs y) \<Longrightarrow>
      rv_eq eq ts x y = Some (value_eq eq (variant_abs x) (variant_abs y))" by auto
qed


definition sample_cmds :: "(nat, int) vcmd list" where
  "sample_cmds = [VEmplace 0 1 5, VCopyNew 1 0, VCall 1 (\<lambda>t v. v + int t), VMoveAssign 2 1, VCopyAssign 3 2]"


text \<open>
  Comparing. The table implementation compares types first and then values, and is always defined. The
  recursive one reads its own storage under the type of the other operand: it gives the same answer when
  the types agree or the other operand is empty, and has no defined result in every other case.
\<close>

theorem variant_comparison:
  assumes "variant_ok ts x" and "variant_ok ts y" and "variant_empty x \<longrightarrow> vr_memory x = NoObj"
  shows "lv_eq eq ts x y = Some (value_eq eq (variant_abs x) (variant_abs y)) \<and>
    rv_eq eq ts x y =
      (if variant_empty y \<or> map_option fst (variant_abs x) = map_option fst (variant_abs y) then lv_eq eq ts x y else None)"
proof (cases "variant_empty y \<or> map_option fst (variant_abs x) = map_option fst (variant_abs y)")
  case True
  then show ?thesis using comparison_ok [OF assms(1,2)] by simp
next
  case False
  then obtain u w where y: "u \<in> set ts" "y = \<lparr>vr_memory = Obj u w, vr_type = index_of u ts\<rparr>"
    using assms(2) by (auto elim!: variant_okE simp: variant_empty_def)
  have "rv_eq eq ts x y = None"
    using assms(1) False y assms(3)
    by (cases rule: variant_okE)
      (auto simp: rv_eq_def variant_empty_def index_of_range index_of_range(4) [symmetric] index_of_eq_iff obj_read_def
        recursion_finds(4) [OF _ _ order_refl])
  then show ?thesis using comparison_ok(1) [OF assms(1,2)] False by simp
qed

theorem variant_comparison_witness:
  "lv_eq (\<lambda>_. (=)) [0, 1 :: nat] \<lparr>vr_memory = Obj 0 (7 :: int), vr_type = index_of 0 [0, 1 :: nat]\<rparr>
      \<lparr>vr_memory = Obj 1 7, vr_type = index_of 1 [0, 1 :: nat]\<rparr> = Some False \<and>
   rv_eq (\<lambda>_. (=)) [0, 1 :: nat] \<lparr>vr_memory = Obj 0 (7 :: int), vr_type = index_of 0 [0, 1 :: nat]\<rparr>
      \<lparr>vr_memory = Obj 1 7, vr_type = index_of 1 [0, 1 :: nat]\<rparr> = None"
  using variant_comparison [of "[0, 1 :: nat]" "\<lparr>vr_memory = Obj 0 (7 :: int), vr_type = index_of 0 [0, 1 :: nat]\<rparr>"
      "\<lparr>vr_memory = Obj 1 7, vr_type = index_of 1 [0, 1 :: nat]\<rparr>" "\<lambda>_. (=)"]
  by (simp add: variant_empty_def index_of_range)

text \<open>
  Three weaknesses. \<^verbatim>\<open>as_pointer\<close> asked for a type that is not in the list gives a pointer into the raw
  storage of an empty variant, because both indices are -1. A function called on a variant whose list names a type twice runs twice in the
  recursive implementation. A moved-from variant counts as empty although its storage still holds an
  object, which no operation destroys.
\<close>

lemma detail_index_of_absent: "t \<notin> set ts \<Longrightarrow> detail_index_of t i ts = -1"
  by (induction t i ts rule: detail_index_of.induct) auto

lemma foreign_type_points_into_empty_variant: "t \<notin> set ts \<Longrightarrow> as_pointer ts t variant_new = Some NoObj"
  by (simp add: as_pointer_def variant_new_def index_of_def detail_index_of_absent)

lemma duplicate_type_is_called_twice:
  "rv_apply (\<lambda>_ v n. (v, n + 1)) [t, t] \<lparr>vr_memory = Obj t v, vr_type = 0\<rparr> (0 :: nat) =
     Some (True, \<lparr>vr_memory = Obj t v, vr_type = 0\<rparr>, 2)"
  "lv_apply (\<lambda>_ v n. (v, n + 1)) [t, t] \<lparr>vr_memory = Obj t v, vr_type = 0\<rparr> (0 :: nat) =
     Some (True, \<lparr>vr_memory = Obj t v, vr_type = 0\<rparr>, 1)"
  by (simp_all add: rv_apply_def lv_apply_def variant_empty_def index_of_def obj_read_def lookup_table_apply_def stub_call_def)

lemma moved_variant_leaks:
  assumes "t \<in> set ts" and "st j = \<lparr>vr_memory = Obj t v, vr_type = index_of t ts\<rparr>" and "i \<noteq> j"
  shows "\<exists>st'. rv_move_new ts i j st = Some st' \<and> vr_memory (st' j) = MovedFrom t \<and> rv_reset ts (st' j) = Some (st' j)"
  using assms by (simp add: rv_move_new_def variant_empty_def index_of_range recursion_finds(3) [OF _ _ order_refl]
      obj_move_def obj_read_def rv_reset_def)

end
