(* ===== verification/Jinx_LinkedList.thy ===== *)
theory Jinx_LinkedList
  imports Jinx_Prelude
begin

text \<open>
  The two intrusive lists of \<^verbatim>\<open>include/jinx/linkedlist.hpp\<close>.

  \<^item> \<open>linked_list\<close> is \<^verbatim>\<open>LinkedList<T>\<close>: an explicit store of \<^verbatim>\<open>_prev\<close> and
    \<^verbatim>\<open>_next\<close> pointers over the sentinel \<open>End\<close> (the member \<^verbatim>\<open>_end\<close>) and the
    nodes of the client, the head pointer and the element counter. A null pointer is
    \<open>None\<close>; dereferencing it is undefined behaviour and makes the operation \<open>None\<close>.
  \<^item> \<open>tslist\<close> is \<^verbatim>\<open>LinkedListThreadSafe<T>\<close>: a stack of nodes linked by \<^verbatim>\<open>_next\<close>,
    here with each compare-exchange loop executed without interference.

  The representation predicates \<open>ll_rep\<close> (the list is consistent from both ends) and
  \<open>ll_back\<close> (consistent from the back; the head may be stale) relate the store to a plain
  list of nodes. The locales \<open>front_list\<close>, \<open>back_list\<close> and \<open>stack\<close> are the
  interfaces the clients use, and are interpreted on the two models.
\<close>

section \<open>The doubly linked list\<close>

datatype 'n addr = End | Node 'n

record 'n linked_list =
  ll_next :: "'n addr \<Rightarrow> 'n addr option"
  ll_prev :: "'n addr \<Rightarrow> 'n addr option"
  ll_head :: "'n addr"
  ll_size :: nat

definition ll_new :: "'n linked_list" where
  "ll_new = \<lparr>ll_next = (\<lambda>_. None), ll_prev = (\<lambda>_. None), ll_head = End, ll_size = 0\<rparr>"

definition is_inserted :: "'n \<Rightarrow> 'n linked_list \<Rightarrow> bool" where
  "is_inserted n l \<longleftrightarrow> ll_prev l (Node n) \<noteq> None \<or> ll_next l (Node n) \<noteq> None"

definition push_front :: "'n \<Rightarrow> 'n linked_list \<Rightarrow> SuccessfulFailed \<times> 'n linked_list" where
  "push_front n l =
     (if ll_next l (Node n) \<noteq> None \<or> ll_prev l (Node n) \<noteq> None then (Failed, l)
      else
        let prev1 = (ll_prev l)(ll_head l := Some (Node n));
            next1 = (ll_next l)(Node n := Some (ll_head l));
            prev2 = prev1(Node n := None)
        in (Successful,
            l\<lparr>ll_next := next1, ll_prev := prev2, ll_head := Node n,
              ll_size := add64 (ll_size l) 1\<rparr>))"

definition push_back :: "'n \<Rightarrow> 'n linked_list \<Rightarrow> SuccessfulFailed \<times> 'n linked_list" where
  "push_back n l =
     (if ll_next l (Node n) \<noteq> None \<or> ll_prev l (Node n) \<noteq> None then (Failed, l)
      else
        let prev1 = (ll_prev l)(Node n := ll_prev l End);
            next1 = (ll_next l)(Node n := Some End);
            next2 = (case prev1 (Node n) of None \<Rightarrow> next1 | Some p \<Rightarrow> next1(p := Some (Node n)));
            prev2 = prev1(End := Some (Node n))
        in (Successful,
            l\<lparr>ll_next := next2, ll_prev := prev2, ll_size := add64 (ll_size l) 1\<rparr>))"

text \<open>
  \<^verbatim>\<open>erase\<close> takes the address it is given, which may be the sentinel
  (\<^verbatim>\<open>front()\<close> of an empty list is \<^verbatim>\<open>&_end\<close>).
\<close>

definition erase :: "'n addr \<Rightarrow> 'n linked_list \<Rightarrow> (SuccessfulFailed \<times> 'n linked_list) option" where
  "erase a l =
     (case (ll_next l a, ll_prev l a) of
        (None, None) \<Rightarrow> Some (Failed, l)
      | (Some nx, None) \<Rightarrow>
          let prev1 = (ll_prev l)(nx := None);
              next1 = (ll_next l)(a := None)
          in Some (Successful,
               l\<lparr>ll_next := next1, ll_prev := prev1, ll_head := nx,
                 ll_size := sub64 (ll_size l) 1\<rparr>)
      | (None, Some p) \<Rightarrow> None
      | (Some nx, Some p) \<Rightarrow>
          let next1 = (ll_next l)(p := Some nx);
              prev1 = (ll_prev l)(nx := Some p);
              prev2 = prev1(a := None);
              next2 = next1(a := None)
          in Some (Successful,
               l\<lparr>ll_next := next2, ll_prev := prev2, ll_size := sub64 (ll_size l) 1\<rparr>))"

definition ll_empty :: "'n linked_list \<Rightarrow> bool" where
  "ll_empty l \<longleftrightarrow> ll_size l = 0"

definition ll_front :: "'n linked_list \<Rightarrow> 'n addr" where
  "ll_front l = ll_head l"

definition ll_back_ptr :: "'n linked_list \<Rightarrow> 'n addr option" where
  "ll_back_ptr l = ll_prev l End"

definition pop_back :: "'n linked_list \<Rightarrow> (SuccessfulFailed \<times> 'n linked_list) option" where
  "pop_back l = Option.bind (ll_back_ptr l) (\<lambda>a. erase a l)"

definition pop_front :: "'n linked_list \<Rightarrow> (SuccessfulFailed \<times> 'n linked_list) option" where
  "pop_front l = erase (ll_front l) l"

text \<open>
  \<^verbatim>\<open>for_each\<close> runs a callback on a state that holds the list (\<open>getl\<close> projects it):
  the successor is read before the callback runs, so the callback may unlink its node.
\<close>

partial_function (option) for_each_from ::
    "('s \<Rightarrow> 'n linked_list) \<Rightarrow> ('n \<Rightarrow> 's \<Rightarrow> 's option) \<Rightarrow> 'n addr option \<Rightarrow> 's \<Rightarrow> 's option" where
  "for_each_from getl f p s =
     (case p of
        None \<Rightarrow> None
      | Some End \<Rightarrow> Some s
      | Some (Node n) \<Rightarrow>
          (let nx = ll_next (getl s) (Node n)
           in Option.bind (f n s) (\<lambda>s'. for_each_from getl f nx s')))"

definition for_each ::
    "('s \<Rightarrow> 'n linked_list) \<Rightarrow> ('n \<Rightarrow> 's \<Rightarrow> 's option) \<Rightarrow> 's \<Rightarrow> 's option" where
  "for_each getl f s = for_each_from getl f (Some (ll_head (getl s))) s"

definition ll_clear :: "'n linked_list \<Rightarrow> 'n linked_list option" where
  "ll_clear l = for_each (\<lambda>l. l) (\<lambda>n l. map_option snd (erase (Node n) l)) l"

section \<open>The representation predicates\<close>

text \<open>The pointer maps that represent a list of nodes.\<close>

definition first_addr :: "'n list \<Rightarrow> 'n addr" where
  "first_addr xs = (case xs of [] \<Rightarrow> End | x # _ \<Rightarrow> Node x)"

fun nextf :: "'n list \<Rightarrow> 'n addr \<Rightarrow> 'n addr option" where
  "nextf [] = (\<lambda>_. None)"
| "nextf (x # xs) = (nextf xs)(Node x := Some (first_addr xs))"

fun prevf :: "'n addr option \<Rightarrow> 'n list \<Rightarrow> 'n addr \<Rightarrow> 'n addr option" where
  "prevf p [] = (\<lambda>_. None)(End := p)"
| "prevf p (x # xs) = (prevf (Some (Node x)) xs)(Node x := p)"

definition ll_links :: "'n linked_list \<Rightarrow> 'n list \<Rightarrow> bool" where
  "ll_links l xs \<longleftrightarrow>
     distinct xs \<and> ll_next l = nextf xs \<and> ll_prev l = prevf None xs \<and>
     ll_size l = length xs \<and> length xs < size_max"

definition ll_rep :: "'n linked_list \<Rightarrow> 'n list \<Rightarrow> bool" where
  "ll_rep l xs \<longleftrightarrow> ll_links l xs \<and> ll_head l = first_addr xs"

definition ll_back :: "'n linked_list \<Rightarrow> 'n list \<Rightarrow> bool" where
  "ll_back l xs \<longleftrightarrow> ll_links l xs \<and> (ll_head l = first_addr xs \<or> ll_head l = End)"

lemma first_addr_simps [simp]:
  "first_addr [] = End" "first_addr (x # xs) = Node x"
  by (simp_all add: first_addr_def)

lemma ll_rep_back: "ll_rep l xs \<Longrightarrow> ll_back l xs"
  by (simp add: ll_rep_def ll_back_def)

lemma ll_back_links: "ll_back l xs \<Longrightarrow> ll_links l xs"
  by (simp add: ll_back_def)

lemma ll_rep_links: "ll_rep l xs \<Longrightarrow> ll_links l xs"
  by (simp add: ll_rep_def)

lemma nextf_End [simp]: "nextf xs End = None"
  by (induction xs) auto

lemma nextf_notin [simp]: "n \<notin> set xs \<Longrightarrow> nextf xs (Node n) = None"
  by (induction xs) auto

lemma nextf_in: "n \<in> set xs \<Longrightarrow> nextf xs (Node n) \<noteq> None"
  by (induction xs) auto

lemma prevf_notin [simp]: "n \<notin> set xs \<Longrightarrow> prevf p xs (Node n) = None"
  by (induction xs arbitrary: p) auto

lemma prevf_End [simp]: "prevf p xs End = (if xs = [] then p else Some (Node (last xs)))"
  by (induction xs arbitrary: p) auto

lemma ll_new_rep [rep_intros]: "ll_rep ll_new []"
  by (auto simp: ll_rep_def ll_links_def ll_new_def)

lemma is_inserted_iff:
  assumes "ll_links l xs"
  shows "is_inserted n l \<longleftrightarrow> n \<in> set xs"
proof (cases "n \<in> set xs")
  case True
  with assms nextf_in show ?thesis
    by (fastforce simp: is_inserted_def ll_links_def)
next
  case False
  with assms show ?thesis
    by (simp add: is_inserted_def ll_links_def)
qed

lemma ll_empty_iff: "ll_links l xs \<Longrightarrow> ll_empty l \<longleftrightarrow> xs = []"
  by (simp add: ll_empty_def ll_links_def)

lemma ll_back_ptr_eq:
  "ll_links l xs \<Longrightarrow> ll_back_ptr l = (if xs = [] then None else Some (Node (last xs)))"
  by (simp add: ll_back_ptr_def ll_links_def)

subsection \<open>Insertion\<close>

lemma nextf_snoc:
  "n \<notin> set xs \<Longrightarrow> distinct xs \<Longrightarrow>
   nextf (xs @ [n]) =
     (if xs = [] then (nextf xs)(Node n := Some End)
      else (nextf xs)(Node n := Some End, Node (last xs) := Some (Node n)))"
proof (induction xs)
  case Nil
  then show ?case by simp
next
  case (Cons x xs)
  show ?case
  proof (cases "xs = []")
    case True
    with Cons.prems show ?thesis by (auto simp: fun_eq_iff)
  next
    case False
    have IH: "nextf (xs @ [n]) = (nextf xs)(Node n := Some End, Node (last xs) := Some (Node n))"
      using Cons False by (simp add: fun_upd_def)
    have "x \<noteq> last xs" using Cons.prems False by auto
    moreover have "first_addr (xs @ [n]) = first_addr xs"
      using False by (cases xs) auto
    ultimately show ?thesis
      using False Cons.prems by (auto simp: IH fun_eq_iff)
  qed
qed

lemma prevf_snoc:
  "n \<notin> set xs \<Longrightarrow>
   prevf p (xs @ [n]) = (prevf p xs)(Node n := prevf p xs End, End := Some (Node n))"
  by (induction xs arbitrary: p) (auto simp: fun_eq_iff)

lemma prevf_first: "x \<notin> set xs \<Longrightarrow> distinct xs \<Longrightarrow>
   prevf (Some (Node x)) xs = (prevf None xs)(first_addr xs := Some (Node x))"
  by (cases xs) (auto simp: fun_eq_iff)

lemma inserted_cond:
  "ll_links l xs \<Longrightarrow>
   (ll_next l (Node n) \<noteq> None \<or> ll_prev l (Node n) \<noteq> None) \<longleftrightarrow> n \<in> set xs"
  using is_inserted_iff [of l xs n] unfolding is_inserted_def by blast

lemma push_front_Failed: "ll_links l xs \<Longrightarrow> n \<in> set xs \<Longrightarrow> push_front n l = (Failed, l)"
  using inserted_cond [of l xs n] unfolding push_front_def by simp

lemma push_back_Failed: "ll_links l xs \<Longrightarrow> n \<in> set xs \<Longrightarrow> push_back n l = (Failed, l)"
  using inserted_cond [of l xs n] unfolding push_back_def by simp

lemma push_front_rep:
  assumes "ll_rep l xs" and "n \<notin> set xs" and "Suc (length xs) < size_max"
  shows "fst (push_front n l) = Successful \<and> ll_rep (snd (push_front n l)) (n # xs)"
proof -
  have links: "ll_links l xs" and head: "ll_head l = first_addr xs"
    using assms(1) by (auto simp: ll_rep_def)
  have cond: "\<not> (ll_next l (Node n) \<noteq> None \<or> ll_prev l (Node n) \<noteq> None)"
    using inserted_cond [OF links] assms(2) by blast
  have "prevf None (n # xs) = ((prevf None xs)(first_addr xs := Some (Node n)))(Node n := None)"
    using links assms(2) by (simp add: prevf_first ll_links_def)
  then show ?thesis
    using links head cond assms(2,3)
    by (simp add: push_front_def ll_rep_def ll_links_def add64_exact Let_def)
qed

lemma push_back_links:
  assumes links: "ll_links l xs" and n: "n \<notin> set xs" and len: "Suc (length xs) < size_max"
  shows "fst (push_back n l) = Successful \<and> ll_links (snd (push_back n l)) (xs @ [n]) \<and>
         ll_head (snd (push_back n l)) = ll_head l"
proof -
  have cond: "\<not> (ll_next l (Node n) \<noteq> None \<or> ll_prev l (Node n) \<noteq> None)"
    using inserted_cond [OF links] n by blast
  have prev: "(prevf None xs)(Node n := prevf None xs End, End := Some (Node n)) =
      prevf None (xs @ [n])"
    by (simp add: prevf_snoc [OF n])
  have "(case prevf None xs End of None \<Rightarrow> (nextf xs)(Node n := Some End)
         | Some p \<Rightarrow> (nextf xs)(Node n := Some End, p := Some (Node n))) = nextf (xs @ [n])"
    using links n by (simp add: nextf_snoc ll_links_def)
  then show ?thesis
    using links cond n len prev
    by (simp add: push_back_def ll_links_def add64_exact Let_def)
qed

lemma push_back_back:
  assumes "ll_back l xs" and "n \<notin> set xs" and "Suc (length xs) < size_max"
  shows "fst (push_back n l) = Successful \<and> ll_back (snd (push_back n l)) (xs @ [n])"
  using push_back_links [OF ll_back_links [OF assms(1)] assms(2,3)] assms(1)
  by (cases xs) (auto simp: ll_back_def)

subsection \<open>Removal\<close>

lemma split_at: "x \<in> set xs \<Longrightarrow> distinct xs \<Longrightarrow>
   \<exists>as bs. xs = as @ x # bs \<and> x \<notin> set as \<and> x \<notin> set bs"
  by (metis distinct.simps(2) distinct_append not_distinct_conv_prefix split_list in_set_conv_decomp_first)

lemma nextf_mid: "distinct (as @ x # bs) \<Longrightarrow> nextf (as @ x # bs) (Node x) = Some (first_addr bs)"
  by (induction as) auto

lemma prevf_mid: "distinct (as @ x # bs) \<Longrightarrow>
   prevf p (as @ x # bs) (Node x) = (if as = [] then p else Some (Node (last as)))"
  by (induction as arbitrary: p) auto

lemma nextf_remove:
  "distinct (as @ p # x # bs) \<Longrightarrow>
   (nextf (as @ p # x # bs))(Node p := Some (first_addr bs), Node x := None) = nextf (as @ p # bs)"
proof (induction as)
  case Nil
  then show ?case by (auto simp: fun_eq_iff)
next
  case (Cons a as)
  then have IH: "(nextf (as @ p # x # bs))(Node p := Some (first_addr bs), Node x := None) =
      nextf (as @ p # bs)" by (simp add: fun_upd_def)
  have "first_addr (as @ p # x # bs) = first_addr (as @ p # bs)"
    by (cases as) auto
  moreover have "a \<noteq> p" "a \<noteq> x" using Cons.prems by auto
  ultimately show ?case
    using Cons.prems by (auto simp: fun_eq_iff fun_cong [OF IH, symmetric])
qed

lemma nextf_remove_first:
  "distinct (x # bs) \<Longrightarrow> (nextf (x # bs))(Node x := None) = nextf bs"
  by (auto simp: fun_eq_iff)

lemma prevf_retarget: "distinct bs \<Longrightarrow> prevf q bs = (prevf r bs)(first_addr bs := q)"
  by (cases bs) (auto simp: fun_eq_iff)

lemma prevf_remove:
  "distinct (as @ x # bs) \<Longrightarrow>
   (prevf r (as @ x # bs))
     (first_addr bs := (if as = [] then r else Some (Node (last as))), Node x := None) =
   prevf r (as @ bs)"
proof (induction as arbitrary: r)
  case Nil
  then have "prevf r bs = (prevf (Some (Node x)) bs)(first_addr bs := r)"
    using prevf_retarget by fastforce
  with Nil show ?case
    by (cases bs) (auto simp: fun_eq_iff)
next
  case (Cons a as)
  from Cons.prems have "distinct (as @ x # bs)" by simp
  note IH = fun_cong [OF Cons.IH [OF this, of "Some (Node a)"]]
  have "first_addr bs \<noteq> Node a" "a \<noteq> x"
    using Cons.prems by (auto simp: first_addr_def split: list.splits)
  moreover have "as = [] \<Longrightarrow> prevf (Some (Node a)) bs =
      (prevf (Some (Node x)) bs)(first_addr bs := Some (Node a), Node x := None)"
    using Cons.prems by (cases bs) (auto simp: fun_eq_iff)
  ultimately show ?case
    by (auto simp: fun_eq_iff IH [symmetric])
qed

lemma erase_links:
  assumes links: "ll_links l (as @ x # bs)"
  shows "\<exists>l'. erase (Node x) l = Some (Successful, l') \<and> ll_links l' (as @ bs) \<and>
           ll_head l' = (if as = [] then first_addr bs else ll_head l)"
proof -
  have dist: "distinct (as @ x # bs)" and nx: "ll_next l = nextf (as @ x # bs)"
    and pv: "ll_prev l = prevf None (as @ x # bs)"
    and sz: "ll_size l = length (as @ x # bs)" "length (as @ x # bs) < size_max"
    using links by (auto simp: ll_links_def)
  have ptrs: "ll_next l (Node x) = Some (first_addr bs)"
      "ll_prev l (Node x) = (if as = [] then None else Some (Node (last as)))"
    using nextf_mid [OF dist] prevf_mid [OF dist] nx pv by auto
  have size: "sub64 (ll_size l) 1 = length (as @ bs)"
    using sz by (subst sub64_exact) simp_all
  show ?thesis
  proof (cases as rule: rev_cases)
    case Nil
    have "(prevf None (x # bs))(first_addr bs := None) = prevf None bs"
      using prevf_remove [of "[]" x bs None] dist Nil by (cases bs) (auto simp: fun_eq_iff)
    then show ?thesis
      using dist nx pv ptrs size sz nextf_remove_first [of x bs] Nil
      by (simp add: erase_def ll_links_def Let_def)
  next
    case (snoc ps p)
    have "(nextf (as @ x # bs))(Node p := Some (first_addr bs), Node x := None) = nextf (as @ bs)"
      using nextf_remove [of ps p x bs] dist snoc by simp
    moreover have "(prevf None (as @ x # bs))(first_addr bs := Some (Node p), Node x := None) =
        prevf None (as @ bs)"
      using prevf_remove [of as x bs None] dist snoc by simp
    ultimately show ?thesis
      using dist nx pv ptrs size sz snoc
      by (simp add: erase_def ll_links_def Let_def fun_upd_twist)
  qed
qed

lemma erase_Failed: "ll_links l xs \<Longrightarrow> x \<notin> set xs \<Longrightarrow> erase (Node x) l = Some (Failed, l)"
  by (simp add: erase_def ll_links_def)

lemma erase_rep:
  assumes "ll_rep l (as @ x # bs)"
  shows "\<exists>l'. erase (Node x) l = Some (Successful, l') \<and> ll_rep l' (as @ bs)"
  using erase_links [OF ll_rep_links [OF assms]] assms
  by (cases as) (auto simp: ll_rep_def)

lemma erase_back:
  assumes "ll_back l (as @ x # bs)"
  shows "\<exists>l'. erase (Node x) l = Some (Successful, l') \<and> ll_back l' (as @ bs)"
  using erase_links [OF ll_back_links [OF assms]] assms
  by (cases as) (auto simp: ll_back_def)

lemma pop_back_back:
  assumes "ll_back l (xs @ [x])"
  shows "\<exists>l'. pop_back l = Some (Successful, l') \<and> ll_back l' xs"
  using erase_back [of l xs x "[]"] assms ll_back_ptr_eq [OF ll_back_links [OF assms]]
  by (simp add: pop_back_def)

lemma pop_back_empty: "ll_links l [] \<Longrightarrow> pop_back l = None"
  by (simp add: pop_back_def ll_back_ptr_eq)

lemma pop_front_rep:
  assumes "ll_rep l (x # xs)"
  shows "\<exists>l'. pop_front l = Some (Successful, l') \<and> ll_rep l' xs"
  using erase_rep [of l "[]" x xs] assms
  by (simp add: pop_front_def ll_front_def ll_rep_def)

lemma pop_front_empty: "ll_rep l [] \<Longrightarrow> pop_front l = Some (Failed, l)"
  by (simp add: pop_front_def ll_front_def erase_def ll_rep_def ll_links_def)

subsection \<open>Iteration\<close>

text \<open>A callback that leaves the links alone sees every node once, in order.\<close>

lemma for_each_from_visit:
  assumes "\<And>n s s'. f n s = Some s' \<Longrightarrow> ll_next (getl s') = ll_next (getl s)"
    and "\<forall>n \<in> set xs. ll_next (getl s) (Node n) = nextf xs (Node n)" and "distinct xs"
  shows "for_each_from getl f (Some (first_addr xs)) s = run_all f xs s"
  using assms
proof (induction xs arbitrary: s)
  case Nil
  then show ?case by (simp add: for_each_from.simps)
next
  case (Cons x xs)
  have nx: "ll_next (getl s) (Node x) = Some (first_addr xs)"
    using Cons.prems(2) by simp
  have "for_each_from getl f (Some (first_addr xs)) s' = run_all f xs s'" if "f x s = Some s'" for s'
  proof (rule Cons.IH [OF Cons.prems(1)])
    show "\<forall>n\<in>set xs. ll_next (getl s') (Node n) = nextf xs (Node n)"
      using Cons.prems(1) [OF that] Cons.prems(2,3) by auto
  qed (use Cons.prems(3) in auto)
  then show ?case
    by (simp add: for_each_from.simps [of getl f "Some (Node x)"] nx Let_def split: bind_splits)
qed

lemma for_each_visit:
  assumes "ll_rep (getl s) xs"
    and "\<And>n s s'. f n s = Some s' \<Longrightarrow> ll_next (getl s') = ll_next (getl s)"
  shows "for_each getl f s = run_all f xs s"
  using assms for_each_from_visit [of f getl xs s]
  by (simp add: for_each_def ll_rep_def ll_links_def)

text \<open>A callback that unlinks its own node or leaves the list alone.\<close>

lemma for_each_from_prune:
  assumes "\<And>n ds ys s. I ds (n # ys) s \<Longrightarrow> \<exists>s'. f n s = Some s' \<and> (I (ds @ [n]) ys s' \<or> I ds ys s')"
    and "\<And>ds ys s. I ds ys s \<Longrightarrow> ll_links (getl s) (ds @ ys)" and "I ds xs s"
  shows "\<exists>s' ds'. for_each_from getl f (Some (first_addr xs)) s = Some s' \<and> I ds' [] s'"
  using assms(3)
proof (induction xs arbitrary: s ds)
  case Nil
  then show ?case by (auto simp: for_each_from.simps)
next
  case (Cons x xs)
  have "ll_links (getl s) (ds @ x # xs)" by (rule assms(2) [OF Cons.prems])
  then have nx: "ll_next (getl s) (Node x) = Some (first_addr xs)"
    by (simp add: ll_links_def nextf_mid)
  obtain s' where s': "f x s = Some s'" and "I (ds @ [x]) xs s' \<or> I ds xs s'"
    using assms(1) [OF Cons.prems] by blast
  then obtain s'' ds' where "for_each_from getl f (Some (first_addr xs)) s' = Some s''" "I ds' [] s''"
    using Cons.IH by blast
  with s' nx show ?case
    by (auto simp: for_each_from.simps [of getl f "Some (Node x)"])
qed

lemma for_each_from_consume:
  assumes "\<And>n ys s. I (n # ys) s \<Longrightarrow> \<exists>s'. f n s = Some s' \<and> I ys s'"
    and "\<And>ys s. I ys s \<Longrightarrow> ll_links (getl s) ys" and "I xs s"
  shows "\<exists>s'. for_each_from getl f (Some (first_addr xs)) s = Some s' \<and> I [] s'"
  using for_each_from_prune [of "\<lambda>ds ys s. ds = [] \<and> I ys s" f getl "[]" xs s] assms by fastforce

lemma ll_clear_rep:
  assumes "ll_rep l xs"
  shows "\<exists>l'. ll_clear l = Some l' \<and> ll_rep l' []"
proof -
  have step: "\<exists>l'. map_option snd (erase (Node n) l) = Some l' \<and> ll_rep l' ys"
    if "ll_rep l (n # ys)" for n ys and l :: "'a linked_list"
    using erase_rep [of l "[]" n ys] that by auto
  show ?thesis
    using for_each_from_consume [of "\<lambda>ys l. ll_rep l ys" "\<lambda>n l. map_option snd (erase (Node n) l)" "\<lambda>l. l" xs l,
        OF step ll_rep_links assms] assms
    by (simp add: ll_clear_def for_each_def ll_rep_def)
qed

text \<open>
  \<^verbatim>\<open>push_back\<close> on an empty list leaves \<^verbatim>\<open>_head\<close> at the sentinel. From then on
  the head is stale: iteration and \<^verbatim>\<open>clear\<close> see no node at all.
\<close>

lemma for_each_stale: "ll_head (getl s) = End \<Longrightarrow> for_each getl f s = Some s"
  by (simp add: for_each_def for_each_from.simps)

lemma ll_clear_stale: "ll_head l = End \<Longrightarrow> ll_clear l = Some l"
  by (simp add: ll_clear_def for_each_stale)

section \<open>The stack of the ready and reserve lists\<close>

record 'n tslist =
  ts_next :: "'n \<Rightarrow> 'n option"
  ts_head :: "'n option"
  ts_size :: nat

definition ts_new :: "'n tslist" where
  "ts_new = \<lparr>ts_next = (\<lambda>_. None), ts_head = None, ts_size = 0\<rparr>"

definition ts_push :: "'n \<Rightarrow> 'n tslist \<Rightarrow> 'n tslist" where
  "ts_push n t =
     t\<lparr>ts_next := (ts_next t)(n := ts_head t), ts_head := Some n, ts_size := add64 (ts_size t) 1\<rparr>"

definition ts_pop :: "'n tslist \<Rightarrow> 'n option \<times> 'n tslist" where
  "ts_pop t =
     (case ts_head t of
        None \<Rightarrow> (None, t)
      | Some n \<Rightarrow> (Some n, t\<lparr>ts_head := ts_next t n, ts_size := sub64 (ts_size t) 1\<rparr>))"

definition get_size_unsafe :: "'n tslist \<Rightarrow> nat" where
  "get_size_unsafe t = ts_size t"

definition get_top_unsafe :: "'n tslist \<Rightarrow> 'n option" where
  "get_top_unsafe t = ts_head t"

definition is_empty_unsafe :: "'n tslist \<Rightarrow> bool" where
  "is_empty_unsafe t \<longleftrightarrow> get_top_unsafe t = None"

fun chain :: "('n \<Rightarrow> 'n option) \<Rightarrow> 'n option \<Rightarrow> 'n list \<Rightarrow> bool" where
  "chain nx p [] \<longleftrightarrow> p = None"
| "chain nx p (x # xs) \<longleftrightarrow> p = Some x \<and> chain nx (nx x) xs"

definition ts_rep :: "'n tslist \<Rightarrow> 'n list \<Rightarrow> bool" where
  "ts_rep t xs \<longleftrightarrow>
     chain (ts_next t) (ts_head t) xs \<and> distinct xs \<and> ts_size t = length xs \<and> length xs < size_max"

lemma chain_upd [simp]: "n \<notin> set xs \<Longrightarrow> chain (nx(n := v)) p xs \<longleftrightarrow> chain nx p xs"
  by (induction xs arbitrary: p) auto

lemma chain_unique: "chain nx p xs \<Longrightarrow> chain nx p ys \<Longrightarrow> xs = ys"
proof (induction xs arbitrary: p ys)
  case Nil
  then show ?case by (cases ys) auto
next
  case (Cons x xs)
  then show ?case by (cases ys) auto
qed

lemma ts_push_rep [rep_intros]:
  "ts_rep t xs \<Longrightarrow> n \<notin> set xs \<Longrightarrow> Suc (length xs) < size_max \<Longrightarrow> ts_rep (ts_push n t) (n # xs)"
  by (auto simp: ts_rep_def ts_push_def add64_exact)

lemma ts_pop_empty: "ts_rep t [] \<Longrightarrow> ts_pop t = (None, t)"
  by (simp add: ts_rep_def ts_pop_def)

lemma ts_pop_rep:
  assumes "ts_rep t (x # xs)"
  shows "\<exists>t'. ts_pop t = (Some x, t') \<and> ts_rep t' xs"
  using assms sub64_exact [of 1 "Suc (length xs)"] by (auto simp: ts_rep_def ts_pop_def)

section \<open>Interfaces\<close>

text \<open>What every client of an intrusive list relies on, whichever end it uses.\<close>

locale node_list =
  fixes rep :: "'l \<Rightarrow> 'n list \<Rightarrow> bool"
    and new :: 'l
    and inserted :: "'n \<Rightarrow> 'l \<Rightarrow> bool"
    and is_empty :: "'l \<Rightarrow> bool"
    and size_of :: "'l \<Rightarrow> nat"
    and del :: "'n \<Rightarrow> 'l \<Rightarrow> (SuccessfulFailed \<times> 'l) option"
  assumes rep_new: "rep new []"
    and rep_distinct: "rep l xs \<Longrightarrow> distinct xs"
    and rep_inserted: "rep l xs \<Longrightarrow> inserted n l \<longleftrightarrow> n \<in> set xs"
    and rep_empty: "rep l xs \<Longrightarrow> is_empty l \<longleftrightarrow> xs = []"
    and rep_size: "rep l xs \<Longrightarrow> size_of l = length xs"
    and del_in: "rep l (as @ n # bs) \<Longrightarrow> \<exists>l'. del n l = Some (Successful, l') \<and> rep l' (as @ bs)"
    and del_notin: "rep l xs \<Longrightarrow> n \<notin> set xs \<Longrightarrow> del n l = Some (Failed, l)"
begin

lemma del_total:
  assumes "rep l xs"
  shows "\<exists>r l'. del n l = Some (r, l') \<and> rep l' (remove1 n xs) \<and> (r = Successful \<longleftrightarrow> n \<in> set xs)"
proof (cases "n \<in> set xs")
  case True
  then obtain as bs where xs: "xs = as @ n # bs" and "n \<notin> set as" by (meson split_list_first)
  then show ?thesis
    using del_in [of l as n bs] assms by (auto simp: remove1_append)
next
  case False
  then show ?thesis using del_notin [OF assms] assms by (auto simp: remove1_idem)
qed

lemma del_twice:
  assumes "rep l xs" and "del n l = Some (r, l')"
  shows "del n l' = Some (Failed, l')"
proof -
  have "rep l' (remove1 n xs)" using del_total [OF assms(1), of n] assms(2) by auto
  moreover have "n \<notin> set (remove1 n xs)"
    using rep_distinct [OF assms(1)] by simp
  ultimately show ?thesis by (rule del_notin)
qed

end

locale back_list = node_list rep new inserted is_empty size_of del
  for rep :: "'l \<Rightarrow> 'n list \<Rightarrow> bool" and new inserted is_empty size_of del +
  fixes ins :: "'n \<Rightarrow> 'l \<Rightarrow> SuccessfulFailed \<times> 'l"
    and backp :: "'l \<Rightarrow> 'n addr option"
  assumes ins_new: "rep l xs \<Longrightarrow> n \<notin> set xs \<Longrightarrow> Suc (length xs) < size_max \<Longrightarrow>
      \<exists>l'. ins n l = (Successful, l') \<and> rep l' (xs @ [n])"
    and ins_old: "rep l xs \<Longrightarrow> n \<in> set xs \<Longrightarrow> ins n l = (Failed, l)"
    and back_last: "rep l (xs @ [n]) \<Longrightarrow> backp l = Some (Node n)"
begin

text \<open>The waiter that is served first is the one that came last.\<close>

lemma last_in_first_out:
  assumes "rep l xs" and "n \<notin> set xs" and "Suc (length xs) < size_max"
  shows "\<exists>l1 l2. ins n l = (Successful, l1) \<and> backp l1 = Some (Node n) \<and>
    del n l1 = Some (Successful, l2) \<and> rep l2 xs"
proof -
  obtain l1 where l1: "ins n l = (Successful, l1)" "rep l1 (xs @ [n])"
    using ins_new [OF assms] by blast
  then show ?thesis
    using back_last [OF l1(2)] del_in [of l1 xs n "[]"] by auto
qed

end

locale front_list = node_list rep new inserted is_empty size_of del
  for rep :: "'l \<Rightarrow> 'n list \<Rightarrow> bool" and new inserted is_empty size_of del +
  fixes ins :: "'n \<Rightarrow> 'l \<Rightarrow> SuccessfulFailed \<times> 'l"
    and front :: "'l \<Rightarrow> 'n addr"
  assumes ins_new: "rep l xs \<Longrightarrow> n \<notin> set xs \<Longrightarrow> Suc (length xs) < size_max \<Longrightarrow>
      \<exists>l'. ins n l = (Successful, l') \<and> rep l' (n # xs)"
    and ins_old: "rep l xs \<Longrightarrow> n \<in> set xs \<Longrightarrow> ins n l = (Failed, l)"
    and front_first: "rep l (n # xs) \<Longrightarrow> front l = Node n"
    and front_end: "rep l [] \<Longrightarrow> front l = End"
begin

lemma last_in_first_out:
  assumes "rep l xs" and "n \<notin> set xs" and "Suc (length xs) < size_max"
  shows "\<exists>l1 l2. ins n l = (Successful, l1) \<and> front l1 = Node n \<and>
    del n l1 = Some (Successful, l2) \<and> rep l2 xs"
proof -
  obtain l1 where l1: "ins n l = (Successful, l1)" "rep l1 (n # xs)"
    using ins_new [OF assms] by blast
  then show ?thesis
    using front_first [OF l1(2)] del_in [of l1 "[]" n xs] by auto
qed

end

locale stack =
  fixes rep :: "'l \<Rightarrow> 'n list \<Rightarrow> bool"
    and new :: 'l
    and push :: "'n \<Rightarrow> 'l \<Rightarrow> 'l"
    and pop :: "'l \<Rightarrow> 'n option \<times> 'l"
    and size_of :: "'l \<Rightarrow> nat"
  assumes rep_new: "rep new []"
    and rep_distinct: "rep l xs \<Longrightarrow> distinct xs"
    and rep_size: "rep l xs \<Longrightarrow> size_of l = length xs"
    and push_rep: "rep l xs \<Longrightarrow> n \<notin> set xs \<Longrightarrow> Suc (length xs) < size_max \<Longrightarrow> rep (push n l) (n # xs)"
    and pop_nil: "rep l [] \<Longrightarrow> pop l = (None, l)"
    and pop_cons: "rep l (x # xs) \<Longrightarrow> \<exists>l'. pop l = (Some x, l') \<and> rep l' xs"
begin

lemma pop_rep: "rep l xs \<Longrightarrow> fst (pop l) = (case xs of [] \<Rightarrow> None | x # _ \<Rightarrow> Some x) \<and> rep (snd (pop l)) (tl xs)"
  using pop_nil pop_cons by (cases xs) fastforce+

lemma push_pop:
  assumes "rep l xs" and "n \<notin> set xs" and "Suc (length xs) < size_max"
  shows "\<exists>l'. pop (push n l) = (Some n, l') \<and> rep l' xs"
  using pop_cons [OF push_rep [OF assms]] .

lemma pushes_rep:
  "rep l xs \<Longrightarrow> distinct (rev ns @ xs) \<Longrightarrow> length (ns @ xs) < size_max \<Longrightarrow>
   rep (fold push ns l) (rev ns @ xs)"
proof (induction ns arbitrary: l xs)
  case Nil
  then show ?case by simp
next
  case (Cons n ns)
  have "rep (push n l) (n # xs)"
    using Cons.prems by (intro push_rep) auto
  then have "rep (fold push ns (push n l)) (rev ns @ n # xs)"
    using Cons.prems by (intro Cons.IH) auto
  then show ?case by simp
qed

end

interpretation blist: back_list ll_back ll_new is_inserted ll_empty ll_size
    "\<lambda>n. erase (Node n)" push_back ll_back_ptr
proof unfold_locales
  show "ll_back ll_new []" using ll_rep_back [OF ll_new_rep] .
  show "distinct xs" if "ll_back l xs" for l and xs :: "'a list"
    using that by (simp add: ll_back_def ll_links_def)
  show "is_inserted n l \<longleftrightarrow> n \<in> set xs" if "ll_back l xs" for n l and xs :: "'a list"
    using is_inserted_iff [OF ll_back_links [OF that]] .
  show "ll_empty l \<longleftrightarrow> xs = []" if "ll_back l xs" for l and xs :: "'a list"
    using ll_empty_iff [OF ll_back_links [OF that]] .
  show "ll_size l = length xs" if "ll_back l xs" for l and xs :: "'a list"
    using that by (simp add: ll_back_def ll_links_def)
  show "erase (Node n) l = Some (Failed, l)" if "ll_back l xs" "n \<notin> set xs" for n l and xs :: "'a list"
    using erase_Failed [OF ll_back_links [OF that(1)] that(2)] .
  show "\<exists>l'. push_back n l = (Successful, l') \<and> ll_back l' (xs @ [n])"
    if "ll_back l xs" "n \<notin> set xs" "Suc (length xs) < size_max" for n l and xs :: "'a list"
    using push_back_back [OF that] by (metis prod.collapse)
  show "push_back n l = (Failed, l)" if "ll_back l xs" "n \<in> set xs" for n l and xs :: "'a list"
    using push_back_Failed [OF ll_back_links [OF that(1)] that(2)] .
  show "ll_back_ptr l = Some (Node n)" if "ll_back l (xs @ [n])" for n l and xs :: "'a list"
    using ll_back_ptr_eq [OF ll_back_links [OF that]] by simp
qed (rule erase_back)

interpretation flist: front_list ll_rep ll_new is_inserted ll_empty ll_size
    "\<lambda>n. erase (Node n)" push_front ll_front
proof unfold_locales
  show "ll_rep ll_new []" by (rule ll_new_rep)
  show "distinct xs" if "ll_rep l xs" for l and xs :: "'a list"
    using that by (simp add: ll_rep_def ll_links_def)
  show "is_inserted n l \<longleftrightarrow> n \<in> set xs" if "ll_rep l xs" for n l and xs :: "'a list"
    using is_inserted_iff [OF ll_rep_links [OF that]] .
  show "ll_empty l \<longleftrightarrow> xs = []" if "ll_rep l xs" for l and xs :: "'a list"
    using ll_empty_iff [OF ll_rep_links [OF that]] .
  show "ll_size l = length xs" if "ll_rep l xs" for l and xs :: "'a list"
    using that by (simp add: ll_rep_def ll_links_def)
  show "erase (Node n) l = Some (Failed, l)" if "ll_rep l xs" "n \<notin> set xs" for n l and xs :: "'a list"
    using erase_Failed [OF ll_rep_links [OF that(1)] that(2)] .
  show "\<exists>l'. push_front n l = (Successful, l') \<and> ll_rep l' (n # xs)"
    if "ll_rep l xs" "n \<notin> set xs" "Suc (length xs) < size_max" for n l and xs :: "'a list"
    using push_front_rep [OF that] by (metis prod.collapse)
  show "push_front n l = (Failed, l)" if "ll_rep l xs" "n \<in> set xs" for n l and xs :: "'a list"
    using push_front_Failed [OF ll_rep_links [OF that(1)] that(2)] .
  show "ll_front l = Node n" if "ll_rep l (n # xs)" for n l and xs :: "'a list"
    using that by (simp add: ll_rep_def ll_front_def)
  show "ll_front l = End" if "ll_rep l []" for l :: "'a linked_list"
    using that by (simp add: ll_rep_def ll_front_def)
qed (rule erase_rep)

interpretation ts: stack ts_rep ts_new ts_push ts_pop get_size_unsafe
proof unfold_locales
  show "ts_rep ts_new []" by (simp add: ts_rep_def ts_new_def)
  show "distinct xs" if "ts_rep t xs" for t and xs :: "'a list"
    using that by (simp add: ts_rep_def)
  show "get_size_unsafe t = length xs" if "ts_rep t xs" for t and xs :: "'a list"
    using that by (simp add: ts_rep_def get_size_unsafe_def)
qed (rule ts_push_rep ts_pop_empty ts_pop_rep; assumption)+

end
