(* ===== verification/Jinx_Error.thy ===== *)
theory Jinx_Error
  imports Jinx_Prelude
begin

text \<open>
  Error codes: \<^verbatim>\<open>include/jinx/error.hpp\<close>, \<^verbatim>\<open>src/error.cpp\<close>, and the enumerations and
  message tables the rest of the library declares with \<^verbatim>\<open>JINX_ERROR_DEFINE\<close> and
  \<^verbatim>\<open>JINX_ERROR_IMPLEMENT\<close>.

  An \<open>Error\<close> is a category pointer with an \<^verbatim>\<open>int\<close>. Categories are singletons that are
  compared by address, here the constructors of \<open>Category\<close>. Moving from an error leaves a null
  category behind (\<open>None\<close>).
\<close>

section \<open>Error enumerations\<close>

datatype ErrorAwaitable =
  ErrorAwaitable_NoError
| ErrorAwaitable_Uninitialized
| ErrorAwaitable_Cancelled
| ErrorAwaitable_Popped
| ErrorAwaitable_InvalidErrorCode
| ErrorAwaitable_NoSys
| ErrorAwaitable_CXXException
| ErrorAwaitable_ExitLoop
| ErrorAwaitable_InternalError

primrec value_ErrorAwaitable :: "ErrorAwaitable \<Rightarrow> int" where
  "value_ErrorAwaitable ErrorAwaitable_NoError = 0"
| "value_ErrorAwaitable ErrorAwaitable_Uninitialized = 1"
| "value_ErrorAwaitable ErrorAwaitable_Cancelled = 2"
| "value_ErrorAwaitable ErrorAwaitable_Popped = 3"
| "value_ErrorAwaitable ErrorAwaitable_InvalidErrorCode = 4"
| "value_ErrorAwaitable ErrorAwaitable_NoSys = 5"
| "value_ErrorAwaitable ErrorAwaitable_CXXException = 6"
| "value_ErrorAwaitable ErrorAwaitable_ExitLoop = 7"
| "value_ErrorAwaitable ErrorAwaitable_InternalError = 8"

datatype ErrorCancel =
  ErrorCancel_NoError
| ErrorCancel_CancelRunningTask
| ErrorCancel_CancelDequeuedTask
| ErrorCancel_DeferredDequeue

primrec value_ErrorCancel :: "ErrorCancel \<Rightarrow> int" where
  "value_ErrorCancel ErrorCancel_NoError = 0"
| "value_ErrorCancel ErrorCancel_CancelRunningTask = 1"
| "value_ErrorCancel ErrorCancel_CancelDequeuedTask = 2"
| "value_ErrorCancel ErrorCancel_DeferredDequeue = 3"

datatype ErrorWait =
  ErrorWait_Timeout

primrec value_ErrorWait :: "ErrorWait \<Rightarrow> int" where
  "value_ErrorWait ErrorWait_Timeout = 1"

datatype ErrorQueue =
  ErrorQueue_NoError
| ErrorQueue_PendingPutError
| ErrorQueue_PendingGetError

primrec value_ErrorQueue :: "ErrorQueue \<Rightarrow> int" where
  "value_ErrorQueue ErrorQueue_NoError = 0"
| "value_ErrorQueue ErrorQueue_PendingPutError = 1"
| "value_ErrorQueue ErrorQueue_PendingGetError = 2"

datatype ErrorBuffer =
  ErrorBuffer_NoError
| ErrorBuffer_OutOfMemory

primrec value_ErrorBuffer :: "ErrorBuffer \<Rightarrow> int" where
  "value_ErrorBuffer ErrorBuffer_NoError = 0"
| "value_ErrorBuffer ErrorBuffer_OutOfMemory = 1"

datatype ErrorAllocate =
  ErrorAllocate_NoError
| ErrorAllocate_RegisterAllocateError
| ErrorAllocate_UnregisterAllocateError

primrec value_ErrorAllocate :: "ErrorAllocate \<Rightarrow> int" where
  "value_ErrorAllocate ErrorAllocate_NoError = 0"
| "value_ErrorAllocate ErrorAllocate_RegisterAllocateError = 1"
| "value_ErrorAllocate ErrorAllocate_UnregisterAllocateError = 2"

datatype ErrorEventEngine =
  ErrorEventEngine_NoError
| ErrorEventEngine_FailedToRegisterTimerEvent
| ErrorEventEngine_FailedToRegisterIOEvent
| ErrorEventEngine_FailedToRegisterSignalEvent
| ErrorEventEngine_FailedToRemoveTimerEvent
| ErrorEventEngine_FailedToRemoveIOEvent
| ErrorEventEngine_FailedToRemoveSignalEvent

primrec value_ErrorEventEngine :: "ErrorEventEngine \<Rightarrow> int" where
  "value_ErrorEventEngine ErrorEventEngine_NoError = 0"
| "value_ErrorEventEngine ErrorEventEngine_FailedToRegisterTimerEvent = 1"
| "value_ErrorEventEngine ErrorEventEngine_FailedToRegisterIOEvent = 2"
| "value_ErrorEventEngine ErrorEventEngine_FailedToRegisterSignalEvent = 3"
| "value_ErrorEventEngine ErrorEventEngine_FailedToRemoveTimerEvent = 4"
| "value_ErrorEventEngine ErrorEventEngine_FailedToRemoveIOEvent = 5"
| "value_ErrorEventEngine ErrorEventEngine_FailedToRemoveSignalEvent = 6"

datatype ErrorStream =
  ErrorStream_NoError
| ErrorStream_EndOfStream
| ErrorStream_BrokenStream

primrec value_ErrorStream :: "ErrorStream \<Rightarrow> int" where
  "value_ErrorStream ErrorStream_NoError = 0"
| "value_ErrorStream ErrorStream_EndOfStream = 1"
| "value_ErrorStream ErrorStream_BrokenStream = 2"

datatype HTTPBuilderStatus =
  HTTPBuilderStatus_NoError
| HTTPBuilderStatus_RequestEntityTooLarge
| HTTPBuilderStatus_ResponseEntityTooLarge

primrec value_HTTPBuilderStatus :: "HTTPBuilderStatus \<Rightarrow> int" where
  "value_HTTPBuilderStatus HTTPBuilderStatus_NoError = 0"
| "value_HTTPBuilderStatus HTTPBuilderStatus_RequestEntityTooLarge = 1"
| "value_HTTPBuilderStatus HTTPBuilderStatus_ResponseEntityTooLarge = 2"

datatype ErrorHTTPClient =
  ErrorHTTPClient_NoError
| ErrorHTTPClient_Uninitialized
| ErrorHTTPClient_OutOfMemory
| ErrorHTTPClient_RequestHeaderTooLarge
| ErrorHTTPClient_BadResponse
| ErrorHTTPClient_EntityTooLarge
| ErrorHTTPClient_EndOfStream

primrec value_ErrorHTTPClient :: "ErrorHTTPClient \<Rightarrow> int" where
  "value_ErrorHTTPClient ErrorHTTPClient_NoError = 0"
| "value_ErrorHTTPClient ErrorHTTPClient_Uninitialized = 1"
| "value_ErrorHTTPClient ErrorHTTPClient_OutOfMemory = 2"
| "value_ErrorHTTPClient ErrorHTTPClient_RequestHeaderTooLarge = 3"
| "value_ErrorHTTPClient ErrorHTTPClient_BadResponse = 4"
| "value_ErrorHTTPClient ErrorHTTPClient_EntityTooLarge = 5"
| "value_ErrorHTTPClient ErrorHTTPClient_EndOfStream = 6"

datatype ErrorWebApp =
  ErrorWebApp_NoError
| ErrorWebApp_OutOfMemory
| ErrorWebApp_ResponseHeaderTooLarge

primrec value_ErrorWebApp :: "ErrorWebApp \<Rightarrow> int" where
  "value_ErrorWebApp ErrorWebApp_NoError = 0"
| "value_ErrorWebApp ErrorWebApp_OutOfMemory = 1"
| "value_ErrorWebApp ErrorWebApp_ResponseHeaderTooLarge = 2"

datatype ErrorCodeOpenSSL =
  ErrorCodeOpenSSL_NoError
| ErrorCodeOpenSSL_HandshakeFailed
| ErrorCodeOpenSSL_Established
| ErrorCodeOpenSSL_EndOfStream
| ErrorCodeOpenSSL_SysCall
| ErrorCodeOpenSSL_ProtocolError
| ErrorCodeOpenSSL_X509Lookup
| ErrorCodeOpenSSL_WantRead
| ErrorCodeOpenSSL_WantWrite

primrec value_ErrorCodeOpenSSL :: "ErrorCodeOpenSSL \<Rightarrow> int" where
  "value_ErrorCodeOpenSSL ErrorCodeOpenSSL_NoError = 0"
| "value_ErrorCodeOpenSSL ErrorCodeOpenSSL_HandshakeFailed = 1"
| "value_ErrorCodeOpenSSL ErrorCodeOpenSSL_Established = 2"
| "value_ErrorCodeOpenSSL ErrorCodeOpenSSL_EndOfStream = 3"
| "value_ErrorCodeOpenSSL ErrorCodeOpenSSL_SysCall = 4"
| "value_ErrorCodeOpenSSL ErrorCodeOpenSSL_ProtocolError = 5"
| "value_ErrorCodeOpenSSL ErrorCodeOpenSSL_X509Lookup = 6"
| "value_ErrorCodeOpenSSL ErrorCodeOpenSSL_WantRead = 7"
| "value_ErrorCodeOpenSSL ErrorCodeOpenSSL_WantWrite = 8"

datatype ErrorEvdns =
  ErrorEvdns_NoError
| ErrorEvdns_Failed

primrec value_ErrorEvdns :: "ErrorEvdns \<Rightarrow> int" where
  "value_ErrorEvdns ErrorEvdns_NoError = 0"
| "value_ErrorEvdns ErrorEvdns_Failed = 1"

text \<open>
  The enumerators of \<^verbatim>\<open>ErrorPosix\<close> with the values the Linux \<^verbatim>\<open>errno.h\<close> gives
  them.
\<close>

definition ErrorPosix :: "(string \<times> int) list" where
  "ErrorPosix = [
     (''ArgumentListTooLong'', 7),
     (''PermissionDenied'', 13),
     (''AddressInUse'', 98),
     (''AddressNotAvailable'', 99),
     (''AddressFamilyNotSupported'', 97),
     (''ResourceUnavailableTryAgain'', 11),
     (''ConnectionAlreadyInProgress'', 114),
     (''BadFileDescriptor'', 9),
     (''BadMessage'', 74),
     (''DeviceOrResourceBusy'', 16),
     (''OperationCanceled'', 125),
     (''NoChildProcesses'', 10),
     (''ConnectionAborted'', 103),
     (''ConnectionRefused'', 111),
     (''ConnectionReset'', 104),
     (''ResourceDeadlockWouldOccur'', 35),
     (''DestinationAddressRequired'', 89),
     (''ArgumentOutOfDomain'', 33),
     (''FileExists'', 17),
     (''BadAddress'', 14),
     (''FileTooLarge'', 27),
     (''HostIsUnreachable'', 113),
     (''IdentifierRemoved'', 43),
     (''IllegalByteSequence'', 84),
     (''OperationInProgress'', 115),
     (''InterruptedFunction'', 4),
     (''InvalidArgument'', 22),
     (''IoError'', 5),
     (''SocketIsConnected'', 106),
     (''IsADirectory'', 21),
     (''TooManyLevelsOfSymbolicLinks'', 40),
     (''FileDescriptorValueTooLarge'', 24),
     (''TooManyLinks'', 31),
     (''MessageTooLarge'', 90),
     (''FilenameTooLong'', 36),
     (''NetworkIsDown'', 100),
     (''ConnectionAbortedByNetwork'', 102),
     (''NetworkUnreachable'', 101),
     (''TooManyFilesOpenInSystem'', 23),
     (''NoBufferSpaceAvailable'', 105),
     (''NoMessageIsAvailable'', 61),
     (''NoSuchDevice'', 19),
     (''NoSuchFileOrDirectory'', 2),
     (''ExecutableFileFormatError'', 8),
     (''NoLocksAvailable'', 37),
     (''NotEnoughMemory'', 12),
     (''NoMessageOfTheDesiredType'', 42),
     (''ProtocolNotAvailable'', 92),
     (''NoSpaceLeft'', 28),
     (''NoStreamResources'', 63),
     (''NotAStream'', 60),
     (''FunctionalityNotSupported'', 38),
     (''TheSocketIsNotConnected'', 107),
     (''NotADirectory'', 20),
     (''DirectoryNotEmpty'', 39),
     (''StateNotRecoverable'', 131),
     (''NotASocket'', 88),
     (''NotSupported'', 95),
     (''InappropriateIOControlOperation'', 25),
     (''NoSuchDeviceOrAddress'', 6),
     (''OperationNotSupported'', 95),
     (''ValueTooLarge'', 75),
     (''PreviousOwnerDied'', 130),
     (''OperationNotPermitted'', 1),
     (''BrokenPipe'', 32),
     (''ProtocolError'', 71),
     (''ProtocolNotSupported'', 93),
     (''ProtocolWrongTypeForSocket'', 91),
     (''ResultTooLarge'', 34),
     (''ReadOnlyFileSystem'', 30),
     (''InvalidSeek'', 29),
     (''NoSuchProcess'', 3),
     (''Reserved'', 116),
     (''StreamTimeout'', 62),
     (''TimedOut'', 110),
     (''TextFileBusy'', 26),
     (''OperationWouldBlock'', 11),
     (''CrossDeviceLink'', 18)]"

definition HTTPStatusCode :: "(string \<times> int) list" where
  "HTTPStatusCode = [
     (''Undefined'', 0),
     (''Continue'', 100),
     (''SwitchingProtocols'', 101),
     (''Ok'', 200),
     (''Created'', 201),
     (''Accepted'', 202),
     (''NonAuthoritativeInformation'', 203),
     (''NoContent'', 204),
     (''ResetContent'', 205),
     (''PartialContent'', 206),
     (''MultipleChoices'', 300),
     (''MovedPermanently'', 301),
     (''Found'', 302),
     (''SeeOther'', 303),
     (''NotModified'', 304),
     (''UseProxy'', 305),
     (''TemporaryRedirect'', 307),
     (''BadRequest'', 400),
     (''Unauthorized'', 401),
     (''PaymentRequired'', 402),
     (''Forbidden'', 403),
     (''NotFound'', 404),
     (''MethodNotAllowed'', 405),
     (''NotAcceptable'', 406),
     (''ProxyAuthenticationRequired'', 407),
     (''RequestTimeOut'', 408),
     (''Conflict'', 409),
     (''Gone'', 410),
     (''LengthRequired'', 411),
     (''PreconditionFailed'', 412),
     (''RequestEntityTooLarge'', 413),
     (''RequestUriTooLarge'', 414),
     (''UnsupportedMediaType'', 415),
     (''RequestedRangeNotSatisfiable'', 416),
     (''ExpectationFailed'', 417),
     (''InternalServerError'', 500),
     (''NotImplemented'', 501),
     (''BadGateway'', 502),
     (''ServiceUnavailable'', 503),
     (''GatewayTimeOut'', 504),
     (''HttpVersionNotSupported'', 505)]"

section \<open>Message tables\<close>

text \<open>
  The bodies given to \<^verbatim>\<open>JINX_ERROR_IMPLEMENT\<close>: a value outside the enumeration falls to the
  text after the switch. The tables of \<^verbatim>\<open>event_engine\<close> and \<^verbatim>\<open>openssl\<close> have no
  statement there, so control flows off the end of a non-void function (\<open>None\<close>). Some texts
  of \<^verbatim>\<open>openssl\<close> come from \<^verbatim>\<open>ERR_error_string\<close>, a parameter.
\<close>

definition message_awaitable :: "int \<Rightarrow> string option" where
  "message_awaitable v =
     (if v = value_ErrorAwaitable ErrorAwaitable_NoError then Some ''No error'' else
      if v = value_ErrorAwaitable ErrorAwaitable_Uninitialized then Some ''Poll an uninitialized awaitable object'' else
      if v = value_ErrorAwaitable ErrorAwaitable_Cancelled then Some ''Task is cancelled'' else
      if v = value_ErrorAwaitable ErrorAwaitable_Popped then Some ''Task is popped'' else
      if v = value_ErrorAwaitable ErrorAwaitable_InvalidErrorCode then Some ''Raise error::Error with value 0'' else
      if v = value_ErrorAwaitable ErrorAwaitable_NoSys then Some ''Function not implemented'' else
      if v = value_ErrorAwaitable ErrorAwaitable_CXXException then Some ''Uncaught C++ exception'' else
      if v = value_ErrorAwaitable ErrorAwaitable_ExitLoop then Some ''Exit loop'' else
      if v = value_ErrorAwaitable ErrorAwaitable_InternalError then Some ''Internal error'' else
      Some ''unknown error value'')"

definition message_cancel :: "int \<Rightarrow> string option" where
  "message_cancel v =
     (if v = value_ErrorCancel ErrorCancel_NoError then Some ''No error'' else
      if v = value_ErrorCancel ErrorCancel_CancelRunningTask then Some ''Try to cancel a running task'' else
      if v = value_ErrorCancel ErrorCancel_CancelDequeuedTask then Some ''Try to cancel a dequeued task'' else
      if v = value_ErrorCancel ErrorCancel_DeferredDequeue then Some ''The task has been cancelled, but it will be dequeue later'' else
      Some ''unknown error value'')"

definition message_wait :: "int \<Rightarrow> string option" where
  "message_wait v =
     (if v = value_ErrorWait ErrorWait_Timeout then Some ''Timeout'' else
      Some ''unknown error value'')"

definition message_queue :: "int \<Rightarrow> string option" where
  "message_queue v =
     (if v = value_ErrorQueue ErrorQueue_NoError then Some ''No error'' else
      if v = value_ErrorQueue ErrorQueue_PendingPutError then Some ''Unable push Put operation into pending list'' else
      if v = value_ErrorQueue ErrorQueue_PendingGetError then Some ''Unable push Gut operation into pending list'' else
      Some ''unknown error value'')"

definition message_buffer :: "int \<Rightarrow> string option" where
  "message_buffer v =
     (if v = value_ErrorBuffer ErrorBuffer_NoError then Some ''No error'' else
      if v = value_ErrorBuffer ErrorBuffer_OutOfMemory then Some ''Out of memory'' else
      Some ''unknown error value'')"

definition message_async_allocate :: "int \<Rightarrow> string option" where
  "message_async_allocate v =
     (if v = value_ErrorAllocate ErrorAllocate_NoError then Some ''No error'' else
      if v = value_ErrorAllocate ErrorAllocate_RegisterAllocateError then Some ''Unable register buffer allocation'' else
      if v = value_ErrorAllocate ErrorAllocate_UnregisterAllocateError then Some ''Unable unregister buffer allocation'' else
      Some ''unknown error value'')"

definition message_event_engine :: "int \<Rightarrow> string option" where
  "message_event_engine v =
     (if v = value_ErrorEventEngine ErrorEventEngine_NoError then Some ''No error'' else
      if v = value_ErrorEventEngine ErrorEventEngine_FailedToRegisterTimerEvent then Some ''Failed to register timer event'' else
      if v = value_ErrorEventEngine ErrorEventEngine_FailedToRegisterIOEvent then Some ''Failed to register IO event'' else
      if v = value_ErrorEventEngine ErrorEventEngine_FailedToRegisterSignalEvent then Some ''Failed to register signal event'' else
      if v = value_ErrorEventEngine ErrorEventEngine_FailedToRemoveTimerEvent then Some ''Failed to remove timer event'' else
      if v = value_ErrorEventEngine ErrorEventEngine_FailedToRemoveIOEvent then Some ''Failed to remove IO event'' else
      if v = value_ErrorEventEngine ErrorEventEngine_FailedToRemoveSignalEvent then Some ''Failed to remove signal event'' else
      None)"

definition message_stream :: "int \<Rightarrow> string option" where
  "message_stream v =
     (if v = value_ErrorStream ErrorStream_NoError then Some ''No error'' else
      if v = value_ErrorStream ErrorStream_EndOfStream then Some ''End of stream'' else
      if v = value_ErrorStream ErrorStream_BrokenStream then Some ''Broken stream'' else
      Some ''unknown error value'')"

definition message_http_builder :: "int \<Rightarrow> string option" where
  "message_http_builder v =
     (if v = value_HTTPBuilderStatus HTTPBuilderStatus_NoError then Some ''No error'' else
      if v = value_HTTPBuilderStatus HTTPBuilderStatus_RequestEntityTooLarge then Some ''Request entity too large'' else
      if v = value_HTTPBuilderStatus HTTPBuilderStatus_ResponseEntityTooLarge then Some ''Response entity too large'' else
      Some ''unkonwn error code'')"

definition message_http_client :: "int \<Rightarrow> string option" where
  "message_http_client v =
     (if v = value_ErrorHTTPClient ErrorHTTPClient_NoError then Some ''No error'' else
      if v = value_ErrorHTTPClient ErrorHTTPClient_OutOfMemory then Some ''Out of memory'' else
      if v = value_ErrorHTTPClient ErrorHTTPClient_RequestHeaderTooLarge then Some ''Request header too large'' else
      if v = value_ErrorHTTPClient ErrorHTTPClient_BadResponse then Some ''Bad response'' else
      if v = value_ErrorHTTPClient ErrorHTTPClient_EntityTooLarge then Some ''Entity too large'' else
      if v = value_ErrorHTTPClient ErrorHTTPClient_EndOfStream then Some ''End of stream'' else
      Some ''unkonwn error code'')"

definition message_webapp :: "int \<Rightarrow> string option" where
  "message_webapp v =
     (if v = value_ErrorWebApp ErrorWebApp_NoError then Some ''No error'' else
      if v = value_ErrorWebApp ErrorWebApp_OutOfMemory then Some ''Out of memory'' else
      if v = value_ErrorWebApp ErrorWebApp_ResponseHeaderTooLarge then Some ''Response header too large'' else
      Some ''unkonwn error code'')"

definition message_openssl :: "(int \<Rightarrow> string) \<Rightarrow> int \<Rightarrow> string option" where
  "message_openssl ERR_error_string v =
     (if v = value_ErrorCodeOpenSSL ErrorCodeOpenSSL_NoError then Some ''No error'' else
      if v = value_ErrorCodeOpenSSL ErrorCodeOpenSSL_HandshakeFailed then Some ''Handshake failed'' else
      if v = value_ErrorCodeOpenSSL ErrorCodeOpenSSL_Established then Some ''Connection established'' else
      if v = value_ErrorCodeOpenSSL ErrorCodeOpenSSL_EndOfStream then Some ''End of stream'' else
      if v = value_ErrorCodeOpenSSL ErrorCodeOpenSSL_SysCall then Some (ERR_error_string 5) else
      if v = value_ErrorCodeOpenSSL ErrorCodeOpenSSL_ProtocolError then Some (ERR_error_string 1) else
      if v = value_ErrorCodeOpenSSL ErrorCodeOpenSSL_X509Lookup then Some (ERR_error_string 4) else
      if v = value_ErrorCodeOpenSSL ErrorCodeOpenSSL_WantRead then Some (ERR_error_string 2) else
      if v = value_ErrorCodeOpenSSL ErrorCodeOpenSSL_WantWrite then Some (ERR_error_string 3) else
      None)"

definition message_evdns :: "int \<Rightarrow> string option" where
  "message_evdns v =
     (if v = value_ErrorEvdns ErrorEvdns_NoError then Some ''No error'' else
      if v = value_ErrorEvdns ErrorEvdns_Failed then Some ''Failed'' else
      Some '''')"

definition message_posix_table :: "(int \<times> string) list" where
  "message_posix_table = [
     (7, ''Argument list too long''),
     (13, ''Permission denied''),
     (98, ''Address in use''),
     (99, ''Address not available''),
     (97, ''Address family not supported''),
     (11, ''Resource unavailable, try again''),
     (114, ''Connection already in progress''),
     (9, ''Bad file descriptor''),
     (74, ''Bad message''),
     (16, ''Device or resource busy''),
     (125, ''Operation canceled''),
     (10, ''No child processes''),
     (103, ''Connection aborted''),
     (111, ''Connection refused''),
     (104, ''Connection reset''),
     (35, ''Resource deadlock would occur''),
     (89, ''Destination address required''),
     (33, ''Mathematics argument out of domain of function''),
     (17, ''File exists''),
     (14, ''Bad address''),
     (27, ''File too large''),
     (113, ''Host is unreachable''),
     (43, ''Identifier removed''),
     (84, ''Illegal byte sequence''),
     (115, ''Operation in progress''),
     (4, ''Interrupted function''),
     (22, ''Invalid argument''),
     (5, ''I/O error''),
     (106, ''Socket is connected''),
     (21, ''Is a directory''),
     (40, ''Too many levels of symbolic links''),
     (24, ''File descriptor value too large''),
     (31, ''Too many links''),
     (90, ''Message too large''),
     (36, ''Filename too long''),
     (100, ''Network is down''),
     (102, ''Connection aborted by network''),
     (101, ''Network unreachable''),
     (23, ''Too many files open in system''),
     (105, ''No buffer space available''),
     (61, ''No message is available on the STREAM head read queue''),
     (19, ''No such device''),
     (2, ''No such file or directory''),
     (8, ''Executable file format error''),
     (37, ''No locks available''),
     (12, ''Not enough space''),
     (42, ''No message of the desired type''),
     (92, ''Protocol not available''),
     (28, ''No space left on device''),
     (63, ''No STREAM resources''),
     (60, ''Not a STREAM''),
     (38, ''Functionality not supported''),
     (107, ''The socket is not connected''),
     (20, ''Not a directory or a symbolic link to a directory''),
     (39, ''Directory not empty''),
     (131, ''State not recoverable''),
     (88, ''Not a socket''),
     (95, ''Not supported''),
     (25, ''Inappropriate I/O control operation''),
     (6, ''No such device or address''),
     (75, ''Value too large to be stored in data type''),
     (130, ''Previous owner died''),
     (1, ''Operation not permitted''),
     (32, ''Broken pipe''),
     (71, ''Protocol error''),
     (93, ''Protocol not supported''),
     (91, ''Protocol wrong type for socket''),
     (34, ''Result too large''),
     (30, ''Read-only file system''),
     (29, ''Invalid seek''),
     (3, ''No such process''),
     (116, ''Reserved''),
     (62, ''Stream timeout''),
     (110, ''Timed out''),
     (26, ''Text file busy''),
     (18, ''Cross-device link'')]"

definition message_posix :: "int \<Rightarrow> string option" where
  "message_posix v = (case map_of message_posix_table v of None \<Rightarrow> Some ''NoError'' | r \<Rightarrow> r)"

definition message_http_table :: "(int \<times> string) list" where
  "message_http_table = [
     (100, ''Continue''),
     (101, ''Switching Protocols''),
     (200, ''OK''),
     (201, ''Created''),
     (202, ''Accepted''),
     (203, ''Non-Authoritative Information''),
     (204, ''No Content''),
     (205, ''Reset Content''),
     (206, ''Partial Content''),
     (300, ''Multiple Choices''),
     (301, ''Moved Permanently''),
     (302, ''Found''),
     (303, ''See Other''),
     (304, ''Not Modified''),
     (305, ''Use Proxy''),
     (307, ''Temporary Redirect''),
     (400, ''Bad Request''),
     (401, ''Unauthorized''),
     (402, ''Payment Required''),
     (403, ''Forbidden''),
     (404, ''Not Found''),
     (405, ''Method Not Allowed''),
     (406, ''Not Acceptable''),
     (407, ''Proxy Authentication Required''),
     (408, ''Request Time-out''),
     (409, ''Conflict''),
     (410, ''Gone''),
     (411, ''Length Required''),
     (412, ''Precondition Failed''),
     (413, ''Request Entity Too Large''),
     (414, ''Request-URI Too Large''),
     (415, ''Unsupported Media Type''),
     (416, ''Requested range not satisfiable''),
     (417, ''Expectation Failed''),
     (500, ''Internal Server Error''),
     (501, ''Not Implemented''),
     (502, ''Bad Gateway''),
     (503, ''Service Unavailable''),
     (504, ''Gateway Time-out''),
     (505, ''HTTP Version not supported'')]"

definition message_http :: "int \<Rightarrow> string option" where
  "message_http v =
     (case map_of message_http_table v of None \<Rightarrow> Some ''Unsupported status code'' | r \<Rightarrow> r)"

section \<open>Errors\<close>

datatype Category =
  category_uninitialized
| category_awaitable
| category_cancel
| category_wait
| category_queue
| category_buffer
| category_async_allocate
| category_event_engine
| category_stream
| category_http_builder
| category_http_client
| category_webapp
| category_openssl
| category_evdns
| category_posix
| category_again
| category_http

record Error =
  e_category :: "Category option"
  e_value :: int

definition Error_default :: Error where
  "Error_default = \<lparr>e_category = Some category_uninitialized, e_value = 0\<rparr>"

definition Error_make :: "int \<Rightarrow> Category \<Rightarrow> Error" where
  "Error_make v c = \<lparr>e_category = Some c, e_value = v\<rparr>"

definition Error_clear :: "Error \<Rightarrow> Error" where
  "Error_clear e = e\<lparr>e_value := 0, e_category := None\<rparr>"

text \<open>The move operations: the new value and what is left of the source.\<close>

definition Error_move :: "Error \<Rightarrow> Error \<times> Error" where
  "Error_move other =
     (\<lparr>e_category = e_category other, e_value = e_value other\<rparr>, Error_clear other)"

definition Error_assign :: "int \<Rightarrow> Category \<Rightarrow> Error \<Rightarrow> Error" where
  "Error_assign v c e = e\<lparr>e_value := v, e_category := Some c\<rparr>"

definition Error_bool :: "Error \<Rightarrow> bool" where
  "Error_bool e \<longleftrightarrow> e_value e \<noteq> 0"

definition Error_eq :: "Error \<Rightarrow> Error \<Rightarrow> bool" where
  "Error_eq a b \<longleftrightarrow> e_value a = e_value b \<and> e_category a = e_category b"

definition message_uninitialized :: "int \<Rightarrow> string option" where
  "message_uninitialized v = Some ''Uninitialized error code''"

text \<open>\<^verbatim>\<open>category_again\<close> is a second instance of the \<^verbatim>\<open>posix\<close> category.\<close>

fun Category_message :: "(int \<Rightarrow> string) \<Rightarrow> Category \<Rightarrow> int \<Rightarrow> string option" where
  "Category_message f category_uninitialized v = message_uninitialized v"
| "Category_message f category_awaitable v = message_awaitable v"
| "Category_message f category_cancel v = message_cancel v"
| "Category_message f category_wait v = message_wait v"
| "Category_message f category_queue v = message_queue v"
| "Category_message f category_buffer v = message_buffer v"
| "Category_message f category_async_allocate v = message_async_allocate v"
| "Category_message f category_event_engine v = message_event_engine v"
| "Category_message f category_stream v = message_stream v"
| "Category_message f category_http_builder v = message_http_builder v"
| "Category_message f category_http_client v = message_http_client v"
| "Category_message f category_webapp v = message_webapp v"
| "Category_message f category_openssl v = message_openssl f v"
| "Category_message f category_evdns v = message_evdns v"
| "Category_message f category_posix v = message_posix v"
| "Category_message f category_again v = message_posix v"
| "Category_message f category_http v = message_http v"

definition Error_message :: "(int \<Rightarrow> string) \<Rightarrow> Error \<Rightarrow> string option" where
  "Error_message f e = Option.bind (e_category e) (\<lambda>c. Category_message f c (e_value e))"

definition make_error_awaitable :: "ErrorAwaitable \<Rightarrow> Error" where
  "make_error_awaitable x = Error_make (value_ErrorAwaitable x) category_awaitable"

definition make_error_cancel :: "ErrorCancel \<Rightarrow> Error" where
  "make_error_cancel x = Error_make (value_ErrorCancel x) category_cancel"

definition make_error_wait :: "ErrorWait \<Rightarrow> Error" where
  "make_error_wait x = Error_make (value_ErrorWait x) category_wait"

definition make_error_queue :: "ErrorQueue \<Rightarrow> Error" where
  "make_error_queue x = Error_make (value_ErrorQueue x) category_queue"

definition make_error_buffer :: "ErrorBuffer \<Rightarrow> Error" where
  "make_error_buffer x = Error_make (value_ErrorBuffer x) category_buffer"

definition make_error_async_allocate :: "ErrorAllocate \<Rightarrow> Error" where
  "make_error_async_allocate x = Error_make (value_ErrorAllocate x) category_async_allocate"

definition make_error_event_engine :: "ErrorEventEngine \<Rightarrow> Error" where
  "make_error_event_engine x = Error_make (value_ErrorEventEngine x) category_event_engine"

definition make_error_stream :: "ErrorStream \<Rightarrow> Error" where
  "make_error_stream x = Error_make (value_ErrorStream x) category_stream"

definition make_error_http_builder :: "HTTPBuilderStatus \<Rightarrow> Error" where
  "make_error_http_builder x = Error_make (value_HTTPBuilderStatus x) category_http_builder"

definition make_error_http_client :: "ErrorHTTPClient \<Rightarrow> Error" where
  "make_error_http_client x = Error_make (value_ErrorHTTPClient x) category_http_client"

definition make_error_webapp :: "ErrorWebApp \<Rightarrow> Error" where
  "make_error_webapp x = Error_make (value_ErrorWebApp x) category_webapp"

definition make_error_openssl :: "ErrorCodeOpenSSL \<Rightarrow> Error" where
  "make_error_openssl x = Error_make (value_ErrorCodeOpenSSL x) category_openssl"

definition make_error_evdns :: "ErrorEvdns \<Rightarrow> Error" where
  "make_error_evdns x = Error_make (value_ErrorEvdns x) category_evdns"


lemmas error_defs = Error_default_def Error_make_def Error_clear_def Error_move_def
  Error_assign_def Error_bool_def Error_eq_def

lemma Error_eq_iff [simp]: "Error_eq a b \<longleftrightarrow> a = (b :: Error)"
  by (cases a; cases b) (auto simp: Error_eq_def)

lemma Error_bool_default [simp]: "\<not> Error_bool Error_default"
  by (simp add: error_defs)

lemma Error_bool_clear [simp]: "\<not> Error_bool (Error_clear e)"
  by (simp add: error_defs)

lemma Error_bool_make [simp]: "Error_bool (Error_make v c) \<longleftrightarrow> v \<noteq> 0"
  by (simp add: error_defs)

lemma fst_Error_move [simp]: "fst (Error_move e) = (e :: Error)"
  by (simp add: Error_move_def)

lemma snd_Error_move [simp]: "snd (Error_move e) = Error_clear e"
  by (simp add: Error_move_def)

section \<open>Properties\<close>

text \<open>
  The message of an awaitable error identifies the enumerator: no two enumerators share a
  text and none falls through to the text for unknown values.
\<close>

theorem awaitable_messages_distinct:
  "(message_awaitable (value_ErrorAwaitable x) = message_awaitable (value_ErrorAwaitable y) \<longleftrightarrow> x = y)
   \<and> message_awaitable (value_ErrorAwaitable x) \<noteq> Some ''unknown error value''"
  by (cases x; cases y) (simp_all add: message_awaitable_def)

text \<open>
  The switch over \<^verbatim>\<open>ErrorPosix\<close> has exactly one case for each value of the enumeration,
  and the reason phrases of HTTP cover exactly the status codes of \<^verbatim>\<open>HTTPStatusCode\<close> other
  than \<^verbatim>\<open>Undefined\<close>.
\<close>

theorem message_tables_cover_enumerations:
  "distinct (map fst message_posix_table) \<and>
   set (map snd ErrorPosix) = set (map fst message_posix_table) \<and>
   distinct (map fst message_http_table) \<and>
   set (map snd HTTPStatusCode) = insert 0 (set (map fst message_http_table))"
proof (intro conjI)
  show "distinct (map fst message_posix_table)"
    by (simp add: message_posix_table_def)
  show "set (map snd ErrorPosix) = set (map fst message_posix_table)"
    unfolding ErrorPosix_def message_posix_table_def list.map snd_conv fst_conv list.set
    by (simp add: insert_commute) 
  show "distinct (map fst message_http_table)"
    by (simp add: message_http_table_def)
  show "set (map snd HTTPStatusCode) = insert 0 (set (map fst message_http_table))"
    unfolding HTTPStatusCode_def message_http_table_def list.map snd_conv fst_conv list.set
    by simp
qed

text \<open>
  Moving an error transfers category and value; the source compares as "no error", and
  asking it for its message dereferences the null category.
\<close>

theorem error_move_semantics:
  "fst (Error_move e) = e \<and> \<not> Error_bool (snd (Error_move e)) \<and>
   Error_message f (snd (Error_move e)) = None \<and>
   (snd (Error_move e) = e \<longleftrightarrow> e_category e = None \<and> e_value e = 0)"
  by (cases e) (auto simp: error_defs Error_message_def)

end
