(* ===== verification/Jinx_Optional.thy ===== *)
theory Jinx_Optional
  imports Jinx_Prelude
begin

text \<open>
  \<^verbatim>\<open>Optional<T>\<close>, \<^verbatim>\<open>Optional<void>\<close> (\<^verbatim>\<open>include/jinx/optional.hpp\<close>) and the checked
  \<^verbatim>\<open>Result<T>\<close> (\<^verbatim>\<open>include/jinx/result.hpp\<close>).

  The storage of an optional is modelled apart from its \<^verbatim>\<open>_empty\<close> flag, because the code lets
  the two disagree: \<open>Raw\<close> holds no object, \<open>Live v\<close> an object with value \<open>v\<close>, \<open>MovedObj\<close> an
  object whose value was moved out and which still has to be destroyed.
\<close>

datatype 'v cell = Raw | Live 'v | MovedObj

record 'v Optional =
  op_memory :: "'v cell"
  op_empty :: bool

definition opt_new :: "'v Optional" where
  "opt_new = \<lparr>op_memory = Raw, op_empty = True\<rparr>"

text \<open>\<open>get\<close> reads the object; there is none in raw or moved-from storage.\<close>

definition opt_get :: "'v Optional \<Rightarrow> 'v option" where
  "opt_get x = (case op_memory x of Live v \<Rightarrow> Some v | _ \<Rightarrow> None)"

definition opt_release :: "'v Optional \<Rightarrow> ('v \<times> 'v Optional) option" where
  "opt_release x = (case op_memory x of Live v \<Rightarrow> Some (v, x\<lparr>op_memory := MovedObj\<rparr>) | _ \<Rightarrow> None)"

definition opt_reset :: "'v Optional \<Rightarrow> 'v Optional option" where
  "opt_reset x =
     (if op_empty x then Some x
      else (case op_memory x of Raw \<Rightarrow> None | _ \<Rightarrow> Some \<lparr>op_memory = Raw, op_empty = True\<rparr>))"

definition opt_emplace :: "'v \<Rightarrow> 'v Optional \<Rightarrow> 'v Optional option" where
  "opt_emplace v x =
     Option.bind (opt_reset x) (\<lambda>y. Some (y\<lparr>op_empty := False, op_memory := Live v\<rparr>))"

definition opt_of_value :: "'v \<Rightarrow> 'v Optional option" where
  "opt_of_value v = opt_emplace v opt_new"

definition opt_copy :: "'v Optional \<Rightarrow> 'v Optional option" where
  "opt_copy other =
     (if op_empty other then Some opt_new
      else Option.bind (opt_get other) (\<lambda>v. Some \<lparr>op_memory = Live v, op_empty = False\<rparr>))"

text \<open>The move operations return the new optional and what is left of the source.\<close>

definition opt_move :: "'v Optional \<Rightarrow> ('v Optional \<times> 'v Optional) option" where
  "opt_move other =
     (if op_empty other then Some (opt_new, other)
      else Option.bind (opt_release other)
             (\<lambda>(v, o'). Some (\<lparr>op_memory = Live v, op_empty = False\<rparr>, o'\<lparr>op_empty := True\<rparr>)))"

definition opt_move_assign :: "'v Optional \<Rightarrow> 'v Optional \<Rightarrow> ('v Optional \<times> 'v Optional) option" where
  "opt_move_assign this other =
     Option.bind (opt_reset this) (\<lambda>t.
       if op_empty other then Some (t, other)
       else Option.bind (opt_release other)
              (\<lambda>(v, o'). Some (\<lparr>op_memory = Live v, op_empty = False\<rparr>, o'\<lparr>op_empty := True\<rparr>)))"

definition opt_copy_assign :: "'v Optional \<Rightarrow> 'v Optional \<Rightarrow> 'v Optional option" where
  "opt_copy_assign this other =
     Option.bind (opt_reset this) (\<lambda>t.
       if op_empty other then Some t
       else Option.bind (opt_get other) (\<lambda>v. Some \<lparr>op_memory = Live v, op_empty = False\<rparr>))"

text \<open>\<^verbatim>\<open>Optional<void>\<close> is its flag.\<close>

record OptionalVoid =
  ov_empty :: bool

definition ov_new :: OptionalVoid where "ov_new = \<lparr>ov_empty = True\<rparr>"

definition ov_reset :: "OptionalVoid \<Rightarrow> OptionalVoid" where
  "ov_reset x = x\<lparr>ov_empty := True\<rparr>"

definition ov_emplace :: "OptionalVoid \<Rightarrow> OptionalVoid" where
  "ov_emplace x = (ov_reset x)\<lparr>ov_empty := False\<rparr>"

definition ov_move :: "OptionalVoid \<Rightarrow> OptionalVoid \<times> OptionalVoid" where
  "ov_move other = (\<lparr>ov_empty = ov_empty other\<rparr>, other\<lparr>ov_empty := True\<rparr>)"

section \<open>Invariant and behaviour\<close>

text \<open>
  An engaged optional holds an object. The converse can fail: an optional that was moved from is
  empty but its storage still holds an object.
\<close>

definition opt_ok :: "'v Optional \<Rightarrow> bool" where
  "opt_ok x \<longleftrightarrow> (\<not> op_empty x \<longrightarrow> op_memory x \<noteq> Raw)"

definition opt_leaks :: "'v Optional \<Rightarrow> bool" where
  "opt_leaks x \<longleftrightarrow> op_empty x \<and> op_memory x \<noteq> Raw"

lemmas opt_defs = opt_new_def opt_get_def opt_release_def opt_reset_def opt_emplace_def
  opt_of_value_def opt_copy_def opt_move_def opt_move_assign_def opt_copy_assign_def

lemma opt_new_ok [simp]: "opt_ok opt_new"
  by (simp add: opt_ok_def opt_new_def)

lemma opt_reset_total: "opt_ok x \<Longrightarrow> \<exists>y. opt_reset x = Some y \<and> op_empty y \<and> opt_ok y"
  by (cases "op_memory x") (auto simp: opt_reset_def opt_ok_def)

lemma opt_emplace_total:
  assumes "opt_ok x"
  shows "\<exists>y. opt_emplace v x = Some y \<and> \<not> op_empty y \<and> opt_get y = Some v \<and> opt_ok y"
proof -
  obtain y where "opt_reset x = Some y" using opt_reset_total [OF assms] by blast
  then show ?thesis by (auto simp: opt_emplace_def opt_get_def opt_ok_def)
qed

lemma opt_release_live: "opt_get x = Some v \<Longrightarrow> opt_release x = Some (v, x\<lparr>op_memory := MovedObj\<rparr>)"
  by (auto simp: opt_get_def opt_release_def split: cell.splits)

text \<open>
  Storing a value works from every state an optional can be in, and the value can be read
  back; copying and moving an engaged optional both transfer that value, and a copy leaves the
  source as it was.
\<close>

theorem optional_roundtrip:
  assumes "opt_ok x" and "opt_ok y"
  shows "\<exists>z c m s. opt_emplace v x = Some z \<and> opt_get z = Some v \<and>
    opt_copy z = Some c \<and> opt_get c = Some v \<and> opt_copy_assign y z = Some c \<and>
    opt_move z = Some (m, s) \<and> opt_get m = Some v \<and> op_empty s \<and> opt_move_assign y z = Some (m, s)"
proof -
  obtain r where r: "opt_reset x = Some r" using opt_reset_total [OF assms(1)] by blast
  obtain r' where r': "opt_reset y = Some r'" using opt_reset_total [OF assms(2)] by blast
  from r r' show ?thesis
    by (simp add: opt_emplace_def opt_copy_def opt_copy_assign_def opt_move_def opt_move_assign_def
        opt_get_def opt_release_def)
qed

theorem optional_roundtrip_witness:
  "\<exists>z c m s. opt_emplace (5 :: int) opt_new = Some z \<and> opt_get z = Some 5 \<and>
     opt_copy z = Some c \<and> opt_get c = Some 5 \<and> opt_copy_assign opt_new z = Some c \<and>
     opt_move z = Some (m, s) \<and> opt_get m = Some 5 \<and> op_empty s \<and> opt_move_assign opt_new z = Some (m, s)"
  using optional_roundtrip [of opt_new opt_new "5 :: int"] by simp

text \<open>
  Moving out of an engaged optional leaks its object: the source is marked empty while its
  storage still holds the moved-from object, and \<^verbatim>\<open>reset\<close> (the destructor) then does nothing.
\<close>

theorem optional_move_leaks:
  assumes "opt_get x = Some v" and "\<not> op_empty x"
  shows "\<exists>m s. opt_move x = Some (m, s) \<and> opt_leaks s \<and> opt_reset s = Some s"
  using assms opt_release_live [OF assms(1)]
  by (simp add: opt_move_def opt_leaks_def opt_reset_def)

theorem optional_move_leaks_witness:
  "\<exists>m s. opt_move \<lparr>op_memory = Live (1 :: int), op_empty = False\<rparr> = Some (m, s) \<and> opt_leaks s \<and>
     opt_reset s = Some s"
  using optional_move_leaks [of "\<lparr>op_memory = Live (1 :: int), op_empty = False\<rparr>" 1]
  by (simp add: opt_get_def)

section \<open>Checked results\<close>

text \<open>
  \<^verbatim>\<open>Result<T>\<close> in a debug build: dropping or overwriting a result whose value was never looked
  at aborts (\<open>None\<close>).
\<close>

record 'v Result =
  r_value :: 'v
  r_empty :: bool

definition result_of :: "'v \<Rightarrow> 'v Result" where
  "result_of v = \<lparr>r_value = v, r_empty = False\<rparr>"

definition result_move :: "'v Result \<Rightarrow> 'v Result \<times> 'v Result" where
  "result_move other = (\<lparr>r_value = r_value other, r_empty = r_empty other\<rparr>, other\<lparr>r_empty := True\<rparr>)"

definition result_assign :: "'v Result \<Rightarrow> 'v Result \<Rightarrow> ('v Result \<times> 'v Result) option" where
  "result_assign this other =
     (if r_empty this
      then Some (this\<lparr>r_empty := r_empty other, r_value := r_value other\<rparr>, other\<lparr>r_empty := True\<rparr>)
      else None)"

definition result_destroy :: "'v Result \<Rightarrow> unit option" where
  "result_destroy x = (if r_empty x then Some () else None)"

definition result_ignore :: "'v Result \<Rightarrow> 'v Result" where
  "result_ignore x = x\<lparr>r_empty := True\<rparr>"

definition result_unwrap :: "'v Result \<Rightarrow> 'v \<times> 'v Result" where
  "result_unwrap x = (r_value x, x\<lparr>r_empty := True\<rparr>)"

definition result_is :: "'v \<Rightarrow> 'v Result \<Rightarrow> bool \<times> 'v Result" where
  "result_is v x = (case result_unwrap x of (u, y) \<Rightarrow> (u = v, y))"

definition result_is_not :: "'v \<Rightarrow> 'v Result \<Rightarrow> bool \<times> 'v Result" where
  "result_is_not v x = (case result_unwrap x of (u, y) \<Rightarrow> (u \<noteq> v, y))"

definition result_abort_on :: "'v \<Rightarrow> 'v Result \<Rightarrow> 'v Result option" where
  "result_abort_on v x = (case result_is v x of (b, y) \<Rightarrow> if b then None else Some y)"

definition result_abort_except :: "'v \<Rightarrow> 'v Result \<Rightarrow> 'v Result option" where
  "result_abort_except v x = (case result_is_not v x of (b, y) \<Rightarrow> if b then None else Some y)"

lemmas result_defs = result_of_def result_move_def result_assign_def result_destroy_def
  result_ignore_def result_unwrap_def result_is_def result_is_not_def result_abort_on_def
  result_abort_except_def

text \<open>
  A fresh result may be dropped exactly when somebody looked at it: destroying it unseen
  aborts, and after any of the accessors or after moving it away it does not.
\<close>

theorem result_must_be_handled:
  "result_destroy (result_of v) = None \<and>
   result_destroy (result_ignore (result_of v)) = Some () \<and>
   result_destroy (snd (result_unwrap (result_of v))) = Some () \<and>
   result_destroy (snd (result_is u (result_of v))) = Some () \<and>
   result_destroy (snd (result_move (result_of v))) = Some () \<and>
   result_destroy (fst (result_move (result_of v))) = None \<and>
   (result_abort_on u (result_of v) = None \<longleftrightarrow> u = v) \<and>
   (result_abort_except u (result_of v) = None \<longleftrightarrow> u \<noteq> v)"
  by (auto simp: result_defs)

end
