(* ===== verification/Jinx_Buffer.thy ===== *)
theory Jinx_Buffer
  imports Jinx_LinkedList Jinx_Error Jinx_Optional "HOL-Library.Monad_Syntax"
begin

text \<open>
  \<^verbatim>\<open>BufferView\<close> and the slices (\<^verbatim>\<open>include/jinx/buffer.hpp\<close>, \<^verbatim>\<open>include/jinx/slice.hpp\<close>).
  Addresses and sizes are 64-bit: subtraction and addition wrap.
\<close>

section \<open>Slices and views\<close>

record Slice =
  s_data :: nat
  s_size :: nat

definition slice_begin :: "Slice \<Rightarrow> nat" where
  "slice_begin s = s_data s"

definition slice_end :: "Slice \<Rightarrow> nat" where
  "slice_end s = add64 (slice_begin s) (s_size s)"

text \<open>Comparison with a string literal: \<open>mem\<close> is the memory the slice points into.\<close>

definition slice_eq :: "(nat \<Rightarrow> 'b) \<Rightarrow> Slice \<Rightarrow> 'b list \<Rightarrow> bool" where
  "slice_eq mem s str \<longleftrightarrow>
     s_size s = length str \<and> (\<forall>i \<in> set [0..<length str]. mem (add64 (s_data s) i) = str ! i)"

record BufferView =
  bv_memory :: nat
  bv_memory_size :: nat
  bv_begin :: nat
  bv_end :: nat

definition bv_new :: "nat \<Rightarrow> nat \<Rightarrow> nat \<Rightarrow> nat \<Rightarrow> BufferView" where
  "bv_new m n b e = \<lparr>bv_memory = m, bv_memory_size = n, bv_begin = b, bv_end = e\<rparr>"

definition bv_capacity :: "BufferView \<Rightarrow> nat" where
  "bv_capacity v = sub64 (bv_memory_size v) (bv_end v)"

definition bv_size :: "BufferView \<Rightarrow> nat" where
  "bv_size v = sub64 (bv_end v) (bv_begin v)"

definition bv_reset_full :: "BufferView \<Rightarrow> BufferView" where
  "bv_reset_full v = v\<lparr>bv_begin := 0, bv_end := bv_memory_size v\<rparr>"

definition bv_reset_empty :: "BufferView \<Rightarrow> BufferView" where
  "bv_reset_empty v = v\<lparr>bv_begin := 0, bv_end := 0\<rparr>"

definition bv_resize :: "nat \<Rightarrow> BufferView \<Rightarrow> SuccessfulFailed \<times> BufferView" where
  "bv_resize n v =
     (if n > sub64 (bv_memory_size v) (bv_begin v) then (Failed, v)
      else (Successful, v\<lparr>bv_end := add64 (bv_begin v) n\<rparr>))"

definition bv_cut :: "nat \<Rightarrow> BufferView \<Rightarrow> SuccessfulFailed \<times> BufferView" where
  "bv_cut n v =
     (if n > bv_begin v then (Failed, v)
      else (Successful, v\<lparr>bv_memory := add64 (bv_memory v) n,
                          bv_memory_size := sub64 (bv_memory_size v) n,
                          bv_begin := sub64 (bv_begin v) n, bv_end := sub64 (bv_end v) n\<rparr>))"

definition bv_data :: "BufferView \<Rightarrow> nat" where
  "bv_data v = add64 (bv_memory v) (bv_begin v)"

definition bv_end_ptr :: "BufferView \<Rightarrow> nat" where
  "bv_end_ptr v = add64 (bv_memory v) (bv_end v)"

definition bv_commit :: "nat \<Rightarrow> BufferView \<Rightarrow> SuccessfulFailed \<times> BufferView" where
  "bv_commit n v =
     (if n > bv_capacity v then (Failed, v)
      else (Successful, v\<lparr>bv_end := add64 (bv_end v) n\<rparr>))"

definition bv_consume :: "nat \<Rightarrow> BufferView \<Rightarrow> SuccessfulFailed \<times> BufferView" where
  "bv_consume n v =
     (if n > bv_size v then (Failed, v)
      else (Successful, v\<lparr>bv_begin := add64 (bv_begin v) n\<rparr>))"

definition slice_for_consumer :: "BufferView \<Rightarrow> Slice" where
  "slice_for_consumer v = \<lparr>s_data = bv_data v, s_size = bv_size v\<rparr>"

definition slice_for_producer :: "BufferView \<Rightarrow> Slice" where
  "slice_for_producer v = \<lparr>s_data = bv_end_ptr v, s_size = bv_capacity v\<rparr>"

section \<open>Views stay inside their memory\<close>

definition bv_ok :: "BufferView \<Rightarrow> bool" where
  "bv_ok v \<longleftrightarrow>
     bv_begin v \<le> bv_end v \<and> bv_end v \<le> bv_memory_size v \<and> bv_memory v + bv_memory_size v < size_max"

lemma bv_size_ok: "bv_ok v \<Longrightarrow> bv_size v = bv_end v - bv_begin v"
  by (simp add: bv_ok_def bv_size_def sub64_exact)

lemma bv_capacity_ok: "bv_ok v \<Longrightarrow> bv_capacity v = bv_memory_size v - bv_end v"
  by (simp add: bv_ok_def bv_capacity_def sub64_exact)

lemma bv_data_ok: "bv_ok v \<Longrightarrow> bv_data v = bv_memory v + bv_begin v"
  by (simp add: bv_ok_def bv_data_def add64_exact)

lemma bv_end_ptr_ok: "bv_ok v \<Longrightarrow> bv_end_ptr v = bv_memory v + bv_end v"
  by (simp add: bv_ok_def bv_end_ptr_def add64_exact)

lemmas bv_ok_simps = bv_size_ok bv_capacity_ok bv_data_ok bv_end_ptr_ok

lemma bv_commit_ok:
  assumes "bv_ok v"
  shows "bv_commit n v =
    (if n \<le> bv_memory_size v - bv_end v then (Successful, v\<lparr>bv_end := bv_end v + n\<rparr>) else (Failed, v))"
  using assms by (auto simp: bv_commit_def bv_ok_simps add64_exact bv_ok_def)

lemma bv_consume_ok:
  assumes "bv_ok v"
  shows "bv_consume n v =
    (if n \<le> bv_end v - bv_begin v then (Successful, v\<lparr>bv_begin := bv_begin v + n\<rparr>) else (Failed, v))"
  using assms by (auto simp: bv_consume_def bv_ok_simps add64_exact bv_ok_def)

lemma bv_resize_ok:
  assumes "bv_ok v"
  shows "bv_resize n v =
    (if n \<le> bv_memory_size v - bv_begin v then (Successful, v\<lparr>bv_end := bv_begin v + n\<rparr>) else (Failed, v))"
  using assms by (auto simp: bv_resize_def sub64_exact add64_exact bv_ok_def)

lemma bv_cut_ok:
  assumes "bv_ok v"
  shows "bv_cut n v =
    (if n \<le> bv_begin v
     then (Successful, \<lparr>bv_memory = bv_memory v + n, bv_memory_size = bv_memory_size v - n,
                        bv_begin = bv_begin v - n, bv_end = bv_end v - n\<rparr>)
     else (Failed, v))"
  using assms by (cases v) (auto simp: bv_cut_def sub64_exact add64_exact bv_ok_def)

lemmas bv_ops_ok = bv_commit_ok bv_consume_ok bv_resize_ok bv_cut_ok

text \<open>The operations as commands.\<close>

datatype bv_cmd = BCommit nat | BConsume nat | BResize nat | BCut nat | BFull | BEmpty

fun bv_exec :: "bv_cmd \<Rightarrow> BufferView \<Rightarrow> BufferView" where
  "bv_exec (BCommit n) v = snd (bv_commit n v)"
| "bv_exec (BConsume n) v = snd (bv_consume n v)"
| "bv_exec (BResize n) v = snd (bv_resize n v)"
| "bv_exec (BCut n) v = snd (bv_cut n v)"
| "bv_exec BFull v = bv_reset_full v"
| "bv_exec BEmpty v = bv_reset_empty v"

lemma bv_exec_ok: "bv_ok v \<Longrightarrow> bv_ok (bv_exec c v)"
  by (cases c) (auto simp: bv_ops_ok bv_reset_full_def bv_reset_empty_def, auto simp: bv_ok_def)

lemma bv_exec_within:
  "bv_ok v \<Longrightarrow> bv_memory v \<le> bv_memory (bv_exec c v) \<and>
     bv_memory (bv_exec c v) + bv_memory_size (bv_exec c v) = bv_memory v + bv_memory_size v"
  by (cases c) (auto simp: bv_ops_ok bv_reset_full_def bv_reset_empty_def, auto simp: bv_ok_def)

text \<open>
  C32. Whatever operations are applied to a view, with whatever sizes, it never leaves the memory
  it was made for: both slices it gives out lie inside that memory, they are adjacent, and no
  arithmetic wraps.
\<close>

theorem view_stays_in_memory:
  assumes "bv_ok v"
  shows "let w = fold bv_exec cs v; c = slice_for_consumer w; p = slice_for_producer w in
    bv_ok w \<and> bv_memory v \<le> s_data c \<and> s_data c + s_size c = s_data p \<and>
    s_data p + s_size p = bv_memory v + bv_memory_size v"
proof -
  have "bv_ok (fold bv_exec cs v) \<and> bv_memory v \<le> bv_memory (fold bv_exec cs v) \<and>
      bv_memory (fold bv_exec cs v) + bv_memory_size (fold bv_exec cs v) = bv_memory v + bv_memory_size v"
    using assms
  proof (induction cs arbitrary: v)
    case (Cons c cs)
    then show ?case using bv_exec_ok [of v c] bv_exec_within [of v c] by fastforce
  qed simp
  then show ?thesis
    by (auto simp: Let_def slice_for_consumer_def slice_for_producer_def bv_ok_simps bv_ok_def
        sub64_exact add64_exact bv_data_def bv_end_ptr_def bv_size_def bv_capacity_def)
qed

theorem view_stays_in_memory_witness:
  "let w = fold bv_exec [BCommit 10, BConsume 3, BCut 2, BCommit 500] (bv_new 4096 100 0 0);
       c = slice_for_consumer w; p = slice_for_producer w in
     bv_ok w \<and> 4096 \<le> s_data c \<and> s_data c + s_size c = s_data p \<and> s_data p + s_size p = 4196"
  using view_stays_in_memory [of "bv_new 4096 100 0 0" "[BCommit 10, BConsume 3, BCut 2, BCommit 500]"]
  by (simp add: bv_ok_def bv_new_def Let_def del: fold_simps)

text \<open>
  The view as a queue of bytes: \<open>bv_bytes mem v\<close> is what a consumer still has to read.
\<close>

definition bv_bytes :: "(nat \<Rightarrow> 'b) \<Rightarrow> BufferView \<Rightarrow> 'b list" where
  "bv_bytes mem v = map mem [bv_data v ..< bv_end_ptr v]"

text \<open>
  C33. A view is a queue of bytes. A producer that fills the start of its slice and commits appends
  exactly those bytes; consuming drops exactly the oldest bytes; cutting takes consumed space off
  the front of the memory and changes neither the bytes nor the free space. Each of the three
  succeeds exactly if its number fits the free space, the bytes or the consumed space, and
  otherwise fails and changes nothing.
\<close>

theorem view_is_byte_queue:
  assumes "bv_ok v"
  shows "fst (bv_commit n v) = (if n \<le> bv_capacity v then Successful else Failed) \<and>
    (n \<le> bv_capacity v \<longrightarrow>
       bv_bytes mem (snd (bv_commit n v)) =
       bv_bytes mem v @ map mem [s_data (slice_for_producer v) ..< s_data (slice_for_producer v) + n]) \<and>
    fst (bv_consume n v) = (if n \<le> bv_size v then Successful else Failed) \<and>
    (n \<le> bv_size v \<longrightarrow> bv_bytes mem (snd (bv_consume n v)) = drop n (bv_bytes mem v)) \<and>
    fst (bv_cut n v) = (if n \<le> bv_begin v then Successful else Failed) \<and>
    (n \<le> bv_begin v \<longrightarrow>
       bv_bytes mem (snd (bv_cut n v)) = bv_bytes mem v \<and> bv_capacity (snd (bv_cut n v)) = bv_capacity v \<and>
       bv_memory (snd (bv_cut n v)) = bv_memory v + n \<and> bv_memory_size (snd (bv_cut n v)) = bv_memory_size v - n) \<and>
    (n > bv_begin v \<longrightarrow> snd (bv_cut n v) = v) \<and>
    (n > bv_capacity v \<longrightarrow> snd (bv_commit n v) = v) \<and> (n > bv_size v \<longrightarrow> snd (bv_consume n v) = v)"
proof -
  have ok': "bv_ok (snd (bv_commit n v))" "bv_ok (snd (bv_consume n v))" "bv_ok (snd (bv_cut n v))"
    using bv_exec_ok [OF assms, of "BCommit n"] bv_exec_ok [OF assms, of "BConsume n"]
      bv_exec_ok [OF assms, of "BCut n"] by simp_all
  have le: "bv_begin v \<le> bv_end v" using assms by (simp add: bv_ok_def)
  have commit: "bv_bytes mem (snd (bv_commit n v)) =
      bv_bytes mem v @ map mem [bv_memory v + bv_end v ..< bv_memory v + bv_end v + n]"
    if "n \<le> bv_memory_size v - bv_end v"
  proof -
    have "[bv_memory v + bv_begin v ..< bv_memory v + bv_end v + n] =
        [bv_memory v + bv_begin v ..< bv_memory v + bv_end v] @ [bv_memory v + bv_end v ..< bv_memory v + bv_end v + n]"
      using le upt_add_eq_append [of "bv_memory v + bv_begin v" "bv_memory v + bv_end v" n] by simp
    then show ?thesis
      using that ok'(1) assms by (simp add: bv_bytes_def bv_ok_simps bv_commit_ok add.assoc)
  qed
  have cut: "bv_bytes mem (snd (bv_cut n v)) = bv_bytes mem v" "bv_capacity (snd (bv_cut n v)) = bv_capacity v" if "n \<le> bv_begin v"
    using that ok'(3) assms le by (simp_all add: bv_bytes_def bv_ok_simps bv_cut_ok)
  have consume: "bv_bytes mem (snd (bv_consume n v)) = drop n (bv_bytes mem v)"
    if "n \<le> bv_end v - bv_begin v"
    using that ok'(2) assms by (simp add: bv_bytes_def bv_ok_simps bv_consume_ok drop_map add.assoc)
  show ?thesis
    using commit cut consume assms
    by (simp add: bv_ok_simps bv_commit_ok bv_consume_ok bv_cut_ok slice_for_producer_def)
qed

theorem view_is_byte_queue_witness:
  "fst (bv_commit 3 (bv_new 100 8 2 5)) = Successful \<and>
   bv_bytes id (snd (bv_commit 3 (bv_new 100 8 2 5))) = [102, 103, 104] @ map id [105 ..< 105 + 3] \<and>
   bv_bytes id (snd (bv_consume 3 (bv_new 100 8 2 5))) = drop 3 [102, 103, 104]"
  using view_is_byte_queue [of "bv_new 100 8 2 5" 3 id]
  by (simp add: bv_ok_def bv_new_def bv_bytes_def bv_data_def bv_end_ptr_def bv_capacity_def bv_size_def
      add64_exact sub64_exact slice_for_producer_def upt_rec)

end
