(* ===== verification/Jinx_Http.thy ===== *)
theory Jinx_Http
  imports Jinx_Buffer
begin

text \<open>
  The HTTP/1.1 header parser (\<^verbatim>\<open>HTTPParser\<close> of \<^verbatim>\<open>libs/http/include/jinx/http/http.hpp\<close>).

  The block of memory is a list of characters and an address is an index into it. The parser is a
  state machine over a \<open>BufferView\<close>; a step ends in a return, a pause (the client looks at what
  was parsed and resumes), or a request for more input. Every byte the parser reads or writes goes
  through \<open>rd\<close> and \<open>wr\<close>, which have no value outside the bytes the buffer holds: \<open>None\<close> is such an
  access or \<^verbatim>\<open>error::fatal\<close>. \<open>isspace\<close> is total, as the table of the C library is; the standard
  leaves the call undefined for a negative \<^verbatim>\<open>char\<close>, and the code passes one for bytes from 0x80 on
  where \<^verbatim>\<open>char\<close> is signed.
\<close>

section \<open>Data\<close>

datatype HTTPParserState =
  ParserUninitialized | ParserEndOfStream | ParserEntityTooLarge | ParserBadRequest
| ParserStartLine | ParserHeader | ParserComplete

record http_parser =
  hp_mem :: string
  hp_buffer :: BufferView
  hp_state :: HTTPParserState
  hp_first :: Slice
  hp_second :: Slice
  hp_third :: Slice
  hp_name :: Slice
  hp_value :: Slice
  hp_result :: "HTTPParserState option"

datatype parser_action = HReturn | HPause | HRead | HThrow Error

definition null_slice :: Slice where
  "null_slice = \<lparr>s_data = 0, s_size = 0\<rparr>"

text \<open>
  Reading and writing the byte at \<open>i\<close> of a block whose content ends at \<open>en\<close>. An access at or behind
  the end of the content, or outside the block, has no value.
\<close>

definition rd :: "string \<Rightarrow> nat \<Rightarrow> nat \<Rightarrow> char option" where
  "rd mem en i = (if i < en \<and> i < length mem then Some (mem ! i) else None)"

definition wr :: "nat \<Rightarrow> nat \<Rightarrow> char \<Rightarrow> string \<Rightarrow> string option" where
  "wr en i c mem = (if i < en \<and> i < length mem then Some (mem[i := c]) else None)"

text \<open>
  \<^verbatim>\<open>std::find_if\<close> on \<open>[b, e)\<close>: the loop ends when the two pointers are equal, so a begin behind the
  end runs out of the content.
\<close>

function std_find_if :: "(char \<Rightarrow> bool) \<Rightarrow> string \<Rightarrow> nat \<Rightarrow> nat \<Rightarrow> nat option" where
  "std_find_if P mem b e =
     (if b = e then Some b
      else case rd mem e b of None \<Rightarrow> None
           | Some c \<Rightarrow> if P c then Some b else std_find_if P mem (b + 1) e)"
  by auto
termination by (relation "measure (\<lambda>(P, mem, b, e). e - b)") (auto simp: rd_def split: if_splits)

declare std_find_if.simps [simp del]

text \<open>The position of the first byte of \<open>[b, e)\<close> with \<open>P\<close>, or \<open>e\<close>, without the checks.\<close>

function find_if :: "(char \<Rightarrow> bool) \<Rightarrow> string \<Rightarrow> nat \<Rightarrow> nat \<Rightarrow> nat" where
  "find_if P mem b e = (if b < e then (if P (mem ! b) then b else find_if P mem (b + 1) e) else b)"
  by auto
termination by (relation "measure (\<lambda>(P, mem, b, e). e - b)") auto

declare find_if.simps [simp del]

section \<open>Operations\<close>

definition parser_finalize :: "http_parser \<Rightarrow> http_parser" where
  "parser_finalize p = p\<lparr>hp_state := ParserUninitialized, hp_name := null_slice, hp_value := null_slice\<rparr>"

text \<open>\<open>initialize\<close> also says where the routine starts: reading or parsing.\<close>

datatype parser_start = StartRead | StartParse

definition parser_initialize :: "string \<Rightarrow> BufferView \<Rightarrow> http_parser \<Rightarrow> parser_start \<times> http_parser" where
  "parser_initialize mem v p =
     (let p1 = (parser_finalize p)\<lparr>hp_result := None, hp_state := ParserStartLine, hp_mem := mem,
                                   hp_buffer := v\<rparr>
      in (if bv_size v = 0 then StartRead else StartParse, p1))"

definition parser_read_more :: "http_parser \<Rightarrow> parser_action \<times> http_parser" where
  "parser_read_more p =
     (if bv_capacity (hp_buffer p) = 0 then (HReturn, p\<lparr>hp_result := Some ParserEntityTooLarge\<rparr>)
      else (HRead, p))"

definition parser_bad :: "http_parser \<Rightarrow> parser_action \<times> http_parser" where
  "parser_bad p = (HReturn, p\<lparr>hp_result := Some ParserBadRequest\<rparr>)"

definition mk_slice :: "nat \<Rightarrow> nat \<Rightarrow> Slice" where
  "mk_slice b e = \<lparr>s_data = b, s_size = sub64 e b\<rparr>"

definition parse_start_line :: "http_parser \<Rightarrow> (parser_action \<times> http_parser) option" where
  "parse_start_line p =
     (let mem = hp_mem p; v = hp_buffer p; bg = bv_data v; en = bv_end_ptr v
      in do {
        end_of_first \<leftarrow> std_find_if (\<lambda>c. c = CHR '' '') mem bg en;
        begin_of_second \<leftarrow> std_find_if (\<lambda>c. c \<noteq> CHR '' '') mem end_of_first en;
        end_of_second \<leftarrow> std_find_if (\<lambda>c. c = CHR '' '') mem begin_of_second en;
        begin_of_third \<leftarrow> std_find_if (\<lambda>c. c \<noteq> CHR '' '') mem end_of_second en;
        end_of_third \<leftarrow> std_find_if (\<lambda>c. c = CR) mem begin_of_third en;
        if end_of_third + 3 > en then Some (parser_read_more p)
        else do {
          lf_char \<leftarrow> rd mem en (end_of_third + 1);
          if lf_char \<noteq> LF then Some (parser_bad p)
          else do {
            next_char \<leftarrow> rd mem en (end_of_third + 2);
            if isspace next_char then Some (parser_bad p)
            else (case bv_consume (end_of_third + 2 - bg) v of
                    (Failed, _) \<Rightarrow> None
                  | (Successful, v1) \<Rightarrow>
                      let first = mk_slice bg end_of_first
                      in do {
                        blank \<leftarrow> (if s_size first \<ge> 2
                                  then do { c0 \<leftarrow> rd mem en bg; c1 \<leftarrow> rd mem en (bg + 1); Some (c0 = CR \<and> c1 = LF) }
                                  else Some False);
                        Some (HPause, p\<lparr>hp_buffer := v1,
                          hp_first := (if blank then \<lparr>s_data = s_data first + 2, s_size = s_size first - 2\<rparr>
                                       else first),
                          hp_second := mk_slice begin_of_second end_of_second,
                          hp_third := mk_slice begin_of_third end_of_third,
                          hp_result := Some ParserStartLine, hp_state := ParserHeader\<rparr>) }) } } })"

text \<open>
  The search for the end of a field value, which joins folded lines by overwriting the line break
  with blanks. The result is the memory with either the end of the value and the end of the line,
  or the way the step ends instead.
\<close>

datatype fold_result = FoldDone nat nat | FoldRead | FoldBad

lemma std_find_if_Some: "std_find_if P mem b e = Some i \<Longrightarrow> b \<le> i \<and> i \<le> e"
proof (induction P mem b e rule: std_find_if.induct)
  case (1 P mem b e)
  show ?case
  proof (cases "b = e")
    case False
    then obtain c where c: "rd mem e b = Some c" using "1.prems" by (subst (asm) std_find_if.simps) (auto split: option.splits)
    then have "b < e" by (auto simp: rd_def split: if_splits)
    then show ?thesis
      using "1.prems" "1.IH" [OF False c] False c by (subst (asm) std_find_if.simps) (auto split: if_splits)
  qed (use "1.prems" in \<open>subst (asm) std_find_if.simps, simp\<close>)
qed

text \<open>The three bytes of a line break and the blank behind it become blanks.\<close>

definition blank_fold :: "nat \<Rightarrow> nat \<Rightarrow> string \<Rightarrow> string option" where
  "blank_fold en e mem =
     do { mem1 \<leftarrow> wr en e (CHR '' '') mem; mem2 \<leftarrow> wr en (e + 1) (CHR '' '') mem1; wr en (e + 2) (CHR '' '') mem2 }"

function scan_value :: "string \<Rightarrow> nat \<Rightarrow> nat \<Rightarrow> (fold_result \<times> string) option" where
  "scan_value mem i en =
     (case std_find_if (\<lambda>c. c = CR) mem i en of
        None \<Rightarrow> None
      | Some e \<Rightarrow>
          if e = en \<or> e + 1 = en then Some (FoldRead, mem)
          else (case rd mem en (e + 1) of
                  None \<Rightarrow> None
                | Some next_char \<Rightarrow>
                    if next_char \<noteq> LF then Some (FoldBad, mem)
                    else if e + 2 = en then Some (FoldRead, mem)
                    else (case rd mem en (e + 2) of
                            None \<Rightarrow> None
                          | Some c \<Rightarrow>
                              if c = CHR '' '' \<or> c = TAB
                              then (case blank_fold en e mem of
                                      None \<Rightarrow> None
                                    | Some mem1 \<Rightarrow> scan_value mem1 (e + 3) en)
                              else Some (FoldDone e (e + 2), mem))))"
  by auto
termination
  by (relation "measure (\<lambda>(mem, i, en). en - i)") (auto simp: rd_def split: if_splits dest!: std_find_if_Some)

declare scan_value.simps [simp del]

function skip_back :: "nat \<Rightarrow> string \<Rightarrow> nat \<Rightarrow> nat \<Rightarrow> nat option" where
  "skip_back en mem b e =
     (if e > b
      then (case rd mem en (e - 1) of
              None \<Rightarrow> None
            | Some c \<Rightarrow> if isspace c then skip_back en mem b (e - 1) else Some e)
      else Some e)"
  by auto
termination by (relation "measure (\<lambda>(en, mem, b, e). e)") auto

declare skip_back.simps [simp del]

definition parse_header :: "http_parser \<Rightarrow> (parser_action \<times> http_parser) option" where
  "parse_header p =
     (let mem = hp_mem p; v = hp_buffer p; bg = bv_data v; en = bv_end_ptr v
      in if bv_size v < 2 then Some (parser_read_more p)
         else do {
           c0 \<leftarrow> rd mem en bg;
           blank \<leftarrow> (if c0 = CR then do { c1 \<leftarrow> rd mem en (bg + 1); Some (c1 = LF) } else Some False);
           if blank
           then (case bv_consume 2 v of
                   (Failed, _) \<Rightarrow> None
                 | (Successful, v1) \<Rightarrow>
                     (case bv_cut (sub64 (bv_data v1) (bv_memory v1)) v1 of
                        (Failed, _) \<Rightarrow> None
                      | (Successful, v2) \<Rightarrow>
                          Some (HReturn, p\<lparr>hp_buffer := v2, hp_result := Some ParserComplete\<rparr>)))
           else do {
             end_of_name \<leftarrow> std_find_if (\<lambda>c. c = CHR '':'') mem bg en;
             (scan, mem1) \<leftarrow> scan_value mem end_of_name en;
             (case scan of
                FoldRead \<Rightarrow> Some (parser_read_more (p\<lparr>hp_mem := mem1\<rparr>))
              | FoldBad \<Rightarrow> Some (parser_bad (p\<lparr>hp_mem := mem1\<rparr>))
              | FoldDone end_of_value e \<Rightarrow>
                  do {
                    b2 \<leftarrow> std_find_if (\<lambda>c. \<not> isspace c) mem1
                           (if end_of_value > end_of_name then end_of_name + 1 else end_of_name) end_of_value;
                    e2 \<leftarrow> skip_back en mem1 b2 end_of_value;
                    (case bv_consume (e - bg) v of
                       (Failed, _) \<Rightarrow> None
                     | (Successful, v1) \<Rightarrow>
                         let name = mk_slice bg end_of_name;
                             p1 = p\<lparr>hp_mem := mem1, hp_buffer := v1, hp_name := name,
                                    hp_value := mk_slice b2 e2\<rparr>
                         in do {
                           spaced \<leftarrow> (if s_size name > 0
                                      then do { c \<leftarrow> rd mem1 en (bg + s_size name - 1); Some (isspace c) }
                                      else Some False);
                           if spaced then Some (parser_bad p1)
                           else Some (HPause, p1\<lparr>hp_result := Some ParserHeader\<rparr>) }) }) } })"

definition parser_parse :: "http_parser \<Rightarrow> (parser_action \<times> http_parser) option" where
  "parser_parse p =
     (case hp_state p of
        ParserStartLine \<Rightarrow> parse_start_line p
      | ParserHeader \<Rightarrow> parse_header p
      | ParserUninitialized \<Rightarrow>
          Some (HThrow (make_error_awaitable ErrorAwaitable_Uninitialized), p)
      | _ \<Rightarrow> Some (HReturn, p))"

text \<open>
  \<^verbatim>\<open>handle_error\<close>: the end of the stream is a result, any other error is raised again. \<open>paused\<close> is
  the state of the pausable base, which passes errors through.
\<close>

datatype handled = HandledReturn | HandledRaise | HandledPass

definition parser_handle_error :: "bool \<Rightarrow> Error \<Rightarrow> http_parser \<Rightarrow> (handled \<times> http_parser) option" where
  "parser_handle_error paused e p =
     (if paused then Some (HandledPass, p)
      else do { c \<leftarrow> e_category e;
                if c = category_stream \<and> e_value e = value_ErrorStream ErrorStream_EndOfStream
                then Some (HandledReturn, p\<lparr>hp_state := ParserEndOfStream,
                                            hp_result := Some ParserEndOfStream\<rparr>)
                else Some (HandledRaise, p) })"

section \<open>Text and slices\<close>

definition slice_text :: "string \<Rightarrow> Slice \<Rightarrow> string" where
  "slice_text mem s = take (s_size s) (drop (s_data s) mem)"

text \<open>The parser's buffer lies in the block: what it still has to read is \<open>hp_input\<close>.\<close>

definition hp_ok :: "http_parser \<Rightarrow> bool" where
  "hp_ok p \<longleftrightarrow> bv_ok (hp_buffer p) \<and>
     bv_memory (hp_buffer p) + bv_memory_size (hp_buffer p) \<le> length (hp_mem p)"

definition hp_input :: "http_parser \<Rightarrow> string" where
  "hp_input p = take (bv_size (hp_buffer p)) (drop (bv_data (hp_buffer p)) (hp_mem p))"

lemma find_if_bounds: "b \<le> find_if P mem b e" "b \<le> e \<Longrightarrow> find_if P mem b e \<le> e"
proof -
  show "b \<le> find_if P mem b e"
    by (induction P mem b e rule: find_if.induct) (subst find_if.simps, auto)
  show "b \<le> e \<Longrightarrow> find_if P mem b e \<le> e"
    by (induction P mem b e rule: find_if.induct) (subst find_if.simps, auto)
qed

text \<open>Inside the block the checked operations are the unchecked ones.\<close>

lemma rd_in [simp]: "i < en \<Longrightarrow> en \<le> length mem \<Longrightarrow> rd mem en i = Some (mem ! i)"
  by (simp add: rd_def)

lemma std_find_if_eq:
  "b \<le> e \<Longrightarrow> e \<le> length mem \<Longrightarrow> std_find_if P mem b e = Some (find_if P mem b e)"
proof (induction P mem b e rule: find_if.induct)
  case (1 P mem b e)
  then show ?case
    by (cases "b = e") (subst std_find_if.simps, subst find_if.simps, simp)+
qed

lemma scan_value_unfold:
  assumes "i \<le> en" and "en \<le> length mem"
  shows "scan_value mem i en =
     (let e = find_if (\<lambda>c. c = CR) mem i en
      in if e \<ge> en \<or> e + 1 \<ge> en then Some (FoldRead, mem)
         else if mem ! (e + 1) \<noteq> LF then Some (FoldBad, mem)
         else if e + 2 \<ge> en then Some (FoldRead, mem)
         else if mem ! (e + 2) = CHR '' '' \<or> mem ! (e + 2) = TAB
         then scan_value (mem[e := CHR '' '', e + 1 := CHR '' '', e + 2 := CHR '' '']) (e + 3) en
         else Some (FoldDone e (e + 2), mem))"
proof -
  define e where "e = find_if (\<lambda>c. c = CR) mem i en"
  have e: "e \<le> en" using find_if_bounds assms by (simp add: e_def)
  have "blank_fold en e mem = Some (mem[e := CHR '' '', e + 1 := CHR '' '', e + 2 := CHR '' ''])" if "e + 2 < en"
    using that assms by (simp add: blank_fold_def wr_def)
  then show ?thesis
    using e assms unfolding std_find_if_eq [OF assms] Let_def e_def [symmetric]
    by (subst scan_value.simps) (auto simp: std_find_if_eq simp flip: e_def)
qed

lemma find_if_spec:
  assumes "b \<le> i" and "i \<le> e" and "\<And>j. b \<le> j \<Longrightarrow> j < i \<Longrightarrow> \<not> P (mem ! j)" and "i < e \<Longrightarrow> P (mem ! i)"
  shows "find_if P mem b e = i"
  using assms
proof (induction "i - b" arbitrary: b)
  case 0
  then show ?case by (subst find_if.simps) auto
next
  case (Suc n)
  then have "b < i" by simp
  then have "find_if P mem b e = find_if P mem (b + 1) e"
    using Suc.prems by (subst find_if.simps) auto
  also have "\<dots> = i" using Suc by (intro Suc.hyps) auto
  finally show ?case .
qed

lemma scan_value_total:
  "i \<le> en \<Longrightarrow> en \<le> length mem \<Longrightarrow>
   \<exists>r mem'. scan_value mem i en = Some (r, mem') \<and> length mem' = length mem \<and>
     (\<forall>e f. r = FoldDone e f \<longrightarrow> i \<le> e \<and> f = e + 2 \<and> f < en)"
proof (induction "en - i" arbitrary: mem i rule: less_induct)
  case less
  define e where "e = find_if (\<lambda>c. c = CR) mem i en"
  have ie: "i \<le> e" using find_if_bounds(1) by (simp add: e_def)
  note unf = scan_value_unfold [OF less.prems, unfolded Let_def e_def [symmetric]]
  let ?go = "e + 2 < en \<and> mem ! (e + 1) = LF \<and> (mem ! (e + 2) = CHR '' '' \<or> mem ! (e + 2) = TAB)"
  let ?mem = "mem[e := CHR '' '', e + 1 := CHR '' '', e + 2 := CHR '' '']"
  show ?case
  proof (cases ?go)
    case True
    have "\<exists>r mem'. scan_value ?mem (e + 3) en = Some (r, mem') \<and> length mem' = length ?mem \<and>
        (\<forall>e' f. r = FoldDone e' f \<longrightarrow> e + 3 \<le> e' \<and> f = e' + 2 \<and> f < en)"
      by (rule less.hyps) (use True ie less.prems in auto)
    moreover have "scan_value mem i en = scan_value ?mem (e + 3) en" using True unf by simp
    ultimately show ?thesis using ie by (metis add_leD1 le_trans length_list_update)
  next
    case False
    then show ?thesis using unf ie by auto
  qed
qed

lemma scan_value_bounds:
  "i \<le> en \<Longrightarrow> en \<le> length mem \<Longrightarrow> scan_value mem i en = Some (r, mem') \<Longrightarrow>
   length mem' = length mem \<and> (\<forall>e f. r = FoldDone e f \<longrightarrow> i \<le> e \<and> f = e + 2 \<and> f < en)"
  using scan_value_total [of i en mem] by auto

lemma skip_back_total:
  "b \<le> e \<Longrightarrow> e \<le> en \<Longrightarrow> en \<le> length mem \<Longrightarrow> \<exists>e'. skip_back en mem b e = Some e' \<and> b \<le> e' \<and> e' \<le> e"
proof (induction en mem b e rule: skip_back.induct)
  case (1 en mem b e)
  show ?case
  proof (cases "e > b \<and> isspace (mem ! (e - 1))")
    case True
    then have "\<exists>e'. skip_back en mem b (e - 1) = Some e' \<and> b \<le> e' \<and> e' \<le> e - 1"
      using "1.prems" by (intro "1.IH") auto
    then show ?thesis using True "1.prems" by (subst skip_back.simps) auto
  next
    case False
    then have "skip_back en mem b e = Some e" using "1.prems" by (subst skip_back.simps) auto
    then show ?thesis using "1.prems" by simp
  qed
qed

lemma parser_read_more_ok: "hp_ok p \<Longrightarrow> hp_ok (snd (parser_read_more p))"
  by (auto simp: parser_read_more_def hp_ok_def)

lemma parser_bad_ok: "hp_ok p \<Longrightarrow> hp_ok (snd (parser_bad p))"
  by (auto simp: parser_bad_def hp_ok_def)

lemma hp_ok_view:
  assumes "hp_ok p"
  shows "bv_data (hp_buffer p) = bv_memory (hp_buffer p) + bv_begin (hp_buffer p)"
    "bv_end_ptr (hp_buffer p) = bv_memory (hp_buffer p) + bv_end (hp_buffer p)"
    "bv_size (hp_buffer p) = bv_end (hp_buffer p) - bv_begin (hp_buffer p)"
    "bv_data (hp_buffer p) \<le> bv_end_ptr (hp_buffer p)" "bv_end_ptr (hp_buffer p) \<le> length (hp_mem p)"
    "bv_end_ptr (hp_buffer p) < size_max"
    "bv_size (hp_buffer p) = bv_end_ptr (hp_buffer p) - bv_data (hp_buffer p)"
  using assms unfolding hp_ok_def by (auto simp: bv_ok_simps bv_ok_def)

lemma consume_ok:
  assumes "hp_ok p" and "n \<le> bv_end_ptr (hp_buffer p) - bv_data (hp_buffer p)"
  shows "\<exists>v. bv_consume n (hp_buffer p) = (Successful, v) \<and> bv_ok v \<and> bv_memory v = bv_memory (hp_buffer p) \<and>
    bv_memory_size v = bv_memory_size (hp_buffer p) \<and> bv_data v = bv_data (hp_buffer p) + n \<and>
    bv_end_ptr v = bv_end_ptr (hp_buffer p) \<and> bv_begin v = bv_begin (hp_buffer p) + n \<and>
    bv_size v = bv_size (hp_buffer p) - n"
proof -
  have ok: "bv_ok (hp_buffer p)" using assms(1) by (simp add: hp_ok_def)
  let ?v = "(hp_buffer p)\<lparr>bv_begin := bv_begin (hp_buffer p) + n\<rparr>"
  have n: "n \<le> bv_end (hp_buffer p) - bv_begin (hp_buffer p)" using assms hp_ok_view [OF assms(1)] by simp
  then have ok': "bv_ok ?v" using ok by (auto simp: bv_ok_def)
  have "bv_consume n (hp_buffer p) = (Successful, ?v)" using bv_consume_ok [OF ok] n by simp
  moreover have "bv_data ?v = bv_data (hp_buffer p) + n" "bv_end_ptr ?v = bv_end_ptr (hp_buffer p)"
      "bv_size ?v = bv_size (hp_buffer p) - n"
    using bv_data_ok [OF ok'] bv_end_ptr_ok [OF ok'] bv_size_ok [OF ok'] hp_ok_view [OF assms(1)] by simp_all
  ultimately show ?thesis using ok' by simp
qed

text \<open>The steps on a buffer that lies in the block, with the positions written out.\<close>

lemma parse_start_line_unfold:
  assumes "hp_ok p"
  shows "parse_start_line p =
     (let mem = hp_mem p; v = hp_buffer p; bg = bv_data v; en = bv_end_ptr v;
          end_of_first = find_if (\<lambda>c. c = CHR '' '') mem bg en;
          begin_of_second = find_if (\<lambda>c. c \<noteq> CHR '' '') mem end_of_first en;
          end_of_second = find_if (\<lambda>c. c = CHR '' '') mem begin_of_second en;
          begin_of_third = find_if (\<lambda>c. c \<noteq> CHR '' '') mem end_of_second en;
          end_of_third = find_if (\<lambda>c. c = CR) mem begin_of_third en
      in if end_of_third + 3 > en then Some (parser_read_more p)
         else if mem ! (end_of_third + 1) \<noteq> LF then Some (parser_bad p)
         else if isspace (mem ! (end_of_third + 2)) then Some (parser_bad p)
         else (case bv_consume (end_of_third + 2 - bg) v of
                 (Failed, _) \<Rightarrow> None
               | (Successful, v1) \<Rightarrow>
                   let first = mk_slice bg end_of_first;
                       first' = (if s_size first \<ge> 2 \<and> mem ! bg = CR \<and> mem ! (bg + 1) = LF
                                 then \<lparr>s_data = s_data first + 2, s_size = s_size first - 2\<rparr>
                                 else first)
                   in Some (HPause, p\<lparr>hp_buffer := v1, hp_first := first',
                                      hp_second := mk_slice begin_of_second end_of_second,
                                      hp_third := mk_slice begin_of_third end_of_third,
                                      hp_result := Some ParserStartLine, hp_state := ParserHeader\<rparr>)))"
proof -
  define mem where "mem = hp_mem p"
  define bg where "bg = bv_data (hp_buffer p)"
  define en where "en = bv_end_ptr (hp_buffer p)"
  have v: "bg \<le> en" "en \<le> length mem" "en < size_max" using hp_ok_view [OF assms] by (simp_all add: mem_def bg_def en_def)
  define e1 where "e1 = find_if (\<lambda>c. c = CHR '' '') mem bg en"
  have e1: "bg \<le> e1" "e1 \<le> en" using find_if_bounds v by (simp_all add: e1_def)
  define b2 where "b2 = find_if (\<lambda>c. c \<noteq> CHR '' '') mem e1 en"
  have b2: "e1 \<le> b2" "b2 \<le> en" using find_if_bounds e1 by (simp_all add: b2_def)
  define e2 where "e2 = find_if (\<lambda>c. c = CHR '' '') mem b2 en"
  have e2: "b2 \<le> e2" "e2 \<le> en" using find_if_bounds b2 by (simp_all add: e2_def)
  define b3 where "b3 = find_if (\<lambda>c. c \<noteq> CHR '' '') mem e2 en"
  have b3: "e2 \<le> b3" "b3 \<le> en" using find_if_bounds e2 by (simp_all add: b3_def)
  define e3 where "e3 = find_if (\<lambda>c. c = CR) mem b3 en"
  have f: "std_find_if (\<lambda>c. c = CHR '' '') mem bg en = Some e1" "std_find_if (\<lambda>c. c \<noteq> CHR '' '') mem e1 en = Some b2"
      "std_find_if (\<lambda>c. c = CHR '' '') mem b2 en = Some e2" "std_find_if (\<lambda>c. c \<noteq> CHR '' '') mem e2 en = Some b3"
      "std_find_if (\<lambda>c. c = CR) mem b3 en = Some e3"
    using v(2) e1 b2 e2 b3 v(1) by (simp_all add: std_find_if_eq e1_def b2_def e2_def b3_def e3_def)
  have "s_size (mk_slice bg e1) = e1 - bg" using e1 v by (simp add: mk_slice_def sub64_exact)
  then have c: "bg + 1 < en" if "2 \<le> s_size (mk_slice bg e1)" using that e1(2) by simp
  note defs = mem_def [symmetric] bg_def [symmetric] en_def [symmetric]
  show ?thesis
    unfolding parse_start_line_def Let_def defs f bind.bind_lunit
      e1_def [symmetric] b2_def [symmetric] e2_def [symmetric] b3_def [symmetric] e3_def [symmetric]
    using c v(2) by (auto split: prod.splits SuccessfulFailed.splits)
qed

lemma parse_header_unfold:
  assumes "hp_ok p"
  shows "parse_header p =
     (let mem = hp_mem p; v = hp_buffer p; bg = bv_data v; en = bv_end_ptr v
      in if bv_size v < 2 then Some (parser_read_more p)
         else if mem ! bg = CR \<and> mem ! (bg + 1) = LF
         then (case bv_consume 2 v of
                 (Failed, _) \<Rightarrow> None
               | (Successful, v1) \<Rightarrow>
                   (case bv_cut (sub64 (bv_data v1) (bv_memory v1)) v1 of
                      (Failed, _) \<Rightarrow> None
                    | (Successful, v2) \<Rightarrow>
                        Some (HReturn, p\<lparr>hp_buffer := v2, hp_result := Some ParserComplete\<rparr>)))
         else (let end_of_name = find_if (\<lambda>c. c = CHR '':'') mem bg en
               in case the (scan_value mem end_of_name en) of
                    (FoldRead, mem1) \<Rightarrow> Some (parser_read_more (p\<lparr>hp_mem := mem1\<rparr>))
                  | (FoldBad, mem1) \<Rightarrow> Some (parser_bad (p\<lparr>hp_mem := mem1\<rparr>))
                  | (FoldDone end_of_value e, mem1) \<Rightarrow>
                      let b1 = (if end_of_value > end_of_name then end_of_name + 1 else end_of_name);
                          b2 = find_if (\<lambda>c. \<not> isspace c) mem1 b1 end_of_value;
                          e2 = the (skip_back en mem1 b2 end_of_value)
                      in (case bv_consume (e - bg) v of
                            (Failed, _) \<Rightarrow> None
                          | (Successful, v1) \<Rightarrow>
                              let name = mk_slice bg end_of_name;
                                  p1 = p\<lparr>hp_mem := mem1, hp_buffer := v1, hp_name := name,
                                         hp_value := mk_slice b2 e2\<rparr>
                              in if s_size name > 0 \<and> isspace (mem1 ! (bg + s_size name - 1))
                                 then Some (parser_bad p1)
                                 else Some (HPause, p1\<lparr>hp_result := Some ParserHeader\<rparr>))))"
proof -
  define mem where "mem = hp_mem p"
  define bg where "bg = bv_data (hp_buffer p)"
  define en where "en = bv_end_ptr (hp_buffer p)"
  have v: "bg \<le> en" "en \<le> length mem" "en < size_max" using hp_ok_view [OF assms] by (simp_all add: mem_def bg_def en_def)
  have two: "bg + 1 < en" if "\<not> bv_size (hp_buffer p) < 2"
    using that hp_ok_view(7) [OF assms] by (simp add: bg_def en_def)
  define e1 where "e1 = find_if (\<lambda>c. c = CHR '':'') mem bg en"
  have e1: "bg \<le> e1" "e1 \<le> en" using find_if_bounds v by (simp_all add: e1_def)
  obtain r mem1 where r: "scan_value mem e1 en = Some (r, mem1)" "length mem1 = length mem"
      "\<And>e f. r = FoldDone e f \<Longrightarrow> e1 \<le> e \<and> f = e + 2 \<and> f < en"
    using scan_value_total [OF e1(2) v(2)] by blast
  have s: "s_size (mk_slice bg e1) = e1 - bg" using e1 v by (simp add: mk_slice_def sub64_exact)
  have f: "std_find_if (\<lambda>c. c = CHR '':'') mem bg en = Some e1" using v by (simp add: std_find_if_eq e1_def)
  note defs = mem_def [symmetric] bg_def [symmetric] en_def [symmetric]
  show ?thesis
  proof (cases "bv_size (hp_buffer p) < 2 \<or> mem ! bg = CR \<and> mem ! (bg + 1) = LF")
    case True
    then show ?thesis
      unfolding parse_header_def Let_def defs using two v(2) by auto
  next
    case False
    have fin: "std_find_if (\<lambda>c. \<not> isspace c) mem1 (if e > e1 then e1 + 1 else e1) e =
          Some (find_if (\<lambda>c. \<not> isspace c) mem1 (if e > e1 then e1 + 1 else e1) e)"
        "skip_back en mem1 (find_if (\<lambda>c. \<not> isspace c) mem1 (if e > e1 then e1 + 1 else e1) e) e \<noteq> None"
      if "r = FoldDone e g" for e g
    proof -
      have b: "(if e > e1 then e1 + 1 else e1) \<le> e" "e \<le> en" "e \<le> length mem1" using r(3) [OF that] r(2) v by auto
      then show "std_find_if (\<lambda>c. \<not> isspace c) mem1 (if e > e1 then e1 + 1 else e1) e =
          Some (find_if (\<lambda>c. \<not> isspace c) mem1 (if e > e1 then e1 + 1 else e1) e)"
        by (intro std_find_if_eq)
      show "skip_back en mem1 (find_if (\<lambda>c. \<not> isspace c) mem1 (if e > e1 then e1 + 1 else e1) e) e \<noteq> None"
        using skip_back_total [OF find_if_bounds(2) [OF b(1)] b(2), of mem1] r(2) v(2) by fastforce
    qed
    have c: "rd mem1 en (bg + (e1 - bg) - 1) = Some (mem1 ! (bg + (e1 - bg) - 1))" if "bg < e1"
      using that e1 v r(2) by (intro rd_in) auto
    show ?thesis
      using False two v(2) fin c e1
      unfolding parse_header_def Let_def defs f e1_def [symmetric] r(1)
      by (cases r) (auto simp: r(1) f s split: prod.splits SuccessfulFailed.splits)
  qed
qed

text \<open>Every step keeps the buffer inside the block and never reaches a fatal error.\<close>

lemma parse_start_line_total:
  assumes ok: "hp_ok p"
  shows "\<exists>a p'. parse_start_line p = Some (a, p') \<and> hp_ok p'"
proof -
  define en where "en = bv_end_ptr (hp_buffer p)"
  define bg where "bg = bv_data (hp_buffer p)"
  define e1 where "e1 = find_if (\<lambda>c. c = CHR '' '') (hp_mem p) bg en"
  define b2 where "b2 = find_if (\<lambda>c. c \<noteq> CHR '' '') (hp_mem p) e1 en"
  define e2 where "e2 = find_if (\<lambda>c. c = CHR '' '') (hp_mem p) b2 en"
  define b3 where "b3 = find_if (\<lambda>c. c \<noteq> CHR '' '') (hp_mem p) e2 en"
  define e3 where "e3 = find_if (\<lambda>c. c = CR) (hp_mem p) b3 en"
  note defs = en_def bg_def e1_def b2_def e2_def b3_def e3_def
  have "bg \<le> e3" using find_if_bounds(1) unfolding e3_def b3_def e2_def b2_def e1_def by (meson le_trans)
  consider "e3 + 3 > en" | "\<not> e3 + 3 > en" "hp_mem p ! (e3 + 1) \<noteq> LF \<or> isspace (hp_mem p ! (e3 + 2))"
    | "\<not> e3 + 3 > en" "hp_mem p ! (e3 + 1) = LF" "\<not> isspace (hp_mem p ! (e3 + 2))" by blast
  then show ?thesis
  proof cases
    case 1
    then have "parse_start_line p = Some (parser_read_more p)"
      by (simp add: parse_start_line_unfold [OF ok] Let_def defs)
    then show ?thesis using parser_read_more_ok [OF ok] by (metis prod.collapse)
  next
    case 2
    then have "parse_start_line p = Some (parser_bad p)"
      by (auto simp: parse_start_line_unfold [OF ok] Let_def defs)
    then show ?thesis using parser_bad_ok [OF ok] by (metis prod.collapse)
  next
    case 3
    have "e3 + 2 - bg \<le> en - bg" using 3(1) by simp
    then obtain v where v: "bv_consume (e3 + 2 - bg) (hp_buffer p) = (Successful, v)" "bv_ok v"
        "bv_memory v = bv_memory (hp_buffer p)" "bv_memory_size v = bv_memory_size (hp_buffer p)"
      using consume_ok [OF ok] unfolding defs by blast
    then have "\<exists>q. parse_start_line p = Some (HPause, q) \<and> hp_buffer q = v \<and> hp_mem q = hp_mem p"
      using 3 by (simp add: parse_start_line_unfold [OF ok] Let_def defs)
    then show ?thesis using v ok by (auto simp: hp_ok_def)
  qed
qed

lemma parse_header_total:
  assumes ok: "hp_ok p"
  shows "\<exists>a p'. parse_header p = Some (a, p') \<and> hp_ok p'"
proof -
  define en where "en = bv_end_ptr (hp_buffer p)"
  define bg where "bg = bv_data (hp_buffer p)"
  define e1 where "e1 = find_if (\<lambda>c. c = CHR '':'') (hp_mem p) bg en"
  have bounds: "bg \<le> en" "en \<le> length (hp_mem p)" using hp_ok_view [OF ok] by (auto simp: en_def bg_def)
  have e1: "bg \<le> e1" "e1 \<le> en" using find_if_bounds bounds by (auto simp: e1_def)
  obtain r mem where sc: "scan_value (hp_mem p) e1 en = Some (r, mem)"
    using scan_value_total [OF e1(2) bounds(2)] by blast
  have len: "length mem = length (hp_mem p)"
    and fdone: "\<And>e f. r = FoldDone e f \<Longrightarrow> e1 \<le> e \<and> f = e + 2 \<and> f < en"
    using scan_value_bounds [OF e1(2) bounds(2) sc] by auto
  have ok1: "hp_ok (p\<lparr>hp_mem := mem\<rparr>)" using ok len by (simp add: hp_ok_def)
  consider (short) "bv_size (hp_buffer p) < 2"
    | (fin) "\<not> bv_size (hp_buffer p) < 2" "hp_mem p ! bg = CR \<and> hp_mem p ! (bg + 1) = LF"
    | (line) "\<not> bv_size (hp_buffer p) < 2" "\<not> (hp_mem p ! bg = CR \<and> hp_mem p ! (bg + 1) = LF)" by blast
  then show ?thesis
  proof cases
    case short
    then have "parse_header p = Some (parser_read_more p)" by (simp add: parse_header_unfold [OF ok] Let_def)
    then show ?thesis using parser_read_more_ok [OF ok] by (metis prod.collapse)
  next
    case fin
    then obtain v where v: "bv_consume 2 (hp_buffer p) = (Successful, v)" "bv_ok v"
        "bv_memory v = bv_memory (hp_buffer p)" "bv_memory_size v = bv_memory_size (hp_buffer p)"
      using consume_ok [OF ok, of 2] hp_ok_view(7) [OF ok] by auto
    have "sub64 (bv_data v) (bv_memory v) = bv_begin v"
      using v(2) by (simp add: bv_data_ok) (simp add: bv_ok_def sub64_exact)
    then obtain w where w: "bv_cut (sub64 (bv_data v) (bv_memory v)) v = (Successful, w)"
        "bv_memory w + bv_memory_size w = bv_memory v + bv_memory_size v" "bv_ok w"
      using bv_exec_ok [OF v(2), of "BCut (bv_begin v)"] bv_exec_within [OF v(2), of "BCut (bv_begin v)"]
        bv_cut_ok [OF v(2), of "bv_begin v"] by auto
    have "parse_header p = Some (HReturn, p\<lparr>hp_buffer := w, hp_result := Some ParserComplete\<rparr>)"
      using fin v(1) w(1) by (simp add: parse_header_unfold [OF ok] Let_def bg_def)
    then show ?thesis using w v ok by (simp add: hp_ok_def)
  next
    case line
    show ?thesis
    proof (cases r)
      case FoldRead
      then have "parse_header p = Some (parser_read_more (p\<lparr>hp_mem := mem\<rparr>))"
        using line sc by (auto simp: parse_header_unfold [OF ok] Let_def bg_def e1_def en_def)
      then show ?thesis using parser_read_more_ok [OF ok1] by (metis prod.collapse)
    next
      case FoldBad
      then have "parse_header p = Some (parser_bad (p\<lparr>hp_mem := mem\<rparr>))"
        using line sc by (auto simp: parse_header_unfold [OF ok] Let_def bg_def e1_def en_def)
      then show ?thesis using parser_bad_ok [OF ok1] by (metis prod.collapse)
    next
      case (FoldDone e f)
      have "f \<le> en" using fdone [OF FoldDone] by linarith
      then have "f - bg \<le> en - bg" by (rule diff_le_mono)
      then obtain v where v: "bv_consume (f - bg) (hp_buffer p) = (Successful, v)" "bv_ok v"
          "bv_memory v = bv_memory (hp_buffer p)" "bv_memory_size v = bv_memory_size (hp_buffer p)"
        using consume_ok [OF ok] unfolding en_def bg_def by blast
      have "\<exists>a q. parse_header p = Some (a, q) \<and> hp_buffer q = v \<and> hp_mem q = mem"
        using line sc FoldDone v(1)
        by (auto simp: parse_header_unfold [OF ok] Let_def bg_def e1_def en_def parser_bad_def)
      then show ?thesis using v ok len by (auto simp: hp_ok_def)
    qed
  qed
qed

text \<open>
  C37. The parser is safe on any input. Whatever bytes are in the buffer, provided the buffer lies in
  its block of memory, a step of the parser ends: it neither reads nor writes a byte at or behind
  the end of what the buffer holds (every access is checked, and one outside has no value), it never
  reaches \<^verbatim>\<open>error::fatal\<close>, and it leaves a buffer that again lies in the block. \<^verbatim>\<open>isspace\<close> is taken
  to be total, as it is in glibc; the standard leaves it undefined for a negative \<^verbatim>\<open>char\<close>.
\<close>

theorem parser_is_total:
  assumes "hp_ok p"
  shows "\<exists>a p'. parser_parse p = Some (a, p') \<and> hp_ok p'"
  using assms parse_start_line_total [OF assms] parse_header_total [OF assms]
  by (cases "hp_state p") (auto simp: parser_parse_def)

definition sample_parser :: "string \<Rightarrow> HTTPParserState \<Rightarrow> http_parser" where
  "sample_parser s st = \<lparr>hp_mem = s, hp_buffer = bv_new 0 (length s) 0 (length s), hp_state = st,
     hp_first = null_slice, hp_second = null_slice, hp_third = null_slice, hp_name = null_slice,
     hp_value = null_slice, hp_result = None\<rparr>"

lemma sample_parser_ok: "length s < size_max \<Longrightarrow> hp_ok (sample_parser s st)"
  by (simp add: sample_parser_def hp_ok_def bv_ok_def bv_new_def)

lemma sample_parser_input: "length s < size_max \<Longrightarrow> hp_input (sample_parser s st) = s"
  by (simp add: sample_parser_def hp_input_def bv_new_def bv_size_def bv_data_def sub64_exact add64_exact)

theorem parser_is_total_witness:
  "\<exists>a p'. parser_parse (sample_parser ''GET'' ParserStartLine) = Some (a, p') \<and> hp_ok p'"
  using parser_is_total [OF sample_parser_ok [of "''GET''"]] by simp

section \<open>What a message is parsed to\<close>

text \<open>The block is what lies before the unread input, the input, and what lies behind it.\<close>

lemma hp_mem_split:
  assumes "hp_ok p"
  obtains pre post where "hp_mem p = pre @ hp_input p @ post"
    and "bv_data (hp_buffer p) = length pre"
    and "bv_end_ptr (hp_buffer p) = length pre + length (hp_input p)"
    and "bv_size (hp_buffer p) = length (hp_input p)"
proof
  let ?b = "bv_data (hp_buffer p)" and ?n = "bv_size (hp_buffer p)" and ?m = "hp_mem p"
  note v = hp_ok_view [OF assms]
  have le: "?b + ?n \<le> length ?m" "?b \<le> length ?m" using v by auto
  have "?m = take ?b ?m @ take ?n (drop ?b ?m) @ drop ?n (drop ?b ?m)" by (metis append_take_drop_id)
  then show "?m = take ?b ?m @ hp_input p @ drop ?n (drop ?b ?m)" by (simp add: hp_input_def)
  show "?b = length (take ?b ?m)" using le by simp
  show "bv_size (hp_buffer p) = length (hp_input p)" using le by (simp add: hp_input_def)
  then show "bv_end_ptr (hp_buffer p) = length (take ?b ?m) + length (hp_input p)"
    using v le by simp
qed

lemma find_if_append:
  assumes "\<And>c. c \<in> set xs \<Longrightarrow> \<not> P c" and "i = length pre" and "i + length xs \<le> e"
    and "i + length xs < e \<Longrightarrow> ys \<noteq> [] \<and> P (hd ys)"
  shows "find_if P (pre @ xs @ ys) i e = i + length xs"
proof (rule find_if_spec)
  fix j assume "i \<le> j" "j < i + length xs"
  then show "\<not> P ((pre @ xs @ ys) ! j)"
    using assms(1) [of "xs ! (j - i)"] assms(2) by (auto simp: nth_append)
next
  assume "i + length xs < e"
  then show "P ((pre @ xs @ ys) ! (i + length xs))"
    using assms(2) assms(4) by (auto simp: nth_append hd_conv_nth)
qed (use assms in auto)

lemma slice_text_append:
  "i = length pre \<Longrightarrow> j = i + length xs \<Longrightarrow> j < size_max \<Longrightarrow>
   slice_text (pre @ xs @ ys) (mk_slice i j) = xs"
  by (simp add: slice_text_def mk_slice_def sub64_exact)

lemma hp_input_after:
  assumes "hp_mem q = pre @ xs @ ys @ post" and "bv_data (hp_buffer q) = length pre + length xs"
    and "bv_size (hp_buffer q) = length ys"
  shows "hp_input q = ys"
  using assms by (simp add: hp_input_def)

text \<open>The positions \<open>std::find\<close> gives on a well-formed start line.\<close>

lemma start_line_positions:
  assumes mem: "mem = pre @ (m @ replicate (Suc i) (CHR '' '') @ t @ replicate (Suc j) (CHR '' '') @ v @
      [CR, LF] @ c # rest) @ post"
    and m: "CHR '' '' \<notin> set m" and t: "t \<noteq> []" "CHR '' '' \<notin> set t"
    and v: "CR \<notin> set v" "v \<noteq> [] \<Longrightarrow> hd v \<noteq> CHR '' ''"
    and bg: "bg = length pre" and en: "length pre + length m + i + length t + j + length v + 5 \<le> en"
  shows "find_if (\<lambda>c. c = CHR '' '') mem bg en = bg + length m"
    "find_if (\<lambda>c. c \<noteq> CHR '' '') mem (bg + length m) en = bg + length m + Suc i"
    "find_if (\<lambda>c. c = CHR '' '') mem (bg + length m + Suc i) en = bg + length m + Suc i + length t"
    "find_if (\<lambda>c. c \<noteq> CHR '' '') mem (bg + length m + Suc i + length t) en =
       bg + length m + Suc i + length t + Suc j"
    "find_if (\<lambda>c. c = CR) mem (bg + length m + Suc i + length t + Suc j) en =
       bg + length m + Suc i + length t + Suc j + length v"
proof -
  let ?R = "replicate (Suc i) (CHR '' '')" and ?S = "replicate (Suc j) (CHR '' '')"
  let ?e = "[CR, LF] @ c # rest @ post"
  have sp: "CR \<noteq> CHR '' ''" by (simp add: CR_def)
  have "find_if (\<lambda>c. c = CHR '' '') (pre @ m @ (?R @ t @ ?S @ v @ ?e)) bg en = bg + length m"
    by (rule find_if_append) (use m bg en in auto)
  then show "find_if (\<lambda>c. c = CHR '' '') mem bg en = bg + length m" by (simp add: mem)
  have "find_if (\<lambda>c. c \<noteq> CHR '' '') ((pre @ m) @ ?R @ (t @ ?S @ v @ ?e)) (bg + length m) en =
      bg + length m + length ?R"
    by (rule find_if_append) (use t bg en in \<open>auto simp: hd_append neq_Nil_conv\<close>)
  then show "find_if (\<lambda>c. c \<noteq> CHR '' '') mem (bg + length m) en = bg + length m + Suc i" by (simp add: mem)
  have "find_if (\<lambda>c. c = CHR '' '') ((pre @ m @ ?R) @ t @ (?S @ v @ ?e)) (bg + length m + Suc i) en =
      bg + length m + Suc i + length t"
    by (rule find_if_append) (use t bg en in auto)
  then show "find_if (\<lambda>c. c = CHR '' '') mem (bg + length m + Suc i) en = bg + length m + Suc i + length t"
    by (simp add: mem)
  have "find_if (\<lambda>c. c \<noteq> CHR '' '') ((pre @ m @ ?R @ t) @ ?S @ (v @ ?e)) (bg + length m + Suc i + length t) en =
      bg + length m + Suc i + length t + length ?S"
    by (rule find_if_append) (use v sp bg en in \<open>auto simp: hd_append\<close>)
  then show "find_if (\<lambda>c. c \<noteq> CHR '' '') mem (bg + length m + Suc i + length t) en =
      bg + length m + Suc i + length t + Suc j" by (simp add: mem)
  have "find_if (\<lambda>c. c = CR) ((pre @ m @ ?R @ t @ ?S) @ v @ ?e) (bg + length m + Suc i + length t + Suc j) en =
      bg + length m + Suc i + length t + Suc j + length v"
    by (rule find_if_append) (use v bg en in auto)
  then show "find_if (\<lambda>c. c = CR) mem (bg + length m + Suc i + length t + Suc j) en =
      bg + length m + Suc i + length t + Suc j + length v" by (simp add: mem)
qed

lemma consume_to:
  assumes "hp_ok p" and "bv_data (hp_buffer p) \<le> e" and "e \<le> bv_end_ptr (hp_buffer p)"
  obtains q where "bv_consume (e - bv_data (hp_buffer p)) (hp_buffer p) = (Successful, q)"
    and "hp_ok (p\<lparr>hp_buffer := q\<rparr>)" and "bv_data q = e" and "bv_size q = bv_end_ptr (hp_buffer p) - e"
proof -
  have "e - bv_data (hp_buffer p) \<le> bv_end_ptr (hp_buffer p) - bv_data (hp_buffer p)"
    using assms(3) by (rule diff_le_mono)
  then obtain q where q: "bv_consume (e - bv_data (hp_buffer p)) (hp_buffer p) = (Successful, q)" "bv_ok q"
      "bv_memory q = bv_memory (hp_buffer p)" "bv_memory_size q = bv_memory_size (hp_buffer p)"
      "bv_data q = bv_data (hp_buffer p) + (e - bv_data (hp_buffer p))"
      "bv_size q = bv_size (hp_buffer p) - (e - bv_data (hp_buffer p))"
    using consume_ok [OF assms(1)] by blast
  show ?thesis
  proof
    show "hp_ok (p\<lparr>hp_buffer := q\<rparr>)" using q assms(1) by (simp add: hp_ok_def)
    show "bv_data q = e" using q assms by simp
    show "bv_size q = bv_end_ptr (hp_buffer p) - e"
      using q(6) hp_ok_view(7) [OF assms(1)] assms by simp
  qed (rule q(1))
qed

lemma parse_start_line_success:
  assumes ok: "hp_ok p" and bg: "bg = bv_data (hp_buffer p)" and en: "en = bv_end_ptr (hp_buffer p)"
    and "find_if (\<lambda>c. c = CHR '' '') (hp_mem p) bg en = e1"
    and "find_if (\<lambda>c. c \<noteq> CHR '' '') (hp_mem p) e1 en = b2"
    and "find_if (\<lambda>c. c = CHR '' '') (hp_mem p) b2 en = e2"
    and "find_if (\<lambda>c. c \<noteq> CHR '' '') (hp_mem p) e2 en = b3"
    and "find_if (\<lambda>c. c = CR) (hp_mem p) b3 en = e3"
    and "e3 + 3 \<le> en" and "hp_mem p ! (e3 + 1) = LF" and "\<not> isspace (hp_mem p ! (e3 + 2))"
    and crlf: "\<not> (e1 - bg \<ge> 2 \<and> hp_mem p ! bg = CR \<and> hp_mem p ! (bg + 1) = LF)"
  shows "\<exists>p'. parse_start_line p = Some (HPause, p') \<and> hp_ok p' \<and> hp_mem p' = hp_mem p \<and>
    hp_first p' = mk_slice bg e1 \<and> hp_second p' = mk_slice b2 e2 \<and> hp_third p' = mk_slice b3 e3 \<and>
    bv_data (hp_buffer p') = e3 + 2 \<and> bv_size (hp_buffer p') = en - (e3 + 2) \<and>
    hp_state p' = ParserHeader \<and> hp_result p' = Some ParserStartLine"
proof -
  have le: "bg \<le> e1" "e1 \<le> e3" using assms find_if_bounds(1) by (metis, meson le_trans)
  have lt: "en < size_max" using hp_ok_view [OF ok] by (simp add: en)
  obtain q where q: "bv_consume (e3 + 2 - bg) (hp_buffer p) = (Successful, q)" "hp_ok (p\<lparr>hp_buffer := q\<rparr>)"
      "bv_data q = e3 + 2" "bv_size q = en - (e3 + 2)"
    using consume_to [OF ok, of "e3 + 2"] le assms(9) unfolding bg en by auto
  have first: "s_size (mk_slice bg e1) = e1 - bg" using le lt assms(9) by (simp add: mk_slice_def sub64_exact)
  have "parse_start_line p = Some (HPause, p\<lparr>hp_buffer := q, hp_first := mk_slice bg e1,
      hp_second := mk_slice b2 e2, hp_third := mk_slice b3 e3,
      hp_result := Some ParserStartLine, hp_state := ParserHeader\<rparr>)"
    using assms q(1) crlf unfolding parse_start_line_unfold [OF ok] Let_def
    by (auto simp: first simp flip: bg en)
  then show ?thesis using q by (simp add: hp_ok_def)
qed

lemma parse_start_line_text:
  assumes "hp_ok p"
    and "hp_input p = m @ replicate (Suc i) (CHR '' '') @ t @ replicate (Suc j) (CHR '' '') @ v @ [CR, LF] @ c # rest"
    and "CHR '' '' \<notin> set m" and "take 2 m \<noteq> [CR, LF]" and "t \<noteq> []" and "CHR '' '' \<notin> set t"
    and "CR \<notin> set v" and "v \<noteq> [] \<Longrightarrow> hd v \<noteq> CHR '' ''" and "\<not> isspace c"
  shows "\<exists>p'. parse_start_line p = Some (HPause, p') \<and> hp_ok p' \<and>
    slice_text (hp_mem p') (hp_first p') = m \<and> slice_text (hp_mem p') (hp_second p') = t \<and>
    slice_text (hp_mem p') (hp_third p') = v \<and> hp_input p' = c # rest \<and>
    hp_state p' = ParserHeader \<and> hp_result p' = Some ParserStartLine \<and>
    s_data (hp_second p') + s_size (hp_second p') < length (hp_mem p') \<and>
    hp_mem p' ! (s_data (hp_second p') + s_size (hp_second p')) = CHR '' ''"
proof -
  obtain pre post where split: "hp_mem p = pre @ hp_input p @ post" "bv_data (hp_buffer p) = length pre"
      "bv_end_ptr (hp_buffer p) = length pre + length (hp_input p)" "bv_size (hp_buffer p) = length (hp_input p)"
    using hp_mem_split [OF assms(1)] by metis
  let ?R = "replicate (Suc i) (CHR '' '')" and ?S = "replicate (Suc j) (CHR '' '')"
  let ?e3 = "length pre + length m + Suc i + length t + Suc j + length v"
  have mem: "hp_mem p = pre @ (m @ ?R @ t @ ?S @ v @ [CR, LF] @ c # rest) @ post"
    using split(1) assms(2) by simp
  have en: "bv_end_ptr (hp_buffer p) = ?e3 + 3 + length rest" using split(3) assms(2) by simp
  have lt: "bv_end_ptr (hp_buffer p) < size_max" using hp_ok_view [OF assms(1)] by simp
  have "length pre + length m + i + length t + j + length v + 5 \<le> bv_end_ptr (hp_buffer p)"
    unfolding en by simp
  note pos = start_line_positions [OF mem assms(3,5,6,7) _ refl this]
  have "hp_mem p ! (?e3 + 1) = LF" "hp_mem p ! (?e3 + 2) = c"
    using nth_append_length_plus [of "pre @ m @ ?R @ t @ ?S @ v" "[CR, LF] @ c # rest @ post" 1]
      nth_append_length_plus [of "pre @ m @ ?R @ t @ ?S @ v" "[CR, LF] @ c # rest @ post" 2]
    by (simp_all add: mem add.assoc)
  moreover have "\<not> (length m \<ge> 2 \<and> hp_mem p ! length pre = CR \<and> hp_mem p ! (length pre + 1) = LF)"
    using assms(4) by (auto simp: mem nth_append take_Suc_conv_app_nth numeral_2_eq_2 Suc_le_eq)
  ultimately obtain p' where p': "parse_start_line p = Some (HPause, p')" "hp_ok p'" "hp_mem p' = hp_mem p"
      "hp_first p' = mk_slice (length pre) (length pre + length m)"
      "hp_second p' = mk_slice (length pre + length m + Suc i) (length pre + length m + Suc i + length t)"
      "hp_third p' = mk_slice (length pre + length m + Suc i + length t + Suc j) ?e3"
      "bv_data (hp_buffer p') = ?e3 + 2" "bv_size (hp_buffer p') = bv_end_ptr (hp_buffer p) - (?e3 + 2)"
      "hp_state p' = ParserHeader" "hp_result p' = Some ParserStartLine"
    using parse_start_line_success [OF assms(1) split(2) [symmetric] refl pos] assms(8,9) en by auto
  have "slice_text (hp_mem p') (hp_first p') = m"
    using slice_text_append [of "length pre" pre "length pre + length m" m] lt en by (simp add: p' mem)
  moreover have "slice_text (hp_mem p') (hp_second p') = t"
    using slice_text_append [OF refl refl, of "pre @ m @ ?R" t] lt en by (simp add: p' mem add.assoc)
  moreover have "slice_text (hp_mem p') (hp_third p') = v"
    using slice_text_append [OF refl refl, of "pre @ m @ ?R @ t @ ?S" v] lt en by (simp add: p' mem add.assoc)
  moreover have "hp_input p' = c # rest"
    by (rule hp_input_after [of p' pre "m @ ?R @ t @ ?S @ v @ [CR, LF]" _ post]) (simp_all add: p' mem en)
  moreover have "s_data (hp_second p') + s_size (hp_second p') = length (pre @ m @ ?R @ t)"
    using lt en by (simp add: p' mk_slice_def sub64_exact)
  then have "s_data (hp_second p') + s_size (hp_second p') < length (hp_mem p')"
      "hp_mem p' ! (s_data (hp_second p') + s_size (hp_second p')) = CHR '' ''"
    using nth_append_length [of "pre @ m @ ?R @ t" "CHR '' ''" "replicate j (CHR '' '') @ v @ [CR, LF] @ c # rest @ post"]
    by (simp_all add: p' mem)
  ultimately show ?thesis using p'  by (simp add: hp_ok_def)
qed

text \<open>
  The start line. For a line of three parts separated by blanks, whose last part may itself
  contain blanks, the parser pauses with exactly these three parts, leaves the first byte after the
  line as the next one to read and goes on to the header fields.
\<close>

theorem start_line_parsed:
  assumes "hp_ok p" and "hp_state p = ParserStartLine"
    and "hp_input p = m @ replicate (Suc i) (CHR '' '') @ t @ replicate (Suc j) (CHR '' '') @ v @ [CR, LF] @ c # rest"
    and "CHR '' '' \<notin> set m" and "take 2 m \<noteq> [CR, LF]" and "t \<noteq> []" and "CHR '' '' \<notin> set t"
    and "CR \<notin> set v" and "v \<noteq> [] \<Longrightarrow> hd v \<noteq> CHR '' ''" and "\<not> isspace c"
  shows "\<exists>p'. parser_parse p = Some (HPause, p') \<and> hp_ok p' \<and>
    slice_text (hp_mem p') (hp_first p') = m \<and> slice_text (hp_mem p') (hp_second p') = t \<and>
    slice_text (hp_mem p') (hp_third p') = v \<and> hp_input p' = c # rest \<and>
    hp_state p' = ParserHeader \<and> hp_result p' = Some ParserStartLine"
  using parse_start_line_text [OF assms(1,3-10)] assms(2) by (simp add: parser_parse_def) blast

theorem start_line_parsed_witness:
  "\<exists>p'. parser_parse (sample_parser (''GET / HTTP/1.1'' @ [CR, LF] @ ''Host'') ParserStartLine) = Some (HPause, p') \<and>
    slice_text (hp_mem p') (hp_first p') = ''GET'' \<and> slice_text (hp_mem p') (hp_second p') = ''/'' \<and>
    slice_text (hp_mem p') (hp_third p') = ''HTTP/1.1'' \<and> hp_input p' = ''Host'' \<and> hp_state p' = ParserHeader"
  using start_line_parsed [of "sample_parser (''GET / HTTP/1.1'' @ [CR, LF] @ ''Host'') ParserStartLine"
      "''GET''" 0 "''/''" 0 "''HTTP/1.1''" "CHR ''H''" "''ost''"]
  by (simp add: sample_parser_ok sample_parser_input)
    (auto simp: sample_parser_def CR_def LF_def TAB_def isspace_def)

subsection \<open>Header fields\<close>

text \<open>
  A field value as it is written: lines joined by obsolete line folding. \<open>folded\<close> is the text of the
  continuation lines, each a line break, a blank or a tab, and the rest of the line; \<open>unfolded\<close> is
  what the parser leaves of them in the buffer.
\<close>

definition folded :: "(char \<times> string) list \<Rightarrow> string" where
  "folded ls = concat (map (\<lambda>(s, l). CR # LF # s # l) ls)"

definition unfolded :: "(char \<times> string) list \<Rightarrow> string" where
  "unfolded ls = concat (map (\<lambda>(s, l). ''   '' @ l) ls)"

definition fold_lines :: "(char \<times> string) list \<Rightarrow> bool" where
  "fold_lines ls \<longleftrightarrow> (\<forall>(s, l) \<in> set ls. (s = CHR '' '' \<or> s = TAB) \<and> CR \<notin> set l)"

lemma length_unfolded [simp]: "length (unfolded ls) = length (folded ls)"
  by (induction ls) (auto simp: folded_def unfolded_def)

lemma CR_notin_unfolded: "fold_lines ls \<Longrightarrow> CR \<notin> set (unfolded ls)"
  by (induction ls) (auto simp: fold_lines_def unfolded_def CR_def)

lemma scan_value_lines:
  assumes "CR \<notin> set l" and "fold_lines ls" and "c \<noteq> CHR '' ''" and "c \<noteq> TAB"
    and "length pre + length l + length (folded ls) + 2 < en"
    and "en \<le> length pre + length l + length (folded ls) + 3 + length post"
  shows "scan_value (pre @ l @ folded ls @ CR # LF # c # post) (length pre) en = Some
    (FoldDone (length pre + length l + length (folded ls)) (length pre + length l + length (folded ls) + 2),
     pre @ l @ unfolded ls @ CR # LF # c # post)"
  using assms
proof (induction ls arbitrary: pre l)
  case Nil
  have f: "find_if (\<lambda>c. c = CR) (pre @ l @ CR # LF # c # post) (length pre) en = length pre + length l"
    by (rule find_if_append) (use Nil in \<open>auto simp: folded_def\<close>)
  show ?case
    using Nil by (subst scan_value_unfold) (simp_all add: f folded_def unfolded_def nth_append Let_def)
next
  case (Cons x ls)
  obtain s k where x: "x = (s, k)" by fastforce
  let ?post = "CR # LF # c # post"
  have s: "s = CHR '' '' \<or> s = TAB" "CR \<notin> set k" "fold_lines ls"
    using Cons.prems(2) by (auto simp: fold_lines_def x)
  have eq: "folded (x # ls) = CR # LF # s # k @ folded ls" "unfolded (x # ls) = ''   '' @ k @ unfolded ls"
    by (simp_all add: folded_def unfolded_def x)
  let ?mem = "pre @ l @ folded (x # ls) @ ?post" and ?e = "length pre + length l"
  have f: "find_if (\<lambda>c. c = CR) ?mem (length pre) en = ?e"
    by (rule find_if_append) (use Cons.prems in \<open>auto simp: eq\<close>)
  have upd: "?mem[?e := CHR '' '', ?e + 1 := CHR '' '', ?e + 2 := CHR '' ''] =
      (pre @ l @ ''   '') @ k @ folded ls @ ?post"
    by (simp add: eq list_update_append)
  have lt: "?e + 3 + length k + length (folded ls) + 2 < en" using Cons.prems(5) by (simp add: eq)
  have en: "length pre \<le> en" "en \<le> length ?mem" using lt Cons.prems(6) by simp_all
  have nths: "?mem ! (?e + 1) = LF" "?mem ! (?e + 2) = s" by (simp_all add: eq nth_append)
  have "scan_value ?mem (length pre) en =
      scan_value (?mem[?e := CHR '' '', ?e + 1 := CHR '' '', ?e + 2 := CHR '' '']) (?e + 3) en"
    using s(1) lt nths en by (subst scan_value_unfold) (simp_all add: f Let_def del: append_assoc)
  also have "\<dots> = scan_value ((pre @ l @ ''   '') @ k @ folded ls @ ?post) (length (pre @ l @ ''   '')) en"
    unfolding upd by (simp add: eval_nat_numeral)
  also have "\<dots> = Some (FoldDone (?e + length (folded (x # ls))) (?e + length (folded (x # ls)) + 2),
      pre @ l @ unfolded (x # ls) @ ?post)"
    using Cons.IH [of k "pre @ l @ ''   ''"] s Cons.prems(3,4,6) lt by (simp add: eq)
  finally show ?case .
qed

text \<open>The value with the white space around it removed.\<close>

definition trim :: "string \<Rightarrow> string" where
  "trim s = rev (dropWhile isspace (rev (dropWhile isspace s)))"

lemma skip_back_append:
  "length pre + length s \<le> en \<Longrightarrow> en \<le> length (pre @ s @ post) \<Longrightarrow>
   skip_back en (pre @ s @ post) (length pre) (length pre + length s) =
   Some (length pre + length (dropWhile isspace (rev s)))"
proof (induction s arbitrary: post rule: rev_induct)
  case (snoc c s)
  have IH: "skip_back en (pre @ s @ c # post) (length pre) (length pre + length s) =
      Some (length pre + length (dropWhile isspace (rev s)))"
    using snoc.IH [of "c # post"] snoc.prems by simp
  have "rd (pre @ s @ c # post) en (length pre + length s) = Some c"
    using snoc.prems by (simp add: rd_def nth_append)
  then show ?case
    using IH by (subst skip_back.simps) simp
qed (subst skip_back.simps, simp)

lemma trim_positions:
  assumes "i = length pre" and "e = i + length s" and en: "e \<le> en" "en \<le> length (pre @ s @ post)"
    and b_def: "b = find_if (\<lambda>c. \<not> isspace c) (pre @ s @ post) i e"
  shows "b = i + length (takeWhile isspace s)"
    "skip_back en (pre @ s @ post) b e = Some (b + length (trim s))"
    "pre @ s @ post = (pre @ takeWhile isspace s) @ trim s @ drop (length (trim s)) (dropWhile isspace s) @ post"
proof -
  define a where "a = takeWhile isspace s"
  define d where "d = dropWhile isspace s"
  have s: "s = a @ d" by (simp add: a_def d_def)
  have a: "\<And>c. c \<in> set a \<Longrightarrow> isspace c" by (auto simp: a_def dest: set_takeWhileD)
  have d: "d \<noteq> [] \<Longrightarrow> \<not> isspace (hd d)" using hd_dropWhile [of isspace s] by (simp add: d_def)
  have e: "e = length (pre @ a) + length d" using assms(1,2) by (simp add: s)
  have "find_if (\<lambda>c. \<not> isspace c) (pre @ a @ (d @ post)) i e = i + length a"
    using assms(1) a d by (intro find_if_append) (auto simp: hd_append e)
  then have b: "b = length (pre @ a)" by (simp add: b_def s assms(1))
  then show "b = i + length (takeWhile isspace s)" by (simp add: assms(1) a_def)
  have t: "trim s = rev (dropWhile isspace (rev d))" by (simp add: trim_def d_def)
  have "skip_back en ((pre @ a) @ d @ post) (length (pre @ a)) (length (pre @ a) + length d) =
      Some (length (pre @ a) + length (dropWhile isspace (rev d)))"
    by (rule skip_back_append) (use en in \<open>simp_all add: e s\<close>)
  then show "skip_back en (pre @ s @ post) b e = Some (b + length (trim s))" by (simp add: b e t) (simp add: s)
  have "d = trim s @ rev (takeWhile isspace (rev d))"
    unfolding t by (metis rev_append rev_rev_ident takeWhile_dropWhile_id)
  then have "d = trim s @ drop (length (trim s)) d" by (metis append_eq_conv_conj)
  then show "pre @ s @ post =
      (pre @ takeWhile isspace s) @ trim s @ drop (length (trim s)) (dropWhile isspace s) @ post"
    by (metis a_def append.assoc d_def s)
qed

lemma parse_header_success:
  assumes ok: "hp_ok p" and bg: "bg = bv_data (hp_buffer p)" and en: "en = bv_end_ptr (hp_buffer p)"
    and "2 \<le> bv_size (hp_buffer p)" and crlf: "\<not> (hp_mem p ! bg = CR \<and> hp_mem p ! (bg + 1) = LF)"
    and "find_if (\<lambda>c. c = CHR '':'') (hp_mem p) bg en = e1"
    and scan: "scan_value (hp_mem p) e1 en = Some (FoldDone ev e, mem)"
    and "e1 < ev" and "find_if (\<lambda>c. \<not> isspace c) mem (e1 + 1) ev = b2" and "skip_back en mem b2 ev = Some e2"
    and name: "bg < e1 \<Longrightarrow> \<not> isspace (mem ! (e1 - 1))"
  shows "\<exists>p'. parse_header p = Some (HPause, p') \<and> hp_ok p' \<and> hp_mem p' = mem \<and>
    hp_name p' = mk_slice bg e1 \<and> hp_value p' = mk_slice b2 e2 \<and>
    bv_data (hp_buffer p') = e \<and> bv_size (hp_buffer p') = en - e \<and>
    hp_state p' = hp_state p \<and> hp_result p' = Some ParserHeader"
proof -
  have view: "bg \<le> en" "en \<le> length (hp_mem p)" "en < size_max" using hp_ok_view [OF ok] by (simp_all add: bg en)
  have e1: "bg \<le> e1" "e1 \<le> en" using assms(6) find_if_bounds view by (metis, metis)
  have len: "length mem = length (hp_mem p)" and e: "e = ev + 2" "e < en"
    using scan_value_bounds [OF e1(2) view(2) scan] by auto
  obtain q where q: "bv_consume (e - bg) (hp_buffer p) = (Successful, q)" "hp_ok (p\<lparr>hp_buffer := q\<rparr>)"
      "bv_data q = e" "bv_size q = en - e"
    using consume_to [OF ok, of e] e1 e assms(8) unfolding bg en by auto
  have "s_size (mk_slice bg e1) = e1 - bg" using e1 view by (simp add: mk_slice_def sub64_exact)
  then have "parse_header p = Some (HPause, p\<lparr>hp_mem := mem, hp_buffer := q, hp_name := mk_slice bg e1,
      hp_value := mk_slice b2 e2, hp_result := Some ParserHeader\<rparr>)"
    using assms(4,6,8,9,10) crlf scan q(1) name e1 unfolding parse_header_unfold [OF ok] Let_def
    by (auto simp: not_less simp flip: bg en)
  then show ?thesis using q len by (simp add: hp_ok_def)
qed

lemma parse_header_field:
  assumes "hp_ok p"
    and "hp_input p = n @ CHR '':'' # v @ folded ls @ [CR, LF] @ c # rest"
    and "CHR '':'' \<notin> set n" and "n \<noteq> [] \<Longrightarrow> \<not> isspace (last n)" and "take 2 n \<noteq> [CR, LF]"
    and "CR \<notin> set v" and "fold_lines ls" and "c \<noteq> CHR '' ''" and "c \<noteq> TAB"
  shows "\<exists>p'. parse_header p = Some (HPause, p') \<and> hp_ok p' \<and>
    slice_text (hp_mem p') (hp_name p') = n \<and>
    slice_text (hp_mem p') (hp_value p') = trim (v @ unfolded ls) \<and> hp_input p' = c # rest \<and>
    hp_state p' = hp_state p \<and> hp_result p' = Some ParserHeader"
proof -
  obtain pre post where split: "hp_mem p = pre @ hp_input p @ post" "length pre = bv_data (hp_buffer p)"
      "bv_end_ptr (hp_buffer p) = length pre + length (hp_input p)" "bv_size (hp_buffer p) = length (hp_input p)"
    using hp_mem_split [OF assms(1)] by metis
  let ?en = "bv_end_ptr (hp_buffer p)" and ?e1 = "length pre + length n"
  let ?ev = "?e1 + 1 + length v + length (folded ls)" and ?tail = "[CR, LF] @ c # rest @ post"
  have lt: "?en < size_max" using hp_ok_view [OF assms(1)] by simp
  have en: "?en = ?ev + 3 + length rest" using split(3) assms(2) by simp
  have mem: "hp_mem p = pre @ n @ (CHR '':'' # v @ folded ls @ ?tail)" using split(1) assms(2) by simp
  define mem1 where "mem1 = (pre @ n) @ (CHR '':'' # v) @ unfolded ls @ ?tail"
  have f: "find_if (\<lambda>c. c = CHR '':'') (hp_mem p) (length pre) ?en = ?e1"
    unfolding mem by (rule find_if_append) (use assms(3) en in auto)
  have scan: "scan_value (hp_mem p) ?e1 ?en = Some (FoldDone ?ev (?ev + 2), mem1)"
    using scan_value_lines [of "CHR '':'' # v" ls c "pre @ n" ?en "rest @ post"] assms(6-9) en
    by (simp add: mem mem1_def CR_def)
  have val: "mem1 = (pre @ n @ '':'') @ (v @ unfolded ls) @ ?tail" by (simp add: mem1_def)
  define b where "b = find_if (\<lambda>c. \<not> isspace c) ((pre @ n @ '':'') @ (v @ unfolded ls) @ ?tail) (?e1 + 1) ?ev"
  note tp = trim_positions [OF _ _ _ _ b_def, of ?en]
  have tp: "b = ?e1 + 1 + length (takeWhile isspace (v @ unfolded ls))"
      "skip_back ?en mem1 b ?ev = Some (b + length (trim (v @ unfolded ls)))"
      "mem1 = ((pre @ n @ '':'') @ takeWhile isspace (v @ unfolded ls)) @ trim (v @ unfolded ls) @
         drop (length (trim (v @ unfolded ls))) (dropWhile isspace (v @ unfolded ls)) @ ?tail"
    using tp en by (simp_all add: val)
  have nl: "\<not> isspace (mem1 ! (?e1 - 1))" if "length pre < ?e1"
    using that assms(4) by (cases n rule: rev_cases) (simp_all add: mem1_def nth_append)
  have "\<not> (hp_mem p ! length pre = CR \<and> hp_mem p ! (length pre + 1) = LF)"
    using assms(5) by (cases n; cases "tl n") (auto simp: mem nth_append CR_def LF_def)
  then obtain p' where p': "parse_header p = Some (HPause, p')" "hp_ok p'" "hp_mem p' = mem1"
      "hp_name p' = mk_slice (length pre) ?e1" "hp_value p' = mk_slice b (b + length (trim (v @ unfolded ls)))"
      "bv_data (hp_buffer p') = ?ev + 2" "bv_size (hp_buffer p') = ?en - (?ev + 2)"
      "hp_state p' = hp_state p" "hp_result p' = Some ParserHeader"
    using parse_header_success [OF assms(1) split(2) refl _ _ f scan _ _ tp(2) nl] split(4) assms(2)
    by (auto simp: b_def val)
  have "slice_text (hp_mem p') (hp_name p') = n"
    using slice_text_append [OF refl refl, of pre n] lt en by (simp add: p' mem1_def)
  moreover have "slice_text (hp_mem p') (hp_value p') = trim (v @ unfolded ls)"
  proof -
    have "b + length (trim (v @ unfolded ls)) \<le> ?ev"
      using arg_cong [OF tp(3), of length] by (simp add: tp(1) val)
    then show ?thesis
      unfolding p' by (subst tp(3), intro slice_text_append) (use lt en in \<open>simp_all add: tp(1)\<close>)
  qed
  moreover have "hp_input p' = c # rest"
    by (rule hp_input_after [of p' pre "n @ CHR '':'' # v @ unfolded ls @ [CR, LF]" _ post])
      (simp_all add: p' mem1_def en)
  ultimately show ?thesis using p' by simp
qed

text \<open>
  A header field. For a line that is a name, a colon and a value, the value possibly continued
  over folded lines, the parser pauses with exactly the name and the value: the line breaks of the
  folds are blanked, the white space around the value is removed, and the next byte to read is the
  first one after the line.
\<close>

theorem header_field_parsed:
  assumes "hp_ok p" and "hp_state p = ParserHeader"
    and "hp_input p = n @ CHR '':'' # v @ folded ls @ [CR, LF] @ c # rest"
    and "CHR '':'' \<notin> set n" and "n \<noteq> [] \<Longrightarrow> \<not> isspace (last n)" and "take 2 n \<noteq> [CR, LF]"
    and "CR \<notin> set v" and "fold_lines ls" and "c \<noteq> CHR '' ''" and "c \<noteq> TAB"
  shows "\<exists>p'. parser_parse p = Some (HPause, p') \<and> hp_ok p' \<and>
    slice_text (hp_mem p') (hp_name p') = n \<and>
    slice_text (hp_mem p') (hp_value p') = trim (v @ unfolded ls) \<and> hp_input p' = c # rest \<and>
    hp_state p' = ParserHeader \<and> hp_result p' = Some ParserHeader"
  using parse_header_field [OF assms(1,3-10)] assms(2) by (simp add: parser_parse_def)

theorem header_field_parsed_witness:
  "\<exists>p'. parser_parse (sample_parser (''A: b'' @ folded [(TAB, ''c '')] @ [CR, LF] @ ''B'') ParserHeader) =
      Some (HPause, p') \<and> slice_text (hp_mem p') (hp_name p') = ''A'' \<and>
      slice_text (hp_mem p') (hp_value p') = ''b   c'' \<and> hp_input p' = ''B''"
  using header_field_parsed [of "sample_parser (''A: b'' @ folded [(TAB, ''c '')] @ [CR, LF] @ ''B'') ParserHeader"
      "''A''" "'' b''" "[(TAB, ''c '')]" "CHR ''B''" "[]"]
  by (simp add: sample_parser_ok sample_parser_input folded_def unfolded_def fold_lines_def trim_def)
    (auto simp: sample_parser_def CR_def LF_def TAB_def isspace_def)

text \<open>
  A header line without a colon is not rejected. The parser takes the name up to the first colon
  of the lines that follow: two lines become one field whose name contains a line break, and the
  first line is never reported.
\<close>

theorem line_without_colon_is_merged:
  assumes "hp_ok p" and "hp_state p = ParserHeader"
    and "hp_input p = l @ [CR, LF] @ n @ CHR '':'' # v @ [CR, LF] @ c # rest"
    and "l \<noteq> []" and "CHR '':'' \<notin> set l" and "CR \<notin> set l"
    and "CHR '':'' \<notin> set n" and "n \<noteq> []" and "\<not> isspace (last n)"
    and "CR \<notin> set v" and "c \<noteq> CHR '' ''" and "c \<noteq> TAB"
  shows "\<exists>p'. parser_parse p = Some (HPause, p') \<and>
    slice_text (hp_mem p') (hp_name p') = l @ [CR, LF] @ n \<and>
    slice_text (hp_mem p') (hp_value p') = trim v \<and> hp_input p' = c # rest \<and>
    hp_result p' = Some ParserHeader"
proof -
  have "take 2 (l @ [CR, LF] @ n) \<noteq> [CR, LF]" using assms(4,6) by (cases l) auto
  then show ?thesis
    using parse_header_field [OF assms(1), of "l @ [CR, LF] @ n" v "[]" c rest] assms(2-12)
    by (simp add: parser_parse_def folded_def unfolded_def fold_lines_def CR_def LF_def) blast
qed

theorem line_without_colon_is_merged_witness:
  "\<exists>p'. parser_parse (sample_parser (''evil'' @ [CR, LF] @ ''Host: x'' @ [CR, LF] @ ''B'') ParserHeader) =
      Some (HPause, p') \<and> slice_text (hp_mem p') (hp_name p') = ''evil'' @ [CR, LF] @ ''Host''"
  using line_without_colon_is_merged [of "sample_parser (''evil'' @ [CR, LF] @ ''Host: x'' @ [CR, LF] @ ''B'') ParserHeader"
      "''evil''" "''Host''" "'' x''" "CHR ''B''" "[]"]
  by (simp add: sample_parser_ok sample_parser_input)
    (auto simp: sample_parser_def CR_def LF_def TAB_def isspace_def)

lemma parse_header_end:
  assumes "hp_ok p" and "hp_input p = [CR, LF] @ body"
  shows "\<exists>p'. parse_header p = Some (HReturn, p') \<and> hp_ok p' \<and> hp_result p' = Some ParserComplete \<and>
    hp_input p' = body \<and> hp_mem p' = hp_mem p \<and>
    bv_begin (hp_buffer p') = 0 \<and> bv_memory (hp_buffer p') = bv_data (hp_buffer p) + 2 \<and>
    bv_end_ptr (hp_buffer p') = bv_end_ptr (hp_buffer p)"
proof -
  obtain pre post where split: "hp_mem p = pre @ hp_input p @ post" "bv_data (hp_buffer p) = length pre"
      "bv_end_ptr (hp_buffer p) = length pre + length (hp_input p)" "bv_size (hp_buffer p) = length (hp_input p)"
    using hp_mem_split [OF assms(1)] by metis
  let ?v = "hp_buffer p"
  have ok: "bv_ok ?v" using assms(1) by (simp add: hp_ok_def)
  define q where "q = ?v\<lparr>bv_begin := bv_begin ?v + 2\<rparr>"
  have le: "2 \<le> bv_end ?v - bv_begin ?v" using split(4) assms(2) bv_size_ok [OF ok] by simp
  have q: "bv_consume 2 ?v = (Successful, q)" "bv_ok q"
    using bv_consume_ok [OF ok, of 2] le ok by (auto simp: q_def bv_ok_def)
  define r where "r = snd (bv_cut (bv_begin q) q)"
  have sub: "sub64 (bv_data q) (bv_memory q) = bv_begin q"
    using q(2) by (simp add: bv_data_ok) (simp add: bv_ok_def sub64_exact)
  have r: "bv_cut (bv_begin q) q = (Successful, r)" "bv_memory r = bv_memory q + bv_begin q" "bv_begin r = 0"
      "bv_end r = bv_end q - bv_begin q" "bv_memory_size r = bv_memory_size q - bv_begin q"
    using bv_cut_ok [OF q(2), of "bv_begin q"] by (auto simp: r_def)
  have rok: "bv_ok r" using bv_exec_ok [OF q(2), of "BCut (bv_begin q)"] by (simp add: r_def)
  have first: "hp_mem p ! length pre = CR \<and> hp_mem p ! (length pre + 1) = LF"
    by (simp add: split(1) assms(2) nth_append)
  have "parse_header p = Some (HReturn, p\<lparr>hp_buffer := r, hp_result := Some ParserComplete\<rparr>)"
    using q(1) r(1) sub first split(4) assms(2) by (simp add: parse_header_unfold [OF assms(1)] Let_def split(2))
  moreover have "hp_ok (p\<lparr>hp_buffer := r\<rparr>)"
    using assms(1) rok r q(2) by (auto simp: hp_ok_def q_def bv_ok_def)
  moreover have "bv_data r = length pre + 2" "bv_size r = length body" "bv_end_ptr r = bv_end_ptr ?v"
      "bv_memory r = bv_data ?v + 2"
    using r q(2) rok ok split assms(2) le by (auto simp: bv_ok_simps q_def)
  moreover have "hp_input (p\<lparr>hp_buffer := r\<rparr>) = body"
    by (rule hp_input_after [of _ pre "[CR, LF]" _ post]) (use calculation split assms(2) in simp_all)
  ultimately show ?thesis using  r(3) by (simp add: hp_ok_def hp_input_def)
qed

text \<open>
  The end of the header. An empty line completes the message header: what follows it is left
  as the content of the buffer, and the memory before it is cut off, so that reading the body can
  never overwrite the parsed fields.
\<close>

theorem header_end_completes:
  assumes "hp_ok p" and "hp_state p = ParserHeader" and "hp_input p = [CR, LF] @ body"
  shows "\<exists>p'. parser_parse p = Some (HReturn, p') \<and> hp_ok p' \<and> hp_result p' = Some ParserComplete \<and>
    hp_input p' = body \<and> hp_mem p' = hp_mem p \<and>
    bv_begin (hp_buffer p') = 0 \<and> bv_memory (hp_buffer p') = bv_data (hp_buffer p) + 2 \<and>
    bv_end_ptr (hp_buffer p') = bv_end_ptr (hp_buffer p)"
  using parse_header_end [OF assms(1,3)] assms(2) by (simp add: parser_parse_def)

theorem header_end_completes_witness:
  "\<exists>p'. parser_parse (sample_parser ([CR, LF] @ ''body'') ParserHeader) = Some (HReturn, p') \<and>
     hp_result p' = Some ParserComplete \<and> hp_input p' = ''body''"
  using header_end_completes [of "sample_parser ([CR, LF] @ ''body'') ParserHeader" "''body''"]
    sample_parser_ok [of "[CR, LF] @ ''body''" ParserHeader] sample_parser_input [of "[CR, LF] @ ''body''" ParserHeader]
  by (auto simp: sample_parser_def)

end
