(* ===== verification/Jinx_Hash.thy ===== *)
theory Jinx_Hash
  imports Jinx_Prelude
begin

text \<open>
  The string hash of \<^verbatim>\<open>include/jinx/hash.hpp\<close> at its widths. A character is a signed byte
  that is extended to the width of the hash; a C string is a list of bytes that contains its
  terminator.
\<close>

unbundle bit_operations_syntax

type_synonym byte = "8 word"

primrec detail_hash_data :: "byte list \<Rightarrow> 'w::len word \<Rightarrow> 'w word" where
  "detail_hash_data [] v = v"
| "detail_hash_data (c # cs) v = detail_hash_data cs (push_bit 5 v + v + signed c)"

text \<open>Reading past a missing terminator is \<open>None\<close>.\<close>

primrec detail_hash_string :: "byte list \<Rightarrow> 'w::len word \<Rightarrow> 'w word option" where
  "detail_hash_string [] v = None"
| "detail_hash_string (c # cs) v =
     (if c \<noteq> 0 then detail_hash_string cs (push_bit 5 v + v + signed c) else Some v)"

definition hash_data :: "byte list \<Rightarrow> 64 word" where
  "hash_data bs = detail_hash_data bs 5381"

definition hash_string :: "byte list \<Rightarrow> 64 word option" where
  "hash_string s = detail_hash_string s 5381"

definition hash_l_string :: "byte list \<Rightarrow> 64 word option" where
  "hash_l_string s = detail_hash_string s 5381"

definition hash32_string :: "byte list \<Rightarrow> 32 word option" where
  "hash32_string s = detail_hash_string s 5381"

definition hash16_string :: "byte list \<Rightarrow> 16 word option" where
  "hash16_string s = detail_hash_string s 5381"

section \<open>Properties\<close>

lemma detail_hash_data_append:
  "detail_hash_data (as @ bs) v = detail_hash_data bs (detail_hash_data as v)"
  by (induction as arbitrary: v) auto

lemma detail_hash_string_takeWhile:
  "0 \<in> set s \<Longrightarrow> detail_hash_string s v = Some (detail_hash_data (takeWhile (\<lambda>c. c \<noteq> 0) s) v)"
  by (induction s arbitrary: v) auto

lemma detail_hash_string_None: "0 \<notin> set s \<Longrightarrow> detail_hash_string s v = None"
  by (induction s arbitrary: v) auto

text \<open>
  The hash of a C string is the hash of the bytes before its terminator, and it is defined
  exactly for terminated strings.
\<close>

theorem hash_string_is_hash_data:
  "hash_string s =
     (if 0 \<in> set s then Some (hash_data (takeWhile (\<lambda>c. c \<noteq> 0) s)) else None)"
  by (simp add: hash_string_def hash_data_def detail_hash_string_takeWhile detail_hash_string_None)

text \<open>The reference: the polynomial over the integers.\<close>

primrec djb2 :: "byte list \<Rightarrow> int \<Rightarrow> int" where
  "djb2 [] i = i"
| "djb2 (c # cs) i = djb2 cs (33 * i + sint c)"

lemma hash_step: "push_bit 5 (of_int i :: 'w::len word) + of_int i + signed (c :: byte) =
    (of_int (33 * i + sint c) :: 'w word)"
  by (simp add: push_bit_eq_mult)

lemma detail_hash_data_djb2: "detail_hash_data bs (of_int i :: 'w::len word) = of_int (djb2 bs i)"
  by (induction bs arbitrary: i) (simp_all only: detail_hash_data.simps djb2.simps hash_step)

lemma ucast_of_int:
  "LENGTH('v::len) \<le> LENGTH('w::len) \<Longrightarrow> ucast (of_int i :: 'w word) = (of_int i :: 'v word)"
  by transfer (simp add: min_def)

lemma hash_narrow:
  assumes "LENGTH('v::len) \<le> LENGTH('w::len)"
  shows "detail_hash_string s (5381 :: 'v word) = map_option ucast (detail_hash_string s (5381 :: 'w word))"
proof (cases "0 \<in> set s")
  case True
  have start: "(5381 :: 'x::len word) = of_int 5381" by simp
  show ?thesis
    using True ucast_of_int [OF assms]
    by (simp only: detail_hash_string_takeWhile option.map start detail_hash_data_djb2)
qed (simp add: detail_hash_string_None)

text \<open>
  All widths compute the same polynomial: the 32-bit and the 16-bit hash are truncations of
  the 64-bit hash, which is the integer polynomial in 33 modulo the width.
\<close>

theorem hash_widths_agree:
  "hash_l_string s = hash_string s \<and>
   hash32_string s = map_option ucast (hash_string s) \<and>
   hash16_string s = map_option ucast (hash_string s) \<and>
   hash_data bs = of_int (djb2 bs 5381)"
proof (intro conjI)
  show "hash32_string s = map_option ucast (hash_string s)"
    unfolding hash32_string_def hash_string_def by (rule hash_narrow) simp
  show "hash16_string s = map_option ucast (hash_string s)"
    unfolding hash16_string_def hash_string_def by (rule hash_narrow) simp
  show "hash_data bs = of_int (djb2 bs 5381)"
    using detail_hash_data_djb2 [of bs 5381] by (simp add: hash_data_def)
qed (simp add: hash_l_string_def hash_string_def)

end
