(* ===== verification/Jinx_HttpBuilder.thy ===== *)
theory Jinx_HttpBuilder
  imports Jinx_Http Jinx_Hash
begin

text \<open>
  The builders of request and response headers (\<^verbatim>\<open>HTTPBuilder\<close>, \<^verbatim>\<open>HTTPBuilderRequest\<close> and
  \<^verbatim>\<open>HTTPBuilderResponse\<close> of \<^verbatim>\<open>libs/http/include/jinx/http/http.hpp\<close>).

  A builder is a \<^verbatim>\<open>std::streambuf\<close> that writes into a buffer view, with a \<^verbatim>\<open>std::ostream\<close> on top of
  it. Of the output stream the model keeps the bad bit: an insertion into a stream that is not good
  does nothing, and an insertion that the buffer takes only in part sets the bit. \<open>None\<close> is
  \<^verbatim>\<open>error::fatal\<close> or a write outside the block.
\<close>

section \<open>Data\<close>

datatype HTTPConnectionState = ConnectionUnknown | ConnectionClose | ConnectionKeepAlive | ConnectionUpgrade

record http_builder =
  hb_mem :: string
  hb_buffer :: BufferView
  hb_badbit :: bool
  hb_overflow :: bool
  hb_detect_connection :: bool
  hb_custom_server_name :: bool
  hb_custom_user_agent :: bool
  hb_connection_state :: HTTPConnectionState
  hb_connection_string :: Slice

definition builder_new :: "string \<Rightarrow> BufferView \<Rightarrow> http_builder" where
  "builder_new mem v = \<lparr>hb_mem = mem, hb_buffer = v, hb_badbit = False, hb_overflow = False,
     hb_detect_connection = False, hb_custom_server_name = False, hb_custom_user_agent = False,
     hb_connection_state = ConnectionUnknown, hb_connection_string = null_slice\<rparr>"

text \<open>A builder is used again after \<^verbatim>\<open>async_finalize\<close> with another buffer.\<close>

definition builder_finalize :: "http_builder \<Rightarrow> http_builder" where
  "builder_finalize b = b\<lparr>hb_overflow := False, hb_detect_connection := False,
     hb_custom_server_name := False, hb_custom_user_agent := False,
     hb_connection_state := ConnectionUnknown\<rparr>"

definition builder_initialize :: "string \<Rightarrow> BufferView \<Rightarrow> http_builder \<Rightarrow> http_builder" where
  "builder_initialize mem v b = b\<lparr>hb_mem := mem, hb_buffer := v\<rparr>"

section \<open>The stream buffer\<close>

definition store :: "nat \<Rightarrow> string \<Rightarrow> string \<Rightarrow> string option" where
  "store i s mem =
     (if i + length s \<le> length mem then Some (take i mem @ s @ drop (i + length s) mem) else None)"

definition xsputn :: "string \<Rightarrow> http_builder \<Rightarrow> (nat \<times> http_builder) option" where
  "xsputn s b =
     (let dst = slice_for_producer (hb_buffer b); size = min (length s) (s_size dst)
      in do { mem \<leftarrow> store (slice_begin dst) (take size s) (hb_mem b);
              case bv_commit size (hb_buffer b) of
                (Failed, _) \<Rightarrow> None
              | (Successful, v) \<Rightarrow>
                  Some (size, b\<lparr>hb_mem := mem, hb_buffer := v,
                                hb_overflow := hb_overflow b \<or> size < length s\<rparr>) })"

text \<open>\<^verbatim>\<open>overflow\<close>, with \<open>False\<close> for the result \<^verbatim>\<open>eof\<close>.\<close>

definition overflow :: "char \<Rightarrow> http_builder \<Rightarrow> (bool \<times> http_builder) option" where
  "overflow c b =
     (let dst = slice_for_producer (hb_buffer b)
      in if s_size dst = 0 then Some (False, b\<lparr>hb_overflow := True\<rparr>)
         else do { mem \<leftarrow> store (slice_begin dst) [c] (hb_mem b);
                   case bv_commit 1 (hb_buffer b) of
                     (Failed, _) \<Rightarrow> None
                   | (Successful, v) \<Rightarrow> Some (True, b\<lparr>hb_mem := mem, hb_buffer := v\<rparr>) })"

text \<open>The insertions of \<^verbatim>\<open>std::ostream\<close>: a text through \<^verbatim>\<open>xsputn\<close>, a character through \<^verbatim>\<open>overflow\<close>.\<close>

definition os_write :: "string \<Rightarrow> http_builder \<Rightarrow> http_builder option" where
  "os_write s b =
     (if hb_badbit b then Some b
      else do { (n, b1) \<leftarrow> xsputn s b; Some (if n = length s then b1 else b1\<lparr>hb_badbit := True\<rparr>) })"

definition os_put :: "char \<Rightarrow> http_builder \<Rightarrow> http_builder option" where
  "os_put c b =
     (if hb_badbit b then Some b
      else do { (ok, b1) \<leftarrow> overflow c b; Some (if ok then b1 else b1\<lparr>hb_badbit := True\<rparr>) })"

definition os_write_all :: "string list \<Rightarrow> http_builder \<Rightarrow> http_builder option" where
  "os_write_all ss b = fold (\<lambda>s r. r \<bind> os_write s) ss (Some b)"

section \<open>Header fields\<close>

definition ascii_lower :: "char \<Rightarrow> char" where
  "ascii_lower c = (if 65 \<le> (of_char c :: nat) \<and> (of_char c :: nat) \<le> 90 then char_of (of_char c + 32 :: nat) else c)"

text \<open>\<^verbatim>\<open>strncasecmp\<close> of a slice of the length of the literal.\<close>

definition same_name :: "string \<Rightarrow> string \<Rightarrow> bool" where
  "same_name name lit \<longleftrightarrow> length name = length lit \<and> map ascii_lower name = lit"

definition field_begin :: "string \<Rightarrow> http_builder \<Rightarrow> http_builder" where
  "field_begin name b =
     (let b1 = (if same_name name ''connection''
                then b\<lparr>hb_detect_connection := True,
                       hb_connection_string := (hb_connection_string b)\<lparr>s_data := bv_end_ptr (hb_buffer b)\<rparr>\<rparr>
                else b);
          b2 = (if same_name name ''server'' then b1\<lparr>hb_custom_server_name := True\<rparr> else b1)
      in if same_name name ''user-agent'' then b2\<lparr>hb_custom_user_agent := True\<rparr> else b2)"

definition text_hash :: "string \<Rightarrow> 64 word" where
  "text_hash s = hash_data (map of_char s)"

definition connection_of :: "string \<Rightarrow> HTTPConnectionState" where
  "connection_of s =
     (let h = text_hash s
      in if h = text_hash ''close'' then ConnectionClose
         else if h = text_hash ''keep-alive'' then ConnectionKeepAlive
         else if h = text_hash ''upgrade'' then ConnectionUpgrade
         else ConnectionUnknown)"

definition field_end :: "http_builder \<Rightarrow> http_builder" where
  "field_end b =
     (if hb_detect_connection b
      then let cs = (hb_connection_string b)\<lparr>s_size := sub64 (bv_end_ptr (hb_buffer b))
                                                        (s_data (hb_connection_string b))\<rparr>
           in b\<lparr>hb_connection_string := cs, hb_detect_connection := False,
                hb_connection_state := connection_of (slice_text (hb_mem b) cs)\<rparr>
      else b)"

text \<open>
  \<^verbatim>\<open>write_header_field(name)\<close> gives out a \<^verbatim>\<open>HeaderLine\<close>; the parts of the value are inserted into
  it, and its destructor ends the field and the line.
\<close>

definition write_header_field :: "string \<Rightarrow> http_builder \<Rightarrow> http_builder option" where
  "write_header_field name b =
     do { b1 \<leftarrow> os_write name b; b2 \<leftarrow> os_write '': '' b1; Some (field_begin name b2) }"

definition header_line_end :: "http_builder \<Rightarrow> http_builder option" where
  "header_line_end b = os_write [CR, LF] (field_end b)"

definition header_line :: "string \<Rightarrow> string list \<Rightarrow> http_builder \<Rightarrow> http_builder option" where
  "header_line name parts b =
     do { b1 \<leftarrow> write_header_field name b; b2 \<leftarrow> os_write_all parts b1; header_line_end b2 }"

definition write_header_done :: "http_builder \<Rightarrow> (SuccessfulFailed \<times> http_builder) option" where
  "write_header_done b =
     do { b1 \<leftarrow> os_write [CR, LF] b; Some (if hb_overflow b1 then Failed else Successful, b1) }"

section \<open>Requests and responses\<close>

definition request_line :: "string \<Rightarrow> string list \<Rightarrow> string \<Rightarrow> http_builder \<Rightarrow> http_builder option" where
  "request_line method parts version b =
     do { b1 \<leftarrow> os_write method b; b2 \<leftarrow> os_put (CHR '' '') b1; b3 \<leftarrow> os_write_all parts b2;
          b4 \<leftarrow> os_put (CHR '' '') b3; b5 \<leftarrow> os_write version b4; os_write [CR, LF] b5 }"

definition request_header_done :: "http_builder \<Rightarrow> (SuccessfulFailed \<times> http_builder) option" where
  "request_header_done b =
     do { b1 \<leftarrow> (if \<not> hb_custom_user_agent b then os_write (''User-Agent: jinx'' @ [CR, LF]) b else Some b);
          write_header_done b1 }"

text \<open>The status code is an \<^verbatim>\<open>unsigned int\<close>: an \<^verbatim>\<open>int\<close> passed for it is taken modulo $2^{32}$.\<close>

definition unsigned_int :: "int \<Rightarrow> nat" where
  "unsigned_int i = nat (i mod 2 ^ 32)"

definition response_line :: "int \<Rightarrow> string \<Rightarrow> string list \<Rightarrow> http_builder \<Rightarrow> http_builder option" where
  "response_line status version parts b =
     do { b1 \<leftarrow> os_write version b; b2 \<leftarrow> os_put (CHR '' '') b1; b3 \<leftarrow> os_write (decimal (unsigned_int status)) b2;
          b4 \<leftarrow> os_put (CHR '' '') b3; b5 \<leftarrow> os_write_all parts b4; os_write [CR, LF] b5 }"

definition response_header_done :: "http_builder \<Rightarrow> (SuccessfulFailed \<times> http_builder) option" where
  "response_header_done b =
     do { b1 \<leftarrow> (if \<not> hb_custom_server_name b then os_write (''Server: jinx'' @ [CR, LF]) b else Some b);
          write_header_done b1 }"

text \<open>\<^verbatim>\<open>_start_transfer\<close>: write until the buffer is empty.\<close>

datatype transfer = TransferReturn | TransferWrite

definition start_transfer :: "http_builder \<Rightarrow> transfer" where
  "start_transfer b = (if bv_size (hb_buffer b) = 0 then TransferReturn else TransferWrite)"

section \<open>What is written\<close>

lemma unsigned_int_small [simp]: "0 \<le> i \<Longrightarrow> i < 2 ^ 32 \<Longrightarrow> unsigned_int i = nat i"
  by (simp add: unsigned_int_def)

definition hb_text :: "http_builder \<Rightarrow> string" where
  "hb_text b = take (bv_size (hb_buffer b)) (drop (bv_data (hb_buffer b)) (hb_mem b))"

definition hb_room :: "http_builder \<Rightarrow> nat" where
  "hb_room b = bv_capacity (hb_buffer b)"

text \<open>
  The view lies in the block, and the bad bit says that the buffer is full and that text was lost:
  this holds of a builder until it is used again with another buffer.
\<close>

definition hb_ok :: "http_builder \<Rightarrow> bool" where
  "hb_ok b \<longleftrightarrow> bv_ok (hb_buffer b) \<and>
     bv_memory (hb_buffer b) + bv_memory_size (hb_buffer b) \<le> length (hb_mem b) \<and>
     (hb_badbit b \<longrightarrow> hb_overflow b \<and> hb_room b = 0)"

text \<open>\<open>wrote b s b'\<close>: from \<open>b\<close> to \<open>b'\<close> as much of \<open>s\<close> as fits was appended, and the loss is recorded.\<close>

definition wrote :: "http_builder \<Rightarrow> string \<Rightarrow> http_builder \<Rightarrow> bool" where
  "wrote b s b' \<longleftrightarrow> hb_ok b' \<and> hb_text b' = hb_text b @ take (hb_room b) s \<and>
     hb_room b' = hb_room b - length s \<and> hb_overflow b' = (hb_overflow b \<or> hb_room b < length s) \<and>
     bv_memory (hb_buffer b') = bv_memory (hb_buffer b) \<and> bv_data (hb_buffer b') = bv_data (hb_buffer b)"

lemma wrote_refl: "hb_ok b \<Longrightarrow> wrote b [] b"
  by (simp add: wrote_def)

lemma wrote_trans: "wrote b s b1 \<Longrightarrow> wrote b1 t b2 \<Longrightarrow> wrote b (s @ t) b2"
  by (auto simp: wrote_def)

lemma store_some: "i + length s \<le> length mem \<Longrightarrow> store i s mem = Some (take i mem @ s @ drop (i + length s) mem)"
  by (simp add: store_def)

lemma append_at_end:
  assumes "hb_ok b" and "length s \<le> hb_room b"
  defines "mem \<equiv> take (bv_end_ptr (hb_buffer b)) (hb_mem b) @ s @
      drop (bv_end_ptr (hb_buffer b) + length s) (hb_mem b)"
  shows "\<exists>v. store (bv_end_ptr (hb_buffer b)) s (hb_mem b) = Some mem \<and>
    bv_commit (length s) (hb_buffer b) = (Successful, v) \<and> bv_ok v \<and> length mem = length (hb_mem b) \<and>
    bv_memory v = bv_memory (hb_buffer b) \<and> bv_memory_size v = bv_memory_size (hb_buffer b) \<and>
    bv_data v = bv_data (hb_buffer b) \<and> bv_capacity v = hb_room b - length s \<and>
    take (bv_size v) (drop (bv_data v) mem) = hb_text b @ s"
proof -
  let ?v = "hb_buffer b"
  let ?w = "?v\<lparr>bv_end := bv_end ?v + length s\<rparr>"
  have ok: "bv_ok ?v" and len: "bv_memory ?v + bv_memory_size ?v \<le> length (hb_mem b)"
    using assms(1) by (auto simp: hb_ok_def)
  have fit: "bv_end ?v + length s \<le> bv_memory_size ?v"
    using assms(2) ok by (auto simp: hb_room_def bv_capacity_ok) (auto simp: bv_ok_def)
  have ok': "bv_ok ?w" using ok fit by (auto simp: bv_ok_def)
  have ep: "bv_end_ptr ?v = bv_memory ?v + bv_end ?v" using bv_end_ptr_ok [OF ok] .
  have le: "bv_begin ?v \<le> bv_end ?v" using ok by (simp add: bv_ok_def)
  have "store (bv_end_ptr ?v) s (hb_mem b) = Some mem"
    unfolding mem_def using fit len ep by (intro store_some) simp
  moreover have "bv_commit (length s) ?v = (Successful, ?w)" using bv_commit_ok [OF ok] fit by simp
  moreover have "length mem = length (hb_mem b)" using fit len ep by (simp add: mem_def)
  moreover have "take (bv_size ?w) (drop (bv_data ?w) mem) = hb_text b @ s"
    using le fit len by (simp add: bv_ok_simps ok ok' hb_text_def mem_def ep drop_take)
  ultimately show ?thesis
    using ok' ok fit by (auto simp: bv_ok_simps hb_room_def)
qed

definition same_flags :: "http_builder \<Rightarrow> http_builder \<Rightarrow> bool" where
  "same_flags b b' \<longleftrightarrow> hb_detect_connection b' = hb_detect_connection b \<and>
     hb_custom_server_name b' = hb_custom_server_name b \<and> hb_custom_user_agent b' = hb_custom_user_agent b \<and>
     hb_connection_state b' = hb_connection_state b \<and> hb_connection_string b' = hb_connection_string b"

lemma same_flags_refl: "same_flags b b"
  by (simp add: same_flags_def)

lemma same_flags_trans: "same_flags b b1 \<Longrightarrow> same_flags b1 b2 \<Longrightarrow> same_flags b b2"
  by (simp add: same_flags_def)

lemma xsputn_ok:
  assumes "hb_ok b"
  shows "\<exists>b'. xsputn s b = Some (min (length s) (hb_room b), b') \<and>
    hb_badbit b' = hb_badbit b \<and> same_flags b b' \<and> (hb_badbit b \<or> \<not> hb_badbit b \<and> wrote b s b')"
proof -
  define t where "t = take (min (length s) (hb_room b)) s"
  have len: "length t = min (length s) (hb_room b)" by (simp add: t_def)
  have "length t \<le> hb_room b" by (simp add: len)
  from append_at_end [OF assms this] obtain mem v where v: "store (bv_end_ptr (hb_buffer b)) t (hb_mem b) = Some mem"
      "bv_commit (length t) (hb_buffer b) = (Successful, v)" "bv_ok v" "length mem = length (hb_mem b)"
      "bv_memory v = bv_memory (hb_buffer b)" "bv_memory_size v = bv_memory_size (hb_buffer b)"
      "bv_data v = bv_data (hb_buffer b)" "bv_capacity v = hb_room b - length t"
      "take (bv_size v) (drop (bv_data v) mem) = hb_text b @ t"
    by blast
  let ?b = "b\<lparr>hb_mem := mem, hb_buffer := v, hb_overflow := hb_overflow b \<or> hb_room b < length s\<rparr>"
  have x: "xsputn s b = Some (min (length s) (hb_room b), ?b)"
    using v(1,2) unfolding xsputn_def Let_def
    by (simp add: slice_for_producer_def slice_begin_def t_def min_less_iff_disj flip: hb_room_def)
  have "hb_text b @ take (hb_room b) s = hb_text b @ t" by (simp add: t_def min_def)
  then have "wrote b s ?b" if "\<not> hb_badbit b"
    using that v assms by (auto simp: wrote_def hb_ok_def hb_text_def hb_room_def len)
  then show ?thesis using x by (intro exI [of _ ?b]) (auto simp: same_flags_def)
qed

lemma wrote_bad: "wrote b s b' \<Longrightarrow> hb_room b < length s \<Longrightarrow> wrote b s (b'\<lparr>hb_badbit := True\<rparr>)"
  by (auto simp: wrote_def hb_ok_def hb_text_def hb_room_def)

lemma wrote_nothing: "hb_ok b \<Longrightarrow> hb_badbit b \<Longrightarrow> wrote b s b"
  by (auto simp: wrote_def hb_ok_def)

lemma os_write_ok:
  assumes "hb_ok b"
  shows "\<exists>b'. os_write s b = Some b' \<and> wrote b s b' \<and> same_flags b b'"
proof (cases "hb_badbit b")
  case True
  then show ?thesis using wrote_nothing [OF assms] by (simp add: os_write_def same_flags_refl)
next
  case False
  then obtain b' where b': "xsputn s b = Some (min (length s) (hb_room b), b')" "same_flags b b'" "wrote b s b'"
    using xsputn_ok [OF assms, of s] by blast
  then show ?thesis
    using False wrote_bad [OF b'(3)] by (auto simp: os_write_def same_flags_def)
qed

lemma os_put_ok:
  assumes "hb_ok b"
  shows "\<exists>b'. os_put c b = Some b' \<and> wrote b [c] b' \<and> same_flags b b'"
proof (cases "hb_badbit b")
  case True
  then show ?thesis using wrote_nothing [OF assms] by (simp add: os_put_def same_flags_refl)
next
  case False
  show ?thesis
  proof (cases "hb_room b = 0")
    case True
    then have "os_put c b = Some (b\<lparr>hb_overflow := True, hb_badbit := True\<rparr>)"
      using False by (simp add: os_put_def overflow_def slice_for_producer_def hb_room_def)
    then show ?thesis
      using True assms by (auto simp: wrote_def hb_ok_def hb_text_def hb_room_def same_flags_def)
  next
    case room: False
    then obtain b' where "xsputn [c] b = Some (1, b')" "same_flags b b'" "wrote b [c] b'"
      using False xsputn_ok [OF assms, of "[c]"] by (auto simp: min_def split: if_splits)
    moreover have "overflow c b = map_option (\<lambda>(n, b1). (True, b1)) (xsputn [c] b)"
      using room by (auto simp: overflow_def xsputn_def Let_def slice_for_producer_def hb_room_def min_def
          split: Option.bind_split SuccessfulFailed.splits prod.splits)
    ultimately show ?thesis using False by (auto simp: os_put_def)
  qed
qed

lemma os_write_all_ok:
  assumes "hb_ok b"
  shows "\<exists>b'. os_write_all ss b = Some b' \<and> wrote b (concat ss) b' \<and> same_flags b b'"
  using assms
proof (induction ss arbitrary: b)
  case Nil
  then show ?case by (simp add: os_write_all_def wrote_refl same_flags_refl)
next
  case (Cons s ss)
  obtain b1 where b1: "os_write s b = Some b1" "wrote b s b1" "same_flags b b1"
    using os_write_ok [OF Cons.prems] by blast
  then obtain b' where "os_write_all ss b1 = Some b'" "wrote b1 (concat ss) b'" "same_flags b1 b'"
    using Cons.IH [of b1] by (auto simp: wrote_def)
  then show ?case
    using b1 wrote_trans same_flags_trans by (auto simp: os_write_all_def)
qed

section \<open>Messages\<close>

text \<open>Flags do not touch the text.\<close>

lemma wrote_field_begin: "wrote b s b1 \<Longrightarrow> wrote b s (field_begin n b1)"
  by (auto simp: wrote_def hb_ok_def hb_text_def hb_room_def field_begin_def Let_def)

lemma wrote_field_end: "wrote b s b1 \<Longrightarrow> wrote b s (field_end b1)"
  by (auto simp: wrote_def hb_ok_def hb_text_def hb_room_def field_end_def Let_def)

lemma wrote_ok: "wrote b s b' \<Longrightarrow> hb_ok b'"
  by (simp add: wrote_def)

lemma header_line_ok:
  assumes "hb_ok b"
  shows "\<exists>b'. header_line n ps b = Some b' \<and> wrote b (n @ '': '' @ concat ps @ [CR, LF]) b' \<and>
    hb_custom_user_agent b' = (hb_custom_user_agent b \<or> same_name n ''user-agent'') \<and>
    hb_custom_server_name b' = (hb_custom_server_name b \<or> same_name n ''server'')"
proof -
  obtain b1 where b1: "os_write n b = Some b1" "wrote b n b1" "same_flags b b1" using os_write_ok [OF assms] by blast
  obtain b2 where b2: "os_write '': '' b1 = Some b2" "wrote b1 '': '' b2" "same_flags b1 b2"
    using os_write_ok [OF wrote_ok [OF b1(2)]] by blast
  have w2: "wrote b (n @ '': '') (field_begin n b2)"
    by (rule wrote_field_begin [OF wrote_trans [OF b1(2) b2(2)]])
  obtain b3 where b3: "os_write_all ps (field_begin n b2) = Some b3" "wrote (field_begin n b2) (concat ps) b3"
      "same_flags (field_begin n b2) b3"
    using os_write_all_ok [OF wrote_ok [OF w2]] by blast
  have w3: "wrote b ((n @ '': '') @ concat ps) (field_end b3)"
    by (rule wrote_field_end [OF wrote_trans [OF w2 b3(2)]])
  obtain b4 where b4: "os_write [CR, LF] (field_end b3) = Some b4" "wrote (field_end b3) [CR, LF] b4"
      "same_flags (field_end b3) b4"
    using os_write_ok [OF wrote_ok [OF w3]] by blast
  have "hb_custom_user_agent b4 = (hb_custom_user_agent b \<or> same_name n ''user-agent'')"
      "hb_custom_server_name b4 = (hb_custom_server_name b \<or> same_name n ''server'')"
    using b1(3) b2(3) b3(3) b4(3) by (auto simp: same_flags_def field_begin_def field_end_def Let_def)
  then show ?thesis
    using b1(1) b2(1) b3(1) b4(1) wrote_trans [OF w3 b4(2)]
    by (auto simp: header_line_def write_header_field_def header_line_end_def)
qed

fun header_lines :: "(string \<times> string) list \<Rightarrow> http_builder \<Rightarrow> http_builder option" where
  "header_lines [] b = Some b"
| "header_lines ((n, v) # fs) b = do { b1 \<leftarrow> header_line n [v] b; header_lines fs b1 }"

definition field_text :: "(string \<times> string) list \<Rightarrow> string" where
  "field_text fs = concat (map (\<lambda>(n, v). n @ '': '' @ v @ [CR, LF]) fs)"

lemma header_lines_ok:
  assumes "hb_ok b"
  shows "\<exists>b'. header_lines fs b = Some b' \<and> wrote b (field_text fs) b' \<and>
    hb_custom_user_agent b' = (hb_custom_user_agent b \<or> (\<exists>(n, v) \<in> set fs. same_name n ''user-agent'')) \<and>
    hb_custom_server_name b' = (hb_custom_server_name b \<or> (\<exists>(n, v) \<in> set fs. same_name n ''server''))"
  using assms
proof (induction fs arbitrary: b)
  case Nil
  then show ?case by (simp add: field_text_def wrote_refl)
next
  case (Cons f fs)
  obtain n v where f: "f = (n, v)" by fastforce
  obtain b1 where b1: "header_line n [v] b = Some b1" "wrote b (n @ '': '' @ v @ [CR, LF]) b1"
      "hb_custom_user_agent b1 = (hb_custom_user_agent b \<or> same_name n ''user-agent'')"
      "hb_custom_server_name b1 = (hb_custom_server_name b \<or> same_name n ''server'')"
    using header_line_ok [OF Cons.prems, of n "[v]"] by auto
  obtain b2 where b2: "header_lines fs b1 = Some b2" "wrote b1 (field_text fs) b2"
      "hb_custom_user_agent b2 = (hb_custom_user_agent b1 \<or> (\<exists>(n, v) \<in> set fs. same_name n ''user-agent''))"
      "hb_custom_server_name b2 = (hb_custom_server_name b1 \<or> (\<exists>(n, v) \<in> set fs. same_name n ''server''))"
    using Cons.IH [OF wrote_ok [OF b1(2)]] by blast
  have "wrote b (field_text (f # fs)) b2"
    using wrote_trans [OF b1(2) b2(2)] by (simp add: field_text_def f)
  then show ?case using b1 b2 by (auto simp: f)
qed

lemma request_line_ok:
  assumes "hb_ok b"
  shows "\<exists>b'. request_line m ps v b = Some b' \<and> wrote b (m @ '' '' @ concat ps @ '' '' @ v @ [CR, LF]) b' \<and>
    same_flags b b'"
proof -
  obtain b1 where b1: "os_write m b = Some b1" "wrote b m b1" "same_flags b b1" using os_write_ok [OF assms] by blast
  obtain b2 where b2: "os_put (CHR '' '') b1 = Some b2" "wrote b1 '' '' b2" "same_flags b1 b2"
    using os_put_ok [OF wrote_ok [OF b1(2)]] by blast
  obtain b3 where b3: "os_write_all ps b2 = Some b3" "wrote b2 (concat ps) b3" "same_flags b2 b3"
    using os_write_all_ok [OF wrote_ok [OF b2(2)]] by blast
  obtain b4 where b4: "os_put (CHR '' '') b3 = Some b4" "wrote b3 '' '' b4" "same_flags b3 b4"
    using os_put_ok [OF wrote_ok [OF b3(2)]] by blast
  obtain b5 where b5: "os_write v b4 = Some b5" "wrote b4 v b5" "same_flags b4 b5"
    using os_write_ok [OF wrote_ok [OF b4(2)]] by blast
  obtain b6 where b6: "os_write [CR, LF] b5 = Some b6" "wrote b5 [CR, LF] b6" "same_flags b5 b6"
    using os_write_ok [OF wrote_ok [OF b5(2)]] by blast
  have "wrote b (m @ '' '' @ concat ps @ '' '' @ v @ [CR, LF]) b6"
    using wrote_trans [OF b1(2) wrote_trans [OF b2(2) wrote_trans [OF b3(2) wrote_trans [OF b4(2)
          wrote_trans [OF b5(2) b6(2)]]]]] by simp
  then show ?thesis
    using b1(1,3) b2(1,3) b3(1,3) b4(1,3) b5(1,3) b6(1,3) by (auto simp: request_line_def same_flags_def)
qed

text \<open>A client builds a request: the line, its fields, the end of the header.\<close>

definition build_request ::
    "string \<Rightarrow> string \<Rightarrow> string \<Rightarrow> (string \<times> string) list \<Rightarrow> http_builder \<Rightarrow> (SuccessfulFailed \<times> http_builder) option" where
  "build_request m t v fs b =
     do { b1 \<leftarrow> request_line m [t] v b; b2 \<leftarrow> header_lines fs b1; request_header_done b2 }"

definition request_fields :: "(string \<times> string) list \<Rightarrow> (string \<times> string) list" where
  "request_fields fs =
     fs @ (if \<exists>(n, v) \<in> set fs. same_name n ''user-agent'' then [] else [(''User-Agent'', ''jinx'')])"

definition request_text :: "string \<Rightarrow> string \<Rightarrow> string \<Rightarrow> (string \<times> string) list \<Rightarrow> string" where
  "request_text m t v fs = m @ '' '' @ t @ '' '' @ v @ [CR, LF] @ field_text (request_fields fs) @ [CR, LF]"

lemma field_text_append: "field_text (fs @ gs) = field_text fs @ field_text gs"
  by (simp add: field_text_def)

lemma build_request_ok:
  assumes "hb_ok b" and "\<not> hb_custom_user_agent b"
  shows "\<exists>r b'. build_request m t v fs b = Some (r, b') \<and> wrote b (request_text m t v fs) b' \<and>
    r = (if hb_overflow b' then Failed else Successful)"
proof -
  let ?ua = "\<exists>(n, v) \<in> set fs. same_name n ''user-agent''"
  obtain b1 where b1: "request_line m [t] v b = Some b1" "wrote b (m @ '' '' @ t @ '' '' @ v @ [CR, LF]) b1"
      "same_flags b b1"
    using request_line_ok [OF assms(1), of m "[t]" v] by auto
  obtain b2 where b2: "header_lines fs b1 = Some b2" "wrote b1 (field_text fs) b2" "hb_custom_user_agent b2 = ?ua"
    using header_lines_ok [OF wrote_ok [OF b1(2)], of fs] b1(3) assms(2) by (auto simp: same_flags_def)
  define ua where "ua = (if ?ua then [] else ''User-Agent: jinx'' @ [CR, LF])"
  obtain b3 where b3: "(if \<not> hb_custom_user_agent b2 then os_write (''User-Agent: jinx'' @ [CR, LF]) b2 else Some b2) = Some b3"
      "wrote b2 ua b3"
    using os_write_ok [OF wrote_ok [OF b2(2)], of "''User-Agent: jinx'' @ [CR, LF]"] wrote_refl [OF wrote_ok [OF b2(2)]]
    unfolding b2(3) ua_def by (cases ?ua) auto
  obtain b4 where b4: "os_write [CR, LF] b3 = Some b4" "wrote b3 [CR, LF] b4"
    using os_write_ok [OF wrote_ok [OF b3(2)]] by blast
  have "field_text (request_fields fs) = field_text fs @ ua"
    by (simp add: request_fields_def field_text_append ua_def) (simp add: field_text_def)
  then have "wrote b (request_text m t v fs) b4"
    using wrote_trans [OF b1(2) wrote_trans [OF b2(2) wrote_trans [OF b3(2) b4(2)]]] by (simp add: request_text_def)
  then show ?thesis
    using b1(1) b2(1) b3(1) b4(1) by (auto simp: build_request_def request_header_done_def write_header_done_def)
qed

lemma builder_new_ok:
  "bv_ok v \<Longrightarrow> bv_memory v + bv_memory_size v \<le> length mem \<Longrightarrow> hb_ok (builder_new mem v)"
  by (simp add: hb_ok_def builder_new_def)

text \<open>
  Building a request. On a buffer that holds \<open>old\<close>, a fresh builder never fails fatally. It
  appends the request line, the fields in their order, a default \<^verbatim>\<open>User-Agent\<close> unless a field of that
  name (in any case) was given, and the empty line; what does not fit is cut off, and the final
  result is \<^verbatim>\<open>Successful\<close> exactly when the whole text fitted.
\<close>

theorem request_is_built:
  assumes "bv_ok v" and "bv_memory v + bv_memory_size v \<le> length mem"
  shows "\<exists>r b'. build_request m t ver fs (builder_new mem v) = Some (r, b') \<and>
    hb_text b' = hb_text (builder_new mem v) @ take (bv_capacity v) (request_text m t ver fs) \<and>
    r = (if length (request_text m t ver fs) \<le> bv_capacity v then Successful else Failed)"
  using build_request_ok [OF builder_new_ok [OF assms], of m t ver fs]
  by (auto simp: wrote_def hb_room_def builder_new_def)

theorem request_is_built_witness:
  "\<exists>r b'. build_request ''GET'' ''/'' ''HTTP/1.1'' [(''Host'', ''a'')] (builder_new (replicate 9 (CHR ''-'')) (bv_new 0 9 0 0)) =
      Some (r, b') \<and> hb_text b' = ''GET / HTT'' \<and> r = Failed"
  using request_is_built [of "bv_new 0 9 0 0" "replicate 9 (CHR ''-'')" "''GET''" "''/''" "''HTTP/1.1''" "[(''Host'', ''a'')]"]
  by (auto simp: bv_ok_def bv_new_def bv_capacity_def sub64_exact request_text_def hb_text_def builder_new_def bv_size_def)

section \<open>A builder that is used again\<close>

lemma bad_builder_writes_nothing:
  "hb_badbit b \<Longrightarrow> os_write s b = Some b" "hb_badbit b \<Longrightarrow> os_put c b = Some b"
  "hb_badbit b \<Longrightarrow> os_write_all ss b = Some b"
  by (auto simp: os_write_def os_put_def os_write_all_def intro: fold_invariant)

lemma bad_header_lines:
  "hb_badbit b \<Longrightarrow> \<exists>b'. header_lines fs b = Some b' \<and> hb_badbit b' \<and> hb_mem b' = hb_mem b \<and>
     hb_buffer b' = hb_buffer b \<and> hb_overflow b' = hb_overflow b"
proof (induction fs arbitrary: b)
  case (Cons f fs)
  obtain n v where f: "f = (n, v)" by fastforce
  let ?b = "field_end (field_begin n b)"
  have q: "hb_badbit (field_begin n b)" "hb_badbit ?b" "hb_mem ?b = hb_mem b" "hb_buffer ?b = hb_buffer b"
      "hb_overflow ?b = hb_overflow b"
    using Cons.prems by (auto simp: field_begin_def field_end_def Let_def)
  then have "header_line n [v] b = Some ?b"
    using Cons.prems
    by (simp add: header_line_def write_header_field_def header_line_end_def bad_builder_writes_nothing)
  then show ?case using Cons.IH [OF q(2)] q by (auto simp: f)
qed simp

text \<open>
  A builder that has overflowed once stays silent: finalizing it and giving it a new buffer
  clears its overflow flag but not the state of its output stream. The next request writes nothing
  into the buffer and is still reported as \<^verbatim>\<open>Successful\<close>.
\<close>

theorem reused_builder_is_silent:
  assumes "hb_badbit b"
  shows "\<exists>b'. build_request m t ver fs (builder_initialize mem v (builder_finalize b)) = Some (Successful, b') \<and>
    hb_mem b' = mem \<and> hb_buffer b' = v"
proof -
  let ?b = "builder_initialize mem v (builder_finalize b)"
  have b: "hb_badbit ?b" "\<not> hb_overflow ?b" "hb_mem ?b = mem" "hb_buffer ?b = v"
    using assms by (simp_all add: builder_initialize_def builder_finalize_def)
  then have "request_line m [t] ver ?b = Some ?b" by (simp add: request_line_def bad_builder_writes_nothing)
  moreover obtain b' where "header_lines fs ?b = Some b'" "hb_badbit b'" "hb_mem b' = mem" "hb_buffer b' = v"
      "\<not> hb_overflow b'"
    using bad_header_lines [OF b(1), of fs] b by auto
  ultimately show ?thesis
    by (simp add: build_request_def request_header_done_def write_header_done_def bad_builder_writes_nothing)
qed

theorem reused_builder_is_silent_witness:
  "\<exists>b b'. os_write ''abc'' (builder_new ''--'' (bv_new 0 2 0 0)) = Some b \<and>
     build_request ''GET'' ''/'' ''HTTP/1.1'' [] (builder_initialize ''--'' (bv_new 0 2 0 0) (builder_finalize b)) =
       Some (Successful, b') \<and> hb_mem b' = ''--'' \<and> hb_buffer b' = bv_new 0 2 0 0"
proof -
  obtain b where b: "os_write ''abc'' (builder_new ''--'' (bv_new 0 2 0 0)) = Some b" "hb_badbit b"
    by (simp add: os_write_def builder_new_def xsputn_def bv_new_def slice_for_producer_def slice_begin_def
        bv_end_ptr_def bv_capacity_def sub64_exact add64_exact store_def bv_commit_def)
  then show ?thesis using reused_builder_is_silent [OF b(2)] by blast
qed

section \<open>Building and parsing\<close>

text \<open>A client of the parser: resume it after every pause and collect the fields.\<close>

fun parse_fields :: "nat \<Rightarrow> http_parser \<Rightarrow> ((string \<times> string) list \<times> http_parser) option" where
  "parse_fields 0 p = None"
| "parse_fields (Suc k) p =
     (case parser_parse p of
        Some (HPause, p') \<Rightarrow>
          map_option (\<lambda>(fs, q). ((slice_text (hp_mem p') (hp_name p'), slice_text (hp_mem p') (hp_value p')) # fs, q))
            (parse_fields k p')
      | Some (HReturn, p') \<Rightarrow> Some ([], p')
      | _ \<Rightarrow> None)"

definition field_ok :: "string \<times> string \<Rightarrow> bool" where
  "field_ok f \<longleftrightarrow> fst f \<noteq> [] \<and> CHR '':'' \<notin> set (fst f) \<and> \<not> isspace (hd (fst f)) \<and> \<not> isspace (last (fst f)) \<and>
     CR \<notin> set (snd f)"

lemma field_text_first:
  assumes "\<forall>f \<in> set fs. field_ok f"
  obtains c rest where "field_text fs @ [CR, LF] @ body = c # rest" and "c \<noteq> CHR '' ''" and "c \<noteq> TAB"
    and "fs \<noteq> [] \<Longrightarrow> \<not> isspace c"
proof (cases fs)
  case Nil
  then show ?thesis using that [of CR] by (simp add: field_text_def CR_def TAB_def)
next
  case (Cons f gs)
  obtain n v where f: "f = (n, v)" by fastforce
  have n: "n \<noteq> []" "\<not> isspace (hd n)" using assms by (auto simp: Cons f field_ok_def)
  then show ?thesis
    using that [of "hd n" "tl n @ '': '' @ v @ [CR, LF] @ field_text gs @ [CR, LF] @ body"] blank_is_space
    by (auto simp: Cons f field_text_def) (metis blank_is_space(1,3))+
qed

lemma trim_blank: "trim (CHR '' '' # v) = trim v"
  by (simp add: trim_def)

lemma parse_fields_of_text:
  assumes "hp_ok p" and "hp_state p = ParserHeader" and "hp_input p = field_text fs @ [CR, LF] @ body"
    and "\<forall>f \<in> set fs. field_ok f"
  shows "\<exists>p'. parse_fields (Suc (length fs)) p = Some (map (\<lambda>(n, v). (n, trim v)) fs, p') \<and>
    hp_result p' = Some ParserComplete \<and> hp_input p' = body"
  using assms
proof (induction fs arbitrary: p)
  case Nil
  then show ?case
    using parse_header_end [of p body] by (auto simp: parser_parse_def field_text_def)
next
  case (Cons f fs)
  obtain n v where f: "f = (n, v)" by fastforce
  have n: "n \<noteq> []" "CHR '':'' \<notin> set n" "\<not> isspace (hd n)" "\<not> isspace (last n)" "CR \<notin> set v"
    using Cons.prems(4) by (auto simp: f field_ok_def)
  obtain c rest where c: "field_text fs @ [CR, LF] @ body = c # rest" "c \<noteq> CHR '' ''" "c \<noteq> TAB"
    using field_text_first [of fs body] Cons.prems(4) by (metis list.set_intros(2))
  have input: "hp_input p = n @ CHR '':'' # (CHR '' '' # v) @ folded [] @ [CR, LF] @ c # rest"
    using Cons.prems(3) c(1) by (simp add: f field_text_def folded_def)
  have crlf: "take 2 n \<noteq> [CR, LF]" using n(1,3) by (cases n) auto
  have cr: "CR \<notin> set (CHR '' '' # v)" using n(5) by (simp add: CR_def)
  obtain p1 where p1: "parse_header p = Some (HPause, p1)" "hp_ok p1" "slice_text (hp_mem p1) (hp_name p1) = n"
      "slice_text (hp_mem p1) (hp_value p1) = trim v" "hp_input p1 = c # rest" "hp_state p1 = hp_state p"
    using parse_header_field [OF Cons.prems(1) input n(2) n(4) crlf cr _ c(2,3)]
    by (auto simp: fold_lines_def unfolded_def trim_blank)
  obtain p' where "parse_fields (Suc (length fs)) p1 = Some (map (\<lambda>(n, v). (n, trim v)) fs, p')"
      "hp_result p' = Some ParserComplete" "hp_input p' = body"
    using Cons.IH [OF p1(2)] p1(5,6) c(1) Cons.prems(2,4) by auto
  then show ?case using p1 Cons.prems(2) by (simp add: f parser_parse_def)
qed

text \<open>
  C5. What the builder writes, the parser reads. When a request with well-formed parts fits, parsing
  the buffer of the builder gives the method, the target and the version, then exactly the fields in
  their order (the default one included, white space around values removed), and ends with a
  complete header and no body.
\<close>

theorem request_roundtrip:
  assumes "bv_ok v" and "bv_memory v + bv_memory_size v \<le> length mem" and "bv_size v = 0"
    and "length (request_text m t ver fs) \<le> bv_capacity v"
    and "CHR '' '' \<notin> set m" and "take 2 m \<noteq> [CR, LF]" and "t \<noteq> []" and "CHR '' '' \<notin> set t"
    and "CR \<notin> set ver" and "ver \<noteq> []" and "hd ver \<noteq> CHR '' ''" and "\<forall>f \<in> set fs. field_ok f"
  shows "\<exists>b p1 p2. build_request m t ver fs (builder_new mem v) = Some (Successful, b) \<and>
    parser_parse (snd (parser_initialize (hb_mem b) (hb_buffer b) p)) = Some (HPause, p1) \<and>
    slice_text (hp_mem p1) (hp_first p1) = m \<and> slice_text (hp_mem p1) (hp_second p1) = t \<and>
    slice_text (hp_mem p1) (hp_third p1) = ver \<and>
    parse_fields (Suc (length (request_fields fs))) p1 =
      Some (map (\<lambda>(n, v). (n, trim v)) (request_fields fs), p2) \<and>
    hp_result p2 = Some ParserComplete \<and> hp_input p2 = []"
proof -
  obtain r b where b: "build_request m t ver fs (builder_new mem v) = Some (r, b)"
      "wrote (builder_new mem v) (request_text m t ver fs) b" "r = (if hb_overflow b then Failed else Successful)"
    using build_request_ok [OF builder_new_ok [OF assms(1,2)], of m t ver fs]
    by (metis builder_new_def http_builder.select_convs(7))
  have room: "hb_room (builder_new mem v) = bv_capacity v" by (simp add: hb_room_def builder_new_def)
  have r: "r = Successful" and written: "hb_text b = request_text m t ver fs"
    using b(2,3) assms(3,4) by (auto simp: wrote_def room) (simp_all add: builder_new_def hb_text_def)
  let ?p = "snd (parser_initialize (hb_mem b) (hb_buffer b) p)"
  have ok: "hp_ok ?p" "hp_state ?p = ParserStartLine"
    using wrote_ok [OF b(2)] by (simp_all add: parser_initialize_def Let_def parser_finalize_def hp_ok_def hb_ok_def)
  have fields: "\<forall>f \<in> set (request_fields fs). field_ok f" "request_fields fs \<noteq> []"
    using assms(12) by (auto simp: request_fields_def field_ok_def isspace_def CR_def TAB_def LF_def)
  obtain c rest where c: "field_text (request_fields fs) @ [CR, LF] @ [] = c # rest" "\<not> isspace c"
    using field_text_first [OF fields(1), of "[]"] fields(2) by metis
  have "hp_input ?p = hb_text b"
    by (simp add: parser_initialize_def Let_def parser_finalize_def hp_input_def hb_text_def)
  then have input: "hp_input ?p = m @ replicate (Suc 0) (CHR '' '') @ t @ replicate (Suc 0) (CHR '' '') @ ver @
      [CR, LF] @ c # rest"
    using c(1) by (simp add: written request_text_def)
  obtain p1 where p1: "parse_start_line ?p = Some (HPause, p1)" "hp_ok p1"
      "slice_text (hp_mem p1) (hp_first p1) = m" "slice_text (hp_mem p1) (hp_second p1) = t"
      "slice_text (hp_mem p1) (hp_third p1) = ver" "hp_input p1 = c # rest" "hp_state p1 = ParserHeader"
    using parse_start_line_text [OF ok(1) input assms(5-9) assms(11) c(2)] by blast
  obtain p2 where "parse_fields (Suc (length (request_fields fs))) p1 =
      Some (map (\<lambda>(n, v). (n, trim v)) (request_fields fs), p2)" "hp_result p2 = Some ParserComplete" "hp_input p2 = []"
    using parse_fields_of_text [OF p1(2,7) _ fields(1), of "[]"] p1(6) c(1) by auto
  then show ?thesis using b(1) r p1 ok(2) by (auto simp: parser_parse_def)
qed

theorem request_roundtrip_witness:
  "\<exists>b p1 p2. build_request ''GET'' ''/'' ''HTTP/1.1'' [(''Host'', ''a'')]
      (builder_new (replicate 99 (CHR ''-'')) (bv_new 0 99 0 0)) = Some (Successful, b) \<and>
    parser_parse (snd (parser_initialize (hb_mem b) (hb_buffer b) (sample_parser [] ParserUninitialized))) = Some (HPause, p1) \<and>
    slice_text (hp_mem p1) (hp_first p1) = ''GET'' \<and>
    parse_fields 3 p1 = Some ([(''Host'', ''a''), (''User-Agent'', ''jinx'')], p2) \<and>
    hp_result p2 = Some ParserComplete"
proof -
  let ?fs = "[(''Host'', ''a'')] :: (string \<times> string) list"
  have rf: "request_fields ?fs = [(''Host'', ''a''), (''User-Agent'', ''jinx'')]"
    by (simp add: request_fields_def same_name_def)
  have tr: "trim ''a'' = ''a''" "trim ''jinx'' = ''jinx''"
    by (simp_all add: trim_def isspace_def CR_def LF_def TAB_def)
  have ok: "bv_ok (bv_new 0 99 0 0)" "bv_memory (bv_new 0 99 0 0) + bv_memory_size (bv_new 0 99 0 0) \<le> length (replicate 99 (CHR ''-''))"
      "bv_size (bv_new 0 99 0 0) = 0"
      "length (request_text ''GET'' ''/'' ''HTTP/1.1'' ?fs) \<le> bv_capacity (bv_new 0 99 0 0)"
    by (simp_all add: bv_ok_def bv_new_def bv_size_def bv_capacity_def sub64_exact request_text_def rf field_text_def)
  have f: "\<forall>f \<in> set ?fs. field_ok f" by (simp add: field_ok_def isspace_def CR_def LF_def TAB_def)
  obtain b p1 p2 where "build_request ''GET'' ''/'' ''HTTP/1.1'' ?fs (builder_new (replicate 99 (CHR ''-'')) (bv_new 0 99 0 0)) =
        Some (Successful, b)"
      "parser_parse (snd (parser_initialize (hb_mem b) (hb_buffer b) (sample_parser [] ParserUninitialized))) = Some (HPause, p1)"
      "slice_text (hp_mem p1) (hp_first p1) = ''GET''"
      "parse_fields (Suc (length (request_fields ?fs))) p1 =
        Some (map (\<lambda>(n, v). (n, trim v)) (request_fields ?fs), p2)" "hp_result p2 = Some ParserComplete"
    using request_roundtrip [OF ok _ _ _ _ _ _ _ f, of "sample_parser [] ParserUninitialized"]
    by (auto simp: CR_def)
  then show ?thesis unfolding rf by (auto simp: tr eval_nat_numeral simp del: parse_fields.simps)
qed

section \<open>The connection field\<close>

lemma end_of_text:
  "hb_ok b \<Longrightarrow> bv_end_ptr (hb_buffer b) = bv_data (hb_buffer b) + length (hb_text b)"
  by (auto simp: hb_ok_def hb_text_def bv_ok_simps) (auto simp: bv_ok_def)

lemma written_slice:
  assumes "hb_ok b" and "wrote b s b'" and "length s \<le> hb_room b"
  shows "slice_text (hb_mem b') \<lparr>s_data = bv_end_ptr (hb_buffer b),
      s_size = sub64 (bv_end_ptr (hb_buffer b')) (bv_end_ptr (hb_buffer b))\<rparr> = s"
proof -
  have ok': "hb_ok b'" using assms(2) by (rule wrote_ok)
  have txt1: "hb_text b' = hb_text b @ s" and data: "bv_data (hb_buffer b') = bv_data (hb_buffer b)"
    using assms(2,3) by (simp_all add: wrote_def)
  have e: "bv_end_ptr (hb_buffer b) = bv_data (hb_buffer b) + length (hb_text b)"
      "bv_end_ptr (hb_buffer b') = bv_data (hb_buffer b) + length (hb_text b) + length s"
    using end_of_text [OF assms(1)] end_of_text [OF ok'] txt1 data by simp_all
  have "bv_end_ptr (hb_buffer b') < size_max"
    using ok' by (auto simp: hb_ok_def bv_ok_simps) (auto simp: bv_ok_def)
  then have "sub64 (bv_end_ptr (hb_buffer b')) (bv_end_ptr (hb_buffer b)) = length s"
    by (simp add: e sub64_exact)
  moreover have le: "length (hb_text b) + length s \<le> bv_size (hb_buffer b')"
    using arg_cong [OF txt1, of length] by (simp add: hb_text_def [of b'])
  have "take (length s) (drop (length (hb_text b)) (hb_text b')) = s" by (simp add: txt1)
  then have "take (length s) (drop (length (hb_text b) + bv_data (hb_buffer b)) (hb_mem b')) = s"
    unfolding hb_text_def [of b'] data using le by (simp add: drop_take min_def split: if_splits)
  ultimately show ?thesis by (simp add: slice_text_def e(1) add.commute)
qed

text \<open>
  The connection mode. Writing a field named \<^verbatim>\<open>Connection\<close>, in any case and with its value in any
  number of pieces, sets the state of the builder from exactly the bytes of the value; the three
  known values are told apart by their hashes, and any other letter case of them is unknown.
\<close>

theorem connection_is_detected:
  assumes "hb_ok b" and "same_name n ''connection''" and "length (n @ '': '' @ concat ps) \<le> hb_room b"
  shows "(\<exists>b'. header_line n ps b = Some b' \<and> hb_connection_state b' = connection_of (concat ps)) \<and>
    connection_of ''close'' = ConnectionClose \<and> connection_of ''keep-alive'' = ConnectionKeepAlive \<and>
    connection_of ''upgrade'' = ConnectionUpgrade \<and> connection_of ''Close'' = ConnectionUnknown"
proof (intro conjI)
  obtain b1 where b1: "os_write n b = Some b1" "wrote b n b1" using os_write_ok [OF assms(1)] by blast
  obtain b2 where b2: "os_write '': '' b1 = Some b2" "wrote b1 '': '' b2"
    using os_write_ok [OF wrote_ok [OF b1(2)]] by blast
  define c where "c = field_begin n b2"
  have w2: "wrote b (n @ '': '') b2" by (rule wrote_trans [OF b1(2) b2(2)])
  have c: "hb_ok c" "hb_detect_connection c" "s_data (hb_connection_string c) = bv_end_ptr (hb_buffer c)" "hb_room c = hb_room b2"
    using wrote_ok [OF wrote_field_begin [OF w2]] assms(2)
    by (auto simp: c_def) (auto simp: field_begin_def Let_def hb_room_def)
  have room: "length (concat ps) \<le> hb_room c" using w2 assms(3) c(4) by (simp add: wrote_def)
  obtain b3 where b3: "os_write_all ps c = Some b3" "wrote c (concat ps) b3" "same_flags c b3"
    using os_write_all_ok [OF c(1)] by blast
  have fl: "hb_detect_connection b3" "hb_connection_string b3 = hb_connection_string c"
    using b3(3) c(2) by (auto simp: same_flags_def)
  have "hb_connection_state (field_end b3) = connection_of (concat ps)"
    using fl written_slice [OF c(1) b3(2) room] c(3)
    by (cases "hb_connection_string c") (simp add: field_end_def Let_def slice_text_def)
  moreover obtain b4 where "os_write [CR, LF] (field_end b3) = Some b4" "same_flags (field_end b3) b4"
    using os_write_ok [OF wrote_ok [OF wrote_field_end [OF b3(2)]]] by blast
  ultimately show "\<exists>b'. header_line n ps b = Some b' \<and> hb_connection_state b' = connection_of (concat ps)"
    using b1(1) b2(1) b3(1)
    by (auto simp: header_line_def write_header_field_def header_line_end_def same_flags_def simp flip: c_def)
qed (simp_all add: connection_of_def text_hash_def hash_data_def Let_def)

theorem connection_is_detected_witness:
  "\<exists>b'. header_line ''Connection'' [''keep'', ''-alive''] (builder_new (replicate 30 (CHR ''-'')) (bv_new 0 30 0 0)) =
     Some b' \<and> hb_connection_state b' = ConnectionKeepAlive"
proof -
  have "hb_ok (builder_new (replicate 30 (CHR ''-'')) (bv_new 0 30 0 0))"
    by (rule builder_new_ok) (simp_all add: bv_ok_def bv_new_def)
  moreover have "same_name ''Connection'' ''connection''" by code_simp
  moreover have "length (''Connection'' @ '': '' @ concat [''keep'', ''-alive'']) \<le>
      hb_room (builder_new (replicate 30 (CHR ''-'')) (bv_new 0 30 0 0))"
    by (simp add: hb_room_def builder_new_def bv_new_def bv_capacity_def sub64_exact)
  ultimately show ?thesis
    using connection_is_detected [of _ "''Connection''" "[''keep'', ''-alive'']"] by fastforce
qed

section \<open>Messages without fields\<close>

text \<open>
  A message without header fields is rejected: the line break that ends the header counts as
  white space between the start line and the first field, so the parser answers \<^verbatim>\<open>BadRequest\<close>.
\<close>

theorem message_without_fields_is_rejected:
  assumes "hp_ok p" and "hp_state p = ParserStartLine"
    and "hp_input p = m @ '' '' @ t @ '' '' @ v @ [CR, LF, CR, LF] @ rest"
    and "CHR '' '' \<notin> set m" and "t \<noteq> []" and "CHR '' '' \<notin> set t"
    and "CR \<notin> set v" and "v \<noteq> []" and "hd v \<noteq> CHR '' ''"
  shows "parser_parse p = Some (HReturn, p\<lparr>hp_result := Some ParserBadRequest\<rparr>)"
proof -
  obtain pre post where split: "hp_mem p = pre @ hp_input p @ post" "bv_data (hp_buffer p) = length pre"
      "bv_end_ptr (hp_buffer p) = length pre + length (hp_input p)"
    using hp_mem_split [OF assms(1)] by metis
  let ?R = "replicate (Suc 0) (CHR '' '')"
  let ?e3 = "length pre + length m + Suc 0 + length t + Suc 0 + length v"
  have mem: "hp_mem p = pre @ (m @ ?R @ t @ ?R @ v @ [CR, LF] @ CR # LF # rest) @ post"
    using split(1) assms(3) by simp
  have en: "bv_end_ptr (hp_buffer p) = ?e3 + 4 + length rest" using split(3) assms(3) by simp
  have "length pre + length m + 0 + length t + 0 + length v + 5 \<le> bv_end_ptr (hp_buffer p)" unfolding en by simp
  note pos = start_line_positions [OF mem assms(4,5,6,7) assms(9) refl this]
  have "hp_mem p ! (?e3 + 1) = LF" "hp_mem p ! (?e3 + 2) = CR"
    using nth_append_length_plus [of "pre @ m @ ?R @ t @ ?R @ v" "[CR, LF] @ CR # LF # rest @ post" 1]
      nth_append_length_plus [of "pre @ m @ ?R @ t @ ?R @ v" "[CR, LF] @ CR # LF # rest @ post" 2]
    by (simp_all add: mem add.assoc)
  then show ?thesis
    using pos assms(2) en
    by (simp add: parser_parse_def parse_start_line_unfold [OF assms(1)] Let_def split(2) parser_bad_def)
qed

theorem message_without_fields_is_rejected_witness:
  "\<exists>p'. parser_parse (sample_parser (''HTTP/1.1 204 x'' @ [CR, LF, CR, LF]) ParserStartLine) = Some (HReturn, p') \<and>
     hp_result p' = Some ParserBadRequest"
  using message_without_fields_is_rejected [of "sample_parser (''HTTP/1.1 204 x'' @ [CR, LF, CR, LF]) ParserStartLine"
      "''HTTP/1.1''" "''204''" "''x''" "[]"]
  by (simp add: sample_parser_ok sample_parser_input CR_def LF_def) (simp add: sample_parser_def)

end
