(* ===== verification/Jinx_Client.thy ===== *)
theory Jinx_Client
  imports Jinx_HttpBuilder
begin

text \<open>
  The HTTP client (\<^verbatim>\<open>HTTPClient\<close> of \<^verbatim>\<open>libs/http/include/jinx/http/client.hpp\<close>). It owns a builder for the
  request and a parser for the response, each with a buffer of its own, and pauses between the phases
  of an exchange: initializing, sending, receiving.

  Every callback of the routine is a function on the state that says what the routine does next. The
  parser is run where the client awaits it. A stream that is read answers with chunks of bytes; how a
  message is cut into chunks is not known. \<open>hc_alloc\<close> are the answers of the allocator and \<open>hc_allocate\<close>
  the result of the awaitable allocation. \<open>hc_events\<close> records what the two virtual methods for the start
  line and the header fields are given. The result \<open>None\<close> is a failed assertion or a null pointer that
  is dereferenced.
\<close>

section \<open>The client\<close>

type_synonym client_buffer = "string \<times> BufferView"

datatype client_event = EvStart string string string | EvField string string

record http_client =
  hc_connection_state :: HTTPConnectionState
  hc_buffer_request :: "client_buffer option"
  hc_buffer_response :: "client_buffer option"
  hc_builder :: http_builder
  hc_parser :: http_parser
  hc_allocate :: "client_buffer option option"
  hc_alloc :: "client_buffer option list"
  hc_events :: "client_event list"

datatype client_action = CAwaitAllocate | CPause | CAwaitSend | CReceive | CAwaitRead | CThrow Error

definition client_version :: "http_client \<Rightarrow> string" where
  "client_version s = slice_text (hp_mem (hc_parser s)) (hp_first (hc_parser s))"

definition client_status :: "http_client \<Rightarrow> string" where
  "client_status s = slice_text (hp_mem (hc_parser s)) (hp_second (hc_parser s))"

definition client_reason :: "http_client \<Rightarrow> string" where
  "client_reason s = slice_text (hp_mem (hc_parser s)) (hp_third (hc_parser s))"

text \<open>\<^verbatim>\<open>init\<close>: the buffers must be there.\<close>

definition client_init :: "http_client \<Rightarrow> (client_action \<times> http_client) option" where
  "client_init s =
     do { (rm, rv) \<leftarrow> hc_buffer_response s;
          (wm, wv) \<leftarrow> hc_buffer_request s;
          Some (CPause, s\<lparr>hc_parser := snd (parser_initialize rm rv (hc_parser s)),
                          hc_builder := builder_initialize wm wv (hc_builder s)\<rparr>) }"

definition client_take_answer :: "http_client \<Rightarrow> client_buffer option \<times> http_client" where
  "client_take_answer s = (case hc_alloc s of [] \<Rightarrow> (None, s) | x # xs \<Rightarrow> (x, s\<lparr>hc_alloc := xs\<rparr>))"

definition client_allocate_buffer :: "http_client \<Rightarrow> (client_action \<times> http_client) option" where
  "client_allocate_buffer s =
     (let (x, s0) = client_take_answer s; s1 = s0\<lparr>hc_buffer_request := x\<rparr>
      in if x = None then Some (CThrow (make_error_http_client ErrorHTTPClient_OutOfMemory), s1)
         else let (y, s2) = client_take_answer s1; s3 = s2\<lparr>hc_buffer_response := y\<rparr>
              in if y = None then Some (CThrow (make_error_http_client ErrorHTTPClient_OutOfMemory), s3)
                 else client_init s3)"

text \<open>\<^verbatim>\<open>release\<close> moves the pointer out of the result of the allocation, which stays non-empty.\<close>

definition client_release :: "http_client \<Rightarrow> client_buffer option \<times> http_client" where
  "client_release s =
     (case hc_allocate s of Some x \<Rightarrow> (x, s\<lparr>hc_allocate := Some None\<rparr>) | None \<Rightarrow> (None, s))"

definition client_allocate_no_error :: "http_client \<Rightarrow> (client_action \<times> http_client) option" where
  "client_allocate_no_error s =
     (let (wait1, s1) =
        (if hc_buffer_request s \<noteq> None then (False, s)
         else if hc_allocate s = None
         then let (x, t) = client_take_answer s in (x = None, t\<lparr>hc_buffer_request := x\<rparr>)
         else let (x, t) = client_release s in (False, t\<lparr>hc_buffer_request := x\<rparr>))
      in if wait1 then Some (CAwaitAllocate, s1)
         else let (wait2, s2) =
           (if hc_buffer_response s1 \<noteq> None then (False, s1)
            else if hc_allocate s1 = None
            then let (x, t) = client_take_answer s1 in (x = None, t\<lparr>hc_buffer_response := x\<rparr>)
            else let (x, t) = client_release s1 in (False, t\<lparr>hc_buffer_response := x\<rparr>))
         in if wait2 then Some (CAwaitAllocate, s2)
            else if hc_buffer_request s2 = None \<or> hc_buffer_response s2 = None then None
            else client_init s2)"

text \<open>\<^verbatim>\<open>initialize\<close> chooses the callback by the configuration \<^verbatim>\<open>WaitBuffer\<close>.\<close>

definition client_initialize :: "bool \<Rightarrow> http_client \<Rightarrow> (client_action \<times> http_client) option" where
  "client_initialize wait_buffer s = (if wait_buffer then client_allocate_no_error s else client_allocate_buffer s)"

definition client_finalize :: "http_client \<Rightarrow> http_client" where
  "client_finalize s = s\<lparr>hc_connection_state := ConnectionUnknown, hc_buffer_request := None, hc_buffer_response := None\<rparr>"

definition client_send_request :: "http_client \<Rightarrow> (client_action \<times> http_client) option" where
  "client_send_request s =
     (let s1 = (if hc_connection_state s = ConnectionUnknown then s\<lparr>hc_connection_state := ConnectionClose\<rparr> else s);
          s2 = (if hb_connection_state (hc_builder s1) \<noteq> ConnectionUnknown
                then s1\<lparr>hc_connection_state := hb_connection_state (hc_builder s1)\<rparr> else s1)
      in do { (r, b) \<leftarrow> request_header_done (hc_builder s2);
              let s3 = s2\<lparr>hc_builder := b\<rparr>;
              Some (if r = Failed then CThrow (make_error_http_client ErrorHTTPClient_RequestHeaderTooLarge) else CAwaitSend, s3) })"

text \<open>\<^verbatim>\<open>parse_header\<close>, called when the parser pauses or returns; \<open>CReceive\<close> is \<^verbatim>\<open>recv_response\<close>.\<close>

definition client_parse_header :: "http_client \<Rightarrow> (client_action \<times> http_client) option" where
  "client_parse_header s =
     (case hp_result (hc_parser s) of
        None \<Rightarrow> None
      | Some ParserUninitialized \<Rightarrow> Some (CThrow (make_error_http_client ErrorHTTPClient_Uninitialized), s)
      | Some ParserEntityTooLarge \<Rightarrow> Some (CThrow (make_error_http_client ErrorHTTPClient_EntityTooLarge), s)
      | Some ParserEndOfStream \<Rightarrow> Some (CThrow (make_error_http_client ErrorHTTPClient_EndOfStream), s)
      | Some ParserBadRequest \<Rightarrow> Some (CThrow (make_error_http_client ErrorHTTPClient_BadResponse), s)
      | Some ParserStartLine \<Rightarrow>
          Some (CReceive, s\<lparr>hc_events := hc_events s @ [EvStart (client_version s) (client_status s) (client_reason s)]\<rparr>)
      | Some ParserHeader \<Rightarrow>
          let p = hc_parser s; name = slice_text (hp_mem p) (hp_name p); val = slice_text (hp_mem p) (hp_value p);
              s1 = (if same_name name ''connection'' then s\<lparr>hc_connection_state := connection_of val\<rparr> else s)
          in Some (CReceive, s1\<lparr>hc_events := hc_events s1 @ [EvField name val]\<rparr>)
      | Some ParserComplete \<Rightarrow> Some (CPause, s))"

text \<open>
  \<^verbatim>\<open>recv_response\<close> awaits the parser, which is finalized when it returns but not when it pauses. A
  parser that has to read suspends the client.
\<close>

partial_function (option) client_receive :: "http_client \<Rightarrow> (client_action \<times> http_client) option" where
  "client_receive s =
     do { (a, p) \<leftarrow> parser_parse (hc_parser s);
          (case a of
             HRead \<Rightarrow> Some (CAwaitRead, s\<lparr>hc_parser := p\<rparr>)
           | HThrow e \<Rightarrow> Some (CThrow e, s\<lparr>hc_parser := parser_finalize p\<rparr>)
           | _ \<Rightarrow> do { (b, s1) \<leftarrow> client_parse_header (s\<lparr>hc_parser := if a = HReturn then parser_finalize p else p\<rparr>);
                       if b = CReceive then client_receive s1 else Some (b, s1) }) }"

text \<open>The stream puts a chunk behind the bytes in the buffer.\<close>

definition parser_feed :: "string \<Rightarrow> http_parser \<Rightarrow> http_parser option" where
  "parser_feed bs p =
     do { mem \<leftarrow> store (bv_end_ptr (hp_buffer p)) bs (hp_mem p);
          case bv_commit (length bs) (hp_buffer p) of
            (Failed, _) \<Rightarrow> None
          | (Successful, v) \<Rightarrow> Some (p\<lparr>hp_mem := mem, hp_buffer := v\<rparr>) }"

text \<open>
  A whole reception: the stream answers every read with the next chunk. The chunks that are not read
  are part of the result. When the stream fails instead, the parser handles the error first.
\<close>

fun client_run :: "string list \<Rightarrow> http_client \<Rightarrow> (client_action \<times> http_client \<times> string list) option" where
  "client_run cs s =
     do { (a, s1) \<leftarrow> client_receive s;
          if a = CAwaitRead
          then (case cs of [] \<Rightarrow> Some (a, s1, [])
                | c # ds \<Rightarrow> do { p \<leftarrow> parser_feed c (hc_parser s1); client_run ds (s1\<lparr>hc_parser := p\<rparr>) })
          else Some (a, s1, cs) }"

declare client_run.simps [simp del]

definition client_stream_error :: "Error \<Rightarrow> http_client \<Rightarrow> (client_action \<times> http_client) option" where
  "client_stream_error e s =
     do { (h, p) \<leftarrow> parser_handle_error False e (hc_parser s);
          if h = HandledReturn then client_parse_header (s\<lparr>hc_parser := parser_finalize p\<rparr>)
          else Some (CThrow e, s\<lparr>hc_parser := parser_finalize p\<rparr>) }"

section \<open>Parsing a part of a message\<close>

lemma find_if_prefix:
  "b \<le> e \<Longrightarrow> e \<le> e' \<Longrightarrow> (\<And>j. b \<le> j \<Longrightarrow> j < e \<Longrightarrow> mem ! j = mem' ! j) \<Longrightarrow>
   find_if P mem b e = min e (find_if P mem' b e')"
proof (induction P mem b e rule: find_if.induct)
  case (1 P mem b e)
  show ?case
  proof (cases "b < e")
    case True
    then have eq: "mem ! b = mem' ! b" using "1.prems"(3) by simp
    show ?thesis
    proof (cases "P (mem ! b)")
      case False
      then have "find_if P mem (b + 1) e = min e (find_if P mem' (b + 1) e')"
        using "1.IH" True "1.prems" by simp
      then show ?thesis using True False eq "1.prems"(2) by (subst find_if.simps, subst (2) find_if.simps) simp
    qed (use True eq "1.prems"(2) in \<open>subst find_if.simps, subst (2) find_if.simps, simp\<close>)
  next
    case False
    then have "b = e" using "1.prems"(1) by simp
    moreover have "find_if P mem e e = e" by (subst find_if.simps) simp
    ultimately show ?thesis using find_if_bounds(1) [of e P mem' e'] by simp
  qed
qed

text \<open>The same from a position that may itself be cut off at the end of the input.\<close>

lemma find_if_cut:
  assumes "b \<le> e'" and "e \<le> e'" and "\<And>j. lo \<le> j \<Longrightarrow> j < e \<Longrightarrow> mem ! j = mem' ! j" and "lo \<le> b"
  shows "find_if P mem (min e b) e = min e (find_if P mem' b e')"
proof (cases "b \<le> e")
  case True
  then show ?thesis using find_if_prefix [of b e e' mem mem' P] assms by (simp add: min_absorb2)
next
  case False
  moreover have "find_if P mem e e = e" by (subst find_if.simps) simp
  ultimately show ?thesis using find_if_bounds(1) [of b P mem' e'] by (simp add: min_def)
qed

lemma input_prefix:
  assumes "hp_ok p" and "hp_input p @ y = w"
  obtains pre where "bv_data (hp_buffer p) = length pre" and "bv_end_ptr (hp_buffer p) = length pre + length (hp_input p)"
    and "bv_size (hp_buffer p) = length (hp_input p)"
    and "\<And>j. length pre \<le> j \<Longrightarrow> j < bv_end_ptr (hp_buffer p) \<Longrightarrow> hp_mem p ! j = (pre @ w) ! j"
proof -
  obtain pre post where s: "hp_mem p = pre @ hp_input p @ post" "bv_data (hp_buffer p) = length pre"
      "bv_end_ptr (hp_buffer p) = length pre + length (hp_input p)" "bv_size (hp_buffer p) = length (hp_input p)"
    using hp_mem_split [OF assms(1)] by metis
  have "hp_mem p ! j = (pre @ w) ! j" if "length pre \<le> j" "j < bv_end_ptr (hp_buffer p)" for j
  proof -
    define k where "k = j - length pre"
    have "j = length pre + k" "k < length (hp_input p)" using that s(3) by (simp_all add: k_def)
    then show ?thesis by (subst s(1)) (simp add: nth_append flip: assms(2))
  qed
  then show ?thesis using that s by blast
qed

text \<open>A start line of which not all has arrived, including the first byte behind it, is left alone.\<close>

lemma partial_start_line:
  assumes "hp_ok p"
    and w: "hp_input p @ y = m @ '' '' @ t @ '' '' @ v @ [CR, LF, c]" and "y \<noteq> []"
    and "CHR '' '' \<notin> set m" and "t \<noteq> []" and "CHR '' '' \<notin> set t" and "CR \<notin> set v" and "v \<noteq> [] \<Longrightarrow> hd v \<noteq> CHR '' ''"
  shows "parse_start_line p = Some (parser_read_more p)"
proof -
  obtain pre where pre: "bv_data (hp_buffer p) = length pre" "bv_end_ptr (hp_buffer p) = length pre + length (hp_input p)"
      "\<And>j. length pre \<le> j \<Longrightarrow> j < bv_end_ptr (hp_buffer p) \<Longrightarrow>
        hp_mem p ! j = (pre @ m @ '' '' @ t @ '' '' @ v @ [CR, LF, c]) ! j"
    using input_prefix [OF assms(1) w] by metis
  let ?w = "pre @ (m @ replicate (Suc 0) (CHR '' '') @ t @ replicate (Suc 0) (CHR '' '') @ v @ [CR, LF] @ c # []) @ []"
  let ?bg = "length pre" and ?en = "bv_end_ptr (hp_buffer p)" and ?en' = "length ?w"
  have len: "?en < ?en'" using arg_cong [OF w, of length] assms(3) pre(2) by (cases y) auto
  have same: "\<And>j. ?bg \<le> j \<Longrightarrow> j < ?en \<Longrightarrow> hp_mem p ! j = ?w ! j" using pre(3) by simp
  note P = start_line_positions [OF refl assms(4-8), where pre = pre and post = "[]" and rest = "[]" and i = 0 and j = 0 and en = ?en' and bg = ?bg and c = c]
  have cut: "b \<le> ?en' \<Longrightarrow> ?bg \<le> b \<Longrightarrow> find_if P (hp_mem p) (min ?en b) ?en = min ?en (find_if P ?w b ?en')" for b P
    using len same by (intro find_if_cut [where lo = ?bg]) auto
  have e0: "?bg = min ?en ?bg" using pre(2) by simp
  have e1: "find_if (\<lambda>c. c = CHR '' '') (hp_mem p) ?bg ?en = min ?en (?bg + length m)"
    using cut [of ?bg "\<lambda>c. c = CHR '' ''"] P(1) len e0 by simp
  have b2: "find_if (\<lambda>c. c \<noteq> CHR '' '') (hp_mem p) (min ?en (?bg + length m)) ?en = min ?en (?bg + length m + 1)"
    using cut [of "?bg + length m" "\<lambda>c. c \<noteq> CHR '' ''"] P(2) len by simp
  have e2: "find_if (\<lambda>c. c = CHR '' '') (hp_mem p) (min ?en (?bg + length m + 1)) ?en = min ?en (?bg + length m + 1 + length t)"
    using cut [of "?bg + length m + 1" "\<lambda>c. c = CHR '' ''"] P(3) len by simp
  have b3: "find_if (\<lambda>c. c \<noteq> CHR '' '') (hp_mem p) (min ?en (?bg + length m + 1 + length t)) ?en =
      min ?en (?bg + length m + 1 + length t + 1)"
    using cut [of "?bg + length m + 1 + length t" "\<lambda>c. c \<noteq> CHR '' ''"] P(4) len by simp
  have e3: "find_if (\<lambda>c. c = CR) (hp_mem p) (min ?en (?bg + length m + 1 + length t + 1)) ?en =
      min ?en (?bg + length m + 1 + length t + 1 + length v)"
    using cut [of "?bg + length m + 1 + length t + 1" "\<lambda>c. c = CR"] P(5) len by simp
  have "min ?en (?bg + length m + 1 + length t + 1 + length v) + 3 > ?en" using len by (simp add: min_def)
  then show ?thesis unfolding parse_start_line_unfold [OF assms(1)] Let_def pre(1) e1 b2 e2 b3 e3 by simp
qed

lemma scan_value_read:
  assumes "find_if (\<lambda>c. c = CR) mem i en = e" and "en \<le> e + 2" and "e + 1 < en \<Longrightarrow> mem ! (e + 1) = LF"
    and "i \<le> en" and "en \<le> length mem"
  shows "scan_value mem i en = Some (FoldRead, mem)"
  using assms(2,3) by (subst scan_value_unfold [OF assms(4,5)]) (auto simp: assms(1) Let_def)

text \<open>A header line of which not all has arrived is left alone, too.\<close>

lemma partial_header_line:
  assumes "hp_ok p" and w: "hp_input p @ y = n @ '': '' @ v @ [CR, LF, c]" and "y \<noteq> []"
    and "field_ok (n, v)"
  shows "parse_header p = Some (parser_read_more p)"
proof -
  have n: "n \<noteq> []" "CHR '':'' \<notin> set n" "\<not> isspace (hd n)" "CR \<notin> set v" using assms(4) by (auto simp: field_ok_def)
  obtain pre where pre: "bv_data (hp_buffer p) = length pre" "bv_end_ptr (hp_buffer p) = length pre + length (hp_input p)"
      "bv_size (hp_buffer p) = length (hp_input p)"
      "\<And>j. length pre \<le> j \<Longrightarrow> j < bv_end_ptr (hp_buffer p) \<Longrightarrow> hp_mem p ! j = (pre @ n @ '': '' @ v @ [CR, LF, c]) ! j"
    using input_prefix [OF assms(1) w] by metis
  let ?w = "pre @ n @ '': '' @ v @ [CR, LF, c]"
  let ?bg = "length pre" and ?en = "bv_end_ptr (hp_buffer p)" and ?en' = "length ?w"
  have len: "?en < ?en'" using arg_cong [OF w, of length] assms(3) pre(2) by (cases y) auto
  have cut: "b \<le> ?en' \<Longrightarrow> ?bg \<le> b \<Longrightarrow> find_if P (hp_mem p) (min ?en b) ?en = min ?en (find_if P ?w b ?en')" for b P
    using len pre(4) by (intro find_if_cut [where lo = ?bg]) auto
  have name: "find_if (\<lambda>c. c = CHR '':'') ?w ?bg ?en' = ?bg + length n"
    by (rule find_if_append) (use n in auto)
  have "find_if (\<lambda>c. c = CR) ((pre @ n) @ ('': '' @ v) @ [CR, LF, c]) (?bg + length n) ?en' = ?bg + length n + length ('': '' @ v)"
    by (rule find_if_append) (use n in \<open>auto simp: CR_def\<close>)
  then have val: "find_if (\<lambda>c. c = CR) ?w (?bg + length n) ?en' = ?bg + length n + 2 + length v" by simp
  have e1: "find_if (\<lambda>c. c = CHR '':'') (hp_mem p) ?bg ?en = min ?en (?bg + length n)"
    using cut [of ?bg "\<lambda>c. c = CHR '':''"] name len pre(2) by (simp add: min_absorb2)
  have e2: "find_if (\<lambda>c. c = CR) (hp_mem p) (min ?en (?bg + length n)) ?en = min ?en (?bg + length n + 2 + length v)"
    using cut [of "?bg + length n" "\<lambda>c. c = CR"] val len by simp
  have lf: "hp_mem p ! (?bg + length n + 2 + length v + 1) = LF" if "?bg + length n + 2 + length v + 1 < ?en"
    using pre(4) [OF _ that] by (simp add: nth_append)
  have scan: "scan_value (hp_mem p) (min ?en (?bg + length n)) ?en = Some (FoldRead, hp_mem p)"
    by (rule scan_value_read [OF e2]) (use len lf hp_ok_view [OF assms(1)] in \<open>auto simp: min_def split: if_splits\<close>)
  show ?thesis
  proof (cases "bv_size (hp_buffer p) < 2")
    case False
    then have "hp_input p \<noteq> []" using pre(3) by auto
    then have "hp_mem p ! ?bg = hd n" using pre(3) pre(4) [of ?bg] pre(2) n(1) by (simp add: nth_append hd_conv_nth)
    then have "hp_mem p ! ?bg \<noteq> CR" using n(3) by auto
    then show ?thesis using False by (simp add: parse_header_unfold [OF assms(1)] Let_def pre(1) e1 scan)
  qed (simp add: parse_header_def Let_def)
qed

lemma partial_header_end: "hp_ok p \<Longrightarrow> length (hp_input p) < 2 \<Longrightarrow> parse_header p = Some (parser_read_more p)"
  by (erule hp_mem_split) (simp add: parse_header_def Let_def)

section \<open>Receiving a response\<close>

lemma pause_keeps_capacity:
  "parse_start_line p = Some (HPause, p') \<Longrightarrow> bv_capacity (hp_buffer p') = bv_capacity (hp_buffer p)"
  "parse_header p = Some (HPause, p') \<Longrightarrow> bv_capacity (hp_buffer p') = bv_capacity (hp_buffer p)"
  by (auto simp: parse_start_line_def parse_header_def Let_def parser_read_more_def parser_bad_def bv_consume_def bv_cut_def
      bv_capacity_def split: if_splits SuccessfulFailed.splits fold_result.splits prod.splits bind_splits)

lemma feed_ok:
  assumes "hp_ok p" and "length bs \<le> bv_capacity (hp_buffer p)"
  shows "\<exists>p'. parser_feed bs p = Some p' \<and> hp_ok p' \<and> hp_input p' = hp_input p @ bs \<and> hp_state p' = hp_state p \<and>
    bv_capacity (hp_buffer p') = bv_capacity (hp_buffer p) - length bs"
proof -
  let ?b = "builder_new (hp_mem p) (hp_buffer p)"
  have b: "hb_ok ?b" "length bs \<le> hb_room ?b" "hb_text ?b = hp_input p"
    using assms by (auto intro!: builder_new_ok simp: hp_ok_def)
      (simp_all add: hb_room_def builder_new_def hb_text_def hp_input_def)
  from append_at_end [OF b(1,2)] show ?thesis
    using assms(1) b(3) by (auto simp: parser_feed_def hp_ok_def hp_input_def hb_room_def builder_new_def)
qed

text \<open>The steps of a reception.\<close>

lemma receive_read:
  assumes "parser_parse (hc_parser s) = Some (parser_read_more (hc_parser s))" and "bv_capacity (hp_buffer (hc_parser s)) \<noteq> 0"
    and "parser_feed c (hc_parser s) = Some p"
  shows "client_run (c # cs) s = client_run cs (s\<lparr>hc_parser := p\<rparr>)"
  using assms by (subst client_run.simps) (simp add: client_receive.simps parser_read_more_def)

lemma receive_pause:
  assumes "parser_parse (hc_parser s) = Some (HPause, p)" and "client_parse_header (s\<lparr>hc_parser := p\<rparr>) = Some (CReceive, s1)"
  shows "client_run cs s = client_run cs s1"
  using assms by (subst (1 2) client_run.simps) (simp add: client_receive.simps [of s])

lemma receive_return:
  assumes "parser_parse (hc_parser s) = Some (HReturn, p)" and "hp_result p = Some ParserComplete"
  shows "client_run cs s = Some (CPause, s\<lparr>hc_parser := parser_finalize p\<rparr>, cs)"
  using assms by (subst client_run.simps) (simp add: client_receive.simps client_parse_header_def parser_finalize_def)

text \<open>The connection state after the fields of a message.\<close>

definition note_connection :: "string \<times> string \<Rightarrow> HTTPConnectionState \<Rightarrow> HTTPConnectionState" where
  "note_connection f c = (if same_name (fst f) ''connection'' then connection_of (trim (snd f)) else c)"

definition field_events :: "(string \<times> string) list \<Rightarrow> client_event list" where
  "field_events fs = map (\<lambda>(n, v). EvField n (trim v)) fs"

definition received ::
    "(client_action \<times> http_client \<times> string list) option \<Rightarrow> client_event list \<Rightarrow> HTTPConnectionState \<Rightarrow> string \<Rightarrow> bool" where
  "received r es c body \<longleftrightarrow> (\<exists>s cs. r = Some (CPause, s, cs) \<and> hc_events s = es \<and> hc_connection_state s = c \<and>
     hp_input (hc_parser s) @ concat cs = body)"

text \<open>
  Cutting a message \<open>line @ rest\<close> that arrives as \<open>x @ concat cs\<close>: the line is complete, or more is to come.
\<close>

lemma line_arrived:
  assumes "x @ ys = line @ rest"
  obtains (all) r where "x = line @ r" "r @ ys = rest" | (part) z where "x @ z = line" "z \<noteq> []" "ys \<noteq> []"
proof (cases "length line \<le> length x")
  case True
  then show ?thesis using assms all by (auto simp: append_eq_append_conv2)
next
  case False
  then show ?thesis using assms part by (auto simp: append_eq_append_conv2)
qed

text \<open>A read that is needed finds room in the buffer and another chunk of the message.\<close>

lemma read_continues:
  assumes "hp_ok (hc_parser s)" and "parser_parse (hc_parser s) = Some (parser_read_more (hc_parser s))"
    and "length (concat cs) \<le> bv_capacity (hp_buffer (hc_parser s))" and "concat cs \<noteq> []"
  obtains c ds p where "cs = c # ds" and "client_run cs s = client_run ds (s\<lparr>hc_parser := p\<rparr>)" and "hp_ok p"
    and "hp_input p @ concat ds = hp_input (hc_parser s) @ concat cs" and "hp_state p = hp_state (hc_parser s)"
    and "length (concat ds) \<le> bv_capacity (hp_buffer p)"
proof -
  obtain c ds where cs: "cs = c # ds" using assms(4) by (cases cs) auto
  obtain p where p: "parser_feed c (hc_parser s) = Some p" "hp_ok p" "hp_input p = hp_input (hc_parser s) @ c"
      "hp_state p = hp_state (hc_parser s)" "bv_capacity (hp_buffer p) = bv_capacity (hp_buffer (hc_parser s)) - length c"
    using feed_ok [OF assms(1), of c] assms(3) cs by auto
  have "bv_capacity (hp_buffer (hc_parser s)) \<noteq> 0" using assms(3,4) by (cases "concat cs") auto
  from receive_read [OF assms(2) this p(1), of ds] show ?thesis using that [OF cs] cs p assms(3) by simp
qed

lemma receive_header_end:
  assumes "hp_ok (hc_parser s)" and "hp_state (hc_parser s) = ParserHeader"
    and "hp_input (hc_parser s) @ concat cs = [CR, LF] @ body" and "length (concat cs) \<le> bv_capacity (hp_buffer (hc_parser s))"
  shows "received (client_run cs s) (hc_events s) (hc_connection_state s) body"
  using assms
proof (induction cs arbitrary: s rule: length_induct)
  case (1 cs)
  from "1.prems"(3) show ?case
  proof (cases rule: line_arrived)
    case (all r)
    then obtain p' where p': "parse_header (hc_parser s) = Some (HReturn, p')" "hp_result p' = Some ParserComplete" "hp_input p' = r"
      using parse_header_end [OF "1.prems"(1), of r] by auto
    then have "client_run cs s = Some (CPause, s\<lparr>hc_parser := parser_finalize p'\<rparr>, cs)"
      using "1.prems"(2) by (intro receive_return) (auto simp: parser_parse_def)
    then show ?thesis using p'(3) all(2) by (auto simp: received_def parser_finalize_def hp_input_def)
  next
    case (part z)
    have "length (hp_input (hc_parser s)) + length z = 2" using arg_cong [OF part(1), of length] by simp
    then have "length (hp_input (hc_parser s)) < 2" using part(2) by (cases z) simp_all
    then have "parser_parse (hc_parser s) = Some (parser_read_more (hc_parser s))"
      using partial_header_end [OF "1.prems"(1)] "1.prems"(2) by (simp add: parser_parse_def)
    from read_continues [OF "1.prems"(1) this "1.prems"(4) part(3)] obtain c ds p where
      "cs = c # ds" "client_run cs s = client_run ds (s\<lparr>hc_parser := p\<rparr>)" "hp_ok p"
      "hp_input p @ concat ds = hp_input (hc_parser s) @ concat cs" "hp_state p = hp_state (hc_parser s)"
      "length (concat ds) \<le> bv_capacity (hp_buffer p)" by blast
    then show ?thesis using "1.IH" [rule_format, of ds "s\<lparr>hc_parser := p\<rparr>"] "1.prems"(2,3) by simp
  qed
qed

lemma receive_field:
  assumes "hp_ok (hc_parser s)" and "hp_state (hc_parser s) = ParserHeader" and f: "field_ok (n, v)"
    and "hp_input (hc_parser s) @ concat cs = n @ '': '' @ v @ [CR, LF] @ c # rest" and "c \<noteq> CHR '' ''" and "c \<noteq> TAB"
    and "length (concat cs) \<le> bv_capacity (hp_buffer (hc_parser s))"
  shows "\<exists>s' ds. client_run cs s = client_run ds s' \<and> hp_ok (hc_parser s') \<and> hp_state (hc_parser s') = ParserHeader \<and>
    hp_input (hc_parser s') @ concat ds = c # rest \<and> length (concat ds) \<le> bv_capacity (hp_buffer (hc_parser s')) \<and>
    hc_events s' = hc_events s @ field_events [(n, v)] \<and> hc_connection_state s' = note_connection (n, v) (hc_connection_state s)"
  using assms(1,2,4,7)
proof (induction cs arbitrary: s rule: length_induct)
  case (1 cs)
  have n: "n \<noteq> []" "CHR '':'' \<notin> set n" "\<not> isspace (hd n)" "\<not> isspace (last n)" "CR \<notin> set v"
    using f by (auto simp: field_ok_def)
  have "hp_input (hc_parser s) @ concat cs = (n @ '': '' @ v @ [CR, LF, c]) @ rest" using "1.prems"(3) by simp
  then show ?case
  proof (cases rule: line_arrived)
    case (all r)
    have input: "hp_input (hc_parser s) = n @ CHR '':'' # (CHR '' '' # v) @ folded [] @ [CR, LF] @ c # r"
      using all(1) by (simp add: folded_def)
    have crlf: "take 2 n \<noteq> [CR, LF]" using n(1,3) by (cases n) auto
    have cr: "CR \<notin> set (CHR '' '' # v)" using n(5) by (simp add: CR_def)
    obtain p where p: "parse_header (hc_parser s) = Some (HPause, p)" "hp_ok p" "slice_text (hp_mem p) (hp_name p) = n"
        "slice_text (hp_mem p) (hp_value p) = trim v" "hp_input p = c # r" "hp_state p = hp_state (hc_parser s)"
        "hp_result p = Some ParserHeader"
      using parse_header_field [OF "1.prems"(1) input n(2,4) crlf cr _ assms(5,6)]
      by (auto simp: fold_lines_def unfolded_def trim_blank)
    let ?s = "s\<lparr>hc_parser := p, hc_connection_state := note_connection (n, v) (hc_connection_state s),
        hc_events := hc_events s @ field_events [(n, v)]\<rparr>"
    have "client_parse_header (s\<lparr>hc_parser := p\<rparr>) = Some (CReceive, ?s)"
      using p by (simp add: client_parse_header_def Let_def note_connection_def field_events_def)
    then have "client_run cs s = client_run cs ?s"
      using p(1) "1.prems"(2) by (intro receive_pause) (auto simp: parser_parse_def)
    then show ?thesis
      using p pause_keeps_capacity(2) [OF p(1)] all(2) "1.prems"(2,4) by (intro exI [of _ ?s] exI [of _ cs]) simp
  next
    case (part z)
    have "parser_parse (hc_parser s) = Some (parser_read_more (hc_parser s))"
      using partial_header_line [OF "1.prems"(1) _ part(2) f] part(1) "1.prems"(2) by (simp add: parser_parse_def)
    from read_continues [OF "1.prems"(1) this "1.prems"(4) part(3)] obtain d ds p where
      "cs = d # ds" "client_run cs s = client_run ds (s\<lparr>hc_parser := p\<rparr>)" "hp_ok p"
      "hp_input p @ concat ds = hp_input (hc_parser s) @ concat cs" "hp_state p = hp_state (hc_parser s)"
      "length (concat ds) \<le> bv_capacity (hp_buffer p)" by blast
    then show ?thesis using "1.IH" [rule_format, of ds "s\<lparr>hc_parser := p\<rparr>"] "1.prems"(2,3) by simp
  qed
qed

lemma receive_fields:
  assumes "hp_ok (hc_parser s)" and "hp_state (hc_parser s) = ParserHeader" and "\<forall>f \<in> set fs. field_ok f"
    and "hp_input (hc_parser s) @ concat cs = field_text fs @ [CR, LF] @ body"
    and "length (concat cs) \<le> bv_capacity (hp_buffer (hc_parser s))"
  shows "received (client_run cs s) (hc_events s @ field_events fs) (fold note_connection fs (hc_connection_state s)) body"
  using assms
proof (induction fs arbitrary: cs s)
  case Nil
  then show ?case using receive_header_end [of s cs body] by (simp add: field_text_def field_events_def)
next
  case (Cons f fs)
  obtain n v where f: "f = (n, v)" by fastforce
  obtain c rest where c: "field_text fs @ [CR, LF] @ body = c # rest" "c \<noteq> CHR '' ''" "c \<noteq> TAB"
    using field_text_first [of fs body] Cons.prems(3) by (metis list.set_intros(2))
  have "hp_input (hc_parser s) @ concat cs = n @ '': '' @ v @ [CR, LF] @ c # rest"
    using Cons.prems(4) c(1) by (simp add: f field_text_def)
  from receive_field [OF Cons.prems(1,2) _ this c(2,3) Cons.prems(5)] Cons.prems(3) obtain s' ds where
    s': "client_run cs s = client_run ds s'" "hp_ok (hc_parser s')" "hp_state (hc_parser s') = ParserHeader"
    "hp_input (hc_parser s') @ concat ds = c # rest" "length (concat ds) \<le> bv_capacity (hp_buffer (hc_parser s'))"
    "hc_events s' = hc_events s @ field_events [(n, v)]" "hc_connection_state s' = note_connection (n, v) (hc_connection_state s)"
    by (auto simp: f)
  then show ?case using Cons.IH [of s' ds] Cons.prems(3) c(1) by (simp add: f field_events_def)
qed

definition response_text :: "string \<Rightarrow> string \<Rightarrow> string \<Rightarrow> (string \<times> string) list \<Rightarrow> string" where
  "response_text ver st reason fs = ver @ '' '' @ st @ '' '' @ reason @ [CR, LF] @ field_text fs @ [CR, LF]"

definition response_ok :: "string \<Rightarrow> string \<Rightarrow> string \<Rightarrow> (string \<times> string) list \<Rightarrow> bool" where
  "response_ok ver st reason fs \<longleftrightarrow> CHR '' '' \<notin> set ver \<and> take 2 ver \<noteq> [CR, LF] \<and> st \<noteq> [] \<and> CHR '' '' \<notin> set st \<and>
     CR \<notin> set reason \<and> (reason \<noteq> [] \<longrightarrow> hd reason \<noteq> CHR '' '') \<and> fs \<noteq> [] \<and> (\<forall>f \<in> set fs. field_ok f)"

lemma receive_start_line:
  assumes "hp_ok (hc_parser s)" and "hp_state (hc_parser s) = ParserStartLine"
    and ok: "CHR '' '' \<notin> set ver" "take 2 ver \<noteq> [CR, LF]" "st \<noteq> []" "CHR '' '' \<notin> set st" "CR \<notin> set reason"
      "reason \<noteq> [] \<Longrightarrow> hd reason \<noteq> CHR '' ''" "\<not> isspace c"
    and "hp_input (hc_parser s) @ concat cs = ver @ '' '' @ st @ '' '' @ reason @ [CR, LF] @ c # rest"
    and "length (concat cs) \<le> bv_capacity (hp_buffer (hc_parser s))"
  shows "\<exists>s' ds. client_run cs s = client_run ds s' \<and> hp_ok (hc_parser s') \<and> hp_state (hc_parser s') = ParserHeader \<and>
    hp_input (hc_parser s') @ concat ds = c # rest \<and> length (concat ds) \<le> bv_capacity (hp_buffer (hc_parser s')) \<and>
    hc_events s' = hc_events s @ [EvStart ver st reason] \<and> hc_connection_state s' = hc_connection_state s"
  using assms(1,2,10,11)
proof (induction cs arbitrary: s rule: length_induct)
  case (1 cs)
  have "hp_input (hc_parser s) @ concat cs = (ver @ '' '' @ st @ '' '' @ reason @ [CR, LF, c]) @ rest" using "1.prems"(3) by simp
  then show ?case
  proof (cases rule: line_arrived)
    case (all r)
    have input: "hp_input (hc_parser s) = ver @ replicate (Suc 0) (CHR '' '') @ st @ replicate (Suc 0) (CHR '' '') @ reason @
        [CR, LF] @ c # r"
      using all(1) by simp
    obtain p where p: "parse_start_line (hc_parser s) = Some (HPause, p)" "hp_ok p" "slice_text (hp_mem p) (hp_first p) = ver"
        "slice_text (hp_mem p) (hp_second p) = st" "slice_text (hp_mem p) (hp_third p) = reason" "hp_input p = c # r"
        "hp_state p = ParserHeader" "hp_result p = Some ParserStartLine"
      using parse_start_line_text [OF "1.prems"(1) input ok] by blast
    let ?s = "s\<lparr>hc_parser := p, hc_events := hc_events s @ [EvStart ver st reason]\<rparr>"
    have "client_parse_header (s\<lparr>hc_parser := p\<rparr>) = Some (CReceive, ?s)"
      using p by (simp add: client_parse_header_def client_version_def client_status_def client_reason_def)
    then have "client_run cs s = client_run cs ?s"
      using p(1) "1.prems"(2) by (intro receive_pause) (auto simp: parser_parse_def)
    then show ?thesis
      using p pause_keeps_capacity(1) [OF p(1)] all(2) "1.prems"(4) by (intro exI [of _ ?s] exI [of _ cs]) simp
  next
    case (part z)
    have "parser_parse (hc_parser s) = Some (parser_read_more (hc_parser s))"
      using partial_start_line [OF "1.prems"(1) part(1,2) ok(1,3-6)] "1.prems"(2) by (simp add: parser_parse_def)
    from read_continues [OF "1.prems"(1) this "1.prems"(4) part(3)] obtain d ds p where
      "cs = d # ds" "client_run cs s = client_run ds (s\<lparr>hc_parser := p\<rparr>)" "hp_ok p"
      "hp_input p @ concat ds = hp_input (hc_parser s) @ concat cs" "hp_state p = hp_state (hc_parser s)"
      "length (concat ds) \<le> bv_capacity (hp_buffer p)" by blast
    then show ?thesis using "1.IH" [rule_format, of ds "s\<lparr>hc_parser := p\<rparr>"] "1.prems"(2,3) by simp
  qed
qed

lemma receive_response:
  assumes "hp_ok (hc_parser s)" and "hp_state (hc_parser s) = ParserStartLine" and ok: "response_ok ver st reason fs"
    and msg: "hp_input (hc_parser s) @ concat cs = response_text ver st reason fs @ body"
    and room: "length (concat cs) \<le> bv_capacity (hp_buffer (hc_parser s))"
  shows "received (client_run cs s) (hc_events s @ EvStart ver st reason # field_events fs)
    (fold note_connection fs (hc_connection_state s)) body"
proof -
  have fs: "\<forall>f \<in> set fs. field_ok f" "fs \<noteq> []" using ok by (auto simp: response_ok_def)
  obtain c rest where c: "field_text fs @ [CR, LF] @ body = c # rest" "\<not> isspace c"
    using field_text_first [OF fs(1), of body] fs(2) by metis
  have "hp_input (hc_parser s) @ concat cs = ver @ '' '' @ st @ '' '' @ reason @ [CR, LF] @ c # rest"
    using msg c(1) by (simp add: response_text_def)
  from receive_start_line [OF assms(1,2) _ _ _ _ _ _ c(2) this room] ok obtain s' ds where
    s': "client_run cs s = client_run ds s'" "hp_ok (hc_parser s')" "hp_state (hc_parser s') = ParserHeader"
    "hp_input (hc_parser s') @ concat ds = c # rest" "length (concat ds) \<le> bv_capacity (hp_buffer (hc_parser s'))"
    "hc_events s' = hc_events s @ [EvStart ver st reason]" "hc_connection_state s' = hc_connection_state s"
    by (auto simp: response_ok_def)
  then show ?thesis using receive_fields [OF s'(2,3) fs(1) _ s'(5), of body] c(1) by simp
qed

text \<open>
  C6. Receiving a response. However the stream cuts a well-formed response into chunks, a client whose
  buffer has room for it reports the version, the status and the reason, then every field in order with
  the white space around its value removed, and pauses with the body left unread, in its buffer and in
  the chunks to come. Its connection state is that of the last field named \<^verbatim>\<open>Connection\<close>.
\<close>

theorem client_receives_response:
  assumes "hp_ok (hc_parser s)" and "hp_state (hc_parser s) = ParserStartLine" and "response_ok ver st reason fs"
    and "hp_input (hc_parser s) @ concat cs = response_text ver st reason fs @ body"
    and "length (concat cs) \<le> bv_capacity (hp_buffer (hc_parser s))"
  shows "\<exists>s' ds. client_run cs s = Some (CPause, s', ds) \<and> hc_events s' = hc_events s @ EvStart ver st reason # field_events fs \<and>
    hc_connection_state s' = fold note_connection fs (hc_connection_state s) \<and> hp_input (hc_parser s') @ concat ds = body"
  using receive_response [OF assms] by (auto simp: received_def)

definition sample_client :: "client_buffer option list \<Rightarrow> http_client" where
  "sample_client answers = \<lparr>hc_connection_state = ConnectionUnknown, hc_buffer_request = None, hc_buffer_response = None,
     hc_builder = builder_new [] (bv_new 0 0 0 0),
     hc_parser = (sample_parser [] ParserStartLine)\<lparr>hp_mem := replicate 64 (CHR ''-''), hp_buffer := bv_new 0 64 0 0\<rparr>,
     hc_allocate = None, hc_alloc = answers, hc_events = []\<rparr>"

definition sample_chunks :: "string list" where
  "sample_chunks = [''HTTP/1.1 2'', ''00 OK'' @ [CR], [LF] @ ''A: b'' @ [CR, LF], [CR], [LF] @ ''body'']"

lemma sample_response:
  "response_ok ''HTTP/1.1'' ''200'' ''OK'' [(''A'', ''b'')]"
  "concat sample_chunks = response_text ''HTTP/1.1'' ''200'' ''OK'' [(''A'', ''b'')] @ ''body''"
  by (auto simp: response_ok_def field_ok_def isspace_def CR_def TAB_def LF_def)
    (simp add: sample_chunks_def response_text_def field_text_def)

theorem client_receives_response_witness:
  "\<exists>s' ds. client_run sample_chunks (sample_client []) = Some (CPause, s', ds) \<and>
     hc_events s' = [EvStart ''HTTP/1.1'' ''200'' ''OK'', EvField ''A'' ''b''] \<and> hp_input (hc_parser s') @ concat ds = ''body''"
proof -
  have p: "hp_ok (hc_parser (sample_client []))" "hp_state (hc_parser (sample_client [])) = ParserStartLine"
      "hp_input (hc_parser (sample_client [])) = []" "bv_capacity (hp_buffer (hc_parser (sample_client []))) = 64"
    by (simp_all add: sample_client_def hp_ok_def bv_ok_def bv_new_def hp_input_def bv_size_def bv_capacity_def
        sub64_exact sample_parser_def)
  have "trim ''b'' = ''b''" by (simp add: trim_def isspace_def CR_def TAB_def LF_def)
  moreover have "length (concat sample_chunks) \<le> 64" by (simp add: sample_chunks_def)
  ultimately show ?thesis
    using client_receives_response [OF p(1,2) sample_response(1), of sample_chunks "''body''"] p(3,4) sample_response(2)
    by (auto simp: field_events_def) (auto simp: sample_client_def)
qed

section \<open>An exchange\<close>

lemma initialize_ok:
  assumes "hc_alloc s = Some (wm, wv) # Some (rm, rv) # answers"
  shows "\<exists>s1. client_initialize False s = Some (CPause, s1) \<and> hc_builder s1 = builder_initialize wm wv (hc_builder s) \<and>
    hc_parser s1 = snd (parser_initialize rm rv (hc_parser s)) \<and> hc_events s1 = hc_events s \<and>
    hc_connection_state s1 = hc_connection_state s"
  using assms by (simp add: client_initialize_def client_allocate_buffer_def client_take_answer_def client_init_def)

lemma send_request_ok:
  assumes "request_header_done (hc_builder s) = Some (Successful, b)"
  shows "\<exists>s'. client_send_request s = Some (CAwaitSend, s') \<and> hc_builder s' = b \<and> hc_parser s' = hc_parser s \<and>
    hc_events s' = hc_events s"
  using assms by (simp add: client_send_request_def Let_def)

text \<open>
  A whole exchange. A client that gets its two buffers pauses ready to write; the request it then writes
  is sent if it fits, and the text in the request buffer is the text of that request; the response, which
  arrives in chunks, is reported as in the message. The two directions do not disturb each other.
\<close>

theorem client_exchange:
  assumes "hc_alloc s = Some (wm, wv) # Some (rm, rv) # answers"
    and "\<not> hb_badbit (hc_builder s)" and "\<not> hb_overflow (hc_builder s)" and "\<not> hb_custom_user_agent (hc_builder s)"
    and "bv_ok wv" and "bv_memory wv + bv_memory_size wv \<le> length wm" and "bv_size wv = 0"
    and "length (request_text m t v fs) \<le> bv_capacity wv"
    and "bv_ok rv" and "bv_memory rv + bv_memory_size rv \<le> length rm" and "bv_size rv = 0"
    and "response_ok ver st reason gs" and "concat cs = response_text ver st reason gs @ body" and "length (concat cs) \<le> bv_capacity rv"
  shows "\<exists>s1 b s2 s3 ds. client_initialize False s = Some (CPause, s1) \<and>
    (request_line m [t] v (hc_builder s1) \<bind> header_lines fs) = Some b \<and>
    client_send_request (s1\<lparr>hc_builder := b\<rparr>) = Some (CAwaitSend, s2) \<and> hb_text (hc_builder s2) = request_text m t v fs \<and>
    client_run cs s2 = Some (CPause, s3, ds) \<and> hc_events s3 = hc_events s @ EvStart ver st reason # field_events gs \<and>
    hp_input (hc_parser s3) @ concat ds = body"
proof -
  obtain s1 where s1: "client_initialize False s = Some (CPause, s1)" "hc_builder s1 = builder_initialize wm wv (hc_builder s)"
      "hc_parser s1 = snd (parser_initialize rm rv (hc_parser s))" "hc_events s1 = hc_events s"
    using initialize_ok [OF assms(1)] by blast
  have b0: "hb_ok (hc_builder s1)" "\<not> hb_custom_user_agent (hc_builder s1)" "\<not> hb_overflow (hc_builder s1)"
      "hb_room (hc_builder s1) = bv_capacity wv" "hb_text (hc_builder s1) = []"
    using assms(2-7) by (simp_all add: s1(2) builder_initialize_def hb_ok_def hb_room_def hb_text_def)
  obtain b' where b': "build_request m t v fs (hc_builder s1) = Some (Successful, b')" "hb_text b' = request_text m t v fs"
    using build_request_ok [OF b0(1,2), of m t v fs] b0(3-5) assms(8) by (auto simp: wrote_def)
  then obtain b where b: "(request_line m [t] v (hc_builder s1) \<bind> header_lines fs) = Some b"
      "request_header_done b = Some (Successful, b')"
    by (auto simp: build_request_def bind_eq_Some_conv)
  obtain s2 where s2: "client_send_request (s1\<lparr>hc_builder := b\<rparr>) = Some (CAwaitSend, s2)" "hc_builder s2 = b'"
      "hc_parser s2 = hc_parser s1" "hc_events s2 = hc_events s"
    using send_request_ok [of "s1\<lparr>hc_builder := b\<rparr>" b'] b(2) s1(4) by auto
  have p: "hp_ok (hc_parser s2)" "hp_state (hc_parser s2) = ParserStartLine" "hp_input (hc_parser s2) = []"
      "bv_capacity (hp_buffer (hc_parser s2)) = bv_capacity rv"
    using assms(9-11) by (simp_all add: s2(3) s1(3) parser_initialize_def parser_finalize_def Let_def hp_ok_def hp_input_def)
  obtain s3 ds where "client_run cs s2 = Some (CPause, s3, ds)" "hp_input (hc_parser s3) @ concat ds = body"
      "hc_events s3 = hc_events s @ EvStart ver st reason # field_events gs"
    using receive_response [OF p(1,2) assms(12), of cs body] p(3,4) assms(13,14) s2(4) by (auto simp: received_def)
  then show ?thesis using s1(1) b(1) s2 b'(2) by blast
qed

theorem client_exchange_witness:
  "\<exists>s1 b s2 s3 ds. client_initialize False (sample_client [Some (replicate 99 (CHR ''-''), bv_new 0 99 0 0),
       Some (replicate 99 (CHR ''-''), bv_new 0 99 0 0)]) = Some (CPause, s1) \<and>
    (request_line ''GET'' [''/''] ''HTTP/1.1'' (hc_builder s1) \<bind> header_lines []) = Some b \<and>
    client_send_request (s1\<lparr>hc_builder := b\<rparr>) = Some (CAwaitSend, s2) \<and>
    hb_text (hc_builder s2) = request_text ''GET'' ''/'' ''HTTP/1.1'' [] \<and>
    client_run sample_chunks s2 = Some (CPause, s3, ds) \<and> hp_input (hc_parser s3) @ concat ds = ''body''"
proof -
  let ?v = "bv_new 0 99 0 0" and ?m = "replicate 99 (CHR ''-'')"
  let ?s = "sample_client [Some (?m, ?v), Some (?m, ?v)]"
  have v: "bv_ok ?v" "bv_memory ?v + bv_memory_size ?v \<le> length ?m" "bv_size ?v = 0" "bv_capacity ?v = 99"
    by (simp_all add: bv_ok_def bv_new_def bv_size_def bv_capacity_def sub64_exact)
  have s: "hc_alloc ?s = [Some (?m, ?v), Some (?m, ?v)]" "\<not> hb_badbit (hc_builder ?s)" "\<not> hb_overflow (hc_builder ?s)"
      "\<not> hb_custom_user_agent (hc_builder ?s)"
    by (simp_all add: sample_client_def builder_new_def)
  have l: "length (request_text ''GET'' ''/'' ''HTTP/1.1'' []) \<le> bv_capacity ?v" "length (concat sample_chunks) \<le> bv_capacity ?v"
    unfolding v(4) by (simp_all add: request_text_def request_fields_def field_text_def sample_chunks_def)
  show ?thesis
    using client_exchange [OF s v(1-3) l(1) v(1-3) sample_response l(2)] by blast
qed

text \<open>
  Failures. The end of the stream in the middle of a response is reported as the client's own error
  \<^verbatim>\<open>EndOfStream\<close>; every other error of the stream is passed on as it is. A client that runs out of buffers,
  or whose request does not fit, throws.
\<close>

theorem client_failures:
  assumes "e_category e \<noteq> None"
  shows "\<exists>s'. client_stream_error e s = Some (CThrow
      (if e_category e = Some category_stream \<and> e_value e = value_ErrorStream ErrorStream_EndOfStream
       then make_error_http_client ErrorHTTPClient_EndOfStream else e), s')"
  using assms by (auto simp: client_stream_error_def parser_handle_error_def client_parse_header_def parser_finalize_def)

theorem client_failures_witness:
  "\<exists>s'. client_stream_error (make_error_stream ErrorStream_EndOfStream) (sample_client []) =
     Some (CThrow (make_error_http_client ErrorHTTPClient_EndOfStream), s')"
  using client_failures [of "make_error_stream ErrorStream_EndOfStream" "sample_client []"]
  by (auto simp: make_error_stream_def Error_make_def)

text \<open>
  A client that waits for its buffers fails when the first one has to be waited for: the result of that
  allocation is not cleared, so the second buffer is taken from it and is null.
\<close>

lemma waiting_client_fails:
  assumes "hc_buffer_request s = None" and "hc_buffer_response s = None" and "hc_allocate s = Some (Some x)"
  shows "client_allocate_no_error s = None"
  using assms by (simp add: client_allocate_no_error_def client_release_def)

end
