(* ===== verification/Jinx_Task.thy ===== *)
theory Jinx_Task
  imports Jinx_Error Jinx_LinkedList "HOL-Library.Monad_Syntax"
begin

text \<open>
  The execution engine: awaitables (\<^verbatim>\<open>include/jinx/async/awaitable.hpp\<close> and
  \<^verbatim>\<open>awaitable.ipp\<close>), \<^verbatim>\<open>Awaitable::run\<close> (\<^verbatim>\<open>src/async.cpp\<close>), tasks, the task queue and
  the loop (\<^verbatim>\<open>include/jinx/async/task.hpp\<close>).

  All awaitables live in one store. \<open>Obj n\<close> is an awaitable object of the client, \<open>TaskA t\<close>
  the base subobject of task \<open>t\<close> (a \<^verbatim>\<open>Task\<close> is an \<^verbatim>\<open>Awaitable\<close>). The virtual functions
  of client objects are parameters, collected in a \<open>vtable\<close>: \<^verbatim>\<open>async_poll\<close> and
  \<^verbatim>\<open>handle_error\<close> are programs that call operations of the engine, see their results, and end
  in one of the ways the protected members of \<^verbatim>\<open>Awaitable\<close> offer; \<^verbatim>\<open>async_finalize\<close> changes
  the state of the client and ends in \<^verbatim>\<open>Awaitable::async_finalize\<close>. The state of the client
  is an arbitrary type.

  \<open>None\<close> is a null dereference, an abort or an endless loop; a C++ exception that leaves a
  function is the value \<open>Exn\<close>.
\<close>

section \<open>Data\<close>

datatype ControlState = Ready | Raise | Suspended | Yield | Pause | Passthrough | Exited

primrec value_ControlState :: "ControlState \<Rightarrow> int" where
  "value_ControlState Ready = 0"
| "value_ControlState Raise = 1"
| "value_ControlState Suspended = 2"
| "value_ControlState Yield = 4"
| "value_ControlState Pause = 8"
| "value_ControlState Passthrough = 16"
| "value_ControlState Exited = 24"

datatype awt = Obj nat | TaskA nat

record awaitable =
  aw_task :: "nat option"
  aw_caller :: "awt option"
  aw_error :: Error
  aw_next :: "awt option"
  aw_pausable :: bool
  aw_prev :: "awt option"

record task =
  t_refc :: int
  t_state :: ControlState
  t_top :: "awt option"
  t_queued :: bool
  t_exception :: "nat option"
  t_exc :: "awt option"
  t_destroyed :: bool

record 'u world =
  aws :: "awt \<Rightarrow> awaitable"
  tasks :: "nat \<Rightarrow> task"
  tasks_all :: "nat linked_list"
  tasks_ready :: "nat tslist"
  running_task :: "nat option"
  wakeups :: nat
  exit_loop :: bool
  user :: 'u

datatype exn = CxxException nat | JinxError Error

datatype 'r res = Val 'r | Exn exn

datatype op =
  OpResume awt Error
| OpSpawn nat
| OpCancel nat
| OpAddHook nat nat
| OpRemoveHook nat nat

datatype reply = RResult SuccessfulFailed | RCancel ErrorCancel | RVoid

datatype action =
  ReturnA
| SuspendA
| YieldA
| ThrowA Error
| AwaitA nat
| PauseA
| RaiseA
| PassthroughA
| CxxThrowA nat
| ExitA

datatype 'u prog = Done 'u action | Do op "reply \<Rightarrow> 'u prog"

record 'u vtable =
  vt_poll :: "nat \<Rightarrow> 'u \<Rightarrow> 'u prog"
  vt_error :: "nat \<Rightarrow> Error \<Rightarrow> 'u \<Rightarrow> 'u prog"
  vt_final :: "nat \<Rightarrow> 'u \<Rightarrow> 'u"

section \<open>Awaitables\<close>

definition upd_aw :: "awt \<Rightarrow> (awaitable \<Rightarrow> awaitable) \<Rightarrow> 'u world \<Rightarrow> 'u world" where
  "upd_aw a f w = w\<lparr>aws := (aws w)(a := f (aws w a))\<rparr>"

definition upd_task :: "nat \<Rightarrow> (task \<Rightarrow> task) \<Rightarrow> 'u world \<Rightarrow> 'u world" where
  "upd_task t f w = w\<lparr>tasks := (tasks w)(t := f (tasks w t))\<rparr>"

definition Awaitable_finalize :: "awt \<Rightarrow> 'u world \<Rightarrow> 'u world" where
  "Awaitable_finalize a w =
     upd_aw a (\<lambda>x. x\<lparr>aw_task := None, aw_error := Error_default,
                     aw_prev := (if aw_pausable x then None else aw_prev x)\<rparr>) w"

definition async_finalize :: "'u vtable \<Rightarrow> awt \<Rightarrow> 'u world \<Rightarrow> 'u world" where
  "async_finalize vt a w =
     (case a of
        Obj n \<Rightarrow> Awaitable_finalize a (w\<lparr>user := vt_final vt n (user w)\<rparr>)
      | TaskA t \<Rightarrow> Awaitable_finalize a w)"

definition async_suspend :: "awt \<Rightarrow> 'u world \<Rightarrow> (ControlState \<times> 'u world) option" where
  "async_suspend a w =
     do { t \<leftarrow> aw_task (aws w a);
          Some (Suspended, upd_task t (\<lambda>x. x\<lparr>t_top := Some a\<rparr>) w) }"

definition async_return :: "awt \<Rightarrow> 'u world \<Rightarrow> (ControlState \<times> 'u world) option" where
  "async_return a w =
     do { t \<leftarrow> aw_task (aws w a);
          Some (Ready, upd_task t (\<lambda>x. x\<lparr>t_top := aw_caller (aws w a)\<rparr>) w) }"

definition async_yield :: "awt \<Rightarrow> 'u world \<Rightarrow> (ControlState \<times> 'u world) option" where
  "async_yield a w =
     do { t \<leftarrow> aw_task (aws w a);
          Some (Yield, upd_task t (\<lambda>x. x\<lparr>t_top := Some a\<rparr>) w) }"

definition async_throw :: "Error \<Rightarrow> awt \<Rightarrow> 'u world \<Rightarrow> ControlState \<times> 'u world" where
  "async_throw e a w =
     (let w1 = (case aw_task (aws w a) of
                  None \<Rightarrow> w
                | Some t \<Rightarrow> upd_task t (\<lambda>x. x\<lparr>t_top := Some a\<rparr>) w)
      in (Raise,
          upd_aw a (\<lambda>x. x\<lparr>aw_error :=
            (if e_value e = 0 then make_error_awaitable ErrorAwaitable_InvalidErrorCode else e)\<rparr>) w1))"

definition async_pause :: "awt \<Rightarrow> 'u world \<Rightarrow> (ControlState \<times> 'u world) option" where
  "async_pause a w =
     do { c \<leftarrow> aw_caller (aws w a);
          let p = aw_caller (aws w c);
          let w1 = upd_aw a (\<lambda>x. x\<lparr>aw_prev := p\<rparr>) w;
          let w2 = upd_aw c (\<lambda>x. x\<lparr>aw_caller := Some a\<rparr>) w1;
          t \<leftarrow> aw_task (aws w2 a);
          let w3 = upd_task t (\<lambda>x. x\<lparr>t_top := aw_caller (aws w2 a)\<rparr>) w2;
          Some (Pause, upd_aw a (\<lambda>x. x\<lparr>aw_caller := aw_prev x\<rparr>) w3) }"

definition async_call_link :: "awt \<Rightarrow> nat \<Rightarrow> 'u world \<Rightarrow> 'u world" where
  "async_call_link a c w =
     upd_aw (Obj c) (\<lambda>x. x\<lparr>aw_caller := Some a, aw_task := aw_task (aws w a)\<rparr>) w"

section \<open>The task queue\<close>

definition set_error :: "nat \<Rightarrow> Error \<Rightarrow> 'u world \<Rightarrow> 'u world" where
  "set_error t e w = upd_aw (TaskA t) (\<lambda>x. x\<lparr>aw_error := e\<rparr>) w"

definition task_ref :: "nat \<Rightarrow> 'u world \<Rightarrow> 'u world option" where
  "task_ref t w =
     (if t_refc (tasks w t) \<le> 0 then None
      else Some (upd_task t (\<lambda>x. x\<lparr>t_refc := t_refc x + 1\<rparr>) w))"

definition task_unref :: "nat \<Rightarrow> 'u world \<Rightarrow> 'u world option" where
  "task_unref t w =
     (let refc = t_refc (tasks w t);
          w1 = upd_task t (\<lambda>x. x\<lparr>t_refc := t_refc x - 1\<rparr>) w
      in if refc = 1 then Some (upd_task t (\<lambda>x. x\<lparr>t_destroyed := True\<rparr>) w1)
         else if refc = 0 then None
         else Some w1)"

definition Task_init :: "nat \<Rightarrow> nat \<Rightarrow> 'u world \<Rightarrow> 'u world" where
  "Task_init t n w =
     (let w1 = upd_aw (TaskA t) (\<lambda>x. x\<lparr>aw_task := Some t, aw_caller := Some (Obj n),
                                       aw_error := Error_default\<rparr>) w;
          w2 = upd_task t (\<lambda>x. x\<lparr>t_state := Suspended, t_top := Some (Obj n), t_queued := False,
                                 t_exception := None, t_exc := None\<rparr>) w1
      in upd_aw (Obj n) (\<lambda>x. x\<lparr>aw_task := Some t, aw_caller := Some (TaskA t)\<rparr>) w2)"

definition TaskQueue_schedule ::
    "nat \<Rightarrow> Error \<Rightarrow> 'u world \<Rightarrow> SuccessfulFailed \<times> 'u world" where
  "TaskQueue_schedule t e w =
     (let state = t_state (tasks w t);
          w1 = upd_task t (\<lambda>x. x\<lparr>t_state := Ready\<rparr>) w
      in if state = Ready then (Failed, w1)
         else if state = Exited then (Failed, upd_task t (\<lambda>x. x\<lparr>t_state := Exited\<rparr>) w1)
         else let w2 = set_error t e w1
              in (Successful, w2\<lparr>tasks_ready := ts_push t (tasks_ready w2)\<rparr>))"

definition Loop_schedule :: "nat \<Rightarrow> Error \<Rightarrow> 'u world \<Rightarrow> SuccessfulFailed \<times> 'u world" where
  "Loop_schedule t e w =
     (case TaskQueue_schedule t e w of
        (Failed, w1) \<Rightarrow> (Failed, w1)
      | (Successful, w1) \<Rightarrow> (Successful, w1\<lparr>wakeups := wakeups w1 + 1\<rparr>))"

definition Task_resume :: "nat \<Rightarrow> Error \<Rightarrow> 'u world \<Rightarrow> SuccessfulFailed \<times> 'u world" where
  "Task_resume t e w = (if \<not> t_queued (tasks w t) then (Failed, w) else Loop_schedule t e w)"

definition async_resume :: "awt \<Rightarrow> Error \<Rightarrow> 'u world \<Rightarrow> SuccessfulFailed \<times> 'u world" where
  "async_resume a e w =
     (case aw_task (aws w a) of None \<Rightarrow> (Failed, w) | Some t \<Rightarrow> Task_resume t e w)"

definition TaskQueue_push :: "nat \<Rightarrow> 'u world \<Rightarrow> (SuccessfulFailed \<times> 'u world) option" where
  "TaskQueue_push t w =
     do { w1 \<leftarrow> task_ref t w;
          let w2 = upd_task t (\<lambda>x. x\<lparr>t_queued := True\<rparr>) w1;
          let (r, l) = push_front t (tasks_all w2);
          Some (r, w2\<lparr>tasks_all := l\<rparr>) }"

definition TaskQueue_pop :: "nat \<Rightarrow> 'u world \<Rightarrow> (SuccessfulFailed \<times> 'u world) option" where
  "TaskQueue_pop t w =
     do { (r, l) \<leftarrow> erase (Node t) (tasks_all w);
          let w1 = w\<lparr>tasks_all := l\<rparr>;
          if r = Failed then Some (Failed, w1)
          else do { w2 \<leftarrow> task_unref t (upd_task t (\<lambda>x. x\<lparr>t_queued := False\<rparr>) w1);
                    Some (Successful, w2) } }"

definition TaskQueue_spawn :: "nat \<Rightarrow> 'u world \<Rightarrow> (SuccessfulFailed \<times> 'u world) option" where
  "TaskQueue_spawn t w =
     do { (r, w1) \<leftarrow> TaskQueue_push t w;
          if r = Failed then Some (Failed, w1) else Some (Loop_schedule t Error_default w1) }"

partial_function (option) unwind_stack :: "'u vtable \<Rightarrow> nat \<Rightarrow> 'u world \<Rightarrow> 'u world option" where
  "unwind_stack vt t w =
     (case t_top (tasks w t) of
        None \<Rightarrow> Some w
      | Some a \<Rightarrow>
          if a = TaskA t then Some w
          else let caller = aw_caller (aws w a)
               in unwind_stack vt t
                    (upd_task t (\<lambda>x. x\<lparr>t_top := caller\<rparr>) (async_finalize vt a w)))"

definition TaskQueue_cancel :: "'u vtable \<Rightarrow> nat \<Rightarrow> 'u world \<Rightarrow> (ErrorCancel \<times> 'u world) option" where
  "TaskQueue_cancel vt t w =
     (if running_task w = Some t then Some (ErrorCancel_CancelRunningTask, w)
      else do { w1 \<leftarrow> unwind_stack vt t w;
                let state = t_state (tasks w1 t);
                let w2 = upd_task t (\<lambda>x. x\<lparr>t_state := Ready\<rparr>) w1;
                if state = Ready
                then Some (ErrorCancel_DeferredDequeue, set_error t Error_default w2)
                else do { (_, w3) \<leftarrow> TaskQueue_pop t (upd_task t (\<lambda>x. x\<lparr>t_state := Exited\<rparr>) w2);
                          Some (ErrorCancel_NoError, w3) } })"

definition async_cancel :: "'u vtable \<Rightarrow> nat \<Rightarrow> 'u world \<Rightarrow> (ErrorCancel \<times> 'u world) option" where
  "async_cancel vt t w =
     (if \<not> t_queued (tasks w t) then Some (ErrorCancel_CancelDequeuedTask, w)
      else TaskQueue_cancel vt t w)"

definition add_hook :: "nat \<Rightarrow> nat \<Rightarrow> 'u world \<Rightarrow> 'u world option" where
  "add_hook t h w =
     (let w1 = upd_aw (Obj h) (\<lambda>x. x\<lparr>aw_task := Some t, aw_next := aw_caller (aws w (TaskA t)),
                                     aw_caller := Some (TaskA t)\<rparr>) w
      in do { n \<leftarrow> aw_next (aws w1 (Obj h));
              Some (upd_aw (TaskA t) (\<lambda>x. x\<lparr>aw_caller := Some (Obj h)\<rparr>)
                     (upd_aw n (\<lambda>x. x\<lparr>aw_caller := Some (Obj h)\<rparr>) w1)) })"

definition remove_hook :: "nat \<Rightarrow> nat \<Rightarrow> 'u world \<Rightarrow> 'u world option" where
  "remove_hook t h w =
     (if aw_task (aws w (Obj h)) \<noteq> Some t then None
      else do { n \<leftarrow> aw_next (aws w (Obj h));
                let w1 = upd_aw n (\<lambda>x. x\<lparr>aw_caller := aw_caller (aws w (Obj h))\<rparr>) w;
                w2 \<leftarrow> (if aw_caller (aws w1 (Obj h)) = Some (TaskA t)
                       then Some (upd_aw (TaskA t) (\<lambda>x. x\<lparr>aw_caller := Some n\<rparr>) w1)
                       else do { p \<leftarrow> aw_caller (aws w1 (Obj h));
                                 Some (upd_aw p (\<lambda>x. x\<lparr>aw_next := Some n\<rparr>) w1) });
                Some (upd_aw (Obj h) (\<lambda>x. x\<lparr>aw_next := None\<rparr>) w2) })"

section \<open>Running\<close>

definition exec_op :: "'u vtable \<Rightarrow> op \<Rightarrow> 'u world \<Rightarrow> (reply \<times> 'u world) option" where
  "exec_op vt opr w =
     (case opr of
        OpResume a e \<Rightarrow> (case async_resume a e w of (r, w1) \<Rightarrow> Some (RResult r, w1))
      | OpSpawn t \<Rightarrow> map_option (map_prod RResult (\<lambda>x. x)) (TaskQueue_spawn t w)
      | OpCancel t \<Rightarrow> map_option (map_prod RCancel (\<lambda>x. x)) (async_cancel vt t w)
      | OpAddHook t h \<Rightarrow> map_option (Pair RVoid) (add_hook t h w)
      | OpRemoveHook t h \<Rightarrow> map_option (Pair (RResult Successful)) (remove_hook t h w))"

primrec run_prog :: "'u vtable \<Rightarrow> 'u prog \<Rightarrow> 'u world \<Rightarrow> (action \<times> 'u world) option" where
  "run_prog vt (Done u act) w = Some (act, w\<lparr>user := u\<rparr>)"
| "run_prog vt (Do opr k) w =
     do { (r, w1) \<leftarrow> exec_op vt opr w; run_prog vt (k r) w1 }"

text \<open>The end of a virtual function, other than a call of another awaitable.\<close>

fun do_action :: "action \<Rightarrow> awt \<Rightarrow> 'u world \<Rightarrow> (ControlState res \<times> 'u world) option" where
  "do_action ReturnA a w = map_option (map_prod Val (\<lambda>x. x)) (async_return a w)"
| "do_action SuspendA a w = map_option (map_prod Val (\<lambda>x. x)) (async_suspend a w)"
| "do_action YieldA a w = map_option (map_prod Val (\<lambda>x. x)) (async_yield a w)"
| "do_action (ThrowA e) a w = Some (map_prod Val (\<lambda>x. x) (async_throw e a w))"
| "do_action PauseA a w = map_option (map_prod Val (\<lambda>x. x)) (async_pause a w)"
| "do_action RaiseA a w = Some (Val Raise, w)"
| "do_action PassthroughA a w = Some (Val Passthrough, w)"
| "do_action (CxxThrowA x) a w = Some (Exn (CxxException x), w)"
| "do_action ExitA a w =
     (case a of
        TaskA t \<Rightarrow> Some (Val Exited, upd_task t (\<lambda>x. x\<lparr>t_top := None, t_state := Exited\<rparr>) w)
      | Obj _ \<Rightarrow> None)"
| "do_action (AwaitA c) a w = None"

text \<open>
  The virtual call of one iteration of \<^verbatim>\<open>Awaitable::run\<close>: the pending error is moved out and
  handed to \<^verbatim>\<open>handle_error\<close>, or \<^verbatim>\<open>async_poll\<close> runs. A task's own versions of both end it.
\<close>

definition virtual_call :: "'u vtable \<Rightarrow> awt \<Rightarrow> 'u world \<Rightarrow> (action \<times> 'u world) option" where
  "virtual_call vt a w =
     (let e = aw_error (aws w a)
      in if Error_bool e
         then let w1 = upd_aw a (\<lambda>x. x\<lparr>aw_error := snd (Error_move e)\<rparr>) w
              in (case a of
                    Obj n \<Rightarrow> run_prog vt (vt_error vt n (fst (Error_move e)) (user w1)) w1
                  | TaskA t \<Rightarrow> Some (ExitA, w1))
         else (case a of
                 Obj n \<Rightarrow> run_prog vt (vt_poll vt n (user w)) w
               | TaskA t \<Rightarrow> Some (ExitA, w)))"

datatype flow = Leave "ControlState res" | Cont ControlState

definition after_error ::
    "'u vtable \<Rightarrow> awt \<Rightarrow> Error \<Rightarrow> ControlState res \<Rightarrow> 'u world \<Rightarrow> (flow \<times> 'u world) option" where
  "after_error vt a e r w =
     (case r of
        Exn x \<Rightarrow> Some (Leave (Exn x), w)
      | Val state \<Rightarrow>
          if state = Raise \<or> state = Passthrough
          then do { t \<leftarrow> aw_task (aws w a);
                    c \<leftarrow> aw_caller (aws w a);
                    let w1 = (if t_exc (tasks w t) = None
                              then upd_task t (\<lambda>x. x\<lparr>t_exc := Some a\<rparr>) w else w);
                    let w2 = upd_aw c (\<lambda>x. x\<lparr>aw_error := e\<rparr>) w1;
                    let w3 = upd_task t (\<lambda>x. x\<lparr>t_top := Some c\<rparr>) w2;
                    Some (Leave (Val Ready), async_finalize vt a w3) }
          else if state = Exited
          then do { t \<leftarrow> aw_task (aws w a); Some (Cont Exited, set_error t e w) }
          else Some (Cont state, w))"

definition after_poll ::
    "awt \<Rightarrow> ControlState res \<Rightarrow> 'u world \<Rightarrow> (flow \<times> 'u world) option" where
  "after_poll a r w =
     (case r of
        Val state \<Rightarrow> Some (Cont state, w)
      | Exn x \<Rightarrow>
          do { t \<leftarrow> aw_task (aws w a);
               let w1 = upd_aw a (\<lambda>x. x\<lparr>aw_error :=
                          make_error_awaitable ErrorAwaitable_CXXException\<rparr>) w;
               Some (Cont Raise, upd_task t (\<lambda>y. y\<lparr>t_exception :=
                       (case x of CxxException n \<Rightarrow> Some n | JinxError _ \<Rightarrow> None)\<rparr>) w1) })"

partial_function (option) aw_run ::
    "'u vtable \<Rightarrow> awt \<Rightarrow> 'u world \<Rightarrow> (ControlState res \<times> 'u world) option" where
  "aw_run vt a w =
     do { (act, w1) \<leftarrow> virtual_call vt a w;
          (r, w2) \<leftarrow> (case act of
                        AwaitA c \<Rightarrow> aw_run vt (Obj c) (async_call_link a c w1)
                      | _ \<Rightarrow> do_action act a w1);
          (fl, w3) \<leftarrow> (let e = aw_error (aws w a)
                       in if Error_bool e then after_error vt a e r w2 else after_poll a r w2);
          (case fl of
             Leave v \<Rightarrow> Some (v, w3)
           | Cont state \<Rightarrow>
               if value_ControlState state > value_ControlState Raise
               then Some (Val (if state = Pause then Ready else state), w3)
               else do { t \<leftarrow> aw_task (aws w3 a);
                         if t_top (tasks w3 t) \<noteq> Some a
                         then Some (Val state, async_finalize vt a w3)
                         else aw_run vt a w3 }) }"

partial_function (option) Task_run ::
    "'u vtable \<Rightarrow> nat \<Rightarrow> 'u world \<Rightarrow> (ControlState res \<times> 'u world) option" where
  "Task_run vt t w =
     do { a \<leftarrow> t_top (tasks w t);
          (r, w1) \<leftarrow> aw_run vt a w;
          (if r = Val Ready then Task_run vt t w1 else Some (r, w1)) }"

section \<open>The loop\<close>

text \<open>
  \<^verbatim>\<open>TaskQueue::run\<close> with its three callbacks. \<open>engine\<close> is \<^verbatim>\<open>poll()\<close> of the event engine. The
  argument \<open>task\<close> is the local variable of the inner loop; the outer loop re-enters through
  \<open>None\<close>.
\<close>

definition TaskQueue_empty :: "'u world \<Rightarrow> bool" where
  "TaskQueue_empty w = ll_empty (tasks_all w)"

definition pop_ready :: "'u world \<Rightarrow> nat option \<times> 'u world" where
  "pop_ready w = (case ts_pop (tasks_ready w) of (t, r) \<Rightarrow> (t, w\<lparr>tasks_ready := r\<rparr>))"

datatype progress = Finished "unit res" | Continue "nat option"

definition TaskQueue_idle ::
    "('u world \<Rightarrow> (bool \<times> 'u world) option) \<Rightarrow> 'u world \<Rightarrow> (progress \<times> 'u world) option" where
  "TaskQueue_idle on_idle w =
     do { (stop, w1) \<leftarrow> on_idle w;
          Some (if stop \<or> TaskQueue_empty w1 then (Finished (Val ()), w1)
                else map_prod Continue (\<lambda>x. x) (pop_ready w1)) }"

definition TaskQueue_yielded ::
    "('u world \<Rightarrow> 'u world option) \<Rightarrow> nat \<Rightarrow> 'u world \<Rightarrow> (progress \<times> 'u world) option" where
  "TaskQueue_yielded engine t w =
     do { w1 \<leftarrow> engine w;
          (case pop_ready w1 of
             (None, w2) \<Rightarrow> Some (Continue (Some t), w2)
           | (Some t', w2) \<Rightarrow>
               Some (Continue (Some t'), snd (Loop_schedule t Error_default w2))) }"

definition TaskQueue_exited ::
    "(nat \<Rightarrow> 'u world \<Rightarrow> (bool res \<times> 'u world) option) \<Rightarrow> nat \<Rightarrow> 'u world \<Rightarrow>
     (progress \<times> 'u world) option" where
  "TaskQueue_exited on_task_exit t w =
     do { (r, w1) \<leftarrow> on_task_exit t w;
          (case r of
             Exn x \<Rightarrow> Some (Finished (Exn x), w1)
           | Val stop \<Rightarrow> Some (if stop then (Finished (Val ()), w1)
                              else map_prod Continue (\<lambda>x. x) (pop_ready w1))) }"

definition TaskQueue_step where
  "TaskQueue_step vt engine before_run on_task_exit t w =
     do { let w1 = upd_task t (\<lambda>x. x\<lparr>t_exc := None\<rparr>) w;
          let w2 = before_run t (w1\<lparr>running_task := Some t\<rparr>);
          (r, w3) \<leftarrow> Task_run vt t w2;
          (case r of
             Exn x \<Rightarrow> Some (Finished (Exn x), w3)
           | Val state \<Rightarrow>
               let w4 = upd_task t (\<lambda>x. x\<lparr>t_state := state\<rparr>) (w3\<lparr>running_task := None\<rparr>)
               in if state = Exited then TaskQueue_exited on_task_exit t w4
                  else if state = Yield then TaskQueue_yielded engine t w4
                  else Some (map_prod Continue (\<lambda>x. x) (pop_ready w4))) }"

partial_function (option) TaskQueue_loop ::
    "'u vtable \<Rightarrow> ('u world \<Rightarrow> 'u world option) \<Rightarrow> ('u world \<Rightarrow> (bool \<times> 'u world) option) \<Rightarrow>
     (nat \<Rightarrow> 'u world \<Rightarrow> 'u world) \<Rightarrow> (nat \<Rightarrow> 'u world \<Rightarrow> (bool res \<times> 'u world) option) \<Rightarrow>
     nat option \<Rightarrow> 'u world \<Rightarrow> (unit res \<times> 'u world) option" where
  "TaskQueue_loop vt engine on_idle before_run on_task_exit task w =
     do { (p, w1) \<leftarrow> (case task of
                        None \<Rightarrow> TaskQueue_idle on_idle w
                      | Some t \<Rightarrow> TaskQueue_step vt engine before_run on_task_exit t w);
          (case p of
             Finished r \<Rightarrow> Some (r, w1)
           | Continue task' \<Rightarrow>
               TaskQueue_loop vt engine on_idle before_run on_task_exit task' w1) }"

definition TaskQueue_run where
  "TaskQueue_run vt engine on_idle before_run on_task_exit w =
     (if TaskQueue_empty w then Some (Val (), w)
      else (case pop_ready w of (t, w1) \<Rightarrow>
              TaskQueue_loop vt engine on_idle before_run on_task_exit t w1))"

partial_function (option) drain_ready :: "'u world \<Rightarrow> 'u world option" where
  "drain_ready w =
     (case pop_ready w of (None, w1) \<Rightarrow> Some w1 | (Some _, w1) \<Rightarrow> drain_ready w1)"

definition with_task_ptr :: "nat \<Rightarrow> ('u world \<Rightarrow> 'u world option) \<Rightarrow> 'u world \<Rightarrow> 'u world option" where
  "with_task_ptr t f w = do { w1 \<leftarrow> task_ref t w; w2 \<leftarrow> f w1; task_unref t w2 }"

definition TaskQueue_exit :: "'u vtable \<Rightarrow> 'u world \<Rightarrow> 'u world option" where
  "TaskQueue_exit vt w =
     (if running_task w \<noteq> None then None
      else do { w1 \<leftarrow> for_each tasks_all
                       (\<lambda>t. with_task_ptr t (\<lambda>w. map_option snd (TaskQueue_cancel vt t w))) w;
                w2 \<leftarrow> drain_ready w1;
                for_each tasks_all
                  (\<lambda>t. with_task_ptr t (\<lambda>w. map_option snd (TaskQueue_pop t w))) w2 })"

text \<open>
  \<^verbatim>\<open>Loop\<close>: without an error handler an unhandled error is rethrown as the stored exception or
  as \<^verbatim>\<open>JinxError\<close>; a handler's result is ignored by \<^verbatim>\<open>run\<close>. The backtrace is output only.
\<close>

type_synonym 'u error_handler = "nat \<Rightarrow> Error \<Rightarrow> 'u world \<Rightarrow> 'u world"

definition unhandled_error ::
    "'u error_handler option \<Rightarrow> nat \<Rightarrow> 'u world \<Rightarrow> (unit res \<times> 'u world) option" where
  "unhandled_error handler t w =
     (let e = aw_error (aws w (TaskA t))
      in case handler of
           Some h \<Rightarrow> Some (Val (), h t e w)
         | None \<Rightarrow>
             do { c \<leftarrow> e_category e;
                  if c = category_awaitable \<and> e_value e = value_ErrorAwaitable ErrorAwaitable_CXXException
                  then do { x \<leftarrow> t_exception (tasks w t); Some (Exn (CxxException x), w) }
                  else Some (Exn (JinxError e), w) })"

definition loop_on_task_exit ::
    "'u error_handler option \<Rightarrow> nat \<Rightarrow> 'u world \<Rightarrow> (bool res \<times> 'u world) option" where
  "loop_on_task_exit handler t w =
     do { w1 \<leftarrow> task_ref t w;
          (r, w2) \<leftarrow> TaskQueue_pop t w1;
          if r = Failed then None
          else let e = aw_error (aws w2 (TaskA t))
               in if Error_bool e
                  then do { c \<leftarrow> e_category e;
                            if c = category_awaitable \<and>
                               e_value e = value_ErrorAwaitable ErrorAwaitable_ExitLoop
                            then do { w3 \<leftarrow> task_unref t (w2\<lparr>exit_loop := True\<rparr>);
                                      Some (Val True, w3) }
                            else do { (u, w3) \<leftarrow> unhandled_error handler t w2;
                                      w4 \<leftarrow> task_unref t w3;
                                      (case u of
                                         Exn x \<Rightarrow> Some (Exn x, w4)
                                       | Val _ \<Rightarrow> Some (Val True, w4)) } }
                  else do { w3 \<leftarrow> task_unref t w2; Some (Val False, w3) } }"

definition Loop_run ::
    "'u vtable \<Rightarrow> ('u world \<Rightarrow> 'u world option) \<Rightarrow> 'u error_handler option \<Rightarrow> 'u world \<Rightarrow>
     (unit res \<times> 'u world) option" where
  "Loop_run vt engine handler w =
     do { (r, w1) \<leftarrow> TaskQueue_run vt engine (\<lambda>w. map_option (Pair False) (engine w)) (\<lambda>t w. w)
                       (loop_on_task_exit handler) (w\<lparr>exit_loop := False\<rparr>);
          (case r of
             Exn x \<Rightarrow> Some (Exn x, w1)
           | Val _ \<Rightarrow>
               if exit_loop w1
               then do { w2 \<leftarrow> TaskQueue_exit vt w1; Some (Val (), w2) }
               else Some (Val (), w1)) }"

end
