(* ===== verification/Jinx_Engine.thy ===== *)
theory Jinx_Engine
  imports Jinx_Task
begin

text \<open>
  What the engine of \<open>Jinx_Task\<close> guarantees: scheduling, the propagation of errors through the
  call stack, cancellation, hooks, and the loop.
\<close>

section \<open>Frames\<close>

lemma upd_aw_fields [simp]:
  "aws (upd_aw a f w) = (aws w)(a := f (aws w a))"
  "tasks (upd_aw a f w) = tasks w"
  "tasks_all (upd_aw a f w) = tasks_all w"
  "tasks_ready (upd_aw a f w) = tasks_ready w"
  "running_task (upd_aw a f w) = running_task w"
  "wakeups (upd_aw a f w) = wakeups w"
  "exit_loop (upd_aw a f w) = exit_loop w"
  "user (upd_aw a f w) = user w"
  by (simp_all add: upd_aw_def)

lemma upd_task_fields [simp]:
  "tasks (upd_task t g w) = (tasks w)(t := g (tasks w t))"
  "aws (upd_task t g w) = aws w"
  "tasks_all (upd_task t g w) = tasks_all w"
  "tasks_ready (upd_task t g w) = tasks_ready w"
  "running_task (upd_task t g w) = running_task w"
  "wakeups (upd_task t g w) = wakeups w"
  "exit_loop (upd_task t g w) = exit_loop w"
  "user (upd_task t g w) = user w"
  by (simp_all add: upd_task_def)

lemma async_finalize_fields [simp]:
  "tasks (async_finalize vt a w) = tasks w"
  "tasks_all (async_finalize vt a w) = tasks_all w"
  "tasks_ready (async_finalize vt a w) = tasks_ready w"
  "running_task (async_finalize vt a w) = running_task w"
  "wakeups (async_finalize vt a w) = wakeups w"
  "exit_loop (async_finalize vt a w) = exit_loop w"
  by (simp_all add: async_finalize_def Awaitable_finalize_def split: awt.split)

lemma async_finalize_aws:
  "aws (async_finalize vt a w) =
     (aws w)(a := (aws w a)\<lparr>aw_task := None, aw_error := Error_default,
        aw_prev := (if aw_pausable (aws w a) then None else aw_prev (aws w a))\<rparr>)"
  by (simp add: async_finalize_def Awaitable_finalize_def split: awt.split)

lemma async_finalize_other [simp]: "b \<noteq> a \<Longrightarrow> aws (async_finalize vt a w) b = aws w b"
  by (simp add: async_finalize_aws)

lemma async_finalize_self [simp]:
  "aw_task (aws (async_finalize vt a w) a) = None"
  "aw_error (aws (async_finalize vt a w) a) = Error_default"
  "aw_caller (aws (async_finalize vt a w) a) = aw_caller (aws w a)"
  by (simp_all add: async_finalize_aws)

lemma async_finalize_user [simp]:
  "user (async_finalize vt (Obj n) w) = vt_final vt n (user w)"
  by (simp add: async_finalize_def Awaitable_finalize_def)

section \<open>Scheduling\<close>

text \<open>
  The ready list holds each task at most once and only tasks whose state is \<^verbatim>\<open>Ready\<close>: the
  exchange on \<^verbatim>\<open>_state\<close> is what keeps a node from being pushed twice.
\<close>

definition sched_inv :: "'u world \<Rightarrow> nat list \<Rightarrow> bool" where
  "sched_inv w rs \<longleftrightarrow> ts_rep (tasks_ready w) rs \<and> (\<forall>t \<in> set rs. t_state (tasks w t) = Ready)"

lemma schedule_refused:
  "t_state (tasks w t) \<in> {Ready, Exited} \<Longrightarrow> TaskQueue_schedule t e w = (Failed, w)"
  by (auto simp: TaskQueue_schedule_def upd_task_def Let_def fun_upd_idem)

lemma schedule_accepted:
  assumes "sched_inv w rs" and "t_state (tasks w t) \<notin> {Ready, Exited}" and "Suc (length rs) < size_max"
  shows "\<exists>w'. TaskQueue_schedule t e w = (Successful, w') \<and> sched_inv w' (t # rs) \<and>
           aw_error (aws w' (TaskA t)) = e \<and> t \<notin> set rs"
proof -
  have "t \<notin> set rs" using assms(1,2) by (auto simp: sched_inv_def)
  moreover have "ts_rep (ts_push t (tasks_ready w)) (t # rs)"
    using assms \<open>t \<notin> set rs\<close> by (intro ts_push_rep) (auto simp: sched_inv_def)
  ultimately show ?thesis
    using assms by (auto simp: TaskQueue_schedule_def Let_def set_error_def sched_inv_def)
qed

text \<open>
  C29. Scheduling. A task that is already ready or has exited is refused and nothing changes; any
  other task is put on the ready list exactly once, ready, with the error it was resumed with.
\<close>

theorem schedule_once:
  assumes "sched_inv w rs" and "Suc (length rs) < size_max"
  shows "if t_state (tasks w t) \<in> {Ready, Exited}
         then TaskQueue_schedule t e w = (Failed, w)
         else \<exists>w'. TaskQueue_schedule t e w = (Successful, w') \<and> sched_inv w' (t # rs) \<and>
                distinct (t # rs) \<and> aw_error (aws w' (TaskA t)) = e"
proof (cases "t_state (tasks w t) \<in> {Ready, Exited}")
  case True
  then show ?thesis by (simp only: schedule_refused if_True)
next
  case False
  with schedule_accepted [OF assms(1) _ assms(2)]
  obtain w' where w': "TaskQueue_schedule t e w = (Successful, w')" "sched_inv w' (t # rs)"
      "aw_error (aws w' (TaskA t)) = e" by metis
  moreover have "distinct (t # rs)"
    using w'(2) ts.rep_distinct unfolding sched_inv_def by metis
  ultimately show ?thesis unfolding if_not_P [OF False] by blast
qed

text \<open>
  An awaitable before its first call. The base class initialises its members; \<^verbatim>\<open>_prev\<close> of the pausable
  class has no initialiser in \<^verbatim>\<open>pausable.hpp\<close>, and null is what the code relies on when it asks
  \<^verbatim>\<open>is_paused\<close> before the object was finalised once. The sample worlds start from null; no property
  depends on it, except where it is a hypothesis.
\<close>

definition idle_awaitable :: awaitable where
  "idle_awaitable = \<lparr>aw_task = None, aw_caller = None, aw_error = Error_default, aw_next = None,
     aw_pausable = False, aw_prev = None\<rparr>"

definition idle_task :: task where
  "idle_task = \<lparr>t_refc = 1, t_state = Suspended, t_top = None, t_queued = False,
     t_exception = None, t_exc = None, t_destroyed = False\<rparr>"

definition empty_world :: "'u \<Rightarrow> 'u world" where
  "empty_world u = \<lparr>aws = (\<lambda>_. idle_awaitable), tasks = (\<lambda>_. idle_task), tasks_all = ll_new,
     tasks_ready = ts_new, running_task = None, wakeups = 0, exit_loop = False, user = u\<rparr>"

lemma sched_inv_empty: "sched_inv (empty_world u) []"
  by (simp add: sched_inv_def empty_world_def ts.rep_new)

theorem schedule_once_witness:
  "\<exists>w'. TaskQueue_schedule 3 Error_default (empty_world ()) = (Successful, w') \<and>
     sched_inv w' [3] \<and> aw_error (aws w' (TaskA 3)) = Error_default"
  using schedule_once [of "empty_world ()" "[]" 3 Error_default, OF sched_inv_empty]
  by (auto simp: empty_world_def idle_task_def)

section \<open>Throwing\<close>

text \<open>
  \<^verbatim>\<open>async_throw\<close> always leaves a non-zero error behind, the one it was given unless that
  is zero, puts the awaitable back on top of the stack of its task, and asks for \<^verbatim>\<open>Raise\<close>.
\<close>

theorem async_throw_nonzero:
  "fst (async_throw e a w) = Raise \<and>
   Error_bool (aw_error (aws (snd (async_throw e a w)) a)) \<and>
   aw_error (aws (snd (async_throw e a w)) a) =
     (if Error_bool e then e else make_error_awaitable ErrorAwaitable_InvalidErrorCode) \<and>
   (case aw_task (aws w a) of None \<Rightarrow> tasks (snd (async_throw e a w)) = tasks w
    | Some t \<Rightarrow> t_top (tasks (snd (async_throw e a w)) t) = Some a)"
  by (auto simp: async_throw_def Let_def make_error_awaitable_def Error_bool_def Error_make_def
      split: option.splits)

section \<open>Error propagation\<close>

text \<open>The call stack of a task: \<open>ns\<close> are the client awaitables from \<open>p\<close> down to the task.\<close>

fun call_stack :: "'u world \<Rightarrow> nat \<Rightarrow> awt option \<Rightarrow> nat list \<Rightarrow> bool" where
  "call_stack w t p [] \<longleftrightarrow> p = Some (TaskA t)"
| "call_stack w t p (n # ns) \<longleftrightarrow>
     p = Some (Obj n) \<and> aw_task (aws w (Obj n)) = Some t \<and> call_stack w t (aw_caller (aws w (Obj n))) ns"

lemma call_stack_cong:
  "(\<And>n. n \<in> set ns \<Longrightarrow> aw_task (aws w' (Obj n)) = aw_task (aws w (Obj n)) \<and>
                        aw_caller (aws w' (Obj n)) = aw_caller (aws w (Obj n))) \<Longrightarrow>
   call_stack w' t p ns \<longleftrightarrow> call_stack w t p ns"
  by (induction ns arbitrary: p) auto

definition default_handler :: "'u vtable \<Rightarrow> nat \<Rightarrow> bool" where
  "default_handler vt n \<longleftrightarrow> (\<forall>e u. vt_error vt n e u = Done u RaiseA)"

lemma aw_run_raise:
  assumes "default_handler vt n" and "Error_bool e" and "aw_error (aws w (Obj n)) = e"
    and "aw_task (aws w (Obj n)) = Some t" and "aw_caller (aws w (Obj n)) = Some c" and "c \<noteq> Obj n"
  shows "\<exists>w'. aw_run vt (Obj n) w = Some (Val Ready, w') \<and>
    aw_error (aws w' c) = e \<and> t_top (tasks w' t) = Some c \<and>
    aw_task (aws w' (Obj n)) = None \<and> aw_error (aws w' (Obj n)) = Error_default \<and>
    user w' = vt_final vt n (user w) \<and>
    t_exc (tasks w' t) = (if t_exc (tasks w t) = None then Some (Obj n) else t_exc (tasks w t)) \<and>
    (\<forall>b. b \<noteq> Obj n \<longrightarrow> aw_task (aws w' b) = aw_task (aws w b) \<and>
         aw_caller (aws w' b) = aw_caller (aws w b) \<and>
         (b \<noteq> c \<longrightarrow> aw_error (aws w' b) = aw_error (aws w b)))"
  using assms
  by (simp add: aw_run.simps [of vt "Obj n"] virtual_call_def default_handler_def after_error_def
      Let_def)

lemma aw_run_task_error:
  assumes "Error_bool e" and "aw_error (aws w (TaskA t)) = e" and "aw_task (aws w (TaskA t)) = Some t"
  shows "\<exists>w'. aw_run vt (TaskA t) w = Some (Val Exited, w') \<and>
    aw_error (aws w' (TaskA t)) = e \<and> t_top (tasks w' t) = None \<and> t_state (tasks w' t) = Exited \<and>
    user w' = user w \<and> t_exc (tasks w' t) = t_exc (tasks w t) \<and>
    (\<forall>n. aws w' (Obj n) = aws w (Obj n))"
  using assms
  by (simp add: aw_run.simps [of vt "TaskA t"] virtual_call_def after_error_def Let_def
      set_error_def)

lemma Task_run_step:
  "t_top (tasks w t) = Some a \<Longrightarrow> aw_run vt a w = Some (Val Ready, w') \<Longrightarrow>
   Task_run vt t w = Task_run vt t w'"
  by (simp add: Task_run.simps [of vt t w])

lemma Task_run_stop:
  "t_top (tasks w t) = Some a \<Longrightarrow> aw_run vt a w = Some (r, w') \<Longrightarrow> r \<noteq> Val Ready \<Longrightarrow>
   Task_run vt t w = Some (r, w')"
  by (simp add: Task_run.simps [of vt t w])

lemma propagate_stack:
  assumes "call_stack w t (t_top (tasks w t)) ns" and "distinct ns"
    and "\<And>n. n \<in> set ns \<Longrightarrow> default_handler vt n"
    and "aw_task (aws w (TaskA t)) = Some t" and "Error_bool e"
    and "\<And>a. t_top (tasks w t) = Some a \<Longrightarrow> aw_error (aws w a) = e"
  shows "\<exists>w'. Task_run vt t w = Some (Val Exited, w') \<and>
    aw_error (aws w' (TaskA t)) = e \<and> t_top (tasks w' t) = None \<and> t_state (tasks w' t) = Exited \<and>
    user w' = fold (vt_final vt) ns (user w) \<and>
    (\<forall>n \<in> set ns. aw_task (aws w' (Obj n)) = None \<and> aw_error (aws w' (Obj n)) = Error_default) \<and>
    (\<forall>m. m \<notin> set ns \<longrightarrow> aw_task (aws w' (Obj m)) = aw_task (aws w (Obj m)) \<and>
                         aw_error (aws w' (Obj m)) = aw_error (aws w (Obj m))) \<and>
    t_exc (tasks w' t) =
      (if t_exc (tasks w t) = None \<and> ns \<noteq> [] then Some (Obj (hd ns)) else t_exc (tasks w t))"
  using assms
proof (induction ns arbitrary: w)
  case Nil
  then have top: "t_top (tasks w t) = Some (TaskA t)" by simp
  obtain w' where w': "aw_run vt (TaskA t) w = Some (Val Exited, w')"
      "aw_error (aws w' (TaskA t)) = e" "t_top (tasks w' t) = None" "t_state (tasks w' t) = Exited"
      "user w' = user w" "t_exc (tasks w' t) = t_exc (tasks w t)" "\<forall>n. aws w' (Obj n) = aws w (Obj n)"
    using aw_run_task_error [OF Nil.prems(5) Nil.prems(6) [OF top] Nil.prems(4)] by blast
  then show ?case
    using Task_run_stop [OF top w'(1)] by simp
next
  case (Cons n ns)
  have top: "t_top (tasks w t) = Some (Obj n)" using Cons.prems(1) by simp
  obtain c where c: "aw_caller (aws w (Obj n)) = Some c" and rest: "call_stack w t (Some c) ns"
    using Cons.prems(1) by (cases ns) auto
  have c': "c \<noteq> Obj n"
    using rest Cons.prems(2) by (cases ns) auto
  have tsk: "aw_task (aws w (Obj n)) = Some t" and dh: "default_handler vt n"
    using Cons.prems(1,3) by auto
  obtain w1 where w1: "aw_run vt (Obj n) w = Some (Val Ready, w1)"
      "aw_error (aws w1 c) = e" "t_top (tasks w1 t) = Some c"
      "aw_task (aws w1 (Obj n)) = None" "aw_error (aws w1 (Obj n)) = Error_default"
      "user w1 = vt_final vt n (user w)"
      "t_exc (tasks w1 t) = (if t_exc (tasks w t) = None then Some (Obj n) else t_exc (tasks w t))"
      "\<And>b. b \<noteq> Obj n \<Longrightarrow> aw_task (aws w1 b) = aw_task (aws w b) \<and>
         aw_caller (aws w1 b) = aw_caller (aws w b) \<and>
         (b \<noteq> c \<longrightarrow> aw_error (aws w1 b) = aw_error (aws w b))"
    using aw_run_raise [OF dh Cons.prems(5) Cons.prems(6) [OF top] tsk c c'] by blast
  have "call_stack w1 t (Some c) ns \<longleftrightarrow> call_stack w t (Some c) ns"
  proof (rule call_stack_cong)
    fix m assume "m \<in> set ns"
    then have "Obj m \<noteq> Obj n" using Cons.prems(2) by auto
    from w1(8) [OF this] show "aw_task (aws w1 (Obj m)) = aw_task (aws w (Obj m)) \<and>
        aw_caller (aws w1 (Obj m)) = aw_caller (aws w (Obj m))" by simp
  qed
  then have "call_stack w1 t (t_top (tasks w1 t)) ns"
    using rest w1(3) by simp
  then obtain w' where w': "Task_run vt t w1 = Some (Val Exited, w')"
      "aw_error (aws w' (TaskA t)) = e" "t_top (tasks w' t) = None" "t_state (tasks w' t) = Exited"
      "user w' = fold (vt_final vt) ns (user w1)"
      "\<forall>n \<in> set ns. aw_task (aws w' (Obj n)) = None \<and> aw_error (aws w' (Obj n)) = Error_default"
      "\<forall>m. m \<notin> set ns \<longrightarrow> aw_task (aws w' (Obj m)) = aw_task (aws w1 (Obj m)) \<and>
                         aw_error (aws w' (Obj m)) = aw_error (aws w1 (Obj m))"
      "t_exc (tasks w' t) =
        (if t_exc (tasks w1 t) = None \<and> ns \<noteq> [] then Some (Obj (hd ns)) else t_exc (tasks w1 t))"
    using Cons.IH [of w1] Cons.prems w1 by auto
  have old: "aw_error (aws w1 (Obj m)) = aw_error (aws w (Obj m))" if "m \<notin> set (n # ns)" for m
    using that rest w1(8) [of "Obj m"] by (cases ns) auto
  show ?case
    using Task_run_step [OF top w1(1)] w' w1 Cons.prems(2) old by auto
qed

text \<open>
  C1. Unhandled errors. When an awaitable anywhere up the stack fails and nobody on the stack
  handles the error, running the task terminates: every awaitable of the stack is finalized
  exactly once, from the top down, the task exits with exactly that error, and the backtrace
  starts at the awaitable that failed.
\<close>

theorem unhandled_error_unwinds:
  assumes "call_stack w t (t_top (tasks w t)) (n # ns)" and "distinct (n # ns)"
    and "\<And>m. m \<in> set (n # ns) \<Longrightarrow> default_handler vt m"
    and "aw_task (aws w (TaskA t)) = Some t"
    and "aw_error (aws w (Obj n)) = e" and "Error_bool e" and "t_exc (tasks w t) = None"
  shows "\<exists>w'. Task_run vt t w = Some (Val Exited, w') \<and>
    aw_error (aws w' (TaskA t)) = e \<and> t_state (tasks w' t) = Exited \<and> t_top (tasks w' t) = None \<and>
    user w' = fold (vt_final vt) (n # ns) (user w) \<and>
    (\<forall>m \<in> set (n # ns). aw_task (aws w' (Obj m)) = None \<and> \<not> Error_bool (aw_error (aws w' (Obj m)))) \<and>
    t_exc (tasks w' t) = Some (Obj n)"
proof -
  have top: "t_top (tasks w t) = Some (Obj n)" using assms(1) by simp
  then have "\<And>a. t_top (tasks w t) = Some a \<Longrightarrow> aw_error (aws w a) = e" using assms(5) by auto
  from propagate_stack [OF assms(1,2,3,4,6) this]
  obtain w' where "Task_run vt t w = Some (Val Exited, w')"
      "aw_error (aws w' (TaskA t)) = e" "t_top (tasks w' t) = None" "t_state (tasks w' t) = Exited"
      "user w' = fold (vt_final vt) (n # ns) (user w)"
      "\<forall>m \<in> set (n # ns). aw_task (aws w' (Obj m)) = None \<and> aw_error (aws w' (Obj m)) = Error_default"
      "t_exc (tasks w' t) = Some (Obj n)"
    using assms(7) by auto
  then show ?thesis by auto
qed

definition default_vt :: "'u vtable" where
  "default_vt = \<lparr>vt_poll = (\<lambda>n u. Done u ReturnA), vt_error = (\<lambda>n e u. Done u RaiseA),
     vt_final = (\<lambda>n u. u)\<rparr>"

definition failing_world :: "unit world" where
  "failing_world =
     snd (async_throw (Error_make 5 category_posix) (Obj 7)
       (async_call_link (Obj 8) 7 (Task_init 1 8 (empty_world ()))))"

theorem unhandled_error_unwinds_witness:
  "\<exists>w'. Task_run default_vt 1 failing_world = Some (Val Exited, w') \<and>
     aw_error (aws w' (TaskA 1)) = Error_make 5 category_posix \<and> t_state (tasks w' 1) = Exited \<and>
     t_top (tasks w' 1) = None \<and> user w' = () \<and>
     (\<forall>m \<in> set [7, 8]. aw_task (aws w' (Obj m)) = None \<and> \<not> Error_bool (aw_error (aws w' (Obj m)))) \<and>
     t_exc (tasks w' 1) = Some (Obj 7)"
  using unhandled_error_unwinds [of failing_world 1 7 "[8]" default_vt "Error_make 5 category_posix"]
  by (simp add: failing_world_def async_throw_def async_call_link_def Task_init_def empty_world_def
      Let_def default_handler_def default_vt_def idle_task_def Error_bool_def Error_make_def)

text \<open>
  A C++ exception thrown by an awaitable while it is polled for the first time, inside the
  \<^verbatim>\<open>async_call\<close> of its caller, is lost: the callee is finalized, which clears the error code
  just stored in it, no error reaches the caller, and the caller stays on top of the stack, so
  that its next step runs as if the call had succeeded.
\<close>

theorem exception_in_first_poll_is_lost:
  assumes "vt_poll vt c (user w) = Done u (CxxThrowA x)" and "a \<noteq> Obj c"
    and "aw_task (aws w a) = Some t" and "t_top (tasks w t) = Some a"
    and "\<not> Error_bool (aw_error (aws w (Obj c)))"
  shows "\<exists>w'. aw_run vt (Obj c) (async_call_link a c w) = Some (Val Raise, w') \<and>
    \<not> Error_bool (aw_error (aws w' (Obj c))) \<and> aws w' a = aws w a \<and>
    t_top (tasks w' t) = Some a \<and> t_exception (tasks w' t) = Some x"
  using assms
  by (simp add: aw_run.simps [of vt "Obj c"] virtual_call_def after_poll_def async_call_link_def
      Let_def)

definition throwing_vt :: "unit vtable" where
  "throwing_vt = default_vt\<lparr>vt_poll := (\<lambda>n u. Done u (CxxThrowA 9))\<rparr>"

theorem exception_in_first_poll_is_lost_witness:
  "\<exists>w'. aw_run throwing_vt (Obj 4) (async_call_link (Obj 3) 4 (Task_init 1 3 (empty_world ()))) =
     Some (Val Raise, w') \<and> \<not> Error_bool (aw_error (aws w' (Obj 4))) \<and>
     aws w' (Obj 3) = aws (Task_init 1 3 (empty_world ())) (Obj 3) \<and>
     t_top (tasks w' 1) = Some (Obj 3) \<and> t_exception (tasks w' 1) = Some 9"
  using exception_in_first_poll_is_lost
    [of throwing_vt 4 "Task_init 1 3 (empty_world ())" "()" 9 "Obj 3" 1]
  by (simp add: throwing_vt_def Task_init_def empty_world_def idle_awaitable_def idle_task_def Let_def)

section \<open>Cancellation\<close>

lemma unwind_stack_spec:
  assumes "call_stack w t (t_top (tasks w t)) ns" and "distinct ns"
  shows "\<exists>w'. unwind_stack vt t w = Some w' \<and>
    tasks w' = (tasks w)(t := (tasks w t)\<lparr>t_top := Some (TaskA t)\<rparr>) \<and>
    tasks_all w' = tasks_all w \<and> tasks_ready w' = tasks_ready w \<and>
    running_task w' = running_task w \<and> exit_loop w' = exit_loop w \<and>
    user w' = fold (vt_final vt) ns (user w) \<and>
    (\<forall>n \<in> set ns. aw_task (aws w' (Obj n)) = None \<and> aw_error (aws w' (Obj n)) = Error_default) \<and>
    (\<forall>b. b \<notin> Obj ` set ns \<longrightarrow> aws w' b = aws w b)"
  using assms
proof (induction ns arbitrary: w)
  case Nil
  then show ?case by (simp add: unwind_stack.simps fun_upd_idem)
next
  case (Cons n ns)
  let ?w1 = "upd_task t (\<lambda>x. x\<lparr>t_top := aw_caller (aws w (Obj n))\<rparr>) (async_finalize vt (Obj n) w)"
  have "call_stack ?w1 t (t_top (tasks ?w1 t)) ns \<longleftrightarrow> call_stack w t (t_top (tasks ?w1 t)) ns"
  proof (rule call_stack_cong)
    fix m assume "m \<in> set ns"
    then have "Obj m \<noteq> Obj n" using Cons.prems(2) by auto
    then show "aw_task (aws ?w1 (Obj m)) = aw_task (aws w (Obj m)) \<and>
        aw_caller (aws ?w1 (Obj m)) = aw_caller (aws w (Obj m))" by simp
  qed
  then have cs: "call_stack ?w1 t (t_top (tasks ?w1 t)) ns" using Cons.prems(1) by simp
  have "distinct ns" using Cons.prems(2) by simp
  from Cons.IH [OF cs this] obtain w' where w': "unwind_stack vt t ?w1 = Some w'"
    "tasks w' = (tasks ?w1)(t := (tasks ?w1 t)\<lparr>t_top := Some (TaskA t)\<rparr>)"
    "tasks_all w' = tasks_all ?w1" "tasks_ready w' = tasks_ready ?w1"
    "running_task w' = running_task ?w1" "exit_loop w' = exit_loop ?w1"
    "user w' = fold (vt_final vt) ns (user ?w1)"
    "\<forall>n \<in> set ns. aw_task (aws w' (Obj n)) = None \<and> aw_error (aws w' (Obj n)) = Error_default"
    "\<forall>b. b \<notin> Obj ` set ns \<longrightarrow> aws w' b = aws ?w1 b" by blast
  have "unwind_stack vt t w = unwind_stack vt t ?w1"
    using Cons.prems(1) by (simp add: unwind_stack.simps [of vt t w])
  then show ?case
    using w' Cons.prems(2) by auto
qed

lemma unwind_stack_exited: "t_top (tasks w t) = None \<Longrightarrow> unwind_stack vt t w = Some w"
  by (simp add: unwind_stack.simps)

lemma TaskQueue_pop_in:
  assumes "ll_rep (tasks_all w) (as @ t # bs)" and "t_refc (tasks w t) \<ge> 1"
  shows "\<exists>w'. TaskQueue_pop t w = Some (Successful, w') \<and> ll_rep (tasks_all w') (as @ bs) \<and>
    tasks w' = (tasks w)(t := (tasks w t)\<lparr>t_queued := False, t_refc := t_refc (tasks w t) - 1,
      t_destroyed := (t_destroyed (tasks w t) \<or> t_refc (tasks w t) = 1)\<rparr>) \<and>
    aws w' = aws w \<and> tasks_ready w' = tasks_ready w \<and> running_task w' = running_task w \<and>
    user w' = user w \<and> exit_loop w' = exit_loop w"
proof -
  obtain l where l: "erase (Node t) (tasks_all w) = Some (Successful, l)" "ll_rep l (as @ bs)"
    using flist.del_in [OF assms(1)] by blast
  then show ?thesis
    using assms(2) by (auto simp: TaskQueue_pop_def task_unref_def Let_def fun_eq_iff)
qed

lemma TaskQueue_pop_notin:
  assumes "ll_rep (tasks_all w) xs" and "t \<notin> set xs"
  shows "TaskQueue_pop t w = Some (Failed, w)"
  using flist.del_notin [OF assms] by (simp add: TaskQueue_pop_def)

text \<open>
  C30. Cancelling. The running task is refused and nothing changes. For any other task of the
  queue the whole call stack is finalized from the top down. A task that waits in the ready list
  stays in the queue, without error, with an empty stack; any other task leaves the queue at once
  as exited and loses the reference of the queue.
\<close>

theorem cancel_finalizes_the_stack:
  assumes "call_stack w t (t_top (tasks w t)) ns" and "distinct ns"
    and "ll_rep (tasks_all w) (as @ t # bs)" and "t_refc (tasks w t) \<ge> 1"
  shows "if running_task w = Some t
         then TaskQueue_cancel vt t w = Some (ErrorCancel_CancelRunningTask, w)
         else \<exists>r w'. TaskQueue_cancel vt t w = Some (r, w') \<and>
           user w' = fold (vt_final vt) ns (user w) \<and>
           (\<forall>n \<in> set ns. aw_task (aws w' (Obj n)) = None) \<and>
           t_top (tasks w' t) = Some (TaskA t) \<and>
           (if t_state (tasks w t) = Ready
            then r = ErrorCancel_DeferredDequeue \<and> t_state (tasks w' t) = Ready \<and>
                 ll_rep (tasks_all w') (as @ t # bs) \<and> \<not> Error_bool (aw_error (aws w' (TaskA t))) \<and>
                 t_refc (tasks w' t) = t_refc (tasks w t)
            else r = ErrorCancel_NoError \<and> t_state (tasks w' t) = Exited \<and>
                 ll_rep (tasks_all w') (as @ bs) \<and> \<not> t_queued (tasks w' t) \<and>
                 t_refc (tasks w' t) = t_refc (tasks w t) - 1)"
proof (cases "running_task w = Some t")
  case True
  then show ?thesis by (simp add: TaskQueue_cancel_def)
next
  case False
  obtain w1 where w1: "unwind_stack vt t w = Some w1"
    "tasks w1 = (tasks w)(t := (tasks w t)\<lparr>t_top := Some (TaskA t)\<rparr>)"
    "tasks_all w1 = tasks_all w" "user w1 = fold (vt_final vt) ns (user w)"
    "\<forall>n \<in> set ns. aw_task (aws w1 (Obj n)) = None"
    using unwind_stack_spec [OF assms(1,2)] by metis
  show ?thesis
  proof (cases "t_state (tasks w t) = Ready")
    case True
    with w1 False assms(3) show ?thesis
      by (simp add: TaskQueue_cancel_def set_error_def)
  next
    case not_ready: False
    let ?w2 = "upd_task t (\<lambda>x. x\<lparr>t_state := Exited\<rparr>) (upd_task t (\<lambda>x. x\<lparr>t_state := Ready\<rparr>) w1)"
    obtain w' where "TaskQueue_pop t ?w2 = Some (Successful, w')" "ll_rep (tasks_all w') (as @ bs)"
      "tasks w' = (tasks ?w2)(t := (tasks ?w2 t)\<lparr>t_queued := False, t_refc := t_refc (tasks ?w2 t) - 1,
        t_destroyed := (t_destroyed (tasks ?w2 t) \<or> t_refc (tasks ?w2 t) = 1)\<rparr>)"
      "aws w' = aws w1" "user w' = user w1"
      using TaskQueue_pop_in [of ?w2 as t bs] assms(3,4) w1 by auto
    with w1 False not_ready show ?thesis
      by (simp add: TaskQueue_cancel_def)
  qed
qed

definition suspended_world :: "unit world" where
  "suspended_world =
     snd (the (async_suspend (Obj 7) (async_call_link (Obj 8) 7
       (snd (the (TaskQueue_push 1 (Task_init 1 8 (empty_world ()))))))))"

lemmas suspended_world_defs = suspended_world_def TaskQueue_push_def task_ref_def
  async_call_link_def async_suspend_def Task_init_def empty_world_def idle_task_def Let_def

lemma suspended_world_simps:
  "t_top (tasks suspended_world 1) = Some (Obj 7)" "t_refc (tasks suspended_world 1) = 2"
  "t_state (tasks suspended_world 1) = Suspended"
  "running_task suspended_world = None"
  "aw_task (aws suspended_world (Obj 7)) = Some 1" "aw_task (aws suspended_world (Obj 8)) = Some 1"
  "aw_caller (aws suspended_world (Obj 7)) = Some (Obj 8)"
  "aw_caller (aws suspended_world (Obj 8)) = Some (TaskA 1)"
  by (simp_all add: suspended_world_defs split: prod.splits)

lemma suspended_world_all: "ll_rep (tasks_all suspended_world) [1]"
proof -
  have "tasks_all suspended_world = snd (push_front 1 ll_new)"
    by (simp add: suspended_world_defs split: prod.splits)
  then show ?thesis using push_front_rep [OF ll_new_rep, of "1 :: nat"] by (simp del: One_nat_def)
qed

theorem cancel_finalizes_the_stack_witness:
  "\<exists>r w'. TaskQueue_cancel default_vt 1 suspended_world = Some (r, w') \<and>
     r = ErrorCancel_NoError \<and> t_state (tasks w' 1) = Exited \<and> ll_rep (tasks_all w') [] \<and>
     (\<forall>n \<in> set [7, 8]. aw_task (aws w' (Obj n)) = None) \<and> t_refc (tasks w' 1) = 1"
  using cancel_finalizes_the_stack [of suspended_world 1 "[7, 8]" "[]" "[]" default_vt] suspended_world_all
  by (auto simp: suspended_world_simps simp del: One_nat_def)

end
