(* ===== verification/Jinx_Loop.thy ===== *)
theory Jinx_Loop
  imports Jinx_Engine
begin

text \<open>
  Whole runs of the task queue of \<^verbatim>\<open>include/jinx/async/task.hpp\<close>: hooks on a task,
  \<^verbatim>\<open>TaskQueue::exit\<close>, the loop running its tasks to completion, and the re-run of a task that
  yields while nothing else is ready.
\<close>

section \<open>Hooks\<close>

text \<open>
  A hook is put between the task and its entry, where the entry will return to it; removing it
  restores the links of the task, of the entry and of every other awaitable.
\<close>

theorem add_remove_hook:
  assumes "aw_caller (aws w (TaskA t)) = Some n" and "aw_caller (aws w n) = Some (TaskA t)"
    and "n \<noteq> Obj h" and "n \<noteq> TaskA t"
  shows "\<exists>w1 w2. add_hook t h w = Some w1 \<and>
    aw_caller (aws w1 n) = Some (Obj h) \<and> aw_caller (aws w1 (Obj h)) = Some (TaskA t) \<and>
    aw_caller (aws w1 (TaskA t)) = Some (Obj h) \<and>
    remove_hook t h w1 = Some w2 \<and> (\<forall>b. b \<noteq> Obj h \<longrightarrow> aws w2 b = aws w b)"
  using assms by (auto simp: add_hook_def remove_hook_def Let_def)

theorem add_remove_hook_witness:
  "\<exists>w1 w2. add_hook 1 5 (Task_init 1 3 (empty_world ())) = Some w1 \<and>
     aw_caller (aws w1 (Obj 3)) = Some (Obj 5) \<and> aw_caller (aws w1 (Obj 5)) = Some (TaskA 1) \<and>
     aw_caller (aws w1 (TaskA 1)) = Some (Obj 5) \<and> remove_hook 1 5 w1 = Some w2 \<and>
     (\<forall>b. b \<noteq> Obj 5 \<longrightarrow> aws w2 b = aws (Task_init 1 3 (empty_world ())) b)"
  using add_remove_hook [of "Task_init 1 3 (empty_world ())" 1 "Obj 3" 5]
  by (simp add: Task_init_def Let_def)

section \<open>Leaving the loop\<close>

definition has_stack :: "'u world \<Rightarrow> nat \<Rightarrow> bool" where
  "has_stack w t \<longleftrightarrow> t_top (tasks w t) = None \<or> (\<exists>ns. call_stack w t (t_top (tasks w t)) ns \<and> distinct ns)"

definition task_ok :: "'u world \<Rightarrow> nat \<Rightarrow> bool" where
  "task_ok w t \<longleftrightarrow> t_refc (tasks w t) \<ge> 1 \<and> has_stack w t"

lemma call_stack_member: "call_stack w t p ns \<Longrightarrow> n \<in> set ns \<Longrightarrow> aw_task (aws w (Obj n)) = Some t"
  by (induction ns arbitrary: p) auto

lemma has_stack_frame:
  assumes "has_stack w t'" and "t_top (tasks w' t') = t_top (tasks w t')"
    and "\<And>n. aw_task (aws w (Obj n)) = Some t' \<Longrightarrow> aws w' (Obj n) = aws w (Obj n)"
  shows "has_stack w' t'"
proof -
  have "call_stack w' t' p ns \<longleftrightarrow> call_stack w t' p ns" if "call_stack w t' p ns" for p ns
    using call_stack_member [OF that] assms(3) by (intro call_stack_cong) simp
  then show ?thesis using assms(1,2) unfolding has_stack_def by metis
qed

lemma unwind_stack_ok:
  assumes "has_stack w t"
  shows "\<exists>w'. unwind_stack vt t w = Some w' \<and>
    (\<exists>p. tasks w' = (tasks w)(t := (tasks w t)\<lparr>t_top := p\<rparr>) \<and> (p = None \<or> p = Some (TaskA t))) \<and>
    tasks_all w' = tasks_all w \<and> tasks_ready w' = tasks_ready w \<and> running_task w' = running_task w \<and>
    (\<forall>b. aw_task (aws w b) \<noteq> Some t \<longrightarrow> aws w' b = aws w b)"
proof (cases "t_top (tasks w t) = None")
  case True
  then have "tasks w = (tasks w)(t := (tasks w t)\<lparr>t_top := None\<rparr>)" by (simp add: fun_upd_idem)
  with True show ?thesis using unwind_stack_exited [of w t vt] by metis
next
  case False
  then obtain ns where ns: "call_stack w t (t_top (tasks w t)) ns" "distinct ns"
    using assms by (auto simp: has_stack_def)
  have "b \<notin> Obj ` set ns" if "aw_task (aws w b) \<noteq> Some t" for b
    using that call_stack_member [OF ns(1)] by auto
  then show ?thesis using unwind_stack_spec [OF ns, of vt] by (metis (no_types, lifting))
qed

lemma task_unref_ok:
  assumes "t_refc (tasks w t) \<ge> 1"
  shows "\<exists>w'. task_unref t w = Some w' \<and> aws w' = aws w \<and> tasks_all w' = tasks_all w \<and>
    tasks_ready w' = tasks_ready w \<and> running_task w' = running_task w \<and>
    (\<forall>s. s \<noteq> t \<longrightarrow> tasks w' s = tasks w s) \<and> t_queued (tasks w' t) = t_queued (tasks w t) \<and>
    t_state (tasks w' t) = t_state (tasks w t) \<and> user w' = user w \<and> exit_loop w' = exit_loop w"
  using assms by (cases "t_refc (tasks w t) = 1") (auto simp: task_unref_def Let_def)

lemma cancel_prune:
  assumes rep: "ll_rep (tasks_all w) (ds @ t # ys)" and "running_task w = None"
    and ok: "\<And>s. s \<in> set (ds @ t # ys) \<Longrightarrow> task_ok w s"
  shows "\<exists>w'. with_task_ptr t (\<lambda>w. map_option snd (TaskQueue_cancel vt t w)) w = Some w' \<and>
    running_task w' = None \<and> tasks_ready w' = tasks_ready w \<and>
    (\<forall>s. s \<noteq> t \<longrightarrow> tasks w' s = tasks w s) \<and>
    (ll_rep (tasks_all w') ((ds @ [t]) @ ys) \<and> (\<forall>s \<in> set ((ds @ [t]) @ ys). task_ok w' s) \<or>
     ll_rep (tasks_all w') (ds @ ys) \<and> (\<forall>s \<in> set (ds @ ys). task_ok w' s) \<and> \<not> t_queued (tasks w' t))"
proof -
  have dist: "t \<notin> set (ds @ ys)" using flist.rep_distinct [OF rep] by auto
  have refc: "t_refc (tasks w t) \<ge> 1" and stk: "has_stack w t"
    using ok [of t] by (auto simp: task_ok_def)
  let ?w0 = "upd_task t (\<lambda>x. x\<lparr>t_refc := t_refc x + 1\<rparr>) w"
  have "has_stack ?w0 t" using has_stack_frame [OF stk, of ?w0] by simp
  then obtain w1 p where w1: "unwind_stack vt t ?w0 = Some w1"
      "tasks w1 = (tasks ?w0)(t := (tasks ?w0 t)\<lparr>t_top := p\<rparr>)" "p = None \<or> p = Some (TaskA t)"
      "tasks_all w1 = tasks_all w" "tasks_ready w1 = tasks_ready w" "running_task w1 = None"
      "\<forall>b. aw_task (aws w b) \<noteq> Some t \<longrightarrow> aws w1 b = aws w b"
    using unwind_stack_ok [of ?w0 t vt] assms(2) by auto
  have others: "task_ok w' s"
    if "s \<in> set (ds @ ys)" "tasks w' s = tasks w s" "\<And>n. aws w' (Obj n) = aws w1 (Obj n)" for s w'
  proof -
    have "s \<noteq> t" using that(1) dist by auto
    then have "has_stack w' s"
      using ok [of s] that w1(7) by (intro has_stack_frame [of w s w']) (auto simp: task_ok_def)
    then show ?thesis using ok [of s] that(1,2) by (auto simp: task_ok_def)
  qed
  have self: "has_stack w' t" if "t_top (tasks w' t) = p" for w' :: "'a world"
    using that w1(3) unfolding has_stack_def by (metis call_stack.simps(1) distinct.simps(1))
  show ?thesis
  proof (cases "t_state (tasks w t) = Ready")
    case True
    let ?w2 = "set_error t Error_default (upd_task t (\<lambda>x. x\<lparr>t_state := Ready\<rparr>) w1)"
    let ?w3 = "upd_task t (\<lambda>x. x\<lparr>t_refc := t_refc x - 1\<rparr>) ?w2"
    have "with_task_ptr t (\<lambda>w. map_option snd (TaskQueue_cancel vt t w)) w = Some ?w3"
      using True refc w1 assms(2)
      by (simp add: with_task_ptr_def task_ref_def task_unref_def TaskQueue_cancel_def set_error_def Let_def)
    moreover have "\<forall>s \<in> set ((ds @ [t]) @ ys). task_ok ?w3 s"
    proof
      fix s assume "s \<in> set ((ds @ [t]) @ ys)"
      then consider "s = t" | "s \<in> set (ds @ ys)" "s \<noteq> t" using dist by auto
      then show "task_ok ?w3 s"
      proof cases
        case 1
        then show ?thesis using self [of ?w3] refc w1(2) by (simp add: task_ok_def set_error_def)
      next
        case 2
        then show ?thesis using w1(2) by (intro others) (auto simp: set_error_def)
      qed
    qed
    ultimately show ?thesis using rep w1 by (auto simp: set_error_def)
  next
    case False
    let ?w2 = "upd_task t (\<lambda>x. x\<lparr>t_state := Exited\<rparr>) (upd_task t (\<lambda>x. x\<lparr>t_state := Ready\<rparr>) w1)"
    have r2: "ll_rep (tasks_all ?w2) (ds @ t # ys)" "t_refc (tasks ?w2 t) \<ge> 1"
      using rep w1(2,4) refc by auto
    obtain w3 where w3: "TaskQueue_pop t ?w2 = Some (Successful, w3)" "ll_rep (tasks_all w3) (ds @ ys)"
      "tasks w3 = (tasks ?w2)(t := (tasks ?w2 t)\<lparr>t_queued := False, t_refc := t_refc (tasks ?w2 t) - 1,
        t_destroyed := (t_destroyed (tasks ?w2 t) \<or> t_refc (tasks ?w2 t) = 1)\<rparr>)"
      "aws w3 = aws ?w2" "tasks_ready w3 = tasks_ready ?w2" "running_task w3 = running_task ?w2"
      using TaskQueue_pop_in [OF r2] by blast
    have "t_refc (tasks w3 t) \<ge> 1" using w3(3) w1(2) refc by simp
    from task_unref_ok [OF this] obtain w4 where w4: "task_unref t w3 = Some w4" "aws w4 = aws w3" "tasks_all w4 = tasks_all w3"
        "tasks_ready w4 = tasks_ready w3" "running_task w4 = running_task w3"
        "\<forall>s. s \<noteq> t \<longrightarrow> tasks w4 s = tasks w3 s" "t_queued (tasks w4 t) = t_queued (tasks w3 t)"
      by blast
    have "with_task_ptr t (\<lambda>w. map_option snd (TaskQueue_cancel vt t w)) w = Some w4"
      using False refc w1 assms(2) w3(1) w4(1)
      by (simp add: with_task_ptr_def task_ref_def TaskQueue_cancel_def Let_def)
    moreover have "\<forall>s \<in> set (ds @ ys). task_ok w4 s"
    proof
      fix s assume s: "s \<in> set (ds @ ys)"
      then have "s \<noteq> t" using dist by auto
      with s show "task_ok w4 s" using w4 w3 w1(2) by (intro others) auto
    qed
    ultimately show ?thesis using w4 w3 w1 by auto
  qed
qed

lemma drain_ready_rep:
  "ts_rep (tasks_ready w) rs \<Longrightarrow>
   \<exists>w'. drain_ready w = Some w' \<and> ts_rep (tasks_ready w') [] \<and> tasks w' = tasks w \<and>
     tasks_all w' = tasks_all w \<and> aws w' = aws w \<and> running_task w' = running_task w"
proof (induction rs arbitrary: w)
  case Nil
  then show ?case
    using ts.pop_nil [OF Nil] by (simp add: drain_ready.simps pop_ready_def)
next
  case (Cons t rs)
  obtain r where r: "ts_pop (tasks_ready w) = (Some t, r)" "ts_rep r rs"
    using ts.pop_cons [OF Cons.prems] by blast
  then have "drain_ready w = drain_ready (w\<lparr>tasks_ready := r\<rparr>)"
    by (simp add: drain_ready.simps [of w] pop_ready_def)
  then show ?case using Cons.IH [of "w\<lparr>tasks_ready := r\<rparr>"] r(2) by simp
qed

lemma pop_consume:
  assumes "ll_rep (tasks_all w) (t # ys)" and "t_refc (tasks w t) \<ge> 1"
  shows "\<exists>w'. with_task_ptr t (\<lambda>w. map_option snd (TaskQueue_pop t w)) w = Some w' \<and>
    ll_rep (tasks_all w') ys \<and> tasks_ready w' = tasks_ready w \<and> \<not> t_queued (tasks w' t) \<and>
    (\<forall>s. s \<noteq> t \<longrightarrow> tasks w' s = tasks w s)"
proof -
  let ?w0 = "upd_task t (\<lambda>x. x\<lparr>t_refc := t_refc x + 1\<rparr>) w"
  have "ll_rep (tasks_all ?w0) ([] @ t # ys)" "t_refc (tasks ?w0 t) \<ge> 1" using assms by auto
  from TaskQueue_pop_in [OF this] obtain w1 where w1: "TaskQueue_pop t ?w0 = Some (Successful, w1)"
      "ll_rep (tasks_all w1) ys" "tasks_ready w1 = tasks_ready w"
      "tasks w1 = (tasks ?w0)(t := (tasks ?w0 t)\<lparr>t_queued := False, t_refc := t_refc (tasks ?w0 t) - 1,
        t_destroyed := (t_destroyed (tasks ?w0 t) \<or> t_refc (tasks ?w0 t) = 1)\<rparr>)"
    by auto
  then show ?thesis
    using assms(2) by (auto simp: with_task_ptr_def task_ref_def task_unref_def Let_def)
qed

text \<open>
  Leaving the loop. When no task is running, \<^verbatim>\<open>exit\<close> terminates, whatever state each task
  of the queue is in: afterwards the queue and the ready list are empty and no task is attached to
  the queue any more.
\<close>

theorem exit_empties_the_queue:
  assumes "ll_rep (tasks_all w) xs" and "ts_rep (tasks_ready w) rs" and "running_task w = None"
    and "\<And>t. t \<in> set xs \<Longrightarrow> task_ok w t"
  shows "\<exists>w'. TaskQueue_exit vt w = Some w' \<and> ll_rep (tasks_all w') [] \<and>
    ts_rep (tasks_ready w') [] \<and> (\<forall>t \<in> set xs. \<not> t_queued (tasks w' t))"
proof -
  let ?off = "\<lambda>ys w. \<forall>t \<in> set xs - set ys. \<not> t_queued (tasks w t)"
  let ?I = "\<lambda>ds ys w. ll_rep (tasks_all w) (ds @ ys) \<and>
    ts_rep (tasks_ready w) rs \<and> running_task w = None \<and> (\<forall>t \<in> set (ds @ ys). task_ok w t) \<and> ?off (ds @ ys) w"
  let ?f = "\<lambda>t. with_task_ptr t (\<lambda>w. map_option snd (TaskQueue_cancel vt t w))"
  have step: "\<exists>w'. ?f n w = Some w' \<and> (?I (ds @ [n]) ys w' \<or> ?I ds ys w')"
    if I: "?I ds (n # ys) w" for n ds ys w
  proof -
    have "n \<notin> set (ds @ ys)" using I flist.rep_distinct [of "tasks_all w"] by fastforce
    with cancel_prune [of w ds n ys vt] I show ?thesis by fastforce
  qed
  have "\<exists>w1 ds. for_each_from tasks_all ?f (Some (first_addr xs)) w = Some w1 \<and> ?I ds [] w1"
    by (rule for_each_from_prune [where I = ?I and ds = "[]"], rule step)
      (use assms in \<open>auto dest: ll_rep_links\<close>)
  then obtain w1 ds where w1: "for_each_from tasks_all ?f (Some (first_addr xs)) w = Some w1"
      "?I ds [] w1" by blast
  obtain w2 where w2: "drain_ready w1 = Some w2" "ts_rep (tasks_ready w2) []" "tasks w2 = tasks w1"
      "tasks_all w2 = tasks_all w1"
    using drain_ready_rep [of w1 rs] w1(2) by auto
  let ?J = "\<lambda>ys w. ll_rep (tasks_all w) ys \<and> ts_rep (tasks_ready w) [] \<and>
    (\<forall>t \<in> set ys. t_refc (tasks w t) \<ge> 1) \<and> ?off ys w"
  let ?g = "\<lambda>t. with_task_ptr t (\<lambda>w. map_option snd (TaskQueue_pop t w))"
  have step2: "\<exists>w'. ?g n w = Some w' \<and> ?J ys w'" if J: "?J (n # ys) w" for n ys w
  proof -
    have "n \<notin> set ys" using J flist.rep_distinct [of "tasks_all w"] by fastforce
    with pop_consume [of w n ys] J show ?thesis by fastforce
  qed
  have "\<exists>w3. for_each_from tasks_all ?g (Some (first_addr ds)) w2 = Some w3 \<and> ?J [] w3"
    by (rule for_each_from_consume [where I = ?J], rule step2)
      (use w1 w2 in \<open>auto dest: ll_rep_links simp: task_ok_def\<close>)
  then show ?thesis
    using assms(1,3) w1 w2 by (auto simp: TaskQueue_exit_def for_each_def ll_rep_def)
qed

theorem exit_empties_the_queue_witness:
  "\<exists>w'. TaskQueue_exit default_vt suspended_world = Some w' \<and> ll_rep (tasks_all w') [] \<and>
     ts_rep (tasks_ready w') [] \<and> (\<forall>t \<in> set [1]. \<not> t_queued (tasks w' t))"
proof (rule exit_empties_the_queue)
  show "ll_rep (tasks_all suspended_world) [1]" by (rule suspended_world_all)
  show "ts_rep (tasks_ready suspended_world) []"
    by (simp add: suspended_world_defs ts.rep_new split: prod.splits)
  show "running_task suspended_world = None" by (rule suspended_world_simps)
  have "call_stack suspended_world 1 (t_top (tasks suspended_world 1)) [7, 8] \<and> distinct [7 :: nat, 8]"
    by (simp add: suspended_world_simps del: One_nat_def)
  then have "has_stack suspended_world 1" unfolding has_stack_def by blast
  then show "task_ok suspended_world t" if "t \<in> set [1]" for t
    using that by (simp add: task_ok_def suspended_world_simps del: One_nat_def)
qed

section \<open>Running to completion\<close>

definition returning :: "'u vtable \<Rightarrow> nat \<Rightarrow> bool" where
  "returning vt n \<longleftrightarrow> (\<forall>u. vt_poll vt n u = Done u ReturnA)"

text \<open>
  An awaitable that returns whenever it is polled; what its poll does to the state of the program is \<open>poll_effect\<close>, and together with its
  finalization \<open>poll_final\<close>.
\<close>

definition poll_effect :: "'u vtable \<Rightarrow> nat \<Rightarrow> 'u \<Rightarrow> 'u" where
  "poll_effect vt n u = (case vt_poll vt n u of Done u' a \<Rightarrow> u' | Do _ _ \<Rightarrow> u)"

definition returns :: "'u vtable \<Rightarrow> nat \<Rightarrow> bool" where
  "returns vt n \<longleftrightarrow> (\<forall>u. vt_poll vt n u = Done (poll_effect vt n u) ReturnA)"

definition poll_final :: "'u vtable \<Rightarrow> nat \<Rightarrow> 'u \<Rightarrow> 'u" where
  "poll_final vt n u = vt_final vt n (poll_effect vt n u)"

lemma returning_returns: "returning vt n \<Longrightarrow> returns vt n \<and> poll_final vt n = vt_final vt n"
  by (auto simp: returning_def returns_def poll_final_def poll_effect_def)

lemma aw_run_returns:
  assumes "returns vt n" and "\<not> Error_bool (aw_error (aws w (Obj n)))"
    and "aw_task (aws w (Obj n)) = Some t" and "aw_caller (aws w (Obj n)) = Some c" and "c \<noteq> Obj n"
  shows "\<exists>w'. aw_run vt (Obj n) w = Some (Val Ready, w') \<and>
    tasks w' = (tasks w)(t := (tasks w t)\<lparr>t_top := Some c\<rparr>) \<and>
    (\<forall>b. b \<noteq> Obj n \<longrightarrow> aws w' b = aws w b) \<and> user w' = poll_final vt n (user w) \<and>
    tasks_all w' = tasks_all w \<and> tasks_ready w' = tasks_ready w \<and> exit_loop w' = exit_loop w \<and> wakeups w' = wakeups w"
  using assms
  by (simp add: aw_run.simps [of vt "Obj n"] virtual_call_def returns_def poll_final_def after_poll_def
      async_return_def Let_def)

lemma aw_run_task_return:
  assumes "\<not> Error_bool (aw_error (aws w (TaskA t)))"
  shows "aw_run vt (TaskA t) w =
    Some (Val Exited, upd_task t (\<lambda>x. x\<lparr>t_top := None, t_state := Exited\<rparr>) w)"
  using assms by (simp add: aw_run.simps [of vt "TaskA t"] virtual_call_def after_poll_def Let_def)

lemma return_stack:
  assumes "call_stack w t (t_top (tasks w t)) ns" and "distinct ns"
    and "\<And>n. n \<in> set ns \<Longrightarrow> returns vt n \<and> \<not> Error_bool (aw_error (aws w (Obj n)))"
    and "\<not> Error_bool (aw_error (aws w (TaskA t)))"
  shows "\<exists>w'. Task_run vt t w = Some (Val Exited, w') \<and>
    tasks w' = (tasks w)(t := (tasks w t)\<lparr>t_top := None, t_state := Exited\<rparr>) \<and>
    (\<forall>b. b \<notin> Obj ` set ns \<longrightarrow> aws w' b = aws w b) \<and> user w' = fold (poll_final vt) ns (user w) \<and>
    tasks_all w' = tasks_all w \<and> tasks_ready w' = tasks_ready w \<and> exit_loop w' = exit_loop w \<and> wakeups w' = wakeups w"
  using assms
proof (induction ns arbitrary: w)
  case Nil
  then show ?case
    using Task_run_stop [OF _ aw_run_task_return [of w t vt]] by (simp add: fun_upd_def)
next
  case (Cons n ns)
  have top: "t_top (tasks w t) = Some (Obj n)" and tsk: "aw_task (aws w (Obj n)) = Some t"
    using Cons.prems(1) by simp_all
  obtain c where c: "aw_caller (aws w (Obj n)) = Some c" and rest: "call_stack w t (Some c) ns"
    using Cons.prems(1) by (cases ns) auto
  have c': "c \<noteq> Obj n" using rest Cons.prems(2) by (cases ns) auto
  obtain w1 where w1: "aw_run vt (Obj n) w = Some (Val Ready, w1)"
      "tasks w1 = (tasks w)(t := (tasks w t)\<lparr>t_top := Some c\<rparr>)"
      "\<forall>b. b \<noteq> Obj n \<longrightarrow> aws w1 b = aws w b" "user w1 = poll_final vt n (user w)"
      "tasks_all w1 = tasks_all w" "tasks_ready w1 = tasks_ready w" "exit_loop w1 = exit_loop w" "wakeups w1 = wakeups w"
    using aw_run_returns [OF _ _ tsk c c'] Cons.prems(3) by (metis list.set_intros(1))
  have same: "aws w1 (Obj m) = aws w (Obj m)" if "m \<in> set ns" for m
    using that w1(3) Cons.prems(2) by auto
  have "call_stack w1 t (t_top (tasks w1 t)) ns"
    using rest w1(2) call_stack_cong [of ns w1 w t "Some c"] same by simp
  moreover have "distinct ns" using Cons.prems(2) by simp
  moreover have "returns vt m \<and> \<not> Error_bool (aw_error (aws w1 (Obj m)))" if "m \<in> set ns" for m
    using Cons.prems(3) [of m] that same by simp
  moreover have "\<not> Error_bool (aw_error (aws w1 (TaskA t)))" using Cons.prems(4) w1(3) by simp
  ultimately obtain w' where w': "Task_run vt t w1 = Some (Val Exited, w')"
    "tasks w' = (tasks w1)(t := (tasks w1 t)\<lparr>t_top := None, t_state := Exited\<rparr>)"
    "\<forall>b. b \<notin> Obj ` set ns \<longrightarrow> aws w' b = aws w1 b" "user w' = fold (poll_final vt) ns (user w1)"
    "tasks_all w' = tasks_all w1" "tasks_ready w' = tasks_ready w1" "exit_loop w' = exit_loop w1" "wakeups w' = wakeups w1"
    using Cons.IH [of w1] by blast
  show ?case
    using Task_run_step [OF top w1(1)] w' w1 by auto
qed

text \<open>A task whose whole call stack returns at its next poll, with nothing to report.\<close>

definition will_return :: "'u vtable \<Rightarrow> 'u world \<Rightarrow> nat \<Rightarrow> bool" where
  "will_return vt w t \<longleftrightarrow>
     t_refc (tasks w t) \<ge> 1 \<and> \<not> Error_bool (aw_error (aws w (TaskA t))) \<and>
     (\<exists>ns. call_stack w t (t_top (tasks w t)) ns \<and> distinct ns \<and>
        (\<forall>n \<in> set ns. returns vt n \<and> \<not> Error_bool (aw_error (aws w (Obj n)))))"

lemma will_return_frame:
  assumes "will_return vt w s" and "tasks w' s = tasks w s" and "aws w' (TaskA s) = aws w (TaskA s)"
    and "\<And>n. aw_task (aws w (Obj n)) = Some s \<Longrightarrow> aws w' (Obj n) = aws w (Obj n)"
  shows "will_return vt w' s"
proof -
  obtain ns where ns: "call_stack w s (t_top (tasks w s)) ns" "distinct ns"
      "\<forall>n \<in> set ns. returns vt n \<and> \<not> Error_bool (aw_error (aws w (Obj n)))"
    using assms(1) by (auto simp: will_return_def)
  have same: "aws w' (Obj n) = aws w (Obj n)" if "n \<in> set ns" for n
    using assms(4) call_stack_member [OF ns(1) that] by simp
  then have "call_stack w' s (t_top (tasks w' s)) ns"
    using ns(1) assms(2) call_stack_cong [of ns w' w] by simp
  then show ?thesis
    using assms(1-3) ns same unfolding will_return_def by metis
qed

lemma unref_keeps_wakeups: "task_unref t w = Some w' \<Longrightarrow> wakeups w' = wakeups w"
  by (auto simp: task_unref_def Let_def split: if_splits)

lemma pop_keeps_wakeups: "TaskQueue_pop t w = Some (r, w') \<Longrightarrow> wakeups w' = wakeups w"
  by (auto simp: TaskQueue_pop_def bind_Some_iff Let_def dest!: unref_keeps_wakeups split: if_splits)

lemma loop_exit_quietly:
  assumes "ll_rep (tasks_all w) (as @ t # bs)" and "t_refc (tasks w t) \<ge> 1"
    and "\<not> Error_bool (aw_error (aws w (TaskA t)))"
  shows "\<exists>w'. loop_on_task_exit h t w = Some (Val False, w') \<and> ll_rep (tasks_all w') (as @ bs) \<and>
    aws w' = aws w \<and> tasks_ready w' = tasks_ready w \<and> (\<forall>s. s \<noteq> t \<longrightarrow> tasks w' s = tasks w s) \<and>
    \<not> t_queued (tasks w' t) \<and> t_state (tasks w' t) = t_state (tasks w t) \<and>
    user w' = user w \<and> exit_loop w' = exit_loop w \<and> wakeups w' = wakeups w"
proof -
  let ?w0 = "upd_task t (\<lambda>x. x\<lparr>t_refc := t_refc x + 1\<rparr>) w"
  have "ll_rep (tasks_all ?w0) (as @ t # bs)" "t_refc (tasks ?w0 t) \<ge> 1" using assms by auto
  from TaskQueue_pop_in [OF this] obtain w1 where w1: "TaskQueue_pop t ?w0 = Some (Successful, w1)"
      "ll_rep (tasks_all w1) (as @ bs)" "aws w1 = aws w" "tasks_ready w1 = tasks_ready w"
      "tasks w1 = (tasks ?w0)(t := (tasks ?w0 t)\<lparr>t_queued := False, t_refc := t_refc (tasks ?w0 t) - 1,
        t_destroyed := (t_destroyed (tasks ?w0 t) \<or> t_refc (tasks ?w0 t) = 1)\<rparr>)"
      "user w1 = user w" "exit_loop w1 = exit_loop w"
    by auto
  have "t_refc (tasks w1 t) \<ge> 1" using w1(5) assms(2) by simp
  from task_unref_ok [OF this] obtain w2 where "task_unref t w1 = Some w2" "aws w2 = aws w1"
      "tasks_all w2 = tasks_all w1" "tasks_ready w2 = tasks_ready w1"
      "\<forall>s. s \<noteq> t \<longrightarrow> tasks w2 s = tasks w1 s" "t_queued (tasks w2 t) = t_queued (tasks w1 t)"
      "t_state (tasks w2 t) = t_state (tasks w1 t)" "user w2 = user w1" "exit_loop w2 = exit_loop w1"
    by blast
  then show ?thesis
    using assms(2,3) w1 pop_keeps_wakeups [OF w1(1)] unref_keeps_wakeups [of t w1 w2] by (simp add: loop_on_task_exit_def task_ref_def Let_def)
qed

lemma step_returns:
  assumes "will_return vt w t" and "ll_rep (tasks_all w) (as @ t # bs)"
  shows "\<exists>w'. TaskQueue_step vt engine (\<lambda>t w. w) (loop_on_task_exit h) t w =
      Some (map_prod Continue (\<lambda>x. x) (pop_ready w')) \<and>
    ll_rep (tasks_all w') (as @ bs) \<and> tasks_ready w' = tasks_ready w \<and>
    (\<forall>s. s \<noteq> t \<longrightarrow> tasks w' s = tasks w s) \<and>
    (\<forall>b. aw_task (aws w b) \<noteq> Some t \<longrightarrow> aws w' b = aws w b) \<and> (\<forall>s. aws w' (TaskA s) = aws w (TaskA s)) \<and>
    \<not> t_queued (tasks w' t) \<and> t_state (tasks w' t) = Exited \<and> exit_loop w' = exit_loop w \<and> wakeups w' = wakeups w \<and>
    (\<exists>ns. user w' = fold (poll_final vt) ns (user w))"
proof -
  let ?w2 = "(upd_task t (\<lambda>x. x\<lparr>t_exc := None\<rparr>) w)\<lparr>running_task := Some t\<rparr>"
  obtain ns where ns: "call_stack w t (t_top (tasks w t)) ns" "distinct ns"
      "\<forall>n \<in> set ns. returns vt n \<and> \<not> Error_bool (aw_error (aws w (Obj n)))"
    using assms(1) by (auto simp: will_return_def)
  have "call_stack ?w2 t (t_top (tasks ?w2 t)) ns"
    using ns(1) call_stack_cong [of ns ?w2 w] by simp
  with return_stack [of ?w2 t ns vt] ns assms(1) obtain w3 where
    w3: "Task_run vt t ?w2 = Some (Val Exited, w3)"
      "tasks w3 = (tasks ?w2)(t := (tasks ?w2 t)\<lparr>t_top := None, t_state := Exited\<rparr>)"
      "\<forall>b. b \<notin> Obj ` set ns \<longrightarrow> aws w3 b = aws w b" "tasks_all w3 = tasks_all w"
      "tasks_ready w3 = tasks_ready w" "exit_loop w3 = exit_loop w" "wakeups w3 = wakeups w" "user w3 = fold (poll_final vt) ns (user w)"
    unfolding will_return_def by fastforce
  let ?w4 = "upd_task t (\<lambda>x. x\<lparr>t_state := Exited\<rparr>) (w3\<lparr>running_task := None\<rparr>)"
  have tsk: "aws w3 (TaskA s) = aws w (TaskA s)" for s using w3(3) by auto
  then have "ll_rep (tasks_all ?w4) (as @ t # bs)" "t_refc (tasks ?w4 t) \<ge> 1"
      "\<not> Error_bool (aw_error (aws ?w4 (TaskA t)))"
    using assms w3(2,4) by (auto simp: will_return_def)
  from loop_exit_quietly [OF this, of h] obtain w5 where
    w5: "loop_on_task_exit h t ?w4 = Some (Val False, w5)" "ll_rep (tasks_all w5) (as @ bs)"
      "aws w5 = aws ?w4" "tasks_ready w5 = tasks_ready ?w4" "\<forall>s. s \<noteq> t \<longrightarrow> tasks w5 s = tasks ?w4 s"
      "\<not> t_queued (tasks w5 t)" "t_state (tasks w5 t) = t_state (tasks ?w4 t)"
      "exit_loop w5 = exit_loop ?w4" "wakeups w5 = wakeups ?w4" "user w5 = user ?w4" by blast
  have "b \<notin> Obj ` set ns" if "aw_task (aws w b) \<noteq> Some t" for b
    using that call_stack_member [OF ns(1)] by auto
  then show ?thesis
    using w3 w5 by (intro exI [of _ w5]) (auto simp: TaskQueue_step_def TaskQueue_exited_def Let_def)
qed


text \<open>
  The event engine. The events it is going to report are a part of the state of the program that the awaitables do not touch (\<open>ev\<close> reads them,
  \<open>set_ev\<close> writes them); each is known by the task its callback resumes. \<open>deliver k\<close> is a poll that reports the first \<open>k\<close> of them.
\<close>

definition resume_all :: "nat list \<Rightarrow> 'u world \<Rightarrow> 'u world" where
  "resume_all ts w = fold (\<lambda>t w. snd (Task_resume t Error_default w)) ts w"

definition deliver :: "('u \<Rightarrow> nat list) \<Rightarrow> (nat list \<Rightarrow> 'u \<Rightarrow> 'u) \<Rightarrow> nat \<Rightarrow> 'u world \<Rightarrow> 'u world" where
  "deliver ev set_ev k w =
     resume_all (take k (ev (user w))) (w\<lparr>wakeups := 0, user := set_ev (drop k (ev (user w))) (user w)\<rparr>)"

text \<open>
  What the loop needs of \<^verbatim>\<open>poll\<close>: it returns when the engine was woken up, and otherwise when there is an event to report, in which case it reports
  one or more; without either nothing is known, it may block for ever. Between \<^verbatim>\<open>wakeup\<close> and \<^verbatim>\<open>poll\<close> it may report any number of events.
\<close>

definition polls_events :: "('u \<Rightarrow> nat list) \<Rightarrow> (nat list \<Rightarrow> 'u \<Rightarrow> 'u) \<Rightarrow> ('u world \<Rightarrow> 'u world option) \<Rightarrow> bool" where
  "polls_events ev set_ev engine \<longleftrightarrow> (\<forall>w. wakeups w > 0 \<or> ev (user w) \<noteq> [] \<longrightarrow>
     (\<exists>k \<le> length (ev (user w)). engine w = Some (deliver ev set_ev k w) \<and> (wakeups w = 0 \<longrightarrow> k > 0)))"

text \<open>\<open>rs\<close> are the ready tasks, the events are those of the others, and all of them return when they are polled.\<close>

definition loop_inv :: "('u \<Rightarrow> nat list) \<Rightarrow> 'u vtable \<Rightarrow> nat list \<Rightarrow> nat list \<Rightarrow> 'u world \<Rightarrow> bool" where
  "loop_inv ev vt xs rs w \<longleftrightarrow> ll_rep (tasks_all w) xs \<and> distinct (rs @ ev (user w)) \<and> set xs = set (rs @ ev (user w)) \<and>
     (\<forall>s \<in> set xs. will_return vt w s) \<and>
     (\<forall>s \<in> set (ev (user w)). t_queued (tasks w s) \<and> t_state (tasks w s) \<notin> {Ready, Exited})"

lemma Task_resume_waiting:
  assumes "t_queued (tasks w t)" and "t_state (tasks w t) \<notin> {Ready, Exited}" and "will_return vt w t"
  defines "w' \<equiv> snd (Task_resume t Error_default w)"
  shows "tasks_ready w' = ts_push t (tasks_ready w)" "tasks_all w' = tasks_all w" "user w' = user w" "exit_loop w' = exit_loop w"
    "wakeups w' = wakeups w + 1" "will_return vt w' t" "\<And>s. s \<noteq> t \<Longrightarrow> tasks w' s = tasks w s" "\<And>a. a \<noteq> TaskA t \<Longrightarrow> aws w' a = aws w a"
proof -
  have w': "w' = (set_error t Error_default (upd_task t (\<lambda>x. x\<lparr>t_state := Ready\<rparr>) w))
      \<lparr>tasks_ready := ts_push t (tasks_ready w), wakeups := wakeups w + 1\<rparr>"
    using assms(1,2) by (simp add: w'_def Task_resume_def Loop_schedule_def TaskQueue_schedule_def Let_def set_error_def)
  obtain ns where ns: "call_stack w t (t_top (tasks w t)) ns" "distinct ns"
      "\<forall>n \<in> set ns. returns vt n \<and> \<not> Error_bool (aw_error (aws w (Obj n)))" "t_refc (tasks w t) \<ge> 1"
    using assms(3) by (auto simp: will_return_def)
  have "call_stack w' t (t_top (tasks w' t)) ns"
    using ns(1) call_stack_cong [of ns w' w] by (simp add: w' set_error_def)
  then show "will_return vt w' t" "tasks_ready w' = ts_push t (tasks_ready w)" "tasks_all w' = tasks_all w" "user w' = user w"
    "exit_loop w' = exit_loop w" "wakeups w' = wakeups w + 1" "\<And>s. s \<noteq> t \<Longrightarrow> tasks w' s = tasks w s"
    "\<And>a. a \<noteq> TaskA t \<Longrightarrow> aws w' a = aws w a"
    using ns unfolding will_return_def
    by ((intro conjI exI [of _ ns])?, simp_all add: w' set_error_def Error_bool_def Error_default_def)
qed

lemma resume_all_waiting:
  assumes "distinct ts" and "set ts \<inter> set rs = {}" and "ts_rep (tasks_ready w) rs" and "length rs + length ts < size_max"
    and "\<And>t. t \<in> set ts \<Longrightarrow> t_queued (tasks w t) \<and> t_state (tasks w t) \<notin> {Ready, Exited}"
    and "\<And>t. t \<in> set xs \<Longrightarrow> will_return vt w t" and "set ts \<subseteq> set xs"
  defines "w' \<equiv> resume_all ts w"
  shows "ts_rep (tasks_ready w') (rev ts @ rs) \<and> tasks_all w' = tasks_all w \<and> user w' = user w \<and> exit_loop w' = exit_loop w \<and>
    wakeups w' = wakeups w + length ts \<and> (\<forall>t \<in> set xs. will_return vt w' t) \<and> (\<forall>s. s \<notin> set ts \<longrightarrow> tasks w' s = tasks w s)"
  using assms(1-7) unfolding w'_def
proof (induction ts arbitrary: w rs)
  case Nil
  then show ?case by (simp add: resume_all_def)
next
  case (Cons t ts)
  let ?w = "snd (Task_resume t Error_default w)"
  have t: "t_queued (tasks w t)" "t_state (tasks w t) \<notin> {Ready, Exited}" "will_return vt w t"
    using Cons.prems(5) [of t] Cons.prems(6) [of t] Cons.prems(7) by auto
  note f = Task_resume_waiting [OF t]
  have rep: "ts_rep (tasks_ready ?w) (t # rs)"
    unfolding f(1) using Cons.prems(2-4) by (intro ts_push_rep) auto
  have wr: "will_return vt ?w s" if "s \<in> set xs" for s
    using f(6-8) Cons.prems(6) [OF that] by (cases "s = t") (auto intro!: will_return_frame [of vt w s ?w])
  have "t_queued (tasks ?w s) \<and> t_state (tasks ?w s) \<notin> {Ready, Exited}" if "s \<in> set ts" for s
  proof -
    have "s \<noteq> t" using that Cons.prems(1) by auto
    then show ?thesis using f(7) Cons.prems(5) [of s] that by auto
  qed
  from Cons.IH [OF _ _ rep _ this wr] Cons.prems(1,2,4,7) f(2-5,7) show ?case
    by (auto simp: resume_all_def)
qed

lemma deliver_inv:
  assumes "loop_inv ev vt xs [] w" and "ts_rep (tasks_ready w) []" and "k \<le> length (ev (user w))" and "length xs < size_max"
    and "\<And>es u. ev (set_ev es u) = es"
  defines "w' \<equiv> deliver ev set_ev k w"
  shows "\<exists>rs. ts_rep (tasks_ready w') rs \<and> length rs = k \<and> loop_inv ev vt xs rs w' \<and> wakeups w' = k \<and> exit_loop w' = exit_loop w \<and>
    (\<forall>s. s \<notin> set xs \<longrightarrow> tasks w' s = tasks w s)"
proof -
  let ?es = "ev (user w)"
  let ?w = "w\<lparr>wakeups := 0, user := set_ev (drop k ?es) (user w)\<rparr>"
  have inv: "ll_rep (tasks_all w) xs" "distinct ?es" "set xs = set ?es" "\<And>s. s \<in> set xs \<Longrightarrow> will_return vt w s"
      "\<And>s. s \<in> set ?es \<Longrightarrow> t_queued (tasks w s) \<and> t_state (tasks w s) \<notin> {Ready, Exited}"
    using assms(1) by (auto simp: loop_inv_def)
  have len: "length ?es < size_max"
    using assms(4) inv(2,3) flist.rep_distinct [OF inv(1)] by (metis distinct_card)
  have wr: "will_return vt ?w s" if "s \<in> set xs" for s
    using inv(4) [OF that] by (rule will_return_frame) simp_all
  have "set (take k ?es) \<subseteq> set xs" using inv(3) set_take_subset by metis
  note res = resume_all_waiting [of "take k ?es" "[]" ?w xs vt, OF _ _ _ _ _ wr this]
  have "distinct (take k ?es)" "ts_rep (tasks_ready ?w) []" "length ([] :: nat list) + length (take k ?es) < size_max"
    using inv(2) assms(2,3) len by (simp_all add: min_def)
  moreover have "t_queued (tasks ?w s) \<and> t_state (tasks ?w s) \<notin> {Ready, Exited}" if "s \<in> set (take k ?es)" for s
    using inv(5) [OF in_set_takeD [OF that]] by simp
  ultimately have
    w': "ts_rep (tasks_ready w') (rev (take k ?es))" "tasks_all w' = tasks_all w" "user w' = user ?w" "exit_loop w' = exit_loop w"
      "wakeups w' = k" "\<forall>t \<in> set xs. will_return vt w' t" "\<forall>s. s \<notin> set (take k ?es) \<longrightarrow> tasks w' s = tasks w s"
    using res assms(3) by (simp_all add: w'_def deliver_def min_def)
  have ev: "ev (user w') = drop k ?es" using w'(3) assms(5) by simp
  have d: "distinct (rev (take k ?es) @ drop k ?es)" using inv(2) set_take_disj_set_drop_if_distinct [of ?es k k] by simp
  have "set (rev (take k ?es) @ drop k ?es) = set xs" using inv(3) by (metis append_take_drop_id set_append set_rev)
  moreover have "t_queued (tasks w' s) \<and> t_state (tasks w' s) \<notin> {Ready, Exited}" if "s \<in> set (drop k ?es)" for s
  proof -
    have "s \<notin> set (take k ?es)" using that d by auto
    then show ?thesis using w'(7) inv(5) [OF in_set_dropD [OF that]] by simp
  qed
  ultimately have "loop_inv ev vt xs (rev (take k ?es)) w'"
    using w'(2,6) ev d inv(1) by (simp add: loop_inv_def)
  moreover have "tasks w' s = tasks w s" if "s \<notin> set xs" for s
    using w'(7) that inv(3) in_set_takeD by metis
  ultimately show ?thesis
    using w'(1,4,5) assms(3) by (intro exI [of _ "rev (take k ?es)"]) simp
qed

section \<open>Whole runs\<close>

definition drains :: "'u vtable \<Rightarrow> ('u world \<Rightarrow> 'u world option) \<Rightarrow> 'u error_handler option \<Rightarrow> nat option \<Rightarrow> nat list \<Rightarrow> 'u world \<Rightarrow> bool" where
  "drains vt engine h task xs w \<longleftrightarrow>
     (\<exists>w'. TaskQueue_loop vt engine (\<lambda>w. map_option (Pair False) (engine w)) (\<lambda>t w. w) (loop_on_task_exit h) task w = Some (Val (), w') \<and>
        ll_rep (tasks_all w') [] \<and> exit_loop w' = exit_loop w \<and>
        (\<forall>s \<in> set xs. t_state (tasks w' s) = Exited \<and> \<not> t_queued (tasks w' s)) \<and> (\<forall>s. s \<notin> set xs \<longrightarrow> tasks w' s = tasks w s))"

lemma drains_idle:
  assumes "engine w = Some w1" and "\<not> TaskQueue_empty w1" and "pop_ready w1 = (task, w2)"
    and "drains vt engine h task xs w2" and "exit_loop w2 = exit_loop w" and "\<And>s. s \<notin> set xs \<Longrightarrow> tasks w2 s = tasks w s"
  shows "drains vt engine h None xs w"
  using assms unfolding drains_def by (subst TaskQueue_loop.simps) (auto simp: TaskQueue_idle_def)

lemma drains_done:
  assumes "engine w = Some w1" and "ll_rep (tasks_all w1) []" and "exit_loop w1 = exit_loop w" and "tasks w1 = tasks w"
  shows "drains vt engine h None [] w"
  using assms flist.rep_empty [OF assms(2)] unfolding drains_def
  by (subst TaskQueue_loop.simps) (auto simp: TaskQueue_idle_def TaskQueue_empty_def)

lemma drains_step:
  assumes "TaskQueue_step vt engine (\<lambda>t w. w) (loop_on_task_exit h) t w = Some (map_prod Continue (\<lambda>x. x) (pop_ready w1))"
    and "pop_ready w1 = (task, w2)" and "drains vt engine h task (as @ bs) w2" and "t \<notin> set (as @ bs)"
    and "\<not> t_queued (tasks w2 t)" and "t_state (tasks w2 t) = Exited" and "exit_loop w2 = exit_loop w"
    and "\<And>s. s \<noteq> t \<Longrightarrow> tasks w2 s = tasks w s"
  shows "drains vt engine h (Some t) (as @ t # bs) w"
proof -
  obtain w' where w': "TaskQueue_loop vt engine (\<lambda>w. map_option (Pair False) (engine w)) (\<lambda>t w. w) (loop_on_task_exit h) task w2 = Some (Val (), w')"
      "ll_rep (tasks_all w') []" "exit_loop w' = exit_loop w2"
      "\<forall>s \<in> set (as @ bs). t_state (tasks w' s) = Exited \<and> \<not> t_queued (tasks w' s)" "\<forall>s. s \<notin> set (as @ bs) \<longrightarrow> tasks w' s = tasks w2 s"
    using assms(3) by (auto simp: drains_def)
  have "tasks w' s = tasks w s" if "s \<notin> set (as @ t # bs)" for s using that w'(5) assms(8) [of s] by simp
  moreover have "tasks w' t = tasks w2 t" using w'(5) assms(4) by blast
  ultimately show ?thesis
    using assms(1,2,5-7) w' unfolding drains_def by (subst TaskQueue_loop.simps) auto
qed

lemma loop_drains:
  assumes engine: "polls_events ev set_ev engine" and law: "\<And>es u. ev (set_ev es u) = es" and keep: "\<And>n u. ev (poll_final vt n u) = ev u"
    and "length xs < size_max"
  shows "(\<forall>w t rs. loop_inv ev vt xs (t # rs) w \<longrightarrow> ts_rep (tasks_ready w) rs \<longrightarrow> wakeups w > 0 \<longrightarrow> drains vt engine h (Some t) xs w) \<and>
    (\<forall>w. loop_inv ev vt xs [] w \<longrightarrow> ts_rep (tasks_ready w) [] \<longrightarrow> wakeups w > 0 \<or> xs \<noteq> [] \<longrightarrow> drains vt engine h None xs w)"
  using assms(4)
proof (induction xs rule: length_induct)
  case (1 xs)
  have evs: "ev (fold (poll_final vt) ns u) = ev u" for ns u by (induction ns arbitrary: u) (simp_all add: keep)
  have run: "drains vt engine h (Some t) xs w" if inv: "loop_inv ev vt xs (t # rs) w" and rep: "ts_rep (tasks_ready w) rs" and wk: "wakeups w > 0" for w t rs
  proof -
    have d: "ll_rep (tasks_all w) xs" "set xs = set (t # rs @ ev (user w))" "distinct (t # rs @ ev (user w))" "\<forall>s \<in> set xs. will_return vt w s"
        "\<forall>s \<in> set (ev (user w)). t_queued (tasks w s) \<and> t_state (tasks w s) \<notin> {Ready, Exited}"
      using inv by (simp_all add: loop_inv_def)
    obtain as bs where xs: "xs = as @ t # bs" using d(2) split_list [of t xs] by auto
    have rep_all: "ll_rep (tasks_all w) (as @ t # bs)" and t: "will_return vt w t" using d(1,2,4) xs by auto
    have dx: "t \<notin> set (as @ bs)" using flist.rep_distinct [OF rep_all] by auto
    obtain w1 where w1: "TaskQueue_step vt engine (\<lambda>t w. w) (loop_on_task_exit h) t w = Some (map_prod Continue (\<lambda>x. x) (pop_ready w1))"
        "ll_rep (tasks_all w1) (as @ bs)" "tasks_ready w1 = tasks_ready w" "\<forall>s. s \<noteq> t \<longrightarrow> tasks w1 s = tasks w s"
        "\<forall>b. aw_task (aws w b) \<noteq> Some t \<longrightarrow> aws w1 b = aws w b" "\<forall>s. aws w1 (TaskA s) = aws w (TaskA s)"
        "\<not> t_queued (tasks w1 t)" "t_state (tasks w1 t) = Exited" "exit_loop w1 = exit_loop w" "wakeups w1 = wakeups w"
        "ev (user w1) = ev (user w)"
      using step_returns [OF t rep_all, of engine h] evs by fastforce
    have wr: "will_return vt w1 s" if "s \<in> set (as @ bs)" for s
    proof -
      have "s \<noteq> t" "will_return vt w s" using that dx d(4) xs by auto
      then show ?thesis using w1(4-6) by (intro will_return_frame [of vt w s w1]) auto
    qed
    have "set (as @ bs) = set (rs @ ev (user w1))" using d(2,3) dx xs w1(11) by auto
    moreover have "t_queued (tasks w1 s) \<and> t_state (tasks w1 s) \<notin> {Ready, Exited}" if "s \<in> set (ev (user w1))" for s
    proof -
      have "s \<noteq> t" using that d(3) w1(11) by auto
      then show ?thesis using w1(4,11) d(5) that by simp
    qed
    ultimately have inv1: "loop_inv ev vt (as @ bs) rs w1"
      using w1(2,11) d(3) wr unfolding loop_inv_def by simp
    have len: "length (as @ bs) < length xs" "length (as @ bs) < size_max" using xs "1.prems" by simp_all
    note IH = "1.IH" [rule_format, OF len]
    show ?thesis
    proof (cases rs)
      case Nil
      then have "pop_ready w1 = (None, w1)" using ts.pop_nil [of "tasks_ready w"] rep w1(3) by (simp add: pop_ready_def)
      moreover have "drains vt engine h None (as @ bs) w1" using IH inv1 rep w1(3,10) wk Nil by simp
      ultimately show ?thesis using drains_step [OF w1(1) _ _ dx w1(7,8,9)] w1(4) xs by simp
    next
      case (Cons r rs')
      obtain q where q: "ts_pop (tasks_ready w1) = (Some r, q)" "ts_rep q rs'" using ts.pop_cons [of "tasks_ready w" r rs'] rep w1(3) Cons by auto
      let ?w2 = "w1\<lparr>tasks_ready := q\<rparr>"
      have "loop_inv ev vt (as @ bs) (r # rs') ?w2"
        using inv1 Cons wr will_return_frame [of vt w1 _ ?w2] unfolding loop_inv_def by simp
      then have "drains vt engine h (Some r) (as @ bs) ?w2" using IH q(2) w1(10) wk by simp
      then show ?thesis
        using drains_step [OF w1(1), of "Some r" ?w2 as bs] q(1) dx w1(4,7-9) xs by (simp add: pop_ready_def)
    qed
  qed
  have poll: "drains vt engine h None xs w" if inv: "loop_inv ev vt xs [] w" and rep: "ts_rep (tasks_ready w) []"
      and e: "engine w = Some (deliver ev set_ev k w)" and k: "0 < k" "k \<le> length (ev (user w))" for w k
  proof -
    let ?w1 = "deliver ev set_ev k w"
    obtain rs where rs: "ts_rep (tasks_ready ?w1) rs" "length rs = k" "loop_inv ev vt xs rs ?w1" "wakeups ?w1 = k" "exit_loop ?w1 = exit_loop w"
        "\<forall>s. s \<notin> set xs \<longrightarrow> tasks ?w1 s = tasks w s"
      using deliver_inv [where set_ev = set_ev, OF inv rep k(2) "1.prems" law] by blast
    obtain t rs' where t: "rs = t # rs'" using rs(2) k(1) by (cases rs) auto
    obtain q where q: "ts_pop (tasks_ready ?w1) = (Some t, q)" "ts_rep q rs'" using ts.pop_cons [of "tasks_ready ?w1" t rs'] rs(1) t by auto
    let ?w2 = "?w1\<lparr>tasks_ready := q\<rparr>"
    have "loop_inv ev vt xs (t # rs') ?w2"
      using rs(3) t will_return_frame [of vt ?w1 _ ?w2] unfolding loop_inv_def by simp
    then have "drains vt engine h (Some t) xs ?w2" using run [of t rs' ?w2] q(2) rs(4) k(1) by simp
    moreover have "\<not> TaskQueue_empty ?w1"
      using rs(3) t flist.rep_empty [of "tasks_all ?w1" xs] by (auto simp: loop_inv_def TaskQueue_empty_def)
    ultimately show ?thesis using e drains_idle [of engine w ?w1 "Some t" ?w2] q(1) rs(5,6) by (simp add: pop_ready_def)
  qed
  have asleep: "drains vt engine h None xs w" if inv: "loop_inv ev vt xs [] w" and rep: "ts_rep (tasks_ready w) []" and wk: "wakeups w = 0" and ne: "xs \<noteq> []" for w
  proof -
    have "ev (user w) \<noteq> []" using inv ne by (auto simp: loop_inv_def)
    then obtain k where "0 < k" "k \<le> length (ev (user w))" "engine w = Some (deliver ev set_ev k w)"
      using engine wk unfolding polls_events_def by blast
    then show ?thesis using poll [OF inv rep] by blast
  qed
  have "drains vt engine h None xs w" if inv: "loop_inv ev vt xs [] w" and rep: "ts_rep (tasks_ready w) []" and wk: "wakeups w > 0 \<or> xs \<noteq> []" for w
  proof (cases "wakeups w = 0")
    case True
    then show ?thesis using asleep [OF inv rep] wk by simp
  next
    case False
    then obtain k where k: "k \<le> length (ev (user w))" "engine w = Some (deliver ev set_ev k w)"
      using engine unfolding polls_events_def by blast
    obtain rs where rs: "ts_rep (tasks_ready (deliver ev set_ev 0 w)) []" "loop_inv ev vt xs [] (deliver ev set_ev 0 w)" "wakeups (deliver ev set_ev 0 w) = 0"
        "exit_loop (deliver ev set_ev 0 w) = exit_loop w" "\<forall>s. s \<notin> set xs \<longrightarrow> tasks (deliver ev set_ev 0 w) s = tasks w s"
      using deliver_inv [OF inv rep, of 0 set_ev] "1.prems" law by auto
    show ?thesis
    proof (cases "k = 0")
      case k0: True
      show ?thesis
      proof (cases "xs = []")
        case True
        then show ?thesis using k(2) k0 rs drains_done [of engine w "deliver ev set_ev 0 w" vt h] by (auto simp: loop_inv_def)
      next
        case False
        then have "\<not> TaskQueue_empty (deliver ev set_ev 0 w)"
          using rs(2) flist.rep_empty [of "tasks_all (deliver ev set_ev 0 w)" xs] by (auto simp: loop_inv_def TaskQueue_empty_def)
        moreover have "pop_ready (deliver ev set_ev 0 w) = (None, deliver ev set_ev 0 w)"
          using ts.pop_nil [OF rs(1)] by (simp add: pop_ready_def)
        ultimately show ?thesis
          using drains_idle [of engine w "deliver ev set_ev 0 w" None] k(2) k0 asleep [OF rs(2,1,3) False] rs(4,5) by simp
      qed
    qed (use poll [OF inv rep k(2) _ k(1)] in simp)
  qed
  then show ?case using run by blast
qed

text \<open>
  The loop runs its tasks to completion. Some tasks of the queue are ready, the others wait, and the engine will report an event for each of
  those; the call stack of every task returns when it is polled, whatever the polls do to the state of the program (they do not throw,
  suspend, yield or resume other tasks). The engine reports the events in any portions; it is only known to return from a poll when it was
  woken up or has an event to report, and to report one if it was not woken up. If some task is ready the engine has been woken up, as
  \<^verbatim>\<open>schedule\<close> does. Then \<^verbatim>\<open>run\<close> returns normally, its last poll included, with an empty queue, and every task has exited and left the queue.
\<close>

theorem loop_runs_to_completion:
  assumes "polls_events ev set_ev engine" and "\<forall>es u. ev (set_ev es u) = es" and "\<forall>n u. ev (poll_final vt n u) = ev u"
    and "ts_rep (tasks_ready w) rs" and "loop_inv ev vt xs rs w" and "rs = [] \<or> wakeups w > 0" and "length xs < size_max"
  shows "\<exists>w'. Loop_run vt engine h w = Some (Val (), w') \<and> ll_rep (tasks_all w') [] \<and>
    (\<forall>s \<in> set xs. t_state (tasks w' s) = Exited \<and> \<not> t_queued (tasks w' s))"
proof -
  let ?w = "w\<lparr>exit_loop := False\<rparr>"
  have rep: "ll_rep (tasks_all w) xs" using assms(5) by (simp add: loop_inv_def)
  note all = loop_drains [OF assms(1) _ _ assms(7), of vt h]
  show ?thesis
  proof (cases "xs = []")
    case True
    then have "TaskQueue_empty ?w" using flist.rep_empty [OF rep] by (simp add: TaskQueue_empty_def)
    then show ?thesis using rep True by (simp add: Loop_run_def TaskQueue_run_def)
  next
    case False
    then have ne: "\<not> TaskQueue_empty ?w" using flist.rep_empty [OF rep] by (simp add: TaskQueue_empty_def)
    have "\<exists>task w1. pop_ready ?w = (task, w1) \<and> exit_loop w1 = False \<and> drains vt engine h task xs w1"
    proof (cases rs)
      case Nil
      then have "loop_inv ev vt xs [] ?w" using assms(5) will_return_frame [of vt w _ ?w] by (simp add: loop_inv_def)
      then have "drains vt engine h None xs ?w" using all assms(2-4) Nil False by simp
      moreover have "pop_ready ?w = (None, ?w)" using ts.pop_nil [of "tasks_ready w"] assms(4) Nil by (simp add: pop_ready_def)
      ultimately show ?thesis by auto
    next
      case (Cons t rs')
      obtain q where q: "ts_pop (tasks_ready w) = (Some t, q)" "ts_rep q rs'" using ts.pop_cons [of "tasks_ready w" t rs'] assms(4) Cons by auto
      let ?w1 = "?w\<lparr>tasks_ready := q\<rparr>"
      have "loop_inv ev vt xs (t # rs') ?w1" using assms(5) Cons will_return_frame [of vt w _ ?w1] by (simp add: loop_inv_def)
      then have "drains vt engine h (Some t) xs ?w1" using all assms(2,3,6) q(2) Cons by simp
      then show ?thesis using q(1) by (auto simp: pop_ready_def)
    qed
    then show ?thesis using ne unfolding drains_def by (auto simp: Loop_run_def TaskQueue_run_def)
  qed
qed

text \<open>A run with one ready and one waiting task.\<close>

definition event_vt :: "nat list vtable" where
  "event_vt = \<lparr>vt_poll = (\<lambda>n u. Done u ReturnA), vt_error = (\<lambda>n e u. Done u RaiseA), vt_final = (\<lambda>n u. u)\<rparr>"

definition event_engine :: "nat list world \<Rightarrow> nat list world option" where
  "event_engine w = (if wakeups w > 0 then Some (deliver (\<lambda>u. u) (\<lambda>es u. es) 0 w)
     else if user w \<noteq> [] then Some (deliver (\<lambda>u. u) (\<lambda>es u. es) 1 w) else None)"

definition event_world :: "nat list world" where
  "event_world = (empty_world [2])\<lparr>tasks := (\<lambda>t. idle_task\<lparr>t_top := Some (TaskA t), t_queued := True, t_state := (if t = 1 then Ready else Suspended)\<rparr>),
     tasks_all := snd (push_front 1 (snd (push_front 2 ll_new))), tasks_ready := ts_push 1 ts_new, wakeups := 1\<rparr>"

lemma event_engine_polls: "polls_events (\<lambda>u. u) (\<lambda>es u. es) event_engine"
  unfolding polls_events_def
proof (intro allI impI)
  fix w :: "nat list world"
  assume "wakeups w > 0 \<or> user w \<noteq> []"
  then show "\<exists>k \<le> length (user w). event_engine w = Some (deliver (\<lambda>u. u) (\<lambda>es u. es) k w) \<and> (wakeups w = 0 \<longrightarrow> k > 0)"
    by (cases "wakeups w > 0"; cases "user w") (auto simp: event_engine_def intro: exI [of _ 1])
qed

theorem loop_runs_to_completion_witness:
  "\<exists>w'. Loop_run event_vt event_engine None event_world = Some (Val (), w') \<and> ll_rep (tasks_all w') [] \<and>
     (\<forall>s \<in> set [1, 2]. t_state (tasks w' s) = Exited \<and> \<not> t_queued (tasks w' s))"
proof (rule loop_runs_to_completion [OF event_engine_polls, of _ _ "[1]"])
  show "\<forall>n u. poll_final event_vt n u = u" by (simp add: poll_final_def poll_effect_def event_vt_def)
  show "ts_rep (tasks_ready event_world) [1]" using ts.push_rep [OF ts.rep_new, of 1] by (simp add: event_world_def del: One_nat_def)
  have "ll_rep (tasks_all event_world) [1, 2]"
    using push_front_rep [OF push_front_rep [OF ll_new_rep, of "2 :: nat", THEN conjunct2], of 1] by (simp add: event_world_def del: One_nat_def)
  moreover have "will_return event_vt event_world s" for s
    by (auto simp: will_return_def event_world_def empty_world_def idle_awaitable_def idle_task_def Error_bool_def Error_default_def intro: exI [of _ "[]"])
  ultimately show "loop_inv (\<lambda>u. u) event_vt [1, 2] [1] event_world"
    by (simp add: loop_inv_def) (simp add: event_world_def empty_world_def)
qed (simp_all add: event_world_def)

definition spawned_world :: "unit world" where
  "spawned_world = snd (the (TaskQueue_spawn 1 (Task_init 1 8 (empty_world ()))))"

section \<open>Yielding\<close>

text \<open>
  While a task runs its state is normally \<^verbatim>\<open>Ready\<close>, which makes a resume request for it fail.
  A task that yields while no other task is ready is run again with the state \<^verbatim>\<open>Yield\<close>.
\<close>

text \<open>
  A task that yields while no other task is ready is run again with its state left at
  \<^verbatim>\<open>Yield\<close>. In that second run a resume request for the running task is accepted and puts it on
  the ready list although it is running.
\<close>

theorem yield_rerun_is_scheduled_while_running:
  assumes "engine w = Some w" and "ts_rep (tasks_ready w) []" and "t_state (tasks w t) = Yield"
    and "t_queued (tasks w t)"
  shows "\<exists>w1 w2. TaskQueue_yielded engine t w = Some (Continue (Some t), w1) \<and>
    Task_resume t e (w1\<lparr>running_task := Some t\<rparr>) = (Successful, w2) \<and>
    running_task w2 = Some t \<and> ts_rep (tasks_ready w2) [t]"
proof -
  have y: "TaskQueue_yielded engine t w = Some (Continue (Some t), w)"
    using assms(1) ts.pop_nil [OF assms(2)] by (simp add: TaskQueue_yielded_def pop_ready_def)
  let ?w = "w\<lparr>running_task := Some t\<rparr>"
  have "ts_rep (tasks_ready (snd (Task_resume t e ?w))) [t]"
    using ts.push_rep [OF assms(2), of t] assms(3,4)
    by (simp add: Task_resume_def Loop_schedule_def TaskQueue_schedule_def set_error_def Let_def)
  moreover have "fst (Task_resume t e ?w) = Successful" "running_task (snd (Task_resume t e ?w)) = Some t"
    using assms(3,4)
    by (simp_all add: Task_resume_def Loop_schedule_def TaskQueue_schedule_def set_error_def Let_def)
  ultimately show ?thesis using y by (metis prod.collapse)
qed

definition yielded_world :: "unit world" where
  "yielded_world = upd_task 1 (\<lambda>x. x\<lparr>t_state := Yield\<rparr>) (suspended_world)"

theorem yield_rerun_is_scheduled_while_running_witness:
  "\<exists>w1 w2. TaskQueue_yielded Some 1 yielded_world = Some (Continue (Some 1), w1) \<and>
     Task_resume 1 Error_default (w1\<lparr>running_task := Some 1\<rparr>) = (Successful, w2) \<and>
     running_task w2 = Some 1 \<and> ts_rep (tasks_ready w2) [1]"
proof (rule yield_rerun_is_scheduled_while_running)
  show "ts_rep (tasks_ready yielded_world) []"
    by (simp add: yielded_world_def suspended_world_defs ts.rep_new split: prod.splits)
  show "t_queued (tasks yielded_world 1)"
    by (simp add: yielded_world_def suspended_world_defs split: prod.splits)
qed (simp_all add: yielded_world_def)

end
