(* ===== verification/Jinx_Pausable.thy ===== *)
theory Jinx_Pausable
  imports Jinx_Loop
begin

text \<open>
  Pausable awaitables (\<^verbatim>\<open>AwaitablePausable\<close> and \<^verbatim>\<open>MixinPausable\<close> of
  \<^verbatim>\<open>include/jinx/async/pausable.hpp\<close>): an awaitable that pauses leaves the top of the call stack to its
  caller and stays below it, so that it is finalized when the caller returns. Calling it again moves it
  back to the top.
\<close>

section \<open>Pausing and re-entering\<close>

definition is_paused :: "awt \<Rightarrow> 'u world \<Rightarrow> bool" where
  "is_paused a w \<longleftrightarrow> aw_prev (aws w a) \<noteq> None"

definition is_reentry :: "awt \<Rightarrow> 'u world \<Rightarrow> bool" where
  "is_reentry a w \<longleftrightarrow> aw_prev (aws w a) \<noteq> aw_caller (aws w a)"

text \<open>The loop of \<^verbatim>\<open>swap_awaitable\<close>: the awaitable whose caller is \<open>a\<close>.\<close>

partial_function (option) swap_walk :: "awt \<Rightarrow> awt \<Rightarrow> 'u world \<Rightarrow> awt option" where
  "swap_walk a c w =
     do { c1 \<leftarrow> aw_caller (aws w c);
          if aw_caller (aws w c1) = Some a then Some c1 else swap_walk a c1 w }"

definition swap_awaitable :: "awt \<Rightarrow> 'u world \<Rightarrow> 'u world option" where
  "swap_awaitable a w =
     do { c \<leftarrow> aw_caller (aws w a);
          (c1, w1) \<leftarrow> (if aw_caller (aws w c) \<noteq> Some a
                       then do { c1 \<leftarrow> swap_walk a c w;
                                 Some (c1, if aw_pausable (aws w c1)
                                           then upd_aw c1 (\<lambda>x. x\<lparr>aw_prev := aw_prev (aws w a)\<rparr>) w else w) }
                       else Some (c, w));
          let w2 = upd_aw c1 (\<lambda>x. x\<lparr>aw_caller := aw_prev (aws w1 a)\<rparr>) w1;
          Some (upd_aw a (\<lambda>x. x\<lparr>aw_prev := None\<rparr>) w2) }"

text \<open>\<^verbatim>\<open>MixinPausable::async_poll\<close>; \<open>base\<close> is the routine's own \<^verbatim>\<open>async_poll\<close>.\<close>

definition pausable_poll ::
    "(awt \<Rightarrow> 'u world \<Rightarrow> (action \<times> 'u world) option) \<Rightarrow> awt \<Rightarrow> 'u world \<Rightarrow> (action \<times> 'u world) option" where
  "pausable_poll base a w =
     (if \<not> is_paused a w then base a w
      else if is_reentry a w then do { w1 \<leftarrow> swap_awaitable a w; base a w1 }
      else Some (ReturnA, w))"

definition pausable_handle_error :: "awt \<Rightarrow> 'u world \<Rightarrow> action" where
  "pausable_handle_error a w = (if is_paused a w then PassthroughA else RaiseA)"

section \<open>Generators parked below their caller\<close>

text \<open>\<open>parked w c gs d\<close>: below \<open>c\<close> lie the paused awaitables \<open>gs\<close>, and below them \<open>d\<close>, the caller of \<open>c\<close>.\<close>

fun parked :: "'u world \<Rightarrow> awt \<Rightarrow> nat list \<Rightarrow> awt \<Rightarrow> bool" where
  "parked w c [] d \<longleftrightarrow> aw_caller (aws w c) = Some d"
| "parked w c (g # gs) d \<longleftrightarrow>
     aw_caller (aws w c) = Some (Obj g) \<and> aw_pausable (aws w (Obj g)) \<and>
     aw_prev (aws w (Obj g)) = aw_caller (aws w (Obj g)) \<and> parked w (Obj g) gs d"

lemma parked_cong:
  assumes "aw_caller (aws w' c') = aw_caller (aws w c)" and "\<And>g. g \<in> set gs \<Longrightarrow> aws w' (Obj g) = aws w (Obj g)"
  shows "parked w' c' gs d = parked w c gs d"
  using assms
proof (induction gs arbitrary: c c')
  case (Cons g gs)
  then have "parked w' (Obj g) gs d = parked w (Obj g) gs d" by (intro Cons.IH) auto
  then show ?case using Cons.prems by simp
qed simp

lemma parked_append:
  "parked w c (as @ b # bs) d \<longleftrightarrow>
     parked w c as (Obj b) \<and> aw_pausable (aws w (Obj b)) \<and>
     aw_prev (aws w (Obj b)) = aw_caller (aws w (Obj b)) \<and> parked w (Obj b) bs d"
  by (induction as arbitrary: c) auto

lemma parked_caller: "parked w c gs d \<Longrightarrow> aw_caller (aws w c) = Some (case gs of [] \<Rightarrow> d | g # _ \<Rightarrow> Obj g)"
  by (cases gs) auto

lemma swap_walk_parked:
  assumes "parked w c (as @ [b]) (Obj g)" and "g \<notin> set (as @ [b])"
  shows "swap_walk (Obj g) c w = Some (Obj b)"
  using assms
proof (induction as arbitrary: c)
  case Nil
  then show ?case by (simp add: swap_walk.simps [of _ c])
next
  case (Cons x as)
  have "aw_caller (aws w (Obj x)) \<noteq> Some (Obj g)" using Cons.prems by (cases as) auto
  then show ?case using Cons by (simp add: swap_walk.simps [of _ c])
qed

lemma parked_pause:
  assumes "parked w c gs d" and "aw_caller (aws w (Obj g)) = Some c" and "aw_task (aws w (Obj g)) = Some t"
    and "aw_pausable (aws w (Obj g))" and "g \<notin> set gs" and "c \<noteq> Obj g" and "c \<notin> Obj ` set gs"
  shows "\<exists>w'. async_pause (Obj g) w = Some (Pause, w') \<and> parked w' c (g # gs) d \<and> t_top (tasks w' t) = Some c \<and>
    (\<forall>b. b \<noteq> c \<and> b \<noteq> Obj g \<longrightarrow> aws w' b = aws w b)"
proof -
  obtain w' where w': "async_pause (Obj g) w = Some (Pause, w')"
      "aws w' = (aws w)(Obj g := (aws w (Obj g))\<lparr>aw_prev := aw_caller (aws w c), aw_caller := aw_caller (aws w c)\<rparr>,
        c := (aws w c)\<lparr>aw_caller := Some (Obj g)\<rparr>)"
      "t_top (tasks w' t) = Some c"
    using assms(2,3,6) by (auto simp: async_pause_def upd_aw_def upd_task_def fun_eq_iff Let_def)
  have "parked w' (Obj g) gs d = parked w c gs d"
    using w'(2) assms(5-7) by (intro parked_cong) auto
  then show ?thesis using w' assms by auto
qed

lemma swap_awaitable_keeps:
  assumes "swap_awaitable a w = Some w'"
  shows "aw_task (aws w' b) = aw_task (aws w b) \<and> aw_pausable (aws w' b) = aw_pausable (aws w b)"
  using assms by (auto simp: swap_awaitable_def Option.bind_eq_Some_conv upd_aw_def split: if_splits)

lemma parked_reenter:
  assumes "parked w c (as @ g # bs) d" and "distinct (as @ g # bs)" and "c \<notin> Obj ` set (as @ g # bs)" and "d \<noteq> c"
  shows "is_paused (Obj g) (async_call_link c g w) \<and> is_reentry (Obj g) (async_call_link c g w) \<and>
    (\<exists>w'. swap_awaitable (Obj g) (async_call_link c g w) = Some w' \<and> parked w' c (as @ bs) d \<and>
       aw_caller (aws w' (Obj g)) = Some c \<and> \<not> is_paused (Obj g) w' \<and> tasks w' = tasks w)"
proof -
  let ?w1 = "async_call_link c g w"
  have link: "aws ?w1 = (aws w)(Obj g := (aws w (Obj g))\<lparr>aw_caller := Some c, aw_task := aw_task (aws w c)\<rparr>)"
    by (simp add: async_call_link_def upd_aw_def)
  have tsk: "tasks ?w1 = tasks w" by (simp add: async_call_link_def)
  have cg: "c \<noteq> Obj g" using assms(3) by auto
  have bs: "parked w (Obj g) bs d" and prev: "aw_prev (aws w (Obj g)) = aw_caller (aws w (Obj g))"
      and asg: "parked w c as (Obj g)" using assms(1) by (auto simp: parked_append)
  define p where "p = aw_caller (aws w (Obj g))"
  have p: "p = Some (case bs of [] \<Rightarrow> d | b # _ \<Rightarrow> Obj b)" using parked_caller [OF bs] by (simp add: p_def)
  have "p \<noteq> Some c" using p assms(3,4) by (cases bs) auto
  then have re: "is_paused (Obj g) ?w1" "is_reentry (Obj g) ?w1"
    using p prev by (auto simp: is_paused_def is_reentry_def link p_def)
  have ex: "\<exists>w'. swap_awaitable (Obj g) ?w1 = Some w' \<and> parked w' c (as @ bs) d \<and>
       aw_caller (aws w' (Obj g)) = Some c \<and> aw_prev (aws w' (Obj g)) = None \<and> tasks w' = tasks w"
  proof (cases as rule: rev_cases)
    case Nil
    let ?w' = "upd_aw (Obj g) (\<lambda>x. x\<lparr>aw_prev := None\<rparr>) (upd_aw c (\<lambda>x. x\<lparr>aw_caller := p\<rparr>) ?w1)"
    have "swap_awaitable (Obj g) ?w1 = Some ?w'"
      using asg Nil cg prev by (simp add: swap_awaitable_def link p_def)
    moreover have "parked ?w' c bs d = parked w (Obj g) bs d"
      using cg assms(2,3) Nil by (intro parked_cong) (auto simp: link p_def)
    ultimately show ?thesis using bs cg Nil tsk by (simp add: link)
  next
    case (snoc as' b)
    have bg: "parked w c as' (Obj b)" "aw_pausable (aws w (Obj b))" "aw_caller (aws w (Obj b)) = Some (Obj g)"
      using asg by (auto simp: snoc parked_append)
    have ne: "b \<noteq> g" "b \<notin> set as'" "b \<notin> set bs" "g \<notin> set as'" "g \<notin> set bs" "c \<noteq> Obj b" "c \<notin> Obj ` set as'" "c \<notin> Obj ` set bs"
      using assms(2,3) by (auto simp: snoc)
    have "parked ?w1 c (as' @ [b]) (Obj g) = parked w c (as' @ [b]) (Obj g)"
      using ne cg by (intro parked_cong) (auto simp: link)
    then have walk: "swap_walk (Obj g) c ?w1 = Some (Obj b)"
      using asg ne by (intro swap_walk_parked) (auto simp: snoc)
    have first: "aw_caller (aws ?w1 c) \<noteq> Some (Obj g)"
      using parked_caller [OF asg] ne cg by (cases as') (auto simp: snoc link)
    let ?w' = "upd_aw (Obj g) (\<lambda>x. x\<lparr>aw_prev := None\<rparr>) (upd_aw (Obj b) (\<lambda>x. x\<lparr>aw_caller := p\<rparr>)
        (upd_aw (Obj b) (\<lambda>x. x\<lparr>aw_prev := p\<rparr>) ?w1))"
    have "swap_awaitable (Obj g) ?w1 = Some ?w'"
      using first walk bg(2) ne prev by (simp add: swap_awaitable_def link p_def)
    moreover have "parked ?w' (Obj b) bs d = parked w (Obj g) bs d" "parked ?w' c as' (Obj b) = parked w c as' (Obj b)"
      using ne cg by (auto intro!: parked_cong simp: link p_def)
    ultimately show ?thesis using bs bg(1,2) ne cg tsk by (simp add: link snoc parked_append)
  qed
  then show ?thesis using re by (auto simp: is_paused_def)
qed

text \<open>What \<^verbatim>\<open>Awaitable::run\<close> does with a parked awaitable that comes to the top: poll, act, finalize.\<close>

definition poll_and_finalize ::
    "'u vtable \<Rightarrow> (awt \<Rightarrow> 'u world \<Rightarrow> (action \<times> 'u world) option) \<Rightarrow> awt \<Rightarrow> 'u world \<Rightarrow> 'u world option" where
  "poll_and_finalize vt base a w =
     do { (act, w1) \<leftarrow> pausable_poll base a w; (s, w2) \<leftarrow> do_action act a w1; Some (async_finalize vt a w2) }"

lemma parked_top_returns:
  assumes "aw_caller (aws w c) = Some (Obj g)" and "parked w c (g # gs) d" and "g \<notin> set gs" and "aw_task (aws w (Obj g)) = Some t"
  shows "\<exists>w'. poll_and_finalize vt base (Obj g) w = Some w' \<and>
    t_top (tasks w' t) = aw_caller (aws w (Obj g)) \<and> parked w' (Obj g) gs d \<and>
    (\<forall>b. b \<noteq> Obj g \<longrightarrow> aws w' b = aws w b) \<and> user w' = vt_final vt g (user w) \<and> \<not> is_paused (Obj g) w' \<and>
    aw_task (aws w' (Obj g)) = None \<and> aw_caller (aws w' (Obj g)) = aw_caller (aws w (Obj g))"
proof -
  have g: "aw_pausable (aws w (Obj g))" "aw_prev (aws w (Obj g)) = aw_caller (aws w (Obj g))" "parked w (Obj g) gs d"
    using assms(2) by auto
  have "aw_prev (aws w (Obj g)) \<noteq> None" using g(2) parked_caller [OF g(3)] by simp
  then have "pausable_poll base (Obj g) w = Some (ReturnA, w)"
    using g(2) by (simp add: pausable_poll_def is_paused_def is_reentry_def)
  then obtain w' where w': "poll_and_finalize vt base (Obj g) w = Some w'"
      "w' = async_finalize vt (Obj g) (upd_task t (\<lambda>x. x\<lparr>t_top := aw_caller (aws w (Obj g))\<rparr>) w)"
    using assms(4) by (auto simp: poll_and_finalize_def async_return_def)
  have "parked w' (Obj g) gs d = parked w (Obj g) gs d"
    using assms(3) by (intro parked_cong) (auto simp: w'(2) async_finalize_aws)
  then show ?thesis using w' g by (simp add: is_paused_def async_finalize_aws)
qed
text \<open>
  C26. Re-entering a paused awaitable. A caller that has any number of awaitables paused below it calls one
  of them again: it is taken out from wherever it lies, the others stay parked below the caller in
  their order, and the body continues with the caller as its caller. Pausing again parks it on top.
\<close>

theorem generator_reentry:
  assumes "parked w c (as @ g # bs) d" and "distinct (as @ g # bs)" and "c \<notin> Obj ` set (as @ g # bs)" and "d \<noteq> c"
    and "aw_task (aws w c) = Some t"
  shows "\<exists>w' w''. pausable_poll base (Obj g) (async_call_link c g w) = base (Obj g) w' \<and>
    parked w' c (as @ bs) d \<and> aw_caller (aws w' (Obj g)) = Some c \<and> \<not> is_paused (Obj g) w' \<and> tasks w' = tasks w \<and>
    async_pause (Obj g) w' = Some (Pause, w'') \<and> parked w'' c (g # as @ bs) d \<and> t_top (tasks w'' t) = Some c"
proof -
  let ?w1 = "async_call_link c g w"
  obtain w' where w': "swap_awaitable (Obj g) ?w1 = Some w'" "parked w' c (as @ bs) d"
      "aw_caller (aws w' (Obj g)) = Some c" "\<not> is_paused (Obj g) w'" "tasks w' = tasks w"
      and re: "is_paused (Obj g) ?w1" "is_reentry (Obj g) ?w1"
    using parked_reenter [OF assms(1-4)] by blast
  have "aw_pausable (aws w (Obj g))" using assms(1) by (simp add: parked_append)
  then have keep: "aw_task (aws w' (Obj g)) = Some t" "aw_pausable (aws w' (Obj g))"
    using swap_awaitable_keeps [OF w'(1), of "Obj g"] assms(5) by (simp_all add: async_call_link_def)
  have "\<exists>w''. async_pause (Obj g) w' = Some (Pause, w'') \<and> parked w'' c (g # as @ bs) d \<and> t_top (tasks w'' t) = Some c"
    using parked_pause [OF w'(2,3) keep] assms(2,3) by fastforce
  moreover have "pausable_poll base (Obj g) ?w1 = base (Obj g) w'" using re w'(1) by (simp add: pausable_poll_def)
  ultimately show ?thesis using w'(2-5) by blast
qed

fun return_through ::
    "'u vtable \<Rightarrow> (awt \<Rightarrow> 'u world \<Rightarrow> (action \<times> 'u world) option) \<Rightarrow> nat \<Rightarrow> nat \<Rightarrow> 'u world \<Rightarrow> 'u world option" where
  "return_through vt base t 0 w = Some w"
| "return_through vt base t (Suc n) w =
     do { a \<leftarrow> t_top (tasks w t); w1 \<leftarrow> poll_and_finalize vt base a w; return_through vt base t n w1 }"

lemma return_through_parked:
  assumes "parked w c gs d" and "distinct gs" and "\<And>g. g \<in> set gs \<Longrightarrow> aw_task (aws w (Obj g)) = Some t"
    and "t_top (tasks w t) = aw_caller (aws w c)"
  shows "\<exists>w'. return_through vt base t (length gs) w = Some w' \<and> t_top (tasks w' t) = Some d \<and>
    user w' = fold (vt_final vt) gs (user w) \<and>
    (\<forall>g \<in> set gs. \<not> is_paused (Obj g) w' \<and> aw_task (aws w' (Obj g)) = None) \<and>
    (\<forall>b. b \<notin> Obj ` set gs \<longrightarrow> aws w' b = aws w b)"
  using assms
proof (induction gs arbitrary: w c)
  case (Cons g gs)
  have top: "aw_caller (aws w c) = Some (Obj g)" "g \<notin> set gs" using Cons.prems by auto
  obtain w1 where w1: "poll_and_finalize vt base (Obj g) w = Some w1" "t_top (tasks w1 t) = aw_caller (aws w (Obj g))"
      "parked w1 (Obj g) gs d" "\<forall>b. b \<noteq> Obj g \<longrightarrow> aws w1 b = aws w b" "user w1 = vt_final vt g (user w)"
      "\<not> is_paused (Obj g) w1" "aw_task (aws w1 (Obj g)) = None" "aw_caller (aws w1 (Obj g)) = aw_caller (aws w (Obj g))"
    using parked_top_returns [OF top(1) Cons.prems(1) top(2) Cons.prems(3), of vt base] by auto
  have "aw_task (aws w1 (Obj x)) = Some t" if "x \<in> set gs" for x 
    using that w1(4) Cons.prems(3) top(2) by (metis awt.inject(1) list.set_intros(2))
  then obtain w' where w': "return_through vt base t (length gs) w1 = Some w'" "t_top (tasks w' t) = Some d"
      "user w' = fold (vt_final vt) gs (user w1)"
      "\<forall>x \<in> set gs. \<not> is_paused (Obj x) w' \<and> aw_task (aws w' (Obj x)) = None"
      "\<forall>b. b \<notin> Obj ` set gs \<longrightarrow> aws w' b = aws w1 b"
    using Cons.IH [OF w1(3)] Cons.prems(2) w1(2,8) by auto
  have "aws w' (Obj g) = aws w1 (Obj g)" using w'(5) top(2) by auto
  then show ?case
    using w' w1 top Cons.prems(4) by (auto simp: is_paused_def)
qed simp

text \<open>
  A caller that returns takes its paused awaitables with it. They come to the top of the stack one
  after the other, last paused first; each returns at once and is finalized exactly once, and then the
  caller's own caller continues.
\<close>

theorem parked_generators_are_finalized:
  assumes "parked w c gs d" and "distinct gs" and "c \<notin> Obj ` set gs" and "aw_task (aws w c) = Some t"
    and "\<And>g. g \<in> set gs \<Longrightarrow> aw_task (aws w (Obj g)) = Some t"
  shows "\<exists>w1 w'. async_return c w = Some (Ready, w1) \<and> return_through vt base t (length gs) w1 = Some w' \<and>
    t_top (tasks w' t) = Some d \<and> user w' = fold (vt_final vt) gs (user w) \<and>
    (\<forall>g \<in> set gs. \<not> is_paused (Obj g) w' \<and> aw_task (aws w' (Obj g)) = None)"
proof -
  let ?w1 = "upd_task t (\<lambda>x. x\<lparr>t_top := aw_caller (aws w c)\<rparr>) w"
  have "parked ?w1 c gs d = parked w c gs d" by (rule parked_cong) simp_all
  then show ?thesis
    using return_through_parked [of ?w1 c gs d t vt base] assms by (auto simp: async_return_def)
qed
definition parked_world :: "unit world" where
  "parked_world = (empty_world ())\<lparr>aws := (\<lambda>_. idle_awaitable)
     (Obj 1 := idle_awaitable\<lparr>aw_task := Some 0, aw_caller := Some (Obj 2)\<rparr>,
      Obj 2 := idle_awaitable\<lparr>aw_task := Some 0, aw_caller := Some (TaskA 0), aw_prev := Some (TaskA 0), aw_pausable := True\<rparr>)\<rparr>"

theorem generator_reentry_witness:
  "\<exists>w' w''. pausable_poll (\<lambda>a w. Some (PauseA, w)) (Obj 2) (async_call_link (Obj 1) 2 parked_world) = Some (PauseA, w') \<and>
     aw_caller (aws w' (Obj 1)) = Some (TaskA 0) \<and> async_pause (Obj 2) w' = Some (Pause, w'') \<and>
     aw_caller (aws w'' (Obj 1)) = Some (Obj 2)"
  using generator_reentry [of parked_world "Obj 1" "[]" 2 "[]" "TaskA 0" 0 "\<lambda>a w. Some (PauseA, w)"]
  by (auto simp: parked_world_def)

theorem parked_generators_are_finalized_witness:
  "\<exists>w1 w'. async_return (Obj 1) parked_world = Some (Ready, w1) \<and>
     return_through default_vt (\<lambda>a w. Some (PauseA, w)) 0 1 w1 = Some w' \<and> t_top (tasks w' 0) = Some (TaskA 0) \<and>
     \<not> is_paused (Obj 2) w'"
  using parked_generators_are_finalized [of parked_world "Obj 1" "[2]" "TaskA 0" 0 default_vt "\<lambda>a w. Some (PauseA, w)"]
  by (auto simp: parked_world_def)

end
