(* ===== verification/Jinx_Wait.thy ===== *)
theory Jinx_Wait
  imports Jinx_Pausable
begin

text \<open>
  Waiting for several tasks (\<^verbatim>\<open>Wait\<close> of \<^verbatim>\<open>include/jinx/async/pausable.hpp\<close>, \<^verbatim>\<open>TaskBound\<close> of
  \<^verbatim>\<open>include/jinx/async/task.hpp\<close>).

  A \<^verbatim>\<open>Wait\<close> is a pausable awaitable and a task queue of its own. The model is the world of its queue: the
  store of awaitables and tasks with the branches in \<open>tasks_all\<close> and \<open>tasks_ready\<close>. The members of
  \<^verbatim>\<open>Wait\<close> lie next to the state of the client, which the virtual functions of the branches cannot reach
  past \<open>wt_user\<close>. That scheduling a branch also resumes the task of the \<^verbatim>\<open>Wait\<close> is counted in \<open>wakeups\<close>.
\<close>

section \<open>Data\<close>

datatype WaitCondition = AllCompleted | FirstCompleted | FirstException

record 'v wait =
  wt_condition :: WaitCondition
  wt_timeout :: bool
  wt_done :: "nat tslist"
  wt_suspend :: bool
  wt_bound :: "nat \<Rightarrow> nat option"
  wt_user :: 'v

text \<open>\<open>wt_suspend\<close> is the local variable \<^verbatim>\<open>should_suspend\<close>, \<open>wt_bound\<close> the member \<^verbatim>\<open>_bound_task\<close> of each branch.\<close>

definition upd_wait_state :: "('v wait \<Rightarrow> 'v wait) \<Rightarrow> 'v wait world \<Rightarrow> 'v wait world" where
  "upd_wait_state f w = w\<lparr>user := f (user w)\<rparr>"

definition lift_vt :: "'v vtable \<Rightarrow> 'v wait vtable" where
  "lift_vt vt =
     \<lparr>vt_poll = (\<lambda>n u. map_prog (\<lambda>v. u\<lparr>wt_user := v\<rparr>) (vt_poll vt n (wt_user u))),
      vt_error = (\<lambda>n e u. map_prog (\<lambda>v. u\<lparr>wt_user := v\<rparr>) (vt_error vt n e (wt_user u))),
      vt_final = (\<lambda>n u. u\<lparr>wt_user := vt_final vt n (wt_user u)\<rparr>)\<rparr>"

definition wait_initialize :: "WaitCondition \<Rightarrow> 'v wait world \<Rightarrow> 'v wait world" where
  "wait_initialize c w = upd_wait_state (\<lambda>u. u\<lparr>wt_condition := c, wt_timeout := False\<rparr>) w"

definition wait_set_condition :: "WaitCondition \<Rightarrow> 'v wait world \<Rightarrow> 'v wait world" where
  "wait_set_condition c w = upd_wait_state (\<lambda>u. u\<lparr>wt_condition := c\<rparr>) w"

definition wait_is_done :: "'v wait world \<Rightarrow> bool" where
  "wait_is_done w = TaskQueue_empty w"

section \<open>Bound tasks\<close>

text \<open>A branch holds a reference to the task of the \<^verbatim>\<open>Wait\<close> that ran it last.\<close>

definition reset_bound_task :: "nat \<Rightarrow> 'v wait world \<Rightarrow> 'v wait world" where
  "reset_bound_task t w =
     (case wt_bound (user w) t of
        None \<Rightarrow> w
      | Some ob \<Rightarrow> upd_wait_state (\<lambda>u. u\<lparr>wt_bound := (wt_bound u)(t := None)\<rparr>)
                    (upd_task ob (\<lambda>x. x\<lparr>t_refc := t_refc x - 1\<rparr>) w))"

definition set_bound_task :: "nat \<Rightarrow> nat \<Rightarrow> 'v wait world \<Rightarrow> 'v wait world" where
  "set_bound_task outer t w =
     (let w1 = upd_task outer (\<lambda>x. x\<lparr>t_refc := t_refc x + 1\<rparr>) w
      in upd_wait_state (\<lambda>u. u\<lparr>wt_bound := (wt_bound u)(t := Some outer)\<rparr>) (reset_bound_task t w1))"

section \<open>Running the branches\<close>

definition wait_task_exit :: "nat \<Rightarrow> 'v wait world \<Rightarrow> (bool res \<times> 'v wait world) option" where
  "wait_task_exit t w =
     do { w1 \<leftarrow> task_ref t w;
          (r, w2) \<leftarrow> TaskQueue_pop t w1;
          let w3 = reset_bound_task t w2;
          let w4 = upd_wait_state (\<lambda>u. u\<lparr>wt_done := ts_push t (wt_done u)\<rparr>) w3;
          let stop = (wt_condition (user w4) = FirstException \<and> Error_bool (aw_error (aws w4 (TaskA t))) \<or>
                      wt_condition (user w4) = FirstCompleted \<or> TaskQueue_empty w4);
          Some (Val stop, if stop then upd_wait_state (\<lambda>u. u\<lparr>wt_suspend := False\<rparr>) w4 else w4) }"

definition wait_queue_run ::
    "'v vtable \<Rightarrow> ('v wait world \<Rightarrow> 'v wait world option) \<Rightarrow> nat \<Rightarrow> 'v wait world \<Rightarrow> (action \<times> 'v wait world) option" where
  "wait_queue_run vt engine outer w =
     do { (r, w1) \<leftarrow> TaskQueue_run (lift_vt vt) engine (\<lambda>w. Some (True, w)) (set_bound_task outer) wait_task_exit
                       (upd_wait_state (\<lambda>u. u\<lparr>wt_suspend := True\<rparr>) w);
          (case r of
             Exn (CxxException x) \<Rightarrow> Some (CxxThrowA x, w1)
           | Exn (JinxError e) \<Rightarrow> None
           | Val _ \<Rightarrow> Some (if wt_suspend (user w1) then SuspendA else PauseA, w1)) }"

definition wait_poll ::
    "'v vtable \<Rightarrow> ('v wait world \<Rightarrow> 'v wait world option) \<Rightarrow> awt \<Rightarrow> 'v wait world \<Rightarrow> (action \<times> 'v wait world) option" where
  "wait_poll vt engine a w =
     pausable_poll (\<lambda>b v. do { outer \<leftarrow> aw_task (aws v b); wait_queue_run vt engine outer v }) a w"

text \<open>\<^verbatim>\<open>for_each\<close> takes the finished tasks off the list; each pointer goes out of scope after \<open>f\<close>.\<close>

partial_function (option) wait_for_each ::
    "(nat \<Rightarrow> 'v wait world \<Rightarrow> 'v wait world) \<Rightarrow> 'v wait world \<Rightarrow> 'v wait world option" where
  "wait_for_each f w =
     (case ts_pop (wt_done (user w)) of
        (None, l) \<Rightarrow> Some (upd_wait_state (\<lambda>u. u\<lparr>wt_done := l\<rparr>) w)
      | (Some t, l) \<Rightarrow>
          do { w1 \<leftarrow> task_unref t (f t (upd_wait_state (\<lambda>u. u\<lparr>wt_done := l\<rparr>) w)); wait_for_each f w1 })"

text \<open>\<^verbatim>\<open>Wait::async_finalize\<close> ends in the version of \<^verbatim>\<open>Awaitable\<close>, not of \<^verbatim>\<open>AwaitablePausable\<close>.\<close>

definition wait_finalize :: "'v vtable \<Rightarrow> awt \<Rightarrow> 'v wait world \<Rightarrow> 'v wait world option" where
  "wait_finalize vt a w =
     do { w1 \<leftarrow> TaskQueue_exit (lift_vt vt) w;
          w2 \<leftarrow> wait_for_each (\<lambda>t w. w) w1;
          Some (upd_aw a (\<lambda>x. x\<lparr>aw_task := None, aw_error := Error_default\<rparr>) w2) }"
section \<open>Branches that return\<close>

lemma upd_wait_state_fields [simp]:
  "aws (upd_wait_state f w) = aws w" "tasks (upd_wait_state f w) = tasks w" "tasks_all (upd_wait_state f w) = tasks_all w"
  "tasks_ready (upd_wait_state f w) = tasks_ready w" "exit_loop (upd_wait_state f w) = exit_loop w"
  "running_task (upd_wait_state f w) = running_task w" "user (upd_wait_state f w) = f (user w)"
  by (simp_all add: upd_wait_state_def)

lemma lift_vt_final:
  "wt_done (fold (poll_final (lift_vt vt)) ns u) = wt_done u"
  "wt_condition (fold (poll_final (lift_vt vt)) ns u) = wt_condition u"
  "wt_suspend (fold (poll_final (lift_vt vt)) ns u) = wt_suspend u"
  "wt_bound (fold (poll_final (lift_vt vt)) ns u) = wt_bound u"
proof -
  have "wt_done (poll_final (lift_vt vt) n u) = wt_done u \<and> wt_condition (poll_final (lift_vt vt) n u) = wt_condition u \<and>
      wt_suspend (poll_final (lift_vt vt) n u) = wt_suspend u \<and> wt_bound (poll_final (lift_vt vt) n u) = wt_bound u" for n u
    by (cases "vt_poll vt n (wt_user u)") (simp_all add: poll_final_def poll_effect_def lift_vt_def)
  then show "wt_done (fold (poll_final (lift_vt vt)) ns u) = wt_done u"
    "wt_condition (fold (poll_final (lift_vt vt)) ns u) = wt_condition u"
    "wt_suspend (fold (poll_final (lift_vt vt)) ns u) = wt_suspend u"
    "wt_bound (fold (poll_final (lift_vt vt)) ns u) = wt_bound u"
    by (induction ns arbitrary: u) simp_all
qed

definition bound_to :: "nat \<Rightarrow> 'v wait world \<Rightarrow> bool" where
  "bound_to outer w \<longleftrightarrow> (\<forall>s ob. wt_bound (user w) s = Some ob \<longrightarrow> ob = outer)"

lemma reset_bound_task_frame:
  assumes "bound_to outer w"
  shows "aws (reset_bound_task t w) = aws w" "tasks_all (reset_bound_task t w) = tasks_all w"
    "tasks_ready (reset_bound_task t w) = tasks_ready w" "running_task (reset_bound_task t w) = running_task w"
    "wt_done (user (reset_bound_task t w)) = wt_done (user w)"
    "wt_condition (user (reset_bound_task t w)) = wt_condition (user w)"
    "wt_suspend (user (reset_bound_task t w)) = wt_suspend (user w)"
    "\<forall>s. s \<noteq> outer \<longrightarrow> tasks (reset_bound_task t w) s = tasks w s" "bound_to outer (reset_bound_task t w)"
proof -
  have t: "reset_bound_task t w = w \<or> reset_bound_task t w =
      upd_wait_state (\<lambda>u. u\<lparr>wt_bound := (wt_bound u)(t := None)\<rparr>) (upd_task outer (\<lambda>x. x\<lparr>t_refc := t_refc x - 1\<rparr>) w)"
    using assms by (cases "wt_bound (user w) t") (auto simp: bound_to_def reset_bound_task_def)
  show "aws (reset_bound_task t w) = aws w" "tasks_all (reset_bound_task t w) = tasks_all w"
    "tasks_ready (reset_bound_task t w) = tasks_ready w" "running_task (reset_bound_task t w) = running_task w"
    "wt_done (user (reset_bound_task t w)) = wt_done (user w)"
    "wt_condition (user (reset_bound_task t w)) = wt_condition (user w)"
    "wt_suspend (user (reset_bound_task t w)) = wt_suspend (user w)"
    "\<forall>s. s \<noteq> outer \<longrightarrow> tasks (reset_bound_task t w) s = tasks w s" "bound_to outer (reset_bound_task t w)"
    using t assms by (auto simp: bound_to_def split: if_splits)
qed

lemma set_bound_task_frame:
  assumes "bound_to outer w"
  shows "aws (set_bound_task outer t w) = aws w" "tasks_all (set_bound_task outer t w) = tasks_all w"
    "tasks_ready (set_bound_task outer t w) = tasks_ready w" 
    "wt_done (user (set_bound_task outer t w)) = wt_done (user w)"
    "wt_condition (user (set_bound_task outer t w)) = wt_condition (user w)"
    "wt_suspend (user (set_bound_task outer t w)) = wt_suspend (user w)"
    "\<forall>s. s \<noteq> outer \<longrightarrow> tasks (set_bound_task outer t w) s = tasks w s" "bound_to outer (set_bound_task outer t w)"
proof -
  let ?w = "upd_task outer (\<lambda>x. x\<lparr>t_refc := t_refc x + 1\<rparr>) w"
  have "bound_to outer ?w" using assms by (simp add: bound_to_def)
  note f = reset_bound_task_frame [OF this]
  show "aws (set_bound_task outer t w) = aws w" "tasks_all (set_bound_task outer t w) = tasks_all w"
    "tasks_ready (set_bound_task outer t w) = tasks_ready w" 
    "wt_done (user (set_bound_task outer t w)) = wt_done (user w)"
    "wt_condition (user (set_bound_task outer t w)) = wt_condition (user w)"
    "wt_suspend (user (set_bound_task outer t w)) = wt_suspend (user w)"
    "\<forall>s. s \<noteq> outer \<longrightarrow> tasks (set_bound_task outer t w) s = tasks w s"
    using f by (simp_all add: set_bound_task_def)
  show "bound_to outer (set_bound_task outer t w)" using f(9) by (simp add: set_bound_task_def bound_to_def)
qed

lemma wait_exit_quietly:
  assumes "ll_rep (tasks_all w) (as @ t # bs)" and "t_refc (tasks w t) \<ge> 1"
    and "\<not> Error_bool (aw_error (aws w (TaskA t)))" and "bound_to outer w" and "t \<noteq> outer"
  defines "stop \<equiv> wt_condition (user w) = FirstCompleted \<or> as @ bs = []"
  shows "\<exists>w'. wait_task_exit t w = Some (Val stop, w') \<and> ll_rep (tasks_all w') (as @ bs) \<and>
    aws w' = aws w \<and> tasks_ready w' = tasks_ready w \<and> (\<forall>s. s \<noteq> t \<and> s \<noteq> outer \<longrightarrow> tasks w' s = tasks w s) \<and>
    \<not> t_queued (tasks w' t) \<and> t_state (tasks w' t) = t_state (tasks w t) \<and> t_refc (tasks w' t) = t_refc (tasks w t) \<and>
    wt_done (user w') = ts_push t (wt_done (user w)) \<and> wt_condition (user w') = wt_condition (user w) \<and>
    wt_suspend (user w') = (\<not> stop \<and> wt_suspend (user w)) \<and> bound_to outer w'"
proof -
  let ?w0 = "upd_task t (\<lambda>x. x\<lparr>t_refc := t_refc x + 1\<rparr>) w"
  have "ll_rep (tasks_all ?w0) (as @ t # bs)" "t_refc (tasks ?w0 t) \<ge> 1" using assms by auto
  from TaskQueue_pop_in [OF this] obtain w1 where w1: "TaskQueue_pop t ?w0 = Some (Successful, w1)"
      "ll_rep (tasks_all w1) (as @ bs)" "aws w1 = aws w" "tasks_ready w1 = tasks_ready w"
      "tasks w1 = (tasks ?w0)(t := (tasks ?w0 t)\<lparr>t_queued := False, t_refc := t_refc (tasks ?w0 t) - 1,
        t_destroyed := (t_destroyed (tasks ?w0 t) \<or> t_refc (tasks ?w0 t) = 1)\<rparr>)"
      "user w1 = user w"
    by auto
  have b: "bound_to outer w1" using assms(4) w1(6) by (simp add: bound_to_def)
  note f = reset_bound_task_frame [OF b, of t]
  have "TaskQueue_empty (reset_bound_task t w1) = (as @ bs = [])"
    using flist.rep_empty [OF w1(2)] f(2) by (simp add: TaskQueue_empty_def)
  then show ?thesis
    using assms(2,3,5) w1 f(1-3,5-8) f(9)
    by (auto simp: wait_task_exit_def task_ref_def Let_def stop_def TaskQueue_empty_def bound_to_def)
qed

lemma wait_step:
  assumes "will_return (lift_vt vt) w t" and "ll_rep (tasks_all w) (as @ t # bs)" and "bound_to outer w" and "t \<noteq> outer"
  defines "stop \<equiv> wt_condition (user w) = FirstCompleted \<or> as @ bs = []"
  shows "\<exists>w'. TaskQueue_step (lift_vt vt) engine (set_bound_task outer) wait_task_exit t w =
      Some (if stop then (Finished (Val ()), w') else map_prod Continue (\<lambda>x. x) (pop_ready w')) \<and>
    ll_rep (tasks_all w') (as @ bs) \<and> tasks_ready w' = tasks_ready w \<and>
    (\<forall>s. s \<noteq> t \<and> s \<noteq> outer \<longrightarrow> tasks w' s = tasks w s) \<and>
    (\<forall>b. aw_task (aws w b) \<noteq> Some t \<longrightarrow> aws w' b = aws w b) \<and> (\<forall>s. aws w' (TaskA s) = aws w (TaskA s)) \<and>
    \<not> t_queued (tasks w' t) \<and> t_state (tasks w' t) = Exited \<and>
    wt_done (user w') = ts_push t (wt_done (user w)) \<and> wt_condition (user w') = wt_condition (user w) \<and>
    wt_suspend (user w') = (\<not> stop \<and> wt_suspend (user w)) \<and> bound_to outer w'"
proof -
  let ?w1 = "(upd_task t (\<lambda>x. x\<lparr>t_exc := None\<rparr>) w)\<lparr>running_task := Some t\<rparr>"
  have "bound_to outer ?w1" using assms(3) by (simp add: bound_to_def)
  note f = set_bound_task_frame [OF this, where t = t]
  define w2 where "w2 = set_bound_task outer t ?w1"
  have tk: "tasks w2 t = (tasks w t)\<lparr>t_exc := None\<rparr>" using f(7) assms(4) by (simp add: w2_def)
  obtain ns where ns: "call_stack w t (t_top (tasks w t)) ns" "distinct ns"
      "\<forall>n \<in> set ns. returns (lift_vt vt) n \<and> \<not> Error_bool (aw_error (aws w (Obj n)))"
    using assms(1) by (auto simp: will_return_def)
  have aw: "aws w2 = aws w" using f(1) by (simp add: w2_def)
  have "call_stack w2 t (t_top (tasks w2 t)) ns"
    using ns(1) call_stack_cong [of ns w2 w] aw tk by simp
  with return_stack [of w2 t ns "lift_vt vt"] ns assms(1) aw obtain w3 where
    w3: "Task_run (lift_vt vt) t w2 = Some (Val Exited, w3)"
      "tasks w3 = (tasks w2)(t := (tasks w2 t)\<lparr>t_top := None, t_state := Exited\<rparr>)"
      "\<forall>b. b \<notin> Obj ` set ns \<longrightarrow> aws w3 b = aws w b" "tasks_all w3 = tasks_all w2"
      "tasks_ready w3 = tasks_ready w2" "user w3 = fold (poll_final (lift_vt vt)) ns (user w2)"
    unfolding will_return_def by fastforce
  have us: "wt_done (user w3) = wt_done (user w)" "wt_condition (user w3) = wt_condition (user w)"
      "wt_suspend (user w3) = wt_suspend (user w)" "bound_to outer w3"
    using f(4-6,8) by (simp_all add: w3(6) w2_def lift_vt_final bound_to_def)
  let ?w4 = "upd_task t (\<lambda>x. x\<lparr>t_state := Exited\<rparr>) (w3\<lparr>running_task := None\<rparr>)"
  have tsk: "aws w3 (TaskA s) = aws w (TaskA s)" for s using w3(3) by auto
  have fr: "tasks_all w3 = tasks_all w" "tasks_ready w3 = tasks_ready w" using f(2,3) w3(4,5) by (simp_all add: w2_def)
  have "ll_rep (tasks_all ?w4) (as @ t # bs)" "t_refc (tasks ?w4 t) \<ge> 1"
      "\<not> Error_bool (aw_error (aws ?w4 (TaskA t)))" "bound_to outer ?w4"
    using assms(1,2) w3(2) tsk fr tk us(4) by (auto simp: will_return_def bound_to_def)
  from wait_exit_quietly [OF this assms(4)] us obtain w5 where
    w5: "wait_task_exit t ?w4 = Some (Val stop, w5)" "ll_rep (tasks_all w5) (as @ bs)"
      "aws w5 = aws w3" "tasks_ready w5 = tasks_ready w3" "\<forall>s. s \<noteq> t \<and> s \<noteq> outer \<longrightarrow> tasks w5 s = tasks ?w4 s"
      "\<not> t_queued (tasks w5 t)" "t_state (tasks w5 t) = Exited"
      "wt_done (user w5) = ts_push t (wt_done (user w))" "wt_condition (user w5) = wt_condition (user w)"
      "wt_suspend (user w5) = (\<not> stop \<and> wt_suspend (user w))" "bound_to outer w5"
    by (auto simp: stop_def)
  have "b \<notin> Obj ` set ns" if "aw_task (aws w b) \<noteq> Some t" for b
    using that call_stack_member [OF ns(1)] by auto
  moreover have "tasks w5 s = tasks w s" if "s \<noteq> t \<and> s \<noteq> outer" for s
    using that w5(5) w3(2) f(7) by (simp add: w2_def)
  moreover have "TaskQueue_step (lift_vt vt) engine (set_bound_task outer) wait_task_exit t w =
      Some (if stop then (Finished (Val ()), w5) else map_prod Continue (\<lambda>x. x) (pop_ready w5))"
    using w3(1) w5(1) unfolding TaskQueue_step_def TaskQueue_exited_def Let_def w2_def by simp
  ultimately show ?thesis
    using w3(3) w5 fr tsk by (intro exI [of _ w5]) auto
qed

section \<open>Waiting\<close>

lemma wait_loop_all:
  assumes "ts_rep (tasks_ready w) rs" and "distinct (t # rs)" and "ll_rep (tasks_all w) xs" and "set xs = set (t # rs)"
    and "\<And>s. s \<in> set (t # rs) \<Longrightarrow> will_return (lift_vt vt) w s" and "bound_to outer w" and "outer \<notin> set (t # rs)"
    and "wt_condition (user w) \<noteq> FirstCompleted" and "ts_rep (wt_done (user w)) ds" and "set ds \<inter> set (t # rs) = {}"
    and "length ds + length (t # rs) < size_max"
  shows "\<exists>w'. TaskQueue_loop (lift_vt vt) engine (\<lambda>w. Some (True, w)) (set_bound_task outer) wait_task_exit (Some t) w =
      Some (Val (), w') \<and> ll_rep (tasks_all w') [] \<and> \<not> wt_suspend (user w') \<and>
    ts_rep (wt_done (user w')) (rev (t # rs) @ ds) \<and>
    (\<forall>s \<in> set (t # rs). t_state (tasks w' s) = Exited \<and> \<not> t_queued (tasks w' s)) \<and>
    (\<forall>s. s \<notin> set (t # rs) \<and> s \<noteq> outer \<longrightarrow> tasks w' s = tasks w s)"
  using assms
proof (induction rs arbitrary: w t xs ds)
  case Nil
  then have "xs = [t]" using flist.rep_distinct [OF Nil.prems(3)] by (cases xs; cases "tl xs") auto
  then have rep: "ll_rep (tasks_all w) ([] @ t # [])" using Nil.prems(3) by simp
  have "t \<noteq> outer" using Nil.prems(7) by simp
  from wait_step [OF Nil.prems(5) rep Nil.prems(6) this, of engine] obtain w1 where w1:
    "TaskQueue_step (lift_vt vt) engine (set_bound_task outer) wait_task_exit t w = Some (Finished (Val ()), w1)"
    "ll_rep (tasks_all w1) []" "\<not> t_queued (tasks w1 t)" "t_state (tasks w1 t) = Exited"
    "wt_done (user w1) = ts_push t (wt_done (user w))" "\<not> wt_suspend (user w1)"
    "\<forall>s. s \<noteq> t \<and> s \<noteq> outer \<longrightarrow> tasks w1 s = tasks w s" by auto
  then show ?case
    using ts.push_rep [OF Nil.prems(9), of t] Nil.prems(10,11) by (simp add: TaskQueue_loop.simps)
next
  case (Cons r rs)
  obtain as bs where xs: "xs = as @ t # bs" using Cons.prems(4) split_list [of t xs] by auto
  have rep: "ll_rep (tasks_all w) (as @ t # bs)" using Cons.prems(3) xs by simp
  have dx: "t \<notin> set (as @ bs)" using flist.rep_distinct [OF rep] by auto
  then have st: "set (as @ bs) = set (r # rs)" using Cons.prems(2,4) xs by auto
  then have ne: "as @ bs \<noteq> []" by auto
  have to: "t \<noteq> outer" using Cons.prems(7) by simp
  from wait_step [OF Cons.prems(5) rep Cons.prems(6) to, of engine] ne Cons.prems(8) obtain w1 where w1:
    "TaskQueue_step (lift_vt vt) engine (set_bound_task outer) wait_task_exit t w =
       Some (map_prod Continue (\<lambda>x. x) (pop_ready w1))"
    "ll_rep (tasks_all w1) (as @ bs)" "tasks_ready w1 = tasks_ready w"
    "\<forall>s. s \<noteq> t \<and> s \<noteq> outer \<longrightarrow> tasks w1 s = tasks w s" "\<not> t_queued (tasks w1 t)" "t_state (tasks w1 t) = Exited"
    "\<forall>b. aw_task (aws w b) \<noteq> Some t \<longrightarrow> aws w1 b = aws w b" "\<forall>s. aws w1 (TaskA s) = aws w (TaskA s)"
    "wt_done (user w1) = ts_push t (wt_done (user w))" "wt_condition (user w1) = wt_condition (user w)" "bound_to outer w1"
    by auto
  obtain q where q: "ts_pop (tasks_ready w1) = (Some r, q)" "ts_rep q rs"
    using ts.pop_cons [OF Cons.prems(1)] w1(3) by auto
  let ?w2 = "w1\<lparr>tasks_ready := q\<rparr>"
  have "will_return (lift_vt vt) ?w2 s" if "s \<in> set (r # rs)" for s
  proof -
    have "s \<noteq> t" "s \<noteq> outer" using that Cons.prems(2,7) by auto
    then show ?thesis
      using Cons.prems(5) [of s] that w1 by (intro will_return_frame [of "lift_vt vt" w s ?w2]) auto
  qed
  moreover have "ts_rep (wt_done (user ?w2)) (t # ds)"
    using ts.push_rep [OF Cons.prems(9), of t] Cons.prems(10,11) w1(9) by simp
  ultimately obtain w' where w': "TaskQueue_loop (lift_vt vt) engine (\<lambda>w. Some (True, w)) (set_bound_task outer) wait_task_exit
      (Some r) ?w2 = Some (Val (), w')" "ll_rep (tasks_all w') []" "\<not> wt_suspend (user w')"
    "ts_rep (wt_done (user w')) (rev (r # rs) @ t # ds)"
    "\<forall>s \<in> set (r # rs). t_state (tasks w' s) = Exited \<and> \<not> t_queued (tasks w' s)"
    "\<forall>s. s \<notin> set (r # rs) \<and> s \<noteq> outer \<longrightarrow> tasks w' s = tasks w1 s"
    using Cons.IH [of ?w2 r "as @ bs" "t # ds"] Cons.prems(2,7,8,10,11) q(2) w1(2,10,11) st by (auto simp: bound_to_def)
  have "TaskQueue_loop (lift_vt vt) engine (\<lambda>w. Some (True, w)) (set_bound_task outer) wait_task_exit (Some t) w = Some (Val (), w')"
    using w1(1) q(1) w'(1) by (simp add: TaskQueue_loop.simps [of _ _ _ _ _ "Some t"] pop_ready_def)
  then show ?case using w' w1 Cons.prems(2) to by (intro exI [of _ w']) auto
qed
text \<open>
  Waiting. When all branches are ready and return, one poll of a \<^verbatim>\<open>Wait\<close> ends in a pause, with the finished
  tasks handed over exactly once: all of them, in the order in which they ran, or with \<^verbatim>\<open>FirstCompleted\<close>
  just the first one, while the others stay queued and ready.
\<close>

theorem wait_completes:
  assumes "ts_rep (tasks_ready w) rs" and "rs \<noteq> []" and "ll_rep (tasks_all w) xs" and "set xs = set rs"
    and "\<And>s. s \<in> set rs \<Longrightarrow> will_return (lift_vt vt) w s" and "bound_to outer w" and "outer \<notin> set rs"
    and "ts_rep (wt_done (user w)) []" and "length rs < size_max"
  shows "\<exists>w'. wait_queue_run vt engine outer w = Some (PauseA, w') \<and>
    (if wt_condition (user w) = FirstCompleted
     then ts_rep (wt_done (user w')) [hd rs] \<and> ts_rep (tasks_ready w') (tl rs) \<and>
       (\<exists>ys. ll_rep (tasks_all w') ys \<and> set ys = set (tl rs)) \<and> (\<forall>s \<in> set (tl rs). tasks w' s = tasks w s)
     else ts_rep (wt_done (user w')) (rev rs) \<and> ll_rep (tasks_all w') []) \<and>
    (\<forall>s. s \<in> set (if wt_condition (user w) = FirstCompleted then [hd rs] else rs) \<longrightarrow>
       t_state (tasks w' s) = Exited \<and> \<not> t_queued (tasks w' s))"
proof -
  obtain t rs' where rs: "rs = t # rs'" using assms(2) by (cases rs) auto
  obtain q where q: "ts_pop (tasks_ready w) = (Some t, q)" "ts_rep q rs'" using ts.pop_cons [of "tasks_ready w" t rs'] assms(1) rs by blast
  let ?w0 = "upd_wait_state (\<lambda>u. u\<lparr>wt_suspend := True\<rparr>) w"
  let ?w1 = "?w0\<lparr>tasks_ready := q\<rparr>"
  have ne: "\<not> TaskQueue_empty ?w0"
    using assms(3,4) rs flist.rep_empty [OF assms(3)] by (auto simp: TaskQueue_empty_def)
  have run: "TaskQueue_run (lift_vt vt) engine (\<lambda>w. Some (True, w)) (set_bound_task outer) wait_task_exit ?w0 =
      TaskQueue_loop (lift_vt vt) engine (\<lambda>w. Some (True, w)) (set_bound_task outer) wait_task_exit (Some t) ?w1"
    using ne q(1) by (simp add: TaskQueue_run_def pop_ready_def)
  have wr: "will_return (lift_vt vt) ?w1 s" if "s \<in> set rs" for s
    using assms(5) [OF that] by (rule will_return_frame) simp_all
  have b: "bound_to outer ?w1" using assms(6) by (simp add: bound_to_def)
  have d: "distinct (t # rs')" using ts.rep_distinct [OF assms(1)] rs by simp
  have push: "ts_rep (ts_push t (wt_done (user w))) [t]" using ts.push_rep [OF assms(8), of t] assms(9) rs by simp
  show ?thesis
  proof (cases "wt_condition (user w) = FirstCompleted")
    case True
    obtain as bs where xs: "xs = as @ t # bs" using assms(4) rs split_list [of t xs] by auto
    have rep: "ll_rep (tasks_all ?w1) (as @ t # bs)" using assms(3) xs by simp
    have st: "set (as @ bs) = set rs'" using flist.rep_distinct [OF rep] d assms(4) rs xs by auto
    have "t \<noteq> outer" using assms(7) rs by simp
    from wait_step [OF wr rep b this, of engine] rs True obtain w' where w':
      "TaskQueue_step (lift_vt vt) engine (set_bound_task outer) wait_task_exit t ?w1 = Some (Finished (Val ()), w')"
      "ll_rep (tasks_all w') (as @ bs)" "tasks_ready w' = q" "\<not> t_queued (tasks w' t)" "t_state (tasks w' t) = Exited"
      "wt_done (user w') = ts_push t (wt_done (user w))" "\<not> wt_suspend (user w')"
      "\<forall>s. s \<noteq> t \<and> s \<noteq> outer \<longrightarrow> tasks w' s = tasks w s" by auto
    then have "wait_queue_run vt engine outer w = Some (PauseA, w')"
      unfolding wait_queue_run_def run by (simp add: TaskQueue_loop.simps)
    moreover have "\<forall>s \<in> set (tl rs). tasks w' s = tasks w s" using w'(8) rs d assms(7) by auto
    ultimately show ?thesis using w' True rs q(2) st push by auto
  next
    case False
    with wait_loop_all [of ?w1 rs' t xs vt outer "[]" engine] obtain w' where
      "TaskQueue_loop (lift_vt vt) engine (\<lambda>w. Some (True, w)) (set_bound_task outer) wait_task_exit (Some t) ?w1 = Some (Val (), w')"
      "ll_rep (tasks_all w') []" "\<not> wt_suspend (user w')" "ts_rep (wt_done (user w')) (rev (t # rs'))"
      "\<forall>s \<in> set (t # rs'). t_state (tasks w' s) = Exited \<and> \<not> t_queued (tasks w' s)"
      using q(2) d assms(3,4,7,8,9) rs wr b by auto
    then show ?thesis unfolding wait_queue_run_def run using False rs by auto
  qed
qed

text \<open>
  A \<^verbatim>\<open>Wait\<close> without branches, or one that is entered again after all its branches are done, suspends
  its task although nothing is left that could resume it.
\<close>

lemma wait_for_nothing_suspends:
  assumes "ll_rep (tasks_all w) []"
  shows "\<exists>w'. wait_queue_run vt engine outer w = Some (SuspendA, w') \<and> wait_is_done w' \<and>
    tasks w' = tasks w \<and> aws w' = aws w"
  using flist.rep_empty [OF assms]
  by (simp add: wait_queue_run_def TaskQueue_run_def TaskQueue_empty_def wait_is_done_def)
section \<open>Using a Wait again\<close>

lemma swap_walk_closed:
  assumes "swap_walk a c w = Some y"
  shows "\<not> (c \<in> S \<and> (\<forall>x \<in> S. \<exists>y \<in> S. aw_caller (aws w x) = Some y \<and> y \<noteq> a))"
proof (rule swap_walk.raw_induct [where P = "\<lambda>a c w y. \<not> (c \<in> S \<and> (\<forall>x \<in> S. \<exists>y \<in> S. aw_caller (aws w x) = Some y \<and> y \<noteq> a))",
      OF _ assms])
  fix swap a c w y
  assume IH: "\<And>a c w y. swap a c w = Some y \<Longrightarrow> \<not> (c \<in> S \<and> (\<forall>x \<in> S. \<exists>y \<in> S. aw_caller (aws w x) = Some y \<and> y \<noteq> a))"
    and body: "do { c1 \<leftarrow> aw_caller (aws w c); if aw_caller (aws w c1) = Some a then Some c1 else swap a c1 w } = Some y"
  show "\<not> (c \<in> S \<and> (\<forall>x \<in> S. \<exists>y \<in> S. aw_caller (aws w x) = Some y \<and> y \<noteq> a))"
  proof
    assume S: "c \<in> S \<and> (\<forall>x \<in> S. \<exists>y \<in> S. aw_caller (aws w x) = Some y \<and> y \<noteq> a)"
    then obtain c1 where c1: "c1 \<in> S" "aw_caller (aws w c) = Some c1" by blast
    moreover have "aw_caller (aws w c1) \<noteq> Some a" using S c1(1) by fastforce
    ultimately have "swap a c1 w = Some y" using body by simp
    then show False using IH S c1(1) by blast
  qed
qed

lemma stack_callers:
  assumes "call_stack w t p ns" and "n \<in> set ns"
  shows "\<exists>y \<in> insert (TaskA t) (Obj ` set ns). aw_caller (aws w (Obj n)) = Some y"
  using assms by (induction ns arbitrary: p) (force elim: call_stack.elims)+

lemma finished_wait_finalize:
  assumes "ll_rep (tasks_all w) []" and "ts_rep (tasks_ready w) []" and "running_task w = None" and "ts_rep (wt_done (user w)) []"
  shows "\<exists>w'. wait_finalize vt a w = Some w' \<and>
    aws w' = (aws w)(a := (aws w a)\<lparr>aw_task := None, aw_error := Error_default\<rparr>)"
proof -
  have each: "for_each tasks_all f v = Some v" if "tasks_all v = tasks_all w" for f and v :: "'a wait world"
    using assms(1) that by (simp add: for_each_def for_each_from.simps ll_rep_def)
  have "pop_ready w = (None, w)" using ts.pop_nil [OF assms(2)] by (simp add: pop_ready_def)
  then have "TaskQueue_exit (lift_vt vt) w = Some w" using assms(3) each by (simp add: TaskQueue_exit_def drain_ready.simps)
  moreover have "wait_for_each (\<lambda>t w. w) w = Some w"
    using ts.pop_nil [OF assms(4)] by (simp add: wait_for_each.simps upd_wait_state_def)
  ultimately show ?thesis by (auto simp: wait_finalize_def upd_aw_def)
qed

text \<open>
  A \<^verbatim>\<open>Wait\<close> cannot be used again. Its \<^verbatim>\<open>async_finalize\<close> skips the one of \<^verbatim>\<open>AwaitablePausable\<close>, so after a pause it
  still counts as paused. Called again, whatever branches it has by then, it takes the call for a
  re-entry and searches the call stack for itself: the search goes round in the cycle of the task and
  its routines and never ends. If the new caller happens to be the one below its old caller, it
  returns at once without running a branch.
\<close>

theorem reused_wait_never_runs:
  assumes "ll_rep (tasks_all w) []" and "ts_rep (tasks_ready w) []" and "running_task w = None" and "ts_rep (wt_done (user w)) []"
    and "aw_prev (aws w (Obj n)) = Some d" and "call_stack w t (Some (Obj c)) (c # ns)" and "n \<notin> set (c # ns)"
    and "aw_caller (aws w (TaskA t)) = Some (Obj (last (c # ns)))"
  shows "\<exists>w'. wait_finalize vt (Obj n) w = Some w' \<and>
    (\<forall>v. aws v = aws w' \<longrightarrow> wait_poll vt engine (Obj n) (async_call_link (Obj c) n v) =
       (if d = Obj c then Some (ReturnA, async_call_link (Obj c) n v) else None))"
proof -
  obtain w' where w': "wait_finalize vt (Obj n) w = Some w'"
      "aws w' = (aws w)(Obj n := (aws w (Obj n))\<lparr>aw_task := None, aw_error := Error_default\<rparr>)"
    using finished_wait_finalize [OF assms(1-4)] by blast
  have "wait_poll vt engine (Obj n) (async_call_link (Obj c) n v) =
      (if d = Obj c then Some (ReturnA, async_call_link (Obj c) n v) else None)" if v: "aws v = aws w'" for v
  proof -
    let ?v = "async_call_link (Obj c) n v"
    have link: "aw_prev (aws ?v (Obj n)) = Some d" "aw_caller (aws ?v (Obj n)) = Some (Obj c)"
        and same: "\<And>b. b \<noteq> Obj n \<Longrightarrow> aws ?v b = aws w b"
      using assms(5) w'(2) v by (auto simp: async_call_link_def upd_aw_def)
    let ?S = "insert (TaskA t) (Obj ` set (c # ns))"
    have "\<exists>y \<in> ?S. aw_caller (aws ?v x) = Some y \<and> y \<noteq> Obj n" if "x \<in> ?S" for x
    proof -
      have "x \<noteq> Obj n" using that assms(7) by auto
      moreover have "\<exists>y \<in> ?S. aw_caller (aws w x) = Some y"
        using that assms(8) stack_callers [OF assms(6)] last_in_set [of "c # ns"] by blast
      ultimately show ?thesis using same assms(7) by fastforce
    qed
    then have cl: "\<forall>x \<in> ?S. \<exists>y \<in> ?S. aw_caller (aws ?v x) = Some y \<and> y \<noteq> Obj n" by blast
    then have "aw_caller (aws ?v (Obj c)) \<noteq> Some (Obj n)" by fastforce
    moreover have "swap_walk (Obj n) (Obj c) ?v = None"
      using swap_walk_closed [of "Obj n" "Obj c" ?v _ ?S] cl by (cases "swap_walk (Obj n) (Obj c) ?v") auto
    ultimately have "swap_awaitable (Obj n) ?v = None" using link by (simp add: swap_awaitable_def)
    then show ?thesis using link by (auto simp: wait_poll_def pausable_poll_def is_paused_def is_reentry_def)
  qed
  then show ?thesis using w'(1) by blast
qed
section \<open>Witnesses\<close>

definition sample_wait :: "unit wait" where
  "sample_wait = \<lparr>wt_condition = AllCompleted, wt_timeout = False, wt_done = ts_new, wt_suspend = False,
     wt_bound = (\<lambda>_. None), wt_user = ()\<rparr>"

definition branch_world :: "unit wait world" where
  "branch_world = (empty_world sample_wait)\<lparr>
     tasks := (\<lambda>_. idle_task)(1 := idle_task\<lparr>t_top := Some (TaskA 1), t_queued := True, t_state := Ready\<rparr>),
     tasks_all := snd (push_front 1 ll_new), tasks_ready := ts_push 1 ts_new\<rparr>"

theorem wait_completes_witness:
  "\<exists>w'. wait_queue_run default_vt Some 9 branch_world = Some (PauseA, w') \<and> ts_rep (wt_done (user w')) [1] \<and>
     ll_rep (tasks_all w') [] \<and> t_state (tasks w' 1) = Exited"
proof -
  have "ts_rep (tasks_ready branch_world) [1]"
    using ts.push_rep [OF ts.rep_new, of 1] by (simp add: branch_world_def del: One_nat_def)
  moreover have "ll_rep (tasks_all branch_world) [1]"
    using push_front_rep [OF ll_new_rep, of "1 :: nat"] by (simp add: branch_world_def del: One_nat_def)
  moreover have "will_return (lift_vt default_vt) branch_world s" if "s \<in> set [1]" for s
    using that by (auto simp: will_return_def branch_world_def empty_world_def idle_awaitable_def idle_task_def Error_bool_def
        Error_default_def intro: exI [of _ "[]"])
  moreover have "bound_to 9 branch_world" "ts_rep (wt_done (user branch_world)) []"
    using ts.rep_new by (simp_all add: bound_to_def branch_world_def empty_world_def sample_wait_def)
  moreover have "wt_condition (user branch_world) = AllCompleted"
    by (simp add: branch_world_def empty_world_def sample_wait_def)
  ultimately show ?thesis using wait_completes [of branch_world "[1]" "[1]" default_vt 9 Some] by auto
qed

definition finished_world :: "unit wait world" where
  "finished_world = (empty_world sample_wait)\<lparr>aws := (\<lambda>_. idle_awaitable)
     (TaskA 0 := idle_awaitable\<lparr>aw_task := Some 0, aw_caller := Some (Obj 6)\<rparr>,
      Obj 6 := idle_awaitable\<lparr>aw_task := Some 0, aw_caller := Some (TaskA 0)\<rparr>,
      Obj 5 := idle_awaitable\<lparr>aw_pausable := True, aw_prev := Some (TaskA 0), aw_caller := Some (TaskA 0)\<rparr>)\<rparr>"

theorem reused_wait_never_runs_witness:
  "\<exists>w'. wait_finalize default_vt (Obj 5) finished_world = Some w' \<and>
     wait_poll default_vt Some (Obj 5) (async_call_link (Obj 6) 5 w') = None"
proof -
  have "ll_rep (tasks_all finished_world) []" "ts_rep (tasks_ready finished_world) []"
      "ts_rep (wt_done (user finished_world)) []" "running_task finished_world = None"
    using ll_new_rep ts.rep_new by (simp_all add: finished_world_def empty_world_def sample_wait_def)
  then show ?thesis
    using reused_wait_never_runs [of finished_world 5 "TaskA 0" 0 6 "[]" default_vt Some] by (auto simp: finished_world_def)
qed

end
