(* ===== verification/Jinx_Container.thy ===== *)
theory Jinx_Container
  imports Jinx_Prelude
begin

text \<open>
  The two storages of a queue, \<^verbatim>\<open>detail::QueueBase\<close> of \<^verbatim>\<open>include/jinx/queue.hpp\<close>: an adaptor
  of a standard container with a limit (\<open>qbase\<close>), and the ring buffer over \<^verbatim>\<open>std::array<T, N>\<close>
  (\<open>ring\<close>). The operations a queue uses are collected in \<open>container_ops\<close>, the locale
  \<open>fifo\<close> states what it relies on, and both storages are shown to provide it.
\<close>

section \<open>The interface\<close>

record ('c, 'v) container_ops =
  c_size :: "'c \<Rightarrow> nat"
  c_empty :: "'c \<Rightarrow> bool"
  c_full :: "'c \<Rightarrow> bool"
  c_front :: "'c \<Rightarrow> 'v option"
  c_emplace :: "'v \<Rightarrow> 'c \<Rightarrow> 'c option"
  c_pop :: "'c \<Rightarrow> 'c option"
  c_reset :: "'c \<Rightarrow> 'c option"

text \<open>Taking \<open>n\<close> values out, front first.\<close>

fun pop_n :: "('c, 'v) container_ops \<Rightarrow> nat \<Rightarrow> 'c \<Rightarrow> ('v list \<times> 'c) option" where
  "pop_n ops 0 c = Some ([], c)"
| "pop_n ops (Suc n) c =
     Option.bind (c_front ops c) (\<lambda>v. Option.bind (c_pop ops c) (\<lambda>c'.
       Option.bind (pop_n ops n c') (\<lambda>(vs, c''). Some (v # vs, c''))))"

locale fifo =
  fixes ops :: "('c, 'v) container_ops"
    and rep :: "'c \<Rightarrow> 'v list \<Rightarrow> bool"
    and filled :: "'c \<Rightarrow> nat \<Rightarrow> bool"
  assumes size_law: "rep c vs \<Longrightarrow> c_size ops c = length vs"
    and empty_law: "rep c vs \<Longrightarrow> c_empty ops c \<longleftrightarrow> vs = []"
    and full_law: "rep c vs \<Longrightarrow> c_full ops c \<longleftrightarrow> filled c (length vs)"
    and full_nonempty: "rep c vs \<Longrightarrow> c_full ops c \<Longrightarrow> vs \<noteq> []"
    and front_law: "rep c (v # vs) \<Longrightarrow> c_front ops c = Some v"
    and emplace_law: "rep c vs \<Longrightarrow> \<not> c_full ops c \<Longrightarrow>
      \<exists>c'. c_emplace ops v c = Some c' \<and> rep c' (vs @ [v]) \<and> filled c' = filled c"
    and pop_law: "rep c (v # vs) \<Longrightarrow> \<exists>c'. c_pop ops c = Some c' \<and> rep c' vs \<and> filled c' = filled c"
    and reset_law: "rep c vs \<Longrightarrow> \<exists>c'. c_reset ops c = Some c' \<and> rep c' [] \<and> filled c' = filled c"
begin

text \<open>First in, first out.\<close>

lemma pop_n_in_order:
  "rep c (vs @ ws) \<Longrightarrow> \<exists>c'. pop_n ops (length vs) c = Some (vs, c') \<and> rep c' ws"
proof (induction vs arbitrary: c)
  case Nil
  then show ?case by simp
next
  case (Cons v vs)
  obtain c' where "c_pop ops c = Some c'" "rep c' (vs @ ws)"
    using pop_law Cons.prems by fastforce
  moreover from this Cons.IH obtain c'' where "pop_n ops (length vs) c' = Some (vs, c'')" "rep c'' ws"
    by blast
  ultimately show ?case using front_law Cons.prems by fastforce
qed

end

section \<open>Standard containers\<close>

record 'v qbase =
  qb_max_size :: int
  qb_container :: "'v list"

definition qb_new :: "int \<Rightarrow> 'v qbase" where
  "qb_new n = \<lparr>qb_max_size = n, qb_container = []\<rparr>"

definition qb_size :: "'v qbase \<Rightarrow> nat" where
  "qb_size q = length (qb_container q)"

definition qb_set_max_size :: "int \<Rightarrow> 'v qbase \<Rightarrow> 'v qbase" where
  "qb_set_max_size n q = q\<lparr>qb_max_size := n\<rparr>"

definition qb_empty :: "'v qbase \<Rightarrow> bool" where
  "qb_empty q \<longleftrightarrow> qb_container q = []"

definition qb_full :: "'v qbase \<Rightarrow> bool" where
  "qb_full q \<longleftrightarrow> qb_max_size q > 0 \<and> int (qb_size q) \<ge> qb_max_size q"

definition qb_front :: "'v qbase \<Rightarrow> 'v option" where
  "qb_front q = (case qb_container q of [] \<Rightarrow> None | v # _ \<Rightarrow> Some v)"

definition qb_emplace :: "'v \<Rightarrow> 'v qbase \<Rightarrow> 'v qbase option" where
  "qb_emplace v q = Some (q\<lparr>qb_container := qb_container q @ [v]\<rparr>)"

definition qb_pop :: "'v qbase \<Rightarrow> 'v qbase option" where
  "qb_pop q = (case qb_container q of [] \<Rightarrow> None | _ # vs \<Rightarrow> Some (q\<lparr>qb_container := vs\<rparr>))"

definition qb_reset :: "'v qbase \<Rightarrow> 'v qbase option" where
  "qb_reset q = Some (q\<lparr>qb_container := []\<rparr>)"

definition qbase_ops :: "('v qbase, 'v) container_ops" where
  "qbase_ops = \<lparr>c_size = qb_size, c_empty = qb_empty, c_full = qb_full, c_front = qb_front,
     c_emplace = qb_emplace, c_pop = qb_pop, c_reset = qb_reset\<rparr>"

definition qb_rep :: "'v qbase \<Rightarrow> 'v list \<Rightarrow> bool" where
  "qb_rep q vs \<longleftrightarrow> qb_container q = vs"

definition qb_filled :: "'v qbase \<Rightarrow> nat \<Rightarrow> bool" where
  "qb_filled q n \<longleftrightarrow> qb_max_size q > 0 \<and> int n \<ge> qb_max_size q"

lemmas qb_defs = qbase_ops_def qb_rep_def qb_filled_def qb_size_def qb_empty_def qb_full_def
  qb_front_def qb_emplace_def qb_pop_def qb_reset_def

interpretation qb: fifo qbase_ops qb_rep qb_filled
  by unfold_locales (auto simp: qb_defs fun_eq_iff)

section \<open>The ring buffer\<close>

text \<open>
  Slots are addressed by index; the pointer \<^verbatim>\<open>_end\<close> may stand one past the last slot, the
  pointer \<^verbatim>\<open>_begin\<close> never does. A slot holds an object or nothing.
\<close>

record 'v ring =
  rg_memory :: "nat \<Rightarrow> 'v option"
  rg_begin :: nat
  rg_end :: nat
  rg_size :: nat

definition rg_new :: "'v ring" where
  "rg_new = \<lparr>rg_memory = (\<lambda>_. None), rg_begin = 0, rg_end = 0, rg_size = 0\<rparr>"

definition rg_empty :: "'v ring \<Rightarrow> bool" where
  "rg_empty r \<longleftrightarrow> rg_size r = 0"

definition rg_full :: "nat \<Rightarrow> 'v ring \<Rightarrow> bool" where
  "rg_full N r \<longleftrightarrow> rg_size r > 0 \<and> rg_size r = N"

definition rg_front :: "'v ring \<Rightarrow> 'v option" where
  "rg_front r = rg_memory r (rg_begin r)"

definition rg_emplace :: "nat \<Rightarrow> 'v \<Rightarrow> 'v ring \<Rightarrow> 'v ring option" where
  "rg_emplace N v r =
     (let e = (if rg_end r = N then 0 else rg_end r)
      in if e < N
         then Some (r\<lparr>rg_memory := (rg_memory r)(e := Some v), rg_end := e + 1,
                      rg_size := add64 (rg_size r) 1\<rparr>)
         else None)"

definition rg_pop :: "nat \<Rightarrow> 'v ring \<Rightarrow> 'v ring option" where
  "rg_pop N r =
     (case rg_memory r (rg_begin r) of
        None \<Rightarrow> None
      | Some _ \<Rightarrow>
          let b = rg_begin r + 1
          in Some (r\<lparr>rg_memory := (rg_memory r)(rg_begin r := None),
                     rg_size := sub64 (rg_size r) 1, rg_begin := (if b = N then 0 else b)\<rparr>))"

partial_function (option) rg_reset :: "nat \<Rightarrow> 'v ring \<Rightarrow> 'v ring option" where
  "rg_reset N r =
     (if rg_size r \<noteq> 0 then Option.bind (rg_pop N r) (rg_reset N) else Some r)"

definition ring_ops :: "nat \<Rightarrow> ('v ring, 'v) container_ops" where
  "ring_ops N = \<lparr>c_size = rg_size, c_empty = rg_empty, c_full = rg_full N, c_front = rg_front,
     c_emplace = rg_emplace N, c_pop = rg_pop N, c_reset = rg_reset N\<rparr>"

text \<open>The objects \<open>vs\<close> start at \<^verbatim>\<open>_begin\<close> and wrap around; all other slots are raw.\<close>

definition slot :: "nat \<Rightarrow> nat \<Rightarrow> nat \<Rightarrow> nat" where
  "slot N b i = (if b + i < N then b + i else b + i - N)"

definition rg_rep :: "nat \<Rightarrow> 'v ring \<Rightarrow> 'v list \<Rightarrow> bool" where
  "rg_rep N r vs \<longleftrightarrow>
     0 < N \<and> N < size_max \<and> length vs \<le> N \<and> rg_size r = length vs \<and> rg_begin r < N \<and> rg_end r \<le> N \<and>
     (if rg_end r = N then 0 else rg_end r) = slot N (rg_begin r) (length vs) \<and>
     (\<forall>i < length vs. rg_memory r (slot N (rg_begin r) i) = Some (vs ! i)) \<and>
     (\<forall>j. (\<forall>i < length vs. j \<noteq> slot N (rg_begin r) i) \<longrightarrow> rg_memory r j = None)"

lemma slot_less [simp]: "b < N \<Longrightarrow> i \<le> N \<Longrightarrow> slot N b i < N"
  by (auto simp: slot_def)

lemma slot_inj: "b < N \<Longrightarrow> i < N \<Longrightarrow> j < N \<Longrightarrow> slot N b i = slot N b j \<longleftrightarrow> i = j"
  by (auto simp: slot_def split: if_splits)

lemma slot_Suc: "b < N \<Longrightarrow> i < N \<Longrightarrow>
   slot N b (Suc i) = slot N (if Suc b = N then 0 else Suc b) i"
  by (auto simp: slot_def)

lemma rg_new_rep: "0 < N \<Longrightarrow> N < size_max \<Longrightarrow> rg_rep N rg_new []"
  by (auto simp: rg_rep_def rg_new_def slot_def)

lemma rg_emplace_rep:
  assumes rep: "rg_rep N r vs" and room: "length vs < N"
  shows "\<exists>r'. rg_emplace N v r = Some r' \<and> rg_rep N r' (vs @ [v])"
proof -
  let ?b = "rg_begin r" and ?n = "length vs"
  let ?e = "if rg_end r = N then 0 else rg_end r"
  have e: "?e = slot N ?b ?n" and b: "?b < N" and N: "N < size_max" and sz: "rg_size r = ?n"
    and mem: "\<forall>i < ?n. rg_memory r (slot N ?b i) = Some (vs ! i)"
    and raw: "\<forall>j. (\<forall>i < ?n. j \<noteq> slot N ?b i) \<longrightarrow> rg_memory r j = None"
    using rep by (auto simp: rg_rep_def)
  have lt: "slot N ?b ?n < N" using b room by simp
  let ?r = "r\<lparr>rg_memory := (rg_memory r)(slot N ?b ?n := Some v), rg_end := slot N ?b ?n + 1,
      rg_size := Suc ?n\<rparr>"
  have "rg_emplace N v r = Some ?r"
    using e lt sz room N by (simp add: rg_emplace_def Let_def add64_exact)
  moreover have "(if slot N ?b ?n + 1 = N then 0 else slot N ?b ?n + 1) = slot N ?b (Suc ?n)"
    using b room by (auto simp: slot_def)
  moreover have "rg_memory ?r (slot N ?b i) = Some ((vs @ [v]) ! i)" if "i < Suc ?n" for i
    using that mem b room slot_inj [of ?b N i ?n] by (auto simp: nth_append less_Suc_eq)
  moreover have "rg_memory ?r j = None" if "\<forall>i < Suc ?n. j \<noteq> slot N ?b i" for j
    using that raw by auto
  ultimately show ?thesis
    using b room N lt by (auto simp: rg_rep_def less_imp_le)
qed

lemma rg_pop_rep:
  assumes rep: "rg_rep N r (v # vs)"
  shows "rg_front r = Some v \<and> (\<exists>r'. rg_pop N r = Some r' \<and> rg_rep N r' vs)"
proof -
  let ?b = "rg_begin r" and ?b' = "if Suc (rg_begin r) = N then 0 else Suc (rg_begin r)"
  have b: "?b < N" and N: "N < size_max" and len: "Suc (length vs) \<le> N" and sz: "rg_size r = Suc (length vs)"
    and mem: "\<forall>i < Suc (length vs). rg_memory r (slot N ?b i) = Some ((v # vs) ! i)"
    and raw: "\<forall>j. (\<forall>i < Suc (length vs). j \<noteq> slot N ?b i) \<longrightarrow> rg_memory r j = None"
    and e: "rg_end r \<le> N" "(if rg_end r = N then 0 else rg_end r) = slot N ?b (Suc (length vs))"
    using rep by (auto simp: rg_rep_def)
  have s0: "slot N ?b 0 = ?b" using b by (simp add: slot_def)
  then have m0: "rg_memory r ?b = Some v" using mem by (metis nth_Cons_0 zero_less_Suc)
  have sl: "slot N ?b (Suc i) = slot N ?b' i" if "i \<le> length vs" for i
    using slot_Suc [OF b, of i] that len by simp
  let ?r = "r\<lparr>rg_memory := (rg_memory r)(?b := None), rg_size := length vs, rg_begin := ?b'\<rparr>"
  have "rg_pop N r = Some ?r"
    using m0 sz len N by (simp add: rg_pop_def Let_def sub64_exact)
  moreover have "rg_memory ?r (slot N ?b' i) = Some (vs ! i)" if "i < length vs" for i
  proof -
    have "slot N ?b (Suc i) \<noteq> ?b" using slot_inj [OF b, of "Suc i" 0] that len s0 by auto
    moreover have "rg_memory r (slot N ?b (Suc i)) = Some ((v # vs) ! Suc i)"
      using mem that by blast
    ultimately show ?thesis using that sl [of i] by simp
  qed
  moreover have "rg_memory ?r j = None" if h: "\<forall>i < length vs. j \<noteq> slot N ?b' i" for j
  proof (cases "j = ?b")
    case False
    have "j \<noteq> slot N ?b i" if "i < Suc (length vs)" for i
      using that h False s0 sl by (cases i) auto
    with raw False show ?thesis by simp
  qed simp
  moreover have "(if rg_end r = N then 0 else rg_end r) = slot N ?b' (length vs)"
    using e(2) sl [of "length vs"] by simp
  ultimately show ?thesis
    using b N len e(1) m0 by (auto simp: rg_rep_def rg_front_def)
qed

lemma rg_reset_rep: "rg_rep N r vs \<Longrightarrow> \<exists>r'. rg_reset N r = Some r' \<and> rg_rep N r' []"
proof (induction vs arbitrary: r)
  case Nil
  then show ?case by (auto simp: rg_reset.simps [of N r] rg_rep_def)
next
  case (Cons v vs)
  obtain r' where "rg_pop N r = Some r'" "rg_rep N r' vs"
    using rg_pop_rep [OF Cons.prems] by blast
  moreover have "rg_size r \<noteq> 0" using Cons.prems by (simp add: rg_rep_def)
  ultimately show ?case using Cons.IH by (simp add: rg_reset.simps [of N r])
qed

interpretation rg: fifo "ring_ops N" "rg_rep N" "\<lambda>r n. n = N"
proof unfold_locales
  fix c :: "'a ring" and vs :: "'a list" and v :: 'a
  assume rep: "rg_rep N c vs"
  show "c_size (ring_ops N) c = length vs" using rep by (simp add: ring_ops_def rg_rep_def)
  show "c_empty (ring_ops N) c \<longleftrightarrow> vs = []" using rep by (simp add: ring_ops_def rg_rep_def rg_empty_def)
  show "c_full (ring_ops N) c \<longleftrightarrow> length vs = N"
    using rep by (auto simp: ring_ops_def rg_rep_def rg_full_def)
  show "vs \<noteq> []" if "c_full (ring_ops N) c"
    using that rep by (auto simp: ring_ops_def rg_rep_def rg_full_def)
  show "\<exists>c'. c_emplace (ring_ops N) v c = Some c' \<and> rg_rep N c' (vs @ [v]) \<and>
      (\<lambda>n. n = N) = (\<lambda>n. n = N)" if "\<not> c_full (ring_ops N) c"
  proof -
    have "length vs < N" using that rep by (auto simp: ring_ops_def rg_rep_def rg_full_def)
    from rg_emplace_rep [OF rep this] show ?thesis by (simp add: ring_ops_def)
  qed
  show "\<exists>c'. c_reset (ring_ops N) c = Some c' \<and> rg_rep N c' [] \<and> (\<lambda>n. n = N) = (\<lambda>n. n = N)"
    using rg_reset_rep [OF rep] by (simp add: ring_ops_def)
next
  fix c :: "'a ring" and vs :: "'a list" and v :: 'a
  assume rep: "rg_rep N c (v # vs)"
  show "c_front (ring_ops N) c = Some v" using rg_pop_rep [OF rep] by (simp add: ring_ops_def)
  show "\<exists>c'. c_pop (ring_ops N) c = Some c' \<and> rg_rep N c' vs \<and> (\<lambda>n. n = N) = (\<lambda>n. n = N)"
    using rg_pop_rep [OF rep] by (simp add: ring_ops_def)
qed

section \<open>The ring buffer is a queue\<close>

fun rg_emplace_all :: "nat \<Rightarrow> 'v list \<Rightarrow> 'v ring \<Rightarrow> 'v ring option" where
  "rg_emplace_all N [] r = Some r"
| "rg_emplace_all N (v # vs) r = Option.bind (rg_emplace N v r) (rg_emplace_all N vs)"

lemma rg_emplace_all_rep:
  "rg_rep N r ws \<Longrightarrow> length (ws @ vs) \<le> N \<Longrightarrow>
   \<exists>r'. rg_emplace_all N vs r = Some r' \<and> rg_rep N r' (ws @ vs)"
proof (induction vs arbitrary: r ws)
  case Nil
  then show ?case by simp
next
  case (Cons v vs)
  obtain r1 where "rg_emplace N v r = Some r1" "rg_rep N r1 (ws @ [v])"
    using rg_emplace_rep [OF Cons.prems(1), of v] Cons.prems(2) by auto
  with Cons.IH [of r1 "ws @ [v]"] Cons.prems(2) show ?case by simp
qed

text \<open>
  C31. From any reachable position of the ring, values that fit are stored and come out first in,
  first out, whatever the wrap-around of the two pointers; the slots outside stay raw.
\<close>

theorem ring_is_fifo:
  assumes "rg_rep N r ws" and "length ws + length vs \<le> N"
  shows "\<exists>r1 r2. rg_emplace_all N vs r = Some r1 \<and>
    pop_n (ring_ops N) (length (ws @ vs)) r1 = Some (ws @ vs, r2) \<and> rg_rep N r2 []"
proof -
  obtain r1 where r1: "rg_emplace_all N vs r = Some r1" "rg_rep N r1 (ws @ vs)"
    using rg_emplace_all_rep [OF assms(1), of vs] assms(2) by auto
  then show ?thesis
    using rg.pop_n_in_order [of N r1 "ws @ vs" "[]"] by auto
qed

theorem ring_is_fifo_witness:
  "\<exists>r1 r2. rg_emplace_all 3 [1, 2, 3 :: int] rg_new = Some r1 \<and>
     pop_n (ring_ops 3) (length ([] @ [1, 2, 3 :: int])) r1 = Some ([] @ [1, 2, 3], r2) \<and> rg_rep 3 r2 []"
  using ring_is_fifo [of 3 "rg_new :: int ring" "[]" "[1, 2, 3]"] rg_new_rep [of 3] by simp

end
