(* ===== verification/Jinx_Queue.thy ===== *)
theory Jinx_Queue
  imports Jinx_Container Jinx_Optional Jinx_LinkedList Jinx_Error "HOL-Library.Monad_Syntax"
    "HOL-Library.Multiset"
begin

text \<open>
  \<^verbatim>\<open>Queue<Container>\<close> with its awaitable operations \<^verbatim>\<open>Get\<close> and \<^verbatim>\<open>Put\<close>
  (\<^verbatim>\<open>include/jinx/queue.hpp\<close>).

  The operations are objects of the client, here the stores \<open>gets\<close> and \<open>puts\<close>; they are linked
  into the two intrusive lists of the queue. The container is given by its operations. Every
  \<^verbatim>\<open>async_resume\<close> is appended to \<open>q_log\<close> with its error: what it does to the task is the
  subject of \<open>Jinx_Task\<close>.
\<close>

section \<open>Data\<close>

datatype qop = GetOp nat | PutOp nat

record 'v get_op =
  g_result :: "'v Optional"
  g_queue :: bool

record 'v put_op =
  p_result :: OptionalVoid
  p_value :: "'v Optional"
  p_queue :: bool

record ('c, 'v) queue =
  q_base :: 'c
  pending_get :: "nat linked_list"
  pending_put :: "nat linked_list"
  gets :: "nat \<Rightarrow> 'v get_op"
  puts :: "nat \<Rightarrow> 'v put_op"
  q_log :: "(qop \<times> Error) list"

datatype poll = PollReturn | PollSuspend | PollThrow Error

definition queue_new :: "'c \<Rightarrow> ('c, 'v) queue" where
  "queue_new b = \<lparr>q_base = b, pending_get = ll_new, pending_put = ll_new,
     gets = (\<lambda>_. \<lparr>g_result = opt_new, g_queue = False\<rparr>),
     puts = (\<lambda>_. \<lparr>p_result = ov_new, p_value = opt_new, p_queue = False\<rparr>), q_log = []\<rparr>"

section \<open>Operations\<close>

definition upd_get :: "nat \<Rightarrow> ('v get_op \<Rightarrow> 'v get_op) \<Rightarrow> ('c, 'v) queue \<Rightarrow> ('c, 'v) queue" where
  "upd_get g f q = q\<lparr>gets := (gets q)(g := f (gets q g))\<rparr>"

definition upd_put :: "nat \<Rightarrow> ('v put_op \<Rightarrow> 'v put_op) \<Rightarrow> ('c, 'v) queue \<Rightarrow> ('c, 'v) queue" where
  "upd_put p f q = q\<lparr>puts := (puts q)(p := f (puts q p))\<rparr>"

definition q_resume :: "qop \<Rightarrow> Error \<Rightarrow> ('c, 'v) queue \<Rightarrow> ('c, 'v) queue" where
  "q_resume x e q = q\<lparr>q_log := q_log q @ [(x, e)]\<rparr>"

definition get_emplace_result :: "nat \<Rightarrow> 'v \<Rightarrow> ('c, 'v) queue \<Rightarrow> ('c, 'v) queue option" where
  "get_emplace_result g v q =
     do { r \<leftarrow> opt_emplace v (g_result (gets q g));
          Some (q_resume (GetOp g) Error_default (upd_get g (\<lambda>x. x\<lparr>g_result := r\<rparr>) q)) }"

definition put_emplace_result :: "nat \<Rightarrow> ('c, 'v) queue \<Rightarrow> ('c, 'v) queue" where
  "put_emplace_result p q =
     q_resume (PutOp p) Error_default (upd_put p (\<lambda>x. x\<lparr>p_result := ov_emplace (p_result x)\<rparr>) q)"

definition put_take_value :: "nat \<Rightarrow> ('c, 'v) queue \<Rightarrow> ('v \<times> ('c, 'v) queue) option" where
  "put_take_value p q =
     do { (v, r) \<leftarrow> opt_release (p_value (puts q p));
          Some (v, upd_put p (\<lambda>x. x\<lparr>p_value := r\<rparr>) q) }"

definition node_of :: "'n addr \<Rightarrow> 'n option" where
  "node_of a = (case a of Node n \<Rightarrow> Some n | End \<Rightarrow> None)"

definition get_call :: "nat \<Rightarrow> ('c, 'v) queue \<Rightarrow> ('c, 'v) queue option" where
  "get_call g q =
     do { r \<leftarrow> opt_reset (g_result (gets q g));
          Some (upd_get g (\<lambda>x. x\<lparr>g_result := r, g_queue := True\<rparr>) q) }"

definition put_call :: "nat \<Rightarrow> 'v \<Rightarrow> ('c, 'v) queue \<Rightarrow> ('c, 'v) queue option" where
  "put_call p v q =
     do { r \<leftarrow> opt_emplace v (p_value (puts q p));
          Some (upd_put p (\<lambda>x. x\<lparr>p_result := ov_reset (p_result x), p_queue := True, p_value := r\<rparr>) q) }"

definition get_poll ::
    "('c, 'v) container_ops \<Rightarrow> nat \<Rightarrow> ('c, 'v) queue \<Rightarrow> (poll \<times> ('c, 'v) queue) option" where
  "get_poll ops g q =
     (if \<not> op_empty (g_result (gets q g)) then Some (PollReturn, q)
      else if \<not> g_queue (gets q g) then None
      else if c_empty ops (q_base q)
      then if \<not> ll_empty (pending_put q)
           then do { a \<leftarrow> ll_back_ptr (pending_put q);
                     p \<leftarrow> node_of a;
                     (_, l) \<leftarrow> pop_back (pending_put q);
                     (v, q1) \<leftarrow> put_take_value p (q\<lparr>pending_put := l\<rparr>);
                     q2 \<leftarrow> get_emplace_result g v q1;
                     Some (PollReturn, put_emplace_result p q2) }
           else (case push_back g (pending_get q) of
                   (Failed, l) \<Rightarrow>
                     Some (PollThrow (make_error_queue ErrorQueue_PendingGetError), q\<lparr>pending_get := l\<rparr>)
                 | (Successful, l) \<Rightarrow> Some (PollSuspend, q\<lparr>pending_get := l\<rparr>))
      else do { v \<leftarrow> c_front ops (q_base q);
                q1 \<leftarrow> get_emplace_result g v q;
                b \<leftarrow> c_pop ops (q_base q1);
                Some (PollReturn, q1\<lparr>q_base := b\<rparr>) })"

definition put_poll ::
    "('c, 'v) container_ops \<Rightarrow> nat \<Rightarrow> ('c, 'v) queue \<Rightarrow> (poll \<times> ('c, 'v) queue) option" where
  "put_poll ops p q =
     (if \<not> ov_empty (p_result (puts q p)) then Some (PollReturn, q)
      else if \<not> p_queue (puts q p) then None
      else if \<not> ll_empty (pending_get q)
      then if \<not> c_empty ops (q_base q) then None
           else do { a \<leftarrow> ll_back_ptr (pending_get q);
                     g \<leftarrow> node_of a;
                     (_, l) \<leftarrow> pop_back (pending_get q);
                     (v, q1) \<leftarrow> put_take_value p (q\<lparr>pending_get := l\<rparr>);
                     q2 \<leftarrow> get_emplace_result g v q1;
                     Some (PollReturn, put_emplace_result p q2) }
      else if c_full ops (q_base q)
      then (case push_back p (pending_put q) of
              (Failed, l) \<Rightarrow>
                Some (PollThrow (make_error_queue ErrorQueue_PendingPutError), q\<lparr>pending_put := l\<rparr>)
            | (Successful, l) \<Rightarrow> Some (PollSuspend, q\<lparr>pending_put := l\<rparr>))
      else do { (v, q1) \<leftarrow> put_take_value p q;
                b \<leftarrow> c_emplace ops v (q_base q1);
                Some (PollReturn, put_emplace_result p (q1\<lparr>q_base := b\<rparr>)) })"

definition get_finalize :: "nat \<Rightarrow> ('c, 'v) queue \<Rightarrow> ('c, 'v) queue option" where
  "get_finalize g q =
     (if is_inserted g (pending_get q)
      then if \<not> g_queue (gets q g) then None
           else do { (_, l) \<leftarrow> erase (Node g) (pending_get q);
                     Some (upd_get g (\<lambda>x. x\<lparr>g_queue := False\<rparr>) (q\<lparr>pending_get := l\<rparr>)) }
      else Some q)"

definition put_finalize :: "nat \<Rightarrow> ('c, 'v) queue \<Rightarrow> ('c, 'v) queue option" where
  "put_finalize p q =
     do { q1 \<leftarrow> (if is_inserted p (pending_put q)
                 then if \<not> p_queue (puts q p) then None
                      else do { (_, l) \<leftarrow> erase (Node p) (pending_put q);
                                Some (upd_put p (\<lambda>x. x\<lparr>p_queue := False\<rparr>) (q\<lparr>pending_put := l\<rparr>)) }
                 else Some q);
          r \<leftarrow> opt_reset (p_value (puts q1 p));
          Some (upd_put p (\<lambda>x. x\<lparr>p_value := r\<rparr>) q1) }"

definition queue_reset :: "('c, 'v) container_ops \<Rightarrow> ('c, 'v) queue \<Rightarrow> ('c, 'v) queue option" where
  "queue_reset ops q =
     do { q1 \<leftarrow> for_each pending_get
                  (\<lambda>g q. Some (q_resume (GetOp g) (make_error_awaitable ErrorAwaitable_Cancelled) q)) q;
          q2 \<leftarrow> for_each pending_put
                  (\<lambda>p q. Some (q_resume (PutOp p) (make_error_awaitable ErrorAwaitable_Cancelled) q)) q1;
          lg \<leftarrow> ll_clear (pending_get q2);
          lp \<leftarrow> ll_clear (pending_put q2);
          b \<leftarrow> c_reset ops (q_base q2);
          Some (q2\<lparr>pending_get := lg, pending_put := lp, q_base := b\<rparr>) }"

section \<open>Invariant\<close>

text \<open>
  \<open>gs\<close> and \<open>ps\<close> are the waiting operations, \<open>vs\<close> the stored values. A getter waits only while
  there is nothing to get. Every waiting put still holds its value.
\<close>

definition holds :: "('c, 'v) queue \<Rightarrow> nat \<Rightarrow> 'v \<Rightarrow> bool" where
  "holds q p v \<longleftrightarrow> opt_get (p_value (puts q p)) = Some v"

definition waiting_get :: "('c, 'v) queue \<Rightarrow> nat \<Rightarrow> bool" where
  "waiting_get q g \<longleftrightarrow> op_empty (g_result (gets q g)) \<and> g_queue (gets q g)"

definition waiting_put :: "('c, 'v) queue \<Rightarrow> nat \<Rightarrow> bool" where
  "waiting_put q p \<longleftrightarrow> ov_empty (p_result (puts q p)) \<and> p_queue (puts q p) \<and> (\<exists>v. holds q p v)"

definition q_inv ::
    "('c \<Rightarrow> 'v list \<Rightarrow> bool) \<Rightarrow> ('c, 'v) queue \<Rightarrow> nat list \<Rightarrow> nat list \<Rightarrow> 'v list \<Rightarrow> bool" where
  "q_inv rep q gs ps vs \<longleftrightarrow>
     ll_back (pending_get q) gs \<and> ll_back (pending_put q) ps \<and> rep (q_base q) vs \<and>
     (gs \<noteq> [] \<longrightarrow> vs = [] \<and> ps = []) \<and>
     (\<forall>g \<in> set gs. waiting_get q g) \<and> (\<forall>p \<in> set ps. waiting_put q p) \<and>
     (\<forall>g. opt_ok (g_result (gets q g))) \<and> (\<forall>p. opt_ok (p_value (puts q p)))"

lemma upd_get_fields [simp]:
  "q_base (upd_get g f q) = q_base q" "pending_get (upd_get g f q) = pending_get q"
  "pending_put (upd_get g f q) = pending_put q" "puts (upd_get g f q) = puts q"
  "gets (upd_get g f q) = (gets q)(g := f (gets q g))" "q_log (upd_get g f q) = q_log q"
  by (simp_all add: upd_get_def)

lemma upd_put_fields [simp]:
  "q_base (upd_put p f q) = q_base q" "pending_get (upd_put p f q) = pending_get q"
  "pending_put (upd_put p f q) = pending_put q" "gets (upd_put p f q) = gets q"
  "puts (upd_put p f q) = (puts q)(p := f (puts q p))" "q_log (upd_put p f q) = q_log q"
  by (simp_all add: upd_put_def)

lemma q_resume_fields [simp]:
  "q_base (q_resume x e q) = q_base q" "pending_get (q_resume x e q) = pending_get q"
  "pending_put (q_resume x e q) = pending_put q" "gets (q_resume x e q) = gets q"
  "puts (q_resume x e q) = puts q" "q_log (q_resume x e q) = q_log q @ [(x, e)]"
  by (simp_all add: q_resume_def)

lemma put_emplace_result_fields [simp]:
  "q_base (put_emplace_result p q) = q_base q" "pending_get (put_emplace_result p q) = pending_get q"
  "pending_put (put_emplace_result p q) = pending_put q" "gets (put_emplace_result p q) = gets q"
  "puts (put_emplace_result p q) = (puts q)(p := (puts q p)\<lparr>p_result := ov_emplace (p_result (puts q p))\<rparr>)"
  "q_log (put_emplace_result p q) = q_log q @ [(PutOp p, Error_default)]"
  by (simp_all add: put_emplace_result_def)

lemma get_emplace_result_ok:
  assumes "opt_ok (g_result (gets q g))"
  shows "\<exists>r. get_emplace_result g v q =
      Some (q_resume (GetOp g) Error_default (upd_get g (\<lambda>x. x\<lparr>g_result := r\<rparr>) q)) \<and>
    opt_get r = Some v \<and> \<not> op_empty r \<and> opt_ok r"
  using opt_emplace_total [OF assms, of v] by (auto simp: get_emplace_result_def)

lemma put_take_value_ok:
  assumes "holds q p v"
  shows "put_take_value p q = Some (v, upd_put p (\<lambda>x. x\<lparr>p_value := (p_value x)\<lparr>op_memory := MovedObj\<rparr>\<rparr>) q)"
  using opt_release_live [of "p_value (puts q p)" v] assms
  by (simp add: put_take_value_def holds_def upd_put_def)

lemma opt_ok_moved [simp]: "opt_ok (x\<lparr>op_memory := MovedObj\<rparr>)"
  by (simp add: opt_ok_def)

lemma last_node:
  assumes "ll_back l xs" and "xs \<noteq> []"
  shows "\<not> ll_empty l" "ll_back_ptr l = Some (Node (last xs))"
    "\<exists>l'. pop_back l = Some (Successful, l') \<and> ll_back l' (butlast xs)"
proof -
  have xs: "xs = butlast xs @ [last xs]" using assms(2) by simp
  show "\<not> ll_empty l" using blist.rep_empty [OF assms(1)] assms(2) by simp
  show "ll_back_ptr l = Some (Node (last xs))" using blist.back_last [of l "butlast xs"] assms xs by metis
  show "\<exists>l'. pop_back l = Some (Successful, l') \<and> ll_back l' (butlast xs)"
    using pop_back_back [of l "butlast xs" "last xs"] assms xs by metis
qed

section \<open>The operations over any container\<close>

context fifo
begin

text \<open>A poll that finds a stored value takes the oldest one.\<close>

lemma get_poll_stored:
  assumes inv: "q_inv rep q gs ps (v # vs)" and w: "waiting_get q g"
  shows "\<exists>q'. get_poll ops g q = Some (PollReturn, q') \<and> q_inv rep q' [] ps vs \<and>
    opt_get (g_result (gets q' g)) = Some v \<and> \<not> op_empty (g_result (gets q' g)) \<and> puts q' = puts q \<and>
    (\<forall>h. h \<noteq> g \<longrightarrow> gets q' h = gets q h) \<and> filled (q_base q') = filled (q_base q)"
proof -
  have gs: "gs = []" and rep: "rep (q_base q) (v # vs)" and ok: "opt_ok (g_result (gets q g))"
    using inv by (auto simp: q_inv_def)
  obtain r where r: "get_emplace_result g v q =
      Some (q_resume (GetOp g) Error_default (upd_get g (\<lambda>x. x\<lparr>g_result := r\<rparr>) q))"
      "opt_get r = Some v" "\<not> op_empty r" "opt_ok r"
    using get_emplace_result_ok [OF ok] by blast
  obtain b where b: "c_pop ops (q_base q) = Some b" "rep b vs" "filled b = filled (q_base q)"
    using pop_law [OF rep] by blast
  show ?thesis
    using w r b empty_law [OF rep] front_law [OF rep] inv gs
    by (auto simp: get_poll_def waiting_get_def q_inv_def waiting_put_def holds_def)
qed

text \<open>With an empty container the value comes from the put that was suspended last.\<close>

lemma get_poll_handover:
  assumes inv: "q_inv rep q gs ps []" and w: "waiting_get q g" and ps: "ps \<noteq> []"
    and v: "holds q (last ps) v"
  shows "\<exists>q'. get_poll ops g q = Some (PollReturn, q') \<and> q_inv rep q' [] (butlast ps) [] \<and>
    opt_get (g_result (gets q' g)) = Some v \<and> \<not> op_empty (g_result (gets q' g)) \<and>
    \<not> ov_empty (p_result (puts q' (last ps))) \<and>
    q_log q' = q_log q @ [(GetOp g, Error_default), (PutOp (last ps), Error_default)] \<and>
    (\<forall>h. h \<noteq> g \<longrightarrow> gets q' h = gets q h) \<and>
    (\<forall>p. p \<noteq> last ps \<longrightarrow> puts q' p = puts q p)"
proof -
  have gs: "gs = []" and rep: "rep (q_base q) []" and ok: "opt_ok (g_result (gets q g))"
    and lp: "ll_back (pending_put q) ps"
    using inv ps by (auto simp: q_inv_def)
  obtain l where l: "pop_back (pending_put q) = Some (Successful, l)" "ll_back l (butlast ps)"
    using last_node(3) [OF lp ps] by blast
  have notin: "last ps \<notin> set (butlast ps)"
    using blist.rep_distinct [OF lp] ps by (metis append_butlast_last_id distinct_append distinct.simps(2) disjoint_iff list.set_intros(1))
  let ?q1 = "upd_put (last ps) (\<lambda>x. x\<lparr>p_value := (p_value x)\<lparr>op_memory := MovedObj\<rparr>\<rparr>) (q\<lparr>pending_put := l\<rparr>)"
  have t: "put_take_value (last ps) (q\<lparr>pending_put := l\<rparr>) = Some (v, ?q1)"
    using put_take_value_ok [of "q\<lparr>pending_put := l\<rparr>" "last ps" v] v by (simp add: holds_def)
  obtain r where r: "get_emplace_result g v ?q1 =
      Some (q_resume (GetOp g) Error_default (upd_get g (\<lambda>x. x\<lparr>g_result := r\<rparr>) ?q1))"
      "opt_get r = Some v" "\<not> op_empty r" "opt_ok r"
    using get_emplace_result_ok [of ?q1 g v] ok by auto
  have others: "p \<noteq> last ps \<and> p \<in> set ps" if "p \<in> set (butlast ps)" for p
    using that notin by (auto dest: in_set_butlastD)
  show ?thesis
    using w l t r empty_law [OF rep] last_node(1,2) [OF lp ps] inv gs others
    by (auto simp: get_poll_def waiting_get_def q_inv_def waiting_put_def holds_def node_of_def
        ov_emplace_def)
qed

text \<open>Nothing to get: the operation is queued, or refused when it is queued already.\<close>

lemma get_poll_wait:
  assumes inv: "q_inv rep q gs [] []" and w: "waiting_get q g" and len: "Suc (length gs) < size_max"
  shows "if g \<in> set gs
         then get_poll ops g q = Some (PollThrow (make_error_queue ErrorQueue_PendingGetError), q)
         else \<exists>q'. get_poll ops g q = Some (PollSuspend, q') \<and> q_inv rep q' (gs @ [g]) [] [] \<and>
                gets q' = gets q \<and> puts q' = puts q \<and> q_log q' = q_log q"
proof -
  have lg: "ll_back (pending_get q) gs" and lp: "ll_back (pending_put q) []" and rep: "rep (q_base q) []"
    using inv by (auto simp: q_inv_def)
  have e: "c_empty ops (q_base q)" "ll_empty (pending_put q)"
    using empty_law [OF rep] blist.rep_empty [OF lp] by auto
  show ?thesis
  proof (cases "g \<in> set gs")
    case True
    then show ?thesis
      using w e blist.ins_old [OF lg True] by (simp add: get_poll_def waiting_get_def)
  next
    case False
    obtain l where "push_back g (pending_get q) = (Successful, l)" "ll_back l (gs @ [g])"
      using blist.ins_new [OF lg False len] by blast
    then show ?thesis
      using False w e inv by (auto simp: get_poll_def waiting_get_def q_inv_def waiting_put_def holds_def)
  qed
qed

text \<open>A put hands its value to the getter that was suspended last, if one waits.\<close>

lemma put_poll_handover:
  assumes inv: "q_inv rep q gs ps vs" and w: "waiting_put q p" and gs: "gs \<noteq> []" and v: "holds q p v"
  shows "\<exists>q'. put_poll ops p q = Some (PollReturn, q') \<and> q_inv rep q' (butlast gs) [] [] \<and>
    opt_get (g_result (gets q' (last gs))) = Some v \<and> \<not> op_empty (g_result (gets q' (last gs))) \<and>
    \<not> ov_empty (p_result (puts q' p)) \<and>
    q_log q' = q_log q @ [(GetOp (last gs), Error_default), (PutOp p, Error_default)] \<and>
    (\<forall>g. g \<noteq> last gs \<longrightarrow> gets q' g = gets q g)"
proof -
  have vs: "vs = []" "ps = []" and rep: "rep (q_base q) []" and ok: "opt_ok (g_result (gets q (last gs)))"
    and lg: "ll_back (pending_get q) gs"
    using inv gs by (auto simp: q_inv_def)
  obtain l where l: "pop_back (pending_get q) = Some (Successful, l)" "ll_back l (butlast gs)"
    using last_node(3) [OF lg gs] by blast
  have notin: "last gs \<notin> set (butlast gs)"
    using blist.rep_distinct [OF lg] gs by (metis append_butlast_last_id distinct_append distinct.simps(2) disjoint_iff list.set_intros(1))
  let ?q1 = "upd_put p (\<lambda>x. x\<lparr>p_value := (p_value x)\<lparr>op_memory := MovedObj\<rparr>\<rparr>) (q\<lparr>pending_get := l\<rparr>)"
  have t: "put_take_value p (q\<lparr>pending_get := l\<rparr>) = Some (v, ?q1)"
    using put_take_value_ok [of "q\<lparr>pending_get := l\<rparr>" p v] v by (simp add: holds_def)
  obtain r where r: "get_emplace_result (last gs) v ?q1 =
      Some (q_resume (GetOp (last gs)) Error_default (upd_get (last gs) (\<lambda>x. x\<lparr>g_result := r\<rparr>) ?q1))"
      "opt_get r = Some v" "\<not> op_empty r" "opt_ok r"
    using get_emplace_result_ok [of ?q1 "last gs" v] ok by auto
  have others: "g \<noteq> last gs \<and> g \<in> set gs" if "g \<in> set (butlast gs)" for g
    using that notin by (auto dest: in_set_butlastD)
  show ?thesis
    using w l t r empty_law [OF rep] last_node(1,2) [OF lg gs] inv vs others
    by (auto simp: put_poll_def waiting_get_def q_inv_def waiting_put_def holds_def node_of_def
        ov_emplace_def)
qed

lemma put_poll_store:
  assumes inv: "q_inv rep q [] ps vs" and w: "waiting_put q p" and v: "holds q p v"
    and room: "\<not> c_full ops (q_base q)" and p: "p \<notin> set ps"
  shows "\<exists>q'. put_poll ops p q = Some (PollReturn, q') \<and> q_inv rep q' [] ps (vs @ [v]) \<and>
    \<not> ov_empty (p_result (puts q' p)) \<and> gets q' = gets q \<and>
    (\<forall>s. s \<noteq> p \<longrightarrow> puts q' s = puts q s) \<and> filled (q_base q') = filled (q_base q)"
proof -
  have rep: "rep (q_base q) vs" and lg: "ll_back (pending_get q) []"
    using inv by (auto simp: q_inv_def)
  obtain b where b: "c_emplace ops v (q_base q) = Some b" "rep b (vs @ [v])" "filled b = filled (q_base q)"
    using emplace_law [OF rep room] by blast
  have others: "s \<noteq> p" if "s \<in> set ps" for s using that p by auto
  show ?thesis
    using w b room blist.rep_empty [OF lg] put_take_value_ok [OF v] inv others
    by (auto simp: put_poll_def q_inv_def waiting_put_def waiting_get_def holds_def ov_emplace_def)
qed

lemma put_poll_wait:
  assumes inv: "q_inv rep q [] ps vs" and w: "waiting_put q p" and full: "c_full ops (q_base q)"
    and len: "Suc (length ps) < size_max"
  shows "if p \<in> set ps
         then put_poll ops p q = Some (PollThrow (make_error_queue ErrorQueue_PendingPutError), q)
         else \<exists>q'. put_poll ops p q = Some (PollSuspend, q') \<and> q_inv rep q' [] (ps @ [p]) vs \<and>
                gets q' = gets q \<and> puts q' = puts q \<and> q_log q' = q_log q"
proof -
  have rep: "rep (q_base q) vs" and lg: "ll_back (pending_get q) []" and lp: "ll_back (pending_put q) ps"
    using inv by (auto simp: q_inv_def)
  have e: "ll_empty (pending_get q)" using blist.rep_empty [OF lg] by simp
  show ?thesis
  proof (cases "p \<in> set ps")
    case True
    then show ?thesis
      using w e full blist.ins_old [OF lp True] by (simp add: put_poll_def waiting_put_def)
  next
    case False
    obtain l where "push_back p (pending_put q) = (Successful, l)" "ll_back l (ps @ [p])"
      using blist.ins_new [OF lp False len] by blast
    then show ?thesis
      using False w e full inv
      by (auto simp: put_poll_def waiting_get_def q_inv_def waiting_put_def holds_def)
  qed
qed

text \<open>All branches of the two polls in one statement each.\<close>

lemma get_poll_cases:
  assumes inv: "q_inv rep q gs ps vs" and w: "waiting_get q g" and len: "Suc (length gs) < size_max"
  shows "\<exists>r q'. get_poll ops g q = Some (r, q') \<and>
    (if vs \<noteq> []
     then r = PollReturn \<and> opt_get (g_result (gets q' g)) = Some (hd vs) \<and> q_inv rep q' [] ps (tl vs)
     else if ps \<noteq> []
     then r = PollReturn \<and> opt_get (g_result (gets q' g)) = opt_get (p_value (puts q (last ps))) \<and>
          \<not> ov_empty (p_result (puts q' (last ps))) \<and> q_inv rep q' [] (butlast ps) []
     else if g \<in> set gs
     then r = PollThrow (make_error_queue ErrorQueue_PendingGetError) \<and> q' = q
     else r = PollSuspend \<and> q_inv rep q' (gs @ [g]) [] [])"
proof (cases vs)
  case (Cons v vs')
  then show ?thesis using get_poll_stored [of q gs ps v vs' g] inv w by auto
next
  case Nil
  show ?thesis
  proof (cases "ps = []")
    case True
    then show ?thesis using get_poll_wait [of q gs g] inv w len Nil by (cases "g \<in> set gs") auto
  next
    case False
    then obtain v where "holds q (last ps) v"
      using inv last_in_set [OF False] unfolding q_inv_def waiting_put_def by blast
    then show ?thesis
      using get_poll_handover [of q gs ps g v] inv w False Nil by (auto simp: holds_def)
  qed
qed

lemma put_poll_cases:
  assumes inv: "q_inv rep q gs ps vs" and w: "waiting_put q p" and len: "Suc (length ps) < size_max"
    and v: "holds q p v" and fresh: "\<not> c_full ops (q_base q) \<Longrightarrow> p \<notin> set ps"
  shows "\<exists>r q'. put_poll ops p q = Some (r, q') \<and>
    (if gs \<noteq> []
     then r = PollReturn \<and> opt_get (g_result (gets q' (last gs))) = Some v \<and>
          \<not> ov_empty (p_result (puts q' p)) \<and> q_inv rep q' (butlast gs) [] []
     else if \<not> filled (q_base q) (length vs)
     then r = PollReturn \<and> \<not> ov_empty (p_result (puts q' p)) \<and> q_inv rep q' [] ps (vs @ [v])
     else if p \<in> set ps
     then r = PollThrow (make_error_queue ErrorQueue_PendingPutError) \<and> q' = q
     else r = PollSuspend \<and> q_inv rep q' [] (ps @ [p]) vs)"
proof (cases "gs = []")
  case False
  then show ?thesis using put_poll_handover [of q gs ps vs p v] inv w v by auto
next
  case True
  have full: "c_full ops (q_base q) \<longleftrightarrow> filled (q_base q) (length vs)"
    using full_law inv by (auto simp: q_inv_def)
  show ?thesis
  proof (cases "c_full ops (q_base q)")
    case yes: True
    then show ?thesis using put_poll_wait [of q ps vs p] inv w len True full by (cases "p \<in> set ps") auto
  next
    case no: False
    then show ?thesis using put_poll_store [of q ps vs p v] inv w v True full fresh by auto
  qed
qed

end

section \<open>Runs\<close>

text \<open>
  A client program: each command starts a new operation (\<^verbatim>\<open>operator()\<close>) and polls it once.
\<close>

datatype 'v qcmd = CGet nat | CPut nat 'v

fun q_run :: "('c, 'v) container_ops \<Rightarrow> 'v qcmd list \<Rightarrow> ('c, 'v) queue \<Rightarrow> ('c, 'v) queue option" where
  "q_run ops [] q = Some q"
| "q_run ops (CGet g # cs) q =
     do { q1 \<leftarrow> get_call g q; (_, q2) \<leftarrow> get_poll ops g q1; q_run ops cs q2 }"
| "q_run ops (CPut p v # cs) q =
     do { q1 \<leftarrow> put_call p v q; (_, q2) \<leftarrow> put_poll ops p q1; q_run ops cs q2 }"

fun get_ids :: "'v qcmd list \<Rightarrow> nat list" where
  "get_ids [] = []"
| "get_ids (CGet g # cs) = g # get_ids cs"
| "get_ids (CPut p v # cs) = get_ids cs"

fun put_ids :: "'v qcmd list \<Rightarrow> nat list" where
  "put_ids [] = []"
| "put_ids (CGet g # cs) = put_ids cs"
| "put_ids (CPut p v # cs) = p # put_ids cs"

fun put_values :: "'v qcmd list \<Rightarrow> 'v list" where
  "put_values [] = []"
| "put_values (CGet g # cs) = put_values cs"
| "put_values (CPut p v # cs) = v # put_values cs"

text \<open>Where the values are: with the getters of \<open>G\<close>, with the waiting puts, or stored.\<close>

definition delivered :: "('c, 'v) queue \<Rightarrow> nat set \<Rightarrow> 'v multiset" where
  "delivered q G =
     image_mset (\<lambda>g. the (opt_get (g_result (gets q g))))
       (filter_mset (\<lambda>g. \<not> op_empty (g_result (gets q g))) (mset_set G))"

definition withheld :: "('c, 'v) queue \<Rightarrow> nat list \<Rightarrow> 'v multiset" where
  "withheld q ps = image_mset (\<lambda>p. the (opt_get (p_value (puts q p)))) (mset ps)"

lemma delivered_cong:
  assumes "\<And>g. g \<in> G \<Longrightarrow> gets q' g = gets q g"
  shows "delivered q' G = delivered q G"
proof (cases "finite G")
  case True
  then have "filter_mset (\<lambda>g. \<not> op_empty (g_result (gets q' g))) (mset_set G) =
      filter_mset (\<lambda>g. \<not> op_empty (g_result (gets q g))) (mset_set G)"
    using assms by (intro filter_mset_cong) auto
  with True show ?thesis
    unfolding delivered_def using assms by (auto intro!: image_mset_cong)
qed (simp add: delivered_def)

lemma delivered_insert:
  assumes "finite G" and "g \<notin> G"
  shows "delivered q (insert g G) =
    (if op_empty (g_result (gets q g)) then {#} else {#the (opt_get (g_result (gets q g)))#}) + delivered q G"
  using assms by (simp add: delivered_def)

lemma withheld_cong: "(\<And>p. p \<in> set ps \<Longrightarrow> puts q' p = puts q p) \<Longrightarrow> withheld q' ps = withheld q ps"
  unfolding withheld_def by (intro image_mset_cong) auto

lemma withheld_snoc: "withheld q (ps @ [p]) = add_mset (the (opt_get (p_value (puts q p)))) (withheld q ps)"
  by (simp add: withheld_def)

lemma get_call_ok:
  assumes "q_inv rep q gs ps vs" and "g \<notin> set gs"
  shows "\<exists>q1. get_call g q = Some q1 \<and> q_inv rep q1 gs ps vs \<and> waiting_get q1 g \<and>
    puts q1 = puts q \<and> (\<forall>h. h \<noteq> g \<longrightarrow> gets q1 h = gets q h) \<and> q_base q1 = q_base q"
proof -
  have "opt_ok (g_result (gets q g))" using assms(1) by (simp add: q_inv_def)
  from opt_reset_total [OF this] obtain r where
    "opt_reset (g_result (gets q g)) = Some r" "op_empty r" "opt_ok r" by blast
  moreover have "h \<noteq> g" if "h \<in> set gs" for h using that assms(2) by auto
  ultimately show ?thesis
    using assms by (auto simp: get_call_def q_inv_def waiting_get_def waiting_put_def holds_def)
qed

lemma put_call_ok:
  assumes "q_inv rep q gs ps vs" and "p \<notin> set ps"
  shows "\<exists>q1. put_call p v q = Some q1 \<and> q_inv rep q1 gs ps vs \<and> waiting_put q1 p \<and> holds q1 p v \<and>
    gets q1 = gets q \<and> (\<forall>s. s \<noteq> p \<longrightarrow> puts q1 s = puts q s) \<and> q_base q1 = q_base q"
proof -
  have "opt_ok (p_value (puts q p))" using assms(1) by (simp add: q_inv_def)
  from opt_emplace_total [OF this] obtain r where
    "opt_emplace v (p_value (puts q p)) = Some r" "opt_get r = Some v" "opt_ok r" by blast
  moreover have "s \<noteq> p" if "s \<in> set ps" for s using that assms(2) by auto
  ultimately show ?thesis
    using assms by (auto simp: put_call_def q_inv_def waiting_get_def waiting_put_def holds_def
        ov_reset_def)
qed

context fifo
begin

lemma run_get:
  assumes inv: "q_inv rep q gs ps vs" and G: "finite G" "set gs \<subseteq> G" "g \<notin> G"
    and len: "Suc (length gs) < size_max"
  shows "\<exists>q1 r q2 gs' ps' vs'. get_call g q = Some q1 \<and> get_poll ops g q1 = Some (r, q2) \<and>
    q_inv rep q2 gs' ps' vs' \<and> set gs' \<subseteq> insert g G \<and> set ps' \<subseteq> set ps \<and>
    length gs' \<le> Suc (length gs) \<and> length ps' \<le> length ps \<and>
    delivered q2 (insert g G) + withheld q2 ps' + mset vs' = delivered q G + withheld q ps + mset vs"
proof -
  have "g \<notin> set gs" using G by auto
  from get_call_ok [OF inv this] obtain q1 where q1: "get_call g q = Some q1" "q_inv rep q1 gs ps vs"
    "waiting_get q1 g" "puts q1 = puts q" "\<forall>h. h \<noteq> g \<longrightarrow> gets q1 h = gets q h" by blast
  have d1: "delivered q1 G = delivered q G" "withheld q1 ps = withheld q ps"
    using q1 G(3) by (auto intro!: delivered_cong withheld_cong)
  have frame: "delivered q2 (insert g G) =
      (if op_empty (g_result (gets q2 g)) then {#} else {#the (opt_get (g_result (gets q2 g)))#}) + delivered q G"
    if "\<forall>h. h \<noteq> g \<longrightarrow> gets q2 h = gets q1 h" for q2 :: "('c, 'v) queue"
  proof -
    have "delivered q2 G = delivered q1 G" using that G(3) by (intro delivered_cong) auto
    then show ?thesis using delivered_insert [OF G(1,3), of q2] d1 by simp
  qed
  show ?thesis
  proof (cases vs)
    case (Cons v vs')
    then obtain q2 where q2: "get_poll ops g q1 = Some (PollReturn, q2)" "q_inv rep q2 [] ps vs'"
        "opt_get (g_result (gets q2 g)) = Some v" "\<not> op_empty (g_result (gets q2 g))" "puts q2 = puts q1"
        "\<forall>h. h \<noteq> g \<longrightarrow> gets q2 h = gets q1 h"
      using get_poll_stored [of q1 gs ps v vs' g] q1 by blast
    moreover have "withheld q2 ps = withheld q1 ps" using q2(5) by (intro withheld_cong) simp
    ultimately show ?thesis
      using q1(1) frame [OF q2(6)] d1 Cons by (intro exI conjI) (assumption | simp | blast)+
  next
    case Nil
    show ?thesis
    proof (cases "ps = []")
      case True
      then obtain q2 where q2: "get_poll ops g q1 = Some (PollSuspend, q2)"
          "q_inv rep q2 (gs @ [g]) [] []" "gets q2 = gets q1" "puts q2 = puts q1"
        using get_poll_wait [of q1 gs g] q1 Nil len \<open>g \<notin> set gs\<close> by auto
      moreover have "op_empty (g_result (gets q2 g))" using q1(3) q2(3) by (simp add: waiting_get_def)
      moreover have "delivered q2 (insert g G) = delivered q G"
        using frame [of q2] q2(3) calculation(5) by simp
      ultimately show ?thesis
        using q1(1) d1 Nil True G
        by (intro exI [of _ q1] exI [of _ PollSuspend] exI [of _ q2] exI [of _ "gs @ [g]"] exI [of _ "[]"])
          (auto simp: withheld_def)
    next
      case False
      then have ps: "ps = butlast ps @ [last ps]" by simp
      obtain v where v: "holds q1 (last ps) v"
        using q1(2) last_in_set [OF False] unfolding q_inv_def waiting_put_def by blast
      then obtain q2 where q2: "get_poll ops g q1 = Some (PollReturn, q2)"
          "q_inv rep q2 [] (butlast ps) []" "opt_get (g_result (gets q2 g)) = Some v"
          "\<not> op_empty (g_result (gets q2 g))" "\<forall>h. h \<noteq> g \<longrightarrow> gets q2 h = gets q1 h"
          "\<forall>p. p \<noteq> last ps \<longrightarrow> puts q2 p = puts q1 p"
        using get_poll_handover [of q1 gs ps g v] q1 Nil False by blast
      have "distinct ps" using q1(2) blist.rep_distinct by (auto simp: q_inv_def)
      then have "last ps \<notin> set (butlast ps)" using ps by (metis distinct_append not_distinct_conv_prefix distinct.simps(2) append_butlast_last_id)
      then have "withheld q2 (butlast ps) = withheld q1 (butlast ps)"
        using q2(6) by (intro withheld_cong) metis
      moreover have "withheld q1 ps = add_mset v (withheld q1 (butlast ps))"
        using withheld_snoc [of q1 "butlast ps" "last ps"] v ps by (simp add: holds_def)
      ultimately have "delivered q2 (insert g G) + withheld q2 (butlast ps) + mset [] =
          delivered q G + withheld q ps + mset vs"
        using frame [OF q2(5)] q2(3,4) d1 Nil by simp
      then show ?thesis
        using q1(1) q2(1,2) G
        by (intro exI [of _ q1] exI [of _ PollReturn] exI [of _ q2] exI [of _ "[]"] exI [of _ "butlast ps"] exI [of _ "[]"])
          (auto dest: in_set_butlastD)
    qed
  qed
qed

lemma run_put:
  assumes inv: "q_inv rep q gs ps vs" and G: "finite G" "set gs \<subseteq> G" and p: "p \<notin> set ps"
    and len: "Suc (length ps) < size_max"
  shows "\<exists>q1 r q2 gs' ps' vs'. put_call p v q = Some q1 \<and> put_poll ops p q1 = Some (r, q2) \<and>
    q_inv rep q2 gs' ps' vs' \<and> set gs' \<subseteq> G \<and> set ps' \<subseteq> insert p (set ps) \<and>
    length gs' \<le> length gs \<and> length ps' \<le> Suc (length ps) \<and>
    delivered q2 G + withheld q2 ps' + mset vs' = add_mset v (delivered q G + withheld q ps + mset vs)"
proof -
  from put_call_ok [OF inv p] obtain q1 where q1: "put_call p v q = Some q1" "q_inv rep q1 gs ps vs"
    "waiting_put q1 p" "holds q1 p v" "gets q1 = gets q" "\<forall>s. s \<noteq> p \<longrightarrow> puts q1 s = puts q s" by blast
  have d1: "delivered q1 G = delivered q G" "withheld q1 ps = withheld q ps"
    using q1 p by (auto intro!: delivered_cong withheld_cong)
  show ?thesis
  proof (cases "gs = []")
    case False
    then obtain q2 where q2: "put_poll ops p q1 = Some (PollReturn, q2)"
        "q_inv rep q2 (butlast gs) [] []" "opt_get (g_result (gets q2 (last gs))) = Some v"
        "\<not> op_empty (g_result (gets q2 (last gs)))" "\<forall>g. g \<noteq> last gs \<longrightarrow> gets q2 g = gets q1 g"
      using put_poll_handover [of q1 gs ps vs p v] q1 by blast
    have mem: "last gs \<in> G" using False G(2) last_in_set by blast
    define H where "H = G - {last gs}"
    have H: "G = insert (last gs) H" "finite H" "last gs \<notin> H" using mem G(1) by (auto simp: H_def)
    have "op_empty (g_result (gets q1 (last gs)))"
      using q1(2) False by (auto simp: q_inv_def waiting_get_def)
    moreover have "delivered q2 H = delivered q1 H" using q2(5) H(3) by (intro delivered_cong) metis
    ultimately have "delivered q2 G = add_mset v (delivered q1 G)"
      using delivered_insert [OF H(2,3), of q2] delivered_insert [OF H(2,3), of q1] q2(3,4) H(1) by simp
    moreover have "ps = []" "vs = []" using q1(2) False by (auto simp: q_inv_def)
    ultimately show ?thesis
      using q1(1) q2(1,2) d1 G(2)
      by (intro exI [of _ q1] exI [of _ PollReturn] exI [of _ q2] exI [of _ "butlast gs"] exI [of _ "[]"] exI [of _ "[]"])
        (auto simp: withheld_def dest: in_set_butlastD)
  next
    case True
    show ?thesis
    proof (cases "c_full ops (q_base q1)")
      case full: True
      then obtain q2 where q2: "put_poll ops p q1 = Some (PollSuspend, q2)"
          "q_inv rep q2 [] (ps @ [p]) vs" "gets q2 = gets q1" "puts q2 = puts q1"
        using put_poll_wait [of q1 ps vs p] q1 True len p by auto
      moreover have "delivered q2 G = delivered q1 G" using q2(3) by (intro delivered_cong) simp
      moreover have "withheld q2 (ps @ [p]) = add_mset v (withheld q1 ps)"
        using withheld_snoc [of q2 ps p] withheld_cong [of ps q2 q1] q2(4) q1(4) by (simp add: holds_def)
      ultimately show ?thesis
        using q1(1) d1 G(2)
        by (intro exI [of _ q1] exI [of _ PollSuspend] exI [of _ q2] exI [of _ "[]"] exI [of _ "ps @ [p]"] exI [of _ vs])
          auto
    next
      case room: False
      then obtain q2 where q2: "put_poll ops p q1 = Some (PollReturn, q2)" "q_inv rep q2 [] ps (vs @ [v])"
          "gets q2 = gets q1" "\<forall>s. s \<noteq> p \<longrightarrow> puts q2 s = puts q1 s"
        using put_poll_store [of q1 ps vs p v] q1 True p by blast
      moreover have "delivered q2 G = delivered q1 G" using q2(3) by (intro delivered_cong) simp
      moreover have "withheld q2 ps = withheld q1 ps" using q2(4) p by (intro withheld_cong) auto
      ultimately show ?thesis
        using q1(1) d1 G(2)
        by (intro exI [of _ q1] exI [of _ PollReturn] exI [of _ q2] exI [of _ "[]"] exI [of _ ps] exI [of _ "vs @ [v]"])
          auto
    qed
  qed
qed

lemma run_conserves:
  "q_inv rep q gs ps vs \<Longrightarrow> finite G \<Longrightarrow> set gs \<subseteq> G \<Longrightarrow> set ps \<subseteq> P \<Longrightarrow>
   distinct (get_ids cs) \<Longrightarrow> set (get_ids cs) \<inter> G = {} \<Longrightarrow>
   distinct (put_ids cs) \<Longrightarrow> set (put_ids cs) \<inter> P = {} \<Longrightarrow>
   length gs + length ps + length cs < size_max \<Longrightarrow>
   \<exists>q' gs' ps' vs'. q_run ops cs q = Some q' \<and> q_inv rep q' gs' ps' vs' \<and>
     delivered q' (G \<union> set (get_ids cs)) + withheld q' ps' + mset vs' =
     delivered q G + withheld q ps + mset vs + mset (put_values cs)"
proof (induction cs arbitrary: q gs ps vs G P)
  case Nil
  then show ?case by auto
next
  case (Cons c cs)
  show ?case
  proof (cases c)
    case (CGet g)
    have "g \<notin> G" "Suc (length gs) < size_max" using Cons.prems CGet by auto
    from run_get [OF Cons.prems(1,2,3) this] obtain q1 r q2 gs' ps' vs' where
      s: "get_call g q = Some q1" "get_poll ops g q1 = Some (r, q2)" "q_inv rep q2 gs' ps' vs'"
      "set gs' \<subseteq> insert g G" "set ps' \<subseteq> set ps" "length gs' \<le> Suc (length gs)" "length ps' \<le> length ps"
      "delivered q2 (insert g G) + withheld q2 ps' + mset vs' = delivered q G + withheld q ps + mset vs"
      by blast
    have "\<exists>q' gs'' ps'' vs''. q_run ops cs q2 = Some q' \<and> q_inv rep q' gs'' ps'' vs'' \<and>
        delivered q' (insert g G \<union> set (get_ids cs)) + withheld q' ps'' + mset vs'' =
        delivered q2 (insert g G) + withheld q2 ps' + mset vs' + mset (put_values cs)"
      by (rule Cons.IH [OF s(3), where P = P]) (use Cons.prems s CGet in auto)
    then show ?thesis using s CGet by auto
  next
    case (CPut p v)
    have "p \<notin> set ps" "Suc (length ps) < size_max" using Cons.prems CPut by auto
    from run_put [OF Cons.prems(1,2,3) this, of v] obtain q1 r q2 gs' ps' vs' where
      s: "put_call p v q = Some q1" "put_poll ops p q1 = Some (r, q2)" "q_inv rep q2 gs' ps' vs'"
      "set gs' \<subseteq> G" "set ps' \<subseteq> insert p (set ps)" "length gs' \<le> length gs" "length ps' \<le> Suc (length ps)"
      "delivered q2 G + withheld q2 ps' + mset vs' = add_mset v (delivered q G + withheld q ps + mset vs)"
      by blast
    have "\<exists>q' gs'' ps'' vs''. q_run ops cs q2 = Some q' \<and> q_inv rep q' gs'' ps'' vs'' \<and>
        delivered q' (G \<union> set (get_ids cs)) + withheld q' ps'' + mset vs'' =
        delivered q2 G + withheld q2 ps' + mset vs' + mset (put_values cs)"
      by (rule Cons.IH [OF s(3), where P = "insert p P"]) (use Cons.prems s CPut in auto)
    then show ?thesis using s CPut by auto
  qed
qed

end

section \<open>Properties\<close>

lemma queue_new_inv: "rep b [] \<Longrightarrow> q_inv rep (queue_new b) [] [] []"
  by (simp add: q_inv_def queue_new_def blist.rep_new)

text \<open>
  \<^verbatim>\<open>Queue::Get\<close>. Polling a fresh get operation always returns. It takes the oldest stored
  value; with nothing stored it takes the value of a suspended put and completes that put; with
  neither it suspends, and a second poll while suspended is an error that changes nothing. The
  invariant of the queue is kept on every branch.
\<close>

theorem queue_get:
  assumes "q_inv qb_rep q gs ps vs" and "waiting_get q g" and "Suc (length gs) < size_max"
  shows "\<exists>r q'. get_poll qbase_ops g q = Some (r, q') \<and>
    (if vs \<noteq> []
     then r = PollReturn \<and> opt_get (g_result (gets q' g)) = Some (hd vs) \<and> q_inv qb_rep q' [] ps (tl vs)
     else if ps \<noteq> []
     then r = PollReturn \<and> opt_get (g_result (gets q' g)) = opt_get (p_value (puts q (last ps))) \<and>
          \<not> ov_empty (p_result (puts q' (last ps))) \<and> q_inv qb_rep q' [] (butlast ps) []
     else if g \<in> set gs
     then r = PollThrow (make_error_queue ErrorQueue_PendingGetError) \<and> q' = q
     else r = PollSuspend \<and> q_inv qb_rep q' (gs @ [g]) [] [])"
  by (rule qb.get_poll_cases [OF assms])

definition sample_queue :: "(int qbase, int) queue" where
  "sample_queue = the (get_call 7 (queue_new (the (qb_emplace 5 (qb_new 2)))))"

lemma sample_queue_inv: "q_inv qb_rep sample_queue [] [] [5]" "waiting_get sample_queue 7"
  using blist.rep_new
  by (simp_all add: sample_queue_def q_inv_def queue_new_def get_call_def qb_emplace_def qb_new_def
      qb_rep_def opt_reset_def opt_new_def waiting_get_def opt_ok_def)

theorem queue_get_witness:
  "\<exists>r q'. get_poll qbase_ops 7 sample_queue = Some (r, q') \<and> r = PollReturn \<and>
     opt_get (g_result (gets q' 7)) = Some 5 \<and> q_inv qb_rep q' [] [] []"
  using queue_get [OF sample_queue_inv] by simp

text \<open>
  \<^verbatim>\<open>Queue::Put\<close> over the ring buffer. Polling a fresh put operation always returns. It hands
  its value to a suspended getter if there is one and completes it, stores the value if there is
  room, and otherwise suspends; the invariant is kept and the value is never dropped.
\<close>

theorem queue_put:
  assumes "q_inv (rg_rep N) q gs ps vs" and "waiting_put q p" and "Suc (length ps) < size_max"
    and "holds q p v" and "p \<notin> set ps"
  shows "\<exists>r q'. put_poll (ring_ops N) p q = Some (r, q') \<and>
    (if gs \<noteq> []
     then r = PollReturn \<and> opt_get (g_result (gets q' (last gs))) = Some v \<and>
          \<not> ov_empty (p_result (puts q' p)) \<and> q_inv (rg_rep N) q' (butlast gs) [] []
     else if length vs < N
     then r = PollReturn \<and> \<not> ov_empty (p_result (puts q' p)) \<and> q_inv (rg_rep N) q' [] ps (vs @ [v])
     else r = PollSuspend \<and> q_inv (rg_rep N) q' [] (ps @ [p]) vs)"
proof -
  have "length vs \<le> N" using assms(1) by (auto simp: q_inv_def rg_rep_def)
  with rg.put_poll_cases [OF assms(1-4)] assms(5) show ?thesis by (auto split: if_splits)
qed

definition sample_ring_queue :: "(int ring, int) queue" where
  "sample_ring_queue = the (put_call 3 9 (queue_new rg_new))"

lemma sample_ring_queue_inv:
  "q_inv (rg_rep 4) sample_ring_queue [] [] []" "waiting_put sample_ring_queue 3"
  "holds sample_ring_queue 3 9"
proof -
  have rep: "rg_rep 4 (rg_new :: int ring) []" by (rule rg_new_rep) simp_all
  obtain q1 :: "(int ring, int) queue" where "put_call 3 9 (queue_new rg_new) = Some q1"
      "q_inv (rg_rep 4) q1 [] [] []" "waiting_put q1 3" "holds q1 3 9"
    using put_call_ok [OF queue_new_inv [of "rg_rep 4", OF rep], of 3 9] by auto
  then show "q_inv (rg_rep 4) sample_ring_queue [] [] []" "waiting_put sample_ring_queue 3"
      "holds sample_ring_queue 3 9"
    by (simp_all add: sample_ring_queue_def)
qed

theorem queue_put_witness:
  "\<exists>r q'. put_poll (ring_ops 4) 3 sample_ring_queue = Some (r, q') \<and> r = PollReturn \<and>
     \<not> ov_empty (p_result (puts q' 3)) \<and> q_inv (rg_rep 4) q' [] [] [9]"
  using queue_put [OF sample_ring_queue_inv(1,2) _ sample_ring_queue_inv(3)] by simp

text \<open>
  C2. No value is lost or duplicated. Any sequence of get and put operations on a fresh queue
  runs without undefined behaviour, and afterwards the values given to the put operations are
  exactly those delivered to getters, those held by suspended puts and those stored.
\<close>

theorem queue_conserves_values:
  assumes "distinct (get_ids cs)" and "distinct (put_ids cs)" and "length cs < size_max"
  shows "\<exists>q' gs ps vs. q_run qbase_ops cs (queue_new (qb_new n)) = Some q' \<and> q_inv qb_rep q' gs ps vs \<and>
    delivered q' (set (get_ids cs)) + withheld q' ps + mset vs = mset (put_values cs)"
proof -
  have "q_inv qb_rep (queue_new (qb_new n)) [] [] []"
    by (rule queue_new_inv) (simp add: qb_rep_def qb_new_def)
  from qb.run_conserves [OF this, of "{}" "{}" cs] assms show ?thesis
    by (simp add: delivered_def withheld_def)
qed

theorem queue_conserves_values_witness:
  "\<exists>q' gs ps vs. q_run qbase_ops [CPut 1 (10 :: int), CPut 2 20, CGet 1, CGet 2, CGet 3]
       (queue_new (qb_new 1)) = Some q' \<and> q_inv qb_rep q' gs ps vs \<and>
     delivered q' {1, 2, 3} + withheld q' ps + mset vs = {#10, 20#}"
  using queue_conserves_values [of "[CPut 1 (10 :: int), CPut 2 20, CGet 1, CGet 2, CGet 3]" 1]
  by (simp del: q_run.simps One_nat_def)

text \<open>
  Destroying a suspended operation. Finalizing a get unlinks exactly that operation from the
  waiting list; the other waiters and the stored values are untouched.
\<close>

theorem queue_get_finalize:
  assumes "q_inv rep q gs ps vs"
  shows "\<exists>q'. get_finalize g q = Some q' \<and> q_inv rep q' (remove1 g gs) ps vs \<and>
    \<not> is_inserted g (pending_get q') \<and> q_log q' = q_log q \<and> puts q' = puts q"
proof -
  have lg: "ll_back (pending_get q) gs" using assms by (simp add: q_inv_def)
  have dist: "distinct gs" using blist.rep_distinct [OF lg] .
  have ins: "is_inserted g (pending_get q) \<longleftrightarrow> g \<in> set gs" using blist.rep_inserted [OF lg] .
  show ?thesis
  proof (cases "g \<in> set gs")
    case False
    then show ?thesis using assms ins by (simp add: get_finalize_def remove1_idem)
  next
    case True
    obtain r l where l: "erase (Node g) (pending_get q) = Some (r, l)" "ll_back l (remove1 g gs)"
      using blist.del_total [OF lg, of g] by blast
    let ?q = "upd_get g (\<lambda>x. x\<lparr>g_queue := False\<rparr>) (q\<lparr>pending_get := l\<rparr>)"
    have "g_queue (gets q g)" using assms True by (simp add: q_inv_def waiting_get_def)
    then have "get_finalize g q = Some ?q" using ins True l(1) by (simp add: get_finalize_def)
    moreover have "\<not> is_inserted g l" using blist.rep_inserted [OF l(2), of g] dist by simp
    moreover have "waiting_get ?q h" if "h \<in> set (remove1 g gs)" for h
      using that dist assms by (auto simp: q_inv_def waiting_get_def)
    moreover have "vs = [] \<and> ps = []" using assms True by (auto simp: q_inv_def)
    ultimately show ?thesis
      using assms l(2) by (simp add: q_inv_def waiting_put_def holds_def)
  qed
qed

theorem queue_get_finalize_witness:
  "\<exists>q'. get_finalize 7 sample_queue = Some q' \<and> q_inv qb_rep q' (remove1 7 []) [] [5] \<and>
     \<not> is_inserted 7 (pending_get q') \<and> q_log q' = q_log sample_queue \<and> puts q' = puts sample_queue"
  using queue_get_finalize [OF sample_queue_inv(1), of 7] .

text \<open>
  The waiting lists are filled with \<^verbatim>\<open>push_back\<close> only, which never moves the head pointer away
  from the sentinel; \<^verbatim>\<open>reset\<close> iterates from the head.
\<close>

text \<open>
  \<^verbatim>\<open>Queue::reset\<close> does not cancel waiting operations: while the heads of the waiting lists
  stand at the sentinel, no operation is resumed and both lists keep all their waiters.
\<close>

theorem queue_reset_forgets_waiters:
  assumes "q_inv qb_rep q gs ps vs" and "ll_head (pending_get q) = End" and "ll_head (pending_put q) = End"
  shows "\<exists>q'. queue_reset qbase_ops q = Some q' \<and> q_log q' = q_log q \<and>
    ll_back (pending_get q') gs \<and> ll_back (pending_put q') ps \<and> qb_rep (q_base q') []"
proof -
  obtain b where "c_reset qbase_ops (q_base q) = Some b" "qb_rep b []"
    using qb.reset_law assms(1) unfolding q_inv_def by blast
  then show ?thesis
    using assms by (simp add: queue_reset_def for_each_stale ll_clear_stale q_inv_def)
qed

definition suspended_get_queue :: "(int qbase, int) queue" where
  "suspended_get_queue = snd (the (get_poll qbase_ops 7 (the (get_call 7 (queue_new (qb_new 2))))))"

lemma suspended_get_queue_inv:
  "q_inv qb_rep suspended_get_queue [7] [] []"
  "ll_head (pending_get suspended_get_queue) = End" "ll_head (pending_put suspended_get_queue) = End"
proof -
  have rep: "qb_rep (qb_new 2 :: int qbase) []" by (simp add: qb_rep_def qb_new_def)
  obtain q1 :: "(int qbase, int) queue" where q1: "get_call 7 (queue_new (qb_new 2)) = Some q1"
      "q_inv qb_rep q1 [] [] []" "waiting_get q1 7"
    using get_call_ok [OF queue_new_inv [of qb_rep, OF rep], of 7] by auto
  then show "q_inv qb_rep suspended_get_queue [7] [] []"
    using qb.get_poll_wait [OF q1(2,3)] by (auto simp: suspended_get_queue_def)
  show "ll_head (pending_get suspended_get_queue) = End" "ll_head (pending_put suspended_get_queue) = End"
    by (simp_all add: suspended_get_queue_def get_call_def queue_new_def qb_new_def get_poll_def
        opt_reset_def opt_new_def qbase_ops_def qb_empty_def ll_new_def ll_empty_def push_back_def Let_def)
qed

theorem queue_reset_forgets_waiters_witness:
  "\<exists>q'. queue_reset qbase_ops suspended_get_queue = Some q' \<and> q_log q' = q_log suspended_get_queue \<and>
     ll_back (pending_get q') [7] \<and> ll_back (pending_put q') [] \<and> qb_rep (q_base q') []"
  using queue_reset_forgets_waiters [OF suspended_get_queue_inv] .

end
