(* ===== verification/Jinx_Queue2.thy ===== *)
theory Jinx_Queue2
  imports Jinx_Queue
begin

text \<open>
  \<^verbatim>\<open>Queue2<Container>\<close> (\<^verbatim>\<open>include/jinx/queue2.hpp\<close>): the queue with callbacks. The queue talks to its
  clients through \<^verbatim>\<open>CallbackGet\<close> and \<^verbatim>\<open>CallbackPut\<close>; the awaitable operations \<^verbatim>\<open>Get\<close> and \<^verbatim>\<open>Put\<close> of this
  theory implement these interfaces. They have the same fields as those of \<^verbatim>\<open>Queue\<close>, so the state is
  the record of \<open>Jinx_Queue\<close>, and the lists are those of \<^verbatim>\<open>Queue2\<close>.
\<close>

section \<open>The queue\<close>

datatype Queue2Status = Queue2Complete | Queue2Pending | Queue2Error

text \<open>The callbacks, as the awaitable operations implement them.\<close>

definition queue2_get :: "nat \<Rightarrow> 'v \<Rightarrow> ('c, 'v) queue \<Rightarrow> ('c, 'v) queue option" where
  "queue2_get g v q = get_emplace_result g v q"

definition queue2_put :: "nat \<Rightarrow> ('c, 'v) queue \<Rightarrow> ('v \<times> ('c, 'v) queue) option" where
  "queue2_put p q = put_take_value p (put_emplace_result p q)"

definition queue2_cancel_pending_get :: "nat \<Rightarrow> ('c, 'v) queue \<Rightarrow> ('c, 'v) queue" where
  "queue2_cancel_pending_get g q = q_resume (GetOp g) (make_error_awaitable ErrorAwaitable_Cancelled) q"

definition queue2_cancel_pending_put :: "nat \<Rightarrow> ('c, 'v) queue \<Rightarrow> ('c, 'v) queue" where
  "queue2_cancel_pending_put p q = q_resume (PutOp p) (make_error_awaitable ErrorAwaitable_Cancelled) q"

definition q2_reset :: "('c, 'v) container_ops \<Rightarrow> ('c, 'v) queue \<Rightarrow> ('c, 'v) queue option" where
  "q2_reset ops q =
     do { q1 \<leftarrow> for_each pending_get (\<lambda>g q. Some (queue2_cancel_pending_get g q)) q;
          lg \<leftarrow> ll_clear (pending_get q1);
          q2 \<leftarrow> for_each pending_put (\<lambda>p q. Some (queue2_cancel_pending_put p q)) (q1\<lparr>pending_get := lg\<rparr>);
          lp \<leftarrow> ll_clear (pending_put q2);
          b \<leftarrow> c_reset ops (q_base q2);
          Some (q2\<lparr>pending_put := lp, q_base := b\<rparr>) }"

definition q2_get ::
    "('c, 'v) container_ops \<Rightarrow> nat \<Rightarrow> ('c, 'v) queue \<Rightarrow> (Queue2Status \<times> ('c, 'v) queue) option" where
  "q2_get ops g q =
     (if c_empty ops (q_base q)
      then if \<not> ll_empty (pending_put q)
           then do { a \<leftarrow> ll_back_ptr (pending_put q);
                     p \<leftarrow> node_of a;
                     (v, q1) \<leftarrow> queue2_put p q;
                     q2 \<leftarrow> queue2_get g v q1;
                     (_, l) \<leftarrow> pop_back (pending_put q2);
                     Some (Queue2Complete, q2\<lparr>pending_put := l\<rparr>) }
           else (case push_back g (pending_get q) of
                   (Failed, l) \<Rightarrow> Some (Queue2Error, q\<lparr>pending_get := l\<rparr>)
                 | (Successful, l) \<Rightarrow> Some (Queue2Pending, q\<lparr>pending_get := l\<rparr>))
      else do { v \<leftarrow> c_front ops (q_base q);
                q1 \<leftarrow> queue2_get g v q;
                b \<leftarrow> c_pop ops (q_base q1);
                Some (Queue2Complete, q1\<lparr>q_base := b\<rparr>) })"

text \<open>
  The loop of \<^verbatim>\<open>put\<close> over the waiting getters. It ends with the value handed over (\<open>True\<close>) or with
  no getter left.
\<close>

partial_function (option) q2_serve ::
    "('c, 'v) container_ops \<Rightarrow> nat \<Rightarrow> ('c, 'v) queue \<Rightarrow> (bool \<times> ('c, 'v) queue) option" where
  "q2_serve ops p q =
     (if ll_empty (pending_get q) then Some (False, q)
      else do { a \<leftarrow> ll_back_ptr (pending_get q);
                g \<leftarrow> node_of a;
                (_, l) \<leftarrow> pop_back (pending_get q);
                let q1 = q\<lparr>pending_get := l\<rparr>;
                if c_empty ops (q_base q1)
                then do { (v, q2) \<leftarrow> queue2_put p q1; q3 \<leftarrow> queue2_get g v q2; Some (True, q3) }
                else do { v \<leftarrow> c_front ops (q_base q1);
                          q2 \<leftarrow> queue2_get g v q1;
                          b \<leftarrow> c_pop ops (q_base q2);
                          q2_serve ops p (q2\<lparr>q_base := b\<rparr>) } })"

definition q2_put ::
    "('c, 'v) container_ops \<Rightarrow> nat \<Rightarrow> ('c, 'v) queue \<Rightarrow> (Queue2Status \<times> ('c, 'v) queue) option" where
  "q2_put ops p q =
     do { (served, q1) \<leftarrow> q2_serve ops p q;
          if served then Some (Queue2Complete, q1)
          else if c_full ops (q_base q1)
          then (case push_back p (pending_put q1) of
                  (Failed, l) \<Rightarrow> Some (Queue2Error, q1\<lparr>pending_put := l\<rparr>)
                | (Successful, l) \<Rightarrow> Some (Queue2Pending, q1\<lparr>pending_put := l\<rparr>))
          else do { (v, q2) \<leftarrow> queue2_put p q1;
                    b \<leftarrow> c_emplace ops v (q_base q2);
                    Some (Queue2Complete, q2\<lparr>q_base := b\<rparr>) } }"

section \<open>The awaitable operations\<close>

definition poll_of :: "Error \<Rightarrow> Queue2Status \<Rightarrow> poll" where
  "poll_of e st = (case st of Queue2Error \<Rightarrow> PollThrow e | Queue2Pending \<Rightarrow> PollSuspend | Queue2Complete \<Rightarrow> PollReturn)"

definition get2_poll ::
    "('c, 'v) container_ops \<Rightarrow> nat \<Rightarrow> ('c, 'v) queue \<Rightarrow> (poll \<times> ('c, 'v) queue) option" where
  "get2_poll ops g q =
     (if \<not> op_empty (g_result (gets q g)) then Some (PollReturn, q)
      else if \<not> g_queue (gets q g) then None
      else do { (st, q1) \<leftarrow> q2_get ops g q;
                Some (poll_of (make_error_queue ErrorQueue_PendingGetError) st, q1) })"

definition put2_poll ::
    "('c, 'v) container_ops \<Rightarrow> nat \<Rightarrow> ('c, 'v) queue \<Rightarrow> (poll \<times> ('c, 'v) queue) option" where
  "put2_poll ops p q =
     (if \<not> ov_empty (p_result (puts q p)) then Some (PollReturn, q)
      else if \<not> p_queue (puts q p) then None
      else do { (st, q1) \<leftarrow> q2_put ops p q;
                Some (poll_of (make_error_queue ErrorQueue_PendingPutError) st, q1) })"

definition get2_finalize :: "nat \<Rightarrow> ('c, 'v) queue \<Rightarrow> ('c, 'v) queue option" where
  "get2_finalize g q =
     (if is_inserted g (pending_get q)
      then if \<not> g_queue (gets q g) then None
           else do { (_, l) \<leftarrow> erase (Node g) (pending_get q);
                     Some (upd_get g (\<lambda>x. x\<lparr>g_queue := False\<rparr>) (q\<lparr>pending_get := l\<rparr>)) }
      else Some q)"

definition put2_finalize :: "nat \<Rightarrow> ('c, 'v) queue \<Rightarrow> ('c, 'v) queue option" where
  "put2_finalize p q =
     do { q1 \<leftarrow> (if is_inserted p (pending_put q)
                 then if \<not> p_queue (puts q p) then None
                      else do { (_, l) \<leftarrow> erase (Node p) (pending_put q);
                                Some (upd_put p (\<lambda>x. x\<lparr>p_queue := False\<rparr>) (q\<lparr>pending_put := l\<rparr>)) }
                 else Some q);
          r \<leftarrow> opt_reset (p_value (puts q1 p));
          Some (upd_put p (\<lambda>x. x\<lparr>p_value := r\<rparr>) q1) }"

definition get2_call :: "nat \<Rightarrow> ('c, 'v) queue \<Rightarrow> ('c, 'v) queue option" where
  "get2_call g q =
     do { r \<leftarrow> opt_reset (g_result (gets q g));
          Some (upd_get g (\<lambda>x. x\<lparr>g_result := r, g_queue := True\<rparr>) q) }"

definition put2_call :: "nat \<Rightarrow> 'v \<Rightarrow> ('c, 'v) queue \<Rightarrow> ('c, 'v) queue option" where
  "put2_call p v q =
     do { r \<leftarrow> opt_emplace v (p_value (puts q p));
          Some (upd_put p (\<lambda>x. x\<lparr>p_result := ov_reset (p_result x), p_queue := True, p_value := r\<rparr>) q) }"

section \<open>Equivalence with the queue\<close>

text \<open>
  Two outcomes agree when they give the same result and the same state; the two operations that
  meet may be resumed in either order.
\<close>

definition same_outcome :: "(poll \<times> ('c, 'v) queue) option \<Rightarrow> (poll \<times> ('c, 'v) queue) option \<Rightarrow> bool" where
  "same_outcome a b \<longleftrightarrow>
     (\<exists>r q1 q2. a = Some (r, q1) \<and> b = Some (r, q2) \<and> q2\<lparr>q_log := q_log q1\<rparr> = q1 \<and> mset (q_log q2) = mset (q_log q1))"

lemma same_outcome_refl: "a = Some (r, q) \<Longrightarrow> b = a \<Longrightarrow> same_outcome a b"
  by (auto simp: same_outcome_def)

lemma same_outcomeI:
  fixes q1 q2 :: "('c, 'v) queue"
  assumes "a = Some (r, q1)" and "b = Some (r, q2)" and "q_base q2 = q_base q1" and "pending_get q2 = pending_get q1"
    and "pending_put q2 = pending_put q1" and "gets q2 = gets q1" and "puts q2 = puts q1"
    and "mset (q_log q2) = mset (q_log q1)"
  shows "same_outcome a b"
  using assms by (auto simp: same_outcome_def intro!: queue.equality)

lemma put_op_commute: "(x :: 'v put_op)\<lparr>p_value := a, p_result := b\<rparr> = x\<lparr>p_result := b, p_value := a\<rparr>"
  by (cases x) simp

context fifo
begin

lemma get2_same:
  assumes inv: "q_inv rep q gs ps vs" and w: "waiting_get q g" and len: "Suc (length gs) < size_max"
  shows "same_outcome (get_poll ops g q) (get2_poll ops g q)"
proof -
  have rep: "rep (q_base q) vs" and lp: "ll_back (pending_put q) ps" and ok: "opt_ok (g_result (gets q g))"
    using inv by (auto simp: q_inv_def)
  have g: "op_empty (g_result (gets q g))" "g_queue (gets q g)" using w by (auto simp: waiting_get_def)
  obtain r q' where poll: "get_poll ops g q = Some (r, q')" using get_poll_cases [OF inv w len] by blast
  have em: "c_empty ops (q_base q) \<longleftrightarrow> vs = []" by (rule empty_law [OF rep])
  show ?thesis
  proof (cases "vs = [] \<and> ps \<noteq> []")
    case True
    let ?p = "last ps"
    obtain v where v: "holds q ?p v" using inv True last_in_set [of ps] unfolding q_inv_def waiting_put_def by blast
    obtain l where l: "ll_back_ptr (pending_put q) = Some (Node ?p)" "pop_back (pending_put q) = Some (Successful, l)"
        "\<not> ll_empty (pending_put q)"
      using last_node [OF lp] True by blast
    have h1: "holds (q\<lparr>pending_put := l\<rparr>) ?p v" using v by (simp add: holds_def)
    have h2: "holds (put_emplace_result ?p q) ?p v" using v by (simp add: holds_def)
    obtain r1 where r1: "opt_emplace v (g_result (gets q g)) = Some r1" using opt_emplace_total [OF ok] by blast
    have a: "get_poll ops g q = Some (PollReturn, put_emplace_result ?p
        (q_resume (GetOp g) Error_default (upd_get g (\<lambda>x. x\<lparr>g_result := r1\<rparr>)
          (upd_put ?p (\<lambda>x. x\<lparr>p_value := (p_value x)\<lparr>op_memory := MovedObj\<rparr>\<rparr>) (q\<lparr>pending_put := l\<rparr>)))))"
      using g True em l put_take_value_ok [OF h1] r1
      by (simp add: get_poll_def node_of_def get_emplace_result_def)
    have b: "get2_poll ops g q = Some (PollReturn,
        (q_resume (GetOp g) Error_default (upd_get g (\<lambda>x. x\<lparr>g_result := r1\<rparr>)
          (upd_put ?p (\<lambda>x. x\<lparr>p_value := (p_value x)\<lparr>op_memory := MovedObj\<rparr>\<rparr>) (put_emplace_result ?p q))))\<lparr>pending_put := l\<rparr>)"
      using g True em l put_take_value_ok [OF h2] r1
      by (simp add: get2_poll_def q2_get_def queue2_get_def queue2_put_def node_of_def get_emplace_result_def poll_of_def)
    show ?thesis
      by (rule same_outcomeI [OF a b]) (simp_all add: put_op_commute)
  next
    case False
    then have "get2_poll ops g q = get_poll ops g q"
      using g em blist.rep_empty [OF lp]
      by (auto simp: get_poll_def get2_poll_def q2_get_def queue2_get_def poll_of_def Option.bind_eq_Some_conv
          split: prod.splits SuccessfulFailed.splits Option.bind_splits)
    then show ?thesis using poll by (rule same_outcome_refl [rotated])
  qed
qed

lemma put2_same:
  assumes inv: "q_inv rep q gs ps vs" and w: "waiting_put q p" and len: "Suc (length ps) < size_max"
    and fresh: "\<not> c_full ops (q_base q) \<Longrightarrow> p \<notin> set ps"
  shows "same_outcome (put_poll ops p q) (put2_poll ops p q)"
proof -
  have rep: "rep (q_base q) vs" and lg: "ll_back (pending_get q) gs" and gs: "gs \<noteq> [] \<Longrightarrow> vs = []"
    using inv by (auto simp: q_inv_def)
  have p: "ov_empty (p_result (puts q p))" "p_queue (puts q p)" and ex: "\<exists>v. holds q p v"
    using w by (auto simp: waiting_put_def)
  obtain v where v: "holds q p v" using ex by blast
  obtain r q' where poll: "put_poll ops p q = Some (r, q')" using put_poll_cases [OF inv w len v fresh] by blast
  have em: "c_empty ops (q_base q) \<longleftrightarrow> vs = []" by (rule empty_law [OF rep])
  have hp: "holds (put_emplace_result p q0) p v" if "puts q0 = puts q" for q0 :: "('c, 'v) queue"
    using v that by (simp add: holds_def)
  show ?thesis
  proof (cases "gs = []")
    case True
    have e: "ll_empty (pending_get q)" using blist.rep_empty [OF lg] True by simp
    then have serve: "q2_serve ops p q = Some (False, q)" by (simp add: q2_serve.simps [of ops p q])
    show ?thesis
    proof (cases "c_full ops (q_base q)")
      case True
      then have "put2_poll ops p q = put_poll ops p q"
        using p e serve by (auto simp: put_poll_def put2_poll_def q2_put_def poll_of_def split: prod.splits SuccessfulFailed.splits)
      then show ?thesis using poll by (rule same_outcome_refl [rotated])
    next
      case False
      obtain b where "c_emplace ops v (q_base q) = Some b" using emplace_law [OF rep False] by blast
      then have a: "put_poll ops p q = Some (PollReturn, put_emplace_result p
            ((upd_put p (\<lambda>x. x\<lparr>p_value := (p_value x)\<lparr>op_memory := MovedObj\<rparr>\<rparr>) q)\<lparr>q_base := b\<rparr>))"
          and b: "put2_poll ops p q = Some (PollReturn,
            (upd_put p (\<lambda>x. x\<lparr>p_value := (p_value x)\<lparr>op_memory := MovedObj\<rparr>\<rparr>) (put_emplace_result p q))\<lparr>q_base := b\<rparr>)"
        using p e serve False put_take_value_ok [OF v] put_take_value_ok [OF hp [OF refl]]
        by (auto simp: put_poll_def put2_poll_def q2_put_def queue2_put_def poll_of_def)
      show ?thesis by (rule same_outcomeI [OF a b]) (simp_all add: put_op_commute)
    qed
  next
    case False
    let ?g = "last gs"
    obtain l where l: "ll_back_ptr (pending_get q) = Some (Node ?g)" "pop_back (pending_get q) = Some (Successful, l)"
        "\<not> ll_empty (pending_get q)"
      using last_node [OF lg False] by blast
    have h1: "holds (q\<lparr>pending_get := l\<rparr>) p v" using v by (simp add: holds_def)
    have ok: "opt_ok (g_result (gets q ?g))" using inv by (simp add: q_inv_def)
    obtain r1 where r1: "opt_emplace v (g_result (gets q ?g)) = Some r1" using opt_emplace_total [OF ok] by blast
    have serve: "q2_serve ops p q = map_option (\<lambda>x. (True, x)) (get_emplace_result ?g v
        (upd_put p (\<lambda>x. x\<lparr>p_value := (p_value x)\<lparr>op_memory := MovedObj\<rparr>\<rparr>) (put_emplace_result p (q\<lparr>pending_get := l\<rparr>))))"
      using l em gs [OF False] put_take_value_ok [OF hp, of "q\<lparr>pending_get := l\<rparr>"]
      by (simp add: q2_serve.simps [of ops p q] node_of_def queue2_put_def queue2_get_def map_option_case
          split: option.splits)
    have a: "put_poll ops p q = Some (PollReturn, put_emplace_result p
          (q_resume (GetOp ?g) Error_default (upd_get ?g (\<lambda>x. x\<lparr>g_result := r1\<rparr>)
            (upd_put p (\<lambda>x. x\<lparr>p_value := (p_value x)\<lparr>op_memory := MovedObj\<rparr>\<rparr>) (q\<lparr>pending_get := l\<rparr>)))))"
      using p l em gs [OF False] r1 put_take_value_ok [OF h1]
      by (simp add: put_poll_def node_of_def get_emplace_result_def)
    have b: "put2_poll ops p q = Some (PollReturn,
          q_resume (GetOp ?g) Error_default (upd_get ?g (\<lambda>x. x\<lparr>g_result := r1\<rparr>)
            (upd_put p (\<lambda>x. x\<lparr>p_value := (p_value x)\<lparr>op_memory := MovedObj\<rparr>\<rparr>)
              (put_emplace_result p (q\<lparr>pending_get := l\<rparr>)))))"
      using p serve r1 by (simp add: put2_poll_def q2_put_def poll_of_def get_emplace_result_def)
    show ?thesis by (rule same_outcomeI [OF a b]) (simp_all add: put_op_commute)
  qed
qed

end

text \<open>
  C23. The two queues behave alike. In every state both can reach, polling a get or a put operation
  of \<^verbatim>\<open>Queue2\<close> gives the same answer and the same state as \<^verbatim>\<open>Queue\<close>, over both containers; only the order
  in which the two operations of a hand-over are resumed differs.
\<close>

theorem queue2_is_queue:
  assumes "q_inv qb_rep q gs ps vs" and "q_inv (rg_rep N) q' gs' ps' vs'"
    and "Suc (length gs) < size_max" and "Suc (length ps) < size_max"
    and "Suc (length gs') < size_max" and "Suc (length ps') < size_max"
  shows "(waiting_get q g \<longrightarrow> same_outcome (get_poll qbase_ops g q) (get2_poll qbase_ops g q)) \<and>
    (waiting_put q p \<and> p \<notin> set ps \<longrightarrow> same_outcome (put_poll qbase_ops p q) (put2_poll qbase_ops p q)) \<and>
    (waiting_get q' g \<longrightarrow> same_outcome (get_poll (ring_ops N) g q') (get2_poll (ring_ops N) g q')) \<and>
    (waiting_put q' p \<and> p \<notin> set ps' \<longrightarrow> same_outcome (put_poll (ring_ops N) p q') (put2_poll (ring_ops N) p q'))"
  using qb.get2_same [OF assms(1) _ assms(3), of g] qb.put2_same [OF assms(1) _ assms(4), of p]
    rg.get2_same [OF assms(2) _ assms(5), of g] rg.put2_same [OF assms(2) _ assms(6), of p] by blast

theorem queue2_is_queue_witness:
  "same_outcome (get_poll qbase_ops 7 sample_queue) (get2_poll qbase_ops 7 sample_queue) \<and>
   same_outcome (put_poll (ring_ops 4) 3 sample_ring_queue) (put2_poll (ring_ops 4) 3 sample_ring_queue)"
  using queue2_is_queue [OF sample_queue_inv(1) sample_ring_queue_inv(1), of 7 3] sample_queue_inv(2)
    sample_ring_queue_inv(2) by simp

end
