(* ===== verification/Jinx_Pool.thy ===== *)
theory Jinx_Pool
  imports Jinx_Buffer
begin

text \<open>
  The buffer pool of \<^verbatim>\<open>include/jinx/buffer.hpp\<close>: memory blocks with a reference counter and a
  view, the list of reserve blocks, the waiting \<^verbatim>\<open>Allocate\<close> operations, and
  \<^verbatim>\<open>posix::MemoryProvider\<close> (\<^verbatim>\<open>include/jinx/posix.hpp\<close>) below it.

  A block is named by its address. \<open>sz\<close> is \<^verbatim>\<open>sizeof(BufferMemory)\<close>, the offset of the bytes of
  a block. The interface of a memory provider is the locale \<open>memory_provider\<close>.
\<close>

section \<open>Memory providers\<close>

record 'm provider_ops =
  mp_alloc :: "nat \<Rightarrow> 'm \<Rightarrow> nat option \<times> 'm"
  mp_free :: "nat \<Rightarrow> 'm \<Rightarrow> 'm"

locale memory_provider =
  fixes pops :: "'m provider_ops"
    and used :: "'m \<Rightarrow> nat set"
  assumes alloc_some: "mp_alloc pops n m = (Some a, m') \<Longrightarrow> a \<notin> used m \<and> used m' = insert a (used m)"
    and alloc_none: "mp_alloc pops n m = (None, m') \<Longrightarrow> used m' = used m"
    and free_used: "used (mp_free pops a m) = used m - {a}"

text \<open>
  The C heap: which free block \<^verbatim>\<open>malloc\<close> picks, and whether it finds one, is up to \<open>h_pick\<close>; a
  block that is in use is never returned.
\<close>

record heap =
  h_used :: "nat set"
  h_pick :: "nat \<Rightarrow> nat set \<Rightarrow> nat option"

definition posix_alloc :: "nat \<Rightarrow> heap \<Rightarrow> nat option \<times> heap" where
  "posix_alloc n h =
     (case h_pick h n (h_used h) of
        None \<Rightarrow> (None, h)
      | Some a \<Rightarrow> if a \<in> h_used h then (None, h) else (Some a, h\<lparr>h_used := insert a (h_used h)\<rparr>))"

definition posix_free :: "nat \<Rightarrow> heap \<Rightarrow> heap" where
  "posix_free a h = h\<lparr>h_used := h_used h - {a}\<rparr>"

definition posix_provider :: "heap provider_ops" where
  "posix_provider = \<lparr>mp_alloc = posix_alloc, mp_free = posix_free\<rparr>"

interpretation posix: memory_provider posix_provider h_used
  by unfold_locales
    (auto simp: posix_provider_def posix_alloc_def posix_free_def split: option.splits if_splits)

section \<open>The pool\<close>

record buffer_memory =
  m_refc :: int
  m_view :: BufferView
  m_info_fresh :: bool
  m_memory_size :: nat
  m_guard :: bool

record alloc_op =
  a_result :: "nat Optional"
  a_pool :: bool

record 'm pool =
  bp_size :: nat
  bp_reserve :: nat
  bp_limit :: int
  bp_active :: nat
  bp_reserve_buffers :: "nat tslist"
  bp_pending :: "nat linked_list"
  bp_memory :: "nat \<Rightarrow> buffer_memory option"
  bp_provider :: 'm
  bp_requests :: "nat \<Rightarrow> alloc_op"
  bp_log :: "(nat \<times> Error) list"

definition unsigned_long :: "int \<Rightarrow> nat" where
  "unsigned_long i = nat (i mod int size_max)"

definition BufferMemory_new :: "nat \<Rightarrow> nat \<Rightarrow> nat \<Rightarrow> buffer_memory" where
  "BufferMemory_new sz a n = \<lparr>m_refc = 0, m_view = bv_new (add64 a sz) n 0 0, m_info_fresh = True,
     m_memory_size = n, m_guard = True\<rparr>"

definition BufferMemory_reset :: "nat \<Rightarrow> nat \<Rightarrow> buffer_memory \<Rightarrow> buffer_memory" where
  "BufferMemory_reset sz a m =
     m\<lparr>m_info_fresh := True, m_view := bv_new (add64 a sz) (m_memory_size m) 0 0\<rparr>"

definition allocate_memory ::
    "'m provider_ops \<Rightarrow> nat \<Rightarrow> nat \<Rightarrow> 'm pool \<Rightarrow> nat option \<times> 'm pool" where
  "allocate_memory pops sz n p =
     (let size = add64 (add64 sz n) 8
      in case mp_alloc pops size (bp_provider p) of
           (None, m) \<Rightarrow> (None, p\<lparr>bp_provider := m\<rparr>)
         | (Some a, m) \<Rightarrow>
             (Some a, p\<lparr>bp_provider := m, bp_memory := (bp_memory p)(a \<mapsto> BufferMemory_new sz a n)\<rparr>))"

definition deallocate_memory :: "'m provider_ops \<Rightarrow> nat \<Rightarrow> 'm pool \<Rightarrow> 'm pool option" where
  "deallocate_memory pops a p =
     do { m \<leftarrow> bp_memory p a;
          if \<not> m_guard m then None
          else Some (p\<lparr>bp_memory := (bp_memory p)(a := None),
                       bp_provider := mp_free pops a (bp_provider p)\<rparr>) }"

definition take_reference :: "nat \<Rightarrow> 'm pool \<Rightarrow> 'm pool option" where
  "take_reference a p =
     do { m \<leftarrow> bp_memory p a;
          if m_refc m \<noteq> 0 then None
          else Some (p\<lparr>bp_memory := (bp_memory p)(a \<mapsto> m\<lparr>m_refc := m_refc m + 1\<rparr>)\<rparr>) }"

definition reset_memory :: "nat \<Rightarrow> nat \<Rightarrow> 'm pool \<Rightarrow> 'm pool option" where
  "reset_memory sz a p =
     do { m \<leftarrow> bp_memory p a;
          Some (p\<lparr>bp_memory := (bp_memory p)(a \<mapsto> BufferMemory_reset sz a m)\<rparr>) }"

definition pool_allocate ::
    "'m provider_ops \<Rightarrow> nat \<Rightarrow> 'm pool \<Rightarrow> (nat option \<times> 'm pool) option" where
  "pool_allocate pops sz p =
     (case ts_pop (bp_reserve_buffers p) of
        (None, l) \<Rightarrow>
          if bp_active p > unsigned_long (bp_limit p)
          then Some (None, p\<lparr>bp_reserve_buffers := l\<rparr>)
          else (case allocate_memory pops sz (bp_size p) (p\<lparr>bp_reserve_buffers := l\<rparr>) of
                  (None, p1) \<Rightarrow> Some (None, p1)
                | (Some a, p1) \<Rightarrow>
                    do { p2 \<leftarrow> take_reference a (p1\<lparr>bp_active := add64 (bp_active p1) 1\<rparr>);
                         Some (Some a, p2) })
      | (Some a, l) \<Rightarrow>
          do { p1 \<leftarrow> reset_memory sz a (p\<lparr>bp_reserve_buffers := l\<rparr>);
               p2 \<leftarrow> take_reference a p1;
               Some (Some a, p2) })"

definition pool_release :: "'m provider_ops \<Rightarrow> nat \<Rightarrow> nat \<Rightarrow> 'm pool \<Rightarrow> 'm pool option" where
  "pool_release pops sz a p =
     (if \<not> ll_empty (bp_pending p)
      then do { p1 \<leftarrow> take_reference a p;
                p2 \<leftarrow> reset_memory sz a p1;
                x \<leftarrow> ll_back_ptr (bp_pending p2);
                r \<leftarrow> (case x of Node r \<Rightarrow> Some r | End \<Rightarrow> None);
                (_, l) \<leftarrow> erase (Node r) (bp_pending p2);
                o' \<leftarrow> opt_emplace a (a_result (bp_requests p2 r));
                Some (p2\<lparr>bp_pending := l,
                         bp_requests := (bp_requests p2)(r := \<lparr>a_result = o', a_pool = False\<rparr>),
                         bp_log := bp_log p2 @ [(r, Error_default)]\<rparr>) }
      else if get_size_unsafe (bp_reserve_buffers p) \<ge> bp_reserve p
      then do { p1 \<leftarrow> deallocate_memory pops a p;
                Some (p1\<lparr>bp_active := sub64 (bp_active p1) 1\<rparr>) }
      else Some (p\<lparr>bp_reserve_buffers := ts_push a (bp_reserve_buffers p)\<rparr>))"

text \<open>\<^verbatim>\<open>PointerShared::unref\<close> on a buffer.\<close>

definition buffer_unref :: "'m provider_ops \<Rightarrow> nat \<Rightarrow> nat \<Rightarrow> 'm pool \<Rightarrow> 'm pool option" where
  "buffer_unref pops sz a p =
     do { m \<leftarrow> bp_memory p a;
          let p1 = p\<lparr>bp_memory := (bp_memory p)(a \<mapsto> m\<lparr>m_refc := m_refc m - 1\<rparr>)\<rparr>;
          if m_refc m = 1 then pool_release pops sz a p1
          else if m_refc m = 0 then None
          else Some p1 }"

partial_function (option) shrink_reserve ::
    "'m provider_ops \<Rightarrow> nat \<Rightarrow> 'm pool \<Rightarrow> 'm pool option" where
  "shrink_reserve pops sz p =
     (if get_size_unsafe (bp_reserve_buffers p) > bp_reserve p
      then (case ts_pop (bp_reserve_buffers p) of
              (None, _) \<Rightarrow> None
            | (Some a, l) \<Rightarrow>
                do { p1 \<leftarrow> pool_release pops sz a (p\<lparr>bp_reserve_buffers := l\<rparr>);
                     shrink_reserve pops sz p1 })
      else Some p)"

partial_function (option) grow_reserve ::
    "'m provider_ops \<Rightarrow> nat \<Rightarrow> 'm pool \<Rightarrow> 'm pool option" where
  "grow_reserve pops sz p =
     (if get_size_unsafe (bp_reserve_buffers p) < bp_reserve p
      then (case allocate_memory pops sz (bp_size p) p of
              (None, p1) \<Rightarrow> Some p1
            | (Some a, p1) \<Rightarrow>
                grow_reserve pops sz (p1\<lparr>bp_active := add64 (bp_active p1) 1,
                                        bp_reserve_buffers := ts_push a (bp_reserve_buffers p1)\<rparr>))
      else Some p)"

definition pool_reconfigure ::
    "'m provider_ops \<Rightarrow> nat \<Rightarrow> nat \<Rightarrow> int \<Rightarrow> 'm pool \<Rightarrow> 'm pool option" where
  "pool_reconfigure pops sz reserve limit p =
     do { p1 \<leftarrow> shrink_reserve pops sz (p\<lparr>bp_reserve := reserve, bp_limit := limit\<rparr>);
          grow_reserve pops sz p1 }"

definition pool_new ::
    "'m provider_ops \<Rightarrow> nat \<Rightarrow> 'm \<Rightarrow> nat \<Rightarrow> nat \<Rightarrow> int \<Rightarrow> 'm pool option" where
  "pool_new pops sz m bsize reserve limit =
     pool_reconfigure pops sz reserve limit
       \<lparr>bp_size = bsize, bp_reserve = reserve, bp_limit = limit, bp_active = 0,
        bp_reserve_buffers = ts_new, bp_pending = ll_new, bp_memory = (\<lambda>_. None), bp_provider = m,
        bp_requests = (\<lambda>_. \<lparr>a_result = opt_new, a_pool = False\<rparr>), bp_log = []\<rparr>"

partial_function (option) destroy_reserve ::
    "'m provider_ops \<Rightarrow> 'm pool \<Rightarrow> 'm pool option" where
  "destroy_reserve pops p =
     (case ts_pop (bp_reserve_buffers p) of
        (None, l) \<Rightarrow> Some (p\<lparr>bp_reserve_buffers := l\<rparr>)
      | (Some a, l) \<Rightarrow>
          do { p1 \<leftarrow> deallocate_memory pops a (p\<lparr>bp_reserve_buffers := l\<rparr>);
               destroy_reserve pops (p1\<lparr>bp_active := sub64 (bp_active p1) 1\<rparr>) })"

definition pool_destroy :: "'m provider_ops \<Rightarrow> 'm pool \<Rightarrow> 'm pool option" where
  "pool_destroy pops p =
     do { p1 \<leftarrow> destroy_reserve pops p; if bp_active p1 = 0 then Some p1 else None }"

text \<open>The awaitable \<^verbatim>\<open>Allocate\<close>.\<close>

datatype alloc_poll = AllocReturn | AllocSuspend | AllocThrow Error

definition allocate_call :: "nat \<Rightarrow> 'm pool \<Rightarrow> 'm pool option" where
  "allocate_call r p =
     do { o' \<leftarrow> opt_reset (a_result (bp_requests p r));
          Some (p\<lparr>bp_requests := (bp_requests p)(r := \<lparr>a_result = o', a_pool = True\<rparr>)\<rparr>) }"

definition allocate_poll ::
    "'m provider_ops \<Rightarrow> nat \<Rightarrow> nat \<Rightarrow> 'm pool \<Rightarrow> (alloc_poll \<times> 'm pool) option" where
  "allocate_poll pops sz r p =
     (if \<not> op_empty (a_result (bp_requests p r)) then Some (AllocReturn, p)
      else if \<not> a_pool (bp_requests p r) then None
      else do { (b, p1) \<leftarrow> pool_allocate pops sz p;
                (case b of
                   Some a \<Rightarrow>
                     do { o' \<leftarrow> opt_emplace a (a_result (bp_requests p1 r));
                          Some (AllocReturn, p1\<lparr>bp_requests :=
                            (bp_requests p1)(r := (bp_requests p1 r)\<lparr>a_result := o'\<rparr>)\<rparr>) }
                 | None \<Rightarrow>
                     (case push_back r (bp_pending p1) of
                        (Failed, l) \<Rightarrow>
                          Some (AllocThrow (make_error_async_allocate ErrorAllocate_RegisterAllocateError),
                                p1\<lparr>bp_pending := l\<rparr>)
                      | (Successful, l) \<Rightarrow> Some (AllocSuspend, p1\<lparr>bp_pending := l\<rparr>))) })"

definition allocate_finalize :: "nat \<Rightarrow> 'm pool \<Rightarrow> 'm pool option" where
  "allocate_finalize r p =
     (if a_pool (bp_requests p r)
      then do { (_, l) \<leftarrow> erase (Node r) (bp_pending p);
                Some (p\<lparr>bp_pending := l,
                        bp_requests := (bp_requests p)(r := (bp_requests p r)\<lparr>a_pool := False\<rparr>)\<rparr>) }
      else Some p)"

text \<open>
  \<^verbatim>\<open>TaskBufferred::allocate\<close> up to the construction of the task: \<open>align\<close> is the alignment of the
  task type. The result is the address at which the task is built.
\<close>

definition task_place :: "nat \<Rightarrow> nat \<Rightarrow> BufferView \<Rightarrow> (nat \<times> BufferView) option" where
  "task_place align tsize v =
     (let offset = bv_memory v mod align
      in if offset \<noteq> 0
         then (case bv_cut offset v of
                 (Failed, _) \<Rightarrow> None
               | (Successful, v1) \<Rightarrow> if bv_memory_size v1 \<ge> tsize then Some (bv_memory v1, v1) else None)
         else if bv_memory_size v \<ge> tsize then Some (bv_memory v, v) else None)"

section \<open>Invariant\<close>

text \<open>
  \<open>rs\<close> are the reserve blocks, \<open>qs\<close> the waiting requests, \<open>X\<close> blocks whose last reference was just
  dropped. A block has no reference exactly while it is in reserve or in \<open>X\<close>; the counter of
  active buffers counts the allocated blocks.
\<close>

definition pool_inv ::
    "('m \<Rightarrow> nat set) \<Rightarrow> 'm pool \<Rightarrow> nat list \<Rightarrow> nat list \<Rightarrow> nat set \<Rightarrow> bool" where
  "pool_inv used p rs qs X \<longleftrightarrow>
     ts_rep (bp_reserve_buffers p) rs \<and> ll_back (bp_pending p) qs \<and>
     finite (dom (bp_memory p)) \<and> bp_active p = card (dom (bp_memory p)) \<and> bp_active p < size_max - 1 \<and>
     set rs \<union> X \<subseteq> dom (bp_memory p) \<and> set rs \<inter> X = {} \<and> dom (bp_memory p) \<subseteq> used (bp_provider p) \<and>
     (\<forall>a m. bp_memory p a = Some m \<longrightarrow> m_guard m \<and> m_refc m \<ge> 0 \<and> (m_refc m = 0 \<longleftrightarrow> a \<in> set rs \<union> X)) \<and>
     (\<forall>r. opt_ok (a_result (bp_requests p r))) \<and>
     (\<forall>r \<in> set qs. op_empty (a_result (bp_requests p r)) \<and> a_pool (bp_requests p r))"

text \<open>What a client gets: one reference, an empty view over the whole block.\<close>

definition fresh_block :: "nat \<Rightarrow> nat \<Rightarrow> buffer_memory \<Rightarrow> bool" where
  "fresh_block sz a m \<longleftrightarrow>
     m_refc m = 1 \<and> m_info_fresh m \<and> m_view m = bv_new (add64 a sz) (m_memory_size m) 0 0"

context memory_provider
begin

lemma allocate_from_reserve:
  assumes inv: "pool_inv used p (a # rs) qs X"
  shows "\<exists>p'. pool_allocate pops sz p = Some (Some a, p') \<and> pool_inv used p' rs qs X \<and>
    (\<exists>m. bp_memory p' a = Some m \<and> fresh_block sz a m) \<and> bp_active p' = bp_active p \<and>
    (\<forall>b. b \<noteq> a \<longrightarrow> bp_memory p' b = bp_memory p b) \<and> bp_requests p' = bp_requests p"
proof -
  obtain l where l: "ts_pop (bp_reserve_buffers p) = (Some a, l)" "ts_rep l rs"
    using ts.pop_cons [of "bp_reserve_buffers p" a rs] inv by (auto simp: pool_inv_def)
  have "a \<in> dom (bp_memory p)" using inv by (auto simp: pool_inv_def)
  then obtain m where m: "bp_memory p a = Some m" "m_refc m = 0"
    using inv by (fastforce simp: pool_inv_def)
  have "a \<notin> set rs" "a \<notin> X"
    using inv ts.rep_distinct [of _ "a # rs"] by (auto simp: pool_inv_def)
  moreover define p' where "p' = p\<lparr>bp_reserve_buffers := l,
    bp_memory := (bp_memory p)(a \<mapsto> (BufferMemory_reset sz a m)\<lparr>m_refc := 1\<rparr>)\<rparr>"
  have "pool_allocate pops sz p = Some (Some a, p')"
    using l m by (simp add: pool_allocate_def reset_memory_def take_reference_def BufferMemory_reset_def p'_def)
  moreover have "dom (bp_memory p') = dom (bp_memory p)" using m by (auto simp: p'_def)
  then have "pool_inv used p' rs qs X"
    using inv l(2) m calculation(1,2) by (auto simp: pool_inv_def p'_def BufferMemory_reset_def)
  ultimately show ?thesis
    by (auto simp: p'_def fresh_block_def BufferMemory_reset_def)
qed

text \<open>Which block is returned, and when one is.\<close>

lemma allocate_delivers:
  assumes "pool_allocate pops sz p = Some (x, p')" and inv: "pool_inv used p rs qs X"
  shows "x = (if rs \<noteq> [] then Some (hd rs) else if bp_active p > unsigned_long (bp_limit p) then None
    else fst (mp_alloc pops (add64 (add64 sz (bp_size p)) 8) (bp_provider p)))"
proof (cases rs)
  case Nil
  then have "ts_pop (bp_reserve_buffers p) = (None, bp_reserve_buffers p)"
    using ts.pop_nil [of "bp_reserve_buffers p"] inv by (auto simp: pool_inv_def)
  then show ?thesis
    using assms(1) Nil
    by (auto simp: pool_allocate_def allocate_memory_def Let_def bind_Some_iff split: if_splits prod.splits option.splits)
next
  case (Cons a as)
  then obtain p1 where "pool_allocate pops sz p = Some (Some a, p1)" using allocate_from_reserve inv by blast
  then show ?thesis using assms(1) Cons by simp
qed

lemma allocate_new:
  assumes inv: "pool_inv used p [] qs X"
  shows "(if bp_active p > unsigned_long (bp_limit p) then pool_allocate pops sz p = Some (None, p)
    else (\<exists>p'. pool_allocate pops sz p = Some (None, p') \<and> pool_inv used p' [] qs X \<and>
                bp_memory p' = bp_memory p \<and> bp_requests p' = bp_requests p) \<or>
         (\<exists>a p'. pool_allocate pops sz p = Some (Some a, p') \<and> a \<notin> dom (bp_memory p) \<and>
            (bp_active p' < size_max - 1 \<longrightarrow> pool_inv used p' [] qs X) \<and>
            (\<exists>m. bp_memory p' a = Some m \<and> fresh_block sz a m \<and> m_memory_size m = bp_size p) \<and>
            bp_active p' = bp_active p + 1 \<and> (\<forall>b. b \<noteq> a \<longrightarrow> bp_memory p' b = bp_memory p b) \<and>
            bp_requests p' = bp_requests p))"
proof -
  have l: "ts_pop (bp_reserve_buffers p) = (None, bp_reserve_buffers p)"
    using ts.pop_nil [of "bp_reserve_buffers p"] inv by (auto simp: pool_inv_def)
  show ?thesis
  proof (cases "bp_active p > unsigned_long (bp_limit p)")
    case True
    then show ?thesis using l by (simp add: pool_allocate_def)
  next
    case False
    obtain x m where x: "mp_alloc pops (add64 (add64 sz (bp_size p)) 8) (bp_provider p) = (x, m)"
      by (cases "mp_alloc pops (add64 (add64 sz (bp_size p)) 8) (bp_provider p)")
    show ?thesis
    proof (cases x)
      case None
      then have "used m = used (bp_provider p)" using alloc_none x by blast
      then show ?thesis
        using l x None False inv by (simp add: pool_allocate_def allocate_memory_def pool_inv_def)
    next
      case (Some a)
      then have a: "a \<notin> used (bp_provider p)" "used m = insert a (used (bp_provider p))"
        using alloc_some x by blast+
      then have nd: "a \<notin> dom (bp_memory p)" using inv by (auto simp: pool_inv_def)
      define p' where "p' = p\<lparr>bp_provider := m, bp_active := bp_active p + 1,
        bp_memory := (bp_memory p)(a \<mapsto> (BufferMemory_new sz a (bp_size p))\<lparr>m_refc := 1\<rparr>)\<rparr>"
      have "add64 (bp_active p) 1 = bp_active p + 1"
        using inv by (intro add64_exact) (simp add: pool_inv_def)
      then have run: "pool_allocate pops sz p = Some (Some a, p')"
        using l x Some False
        by (simp add: pool_allocate_def allocate_memory_def take_reference_def BufferMemory_new_def p'_def)
      have "pool_inv used p' [] qs X" if "bp_active p' < size_max - 1"
      proof -
        have "card (insert a (dom (bp_memory p))) = bp_active p + 1"
          using nd inv by (simp add: pool_inv_def)
        then show ?thesis
          using inv a nd that by (auto simp: pool_inv_def p'_def BufferMemory_new_def)
      qed
      then show ?thesis
        using run nd False
        by (auto simp: p'_def fresh_block_def BufferMemory_new_def)
    qed
  qed
qed

lemma release_to_request:
  assumes inv: "pool_inv used p rs qs {a}" and qs: "qs \<noteq> []"
  shows "\<exists>p'. pool_release pops sz a p = Some p' \<and> pool_inv used p' rs (butlast qs) {} \<and>
    opt_get (a_result (bp_requests p' (last qs))) = Some a \<and>
    (\<exists>m. bp_memory p' a = Some m \<and> fresh_block sz a m) \<and>
    bp_log p' = bp_log p @ [(last qs, Error_default)] \<and> bp_active p' = bp_active p"
proof -
  let ?r = "last qs"
  have lq: "ll_back (bp_pending p) qs" and ar: "a \<notin> set rs" using inv by (auto simp: pool_inv_def)
  obtain m where m: "bp_memory p a = Some m" "m_refc m = 0"
    using inv by (fastforce simp: pool_inv_def)
  have qs': "qs = butlast qs @ [?r]" using qs by simp
  obtain l where l: "erase (Node ?r) (bp_pending p) = Some (Successful, l)" "ll_back l (butlast qs)"
    using blist.del_in [of "bp_pending p" "butlast qs" ?r "[]"] lq qs' by auto
  have bp: "ll_back_ptr (bp_pending p) = Some (Node ?r)"
    using blist.back_last [of "bp_pending p" "butlast qs" ?r] lq qs' by simp
  have ne: "\<not> ll_empty (bp_pending p)" using blist.rep_empty [OF lq] qs by simp
  have rok: "opt_ok (a_result (bp_requests p ?r))" using inv by (simp add: pool_inv_def)
  obtain o' where o': "opt_emplace a (a_result (bp_requests p ?r)) = Some o'" "opt_get o' = Some a" "opt_ok o'"
    using opt_emplace_total [OF rok] by blast
  define p' where "p' = p\<lparr>bp_memory := (bp_memory p)(a \<mapsto> BufferMemory_reset sz a (m\<lparr>m_refc := 1\<rparr>)),
    bp_pending := l, bp_requests := (bp_requests p)(?r := \<lparr>a_result = o', a_pool = False\<rparr>),
    bp_log := bp_log p @ [(?r, Error_default)]\<rparr>"
  have run: "pool_release pops sz a p = Some p'"
    using ne m l bp o'(1)
    by (simp add: pool_release_def take_reference_def reset_memory_def p'_def BufferMemory_reset_def)
  have "distinct qs" using blist.rep_distinct [OF lq] .
  then have nin: "?r \<notin> set (butlast qs)" using qs' by (metis distinct_append not_distinct_conv_prefix distinct.simps(2) append_butlast_last_id)
  have dom': "dom (bp_memory p') = dom (bp_memory p)" using m by (auto simp: p'_def)
  have "\<forall>r \<in> set (butlast qs). op_empty (a_result (bp_requests p' r)) \<and> a_pool (bp_requests p' r)"
    using inv nin by (auto simp: pool_inv_def p'_def dest: in_set_butlastD)
  moreover have "\<forall>r. opt_ok (a_result (bp_requests p' r))"
    using inv o'(3) by (auto simp: pool_inv_def p'_def)
  moreover have "\<forall>b n. bp_memory p' b = Some n \<longrightarrow> m_guard n \<and> m_refc n \<ge> 0 \<and> (m_refc n = 0 \<longleftrightarrow> b \<in> set rs \<union> {})"
    using inv m ar by (auto simp: pool_inv_def p'_def BufferMemory_reset_def)
  ultimately have "pool_inv used p' rs (butlast qs) {}"
    using inv dom' l(2) by (simp add: pool_inv_def p'_def)
  then show ?thesis
    using run o'(2) by (auto simp: p'_def fresh_block_def BufferMemory_reset_def)
qed

lemma release_to_pool:
  assumes inv: "pool_inv used p rs [] {a}"
  shows "\<exists>p'. pool_release pops sz a p = Some p' \<and>
    (if length rs < bp_reserve p
     then pool_inv used p' (a # rs) [] {} \<and> bp_active p' = bp_active p
     else pool_inv used p' rs [] {} \<and> bp_memory p' a = None \<and> bp_active p' + 1 = bp_active p)"
proof -
  have e: "ll_empty (bp_pending p)" using blist.rep_empty [of "bp_pending p" "[]"] inv by (simp add: pool_inv_def)
  have rep: "ts_rep (bp_reserve_buffers p) rs" and ar: "a \<notin> set rs" and ad: "a \<in> dom (bp_memory p)"
    and fin: "finite (dom (bp_memory p))" using inv by (auto simp: pool_inv_def)
  have sz': "get_size_unsafe (bp_reserve_buffers p) = length rs" using ts.rep_size [OF rep] .
  show ?thesis
  proof (cases "length rs < bp_reserve p")
    case True
    have "length rs \<le> card (dom (bp_memory p))"
      using ts.rep_distinct [OF rep] fin inv by (metis card_mono distinct_card le_supE pool_inv_def)
    then have "Suc (length rs) < size_max" using inv by (simp add: pool_inv_def)
    from ts.push_rep [OF rep ar this] show ?thesis
      using True e sz' inv by (auto simp: pool_release_def pool_inv_def)
  next
    case False
    obtain m where m: "bp_memory p a = Some m" "m_guard m"
      using inv ad by (fastforce simp: pool_inv_def)
    have c: "card (dom (bp_memory p)) = Suc (card (dom (bp_memory p) - {a}))"
      using card.remove [OF fin ad] .
    have "bp_active p = card (dom (bp_memory p))" "bp_active p < size_max"
      using inv by (simp_all add: pool_inv_def)
    then have act: "sub64 (bp_active p) 1 = card (dom (bp_memory p) - {a})"
      using c by (simp add: sub64_exact)
    define p' where "p' = p\<lparr>bp_memory := (bp_memory p)(a := None),
      bp_provider := mp_free pops a (bp_provider p), bp_active := card (dom (bp_memory p) - {a})\<rparr>"
    have run: "pool_release pops sz a p = Some p'"
      using False e sz' m act by (simp add: pool_release_def deallocate_memory_def p'_def)
    have "dom (bp_memory p') = dom (bp_memory p) - {a}" by (auto simp: p'_def)
    moreover have "card (dom (bp_memory p)) - Suc 0 < size_max - 1"
      using inv unfolding pool_inv_def by linarith
    ultimately have "pool_inv used p' rs [] {}"
      using inv ar free_used by (auto simp: pool_inv_def p'_def split: if_splits)
    moreover have "bp_memory p' a = None" "bp_active p' + 1 = bp_active p"
      using c inv by (simp_all add: p'_def pool_inv_def)
    ultimately show ?thesis
      using run False by simp
  qed
qed

lemma unref_last:
  assumes inv: "pool_inv used p rs qs {}" and m: "bp_memory p a = Some m" "m_refc m = 1"
  shows "\<exists>p1. buffer_unref pops sz a p = pool_release pops sz a p1 \<and> pool_inv used p1 rs qs {a} \<and>
    bp_reserve p1 = bp_reserve p \<and> bp_active p1 = bp_active p \<and> bp_log p1 = bp_log p"
proof -
  define p1 where "p1 = p\<lparr>bp_memory := (bp_memory p)(a \<mapsto> m\<lparr>m_refc := 0\<rparr>)\<rparr>"
  have "dom (bp_memory p1) = dom (bp_memory p)" using m by (auto simp: p1_def)
  moreover have "a \<notin> set rs" using inv m by (fastforce simp: pool_inv_def)
  ultimately have "pool_inv used p1 rs qs {a}"
    using inv m by (auto simp: pool_inv_def p1_def)
  then show ?thesis using m by (auto simp: buffer_unref_def p1_def)
qed

lemma unref_cases:
  assumes inv: "pool_inv used p rs qs {}" and m: "bp_memory p a = Some m" "m_refc m = 1"
  shows "\<exists>p'. buffer_unref pops sz a p = Some p' \<and>
    (if qs \<noteq> []
     then pool_inv used p' rs (butlast qs) {} \<and> bp_active p' = bp_active p \<and>
          opt_get (a_result (bp_requests p' (last qs))) = Some a \<and>
          (\<exists>m'. bp_memory p' a = Some m' \<and> fresh_block sz a m') \<and>
          bp_log p' = bp_log p @ [(last qs, Error_default)]
     else if length rs < bp_reserve p
     then pool_inv used p' (a # rs) [] {} \<and> bp_active p' = bp_active p
     else pool_inv used p' rs [] {} \<and> bp_memory p' a = None \<and> bp_active p' + 1 = bp_active p)"
proof -
  obtain p1 where p1: "buffer_unref pops sz a p = pool_release pops sz a p1" "pool_inv used p1 rs qs {a}"
      "bp_reserve p1 = bp_reserve p" "bp_active p1 = bp_active p" "bp_log p1 = bp_log p"
    using unref_last [OF assms] by blast
  show ?thesis
  proof (cases "qs = []")
    case True
    then show ?thesis using release_to_pool [of p1 rs a sz] p1 by auto
  next
    case False
    then show ?thesis using release_to_request [OF p1(2) False, of sz] p1 by auto
  qed
qed

end

section \<open>Properties\<close>

text \<open>What an allocation does to the pool.\<close>

lemma allocate_changes:
  assumes "pool_inv h_used p rs qs {}"
  shows "\<exists>x p'. pool_allocate posix_provider sz p = Some (x, p') \<and>
    (case x of
       Some a \<Rightarrow>
         (\<exists>m. bp_memory p' a = Some m \<and> fresh_block sz a m) \<and>
         (\<forall>m. bp_memory p a = Some m \<longrightarrow> m_refc m = 0) \<and>
         (\<forall>b. b \<noteq> a \<longrightarrow> bp_memory p' b = bp_memory p b) \<and>
         (if rs \<noteq> [] then a = hd rs \<and> bp_active p' = bp_active p \<and> pool_inv h_used p' (tl rs) qs {}
          else bp_active p \<le> unsigned_long (bp_limit p) \<and> bp_active p' = bp_active p + 1 \<and>
               (bp_active p' < size_max - 1 \<longrightarrow> pool_inv h_used p' [] qs {}))
     | None \<Rightarrow> rs = [] \<and> bp_memory p' = bp_memory p \<and> pool_inv h_used p' [] qs {})"
proof (cases rs)
  case (Cons a rs')
  have "\<forall>m. bp_memory p a = Some m \<longrightarrow> m_refc m = 0"
    using assms Cons by (auto simp: pool_inv_def)
  moreover have "pool_inv h_used p (a # rs') qs {}" using assms Cons by simp
  from posix.allocate_from_reserve [OF this, of sz] obtain p' where
    "pool_allocate posix_provider sz p = Some (Some a, p')" "pool_inv h_used p' rs' qs {}"
    "\<exists>m. bp_memory p' a = Some m \<and> fresh_block sz a m" "bp_active p' = bp_active p"
    "\<forall>b. b \<noteq> a \<longrightarrow> bp_memory p' b = bp_memory p b" by blast
  ultimately show ?thesis using Cons by auto
next
  case Nil
  have inv: "pool_inv h_used p [] qs {}" using assms Nil by simp
  note new = posix.allocate_new [OF this, of sz]
  show ?thesis
  proof (cases "bp_active p > unsigned_long (bp_limit p)")
    case True
    with new Nil inv show ?thesis by simp
  next
    case False
    from new [unfolded if_not_P [OF False]] consider
      (none) p' where "pool_allocate posix_provider sz p = Some (None, p')" "pool_inv h_used p' [] qs {}"
        "bp_memory p' = bp_memory p"
    | (new) a p' where "pool_allocate posix_provider sz p = Some (Some a, p')" "bp_memory p a = None"
        "bp_active p' < size_max - 1 \<longrightarrow> pool_inv h_used p' [] qs {}"
        "\<exists>m. bp_memory p' a = Some m \<and> fresh_block sz a m" "bp_active p' = bp_active p + 1"
        "\<forall>b. b \<noteq> a \<longrightarrow> bp_memory p' b = bp_memory p b"
      unfolding domIff not_not by blast
    then show ?thesis
    proof cases
      case none
      then show ?thesis using Nil by simp
    next
      case new
      with False Nil show ?thesis by simp
    qed
  qed
qed

text \<open>
  C34. Allocating. A reserve block is reused if there is one. Otherwise a block is requested from the provider if the count of
  active blocks does not exceed the limit, and the result is exactly what the provider gives for the size of the header, the
  buffer and the guard; with more active blocks than the limit the result is null. When it is null nothing changes hands. A block
  that is returned was not in anybody's hands, carries exactly one reference and an empty view over its whole memory, and no
  other block changes. (The limit is an \<^verbatim>\<open>int\<close> compared as an unsigned number. The invariant is kept until the count
  of active blocks reaches the largest number.)
\<close>

theorem pool_allocate_gives_unshared_block:
  assumes "pool_inv h_used p rs qs {}"
  shows "\<exists>x p'. pool_allocate posix_provider sz p = Some (x, p') \<and>
    x = (if rs \<noteq> [] then Some (hd rs) else if bp_active p > unsigned_long (bp_limit p) then None
         else fst (posix_alloc (add64 (add64 sz (bp_size p)) 8) (bp_provider p))) \<and>
    (case x of
       Some a \<Rightarrow>
         (\<exists>m. bp_memory p' a = Some m \<and> fresh_block sz a m) \<and>
         (\<forall>m. bp_memory p a = Some m \<longrightarrow> m_refc m = 0) \<and>
         (\<forall>b. b \<noteq> a \<longrightarrow> bp_memory p' b = bp_memory p b) \<and>
         (if rs \<noteq> [] then a = hd rs \<and> bp_active p' = bp_active p \<and> pool_inv h_used p' (tl rs) qs {}
          else bp_active p \<le> unsigned_long (bp_limit p) \<and> bp_active p' = bp_active p + 1 \<and>
               (bp_active p' < size_max - 1 \<longrightarrow> pool_inv h_used p' [] qs {}))
     | None \<Rightarrow> rs = [] \<and> bp_memory p' = bp_memory p \<and> pool_inv h_used p' [] qs {})"
proof -
  obtain x p' where run: "pool_allocate posix_provider sz p = Some (x, p')" and c: "case x of
       Some a \<Rightarrow>
         (\<exists>m. bp_memory p' a = Some m \<and> fresh_block sz a m) \<and>
         (\<forall>m. bp_memory p a = Some m \<longrightarrow> m_refc m = 0) \<and>
         (\<forall>b. b \<noteq> a \<longrightarrow> bp_memory p' b = bp_memory p b) \<and>
         (if rs \<noteq> [] then a = hd rs \<and> bp_active p' = bp_active p \<and> pool_inv h_used p' (tl rs) qs {}
          else bp_active p \<le> unsigned_long (bp_limit p) \<and> bp_active p' = bp_active p + 1 \<and>
               (bp_active p' < size_max - 1 \<longrightarrow> pool_inv h_used p' [] qs {}))
     | None \<Rightarrow> rs = [] \<and> bp_memory p' = bp_memory p \<and> pool_inv h_used p' [] qs {}"
    using allocate_changes [OF assms] by blast
  then show ?thesis using posix.allocate_delivers [OF run assms] by (auto simp: posix_provider_def)
qed

definition sample_heap :: heap where
  "sample_heap = \<lparr>h_used = {}, h_pick = (\<lambda>n u. Some (1000 + 100 * card u))\<rparr>"

definition sample_pool :: "heap pool" where
  "sample_pool = the (pool_new posix_provider 64 sample_heap 16 0 2)"

lemma sample_pool_eq:
  "sample_pool = \<lparr>bp_size = 16, bp_reserve = 0, bp_limit = 2, bp_active = 0,
     bp_reserve_buffers = ts_new, bp_pending = ll_new, bp_memory = (\<lambda>_. None), bp_provider = sample_heap,
     bp_requests = (\<lambda>_. \<lparr>a_result = opt_new, a_pool = False\<rparr>), bp_log = []\<rparr>"
  by (simp add: sample_pool_def pool_new_def pool_reconfigure_def shrink_reserve.simps grow_reserve.simps
      get_size_unsafe_def ts_new_def)

lemma sample_pool_inv: "pool_inv h_used sample_pool [] [] {}"
  using blist.rep_new ts.rep_new by (simp add: sample_pool_eq pool_inv_def)

lemma sample_pool_run:
  "pool_allocate posix_provider 64 sample_pool =
     Some (Some 1000, snd (the (pool_allocate posix_provider 64 sample_pool)))"
  by (simp add: sample_pool_eq pool_allocate_def ts_pop_def ts_new_def unsigned_long_def allocate_memory_def
      posix_provider_def posix_alloc_def sample_heap_def take_reference_def BufferMemory_new_def Let_def)

theorem pool_allocate_gives_unshared_block_witness:
  "let p' = snd (the (pool_allocate posix_provider 64 sample_pool)) in
     (\<exists>m. bp_memory p' 1000 = Some m \<and> fresh_block 64 1000 m) \<and> bp_active p' = 1 \<and>
     pool_inv h_used p' [] [] {}"
  using pool_allocate_gives_unshared_block [OF sample_pool_inv, of 64] sample_pool_run
  by (auto simp: Let_def sample_pool_eq)

text \<open>
  C35. Dropping the last reference of a buffer. A waiting request gets the block at once, with a
  fresh view and one reference, and is resumed; without one the block goes to the reserve if there
  is room, and back to the provider otherwise, where the count of active buffers goes down.
\<close>

theorem pool_release_serves_or_recycles:
  assumes "pool_inv h_used p rs qs {}" and "bp_memory p a = Some m" and "m_refc m = 1"
  shows "\<exists>p'. buffer_unref posix_provider sz a p = Some p' \<and>
    (if qs \<noteq> []
     then pool_inv h_used p' rs (butlast qs) {} \<and> bp_active p' = bp_active p \<and>
          opt_get (a_result (bp_requests p' (last qs))) = Some a \<and>
          (\<exists>m'. bp_memory p' a = Some m' \<and> fresh_block sz a m') \<and>
          bp_log p' = bp_log p @ [(last qs, Error_default)]
     else if length rs < bp_reserve p
     then pool_inv h_used p' (a # rs) [] {} \<and> bp_active p' = bp_active p
     else pool_inv h_used p' rs [] {} \<and> bp_memory p' a = None \<and> bp_active p' + 1 = bp_active p)"
  by (rule posix.unref_cases [OF assms])

definition held_pool :: "heap pool" where
  "held_pool = snd (the (pool_allocate posix_provider 64 sample_pool))"

lemma held_pool_facts:
  "pool_inv h_used held_pool [] [] {}" "\<exists>m. bp_memory held_pool 1000 = Some m \<and> m_refc m = 1"
  "bp_reserve held_pool = 0"
proof -
  have "\<exists>x p'. pool_allocate posix_provider 64 sample_pool = Some (x, p') \<and> x = Some 1000 \<and>
      p' = held_pool"
    using sample_pool_run by (simp add: held_pool_def)
  moreover have "bp_active held_pool = 1"
    by (simp add: held_pool_def sample_pool_eq pool_allocate_def ts_pop_def ts_new_def unsigned_long_def
        allocate_memory_def posix_provider_def posix_alloc_def sample_heap_def take_reference_def
        BufferMemory_new_def Let_def add64_exact)
  ultimately show "pool_inv h_used held_pool [] [] {}"
      "\<exists>m. bp_memory held_pool 1000 = Some m \<and> m_refc m = 1"
    using posix.allocate_new [OF sample_pool_inv, of 64]
    by (auto simp: fresh_block_def split: if_splits)
  show "bp_reserve held_pool = 0"
    by (simp add: held_pool_def sample_pool_eq pool_allocate_def ts_pop_def ts_new_def unsigned_long_def
        allocate_memory_def posix_provider_def posix_alloc_def sample_heap_def take_reference_def
        BufferMemory_new_def Let_def add64_exact)
qed

theorem pool_release_serves_or_recycles_witness:
  "\<exists>p'. buffer_unref posix_provider 64 1000 held_pool = Some p' \<and> pool_inv h_used p' [] [] {} \<and>
     bp_memory p' 1000 = None \<and> bp_active p' + 1 = bp_active held_pool"
proof -
  obtain m where "bp_memory held_pool 1000 = Some m" "m_refc m = 1" using held_pool_facts(2) by blast
  from pool_release_serves_or_recycles [OF held_pool_facts(1) this, of 64] show ?thesis
    using held_pool_facts(3) by auto
qed

text \<open>
  Building a task in a buffer fails whenever the memory of the block is not aligned for the
  task type: a fresh view begins at offset zero, so there is no used space that could be cut.
\<close>

theorem task_place_needs_alignment:
  "task_place align n (bv_new a s 0 0) =
     (if a mod align = 0 \<and> n \<le> s then Some (a, bv_new a s 0 0) else None)"
  by (simp add: task_place_def bv_cut_def bv_new_def Let_def)

end
