(* ===== verification/Jinx_Router.thy ===== *)
theory Jinx_Router
  imports Jinx_HttpBuilder
begin

text \<open>
  The routes of the web application (namespace \<^verbatim>\<open>detail\<close> and \<^verbatim>\<open>WebRoute\<close> of
  \<^verbatim>\<open>libs/http/include/jinx/http/webapp.hpp\<close>).

  The tree of nodes is a type in C++ and a datatype here; the templates that walk it become functions.
  A position in the URL is the rest of its text, a slice of it is its text. \<open>nxt\<close> is the byte that
  follows the URL in memory, which \<^verbatim>\<open>Folder::parse\<close> reads. \<open>None\<close> is a failed assertion, an access
  outside the array of slots, or a position behind the end of the URL.
\<close>

section \<open>Nodes and slots\<close>

datatype web_node = WebNode (node_name: string) (node_index: nat) (node_children: "web_node list")

definition is_slot_node :: "web_node \<Rightarrow> bool" where
  "is_slot_node n \<longleftrightarrow> node_name n \<noteq> [] \<and> hd (node_name n) = CHR '':''"

text \<open>\<^verbatim>\<open>CalculateSlotCountNode\<close>: its \<^verbatim>\<open>Depth\<close> and its \<^verbatim>\<open>Count\<close> for a list of siblings.\<close>

fun slot_depth :: "web_node list \<Rightarrow> nat" where
  "slot_depth [] = 0"
| "slot_depth (WebNode nm ix cs # ns) = slot_depth cs + (if is_slot_node (WebNode nm ix cs) then 1 else 0)"

definition slot_count :: "web_node list \<Rightarrow> nat" where
  "slot_count ns = (case ns of [] \<Rightarrow> 0 | n # others \<Rightarrow> max (slot_depth (n # others)) (slot_depth others))"

record web_route =
  wr_slots :: "(64 word \<times> string) list"
  wr_query :: string
  wr_update :: bool

definition route_new :: "web_node \<Rightarrow> web_route" where
  "route_new root = \<lparr>wr_slots = replicate (slot_count (node_children root)) (0, []), wr_query = [], wr_update = True\<rparr>"

definition route_freeze :: "web_route \<Rightarrow> web_route" where
  "route_freeze r = r\<lparr>wr_update := False\<rparr>"

definition set_slot :: "nat \<Rightarrow> 64 word \<Rightarrow> string \<Rightarrow> web_route \<Rightarrow> web_route option" where
  "set_slot i h v r =
     (if wr_update r
      then if i < length (wr_slots r) then Some (r\<lparr>wr_slots := (wr_slots r)[i := (h, v)]\<rparr>) else None
      else Some r)"

definition set_query_string :: "string \<Rightarrow> web_route \<Rightarrow> web_route" where
  "set_query_string s r = (if wr_update r then r\<lparr>wr_query := s\<rparr> else r)"

section \<open>Parsing\<close>

definition ends_component :: "char \<Rightarrow> bool" where
  "ends_component c \<longleftrightarrow> c = CHR ''/'' \<or> c = CHR ''?'' \<or> c = CHR ''#''"

text \<open>The page to spawn is its index and the number of slots it may read.\<close>

type_synonym spawn_page = "(nat \<times> nat) option"

function folder_parse :: "char \<Rightarrow> nat \<Rightarrow> web_node \<Rightarrow> string \<Rightarrow> web_route \<Rightarrow> (spawn_page \<times> web_route) option"
  and nodes_parse :: "char \<Rightarrow> nat \<Rightarrow> web_node list \<Rightarrow> string \<Rightarrow> web_route \<Rightarrow> (spawn_page \<times> web_route) option" where
  "folder_parse nxt slot (WebNode nm ix cs) s r =
     (if s = [] \<and> nxt = CHR ''/'' then None
      else let s1 = (if s \<noteq> [] \<and> hd s = CHR ''/'' then tl s else s)
           in if s1 = [] \<or> hd s1 = CHR ''?'' \<or> hd s1 = CHR ''#''
              then Some (Some (ix, slot), set_query_string s1 r)
              else nodes_parse nxt slot cs s1 r)"
| "nodes_parse nxt slot [] s r = Some (None, r)"
| "nodes_parse nxt slot (n # others) s r =
     (if s = [] \<or> hd s = CHR ''/'' then None
      else let component = takeWhile (\<lambda>c. \<not> ends_component c) s;
               next = dropWhile (\<lambda>c. \<not> ends_component c) s
           in if is_slot_node n
              then do { r1 \<leftarrow> set_slot slot (text_hash (tl (node_name n))) component r;
                        folder_parse nxt (slot + 1) n next r1 }
              else if text_hash component = text_hash (node_name n)
              then folder_parse nxt slot n next r
              else nodes_parse nxt slot others s r)"
  by pat_completeness auto
termination
  by (relation "measure (\<lambda>x. case x of Inl (_, _, n, _, _) \<Rightarrow> size n | Inr (_, _, ns, _, _) \<Rightarrow> size_list size ns)") auto

definition route_parse :: "char \<Rightarrow> web_node \<Rightarrow> string \<Rightarrow> web_route \<Rightarrow> (spawn_page \<times> web_route) option" where
  "route_parse nxt root url r = folder_parse nxt 0 root url r"

section \<open>Slots of a page\<close>

text \<open>\<open>n\<close> is the number of slots of the page.\<close>

definition get_slot_by_hash :: "nat \<Rightarrow> 64 word \<Rightarrow> web_route \<Rightarrow> string option" where
  "get_slot_by_hash n h r = map_option snd (find (\<lambda>p. fst p = h) (take n (wr_slots r)))"

definition get_slot_by_index :: "nat \<Rightarrow> nat \<Rightarrow> web_route \<Rightarrow> string option" where
  "get_slot_by_index n i r = (if i < n then map_option snd (if i < length (wr_slots r) then Some (wr_slots r ! i) else None) else None)"

section \<open>The specification\<close>

text \<open>What a path means: walk down the tree by names; a slot node takes any component.\<close>

fun resolve :: "web_node \<Rightarrow> string list \<Rightarrow> (nat \<times> (string \<times> string) list) option"
  and resolve_in :: "web_node list \<Rightarrow> string \<Rightarrow> string list \<Rightarrow> (nat \<times> (string \<times> string) list) option" where
  "resolve (WebNode nm ix cs) [] = Some (ix, [])"
| "resolve (WebNode nm ix cs) (c # path) = resolve_in cs c path"
| "resolve_in [] c path = None"
| "resolve_in (n # others) c path =
     (if is_slot_node n
      then map_option (\<lambda>(ix, bs). (ix, (tl (node_name n), c) # bs)) (resolve n path)
      else if node_name n = c then resolve n path
      else resolve_in others c path)"

fun node_names :: "web_node \<Rightarrow> string list" where
  "node_names (WebNode nm ix cs) = nm # concat (map node_names cs)"

fun slots_needed :: "web_node list \<Rightarrow> nat" where
  "slots_needed [] = 0"
| "slots_needed (WebNode nm ix cs # ns) =
     max (slots_needed cs + (if is_slot_node (WebNode nm ix cs) then 1 else 0)) (slots_needed ns)"

section \<open>The router follows the specification\<close>

definition url_of :: "string list \<Rightarrow> string \<Rightarrow> string" where
  "url_of path tail = concat (map (\<lambda>c. CHR ''/'' # c) path) @ tail"

definition component_ok :: "string \<Rightarrow> bool" where
  "component_ok c \<longleftrightarrow> c \<noteq> [] \<and> (\<forall>x \<in> set c. \<not> ends_component x)"

definition query_ok :: "string \<Rightarrow> bool" where
  "query_ok q \<longleftrightarrow> q = [] \<or> hd q = CHR ''?'' \<or> hd q = CHR ''#''"

text \<open>The hash tells the components of the path apart from the names of other nodes.\<close>

definition hash_separates :: "string list \<Rightarrow> string list \<Rightarrow> bool" where
  "hash_separates names path \<longleftrightarrow> (\<forall>n \<in> set names. \<forall>c \<in> set path. text_hash c = text_hash n \<longrightarrow> c = n)"

lemma url_of_simps [simp]:
  "url_of [] t = t" "url_of (c # path) t = CHR ''/'' # c @ url_of path t"
  by (simp_all add: url_of_def)

lemma split_component:
  assumes "component_ok c" and "u = [] \<or> ends_component (hd u)"
  shows "takeWhile (\<lambda>x. \<not> ends_component x) (c @ u) = c" "dropWhile (\<lambda>x. \<not> ends_component x) (c @ u) = u"
proof -
  have all: "\<And>x. x \<in> set c \<Longrightarrow> \<not> ends_component x" using assms(1) by (simp add: component_ok_def)
  show "takeWhile (\<lambda>x. \<not> ends_component x) (c @ u) = c"
    using assms(2) all by (cases u) (simp_all add: takeWhile_append)
  show "dropWhile (\<lambda>x. \<not> ends_component x) (c @ u) = u"
    using assms(2) all by (cases u) (simp_all add: dropWhile_append)
qed

lemma url_of_start:
  "query_ok q \<Longrightarrow> t = q \<or> t = CHR ''/'' # q \<Longrightarrow> url_of path t = [] \<or> ends_component (hd (url_of path t))"
  by (cases path) (auto simp: query_ok_def ends_component_def)

lemma set_slot_ok:
  "wr_update r \<Longrightarrow> i < length (wr_slots r) \<Longrightarrow>
   set_slot i h v r = Some (r\<lparr>wr_slots := (wr_slots r)[i := (h, v)]\<rparr>)"
  by (simp add: set_slot_def)

definition bound_slots :: "(string \<times> string) list \<Rightarrow> (64 word \<times> string) list" where
  "bound_slots bs = map (\<lambda>(n, v). (text_hash n, v)) bs"

text \<open>The outcome of parsing from slot \<open>k\<close>, against the result of the specification.\<close>

definition routed ::
    "nat \<Rightarrow> string \<Rightarrow> web_route \<Rightarrow> (nat \<times> (string \<times> string) list) option \<Rightarrow> (spawn_page \<times> web_route) option \<Rightarrow> bool" where
  "routed k q r spec out \<longleftrightarrow>
     (\<exists>r'. out = Some (map_option (\<lambda>(ix, bs). (ix, k + length bs)) spec, r') \<and>
        length (wr_slots r') = length (wr_slots r) \<and>
        (\<forall>ix bs. spec = Some (ix, bs) \<longrightarrow> wr_query r' = q \<and>
           take (k + length bs) (wr_slots r') = take k (wr_slots r) @ bound_slots bs))"

lemma routed_slot:
  assumes "routed (k + 1) q (r\<lparr>wr_slots := (wr_slots r)[k := (text_hash n, v)]\<rparr>) spec out" and "k < length (wr_slots r)"
  shows "routed k q r (map_option (\<lambda>(ix, bs). (ix, (n, v) # bs)) spec) out"
proof -
  have "take (k + 1) ((wr_slots r)[k := (text_hash n, v)]) = take k (wr_slots r) @ [(text_hash n, v)]"
    using assms(2) by (simp add: take_Suc_conv_app_nth)
  then show ?thesis using assms(1) by (cases spec) (auto simp: routed_def bound_slots_def)
qed

lemma router_follows:
  assumes "query_ok q" and "t = q \<or> t = CHR ''/'' # q" and "nxt \<noteq> CHR ''/''"
  shows "wr_update r \<Longrightarrow> k + slots_needed (node_children n) \<le> length (wr_slots r) \<Longrightarrow>
      \<forall>c \<in> set path. component_ok c \<Longrightarrow> hash_separates (concat (map node_names (node_children n))) path \<Longrightarrow>
      routed k q r (resolve n path) (folder_parse nxt k n (url_of path t) r)"
    and "wr_update r \<Longrightarrow> k + slots_needed ns \<le> length (wr_slots r) \<Longrightarrow>
      \<forall>x \<in> set (c # path). component_ok x \<Longrightarrow> hash_separates (concat (map node_names ns)) (c # path) \<Longrightarrow>
      routed k q r (resolve_in ns c path) (nodes_parse nxt k ns (c @ url_of path t) r)"
proof (induction n path and ns c path arbitrary: k r and k r rule: resolve_resolve_in.induct)
  case (1 nm ix cs)
  have "(if t \<noteq> [] \<and> hd t = CHR ''/'' then tl t else t) = q"
    using assms(1,2) by (auto simp: query_ok_def)
  then show ?case
    using assms "1.prems" by (auto simp: routed_def set_query_string_def bound_slots_def query_ok_def Let_def)
next
  case (2 nm ix cs c path)
  have c: "c \<noteq> []" "\<not> ends_component (hd c)" using "2.prems"(3) by (auto simp: component_ok_def)
  then have "folder_parse nxt k (WebNode nm ix cs) (url_of (c # path) t) r = nodes_parse nxt k cs (c @ url_of path t) r"
    by (auto simp: Let_def ends_component_def)
  then show ?case using "2.IH" [of r k] "2.prems" by simp
next
  case (3 c path)
  then show ?case by (simp add: routed_def)
next
  case (4 n others c path)
  obtain nm ix cs where n: "n = WebNode nm ix cs" by (cases n)
  have c: "component_ok c" using "4.prems"(3) by simp
  note sp = split_component [OF c url_of_start [OF assms(1,2)]]
  have hd: "c \<noteq> []" "hd (c @ url_of path t) \<noteq> CHR ''/''"
    using c by (auto simp: component_ok_def ends_component_def)
  have sep: "hash_separates (concat (map node_names cs)) path" "hash_separates (concat (map node_names others)) (c # path)"
      "text_hash c = text_hash nm \<Longrightarrow> c = nm"
    using "4.prems"(4) by (auto simp: hash_separates_def n)
  show ?case
  proof (cases "is_slot_node n")
    case True
    have k: "k < length (wr_slots r)" "k + 1 + slots_needed cs \<le> length (wr_slots r)"
      using "4.prems"(2) True by (auto simp: n)
    let ?r = "r\<lparr>wr_slots := (wr_slots r)[k := (text_hash (tl (node_name n)), c)]\<rparr>"
    have "routed (k + 1) q ?r (resolve n path) (folder_parse nxt (k + 1) n (url_of path t) ?r)"
      using "4.IH"(1) [OF True, of ?r "k + 1"] "4.prems"(1,3) k sep(1) by (simp add: n)
    then show ?thesis
      using routed_slot [OF _ k(1)] True hd sp set_slot_ok [OF "4.prems"(1) k(1)] by (simp del: folder_parse.simps)
  next
    case False
    show ?thesis
    proof (cases "node_name n = c")
      case True
      then have "routed k q r (resolve n path) (folder_parse nxt k n (url_of path t) r)"
        using "4.IH"(2) [OF False True, of r k] "4.prems"(1-3) sep(1) False by (simp add: n)
      then show ?thesis using True False hd sp by (simp del: folder_parse.simps)
    next
      case neq: False
      then have "text_hash c \<noteq> text_hash (node_name n)" using sep(3) by (auto simp: n)
      moreover have "routed k q r (resolve_in others c path) (nodes_parse nxt k others (c @ url_of path t) r)"
        using "4.IH"(3) [OF False neq, of r k] "4.prems"(1-3) sep(2) by (simp add: n)
      ultimately show ?thesis using neq False hd sp by (simp del: folder_parse.simps)
    qed
  qed
qed

text \<open>
  C4. The router is correct. For a tree whose slots fit, a path of non-empty components, optionally
  closed by a slash and followed by a query or fragment, is routed to exactly the page the names lead
  to, with its parameters in the slots in order and the query string; an unknown path gives no
  page. The hypothesis is that the 64-bit hash does not confuse a component of the path with another
  name of the tree.
\<close>

theorem router_correct:
  assumes "\<forall>c \<in> set path. component_ok c" and "query_ok q" and "t = q \<or> t = CHR ''/'' # q" and "nxt \<noteq> CHR ''/''"
    and "hash_separates (concat (map node_names (node_children root))) path"
    and "wr_update r" and "slots_needed (node_children root) \<le> length (wr_slots r)"
  shows "\<exists>r'. route_parse nxt root (url_of path t) r =
      Some (map_option (\<lambda>(ix, bs). (ix, length bs)) (resolve root path), r') \<and>
    (\<forall>ix bs. resolve root path = Some (ix, bs) \<longrightarrow> wr_query r' = q \<and>
       take (length bs) (wr_slots r') = bound_slots bs \<and>
       (\<forall>i < length bs. get_slot_by_index (length bs) i r' = Some (snd (bs ! i))))"
proof -
  have "routed 0 q r (resolve root path) (route_parse nxt root (url_of path t) r)"
    unfolding route_parse_def using router_follows(1) [OF assms(2-4), of r 0 root path] assms(1,5-7) by simp
  then obtain r' where r': "route_parse nxt root (url_of path t) r =
        Some (map_option (\<lambda>(ix, bs). (ix, length bs)) (resolve root path), r')"
      and spec: "\<And>ix bs. resolve root path = Some (ix, bs) \<Longrightarrow> wr_query r' = q \<and> take (length bs) (wr_slots r') = bound_slots bs"
    unfolding routed_def by auto
  have "get_slot_by_index (length bs) i r' = Some (snd (bs ! i))"
    if "take (length bs) (wr_slots r') = bound_slots bs" and "i < length bs" for i and bs :: "(string \<times> string) list"
  proof -
    have "length (take (length bs) (wr_slots r')) = length bs" by (simp add: that(1) bound_slots_def)
    then have len: "i < length (wr_slots r')" using that(2) by simp
    have "wr_slots r' ! i = take (length bs) (wr_slots r') ! i" using that(2) by simp
    also have "\<dots> = (text_hash (fst (bs ! i)), snd (bs ! i))"
      unfolding that(1) bound_slots_def using that(2) by (simp add: case_prod_beta)
    finally show ?thesis using len that(2) by (simp add: get_slot_by_index_def)
  qed
  then show ?thesis using r' spec by blast
qed

text \<open>A tree with the routes \<^verbatim>\<open>/ab\<close>, \<^verbatim>\<open>/cd\<close> and \<^verbatim>\<open>/:id\<close>; and one with \<^verbatim>\<open>/:id/x\<close> only.\<close>

definition sample_routes :: web_node where
  "sample_routes = WebNode [] 0 [WebNode ''ab'' 1 [], WebNode ''cd'' 2 [], WebNode '':id'' 3 []]"

definition slot_routes :: web_node where
  "slot_routes = WebNode [] 0 [WebNode '':id'' 1 [WebNode ''x'' 2 []]]"

theorem router_correct_witness:
  "\<exists>r'. route_parse (CHR '' '') slot_routes ''/7/x?q'' (route_new slot_routes) = Some (Some (2, 1), r') \<and>
     wr_query r' = ''?q'' \<and> get_slot_by_index 1 0 r' = Some ''7''"
proof -
  have h: "hash_separates (concat (map node_names (node_children slot_routes))) [''7'', ''x'']"
    by (simp add: hash_separates_def slot_routes_def text_hash_def hash_data_def)
  have u: "''/7/x?q'' = url_of [''7'', ''x''] ''?q''" by simp
  have r: "resolve slot_routes [''7'', ''x''] = Some (2, [(''id'', ''7'')])"
    by (simp add: slot_routes_def is_slot_node_def)
  show ?thesis
    using router_correct [of "[''7'', ''x'']" "''?q''" "''?q''" "CHR '' ''" slot_routes "route_new slot_routes"] h
    unfolding u r
    by (auto simp: component_ok_def query_ok_def ends_component_def route_new_def slot_count_def slot_routes_def
        is_slot_node_def)
qed

text \<open>
  The number of slots is computed wrongly. \<^verbatim>\<open>CalculateSlotCountNode\<close> looks only at the first two
  siblings and at the first child of each node. With three routes of which the last one has a
  parameter it reserves no slot at all, and routing a request to it writes outside the array.
\<close>

theorem slot_count_too_small:
  "slot_count (node_children sample_routes) = 0 \<and> slots_needed (node_children sample_routes) = 1 \<and>
   resolve sample_routes [''x''] = Some (3, [(''id'', ''x'')]) \<and>
   route_parse (CHR '' '') sample_routes ''/x'' (route_new sample_routes) = None"
  by (simp add: sample_routes_def slot_count_def is_slot_node_def route_parse_def route_new_def ends_component_def
      text_hash_def hash_data_def set_slot_def Let_def)

lemma djb2_append: "djb2 (us @ ws) i = djb2 ws (djb2 us i)"
  by (induction us arbitrary: i) simp_all

lemma hash_data_swap:
  assumes "33 * sint a + sint b = 33 * sint a' + sint b'"
  shows "hash_data (us @ [a, b] @ w) = hash_data (us @ [a', b'] @ w)"
proof -
  have h: "hash_data bs = of_int (djb2 bs 5381)" for bs
    using detail_hash_data_djb2 [of bs 5381] by (simp add: hash_data_def)
  have "djb2 (us @ [a, b] @ w) 5381 = djb2 (us @ [a', b'] @ w) 5381"
  proof -
    have "33 * (33 * i + sint a) + sint b = 33 * (33 * i + sint a') + sint b'" for i using assms by simp
    then show ?thesis by (simp add: djb2_append del: distrib_left_numeral)
  qed
  then show ?thesis by (simp only: h)
qed

text \<open>
  Names are compared by their hashes only, and colliding names are easy to find: raising a character
  by one and lowering the next one by 33 keeps the hash, in any context. A request for \<^verbatim>\<open>/bA\<close>, which
  no route has, is served by the page of \<^verbatim>\<open>/ab\<close>, and \<^verbatim>\<open>Connection: clotD\<close> closes the connection.
\<close>

theorem route_confusion:
  "text_hash (us @ ''ab'' @ w) = text_hash (us @ ''bA'' @ w) \<and>
   resolve (WebNode [] 0 [WebNode ''ab'' 1 []]) [''bA''] = None \<and>
   (\<exists>r'. route_parse (CHR '' '') (WebNode [] 0 [WebNode ''ab'' 1 []]) ''/bA'' r = Some (Some (1, 0), r')) \<and>
   connection_of ''clotD'' = ConnectionClose"
proof (intro conjI)
  show "text_hash (us @ ''ab'' @ w) = text_hash (us @ ''bA'' @ w)"
    unfolding text_hash_def map_append list.map by (rule hash_data_swap) simp
qed (simp_all add: is_slot_node_def route_parse_def ends_component_def text_hash_def hash_data_def Let_def
    connection_of_def)

end
