(* ===== verification/Jinx_Webapp.thy ===== *)
theory Jinx_Webapp
  imports Jinx_Router Jinx_Task
begin

text \<open>
  The web application (\<^verbatim>\<open>WebPage\<close>, \<^verbatim>\<open>ErrorPage\<close> and \<^verbatim>\<open>WebApp\<close> of
  \<^verbatim>\<open>libs/http/include/jinx/http/webapp.hpp\<close>, the built-in pages of \<^verbatim>\<open>libs/http/http.cpp\<close>).

  Every callback of the routine is a function on the state that says what the routine awaits next and
  which callback continues. What it awaits (the parser, a page, the allocator, the stream) runs
  outside: its effect on the state happens between two steps. The pages of a program are only known
  by their index. A buffer is its memory and its view, \<open>None\<close> the null pointer; \<open>wa_alloc\<close> are the
  answers of the allocator to the coming requests; \<open>wa_page_layout\<close> and \<open>wa_error_layout\<close> are the size
  and the alignment of the page classes. An index into a memory is the address of the byte. The result
  \<open>None\<close> is a failed assertion, a call through a null pointer, an access through one, or an abort.
\<close>

section \<open>Data\<close>

type_synonym buffer = "string \<times> BufferView"

datatype page = Page nat nat | ErrorPage

record web_app =
  wa_parser :: http_parser
  wa_builder :: http_builder
  wa_connection_state :: HTTPConnectionState
  wa_slot_count :: nat
  wa_query_string :: string
  wa_error_code :: int
  wa_broken_stream :: bool
  wa_route :: web_route
  wa_spawn_page :: "page option"
  wa_buffer_page :: "buffer option"
  wa_buffer_request :: "buffer option"
  wa_buffer_response :: "buffer option"
  wa_page :: "page option"
  wa_destroyed :: "page list"
  wa_allocate :: "buffer option option"
  wa_alloc :: "buffer option list"
  wa_page_layout :: "nat \<Rightarrow> nat \<times> nat"
  wa_error_layout :: "nat \<times> nat"

text \<open>\<open>wa_allocate\<close> is the result of the awaitable allocation: empty, or a pointer that may be null.\<close>

datatype app_step =
  StepAllocateNoError | StepAllocatePageBuffer | StepPreRoute | StepFinish | StepReturn

datatype app_action =
  AwaitAllocate app_step | AwaitParser app_step | AwaitPage app_step | AwaitShutdown app_step
| AppThrow Error | AppReturn

section \<open>Spawning a page in the page buffer\<close>

text \<open>\<^verbatim>\<open>CalculateBufferSizeNode\<close>: the largest size or alignment \<open>f\<close> among the nodes below.\<close>

fun largest :: "(nat \<Rightarrow> nat) \<Rightarrow> web_node list \<Rightarrow> nat" where
  "largest f [] = 0"
| "largest f (WebNode nm ix cs # others) = max (max (largest f others) (f ix)) (largest f cs)"

definition calculate_buffer_size :: "(nat \<Rightarrow> nat \<times> nat) \<Rightarrow> nat \<times> nat \<Rightarrow> web_node \<Rightarrow> nat" where
  "calculate_buffer_size layout err root =
     fst err + largest (fst \<circ> layout) (node_children root) + largest (snd \<circ> layout) (node_children root)"

definition page_slots :: "page \<Rightarrow> nat" where
  "page_slots pg = (case pg of Page ix n \<Rightarrow> n | ErrorPage \<Rightarrow> 0)"

definition page_layout :: "web_app \<Rightarrow> page \<Rightarrow> nat \<times> nat" where
  "page_layout s pg = (case pg of Page ix n \<Rightarrow> wa_page_layout s ix | ErrorPage \<Rightarrow> wa_error_layout s)"

text \<open>\<^verbatim>\<open>WebRoute::spawn\<close>: the view in which the page is constructed; \<open>avail\<close> is the size of the array of slots.\<close>

definition route_spawn :: "nat \<times> nat \<Rightarrow> nat \<Rightarrow> nat \<Rightarrow> BufferView \<Rightarrow> BufferView option" where
  "route_spawn lay avail n v =
     (let offset = bv_memory v mod snd lay;
          (r, v1) = (if offset \<noteq> 0 then bv_cut offset v else (Successful, v))
      in if r = Failed \<or> avail < n \<or> bv_memory_size v1 < fst lay then None else Some v1)"

section \<open>Built-in pages\<close>

definition html_page :: "string \<Rightarrow> string" where
  "html_page title =
     ''<html><head><title>'' @ title @ ''</title></head><body><center><h1>'' @ title @
     ''</h1></center><hr><center>jinx</center></body></html>''"

definition html_400 :: string where "html_400 = html_page ''400 Bad Request''"
definition html_404 :: string where "html_404 = html_page ''404 Not Found''"
definition html_413 :: string where "html_413 = html_page ''413 Request Entity Too Large''"
definition html_500 :: string where "html_500 = html_page ''500 Internal Server Error''"

definition error_page_body :: "int \<Rightarrow> string" where
  "error_page_body code =
     (if code = 400 then html_400 else if code = 404 then html_404 else if code = 413 then html_413 else html_500)"

section \<open>Pages\<close>

datatype page_action =
  PageParse | PageHandleRequest | PageThrow Error | PageSend | PageReturn

definition http_header_done :: "web_app \<Rightarrow> page_action" where
  "http_header_done s = PageHandleRequest"

definition http_start_line :: "web_app \<Rightarrow> page_action" where
  "http_start_line s = (if wa_broken_stream s then http_header_done s else PageParse)"

text \<open>\<^verbatim>\<open>handle_parser_result\<close>; the result of the parser must be there.\<close>

definition throw_status :: "int \<Rightarrow> page_action" where
  "throw_status code = PageThrow (Error_make code category_http)"

definition handle_parser_result :: "web_app \<Rightarrow> (page_action \<times> web_app) option" where
  "handle_parser_result s =
     (case hp_result (wa_parser s) of
        None \<Rightarrow> None
      | Some ParserBadRequest \<Rightarrow> Some (throw_status 400, s)
      | Some ParserStartLine \<Rightarrow> Some (throw_status 400, s)
      | Some ParserEndOfStream \<Rightarrow> Some (throw_status 400, s)
      | Some ParserUninitialized \<Rightarrow> Some (throw_status 500, s)
      | Some ParserEntityTooLarge \<Rightarrow> Some (throw_status 413, s)
      | Some ParserHeader \<Rightarrow>
          let p = wa_parser s
          in Some (PageParse,
                   if same_name (slice_text (hp_mem p) (hp_name p)) ''connection''
                   then s\<lparr>wa_connection_state := connection_of (slice_text (hp_mem p) (hp_value p))\<rparr> else s)
      | Some ParserComplete \<Rightarrow> Some (http_header_done s, s))"

definition send_response :: "web_app \<Rightarrow> (page_action \<times> web_app) option" where
  "send_response s =
     (let s1 = (if wa_connection_state s = ConnectionUnknown then s\<lparr>wa_connection_state := ConnectionClose\<rparr> else s);
          s2 = (if hb_connection_state (wa_builder s1) \<noteq> ConnectionUnknown
                then s1\<lparr>wa_connection_state := hb_connection_state (wa_builder s1)\<rparr> else s1)
      in do { (r, b) \<leftarrow> response_header_done (wa_builder s2);
              let s3 = s2\<lparr>wa_builder := b\<rparr>;
              if r = Failed
              then Some (PageThrow (make_error_webapp ErrorWebApp_ResponseHeaderTooLarge), s3)
              else Some (PageSend, s3\<lparr>wa_broken_stream := True\<rparr>) })"

text \<open>\<^verbatim>\<open>ErrorPage::http_handle_request\<close>.\<close>

definition error_page_request :: "web_app \<Rightarrow> (page_action \<times> web_app) option" where
  "error_page_request s =
     do { msg \<leftarrow> message_http (wa_error_code s);
          b1 \<leftarrow> response_line (wa_error_code s) ''HTTP/1.1'' [msg] (wa_builder s);
          b2 \<leftarrow> header_line ''Connection'' [''close''] b1;
          b3 \<leftarrow> header_line ''Content-Type'' [''text/html; charset=UTF-8''] b2;
          b4 \<leftarrow> header_line ''Content-Length'' [decimal (length (error_page_body (wa_error_code s)))] b3;
          send_response (s\<lparr>wa_builder := b4\<rparr>) }"

section \<open>The application\<close>

definition take_answer :: "web_app \<Rightarrow> buffer option \<times> web_app" where
  "take_answer s = (case wa_alloc s of [] \<Rightarrow> (None, s) | x # xs \<Rightarrow> (x, s\<lparr>wa_alloc := xs\<rparr>))"

definition app_init :: "web_app \<Rightarrow> (app_action \<times> web_app) option" where
  "app_init s =
     do { (rm, rv) \<leftarrow> wa_buffer_request s;
          (wm, wv) \<leftarrow> wa_buffer_response s;
          Some (AwaitParser StepPreRoute,
                s\<lparr>wa_parser := snd (parser_initialize rm rv (wa_parser s)),
                  wa_builder := builder_initialize wm wv (wa_builder s)\<rparr>) }"

definition allocate_buffer :: "web_app \<Rightarrow> (app_action \<times> web_app) option" where
  "allocate_buffer s =
     (let (x, s0) = take_answer s; s1 = s0\<lparr>wa_buffer_request := x\<rparr>
      in if x = None then Some (AppThrow (make_error_webapp ErrorWebApp_OutOfMemory), s1)
         else let (y, s2) = take_answer s1; s3 = s2\<lparr>wa_buffer_response := y\<rparr>
              in if y = None then Some (AppThrow (make_error_webapp ErrorWebApp_OutOfMemory), s3)
                 else let (z, s4) = take_answer s3; s5 = s4\<lparr>wa_buffer_page := z\<rparr>
                      in if z = None then Some (AppThrow (make_error_webapp ErrorWebApp_OutOfMemory), s5)
                         else app_init s5)"

text \<open>\<^verbatim>\<open>_allocate.release()\<close> moves the pointer out; the result stays non-empty, with a null pointer.\<close>

definition release_allocate :: "web_app \<Rightarrow> buffer option \<times> web_app" where
  "release_allocate s =
     (case wa_allocate s of
        Some x \<Rightarrow> (x, s\<lparr>wa_allocate := Some None\<rparr>)
      | None \<Rightarrow> (None, s))"

text \<open>
  One of the three blocks of \<^verbatim>\<open>allocate_buffer_no_error\<close>: \<open>put\<close> stores the buffer. \<open>Inl\<close> is the
  early return that waits for the allocation.
\<close>

definition acquire ::
    "buffer option \<Rightarrow> (buffer option \<Rightarrow> web_app \<Rightarrow> web_app) \<Rightarrow> app_step \<Rightarrow> web_app \<Rightarrow> (app_action \<times> web_app) + web_app" where
  "acquire cur put st s =
     (if cur \<noteq> None then Inr s
      else if wa_allocate s = None
      then let (x, s1) = take_answer s
           in if x = None then Inl (AwaitAllocate st, put None s1) else Inr (put x s1)
      else let (x, s1) = release_allocate s in Inr (put x s1))"

definition allocate_buffer_no_error :: "web_app \<Rightarrow> (app_action \<times> web_app) option" where
  "allocate_buffer_no_error s =
     (case acquire (wa_buffer_request s) (\<lambda>x t. t\<lparr>wa_buffer_request := x\<rparr>) StepAllocateNoError s of
        Inl r \<Rightarrow> Some r
      | Inr s1 \<Rightarrow>
     (case acquire (wa_buffer_response s1) (\<lambda>x t. t\<lparr>wa_buffer_response := x\<rparr>) StepAllocateNoError s1 of
        Inl r \<Rightarrow> Some r
      | Inr s2 \<Rightarrow>
     (case acquire (wa_buffer_page s2) (\<lambda>x t. t\<lparr>wa_buffer_page := x\<rparr>) StepAllocatePageBuffer s2 of
        Inl r \<Rightarrow> Some r
      | Inr s3 \<Rightarrow>
          if wa_buffer_request s3 = None \<or> wa_buffer_response s3 = None \<or> wa_buffer_page s3 = None then None
          else app_init s3)))"

definition app_call :: "bool \<Rightarrow> web_app \<Rightarrow> (app_action \<times> web_app) option" where
  "app_call wait_buffer s =
     (let s1 = s\<lparr>wa_broken_stream := True\<rparr>
      in if wait_buffer then allocate_buffer_no_error s1 else allocate_buffer s1)"

definition set_page :: "page option \<Rightarrow> web_app \<Rightarrow> web_app" where
  "set_page p s =
     s\<lparr>wa_destroyed := (case wa_page s of None \<Rightarrow> wa_destroyed s | Some q \<Rightarrow> wa_destroyed s @ [q]), wa_page := p\<rparr>"

text \<open>The view is reset and the page constructed in the buffer before \<^verbatim>\<open>_page\<close> destroys the old one.\<close>

definition spawn_page :: "web_app \<Rightarrow> (app_action \<times> web_app) option" where
  "spawn_page s =
     do { (m, v) \<leftarrow> wa_buffer_page s;
          pg \<leftarrow> wa_spawn_page s;
          v1 \<leftarrow> route_spawn (page_layout s pg) (length (wr_slots (wa_route s))) (page_slots pg) (bv_reset_full v);
          let s1 = s\<lparr>wa_buffer_page := Some (m, v1), wa_slot_count := page_slots pg\<rparr>;
          Some (AwaitPage StepFinish, (set_page (Some pg) s1)\<lparr>wa_spawn_page := None\<rparr>) }"

definition allocate_page_buffer :: "web_app \<Rightarrow> (app_action \<times> web_app) option" where
  "allocate_page_buffer s =
     (let (x, s1) = release_allocate s in spawn_page (s1\<lparr>wa_buffer_page := x\<rparr>))"

definition send_error_page :: "int \<Rightarrow> web_app \<Rightarrow> (app_action \<times> web_app) option" where
  "send_error_page code s =
     (if wa_broken_stream s then Some (AwaitShutdown StepReturn, s)
      else spawn_page (s\<lparr>wa_broken_stream := True, wa_error_code := code, wa_spawn_page := Some ErrorPage\<rparr>))"

definition app_route :: "web_node \<Rightarrow> char \<Rightarrow> string \<Rightarrow> web_app \<Rightarrow> (page option \<times> web_app) option" where
  "app_route root nxt path s =
     do { (pg, r) \<leftarrow> route_parse nxt root path (wa_route s);
          Some (map_option (\<lambda>(ix, n). Page ix n) pg, s\<lparr>wa_route := r\<rparr>) }"

text \<open>The byte behind the path in the request buffer.\<close>

definition byte_behind :: "string \<Rightarrow> Slice \<Rightarrow> char option" where
  "byte_behind mem sl = (if s_data sl + s_size sl < length mem then Some (mem ! (s_data sl + s_size sl)) else None)"

definition pre_route :: "web_node \<Rightarrow> web_app \<Rightarrow> (app_action \<times> web_app) option" where
  "pre_route root s =
     (let s1 = s\<lparr>wa_broken_stream := False\<rparr>; p = wa_parser s
      in if hp_result p = None then None
         else if hp_result p \<noteq> Some ParserStartLine then send_error_page 400 s1
         else do { nxt \<leftarrow> byte_behind (hp_mem p) (hp_second p);
                   (pg, s2) \<leftarrow> app_route root nxt (slice_text (hp_mem p) (hp_second p)) s1;
                   let s3 = (case pg of
                               Some x \<Rightarrow> s2\<lparr>wa_spawn_page := Some x\<rparr>
                             | None \<Rightarrow> s2\<lparr>wa_error_code := 404, wa_spawn_page := Some ErrorPage\<rparr>);
                   spawn_page (s3\<lparr>wa_query_string := wr_query (wa_route s3), wa_route := route_freeze (wa_route s3)\<rparr>) })"

text \<open>\<^verbatim>\<open>redirect\<close>, called by a page with a path of its own.\<close>

definition redirect :: "web_node \<Rightarrow> char \<Rightarrow> string \<Rightarrow> web_app \<Rightarrow> web_app option" where
  "redirect root nxt path s =
     do { (pg, s1) \<leftarrow> app_route root nxt path s; Some (s1\<lparr>wa_spawn_page := pg\<rparr>) }"

definition app_reset :: "web_app \<Rightarrow> web_app" where
  "app_reset s = (set_page None s)\<lparr>wa_spawn_page := None, wa_buffer_page := None, wa_buffer_request := None,
     wa_buffer_response := None\<rparr>"

definition app_handle_error :: "Error \<Rightarrow> web_app \<Rightarrow> (app_action \<times> web_app) option" where
  "app_handle_error e s =
     do { c \<leftarrow> e_category e;
          if c = category_webapp \<and>
             (e_value e = value_ErrorWebApp ErrorWebApp_NoError \<or> e_value e = value_ErrorWebApp ErrorWebApp_OutOfMemory)
          then Some (AwaitShutdown StepReturn, s)
          else if c = category_http \<and> e_value e \<ge> 400 then send_error_page (e_value e) s
          else send_error_page 500 s }"

definition app_finish :: "web_app \<Rightarrow> (app_action \<times> web_app) option" where
  "app_finish s =
     (if wa_page s = None \<or> wa_buffer_page s = None then None
      else if wa_spawn_page s \<noteq> None then spawn_page s
      else case wa_connection_state s of
             ConnectionKeepAlive \<Rightarrow> app_init (app_reset s)
           | _ \<Rightarrow> Some (AwaitShutdown StepReturn, s))"

definition app_run :: "web_node \<Rightarrow> app_step \<Rightarrow> web_app \<Rightarrow> (app_action \<times> web_app) option" where
  "app_run root st s =
     (case st of
        StepAllocateNoError \<Rightarrow> allocate_buffer_no_error s
      | StepAllocatePageBuffer \<Rightarrow> allocate_page_buffer s
      | StepPreRoute \<Rightarrow> pre_route root s
      | StepFinish \<Rightarrow> app_finish s
      | StepReturn \<Rightarrow> Some (AppReturn, s))"

section \<open>The page buffer\<close>

text \<open>The page fits into the memory of the view, which is aligned for it.\<close>

definition buffer_holds :: "BufferView \<Rightarrow> nat \<times> nat \<Rightarrow> bool" where
  "buffer_holds v lay \<longleftrightarrow> bv_memory v mod snd lay = 0 \<and> fst lay \<le> bv_memory_size v"

lemma route_spawn_iff:
  "route_spawn lay avail n (bv_reset_full v) =
     (if buffer_holds v lay \<and> n \<le> avail then Some (bv_reset_full v) else None)"
  by (auto simp: route_spawn_def bv_cut_def bv_reset_full_def buffer_holds_def Let_def)

fun page_indices :: "web_node list \<Rightarrow> nat list" where
  "page_indices [] = []"
| "page_indices (WebNode nm ix cs # others) = ix # page_indices cs @ page_indices others"

lemma largest_ge: "ix \<in> set (page_indices ns) \<Longrightarrow> f ix \<le> largest f ns"
  by (induction f ns rule: largest.induct) (auto simp: max_def)

lemma resolve_in_indices:
  "resolve n path = Some (ix, bs) \<Longrightarrow> path \<noteq> [] \<Longrightarrow> ix \<in> set (page_indices (node_children n))"
  "resolve_in ns c path = Some (ix, bs) \<Longrightarrow> ix \<in> set (page_indices ns)"
proof (induction n path and ns c path arbitrary: bs and bs rule: resolve_resolve_in.induct)
  case (4 n others c path)
  obtain nm jx cs where n: "n = WebNode nm jx cs" by (cases n)
  have "ix \<in> set (page_indices [n])" if "resolve n path = Some (ix, bs')" "is_slot_node n \<or> node_name n = c" for bs'
    using "4.IH"(1,2) that by (cases path) (auto simp: n)
  then show ?case using "4.prems" "4.IH"(3) by (auto simp: n split: if_splits)
qed simp_all

text \<open>
  The size of the page buffer. A buffer of the size computed from the tree of routes holds the error page
  and every page a non-empty path can lead to. The page of the root itself is not counted: an application
  whose root page is larger than all others does not fit.
\<close>

theorem page_buffer_holds_pages:
  assumes "bv_memory v mod snd err = 0" and "\<forall>ix. bv_memory v mod snd (layout ix) = 0"
    and "bv_memory_size v = calculate_buffer_size layout err root"
  shows "buffer_holds v err \<and>
    (\<forall>path ix bs. path \<noteq> [] \<and> resolve root path = Some (ix, bs) \<longrightarrow> buffer_holds v (layout ix)) \<and>
    (route_spawn (layout (node_index root)) avail 0 (bv_reset_full v) = None \<longleftrightarrow>
       fst (layout (node_index root)) > calculate_buffer_size layout err root)"
proof (intro conjI allI impI)
  fix path ix bs assume "path \<noteq> [] \<and> resolve root path = Some (ix, bs)"
  then have "(fst \<circ> layout) ix \<le> largest (fst \<circ> layout) (node_children root)"
    using resolve_in_indices(1) largest_ge by blast
  then show "buffer_holds v (layout ix)" using assms by (simp add: buffer_holds_def calculate_buffer_size_def)
qed (use assms in \<open>auto simp: buffer_holds_def calculate_buffer_size_def route_spawn_iff\<close>)

section \<open>Routing a request\<close>

lemma spawn_page_ok:
  assumes "wa_buffer_page s = Some (m, v)" and "wa_spawn_page s = Some pg"
    and "buffer_holds v (page_layout s pg)" and "page_slots pg \<le> length (wr_slots (wa_route s))"
  shows "\<exists>s'. spawn_page s = Some (AwaitPage StepFinish, s') \<and> wa_page s' = Some pg \<and> wa_spawn_page s' = None \<and>
    wa_buffer_page s' = Some (m, bv_reset_full v) \<and> wa_error_code s' = wa_error_code s \<and>
    wa_broken_stream s' = wa_broken_stream s \<and> wa_query_string s' = wa_query_string s \<and>
    wa_route s' = wa_route s \<and> wa_builder s' = wa_builder s \<and> wa_parser s' = wa_parser s \<and>
    wa_slot_count s' = page_slots pg"
  using assms by (simp add: spawn_page_def set_page_def route_spawn_iff Let_def)

definition chosen_page :: "(nat \<times> (string \<times> string) list) option \<Rightarrow> page" where
  "chosen_page r = (case r of Some (ix, bs) \<Rightarrow> Page ix (length bs) | None \<Rightarrow> ErrorPage)"


section \<open>Errors\<close>

text \<open>What one error does.\<close>

lemma handle_error_cases:
  assumes "e_category e = Some c" and "wa_buffer_page s = Some (m, v)" and "buffer_holds v (wa_error_layout s)"
  shows "\<exists>a s'. app_handle_error e s = Some (a, s') \<and>
    (if wa_broken_stream s \<or> e = make_error_webapp ErrorWebApp_OutOfMemory \<or> e = make_error_webapp ErrorWebApp_NoError
     then a = AwaitShutdown StepReturn \<and> s' = s
     else a = AwaitPage StepFinish \<and> wa_page s' = Some ErrorPage \<and> wa_broken_stream s' \<and>
       wa_error_code s' = (if c = category_http \<and> e_value e \<ge> 400 then e_value e else 500))"
proof -
  have mem: "e = make_error_webapp x \<longleftrightarrow> c = category_webapp \<and> e_value e = value_ErrorWebApp x" for x
    using assms(1) by (cases e) (auto simp: make_error_webapp_def Error_make_def)
  show ?thesis
  proof (cases "wa_broken_stream s \<or> e = make_error_webapp ErrorWebApp_OutOfMemory \<or> e = make_error_webapp ErrorWebApp_NoError")
    case True
    then have "app_handle_error e s = Some (AwaitShutdown StepReturn, s)"
      using assms(1) by (auto simp: app_handle_error_def send_error_page_def mem)
    then show ?thesis using True by simp
  next
    case False
    define code where "code = (if c = category_http \<and> e_value e \<ge> 400 then e_value e else 500)"
    have "app_handle_error e s = send_error_page code s"
      using assms(1) False by (auto simp: app_handle_error_def mem code_def)
    moreover obtain s' where "send_error_page code s = Some (AwaitPage StepFinish, s')" "wa_page s' = Some ErrorPage"
        "wa_error_code s' = code" "wa_broken_stream s'"
      using False spawn_page_ok [of "s\<lparr>wa_broken_stream := True, wa_error_code := code, wa_spawn_page := Some ErrorPage\<rparr>" m v ErrorPage] assms(2,3)
      by (auto simp: send_error_page_def page_layout_def page_slots_def)
    ultimately show ?thesis using False by (auto simp: code_def)
  qed
qed

text \<open>
  What happens after \<^verbatim>\<open>pre_route\<close>, until the routine ends or the connection takes its next request: errors that reach
  the application, results of the header parser in a page, a page that sends its response header, the request
  handler of the error page, redirections, and pages that return. A page may leave any parser and builder behind.
\<close>

datatype app_event =
    EvError Error | EvParsed http_parser | EvRespond http_builder | EvErrorPage | EvRedirect char string | EvFinish

fun event_step :: "web_node \<Rightarrow> app_event \<Rightarrow> web_app \<Rightarrow> (app_action option \<times> web_app) option" where
  "event_step root (EvError e) s = map_option (\<lambda>(a, t). (Some a, t)) (app_handle_error e s)"
| "event_step root (EvParsed p) s = map_option (\<lambda>(a, t). (None, t)) (handle_parser_result (s\<lparr>wa_parser := p\<rparr>))"
| "event_step root (EvRespond b) s = map_option (\<lambda>(a, t). (None, t)) (send_response (s\<lparr>wa_builder := b\<rparr>))"
| "event_step root EvErrorPage s = map_option (\<lambda>(a, t). (None, t)) (error_page_request s)"
| "event_step root (EvRedirect nxt path) s = map_option (\<lambda>t. (None, t)) (redirect root nxt path s)"
| "event_step root EvFinish s = map_option (\<lambda>(a, t). (Some a, t)) (app_finish s)"

text \<open>The number of pages that were spawned for an error.\<close>

definition answers_error :: "app_event \<Rightarrow> app_action option \<Rightarrow> nat" where
  "answers_error ev a = (case ev of EvError e \<Rightarrow> if a = Some (AwaitPage StepFinish) then 1 else 0 | _ \<Rightarrow> 0)"

fun run_events :: "web_node \<Rightarrow> app_event list \<Rightarrow> web_app \<Rightarrow> (nat \<times> web_app) option" where
  "run_events root [] s = Some (0, s)"
| "run_events root (ev # evs) s =
     do { (a, s1) \<leftarrow> event_step root ev s; (n, s2) \<leftarrow> run_events root evs s1; Some (answers_error ev a + n, s2) }"

lemma spawn_page_broken: "spawn_page s = Some (a, s') \<Longrightarrow> wa_broken_stream s' = wa_broken_stream s"
  by (auto simp: spawn_page_def set_page_def bind_Some_iff Let_def)

lemma send_response_broken: "send_response s = Some (a, s') \<Longrightarrow> wa_broken_stream s \<Longrightarrow> wa_broken_stream s'"
  by (auto simp: send_response_def bind_Some_iff Let_def split: if_splits)

lemma handle_error_broken:
  assumes "app_handle_error e s = Some (a, s')"
  shows "(wa_broken_stream s \<longrightarrow> a = AwaitShutdown StepReturn \<and> s' = s) \<and> (a = AwaitPage StepFinish \<longrightarrow> wa_broken_stream s')"
  using assms
  by (auto simp: app_handle_error_def send_error_page_def bind_Some_iff dest!: spawn_page_broken split: if_splits)

lemma event_step_broken:
  assumes "event_step root ev s = Some (a, s')"
  shows "(wa_broken_stream s \<longrightarrow> wa_broken_stream s' \<and> answers_error ev a = 0) \<and>
    answers_error ev a \<le> 1 \<and> (answers_error ev a = 1 \<longrightarrow> wa_broken_stream s')"
proof (cases ev)
  case (EvError e)
  then show ?thesis using assms handle_error_broken [of e s] by (auto simp: answers_error_def)
next
  case (EvParsed p)
  then show ?thesis
    using assms by (auto simp: answers_error_def handle_parser_result_def Let_def split: option.splits HTTPParserState.splits if_splits)
next
  case (EvRespond b)
  then show ?thesis using assms send_response_broken [of "s\<lparr>wa_builder := b\<rparr>"] by (auto simp: answers_error_def)
next
  case EvErrorPage
  then show ?thesis using assms by (auto simp: answers_error_def error_page_request_def bind_Some_iff dest!: send_response_broken)
next
  case (EvRedirect nxt path)
  then show ?thesis using assms by (auto simp: answers_error_def redirect_def app_route_def bind_Some_iff)
next
  case EvFinish
  then show ?thesis
    using assms
    by (auto simp: answers_error_def app_finish_def app_init_def app_reset_def bind_Some_iff dest!: spawn_page_broken
        split: if_splits HTTPConnectionState.splits)
qed

lemma run_events_broken:
  "run_events root evs s = Some (n, s') \<Longrightarrow>
   n \<le> (if wa_broken_stream s then 0 else 1) \<and> (wa_broken_stream s \<or> n = 1 \<longrightarrow> wa_broken_stream s')"
proof (induction evs arbitrary: s n)
  case (Cons ev evs)
  then obtain a s1 n1 where r: "event_step root ev s = Some (a, s1)" "run_events root evs s1 = Some (n1, s')" "n = answers_error ev a + n1"
    by (auto simp: bind_Some_iff)
  show ?case using Cons.IH [OF r(2)] event_step_broken [OF r(1)] r(3) by (auto split: if_splits)
qed simp


text \<open>
  A path that leads nowhere. \<^verbatim>\<open>pre_route\<close> spawns the error page itself, without \<^verbatim>\<open>send_error_page\<close>, so the stream is not
  marked: the page reads the header of the request like any other, and if that fails the application
  spawns an error page again, in the buffer of the first one.
\<close>

theorem unknown_path_gets_second_page:
  assumes "hp_result (wa_parser s) = Some ParserStartLine" and "byte_behind (hp_mem (wa_parser s)) (hp_second (wa_parser s)) = Some nxt"
    and "route_parse nxt root (slice_text (hp_mem (wa_parser s)) (hp_second (wa_parser s))) (wa_route s) = Some (None, r)"
    and "wa_buffer_page s = Some (m, v)" and "buffer_holds v (wa_error_layout s)"
    and "hp_result p \<in> {Some ParserBadRequest, Some ParserEndOfStream, Some ParserEntityTooLarge}"
  shows "\<exists>s1 e s2 s3. pre_route root s = Some (AwaitPage StepFinish, s1) \<and> wa_page s1 = Some ErrorPage \<and> wa_error_code s1 = 404 \<and>
    http_start_line s1 = PageParse \<and> handle_parser_result (s1\<lparr>wa_parser := p\<rparr>) = Some (PageThrow e, s2) \<and>
    app_handle_error e s2 = Some (AwaitPage StepFinish, s3) \<and> wa_page s3 = Some ErrorPage"
proof -
  let ?s = "s\<lparr>wa_broken_stream := False, wa_error_code := 404, wa_spawn_page := Some ErrorPage,
    wa_query_string := wr_query r, wa_route := route_freeze r\<rparr>"
  have pre: "pre_route root s = spawn_page ?s" using assms(1-3) by (simp add: pre_route_def app_route_def Let_def)
  have "buffer_holds v (page_layout ?s ErrorPage)" "page_slots ErrorPage \<le> length (wr_slots (wa_route ?s))"
    using assms(5) by (simp_all add: page_layout_def page_slots_def)
  then obtain s1 where s1: "spawn_page ?s = Some (AwaitPage StepFinish, s1)" "wa_page s1 = Some ErrorPage" "wa_error_code s1 = 404"
      "\<not> wa_broken_stream s1" "wa_buffer_page s1 = Some (m, bv_reset_full v)"
    using spawn_page_ok [of ?s m v ErrorPage] assms(4) by auto
  have lay: "wa_error_layout s1 = wa_error_layout s" using s1(1) by (auto simp: spawn_page_def set_page_def bind_Some_iff Let_def)
  obtain code where code: "handle_parser_result (s1\<lparr>wa_parser := p\<rparr>) = Some (PageThrow (Error_make code category_http), s1\<lparr>wa_parser := p\<rparr>)"
      "code \<ge> 400"
    using assms(6) by (auto simp: handle_parser_result_def throw_status_def)
  have "buffer_holds (bv_reset_full v) (wa_error_layout (s1\<lparr>wa_parser := p\<rparr>))"
    using assms(5) lay by (simp add: buffer_holds_def bv_reset_full_def)
  then obtain s3 where "app_handle_error (Error_make code category_http) (s1\<lparr>wa_parser := p\<rparr>) = Some (AwaitPage StepFinish, s3)"
      "wa_page s3 = Some ErrorPage"
    using handle_error_cases [of "Error_make code category_http" category_http "s1\<lparr>wa_parser := p\<rparr>" m "bv_reset_full v"] s1(4,5)
    by (auto simp: Error_make_def make_error_webapp_def)
  then show ?thesis using pre s1 code by (auto simp: http_start_line_def)
qed

section \<open>Keep-alive and waiting for buffers\<close>

text \<open>
  A connection that is kept alive crashes after its first response: \<^verbatim>\<open>finish\<close> gives the buffers back
  and then \<^verbatim>\<open>init\<close> uses the request buffer, which is null by now.
\<close>

theorem keep_alive_uses_null_buffer:
  assumes "wa_page s = Some pg" and "wa_buffer_page s = Some pb" and "wa_spawn_page s = None"
  shows "app_finish s = (if wa_connection_state s = ConnectionKeepAlive then None else Some (AwaitShutdown StepReturn, s))"
  using assms by (cases "wa_connection_state s") (simp_all add: app_finish_def app_init_def app_reset_def)

text \<open>
  An application configured to wait for buffers crashes whenever it has to wait: once the awaited
  buffer is there, the continuation fails. After waiting for the request or the response buffer, the
  next buffer is taken from the same, already emptied result and is null; after waiting for the page
  buffer, the page is spawned before a request was read.
\<close>

theorem waiting_for_a_buffer_fails:
  assumes "wa_buffer_request s = None" and "wa_buffer_response s = None" and "wa_buffer_page s = None"
    and "wa_allocate s = None" and "wa_spawn_page s = None"
    and "app_call True s = Some (AwaitAllocate st, s1)"
  shows "app_run root st (s1\<lparr>wa_allocate := Some (Some buf)\<rparr>) = None"
  using assms
  by (auto simp: app_call_def allocate_buffer_no_error_def acquire_def take_answer_def release_allocate_def app_run_def
      allocate_page_buffer_def spawn_page_def app_init_def Let_def split: list.splits if_splits option.splits sum.splits prod.splits)
section \<open>The error page\<close>

lemma response_line_ok:
  assumes "hb_ok b"
  shows "\<exists>b'. response_line st v ps b = Some b' \<and>
    wrote b (v @ '' '' @ decimal (unsigned_int st) @ '' '' @ concat ps @ [CR, LF]) b' \<and> same_flags b b'"
proof -
  obtain b1 where b1: "os_write v b = Some b1" "wrote b v b1" "same_flags b b1" using os_write_ok [OF assms] by blast
  obtain b2 where b2: "os_put (CHR '' '') b1 = Some b2" "wrote b1 '' '' b2" "same_flags b1 b2"
    using os_put_ok [OF wrote_ok [OF b1(2)]] by blast
  obtain b3 where b3: "os_write (decimal (unsigned_int st)) b2 = Some b3" "wrote b2 (decimal (unsigned_int st)) b3" "same_flags b2 b3"
    using os_write_ok [OF wrote_ok [OF b2(2)]] by blast
  obtain b4 where b4: "os_put (CHR '' '') b3 = Some b4" "wrote b3 '' '' b4" "same_flags b3 b4"
    using os_put_ok [OF wrote_ok [OF b3(2)]] by blast
  obtain b5 where b5: "os_write_all ps b4 = Some b5" "wrote b4 (concat ps) b5" "same_flags b4 b5"
    using os_write_all_ok [OF wrote_ok [OF b4(2)]] by blast
  obtain b6 where b6: "os_write [CR, LF] b5 = Some b6" "wrote b5 [CR, LF] b6" "same_flags b5 b6"
    using os_write_ok [OF wrote_ok [OF b5(2)]] by blast
  have "wrote b (v @ '' '' @ decimal (unsigned_int st) @ '' '' @ concat ps @ [CR, LF]) b6"
    using wrote_trans [OF b1(2) wrote_trans [OF b2(2) wrote_trans [OF b3(2) wrote_trans [OF b4(2)
          wrote_trans [OF b5(2) b6(2)]]]]] by simp
  then show ?thesis
    using b1(1,3) b2(1,3) b3(1,3) b4(1,3) b5(1,3) b6(1,3) by (auto simp: response_line_def same_flags_def)
qed

lemma response_header_done_ok:
  assumes "hb_ok b" and "\<not> hb_custom_server_name b"
  shows "\<exists>b'. response_header_done b = Some (if hb_overflow b' then Failed else Successful, b') \<and>
    wrote b (''Server: jinx'' @ [CR, LF, CR, LF]) b'"
proof -
  obtain b1 where b1: "os_write (''Server: jinx'' @ [CR, LF]) b = Some b1" "wrote b (''Server: jinx'' @ [CR, LF]) b1"
    using os_write_ok [OF assms(1)] by blast
  obtain b2 where b2: "os_write [CR, LF] b1 = Some b2" "wrote b1 [CR, LF] b2"
    using os_write_ok [OF wrote_ok [OF b1(2)]] by blast
  show ?thesis
    using wrote_trans [OF b1(2) b2(2)] b1(1) b2(1) assms(2)
    by (auto simp: response_header_done_def write_header_done_def)
qed

lemma send_response_ok:
  assumes "response_header_done (wa_builder s) = Some (r, b)"
  shows "\<exists>s'. send_response s = Some (if r = Failed then PageThrow (make_error_webapp ErrorWebApp_ResponseHeaderTooLarge)
      else PageSend, s') \<and> wa_builder s' = b \<and> wa_broken_stream s' = (r \<noteq> Failed \<or> wa_broken_stream s)"
  using assms
  by (cases "wa_connection_state s = ConnectionUnknown"; cases "hb_connection_state (wa_builder s) = ConnectionUnknown")
    (simp_all add: send_response_def Let_def)

definition error_fields :: "int \<Rightarrow> (string \<times> string) list" where
  "error_fields code =
     [(''Connection'', ''close''), (''Content-Type'', ''text/html; charset=UTF-8''),
      (''Content-Length'', decimal (length (error_page_body code))), (''Server'', ''jinx'')]"

definition error_header :: "int \<Rightarrow> string \<Rightarrow> string" where
  "error_header code msg = ''HTTP/1.1 '' @ decimal (unsigned_int code) @ '' '' @ msg @ [CR, LF] @ field_text (error_fields code) @ [CR, LF]"

lemma error_page_request_ok:
  assumes "hb_ok (wa_builder s)" and "\<not> hb_overflow (wa_builder s)" and "\<not> hb_custom_server_name (wa_builder s)"
    and "message_http (wa_error_code s) = Some msg"
  shows "\<exists>a s'. error_page_request s = Some (a, s') \<and>
    (let h = error_header (wa_error_code s) msg
     in hb_text (wa_builder s') = hb_text (wa_builder s) @ take (hb_room (wa_builder s)) h \<and>
        (if length h \<le> hb_room (wa_builder s) then a = PageSend \<and> wa_broken_stream s'
         else a = PageThrow (make_error_webapp ErrorWebApp_ResponseHeaderTooLarge) \<and>
           wa_broken_stream s' = wa_broken_stream s))"
proof -
  let ?c = "wa_error_code s" and ?b = "wa_builder s"
  let ?fs = "[(''Connection'', ''close''), (''Content-Type'', ''text/html; charset=UTF-8''),
      (''Content-Length'', decimal (length (error_page_body ?c)))]"
  obtain b1 where b1: "response_line ?c ''HTTP/1.1'' [msg] ?b = Some b1"
      "wrote ?b (''HTTP/1.1 '' @ decimal (unsigned_int ?c) @ '' '' @ msg @ [CR, LF]) b1" "same_flags ?b b1"
    using response_line_ok [OF assms(1), of ?c "''HTTP/1.1''" "[msg]"] by auto
  have names: "\<not> (\<exists>(n, v) \<in> set ?fs. same_name n ''server'')" by (simp add: same_name_def)
  obtain b2 where b2: "header_lines ?fs b1 = Some b2" "wrote b1 (field_text ?fs) b2"
      "hb_custom_server_name b2 = (hb_custom_server_name b1 \<or> (\<exists>(n, v) \<in> set ?fs. same_name n ''server''))"
    using header_lines_ok [OF wrote_ok [OF b1(2)]] by blast
  have ns: "\<not> hb_custom_server_name b2" using b2(3) names b1(3) assms(3) by (simp add: same_flags_def)
  obtain b3 where b3: "response_header_done b2 = Some (if hb_overflow b3 then Failed else Successful, b3)"
      "wrote b2 (''Server: jinx'' @ [CR, LF, CR, LF]) b3"
    using response_header_done_ok [OF wrote_ok [OF b2(2)] ns] by blast
  have w: "wrote ?b (error_header ?c msg) b3"
    using wrote_trans [OF b1(2) wrote_trans [OF b2(2) b3(2)]] by (simp add: error_header_def error_fields_def field_text_def)
  have req: "error_page_request s = send_response (s\<lparr>wa_builder := b2\<rparr>)"
    using b1(1) b2(1) assms(4) by (auto simp: error_page_request_def Option.bind_eq_Some_conv)
  obtain s' where s': "send_response (s\<lparr>wa_builder := b2\<rparr>) = Some (if hb_overflow b3
        then PageThrow (make_error_webapp ErrorWebApp_ResponseHeaderTooLarge) else PageSend, s')"
      "wa_builder s' = b3" "wa_broken_stream s' = (\<not> hb_overflow b3 \<or> wa_broken_stream s)"
    using send_response_ok [of "s\<lparr>wa_builder := b2\<rparr>"] b3(1) by (auto split: if_splits)
  show ?thesis using w assms(2) s'(2,3) unfolding req s'(1) by (auto simp: wrote_def Let_def)
qed

text \<open>
  The error page. The built-in page writes the status line with the code and its message, closes the
  connection, and announces the exact length of the body it will send. If the header does not fit
  into the response buffer nothing is sent: the page throws \<^verbatim>\<open>ResponseHeaderTooLarge\<close>.
\<close>

theorem error_page_is_written:
  assumes "hb_ok (wa_builder s)" and "\<not> hb_overflow (wa_builder s)" and "\<not> hb_custom_server_name (wa_builder s)"
    and "message_http (wa_error_code s) = Some msg"
  shows "\<exists>a s'. error_page_request s = Some (a, s') \<and>
    (let h = error_header (wa_error_code s) msg
     in hb_text (wa_builder s') = hb_text (wa_builder s) @ take (hb_room (wa_builder s)) h \<and>
        (if length h \<le> hb_room (wa_builder s) then a = PageSend \<and> wa_broken_stream s'
         else a = PageThrow (make_error_webapp ErrorWebApp_ResponseHeaderTooLarge) \<and>
           wa_broken_stream s' = wa_broken_stream s))"
  using error_page_request_ok [OF assms] .

section \<open>Witnesses\<close>

text \<open>An application with the routes \<open>slot_routes\<close>, three buffers and a parser \<open>p\<close>.\<close>

definition sample_app :: "http_parser \<Rightarrow> web_app" where
  "sample_app p = \<lparr>wa_parser = p, wa_builder = builder_new (replicate 200 (CHR ''-'')) (bv_new 0 200 0 0),
     wa_connection_state = ConnectionClose, wa_slot_count = 0, wa_query_string = [], wa_error_code = 404,
     wa_broken_stream = False, wa_route = route_new slot_routes, wa_spawn_page = None,
     wa_buffer_page = Some (replicate 64 (CHR ''-''), bv_new 0 64 0 0), wa_buffer_request = None,
     wa_buffer_response = None, wa_page = Some ErrorPage, wa_destroyed = [], wa_allocate = None, wa_alloc = [],
     wa_page_layout = (\<lambda>ix. (32, 8)), wa_error_layout = (24, 8)\<rparr>"

lemma sample_app_sel [simp]:
  "wa_parser (sample_app p) = p" "wa_route (sample_app p) = route_new slot_routes"
  "wa_buffer_page (sample_app p) = Some (replicate 64 (CHR ''-''), bv_new 0 64 0 0)"
  "wa_page_layout (sample_app p) = (\<lambda>ix. (32, 8))" "wa_error_layout (sample_app p) = (24, 8)"
  "wa_spawn_page (sample_app p) = None" "wa_broken_stream (sample_app p) = False" "wa_page (sample_app p) = Some ErrorPage"
  "wa_builder (sample_app p) = builder_new (replicate 200 (CHR ''-'')) (bv_new 0 200 0 0)" "wa_error_code (sample_app p) = 404"
  by (simp_all add: sample_app_def)

lemma sample_holds: "buffer_holds (bv_new 0 64 0 0) (24, 8)" "buffer_holds (bv_new 0 64 0 0) (32, 8)"
  by (simp_all add: buffer_holds_def bv_new_def)

theorem page_buffer_holds_pages_witness:
  "buffer_holds (bv_new 0 64 0 0) (24, 8) \<and> buffer_holds (bv_new 0 64 0 0) (32, 8) \<and>
   route_spawn (32, 8) 1 0 (bv_reset_full (bv_new 0 64 0 0)) \<noteq> None"
proof -
  have r: "resolve slot_routes [''7''] = Some (1, [(''id'', ''7'')])" by (simp add: slot_routes_def is_slot_node_def)
  have n: "calculate_buffer_size (\<lambda>ix. (32, 8)) (24, 8) slot_routes = 64"
    by (simp add: calculate_buffer_size_def slot_routes_def)
  show ?thesis
    using page_buffer_holds_pages [of "bv_new 0 64 0 0" "(24, 8)" "\<lambda>ix. (32, 8)" slot_routes 1, unfolded n] r
    by (auto simp: bv_new_def)
qed



theorem keep_alive_uses_null_buffer_witness:
  "app_finish ((sample_app (sample_parser [] ParserStartLine))\<lparr>wa_connection_state := ConnectionKeepAlive\<rparr>) = None"
  using keep_alive_uses_null_buffer [of "(sample_app (sample_parser [] ParserStartLine))\<lparr>wa_connection_state := ConnectionKeepAlive\<rparr>"
      ErrorPage "(replicate 64 (CHR ''-''), bv_new 0 64 0 0)"]
  by simp

theorem waiting_for_a_buffer_fails_witness:
  "\<exists>s1. app_call True ((sample_app (sample_parser [] ParserStartLine))\<lparr>wa_buffer_page := None, wa_alloc := [None]\<rparr>) =
      Some (AwaitAllocate StepAllocateNoError, s1) \<and>
    app_run slot_routes StepAllocateNoError (s1\<lparr>wa_allocate := Some (Some ([], bv_new 0 0 0 0))\<rparr>) = None"
proof -
  let ?s = "(sample_app (sample_parser [] ParserStartLine))\<lparr>wa_buffer_page := None, wa_alloc := [None]\<rparr>"
  have s: "wa_buffer_request ?s = None" "wa_buffer_response ?s = None" "wa_buffer_page ?s = None"
      "wa_allocate ?s = None" "wa_spawn_page ?s = None"
    by (simp_all add: sample_app_def)
  obtain s1 where "app_call True ?s = Some (AwaitAllocate StepAllocateNoError, s1)"
    by (simp add: app_call_def allocate_buffer_no_error_def acquire_def take_answer_def sample_app_def)
  then show ?thesis using waiting_for_a_buffer_fails [OF s] by blast
qed

theorem error_page_is_written_witness:
  "\<exists>s'. error_page_request (sample_app (sample_parser [] ParserStartLine)) = Some (PageSend, s') \<and>
    hb_text (wa_builder s') = ''HTTP/1.1 404 Not Found'' @ [CR, LF] @ ''Connection: close'' @ [CR, LF] @
      ''Content-Type: text/html; charset=UTF-8'' @ [CR, LF] @ ''Content-Length: 131'' @ [CR, LF] @ ''Server: jinx'' @ [CR, LF, CR, LF]"
proof -
  let ?s = "sample_app (sample_parser [] ParserStartLine)"
  have b: "hb_ok (wa_builder ?s)" "\<not> hb_overflow (wa_builder ?s)" "\<not> hb_custom_server_name (wa_builder ?s)"
      "hb_room (wa_builder ?s) = 200" "hb_text (wa_builder ?s) = []"
    using builder_new_ok [of "bv_new 0 200 0 0" "replicate 200 (CHR ''-'')"]
    by (simp_all add: bv_ok_def bv_new_def) (simp_all add: builder_new_def hb_room_def hb_text_def bv_capacity_def bv_size_def sub64_exact)
  have m: "message_http (wa_error_code ?s) = Some ''Not Found''" by (simp add: message_http_def message_http_table_def)
  have d: "decimal 404 = ''404''" "decimal 131 = ''131''" by (simp_all add: decimal.simps char_of_def bit_0)
  have l: "length (error_page_body 404) = 131" by (simp add: error_page_body_def html_404_def html_page_def)
  have h: "error_header (wa_error_code ?s) ''Not Found'' =
      ''HTTP/1.1 404 Not Found'' @ [CR, LF] @ ''Connection: close'' @ [CR, LF] @
      ''Content-Type: text/html; charset=UTF-8'' @ [CR, LF] @ ''Content-Length: 131'' @ [CR, LF] @ ''Server: jinx'' @ [CR, LF, CR, LF]"
    by (simp add: error_header_def error_fields_def field_text_def l d)
  show ?thesis
    using error_page_is_written [OF b(1-3) m] unfolding h b(4,5) by (auto simp: Let_def)
qed

end
