(* ===== verification/Jinx_Lock.thy ===== *)
theory Jinx_Lock
  imports Jinx_LinkedList Jinx_Error "HOL-Library.Monad_Syntax"
begin

text \<open>
  The lock shared by threads and awaitables (\<^verbatim>\<open>include/jinx/lock.hpp\<close>).

  The operations of \<^verbatim>\<open>Lock\<close> and \<^verbatim>\<open>AsyncLock\<close> run under the mutex of the lock, and threads and the loop
  interleave them in any order. An operation whose effects become visible only when it gives the
  mutex back is one step; \<^verbatim>\<open>unlock\<close> is two, because the participant it wakes goes on without the
  mutex, possibly before \<^verbatim>\<open>unlock\<close> has taken the node out of the list. A participant is a number.
  The counter is the atomic \<^verbatim>\<open>_lock\<close>, the list is \<^verbatim>\<open>_pending_aws\<close>; \<open>lk_mutex\<close> says that an \<^verbatim>\<open>unlock\<close>
  holds \<^verbatim>\<open>_mutex\<close> between its two steps. For a thread \<open>w_resumed\<close> says that the private mutex it
  sleeps on was released, for an awaitable that \<^verbatim>\<open>async_resume\<close> was called; \<open>w_alive\<close> says that
  the list node (the \<^verbatim>\<open>ThreadWake\<close> on the stack of the thread, or the \<^verbatim>\<open>AsyncLock\<close>) exists.
  \<open>None\<close> is a call through a null pointer or a node used after its end.
\<close>

section \<open>Data\<close>

datatype lock_fun = TryLock | Locked

record waiter =
  w_lock :: bool
  w_fun :: "lock_fun option"
  w_resumed :: bool
  w_alive :: bool

record lock_state =
  lk_lock :: int
  lk_pending :: "nat linked_list"
  lk_wait :: "nat \<Rightarrow> waiter"
  lk_mutex :: bool

datatype lock_poll = LockReturn | LockSuspend | LockThrow Error

definition idle_waiter :: waiter where
  "idle_waiter = \<lparr>w_lock = False, w_fun = None, w_resumed = False, w_alive = False\<rparr>"

definition lock_new :: lock_state where
  "lock_new = \<lparr>lk_lock = 0, lk_pending = ll_new, lk_wait = (\<lambda>_. idle_waiter), lk_mutex = False\<rparr>"

definition upd_wait :: "nat \<Rightarrow> (waiter \<Rightarrow> waiter) \<Rightarrow> lock_state \<Rightarrow> lock_state" where
  "upd_wait i f s = s\<lparr>lk_wait := (lk_wait s)(i := f (lk_wait s i))\<rparr>"

section \<open>Operations\<close>

text \<open>\<^verbatim>\<open>Lock::lock\<close> up to the point where the thread sleeps; \<open>True\<close> says it returned at once.\<close>

definition thread_lock :: "nat \<Rightarrow> lock_state \<Rightarrow> bool \<times> lock_state" where
  "thread_lock i s =
     (let n = lk_lock s; s1 = s\<lparr>lk_lock := n + 1\<rparr>
      in if n = 0 then (True, s1)
         else (False, (upd_wait i (\<lambda>w. idle_waiter\<lparr>w_alive := True\<rparr>) s1)
                        \<lparr>lk_pending := snd (push_front i (lk_pending s1))\<rparr>))"

text \<open>
  \<^verbatim>\<open>ThreadWake::sleep\<close> returns once the thread was woken; \<^verbatim>\<open>lock\<close> then returns and its \<^verbatim>\<open>ThreadWake\<close>
  goes out of scope. It does not take the mutex of the lock again.
\<close>

definition thread_sleep :: "nat \<Rightarrow> lock_state \<Rightarrow> lock_state option" where
  "thread_sleep i s = (if w_resumed (lk_wait s i) then Some (upd_wait i (\<lambda>w. idle_waiter) s) else None)"

definition lock_wake :: "nat \<Rightarrow> lock_state \<Rightarrow> lock_state" where
  "lock_wake i s = upd_wait i (\<lambda>w. w\<lparr>w_resumed := True\<rparr>) s"

text \<open>
  \<^verbatim>\<open>unlock\<close> up to the return of \<^verbatim>\<open>wake\<close>, and the rest of it. The second part is reached with the
  mutex held; it reads the node at the head of the list.
\<close>

definition unlock_begin :: "lock_state \<Rightarrow> lock_state option" where
  "unlock_begin s =
     (let n = lk_lock s; s1 = s\<lparr>lk_lock := n - 1\<rparr>
      in if n = 1 then Some s1
         else case ll_front (lk_pending s1) of
                End \<Rightarrow> None
              | Node i \<Rightarrow> if w_alive (lk_wait s1 i) then Some ((lock_wake i s1)\<lparr>lk_mutex := True\<rparr>) else None)"

definition unlock_end :: "lock_state \<Rightarrow> lock_state option" where
  "unlock_end s =
     (case ll_front (lk_pending s) of
        End \<Rightarrow> None
      | Node i \<Rightarrow>
          if w_alive (lk_wait s i)
          then do { (r, l) \<leftarrow> pop_front (lk_pending s); Some (s\<lparr>lk_pending := l, lk_mutex := False\<rparr>) }
          else None)"

text \<open>The whole of \<^verbatim>\<open>unlock\<close> when nobody runs in between.\<close>

definition unlock :: "lock_state \<Rightarrow> lock_state option" where
  "unlock s = do { s1 \<leftarrow> unlock_begin s; if lk_mutex s1 then unlock_end s1 else Some s1 }"

definition async_lock_call :: "nat \<Rightarrow> lock_state \<Rightarrow> lock_state" where
  "async_lock_call i s =
     upd_wait i (\<lambda>w. \<lparr>w_lock = True, w_fun = Some TryLock, w_resumed = False, w_alive = True\<rparr>) s"

definition try_lock :: "nat \<Rightarrow> lock_state \<Rightarrow> lock_poll \<times> lock_state" where
  "try_lock i s =
     (let n = lk_lock s; s1 = s\<lparr>lk_lock := n + 1\<rparr>
      in if n = 0 then (LockReturn, upd_wait i (\<lambda>w. w\<lparr>w_lock := False\<rparr>) s1)
         else case push_front i (lk_pending s1) of
                (Failed, _) \<Rightarrow>
                  (LockThrow (make_error_awaitable ErrorAwaitable_InternalError),
                   upd_wait i (\<lambda>w. w\<lparr>w_lock := False\<rparr>) s1)
              | (Successful, l) \<Rightarrow>
                  (LockSuspend, (upd_wait i (\<lambda>w. w\<lparr>w_fun := Some Locked\<rparr>) s1)\<lparr>lk_pending := l\<rparr>))"

definition locked :: "nat \<Rightarrow> lock_state \<Rightarrow> lock_poll \<times> lock_state" where
  "locked i s = (LockReturn, upd_wait i (\<lambda>w. w\<lparr>w_lock := False\<rparr>) s)"

definition async_lock_poll :: "nat \<Rightarrow> lock_state \<Rightarrow> (lock_poll \<times> lock_state) option" where
  "async_lock_poll i s =
     (case w_fun (lk_wait s i) of
        None \<Rightarrow> None
      | Some TryLock \<Rightarrow> if w_lock (lk_wait s i) then Some (try_lock i s) else None
      | Some Locked \<Rightarrow> Some (locked i s))"

definition async_lock_finalize :: "nat \<Rightarrow> lock_state \<Rightarrow> lock_state option" where
  "async_lock_finalize i s =
     (if w_lock (lk_wait s i)
      then do { (r, l) \<leftarrow> erase (Node i) (lk_pending s);
                Some (upd_wait i (\<lambda>w. w\<lparr>w_lock := False, w_fun := None\<rparr>)
                        (s\<lparr>lk_lock := lk_lock s - 1, lk_pending := l\<rparr>)) }
      else Some (upd_wait i (\<lambda>w. w\<lparr>w_fun := None\<rparr>) s))"

text \<open>The end of an \<^verbatim>\<open>AsyncLock\<close> that is not waiting: it is finalized and its storage goes.\<close>

definition async_lock_destroy :: "nat \<Rightarrow> lock_state \<Rightarrow> lock_state option" where
  "async_lock_destroy i s = map_option (upd_wait i (\<lambda>w. w\<lparr>w_alive := False\<rparr>)) (async_lock_finalize i s)"

section \<open>Interleavings\<close>

text \<open>
  What each participant is doing. \<open>Waiting\<close> is a sleeping thread or a suspended awaitable, woken or
  not; \<open>Holding\<close> is in the critical section; \<open>Unlocking\<close> is in \<^verbatim>\<open>unlock\<close>, between waking the next
  one and \<^verbatim>\<open>pop_front\<close>.
\<close>

datatype phase = Idle | Waiting | Holding | Unlocking

type_synonym lock_config = "lock_state \<times> (nat \<Rightarrow> phase)"

text \<open>
  The steps of \<open>N\<close> participants. A step that takes the mutex needs it to be free. A waiting
  awaitable may be cancelled at any time before it was woken; it is cancelled after it was woken
  only in the runs with \<open>G\<close>.
\<close>

inductive lock_step :: "nat \<Rightarrow> bool \<Rightarrow> lock_config \<Rightarrow> lock_config \<Rightarrow> bool" for N G where
  ThreadAcquire: "i < N \<Longrightarrow> ph i = Idle \<Longrightarrow> \<not> lk_mutex s \<Longrightarrow> thread_lock i s = (True, s') \<Longrightarrow>
     lock_step N G (s, ph) (s', ph(i := Holding))"
| ThreadWait: "i < N \<Longrightarrow> ph i = Idle \<Longrightarrow> \<not> lk_mutex s \<Longrightarrow> thread_lock i s = (False, s') \<Longrightarrow>
     lock_step N G (s, ph) (s', ph(i := Waiting))"
| ThreadContinue: "ph i = Waiting \<Longrightarrow> w_fun (lk_wait s i) = None \<Longrightarrow> thread_sleep i s = Some s' \<Longrightarrow>
     lock_step N G (s, ph) (s', ph(i := Holding))"
| AsyncAcquire: "i < N \<Longrightarrow> ph i = Idle \<Longrightarrow> \<not> lk_mutex s \<Longrightarrow>
     async_lock_poll i (async_lock_call i s) = Some (LockReturn, s') \<Longrightarrow>
     lock_step N G (s, ph) (s', ph(i := Holding))"
| AsyncWait: "i < N \<Longrightarrow> ph i = Idle \<Longrightarrow> \<not> lk_mutex s \<Longrightarrow>
     async_lock_poll i (async_lock_call i s) = Some (LockSuspend, s') \<Longrightarrow>
     lock_step N G (s, ph) (s', ph(i := Waiting))"
| AsyncThrow: "i < N \<Longrightarrow> ph i = Idle \<Longrightarrow> \<not> lk_mutex s \<Longrightarrow>
     async_lock_poll i (async_lock_call i s) = Some (LockThrow e, s') \<Longrightarrow>
     lock_step N G (s, ph) (s', ph)"
| AsyncContinue: "ph i = Waiting \<Longrightarrow> w_resumed (lk_wait s i) \<Longrightarrow> async_lock_poll i s = Some (LockReturn, s') \<Longrightarrow>
     lock_step N G (s, ph) (s', ph(i := Holding))"
| AsyncCancel: "ph i = Waiting \<Longrightarrow> w_lock (lk_wait s i) \<Longrightarrow> \<not> lk_mutex s \<Longrightarrow>
     \<not> w_resumed (lk_wait s i) \<or> G \<Longrightarrow>
     async_lock_finalize i s = Some s' \<Longrightarrow> lock_step N G (s, ph) (s', ph(i := Idle))"
| AsyncDestroy: "ph i = Idle \<or> ph i = Holding \<Longrightarrow> async_lock_destroy i s = Some s' \<Longrightarrow>
     lock_step N G (s, ph) (s', ph)"
| UnlockFree: "ph i = Holding \<Longrightarrow> \<not> lk_mutex s \<Longrightarrow> unlock_begin s = Some s' \<Longrightarrow> \<not> lk_mutex s' \<Longrightarrow>
     lock_step N G (s, ph) (s', ph(i := Idle))"
| UnlockWake: "ph i = Holding \<Longrightarrow> \<not> lk_mutex s \<Longrightarrow> unlock_begin s = Some s' \<Longrightarrow> lk_mutex s' \<Longrightarrow>
     lock_step N G (s, ph) (s', ph(i := Unlocking))"
| UnlockPop: "ph i = Unlocking \<Longrightarrow> unlock_end s = Some s' \<Longrightarrow> lock_step N G (s, ph) (s', ph(i := Idle))"

inductive lock_reachable :: "nat \<Rightarrow> bool \<Rightarrow> lock_config \<Rightarrow> bool" for N G where
  Start: "lock_reachable N G (lock_new, \<lambda>_. Idle)"
| Step: "lock_reachable N G c \<Longrightarrow> lock_step N G c c' \<Longrightarrow> lock_reachable N G c'"

text \<open>
  \<open>ow\<close> owns the lock: it is in the critical section or was woken to enter it. \<open>ws\<close> are the others
  that wait, in the order of the list. \<open>un\<close> is in the middle of \<^verbatim>\<open>unlock\<close>; then the list still
  begins with the node of the owner.
\<close>

definition owns :: "lock_state \<Rightarrow> (nat \<Rightarrow> phase) \<Rightarrow> nat \<Rightarrow> bool" where
  "owns s ph i \<longleftrightarrow> ph i = Holding \<or> ph i = Waiting \<and> w_resumed (lk_wait s i)"

definition part_inv ::
    "nat \<Rightarrow> nat list \<Rightarrow> nat option \<Rightarrow> nat option \<Rightarrow> nat \<Rightarrow> waiter \<Rightarrow> phase \<Rightarrow> bool" where
  "part_inv N ws ow un i w p \<longleftrightarrow>
     (ow = Some i \<longleftrightarrow> p = Holding \<or> p = Waiting \<and> w_resumed w) \<and> (un = Some i \<longleftrightarrow> p = Unlocking) \<and>
     (i \<in> set ws \<longleftrightarrow> p = Waiting \<and> \<not> w_resumed w) \<and> (i \<in> set ws \<longrightarrow> w_alive w) \<and>
     (p = Waiting \<longrightarrow> w_fun w \<noteq> Some TryLock) \<and> (p \<noteq> Waiting \<longrightarrow> \<not> w_lock w) \<and> (p \<noteq> Idle \<longrightarrow> i < N)"

definition lock_inv ::
    "nat \<Rightarrow> bool \<Rightarrow> lock_state \<Rightarrow> (nat \<Rightarrow> phase) \<Rightarrow> nat list \<Rightarrow> nat option \<Rightarrow> nat option \<Rightarrow> bool" where
  "lock_inv N G s ph ws ow un \<longleftrightarrow>
     ll_rep (lk_pending s) ((if un = None then [] else [the ow]) @ ws) \<and>
     (un \<noteq> None \<longrightarrow> ow \<noteq> None) \<and> (lk_mutex s \<longleftrightarrow> un \<noteq> None) \<and>
     lk_lock s = int (length ws) + (if ow = None then 0 else 1) \<and> (ow = None \<longrightarrow> G \<or> ws = []) \<and>
     (\<forall>i. part_inv N ws ow un i (lk_wait s i) (ph i))"

section \<open>The invariant\<close>

lemma lock_invD:
  assumes "lock_inv N G s ph ws ow un"
  shows inv_rep: "ll_rep (lk_pending s) ((if un = None then [] else [the ow]) @ ws)"
    and inv_unlocking: "un \<noteq> None \<Longrightarrow> ow \<noteq> None" and inv_mutex: "lk_mutex s \<longleftrightarrow> un \<noteq> None"
    and inv_count: "lk_lock s = int (length ws) + (if ow = None then 0 else 1)"
    and inv_free: "ow = None \<Longrightarrow> G \<or> ws = []"
    and inv_part: "part_inv N ws ow un i (lk_wait s i) (ph i)"
  using assms unfolding lock_inv_def by blast+

lemma inv_owns: "lock_inv N G s ph ws ow un \<Longrightarrow> owns s ph i \<longleftrightarrow> ow = Some i"
  using inv_part [of N G s ph ws ow un i] by (simp add: part_inv_def owns_def)

lemma inv_waiter: "lock_inv N G s ph ws ow un \<Longrightarrow> i \<in> set ws \<longleftrightarrow> ph i = Waiting \<and> \<not> w_resumed (lk_wait s i)"
  using inv_part [of N G s ph ws ow un i] by (simp add: part_inv_def)

lemma inv_bound: "lock_inv N G s ph ws ow un \<Longrightarrow> i \<in> set ws \<Longrightarrow> i < N"
  using inv_part [of N G s ph ws ow un i] by (auto simp: part_inv_def)

lemma inv_un: "lock_inv N G s ph ws ow un \<Longrightarrow> ph i = Unlocking \<longleftrightarrow> un = Some i"
  using inv_part [of N G s ph ws ow un i] by (auto simp: part_inv_def)

text \<open>A step changes few participants; for the others it is enough that they see no difference.\<close>

lemma lock_inv_upd:
  assumes inv: "lock_inv N G s ph ws ow un"
    and "ll_rep (lk_pending s') ((if un' = None then [] else [the ow']) @ ws')"
    and "un' \<noteq> None \<Longrightarrow> ow' \<noteq> None" and "lk_mutex s' \<longleftrightarrow> un' \<noteq> None"
    and "lk_lock s' = int (length ws') + (if ow' = None then 0 else 1)" and "ow' = None \<Longrightarrow> G \<or> ws' = []"
    and chg: "\<And>j. j \<in> A \<Longrightarrow> part_inv N ws' ow' un' j (lk_wait s' j) (ph' j)"
    and keep: "\<And>j. j \<notin> A \<Longrightarrow> lk_wait s' j = lk_wait s j \<and> ph' j = ph j \<and> (j \<in> set ws' \<longleftrightarrow> j \<in> set ws) \<and>
      (ow' = Some j \<longleftrightarrow> ow = Some j) \<and> (un' = Some j \<longleftrightarrow> un = Some j)"
  shows "lock_inv N G s' ph' ws' ow' un'"
proof -
  have "part_inv N ws' ow' un' j (lk_wait s' j) (ph' j)" for j
    using chg [of j] keep [of j] inv_part [OF inv, of j] by (cases "j \<in> A") (auto simp: part_inv_def)
  then show ?thesis using assms(2-6) by (simp add: lock_inv_def)
qed

lemma inv_acquire:
  assumes inv: "lock_inv N G s ph ws ow un" and "i < N" and "ph i = Idle" and "\<not> lk_mutex s" and "lk_lock s = 0"
    and "lk_pending s' = lk_pending s" and "lk_lock s' = 1" and "lk_mutex s' = lk_mutex s"
    and "\<And>j. j \<noteq> i \<Longrightarrow> lk_wait s' j = lk_wait s j" and "\<not> w_lock (lk_wait s' i)"
  shows "lock_inv N G s' (ph(i := Holding)) [] (Some i) None"
proof -
  have free: "un = None" "ow = None" "ws = []"
    using inv_mutex [OF inv] inv_count [OF inv] assms(4,5) by (auto split: if_splits)
  show ?thesis
    by (rule lock_inv_upd [OF inv, where A = "{i}"])
      (use assms(2-) free inv_rep [OF inv] in \<open>auto simp: part_inv_def\<close>)
qed

lemma inv_enqueue:
  assumes inv: "lock_inv N G s ph ws ow un" and "i < N" and "ph i = Idle" and "\<not> lk_mutex s" and "lk_lock s \<noteq> 0"
    and "ll_rep (lk_pending s') (i # ws)" and "lk_lock s' = lk_lock s + 1" and "lk_mutex s' = lk_mutex s"
    and "\<And>j. j \<noteq> i \<Longrightarrow> lk_wait s' j = lk_wait s j" and "\<not> w_resumed (lk_wait s' i)"
    and "w_fun (lk_wait s' i) \<noteq> Some TryLock" and "w_alive (lk_wait s' i)"
  shows "lock_inv N G s' (ph(i := Waiting)) (i # ws) ow un"
proof -
  have un: "un = None" using inv_mutex [OF inv] assms(4) by simp
  have ow: "ow \<noteq> Some i" using inv_owns [OF inv, of i] assms(3) by (simp add: owns_def)
  have "ow = None \<Longrightarrow> G" using inv_free [OF inv] inv_count [OF inv] assms(5) by auto
  then show ?thesis
    by (intro lock_inv_upd [OF inv, where A = "{i}"])
      (use assms(2-) un ow inv_count [OF inv] in \<open>auto simp: part_inv_def\<close>)
qed

lemma inv_continue:
  assumes inv: "lock_inv N G s ph ws (Some i) un" and "lk_pending s' = lk_pending s" and "lk_lock s' = lk_lock s"
    and "lk_mutex s' = lk_mutex s" and "\<And>j. j \<noteq> i \<Longrightarrow> lk_wait s' j = lk_wait s j" and "\<not> w_lock (lk_wait s' i)"
  shows "lock_inv N G s' (ph(i := Holding)) ws (Some i) un"
  by (rule lock_inv_upd [OF inv, where A = "{i}"])
    (use assms(2-) inv_rep [OF inv] inv_mutex [OF inv] inv_count [OF inv] inv_part [OF inv, of i]
      in \<open>auto simp: part_inv_def\<close>)

text \<open>A waiter leaves, and an owner that was only woken gives the lock up (runs with \<open>G\<close>).\<close>

lemma inv_cancel:
  assumes inv: "lock_inv N G s ph ws ow un" and "i \<in> set ws" and "\<not> lk_mutex s"
    and "ll_rep (lk_pending s') (remove1 i ws)" and "lk_lock s' = lk_lock s - 1" and "lk_mutex s' = lk_mutex s"
    and "\<And>j. j \<noteq> i \<Longrightarrow> lk_wait s' j = lk_wait s j" and "\<not> w_lock (lk_wait s' i)"
  shows "lock_inv N G s' (ph(i := Idle)) (remove1 i ws) ow un"
proof -
  have un: "un = None" using inv_mutex [OF inv] assms(3) by simp
  have d: "distinct ws" using inv_rep [OF inv] un by (simp add: ll_rep_def ll_links_def)
  have ow: "ow \<noteq> Some i" using inv_part [OF inv, of i] assms(2) by (auto simp: part_inv_def)
  have len: "int (length (remove1 i ws)) = int (length ws) - 1"
    using assms(2) length_pos_if_in_set [OF assms(2)] by (simp add: length_remove1 of_nat_diff Suc_le_eq)
  have "ow = None \<Longrightarrow> G \<or> remove1 i ws = []" using inv_free [OF inv] by auto
  then show ?thesis
    by (intro lock_inv_upd [OF inv, where A = "{i}"])
      (use assms(2-) un ow d len inv_count [OF inv] in \<open>auto simp: part_inv_def\<close>)
qed

lemma inv_give_up:
  assumes inv: "lock_inv N True s ph ws (Some i) un" and "\<not> lk_mutex s"
    and "lk_pending s' = lk_pending s" and "lk_lock s' = lk_lock s - 1" and "lk_mutex s' = lk_mutex s"
    and "\<And>j. j \<noteq> i \<Longrightarrow> lk_wait s' j = lk_wait s j" and "\<not> w_lock (lk_wait s' i)"
  shows "lock_inv N True s' (ph(i := Idle)) ws None un"
  by (rule lock_inv_upd [OF inv, where A = "{i}"])
    (use assms(2-) inv_rep [OF inv] inv_mutex [OF inv] inv_count [OF inv] inv_part [OF inv, of i]
      in \<open>auto simp: part_inv_def\<close>)

lemma inv_destroy:
  assumes inv: "lock_inv N G s ph ws ow un" and "ph i = Idle \<or> ph i = Holding"
    and "async_lock_destroy i s = Some s'"
  shows "lock_inv N G s' ph ws ow un"
proof -
  have "\<not> w_lock (lk_wait s i)" "i \<notin> set ws" using inv_part [OF inv, of i] assms(2) by (auto simp: part_inv_def)
  then have s': "s' = upd_wait i (\<lambda>w. w\<lparr>w_fun := None, w_alive := False\<rparr>) s"
    using assms(3) by (auto simp: async_lock_destroy_def async_lock_finalize_def upd_wait_def)
  have "part_inv N ws ow un i (lk_wait s' i) (ph i)"
    using inv_part [OF inv, of i] assms(2) by (auto simp: part_inv_def s' upd_wait_def)
  then show ?thesis
    by (intro lock_inv_upd [OF inv, where A = "{i}"])
      (use inv_rep [OF inv] inv_mutex [OF inv] inv_count [OF inv] inv_free [OF inv] inv_unlocking [OF inv]
        in \<open>simp_all add: s' upd_wait_def\<close>)
qed

lemma unlock_begin_inv:
  assumes inv: "lock_inv N G s ph ws (Some i) un" and "ph i = Holding" and "\<not> lk_mutex s"
  shows "\<exists>s'. unlock_begin s = Some s' \<and>
    (if ws = [] then lock_inv N G s' (ph(i := Idle)) [] None None
     else lock_inv N G s' (ph(i := Unlocking)) (tl ws) (Some (hd ws)) (Some i))"
proof (cases ws)
  case Nil
  then have "unlock_begin s = Some (s\<lparr>lk_lock := 0\<rparr>)" using inv_count [OF inv] by (simp add: unlock_begin_def Let_def)
  moreover have "lock_inv N G (s\<lparr>lk_lock := 0\<rparr>) (ph(i := Idle)) [] None None"
    by (rule lock_inv_upd [OF inv, where A = "{i}"])
      (use assms(2,3) Nil inv_rep [OF inv] inv_mutex [OF inv] inv_part [OF inv, of i] in \<open>auto simp: part_inv_def\<close>)
  ultimately show ?thesis using Nil by simp
next
  case (Cons k us)
  have un: "un = None" using inv_mutex [OF inv] assms(3) by simp
  have rep: "ll_rep (lk_pending s) (k # us)" and n: "lk_lock s = int (length us) + 2"
    using inv_rep [OF inv] inv_count [OF inv] Cons un by auto
  have k: "ph k = Waiting" "w_alive (lk_wait s k)" "k \<notin> set us"
    using inv_part [OF inv, of k] rep Cons by (auto simp: part_inv_def ll_rep_def ll_links_def)
  let ?s = "(lock_wake k (s\<lparr>lk_lock := lk_lock s - 1\<rparr>))\<lparr>lk_mutex := True\<rparr>"
  have "ll_front (lk_pending s) = Node k" using rep by (simp add: ll_front_def ll_rep_def)
  then have "unlock_begin s = Some ?s" using n k by (simp add: unlock_begin_def Let_def)
  moreover have "lock_inv N G ?s (ph(i := Unlocking)) us (Some k) (Some i)"
    by (rule lock_inv_upd [OF inv, where A = "{i, k}"])
      (use assms(2) Cons un n k rep inv_part [OF inv, of i] inv_part [OF inv, of k]
        in \<open>auto simp: part_inv_def lock_wake_def upd_wait_def\<close>)
  ultimately show ?thesis using Cons by simp
qed

lemma unlock_end_inv:
  assumes inv: "lock_inv N G s ph ws ow (Some i)"
  shows "\<exists>k. ow = Some k \<and> ll_front (lk_pending s) = Node k \<and>
    (if w_alive (lk_wait s k) then \<exists>s'. unlock_end s = Some s' \<and> lock_inv N G s' (ph(i := Idle)) ws ow None
     else unlock_end s = None)"
proof -
  obtain k where k: "ow = Some k" using inv_unlocking [OF inv] by auto
  have rep: "ll_rep (lk_pending s) (k # ws)" using inv_rep [OF inv] k by simp
  have front: "ll_front (lk_pending s) = Node k" using rep by (simp add: ll_front_def ll_rep_def)
  obtain l where l: "pop_front (lk_pending s) = Some (Successful, l)" "ll_rep l ws"
    using pop_front_rep [OF rep] by blast
  have "lock_inv N G (s\<lparr>lk_pending := l, lk_mutex := False\<rparr>) (ph(i := Idle)) ws ow None"
    by (rule lock_inv_upd [OF inv, where A = "{i}"])
      (use l k inv_count [OF inv] inv_part [OF inv, of i] in \<open>auto simp: part_inv_def\<close>)
  then show ?thesis using k front l by (simp add: unlock_end_def)
qed

text \<open>The awaitable calls \<^verbatim>\<open>try_lock\<close> in its first poll; whoever starts to wait is not in the list.\<close>

lemma async_first_poll:
  "async_lock_poll i (async_lock_call i s) = Some (try_lock i (async_lock_call i s))"
  by (simp add: async_lock_poll_def async_lock_call_def upd_wait_def)

lemma enqueue_step:
  assumes inv: "lock_inv N G s ph ws ow un" and "N < size_max" and "i < N" and "ph i = Idle" and "\<not> lk_mutex s"
  obtains l where "push_front i (lk_pending s) = (Successful, l)" and "ll_rep l (i # ws)"
proof -
  have un: "un = None" using inv_mutex [OF inv] assms(5) by simp
  then have rep: "ll_rep (lk_pending s) ws" using inv_rep [OF inv] by simp
  have new: "i \<notin> set ws" using inv_waiter [OF inv] assms(4) by simp
  have "distinct (i # ws)" using new rep by (simp add: ll_rep_def ll_links_def)
  moreover have "set (i # ws) \<subseteq> {..<N}" using inv_bound [OF inv] assms(3) by auto
  ultimately have "Suc (length ws) \<le> N"
    by (metis card_lessThan card_mono distinct_card finite_lessThan length_Cons)
  then have "fst (push_front i (lk_pending s)) = Successful \<and> ll_rep (snd (push_front i (lk_pending s))) (i # ws)"
    using push_front_rep [OF rep new] assms(2) by simp
  then show ?thesis using that [of "snd (push_front i (lk_pending s))"] by (metis prod.collapse)
qed

lemmas try_lock_defs = try_lock_def async_lock_call_def upd_wait_def Let_def

lemma lock_step_inv:
  assumes "lock_step N G (s, ph) (s', ph')" and inv: "lock_inv N G s ph ws ow un" and "N < size_max"
  shows "\<exists>ws' ow' un'. lock_inv N G s' ph' ws' ow' un'"
  using assms(1)
proof (cases rule: lock_step.cases)
  case (ThreadAcquire i)
  then have n: "lk_lock s = 0" "s' = s\<lparr>lk_lock := 1\<rparr>" by (auto simp: thread_lock_def Let_def split: if_splits)
  have "\<not> w_lock (lk_wait s i)" using inv_part [OF inv, of i] ThreadAcquire by (simp add: part_inv_def)
  then have "lock_inv N G s' (ph(i := Holding)) [] (Some i) None"
    by (intro inv_acquire [OF inv]) (use ThreadAcquire n in simp_all)
  then show ?thesis using ThreadAcquire by blast
next
  case (ThreadWait i)
  obtain l where l: "push_front i (lk_pending s) = (Successful, l)" "ll_rep l (i # ws)"
    using enqueue_step [OF inv assms(3)] ThreadWait by metis
  have n: "lk_lock s \<noteq> 0" using ThreadWait by (auto simp: thread_lock_def Let_def)
  then have s': "s' = (upd_wait i (\<lambda>w. idle_waiter\<lparr>w_alive := True\<rparr>) (s\<lparr>lk_lock := lk_lock s + 1\<rparr>))\<lparr>lk_pending := l\<rparr>"
    using ThreadWait l by (auto simp: thread_lock_def Let_def)
  have "lock_inv N G s' (ph(i := Waiting)) (i # ws) ow un"
    by (rule inv_enqueue [OF inv]) (use ThreadWait n l in \<open>simp_all add: s' upd_wait_def idle_waiter_def\<close>)
  then show ?thesis using ThreadWait by blast
next
  case (ThreadContinue i)
  then have ow: "ow = Some i" and s': "s' = upd_wait i (\<lambda>w. idle_waiter) s"
    using inv_owns [OF inv, of i] by (auto simp: thread_sleep_def owns_def split: if_splits)
  have "lock_inv N G s' (ph(i := Holding)) ws (Some i) un"
    by (rule inv_continue [OF inv [unfolded ow]]) (simp_all add: s' upd_wait_def idle_waiter_def)
  then show ?thesis using ThreadContinue by blast
next
  case (AsyncAcquire i)
  then have t: "try_lock i (async_lock_call i s) = (LockReturn, s')" by (simp add: async_first_poll)
  then have n: "lk_lock s = 0"
    by (auto simp: try_lock_defs split: if_splits prod.splits SuccessfulFailed.splits)
  have "lock_inv N G s' (ph(i := Holding)) [] (Some i) None"
    by (rule inv_acquire [OF inv]) (use AsyncAcquire t n in \<open>auto simp: try_lock_defs\<close>)
  then show ?thesis using AsyncAcquire by blast
next
  case (AsyncWait i)
  then have t: "try_lock i (async_lock_call i s) = (LockSuspend, s')" by (simp add: async_first_poll)
  then have n: "lk_lock s \<noteq> 0" by (auto simp: try_lock_defs)
  obtain l where l: "push_front i (lk_pending s) = (Successful, l)" "ll_rep l (i # ws)"
    using enqueue_step [OF inv assms(3)] AsyncWait by metis
  have "lock_inv N G s' (ph(i := Waiting)) (i # ws) ow un"
    by (rule inv_enqueue [OF inv]) (use AsyncWait t n l in \<open>auto simp: try_lock_defs\<close>)
  then show ?thesis using AsyncWait by blast
next
  case (AsyncThrow i e)
  obtain l where l: "push_front i (lk_pending s) = (Successful, l)"
    using enqueue_step [OF inv assms(3)] AsyncThrow by metis
  then have "fst (try_lock i (async_lock_call i s)) \<noteq> LockThrow e" by (auto simp: try_lock_defs)
  then show ?thesis using AsyncThrow by (simp add: async_first_poll)
next
  case (AsyncContinue i)
  then have ow: "ow = Some i" using inv_owns [OF inv, of i] by (auto simp: owns_def)
  have "w_fun (lk_wait s i) \<noteq> Some TryLock" using inv_part [OF inv, of i] AsyncContinue by (simp add: part_inv_def)
  then have s': "s' = upd_wait i (\<lambda>w. w\<lparr>w_lock := False\<rparr>) s"
    using AsyncContinue by (auto simp: async_lock_poll_def locked_def split: option.splits lock_fun.splits)
  have "lock_inv N G s' (ph(i := Holding)) ws (Some i) un"
    by (rule inv_continue [OF inv [unfolded ow]]) (simp_all add: s' upd_wait_def)
  then show ?thesis using AsyncContinue by blast
next
  case (AsyncCancel i)
  have rep: "ll_rep (lk_pending s) ws" using inv_rep [OF inv] inv_mutex [OF inv] AsyncCancel by simp
  show ?thesis
  proof (cases "w_resumed (lk_wait s i)")
    case True
    then have ow: "ow = Some i" "i \<notin> set ws" and G
      using inv_owns [OF inv, of i] inv_waiter [OF inv, of i] AsyncCancel by (auto simp: owns_def)
    then have s': "s' = upd_wait i (\<lambda>w. w\<lparr>w_lock := False, w_fun := None\<rparr>) (s\<lparr>lk_lock := lk_lock s - 1\<rparr>)"
      using AsyncCancel erase_Failed [OF ll_rep_links [OF rep]] by (auto simp: async_lock_finalize_def)
    have "lock_inv N True s' (ph(i := Idle)) ws None un"
      by (rule inv_give_up) (use inv ow \<open>G\<close> AsyncCancel in \<open>simp_all add: s' upd_wait_def\<close>)
    then show ?thesis using AsyncCancel \<open>G\<close> by auto
  next
    case False
    then have w: "i \<in> set ws" using inv_waiter [OF inv] AsyncCancel by simp
    then obtain as bs where ws: "ws = as @ i # bs" "i \<notin> set as" by (meson split_list_first)
    then obtain l where l: "erase (Node i) (lk_pending s) = Some (Successful, l)" "ll_rep l (as @ bs)"
      using erase_rep [of "lk_pending s" as i bs] rep by auto
    have "lock_inv N G s' (ph(i := Idle)) (remove1 i ws) ow un"
      by (rule inv_cancel [OF inv w])
        (use AsyncCancel l ws in \<open>auto simp: async_lock_finalize_def upd_wait_def remove1_append\<close>)
    then show ?thesis using AsyncCancel by blast
  qed
next
  case (AsyncDestroy i)
  then show ?thesis using inv_destroy [OF inv] by blast
next
  case (UnlockFree i)
  then have ow: "ow = Some i" using inv_owns [OF inv, of i] by (simp add: owns_def)
  show ?thesis
    using unlock_begin_inv [OF inv [unfolded ow]] UnlockFree
      inv_mutex [of N G s' "ph(i := Unlocking)" "tl ws" "Some (hd ws)" "Some i"] by (auto split: if_splits)
next
  case (UnlockWake i)
  then have ow: "ow = Some i" using inv_owns [OF inv, of i] by (simp add: owns_def)
  show ?thesis
    using unlock_begin_inv [OF inv [unfolded ow]] UnlockWake
      inv_mutex [of N G s' "ph(i := Idle)" "[]" None None] by (auto split: if_splits)
next
  case (UnlockPop i)
  then have "un = Some i" using inv_un [OF inv, of i] by simp
  then show ?thesis using unlock_end_inv [of N G s ph ws ow i] inv UnlockPop by (auto split: if_splits)
qed

lemma lock_reachable_inv:
  assumes "lock_reachable N G c" and "N < size_max"
  shows "\<exists>ws ow un. lock_inv N G (fst c) (snd c) ws ow un"
  using assms(1)
proof induction
  case Start
  have "lock_inv N G lock_new (\<lambda>_. Idle) [] None None"
    using ll_new_rep by (simp add: lock_inv_def part_inv_def lock_new_def idle_waiter_def)
  then show ?case by auto
next
  case (Step c c')
  then show ?case using lock_step_inv [of N G "fst c" "snd c" "fst c'" "snd c'"] assms(2) by auto
qed


text \<open>A run: participant 0 enters, thread 1 and awaitable 2 wait, 0 unlocks and 2 is woken.\<close>

definition run1 :: lock_state where "run1 = snd (thread_lock 0 lock_new)"
definition run2 :: lock_state where "run2 = snd (thread_lock 1 run1)"
definition run3 :: lock_state where "run3 = snd (try_lock 2 (async_lock_call 2 run2))"
definition run4 :: lock_state where "run4 = the (unlock_begin run3)"
definition run5 :: lock_state where "run5 = the (unlock_end run4)"

lemmas run_defs = run1_def run2_def run3_def run4_def run5_def thread_lock_def lock_new_def try_lock_def
  async_lock_call_def unlock_begin_def unlock_end_def lock_wake_def upd_wait_def idle_waiter_def push_front_def
  pop_front_def erase_def ll_front_def ll_new_def add64_def sub64_def Let_def

lemma run_reachable:
  "lock_reachable 3 G (run2, (\<lambda>_. Idle)(0 := Holding, 1 := Waiting))"
  "lock_reachable 3 G (run3, (\<lambda>_. Idle)(0 := Holding, 1 := Waiting, 2 := Waiting))"
  "lock_reachable 3 G (run4, (\<lambda>_. Idle)(0 := Unlocking, 1 := Waiting, 2 := Waiting))"
  "lock_reachable 3 G (run5, (\<lambda>_. Idle)(0 := Idle, 1 := Waiting, 2 := Waiting))"
proof -
  let ?ph = "(\<lambda>_. Idle)(0 := Holding, 1 := Waiting, 2 := Waiting)"
  have "lock_reachable 3 G (run1, (\<lambda>_. Idle)(0 := Holding))"
    by (rule lock_reachable.Step [OF lock_reachable.Start], rule lock_step.ThreadAcquire) (simp_all add: run_defs)
  then show 1: "lock_reachable 3 G (run2, (\<lambda>_. Idle)(0 := Holding, 1 := Waiting))"
    by (rule lock_reachable.Step, intro lock_step.ThreadWait) (simp_all add: run_defs)
  then show 2: "lock_reachable 3 G (run3, ?ph)"
    by (rule lock_reachable.Step, intro lock_step.AsyncWait) (simp_all add: async_first_poll, simp_all add: run_defs)
  have "lock_step 3 G (run3, ?ph) (run4, ?ph(0 := Unlocking))"
    by (intro lock_step.UnlockWake) (simp_all add: run_defs)
  then show 3: "lock_reachable 3 G (run4, (\<lambda>_. Idle)(0 := Unlocking, 1 := Waiting, 2 := Waiting))"
    using lock_reachable.Step [OF 2] by (simp add: fun_upd_twist)
  have "lock_step 3 G (run4, ?ph(0 := Unlocking)) (run5, ?ph(0 := Unlocking, 0 := Idle))"
    by (intro lock_step.UnlockPop) (simp_all add: run_defs)
  then show "lock_reachable 3 G (run5, (\<lambda>_. Idle)(0 := Idle, 1 := Waiting, 2 := Waiting))"
    using lock_reachable.Step [OF 3] by (simp add: fun_upd_twist)
qed


text \<open>
  \<^verbatim>\<open>unlock\<close> wakes a thread before it takes the node of the thread out of the list. If the thread
  returns from \<^verbatim>\<open>lock\<close> first, its \<^verbatim>\<open>ThreadWake\<close> is gone, and \<^verbatim>\<open>pop_front\<close> uses it.
\<close>

theorem unlock_races_with_woken_thread:
  "\<exists>s ph. lock_reachable 3 False (s, ph) \<and> ph 0 = Unlocking \<and> ph 1 = Holding \<and> unlock_end s = None"
proof -
  let ?ph = "(\<lambda>_. Idle)(0 := Holding, 1 := Waiting)"
  let ?s = "the (unlock_begin run2)" and ?t = "the (thread_sleep 1 (the (unlock_begin run2)))"
  have "lock_step 3 False (run2, ?ph) (?s, ?ph(0 := Unlocking))"
    by (intro lock_step.UnlockWake) (simp_all add: run_defs)
  then have r: "lock_reachable 3 False (?s, ?ph(0 := Unlocking))"
    using lock_reachable.Step [OF run_reachable(1)] by blast
  have "lock_step 3 False (?s, ?ph(0 := Unlocking)) (?t, ?ph(0 := Unlocking, 1 := Holding))"
    by (intro lock_step.ThreadContinue) (simp_all add: run_defs thread_sleep_def)
  then have "lock_reachable 3 False (?t, ?ph(0 := Unlocking, 1 := Holding))"
    using lock_reachable.Step [OF r] by blast
  moreover have "unlock_end ?t = None" by (simp add: run_defs thread_sleep_def)
  ultimately show ?thesis by fastforce
qed

text \<open>
  Cancelling an awaitable that was already woken loses the lock. The unlock handed the lock over
  to it; its \<^verbatim>\<open>async_finalize\<close> gives the lock up without waking anybody, so nobody owns the lock,
  the other waiters stay in the list, and everybody who comes later waits as well.
\<close>

theorem cancelled_grant_strands_waiters:
  assumes "lock_reachable N G (s, ph)" and "N < size_max" and "ph i = Waiting" and "w_resumed (lk_wait s i)"
    and "w_lock (lk_wait s i)" and "\<not> lk_mutex s" and "j \<noteq> i" and "ph j = Waiting"
  shows "\<exists>s'. async_lock_finalize i s = Some s' \<and> (\<forall>k. \<not> owns s' (ph(i := Idle)) k) \<and>
    is_inserted j (lk_pending s') \<and> (\<forall>k. \<not> fst (thread_lock k s') \<and> fst (try_lock k s') \<noteq> LockReturn)"
proof -
  obtain ws ow un where inv: "lock_inv N G s ph ws ow un" using lock_reachable_inv [OF assms(1,2)] by auto
  have ow: "ow = Some i" using inv_owns [OF inv, of i] assms(3,4) by (simp add: owns_def)
  have i: "i \<notin> set ws" using inv_waiter [OF inv, of i] assms(4) by simp
  have "\<not> owns s ph j" using inv_owns [OF inv, of j] ow assms(7) by auto
  then have j: "j \<in> set ws" using inv_waiter [OF inv, of j] assms(8) by (simp add: owns_def)
  have links: "ll_links (lk_pending s) ws"
    using inv_rep [OF inv] inv_mutex [OF inv] assms(6) by (simp add: ll_rep_links)
  let ?s = "upd_wait i (\<lambda>w. w\<lparr>w_lock := False, w_fun := None\<rparr>) (s\<lparr>lk_lock := lk_lock s - 1\<rparr>)"
  have fin: "async_lock_finalize i s = Some ?s"
    using assms(5) erase_Failed [OF links i] by (simp add: async_lock_finalize_def)
  have "\<not> owns ?s (ph(i := Idle)) k" for k
    using inv_owns [OF inv, of k] ow by (auto simp: owns_def upd_wait_def)
  moreover have "is_inserted j (lk_pending ?s)"
    using is_inserted_iff [OF links] j by (simp add: upd_wait_def)
  moreover have "lk_lock ?s \<noteq> 0" using inv_count [OF inv] ow j by (auto simp: upd_wait_def)
  then have "\<not> fst (thread_lock k ?s) \<and> fst (try_lock k ?s) \<noteq> LockReturn" for k
    by (auto simp: thread_lock_def try_lock_def Let_def split: prod.splits SuccessfulFailed.splits)
  ultimately show ?thesis using fin by blast
qed

theorem cancelled_grant_strands_waiters_witness:
  "\<exists>s'. async_lock_finalize 2 run5 = Some s' \<and> is_inserted 1 (lk_pending s') \<and> \<not> fst (thread_lock 0 s')"
proof -
  have "w_resumed (lk_wait run5 2)" "w_lock (lk_wait run5 2)" "\<not> lk_mutex run5" by (simp_all add: run_defs)
  then show ?thesis
    using cancelled_grant_strands_waiters [OF run_reachable(4) [of True], of 2 1] by auto
qed

end
