(* ===== verification/Jinx_Pointer.thy ===== *)
theory Jinx_Pointer
  imports Jinx_Prelude "HOL-Library.Monad_Syntax"
begin

text \<open>
  The intrusive shared pointer and the destructor guard (\<^verbatim>\<open>include/jinx/pointer.hpp\<close>).

  Objects and pointer variables are numbers. The heap gives the reference count an object carries,
  \<open>None\<close> once it was released; \<open>ps_released\<close> logs the calls of \<^verbatim>\<open>release\<close>. The result \<open>None\<close> is
  \<^verbatim>\<open>error::fatal\<close> or an access to a released object. The hook that some types run when a single
  reference is left is not part of the state of the pointer.
\<close>

section \<open>Shared pointers\<close>

record pointers =
  ps_heap :: "nat \<Rightarrow> int option"
  ps_ptr :: "nat \<Rightarrow> nat option"
  ps_released :: "nat list"

definition set_ptr :: "nat \<Rightarrow> nat option \<Rightarrow> pointers \<Rightarrow> pointers" where
  "set_ptr x v s = s\<lparr>ps_ptr := (ps_ptr s)(x := v)\<rparr>"

definition ps_unref :: "nat \<Rightarrow> pointers \<Rightarrow> pointers option" where
  "ps_unref x s =
     (case ps_ptr s x of
        None \<Rightarrow> Some s
      | Some ob \<Rightarrow>
          do { refc \<leftarrow> ps_heap s ob;
               let s1 = s\<lparr>ps_heap := (ps_heap s)(ob \<mapsto> refc - 1)\<rparr>;
               if refc = 1
               then Some ((set_ptr x None s1)\<lparr>ps_heap := (ps_heap s)(ob := None),
                                              ps_released := ps_released s @ [ob]\<rparr>)
               else if refc = 0 then None
               else Some s1 })"

definition ps_ref :: "nat \<Rightarrow> pointers \<Rightarrow> pointers option" where
  "ps_ref x s =
     (case ps_ptr s x of
        None \<Rightarrow> Some s
      | Some ob \<Rightarrow>
          do { refc \<leftarrow> ps_heap s ob;
               if refc \<le> 0 then None else Some (s\<lparr>ps_heap := (ps_heap s)(ob \<mapsto> refc + 1)\<rparr>) })"

text \<open>The constructors give a variable its first value, the assignments replace one.\<close>

definition ps_default :: "nat \<Rightarrow> pointers \<Rightarrow> pointers" where
  "ps_default x s = set_ptr x None s"

definition ps_adopt :: "nat \<Rightarrow> nat option \<Rightarrow> pointers \<Rightarrow> pointers" where
  "ps_adopt x p s = set_ptr x p s"

definition ps_move :: "nat \<Rightarrow> nat \<Rightarrow> pointers \<Rightarrow> pointers" where
  "ps_move x y s = set_ptr y None (set_ptr x (ps_ptr s y) s)"

definition ps_move_assign :: "nat \<Rightarrow> nat \<Rightarrow> pointers \<Rightarrow> pointers option" where
  "ps_move_assign x y s =
     do { s1 \<leftarrow> ps_unref x s; Some (set_ptr y None (set_ptr x (ps_ptr s1 y) s1)) }"

definition ps_copy :: "nat \<Rightarrow> nat \<Rightarrow> pointers \<Rightarrow> pointers option" where
  "ps_copy x y s = ps_ref x (set_ptr x (ps_ptr s y) s)"

definition ps_copy_assign :: "nat \<Rightarrow> nat \<Rightarrow> pointers \<Rightarrow> pointers option" where
  "ps_copy_assign x y s = do { s1 \<leftarrow> ps_unref x s; ps_ref x (set_ptr x (ps_ptr s1 y) s1) }"

text \<open>The destructor: afterwards the variable does not exist, which is the null value here.\<close>

definition ps_destroy :: "nat \<Rightarrow> pointers \<Rightarrow> pointers option" where
  "ps_destroy x s = map_option (set_ptr x None) (ps_unref x s)"

definition shared_from_this :: "nat \<Rightarrow> nat \<Rightarrow> pointers \<Rightarrow> pointers option" where
  "shared_from_this x ob s = ps_ref x (set_ptr x (Some ob) s)"

definition ps_release :: "nat \<Rightarrow> pointers \<Rightarrow> nat option \<times> pointers" where
  "ps_release x s = (ps_ptr s x, set_ptr x None s)"

definition ps_reset :: "nat \<Rightarrow> nat option \<Rightarrow> pointers \<Rightarrow> pointers option" where
  "ps_reset x p s = map_option (set_ptr x p) (ps_unref x s)"

definition ps_replace :: "nat \<Rightarrow> nat option \<Rightarrow> pointers \<Rightarrow> pointers" where
  "ps_replace x p s = set_ptr x p s"

definition ps_eq :: "nat \<Rightarrow> nat \<Rightarrow> pointers \<Rightarrow> bool" where
  "ps_eq x y s \<longleftrightarrow> ps_ptr s x = ps_ptr s y"

section \<open>The destructor guard\<close>

text \<open>\<open>ad_ptr\<close> are the guards, \<open>ad_log\<close> the destructor calls they made.\<close>

record guards =
  ad_ptr :: "nat \<Rightarrow> nat option"
  ad_log :: "nat list"

definition ad_reset :: "nat \<Rightarrow> nat option \<Rightarrow> guards \<Rightarrow> guards" where
  "ad_reset x p s =
     s\<lparr>ad_log := (case ad_ptr s x of None \<Rightarrow> ad_log s | Some ob \<Rightarrow> ad_log s @ [ob]),
       ad_ptr := (ad_ptr s)(x := p)\<rparr>"

definition ad_move :: "nat \<Rightarrow> nat \<Rightarrow> guards \<Rightarrow> guards" where
  "ad_move x y s = s\<lparr>ad_ptr := (ad_ptr s)(x := ad_ptr s y, y := None)\<rparr>"

text \<open>The move assignment without its missing return statement.\<close>

definition ad_move_assign :: "nat \<Rightarrow> nat \<Rightarrow> guards \<Rightarrow> guards" where
  "ad_move_assign x y s = (let s1 = ad_reset x (ad_ptr s y) s in s1\<lparr>ad_ptr := (ad_ptr s1)(y := None)\<rparr>)"

definition ad_destroy :: "nat \<Rightarrow> guards \<Rightarrow> guards" where
  "ad_destroy x s = ad_reset x None s"

definition ad_replace :: "nat \<Rightarrow> nat option \<Rightarrow> guards \<Rightarrow> guards" where
  "ad_replace x p s = s\<lparr>ad_ptr := (ad_ptr s)(x := p)\<rparr>"

section \<open>Reference counts\<close>

text \<open>
  The owners of an object are the variables that point to it and the raw references outside
  (\<open>raw\<close>), which \<^verbatim>\<open>release\<close> gives out and the adopting operations take back. \<open>F\<close> is a finite set of
  variables that contains the non-null ones.
\<close>

definition owners :: "nat set \<Rightarrow> pointers \<Rightarrow> nat \<Rightarrow> nat" where
  "owners F s ob = card {x \<in> F. ps_ptr s x = Some ob}"

definition counted :: "nat \<Rightarrow> int option" where
  "counted n = (if n = 0 then None else Some (int n))"

definition ps_inv :: "nat set \<Rightarrow> (nat \<Rightarrow> nat) \<Rightarrow> pointers \<Rightarrow> bool" where
  "ps_inv F raw s \<longleftrightarrow> finite F \<and> (\<forall>x. ps_ptr s x \<noteq> None \<longrightarrow> x \<in> F) \<and>
     (\<forall>ob. ps_heap s ob = counted (owners F s ob + raw ob))"

lemma owners_set:
  assumes "finite F" and "x \<in> F"
  shows "owners F (set_ptr x v s) ob + (if ps_ptr s x = Some ob then 1 else 0) =
    owners F s ob + (if v = Some ob then 1 else 0)"
proof -
  define A where "A = {z \<in> F. z \<noteq> x \<and> ps_ptr s z = Some ob}"
  have A: "finite A" "x \<notin> A" using assms(1) by (auto simp: A_def)
  have "{z \<in> F. ps_ptr (set_ptr x v s) z = Some ob} = (if v = Some ob then insert x A else A)"
    using assms(2) by (auto simp: A_def set_ptr_def)
  moreover have "{z \<in> F. ps_ptr s z = Some ob} = (if ps_ptr s x = Some ob then insert x A else A)"
    using assms(2) by (auto simp: A_def)
  ultimately show ?thesis using A by (simp add: owners_def)
qed

lemma set_ptr_simps [simp]:
  "ps_heap (set_ptr x v s) = ps_heap s" "ps_released (set_ptr x v s) = ps_released s"
  "ps_ptr (set_ptr x v s) = (ps_ptr s)(x := v)" "set_ptr x v (set_ptr x w s) = set_ptr x v s"
  by (simp_all add: set_ptr_def)

lemma owners_heap: "ps_ptr s' = ps_ptr s \<Longrightarrow> owners F s' ob = owners F s ob"
  by (simp add: owners_def)

lemma ps_invD:
  assumes "ps_inv F raw s"
  shows inv_finite: "finite F" and inv_vars: "ps_ptr s x = Some ob \<Longrightarrow> x \<in> F"
    and inv_heap: "ps_heap s ob = counted (owners F s ob + raw ob)"
  using assms unfolding ps_inv_def by auto

lemma ps_invI:
  assumes "finite F" and "\<And>x. x \<notin> F \<Longrightarrow> ps_ptr s x = None"
    and "\<And>ob. ps_heap s ob = counted (owners F s ob + raw ob)"
  shows "ps_inv F raw s"
  using assms unfolding ps_inv_def by (metis)

lemma inv_null: "ps_inv F raw s \<Longrightarrow> x \<notin> F \<Longrightarrow> ps_ptr s x = None"
  by (auto simp: ps_inv_def)

lemma owners_pos: "ps_inv F raw s \<Longrightarrow> ps_ptr s x = Some ob \<Longrightarrow> 0 < owners F s ob"
  using inv_finite [of F raw s] inv_vars [of F raw s x ob] by (auto simp: owners_def card_gt_0_iff)

lemma ps_inv_alive: "ps_inv F raw s \<Longrightarrow> ps_ptr s x = Some ob \<Longrightarrow> ps_heap s ob = Some (int (owners F s ob + raw ob))"
  using owners_pos [of F raw s x ob] inv_heap [of F raw s ob] by (simp add: counted_def)

text \<open>
  Every operation first gives up the value of its target and then gives it a new one; these are the
  two halves.
\<close>

lemma unref_drop:
  assumes inv: "ps_inv F raw s" and x: "x \<in> F"
  shows "\<exists>s1. ps_unref x s = Some s1 \<and> ps_inv F raw (set_ptr x None s1) \<and> (\<forall>y. y \<noteq> x \<longrightarrow> ps_ptr s1 y = ps_ptr s y) \<and>
    (case ps_ptr s x of
       Some ob \<Rightarrow> if owners F s ob + raw ob = 1
         then ps_ptr s1 x = None \<and> ps_heap s1 = (ps_heap s)(ob := None) \<and> ps_released s1 = ps_released s @ [ob]
         else ps_ptr s1 x = Some ob \<and> ps_heap s1 = (ps_heap s)(ob \<mapsto> int (owners F s ob + raw ob) - 1) \<and>
              ps_released s1 = ps_released s
     | None \<Rightarrow> s1 = s)"
proof (cases "ps_ptr s x")
  case None
  then have "set_ptr x None s = s" by (simp add: set_ptr_def fun_upd_idem)
  then show ?thesis using None inv by (simp add: ps_unref_def)
next
  case (Some ob)
  let ?n = "owners F s ob + raw ob"
  have fin: "finite F" using inv by (simp add: ps_inv_def)
  have pos: "0 < owners F s ob" by (rule owners_pos [OF inv Some])
  have heap: "ps_heap s ob = Some (int ?n)" by (rule ps_inv_alive [OF inv Some])
  have cnt: "owners F (set_ptr x None s) b = owners F s b - (if b = ob then 1 else 0)" for b
    using owners_set [OF fin x, of None s b] Some by (auto split: if_splits)
  have inv': "ps_inv F raw s'" if p: "ps_ptr s' = (ps_ptr s)(x := None)"
      and h: "ps_heap s' = (ps_heap s)(ob := counted (?n - 1))" for s'
  proof (rule ps_invI)
    fix b
    have "owners F s' b = owners F s b - (if b = ob then 1 else 0)"
      using cnt [of b] owners_heap [of s' "set_ptr x None s" F b] p by simp
    then show "ps_heap s' b = counted (owners F s' b + raw b)"
      using inv_heap [OF inv, of b] pos h by simp
  qed (use fin p inv_null [OF inv] in auto)
  show ?thesis
  proof (cases "?n = 1")
    case True
    then show ?thesis using Some heap by (auto simp: ps_unref_def Let_def intro!: inv' simp: counted_def fun_eq_iff)
  next
    case False
    then show ?thesis using Some heap pos by (auto simp: ps_unref_def Let_def intro!: inv' simp: counted_def fun_eq_iff)
  qed
qed

lemma take_move:
  assumes inv: "ps_inv F raw s" and "x \<in> F" and "ps_ptr s x = None" and "y \<noteq> x"
  shows "ps_inv F raw (set_ptr y None (set_ptr x (ps_ptr s y) s))"
proof (cases "ps_ptr s y")
  case None
  then have "set_ptr y None (set_ptr x (ps_ptr s y) s) = s"
    using assms(3) by (auto simp: set_ptr_def fun_upd_idem)
  then show ?thesis using inv by simp
next
  case (Some ob)
  let ?s = "set_ptr y None (set_ptr x (ps_ptr s y) s)"
  have fin: "finite F" and y: "y \<in> F" using inv_finite [OF inv] inv_vars [OF inv Some] by auto
  have "owners F ?s b = owners F s b" for b
    using owners_set [OF fin assms(2), of "ps_ptr s y" s b] owners_set [OF fin y, of None "set_ptr x (ps_ptr s y) s" b]
      assms(3,4) by (auto split: if_splits)
  then show ?thesis
    using fin inv_null [OF inv] inv_heap [OF inv] assms(2) by (intro ps_invI) auto
qed

lemma take_copy:
  assumes inv: "ps_inv F raw s" and x: "x \<in> F" and "ps_ptr s x = None" and alive: "\<And>ob. p = Some ob \<Longrightarrow> ps_heap s ob \<noteq> None"
  shows "\<exists>s'. ps_ref x (set_ptr x p s) = Some s' \<and> ps_inv F raw s' \<and> ps_ptr s' = (ps_ptr s)(x := p) \<and>
    ps_released s' = ps_released s"
proof (cases p)
  case None
  then have "set_ptr x p s = s" using assms(3) by (simp add: set_ptr_def fun_upd_idem)
  then show ?thesis using inv None assms(3) by (simp add: ps_ref_def fun_upd_idem set_ptr_def)
next
  case (Some ob)
  have fin: "finite F" using inv_finite [OF inv] .
  let ?n = "owners F s ob + raw ob"
  have n: "ps_heap s ob = Some (int ?n)" "?n > 0"
    using alive [OF Some] inv_heap [OF inv, of ob] by (auto simp: counted_def split: if_splits)
  let ?s = "(set_ptr x p s)\<lparr>ps_heap := (ps_heap s)(ob \<mapsto> int ?n + 1)\<rparr>"
  have "ps_inv F raw ?s"
  proof (rule ps_invI)
    fix b
    have "owners F ?s b = owners F s b + (if b = ob then 1 else 0)"
      using owners_set [OF fin x, of p s b] owners_heap [of ?s "set_ptr x p s" F b] assms(3) Some by auto
    then show "ps_heap ?s b = counted (owners F ?s b + raw b)"
      using inv_heap [OF inv, of b] by (auto simp: counted_def)
  qed (use fin x inv_null [OF inv] in auto)
  then show ?thesis using n Some by (auto simp: ps_ref_def)
qed

text \<open>The object that is released when the variable \<open>x\<close> gives up its value.\<close>

definition last_owned :: "nat set \<Rightarrow> (nat \<Rightarrow> nat) \<Rightarrow> nat \<Rightarrow> pointers \<Rightarrow> nat list" where
  "last_owned F raw x s =
     (case ps_ptr s x of Some ob \<Rightarrow> if owners F s ob + raw ob = 1 then [ob] else [] | None \<Rightarrow> [])"

lemma unref_last_owned:
  assumes inv: "ps_inv F raw s" and x: "x \<in> F"
  obtains s1 where "ps_unref x s = Some s1" and "ps_inv F raw (set_ptr x None s1)"
    and "ps_released s1 = ps_released s @ last_owned F raw x s"
    and "ps_ptr s1 = (if last_owned F raw x s = [] then ps_ptr s else (ps_ptr s)(x := None))"
    and "\<And>ob. ps_ptr s1 x = Some ob \<Longrightarrow> ps_heap s1 ob \<noteq> None"
proof -
  obtain s1 where s1: "ps_unref x s = Some s1" "ps_inv F raw (set_ptr x None s1)"
      "\<forall>y. y \<noteq> x \<longrightarrow> ps_ptr s1 y = ps_ptr s y"
      "case ps_ptr s x of
         Some ob \<Rightarrow> if owners F s ob + raw ob = 1
           then ps_ptr s1 x = None \<and> ps_heap s1 = (ps_heap s)(ob := None) \<and> ps_released s1 = ps_released s @ [ob]
           else ps_ptr s1 x = Some ob \<and> ps_heap s1 = (ps_heap s)(ob \<mapsto> int (owners F s ob + raw ob) - 1) \<and>
                ps_released s1 = ps_released s
       | None \<Rightarrow> s1 = s"
    using unref_drop [OF inv x] by blast
  have "ps_ptr s1 = (if last_owned F raw x s = [] then ps_ptr s else (ps_ptr s)(x := None))"
  proof
    fix z
    show "ps_ptr s1 z = (if last_owned F raw x s = [] then ps_ptr s else (ps_ptr s)(x := None)) z"
      using s1(3,4) by (cases "z = x") (auto simp: last_owned_def split: option.splits if_splits)
  qed
  moreover have "ps_released s1 = ps_released s @ last_owned F raw x s"
    using s1(4) by (auto simp: last_owned_def split: option.splits if_splits)
  moreover have "ps_heap s1 ob \<noteq> None" if "ps_ptr s1 x = Some ob" for ob
    using s1(4) that by (auto split: option.splits if_splits)
  ultimately show ?thesis using that s1(1,2) by blast
qed

text \<open>
  C9. Shared pointers, with the count of every object equal to the number of its owners: destroying,
  copy-assigning and move-assigning (self-assignment included) and constructing a null variable
  by copy or move keep it so, end without a fatal error, and touch no released object; destroying
  or assigning to a pointer releases its object exactly if the pointer was the last owner. The
  target of an assignment then points to what the source pointed to, and a moved-from source is
  null, with one exception: copy-assigning the sole owner of an object to itself releases the
  object and leaves the pointer null.
\<close>

theorem shared_pointers_count_owners:
  assumes "ps_inv F raw s" and "x \<in> F" and "y \<in> F"
  shows "(\<exists>s'. ps_destroy x s = Some s' \<and> ps_inv F raw s' \<and> ps_ptr s' = (ps_ptr s)(x := None) \<and>
      ps_released s' = ps_released s @ last_owned F raw x s) \<and>
    (\<exists>s'. ps_copy_assign x y s = Some s' \<and> ps_inv F raw s' \<and>
      ps_ptr s' = (ps_ptr s)(x := if x = y \<and> last_owned F raw x s \<noteq> [] then None else ps_ptr s y) \<and>
      ps_released s' = ps_released s @ last_owned F raw x s) \<and>
    (\<exists>s'. ps_move_assign x y s = Some s' \<and> ps_inv F raw s' \<and>
      ps_ptr s' = (ps_ptr s)(x := ps_ptr s y, y := None) \<and>
      ps_released s' = ps_released s @ last_owned F raw x s) \<and>
    (ps_ptr s x = None \<longrightarrow> (\<exists>s'. ps_copy x y s = Some s' \<and> ps_inv F raw s' \<and> ps_ptr s' = (ps_ptr s)(x := ps_ptr s y) \<and>
      ps_released s' = ps_released s)) \<and>
    (ps_ptr s x = None \<and> x \<noteq> y \<longrightarrow> ps_inv F raw (ps_move x y s))"
proof (intro conjI impI)
  obtain s1 where s1: "ps_unref x s = Some s1" "ps_inv F raw (set_ptr x None s1)"
      "ps_released s1 = ps_released s @ last_owned F raw x s"
      "ps_ptr s1 = (if last_owned F raw x s = [] then ps_ptr s else (ps_ptr s)(x := None))"
      "\<And>ob. ps_ptr s1 x = Some ob \<Longrightarrow> ps_heap s1 ob \<noteq> None"
    using unref_last_owned [OF assms(1,2)] by blast
  let ?s = "set_ptr x None s1"
  have ptr: "(ps_ptr s1)(x := v) = (ps_ptr s)(x := v)" for v using s1(4) by auto
  show "\<exists>s'. ps_destroy x s = Some s' \<and> ps_inv F raw s' \<and> ps_ptr s' = (ps_ptr s)(x := None) \<and>
      ps_released s' = ps_released s @ last_owned F raw x s"
    using s1 ptr by (simp add: ps_destroy_def)
  have "ps_heap ?s ob \<noteq> None" if "ps_ptr s1 y = Some ob" for ob
    using ps_inv_alive [OF s1(2), of y ob] s1(5) that by (cases "x = y") auto
  then obtain s2 where s2: "ps_copy_assign x y s = Some s2" "ps_inv F raw s2" "ps_ptr s2 = (ps_ptr s)(x := ps_ptr s1 y)"
      "ps_released s2 = ps_released s1"
    using take_copy [OF s1(2) assms(2), of "ps_ptr s1 y"] s1(1) by (auto simp: ps_copy_assign_def ptr)
  show "\<exists>s'. ps_copy_assign x y s = Some s' \<and> ps_inv F raw s' \<and>
      ps_ptr s' = (ps_ptr s)(x := if x = y \<and> last_owned F raw x s \<noteq> [] then None else ps_ptr s y) \<and>
      ps_released s' = ps_released s @ last_owned F raw x s"
    using s2 s1(3,4) by auto
  have "ps_inv F raw (set_ptr y None (set_ptr x (ps_ptr s1 y) s1))"
    using take_move [OF s1(2) assms(2), of y] s1(2) by (cases "x = y") auto
  then show "\<exists>s'. ps_move_assign x y s = Some s' \<and> ps_inv F raw s' \<and> ps_ptr s' = (ps_ptr s)(x := ps_ptr s y, y := None) \<and>
      ps_released s' = ps_released s @ last_owned F raw x s"
    using s1(1,3,4) by (cases "x = y") (auto simp: ps_move_assign_def ptr)
  show "\<exists>s'. ps_copy x y s = Some s' \<and> ps_inv F raw s' \<and> ps_ptr s' = (ps_ptr s)(x := ps_ptr s y) \<and>
      ps_released s' = ps_released s"
    if "ps_ptr s x = None"
    using take_copy [OF assms(1,2) that, of "ps_ptr s y"] ps_inv_alive [OF assms(1), of y] by (auto simp: ps_copy_def)
  show "ps_inv F raw (ps_move x y s)" if "ps_ptr s x = None \<and> x \<noteq> y"
    using take_move [OF assms(1,2), of y] that by (simp add: ps_move_def)
qed

text \<open>A pointer 0 that is the only owner of object 7.\<close>

definition sole_owner :: pointers where
  "sole_owner = \<lparr>ps_heap = [7 \<mapsto> 1], ps_ptr = [0 \<mapsto> 7], ps_released = []\<rparr>"

lemma sole_owner_inv: "ps_inv {0, 1} (\<lambda>_. 0) sole_owner"
proof (rule ps_invI)
  fix ob
  have "{x \<in> {0, 1}. ps_ptr sole_owner x = Some ob} = (if ob = 7 then {0} else {})"
    by (auto simp: sole_owner_def)
  then show "ps_heap sole_owner ob = counted (owners {0, 1} sole_owner ob + 0)"
    by (simp add: owners_def counted_def sole_owner_def)
qed (auto simp: sole_owner_def)

theorem shared_pointers_count_owners_witness:
  "\<exists>s'. ps_copy_assign 1 0 sole_owner = Some s' \<and> ps_inv {0, 1} (\<lambda>_. 0) s' \<and> ps_ptr s' = [0 \<mapsto> 7, 1 \<mapsto> 7]"
proof -
  obtain s' where "ps_copy_assign 1 0 sole_owner = Some s'" "ps_inv {0, 1} (\<lambda>_. 0) s'"
      "ps_ptr s' = (ps_ptr sole_owner)(1 := ps_ptr sole_owner 0)"
    using shared_pointers_count_owners [OF sole_owner_inv, of 1 0] by auto
  then show ?thesis by (simp add: sole_owner_def)
qed

text \<open>
  Assigning a shared pointer to itself. The sole owner of an object loses it: the object is
  released and the pointer is null afterwards, because the old value is given up before the source
  is read. With other owners the assignment changes nothing.
\<close>

theorem self_assignment_releases:
  assumes "ps_inv F raw s" and "ps_ptr s x = Some ob"
  shows "\<exists>s'. ps_copy_assign x x s = Some s' \<and>
    (if owners F s ob + raw ob = 1
     then ps_ptr s' x = None \<and> ps_heap s' ob = None \<and> ps_released s' = ps_released s @ [ob]
     else ps_ptr s' = ps_ptr s \<and> ps_heap s' = ps_heap s \<and> ps_released s' = ps_released s)"
proof -
  have heap: "ps_heap s ob = Some (int (owners F s ob + raw ob))" by (rule ps_inv_alive [OF assms])
  show ?thesis
  proof (cases "owners F s ob + raw ob = 1")
    case True
    then show ?thesis using heap assms(2) by (simp add: ps_copy_assign_def ps_unref_def ps_ref_def)
  next
    case False
    then show ?thesis
      using heap assms(2) owners_pos [OF assms]
      by (simp add: ps_copy_assign_def ps_unref_def ps_ref_def Let_def set_ptr_def fun_upd_idem)
  qed
qed

theorem self_assignment_releases_witness:
  "\<exists>s'. ps_copy_assign 0 0 sole_owner = Some s' \<and> ps_ptr s' 0 = None \<and> ps_released s' = [7]"
proof -
  have "owners {0, 1} sole_owner 7 = 1"
  proof -
    have "{x \<in> {0, 1}. ps_ptr sole_owner x = Some 7} = {0}" by (auto simp: sole_owner_def)
    then show ?thesis by (simp add: owners_def)
  qed
  then show ?thesis
    using self_assignment_releases [OF sole_owner_inv, of 0 7] by (auto simp: sole_owner_def)
qed

end
