(* ===== verification/Jinx_Address.thy ===== *)
theory Jinx_Address
  imports Jinx_Prelude "HOL-Library.Monad_Syntax"
begin

text \<open>
  Socket addresses (\<^verbatim>\<open>SocketAddress\<close>, \<^verbatim>\<open>AddressChecker\<close> and \<^verbatim>\<open>AddressINet\<close> of \<^verbatim>\<open>include/jinx/posix.hpp\<close>, the
  operations of \<^verbatim>\<open>Socket\<close> in \<^verbatim>\<open>src/posix.cpp\<close> that fill one).

  A \<^verbatim>\<open>sockaddr_storage\<close> is its family and the 126 bytes behind it. \<^verbatim>\<open>sockaddr_in\<close> (16 bytes) has the port
  at offset 0 of them and the address at 2, \<^verbatim>\<open>sockaddr_in6\<close> (28 bytes) the port at 0 and the address at
  6; the port is stored in network order. \<open>pton\<close> is \<^verbatim>\<open>inet_pton\<close>: its result and the bytes it stores
  when the result is 1.
\<close>

unbundle bit_operations_syntax

section \<open>Data\<close>

datatype AddressStatus = AddressOk | InvalidAddress | UnsupportedAddressFamily

definition AF_UNSPEC :: nat where "AF_UNSPEC = 0"
definition AF_INET :: nat where "AF_INET = 2"
definition AF_INET6 :: nat where "AF_INET6 = 10"

lemmas families = AF_UNSPEC_def AF_INET_def AF_INET6_def

record SocketAddress =
  sa_family :: nat
  sa_data :: "8 word list"
  sa_size :: nat

definition sa_capacity :: nat where
  "sa_capacity = 128"

definition sa_reset :: "SocketAddress \<Rightarrow> SocketAddress" where
  "sa_reset a = a\<lparr>sa_data := replicate 126 0, sa_family := AF_UNSPEC, sa_size := 0\<rparr>"

definition sa_new :: SocketAddress where
  "sa_new = sa_reset \<lparr>sa_family = 0, sa_data = [], sa_size = 0\<rparr>"

text \<open>
  A checker points at an address until it is committed or discarded; \<open>ck_capacity\<close> is its own size.
\<close>

record AddressChecker =
  ck_addr :: bool
  ck_capacity :: nat

definition sa_buffer :: "SocketAddress \<Rightarrow> AddressChecker" where
  "sa_buffer a = \<lparr>ck_addr = True, ck_capacity = sa_capacity\<rparr>"

definition ck_discard :: "AddressChecker \<Rightarrow> AddressChecker" where
  "ck_discard k = k\<lparr>ck_addr := False, ck_capacity := 0\<rparr>"

text \<open>\<open>check\<close> is the check of the family, \<open>None\<close> the access through a discarded checker.\<close>

definition ck_commit ::
    "(SocketAddress \<Rightarrow> nat \<Rightarrow> AddressStatus) \<Rightarrow> AddressChecker \<Rightarrow> SocketAddress \<Rightarrow>
     (AddressStatus \<times> AddressChecker \<times> SocketAddress) option" where
  "ck_commit check k a =
     (if \<not> ck_addr k then None
      else let r = check a (ck_capacity k)
           in Some (r, ck_discard k, if r = AddressOk then a\<lparr>sa_size := ck_capacity k\<rparr> else a))"

text \<open>The destructor asserts that the address was checked.\<close>

definition ck_destroy :: "AddressChecker \<Rightarrow> unit option" where
  "ck_destroy k = (if ck_addr k then None else Some ())"

definition unspecified_check :: "SocketAddress \<Rightarrow> nat \<Rightarrow> AddressStatus" where
  "unspecified_check a n = AddressOk"

section \<open>Internet addresses\<close>

definition poke :: "nat \<Rightarrow> 8 word list \<Rightarrow> 8 word list \<Rightarrow> 8 word list" where
  "poke i bs xs = take i xs @ bs @ drop (i + length bs) xs"

definition peek :: "nat \<Rightarrow> nat \<Rightarrow> 8 word list \<Rightarrow> 8 word list" where
  "peek i n xs = take n (drop i xs)"

text \<open>\<^verbatim>\<open>htons\<close> and \<^verbatim>\<open>ntohs\<close> as the bytes in memory.\<close>

definition port_bytes :: "16 word \<Rightarrow> 8 word list" where
  "port_bytes p = [ucast (drop_bit 8 p), ucast p]"

definition port_of :: "8 word list \<Rightarrow> 16 word" where
  "port_of bs = push_bit 8 (ucast (bs ! 0)) + ucast (bs ! 1)"

text \<open>A setter that ends with the commit of its checker, which then leaves the scope.\<close>

definition committed :: "nat \<Rightarrow> SocketAddress \<Rightarrow> (AddressStatus \<times> SocketAddress) option" where
  "committed n a =
     do { (r, k, a1) \<leftarrow> ck_commit unspecified_check ((sa_buffer a)\<lparr>ck_capacity := n\<rparr>) a;
          _ \<leftarrow> ck_destroy k;
          Some (r, a1) }"

definition discarded :: "AddressStatus \<Rightarrow> SocketAddress \<Rightarrow> (AddressStatus \<times> SocketAddress) option" where
  "discarded r a = do { _ \<leftarrow> ck_destroy (ck_discard (sa_buffer a)); Some (r, a) }"

definition set_port :: "16 word \<Rightarrow> SocketAddress \<Rightarrow> (AddressStatus \<times> SocketAddress) option" where
  "set_port p a =
     (if sa_family a = AF_INET then committed 16 (a\<lparr>sa_data := poke 0 (port_bytes p) (sa_data a)\<rparr>)
      else if sa_family a = AF_INET6 then committed 28 (a\<lparr>sa_data := poke 0 (port_bytes p) (sa_data a)\<rparr>)
      else discarded UnsupportedAddressFamily a)"

type_synonym inet_pton = "nat \<Rightarrow> string \<Rightarrow> int \<times> 8 word list"

definition store_pton :: "nat \<Rightarrow> int \<times> 8 word list \<Rightarrow> SocketAddress \<Rightarrow> SocketAddress" where
  "store_pton i r a = (if fst r = 1 then a\<lparr>sa_data := poke i (snd r) (sa_data a)\<rparr> else a)"

definition set_address :: "inet_pton \<Rightarrow> string \<Rightarrow> SocketAddress \<Rightarrow> (AddressStatus \<times> SocketAddress) option" where
  "set_address pton str a =
     (let a1 = a\<lparr>sa_family := AF_INET\<rparr>; r4 = pton AF_INET str; a2 = store_pton 2 r4 a1
      in if fst r4 = -1 then discarded InvalidAddress a2
         else if fst r4 = 0
         then let a3 = a2\<lparr>sa_family := AF_INET6\<rparr>; r6 = pton AF_INET6 str; a4 = store_pton 6 r6 a3
              in if fst r6 \<noteq> 1 then discarded InvalidAddress a4 else committed 28 a4
         else if fst r4 \<noteq> 1 then discarded InvalidAddress a2
         else committed 16 a2)"

definition set_address_port ::
    "inet_pton \<Rightarrow> string \<Rightarrow> 16 word \<Rightarrow> SocketAddress \<Rightarrow> (AddressStatus \<times> SocketAddress) option" where
  "set_address_port pton str p a =
     do { (r, a1) \<leftarrow> set_address pton str a; if r \<noteq> AddressOk then Some (r, a1) else set_port p a1 }"

definition set_raw :: "nat \<Rightarrow> 8 word list \<Rightarrow> 16 word \<Rightarrow> SocketAddress \<Rightarrow> (AddressStatus \<times> SocketAddress) option" where
  "set_raw family raw p a =
     (let a1 = a\<lparr>sa_family := family\<rparr>
      in if sa_family a1 = AF_INET
         then if length raw \<noteq> 4 then discarded InvalidAddress a1
              else committed 16 (a1\<lparr>sa_data := poke 2 raw (poke 0 (port_bytes p) (sa_data a1))\<rparr>)
         else if sa_family a1 = AF_INET6
         then if length raw \<noteq> 16 then discarded InvalidAddress a1
              else committed 28 (a1\<lparr>sa_data := poke 6 raw (poke 0 (port_bytes p) (sa_data a1))\<rparr>)
         else discarded UnsupportedAddressFamily a1)"

definition inet_check :: "SocketAddress \<Rightarrow> nat \<Rightarrow> AddressStatus" where
  "inet_check a n =
     (if sa_family a = AF_INET then if n \<noteq> 16 then InvalidAddress else AddressOk
      else if sa_family a = AF_INET6 then if n \<noteq> 28 then InvalidAddress else AddressOk
      else UnsupportedAddressFamily)"

text \<open>\<open>ntop\<close> is \<^verbatim>\<open>inet_ntop\<close>.\<close>

definition get_address_string :: "(nat \<Rightarrow> 8 word list \<Rightarrow> string) \<Rightarrow> SocketAddress \<Rightarrow> AddressStatus \<times> string option" where
  "get_address_string ntop a =
     (if sa_family a = AF_INET then (AddressOk, Some (ntop AF_INET (peek 2 4 (sa_data a))))
      else if sa_family a = AF_INET6 then (AddressOk, Some (ntop AF_INET6 (peek 6 16 (sa_data a))))
      else (UnsupportedAddressFamily, None))"

definition get_port :: "SocketAddress \<Rightarrow> 16 word option" where
  "get_port a =
     (if sa_family a = AF_INET \<or> sa_family a = AF_INET6 then Some (port_of (peek 0 2 (sa_data a))) else None)"

text \<open>The second test of \<^verbatim>\<open>compare\<close> repeats the first: \<^verbatim>\<open>AF_INET\<close> is written twice.\<close>

definition sa_compare :: "SocketAddress \<Rightarrow> SocketAddress \<Rightarrow> bool" where
  "sa_compare a b =
     (if sa_family a \<noteq> sa_family b then False
      else if sa_family a = AF_INET
      then peek 2 4 (sa_data a) = peek 2 4 (sa_data b) \<and> peek 0 2 (sa_data a) = peek 0 2 (sa_data b)
      else if sa_family a = AF_INET
      then peek 6 16 (sa_data a) = peek 6 16 (sa_data b) \<and> peek 0 2 (sa_data a) = peek 0 2 (sa_data b)
      else False)"

text \<open>
  \<^verbatim>\<open>Socket::get_socket_name\<close> and \<^verbatim>\<open>get_peer_name\<close>; \<open>res\<close> is the result of the system call, \<open>b\<close> and \<open>n\<close> the
  address and the length it stored.
\<close>

definition get_name :: "int \<Rightarrow> SocketAddress \<Rightarrow> nat \<Rightarrow> SocketAddress \<Rightarrow> (int \<times> SocketAddress) option" where
  "get_name res b n a =
     (let k = sa_buffer a
      in if res = 0
         then do { (r, k1, a1) \<leftarrow> ck_commit unspecified_check (k\<lparr>ck_capacity := n\<rparr>) (b\<lparr>sa_size := sa_size a\<rparr>);
                   _ \<leftarrow> ck_destroy k1; Some (res, a1) }
         else do { _ \<leftarrow> ck_destroy k; Some (res, a) })"

section \<open>Properties\<close>

lemmas checker_simps = committed_def discarded_def ck_commit_def ck_destroy_def ck_discard_def sa_buffer_def
  unspecified_check_def Let_def

lemma committed_eq [simp]: "committed n a = Some (AddressOk, a\<lparr>sa_size := n\<rparr>)"
  by (simp add: checker_simps)

lemma discarded_eq [simp]: "discarded r a = Some (r, a)"
  by (simp add: checker_simps)

lemma port_roundtrip: "port_of (port_bytes p) = p"
proof (rule bit_word_eqI)
  have d: "push_bit 8 (ucast (ucast (drop_bit 8 p) :: 8 word)) + ucast (ucast p :: 8 word) =
      (push_bit 8 (ucast (ucast (drop_bit 8 p) :: 8 word)) OR ucast (ucast p :: 8 word) :: 16 word)"
    by (rule disjunctive_add) (auto simp: bit_simps)
  fix n assume "n < LENGTH(16)"
  then show "bit (port_of (port_bytes p)) n = bit p n"
    unfolding port_of_def port_bytes_def by (auto simp: d bit_simps)
qed

lemma peek_poke:
  "i + length bs \<le> length xs \<Longrightarrow> peek i (length bs) (poke i bs xs) = bs"
  by (simp add: peek_def poke_def)

lemma peek_poke_after:
  assumes "i + length bs \<le> j" and "i + length bs \<le> length xs"
  shows "peek j n (poke i bs xs) = peek j n xs"
proof -
  have "drop j (poke i bs xs) = drop j xs" using assms by (simp add: poke_def)
  then show ?thesis by (simp add: peek_def)
qed

lemma length_poke [simp]: "i + length bs \<le> length xs \<Longrightarrow> length (poke i bs xs) = length xs"
  by (simp add: poke_def)

lemma length_port_bytes [simp]: "length (port_bytes p) = 2"
  by (simp add: port_bytes_def)

lemma peek_port:
  "2 \<le> length xs \<Longrightarrow> port_of (peek 0 2 (poke 0 (port_bytes p) xs)) = p"
  using peek_poke [of 0 "port_bytes p" xs] by (simp add: port_roundtrip)

text \<open>What \<^verbatim>\<open>inet_pton\<close> promises: the result is 1, 0 or, for an unknown family, -1; a stored address has its length.\<close>

definition pton_ok :: "inet_pton \<Rightarrow> bool" where
  "pton_ok pton \<longleftrightarrow>
     (\<forall>s. fst (pton AF_INET s) \<in> {0, 1} \<and> length (snd (pton AF_INET s)) = 4 \<and>
          fst (pton AF_INET6 s) \<in> {0, 1} \<and> length (snd (pton AF_INET6 s)) = 16)"

text \<open>
  C39. Setting an address from its text. A text that is an IPv4 or else an IPv6 address gives an address of
  that family with exactly the parsed bytes, the port and the size of its structure, which the check
  accepts. Any other text is refused.
\<close>

theorem set_address_port_correct:
  assumes "pton_ok pton" and "length (sa_data a) = 126"
  shows "\<exists>r a'. set_address_port pton str p a = Some (r, a') \<and>
    (if fst (pton AF_INET str) = 1
     then r = AddressOk \<and> sa_family a' = AF_INET \<and> peek 2 4 (sa_data a') = snd (pton AF_INET str) \<and>
       get_port a' = Some p \<and> inet_check a' (sa_size a') = AddressOk
     else if fst (pton AF_INET6 str) = 1
     then r = AddressOk \<and> sa_family a' = AF_INET6 \<and> peek 6 16 (sa_data a') = snd (pton AF_INET6 str) \<and>
       get_port a' = Some p \<and> inet_check a' (sa_size a') = AddressOk
     else r = InvalidAddress)"
proof -
  let ?b4 = "snd (pton AF_INET str)" and ?b6 = "snd (pton AF_INET6 str)"
  have p: "fst (pton AF_INET str) \<in> {0, 1}" "length ?b4 = 4" "fst (pton AF_INET6 str) \<in> {0, 1}" "length ?b6 = 16"
    using assms(1) by (auto simp: pton_ok_def)
  have b4: "peek 2 4 (poke 0 (port_bytes p) (poke 2 ?b4 (sa_data a))) = ?b4"
    using peek_poke [of 2 ?b4 "sa_data a"] p(2) assms(2) by (simp add: peek_poke_after)
  have b6: "peek 6 16 (poke 0 (port_bytes p) (poke 6 ?b6 (sa_data a))) = ?b6"
    using peek_poke [of 6 ?b6 "sa_data a"] p(4) assms(2) by (simp add: peek_poke_after)
  have port: "port_of (peek 0 2 (poke 0 (port_bytes p) (poke i bs (sa_data a)))) = p"
    if "i + length bs \<le> 126" for i bs using that assms(2) by (intro peek_port) simp
  show ?thesis
    using p(1,3) b4 b6 port [of 2 ?b4] port [of 6 ?b6] p(2,4)
    by (auto simp: set_address_port_def set_address_def set_port_def store_pton_def get_port_def inet_check_def families Let_def)
qed

text \<open>
  A refused text leaves the address half changed. The family already says IPv6 while the size is still
  the old one: an IPv4 address that was valid no longer passes the check, and no longer equals its old
  value.
\<close>

theorem refused_text_spoils_address:
  assumes "fst (pton AF_INET str) = 0" and "fst (pton AF_INET6 str) = 0"
    and "sa_family a = AF_INET" and "inet_check a (sa_size a) = AddressOk"
  shows "\<exists>a'. set_address pton str a = Some (InvalidAddress, a') \<and> sa_family a' = AF_INET6 \<and> sa_size a' = 16 \<and>
    inet_check a' (sa_size a') = InvalidAddress \<and> \<not> sa_compare a' a"
  using assms by (auto simp: set_address_def store_pton_def inet_check_def sa_compare_def families Let_def split: if_splits)

text \<open>
  Comparing addresses. Two IPv4 addresses are equal exactly if address and port are; two IPv6 addresses
  are never equal, not even an address to itself, since their case repeats the test for IPv4.
\<close>

theorem compare_is_ipv4_only:
  "sa_compare a b \<longleftrightarrow> sa_family a = AF_INET \<and> sa_family b = AF_INET \<and>
     peek 2 4 (sa_data a) = peek 2 4 (sa_data b) \<and> peek 0 2 (sa_data a) = peek 0 2 (sa_data b)"
  by (auto simp: sa_compare_def)

text \<open>
  Asking for the name of a socket fails an assertion when the system call fails: the checker is neither
  committed nor discarded.
\<close>

lemma failed_get_name_asserts: "get_name res b n a = None \<longleftrightarrow> res \<noteq> 0"
  by (auto simp: get_name_def checker_simps)

definition sample_pton :: inet_pton where
  "sample_pton f s = (if f = AF_INET then (if s = ''127.0.0.1'' then 1 else 0, [127, 0, 0, 1])
     else (if s = ''::1'' then 1 else 0, replicate 15 0 @ [1]))"

theorem set_address_port_correct_witness:
  "\<exists>a'. set_address_port sample_pton ''::1'' 80 sa_new = Some (AddressOk, a') \<and> sa_family a' = AF_INET6 \<and>
     get_port a' = Some 80"
proof -
  have "pton_ok sample_pton" "length (sa_data sa_new) = 126"
    by (simp_all add: pton_ok_def sample_pton_def families sa_new_def sa_reset_def)
  then show ?thesis
    using set_address_port_correct [of sample_pton sa_new "''::1''" 80] by (auto simp: sample_pton_def families)
qed

theorem refused_text_spoils_address_witness:
  "\<exists>a'. set_address sample_pton ''x'' \<lparr>sa_family = AF_INET, sa_data = replicate 126 0, sa_size = 16\<rparr> = Some (InvalidAddress, a') \<and>
     inet_check a' (sa_size a') = InvalidAddress"
  using refused_text_spoils_address [of sample_pton "''x''" "\<lparr>sa_family = AF_INET, sa_data = replicate 126 0, sa_size = 16\<rparr>"]
  by (auto simp: sample_pton_def families inet_check_def)

end
