(* ===== verification/Jinx_AsyncIO.thy ===== *)
theory Jinx_AsyncIO
  imports Jinx_Error "HOL-Library.Monad_Syntax"
begin

text \<open>
  Asynchronous input and output: \<^verbatim>\<open>IOHandle\<close> (\<^verbatim>\<open>include/jinx/posix.hpp\<close>, \<^verbatim>\<open>src/posix.cpp\<close>), the wrappers of the
  system calls (\<^verbatim>\<open>include/jinx/libevent.hpp\<close>), the event handles (\<^verbatim>\<open>src/libevent.cpp\<close>), \<^verbatim>\<open>AsyncIOCommon\<close> with
  \<^verbatim>\<open>PosixConnect\<close> (\<^verbatim>\<open>include/jinx/posix.hpp\<close>) and \<^verbatim>\<open>AsyncSleep\<close> (\<^verbatim>\<open>include/jinx/async/awaitable.hpp\<close>).

  A system call is its result and the value of \<^verbatim>\<open>errno\<close> after it. libevent is outside: of it the model
  keeps whether an event is registered. \<open>None\<close> is an endless loop, or the access to an empty handle.
\<close>

section \<open>System calls\<close>

definition EINTR :: int where "EINTR = 4"
definition EAGAIN :: int where "EAGAIN = 11"
definition EWOULDBLOCK :: int where "EWOULDBLOCK = 11"
definition EINPROGRESS :: int where "EINPROGRESS = 115"

lemmas errnos = EINTR_def EAGAIN_def EWOULDBLOCK_def EINPROGRESS_def

type_synonym syscall = "int \<times> int"

record IOResult =
  io_error :: Error
  io_size :: int

definition IOResult_new :: IOResult where
  "IOResult_new = \<lparr>io_error = Error_default, io_size = 0\<rparr>"

text \<open>\<^verbatim>\<open>convert_to_asyncio_error_code\<close>: \<open>r\<close> is a local copy of the result, \<open>err\<close> the local variable.\<close>

definition convert_body :: "syscall \<Rightarrow> int \<times> IOResult \<Rightarrow> int \<times> IOResult" where
  "convert_body c s =
     (let (err, r) = s; r1 = r\<lparr>io_size := fst c\<rparr>
      in if fst c = -1
         then (snd c, r1\<lparr>io_error := Error_make (snd c)
                  (if snd c = EAGAIN \<or> snd c = EWOULDBLOCK then category_again else category_posix)\<rparr>)
         else (err, r1))"

partial_function (option) convert_loop :: "syscall \<Rightarrow> int \<times> IOResult \<Rightarrow> IOResult option" where
  "convert_loop c s =
     (let s1 = convert_body c s in if fst s1 = EINTR then convert_loop c s1 else Some (snd s1))"

definition convert_to_asyncio_error_code :: "syscall \<Rightarrow> IOResult option" where
  "convert_to_asyncio_error_code c = convert_loop c (0, IOResult_new)"

text \<open>
  \<^verbatim>\<open>EventEngineLibevent::connect\<close> makes the call in its loop: \<open>calls\<close> are the outcomes of the coming
  ones. Neither \<^verbatim>\<open>err\<close> nor \<^verbatim>\<open>_error\<close> is cleared by a call that succeeds.
\<close>

fun connect_loop :: "syscall list \<Rightarrow> int \<times> IOResult \<Rightarrow> (IOResult \<times> syscall list) option" where
  "connect_loop [] s = None"
| "connect_loop (c # calls) (err, r) =
     (let r1 = r\<lparr>io_size := fst c\<rparr>;
          (err1, r2) = (if fst c = -1
                        then (snd c, r1\<lparr>io_error := Error_make (snd c)
                                 (if snd c = EINPROGRESS then category_again else category_posix)\<rparr>)
                        else (err, r1))
      in if err1 = EINTR then connect_loop calls (err1, r2) else Some (r2, calls))"

definition ev_connect :: "syscall list \<Rightarrow> (IOResult \<times> syscall list) option" where
  "ev_connect calls = connect_loop calls (0, IOResult_new)"

section \<open>Handles\<close>

text \<open>\<^verbatim>\<open>IOHandle\<close>: \<open>closes\<close> are the outcomes of the coming calls of \<^verbatim>\<open>close\<close>, \<open>closed\<close> the descriptors that were closed.\<close>

record io_handles =
  ih_handle :: "nat \<Rightarrow> int"
  ih_closed :: "int list"
  ih_closes :: "syscall list"

fun close_loop :: "int \<Rightarrow> int \<Rightarrow> syscall list \<Rightarrow> int list \<Rightarrow> (int list \<times> syscall list) option" where
  "close_loop fd err [] done = None"
| "close_loop fd err (c # calls) done =
     (let err1 = (if fst c = -1 then snd c else err); done1 = done @ [fd]
      in if err1 = EINTR then close_loop fd err1 calls done1 else Some (done1, calls))"

definition ih_reset :: "nat \<Rightarrow> int \<Rightarrow> io_handles \<Rightarrow> io_handles option" where
  "ih_reset x fd s =
     do { s1 \<leftarrow> (if ih_handle s x \<noteq> -1
                 then do { (cl, calls) \<leftarrow> close_loop (ih_handle s x) 0 (ih_closes s) (ih_closed s);
                           Some (s\<lparr>ih_closed := cl, ih_closes := calls\<rparr>) }
                 else Some s);
          Some (s1\<lparr>ih_handle := (ih_handle s1)(x := fd)\<rparr>) }"

definition ih_move :: "nat \<Rightarrow> nat \<Rightarrow> io_handles \<Rightarrow> io_handles" where
  "ih_move x y s = s\<lparr>ih_handle := (ih_handle s)(x := ih_handle s y, y := -1)\<rparr>"

definition ih_move_assign :: "nat \<Rightarrow> nat \<Rightarrow> io_handles \<Rightarrow> io_handles option" where
  "ih_move_assign x y s = do { s1 \<leftarrow> ih_reset x (-1) s; Some (ih_move x y s1) }"

definition ih_destroy :: "nat \<Rightarrow> io_handles \<Rightarrow> io_handles option" where
  "ih_destroy x s = ih_reset x (-1) s"

definition ih_release :: "nat \<Rightarrow> io_handles \<Rightarrow> int \<times> io_handles" where
  "ih_release x s = (ih_handle s x, s\<lparr>ih_handle := (ih_handle s)(x := -1)\<rparr>)"

definition ih_is_valid :: "nat \<Rightarrow> io_handles \<Rightarrow> bool" where
  "ih_is_valid x s \<longleftrightarrow> ih_handle s x \<noteq> -1"

section \<open>Events\<close>

text \<open>An event handle is empty or holds the state of a registered event.\<close>

datatype EventState = EventPending | EventRunning | EventDeleted

type_synonym event_handle = "EventState option"

definition add_event :: "event_handle \<Rightarrow> SuccessfulFailed \<times> event_handle" where
  "add_event h = (Successful, Some EventPending)"

definition remove_io :: "event_handle \<Rightarrow> (SuccessfulFailed \<times> event_handle) option" where
  "remove_io h =
     do { st \<leftarrow> h; Some (Successful, if st = EventRunning then Some EventDeleted else None) }"

definition remove_timer :: "event_handle \<Rightarrow> SuccessfulFailed \<times> event_handle" where
  "remove_timer h =
     (case h of
        None \<Rightarrow> (Failed, h)
      | Some st \<Rightarrow> (Successful, if st = EventRunning then Some EventDeleted else None))"

text \<open>\<^verbatim>\<open>EventDataIO::callback\<close> around the callback \<open>f\<close>, which may change the handle through \<^verbatim>\<open>remove\<close>.\<close>

definition event_callback ::
    "bool \<Rightarrow> (Error \<Rightarrow> 's \<Rightarrow> 's option) \<Rightarrow> ('s \<Rightarrow> event_handle) \<Rightarrow> (event_handle \<Rightarrow> 's \<Rightarrow> 's) \<Rightarrow> 's \<Rightarrow> 's option" where
  "event_callback timeout f geth seth s =
     do { _ \<leftarrow> geth s;
          let e = (if timeout then Error_make 110 category_posix else Error_default);
          s1 \<leftarrow> f e (seth (Some EventRunning) s);
          st \<leftarrow> geth s1;
          Some (seth (if st = EventDeleted then None else Some EventPending) s1) }"

section \<open>Operations\<close>

datatype io_action = IOReturn | IOThrow Error | IOSuspend

text \<open>\<open>ai_resumed\<close> counts the calls of \<^verbatim>\<open>async_resume\<close>, with the error of the last one.\<close>

record async_io =
  ai_result :: "int option"
  ai_handle :: event_handle
  ai_resumed :: "Error list"

definition async_io_call :: "async_io \<Rightarrow> async_io" where
  "async_io_call s = s\<lparr>ai_result := None\<rparr>"

text \<open>\<open>r\<close> is the result of \<^verbatim>\<open>do_io\<close>; \<open>None\<close> if it never returns.\<close>

definition async_io_poll :: "IOResult option \<Rightarrow> async_io \<Rightarrow> (io_action \<times> async_io) option" where
  "async_io_poll r s =
     (if ai_result s \<noteq> None then Some (IOReturn, s)
      else do { x \<leftarrow> r;
                if \<not> Error_bool (io_error x) then Some (IOReturn, s\<lparr>ai_result := Some (io_size x)\<rparr>)
                else if e_category (io_error x) = Some category_again
                then let (a, h) = add_event (ai_handle s)
                     in if a = Failed
                        then Some (IOThrow (make_error_event_engine ErrorEventEngine_FailedToRegisterIOEvent), s\<lparr>ai_handle := h\<rparr>)
                        else Some (IOSuspend, s\<lparr>ai_handle := h\<rparr>)
                else Some (IOThrow (io_error x), s) })"

definition io_callback :: "Error \<Rightarrow> async_io \<Rightarrow> async_io option" where
  "io_callback e s = Some (s\<lparr>ai_resumed := ai_resumed s @ [e]\<rparr>)"

definition io_event :: "bool \<Rightarrow> async_io \<Rightarrow> async_io option" where
  "io_event timeout s = event_callback timeout io_callback ai_handle (\<lambda>h s. s\<lparr>ai_handle := h\<rparr>) s"

definition async_io_finalize :: "async_io \<Rightarrow> async_io option" where
  "async_io_finalize s =
     (if ai_handle s \<noteq> None then do { _ \<leftarrow> remove_io (ai_handle s); Some (s\<lparr>ai_handle := None\<rparr>) } else Some s)"

text \<open>\<^verbatim>\<open>PosixConnect::do_io\<close>: the first call connects, the next one reads \<^verbatim>\<open>SO_ERROR\<close>.\<close>

definition connect_do_io ::
    "syscall list \<Rightarrow> syscall \<times> int \<Rightarrow> bool \<Rightarrow> (IOResult \<times> bool) option" where
  "connect_do_io calls so_error connected =
     (if connected
      then let err = (if fst (fst so_error) \<noteq> 0 then snd (fst so_error) else snd so_error)
           in Some (\<lparr>io_error = Error_make err category_posix, io_size = err\<rparr>, True)
      else do { (r, _) \<leftarrow> ev_connect calls; Some (r, True) })"

section \<open>Sleeping\<close>

record async_sleep =
  sl_done :: bool
  sl_handle :: event_handle
  sl_seconds :: int
  sl_micros :: int
  sl_resumed :: nat

text \<open>A duration in microseconds, cast to seconds towards zero.\<close>

definition sleep_call :: "int \<Rightarrow> async_sleep \<Rightarrow> async_sleep" where
  "sleep_call us s =
     (let sec = (if us < 0 then - (- us div 1000000) else us div 1000000)
      in s\<lparr>sl_done := False, sl_seconds := sec, sl_micros := us - sec * 1000000\<rparr>)"

definition sleep_poll :: "async_sleep \<Rightarrow> io_action \<times> async_sleep" where
  "sleep_poll s =
     (if sl_done s then (IOReturn, s)
      else let (a, h) = add_event (sl_handle s)
           in (if a = Failed then IOThrow (make_error_event_engine ErrorEventEngine_FailedToRegisterTimerEvent) else IOSuspend,
               s\<lparr>sl_handle := h\<rparr>))"

definition timer_callback :: "Error \<Rightarrow> async_sleep \<Rightarrow> async_sleep option" where
  "timer_callback e s =
     Some (s\<lparr>sl_handle := snd (remove_timer (sl_handle s)), sl_done := True, sl_resumed := sl_resumed s + 1\<rparr>)"

definition sleep_event :: "async_sleep \<Rightarrow> async_sleep option" where
  "sleep_event s = event_callback True timer_callback sl_handle (\<lambda>h s. s\<lparr>sl_handle := h\<rparr>) s"

definition sleep_finalize :: "async_sleep \<Rightarrow> async_sleep" where
  "sleep_finalize s = s\<lparr>sl_handle := snd (remove_timer (sl_handle s))\<rparr>"

section \<open>Interrupted calls\<close>

lemma convert_body_twice: "convert_body c (convert_body c s) = convert_body c s"
  by (auto simp: convert_body_def Let_def split: prod.splits)

lemma convert_loop_stuck:
  assumes "convert_loop c s = Some r"
  shows "convert_body c s = s \<longrightarrow> fst s \<noteq> EINTR"
proof (rule convert_loop.raw_induct [where P = "\<lambda>c s r. convert_body c s = s \<longrightarrow> fst s \<noteq> EINTR", OF _ assms])
  fix loop c s r
  assume IH: "\<And>c s r. loop c s = Some r \<Longrightarrow> convert_body c s = s \<longrightarrow> fst s \<noteq> EINTR"
    and body: "(let s1 = convert_body c s in if fst s1 = EINTR then loop c s1 else Some (snd s1)) = Some r"
  show "convert_body c s = s \<longrightarrow> fst s \<noteq> EINTR"
  proof
    assume eq: "convert_body c s = s"
    show "fst s \<noteq> EINTR"
    proof
      assume "fst s = EINTR"
      then have "loop c s = Some r" using body eq by simp
      then show False using IH eq \<open>fst s = EINTR\<close> by blast
    qed
  qed
qed

lemma syscall_wrapper_eq:
  "convert_to_asyncio_error_code (res, err) =
     (if res = -1 \<and> err = EINTR then None
      else Some \<lparr>io_error = (if res \<noteq> -1 then Error_default
                           else Error_make err (if err = EAGAIN \<or> err = EWOULDBLOCK then category_again else category_posix)),
                io_size = res\<rparr>)"
proof (cases "res = -1 \<and> err = EINTR")
  case True
  let ?s = "convert_body (res, err) (0, IOResult_new)"
  have "convert_loop (res, err) (0, IOResult_new) = convert_loop (res, err) ?s"
    using True by (subst convert_loop.simps) (simp add: convert_body_def)
  moreover have "convert_loop (res, err) ?s = None"
    using convert_loop_stuck [of "(res, err)" ?s] True convert_body_twice [of "(res, err)"]
    by (cases "convert_loop (res, err) ?s") (auto simp: convert_body_def)
  ultimately show ?thesis using True by (simp add: convert_to_asyncio_error_code_def)
next
  case False
  then have "fst (convert_body (res, err) (0, IOResult_new)) \<noteq> EINTR" by (auto simp: convert_body_def errnos Let_def)
  then show ?thesis
    using False unfolding convert_to_asyncio_error_code_def
    by (subst convert_loop.simps) (auto simp: convert_body_def IOResult_new_def)
qed

text \<open>
  The wrapper of the system calls. It reports the result of the call, or its error, with \<^verbatim>\<open>EAGAIN\<close> and
  \<^verbatim>\<open>EWOULDBLOCK\<close> in the category for trying again. But an interrupted call is not repeated: the loop
  examines the same result again and never ends.
\<close>

theorem syscall_wrapper:
  "convert_to_asyncio_error_code (res, err) =
     (if res = -1 \<and> err = EINTR then None
      else Some \<lparr>io_error = (if res \<noteq> -1 then Error_default
                           else Error_make err (if err = EAGAIN \<or> err = EWOULDBLOCK then category_again else category_posix)),
                io_size = res\<rparr>)"
  by (rule syscall_wrapper_eq)

lemma connect_loop_error:
  assumes "connect_loop calls (EINTR, r0) = Some (r, rest)" and "\<forall>c \<in> set calls. fst c = -1 \<longrightarrow> snd c \<noteq> 0"
  shows "io_size r = -1 \<and> Error_bool (io_error r)"
  using assms
proof (induction calls arbitrary: r0)
  case (Cons c calls)
  show ?case
  proof (cases "fst c = -1 \<and> snd c \<noteq> EINTR")
    case True
    then show ?thesis using Cons.prems by (auto simp: Let_def Error_bool_def Error_make_def)
  next
    case False
    then have "\<exists>r1. connect_loop calls (EINTR, r1) = Some (r, rest)"
      using Cons.prems(1) by (cases "fst c = -1") auto
    then show ?thesis using Cons.IH Cons.prems(2) by auto
  qed
qed simp

text \<open>
  A connect that is interrupted once never reports success: the loop does not forget the interruption
  when a later call succeeds, and goes on until a call fails in another way.
\<close>

theorem interrupted_connect_fails:
  assumes "ev_connect ((-1, EINTR) # calls) = Some (r, rest)" and "\<forall>c \<in> set calls. fst c = -1 \<longrightarrow> snd c \<noteq> 0"
  shows "io_size r = -1 \<and> Error_bool (io_error r)"
  using assms connect_loop_error unfolding ev_connect_def by (auto simp: errnos IOResult_new_def)

theorem interrupted_connect_fails_witness:
  "\<exists>r. ev_connect ((-1, EINTR) # [(0, 0), (-1, 106)]) = Some (r, []) \<and> Error_bool (io_error r)"
proof -
  obtain r where "ev_connect ((-1, EINTR) # [(0, 0), (-1, 106)]) = Some (r, [])"
    by (simp add: ev_connect_def errnos)
  then show ?thesis using interrupted_connect_fails [of "[(0, 0), (-1, 106)]"] by auto
qed

text \<open>A close that is interrupted and then succeeds is followed by one more close of the same number.\<close>

lemma interrupted_close_repeats:
  "ih_handle s x = fd \<Longrightarrow> fd \<noteq> -1 \<Longrightarrow> ih_closes s = (-1, EINTR) # (0, e) # (-1, err) # calls \<Longrightarrow> err \<noteq> EINTR \<Longrightarrow>
   \<exists>s'. ih_reset x (-1) s = Some s' \<and> ih_closed s' = ih_closed s @ [fd, fd, fd] \<and> ih_closes s' = calls"
  by (auto simp: ih_reset_def)

section \<open>Retrying\<close>

definition again :: "IOResult \<Rightarrow> bool" where
  "again r \<longleftrightarrow> Error_bool (io_error r) \<and> e_category (io_error r) = Some category_again"

text \<open>The operation is polled; whenever it suspends, its event fires and it is polled again.\<close>

fun io_run :: "IOResult list \<Rightarrow> async_io \<Rightarrow> (io_action \<times> async_io) option" where
  "io_run [] s = None"
| "io_run (r # rs) s =
     do { (a, s1) \<leftarrow> async_io_poll (Some r) s;
          if a = IOSuspend then do { s2 \<leftarrow> io_event False s1; io_run rs s2 } else Some (a, s1) }"

lemma io_event_pending:
  "ai_handle s = Some h \<Longrightarrow> h \<noteq> EventDeleted \<Longrightarrow>
   io_event False s = Some (s\<lparr>ai_handle := Some EventPending, ai_resumed := ai_resumed s @ [Error_default]\<rparr>)"
  by (simp add: io_event_def event_callback_def io_callback_def)

lemma io_run_retries:
  assumes "\<forall>w \<in> set ws. again w" and "\<not> again x" and "ai_result s = None" and "ai_handle s \<noteq> Some EventDeleted"
  shows "\<exists>a s' s''. io_run (ws @ x # rest) s = Some (a, s') \<and>
    ai_resumed s' = ai_resumed s @ replicate (length ws) Error_default \<and>
    (if Error_bool (io_error x) then a = IOThrow (io_error x) \<and> ai_result s' = None
     else a = IOReturn \<and> ai_result s' = Some (io_size x)) \<and>
    async_io_finalize s' = Some s'' \<and> ai_handle s'' = None"
  using assms
proof (induction ws arbitrary: s)
  case Nil
  then show ?case
    by (cases "ai_handle s") (auto simp: async_io_poll_def again_def async_io_finalize_def remove_io_def)
next
  case (Cons w ws)
  let ?s1 = "s\<lparr>ai_handle := Some EventPending\<rparr>"
  let ?s2 = "?s1\<lparr>ai_resumed := ai_resumed s @ [Error_default]\<rparr>"
  have "async_io_poll (Some w) s = Some (IOSuspend, ?s1)"
    using Cons.prems(1,3) by (simp add: async_io_poll_def again_def add_event_def)
  moreover have "io_event False ?s1 = Some ?s2" using io_event_pending [of ?s1 EventPending] by simp
  ultimately have "io_run ((w # ws) @ x # rest) s = io_run (ws @ x # rest) ?s2" by simp
  then show ?case using Cons.IH [of ?s2] Cons.prems by simp
qed

text \<open>
  An operation on a descriptor. As long as the call would block the operation registers an event,
  suspends, and is resumed exactly once per event without error. It ends with the first other result:
  the value of the call, or its error thrown. Finalizing it removes the event.
\<close>

theorem async_io_retries:
  assumes "\<forall>w \<in> set ws. again w" and "\<not> again x" and "ai_result s = None" and "ai_handle s \<noteq> Some EventDeleted"
  shows "\<exists>a s' s''. io_run (ws @ x # rest) s = Some (a, s') \<and>
    ai_resumed s' = ai_resumed s @ replicate (length ws) Error_default \<and>
    (if Error_bool (io_error x) then a = IOThrow (io_error x) \<and> ai_result s' = None
     else a = IOReturn \<and> ai_result s' = Some (io_size x)) \<and>
    async_io_finalize s' = Some s'' \<and> ai_handle s'' = None"
  using assms by (rule io_run_retries)

definition sample_io :: async_io where
  "sample_io = \<lparr>ai_result = None, ai_handle = None, ai_resumed = []\<rparr>"

theorem async_io_retries_witness:
  "\<exists>s'. io_run [\<lparr>io_error = Error_make EAGAIN category_again, io_size = -1\<rparr>, \<lparr>io_error = Error_default, io_size = 5\<rparr>] sample_io =
     Some (IOReturn, s') \<and> ai_result s' = Some 5 \<and> ai_resumed s' = [Error_default]"
  using async_io_retries [of "[\<lparr>io_error = Error_make EAGAIN category_again, io_size = -1\<rparr>]"
      "\<lparr>io_error = Error_default, io_size = 5\<rparr>" sample_io "[]"]
  by (auto simp: again_def sample_io_def Error_bool_def Error_make_def Error_default_def errnos)

text \<open>
  Connecting. A connection in progress suspends; when the socket becomes writable the operation reads
  the pending error of the socket and succeeds exactly if there is none.
\<close>

theorem async_connect:
  assumes "ai_result s = None" and "ai_handle s \<noteq> Some EventDeleted" and "so_err \<noteq> EINPROGRESS"
    and "connect_do_io [(-1, EINPROGRESS)] so False = Some (r1, c1)" and "connect_do_io [] ((0, e), so_err) c1 = Some (r2, c2)"
  shows "\<exists>a s'. io_run [r1, r2] s = Some (a, s') \<and> ai_resumed s' = ai_resumed s @ [Error_default] \<and>
    (if so_err = 0 then a = IOReturn \<and> ai_result s' = Some 0 else a = IOThrow (Error_make so_err category_posix))"
proof -
  have r: "again r1" "c1" "\<not> again r2" "Error_bool (io_error r2) = (so_err \<noteq> 0)" "io_size r2 = so_err"
      "io_error r2 = Error_make so_err category_posix"
    using assms(4,5)
    by (auto simp: connect_do_io_def ev_connect_def again_def Error_bool_def Error_make_def errnos IOResult_new_def split: if_splits)
  show ?thesis
    using io_run_retries [of "[r1]" r2 s "[]"] r assms(1,2) by (auto split: if_splits)
qed

theorem async_connect_witness:
  "\<exists>r1 r2 a s'. connect_do_io [(-1, EINPROGRESS)] ((0, 0), 111) False = Some (r1, True) \<and>
     connect_do_io [] ((0, 0), 111) True = Some (r2, True) \<and>
     io_run [r1, r2] sample_io = Some (a, s') \<and> a = IOThrow (Error_make 111 category_posix)"
proof -
  obtain r1 r2 where r: "connect_do_io [(-1, EINPROGRESS)] ((0, 0), 111) False = Some (r1, True)"
      "connect_do_io [] ((0, 0), 111) True = Some (r2, True)"
    by (simp add: connect_do_io_def ev_connect_def errnos)
  then show ?thesis
    using async_connect [of sample_io 111 "((0, 0), 111)" r1 True 0 r2 True] by (auto simp: sample_io_def errnos)
qed

section \<open>Timers\<close>

text \<open>
  Sleeping. A duration is split into seconds and microseconds without loss; the first poll registers
  the timer and suspends; when it fires, the task is resumed once, the event is gone, and the next
  poll returns.
\<close>

theorem sleep_fires_once:
  assumes "us \<ge> 0"
  shows "\<exists>s1 s2. sleep_poll (sleep_call us s) = (IOSuspend, s1) \<and>
    sl_seconds s1 * 1000000 + sl_micros s1 = us \<and> 0 \<le> sl_micros s1 \<and> sl_micros s1 < 1000000 \<and>
    sleep_event s1 = Some s2 \<and> sl_resumed s2 = sl_resumed s + 1 \<and> sl_handle s2 = None \<and> sleep_poll s2 = (IOReturn, s2)"
proof -
  have "us - us div 1000000 * 1000000 = us mod 1000000" by (simp add: minus_div_mult_eq_mod)
  then show ?thesis
    using assms by (simp add: sleep_poll_def sleep_call_def add_event_def sleep_event_def event_callback_def
        timer_callback_def remove_timer_def Let_def)
qed

theorem sleep_fires_once_witness:
  "\<exists>s1 s2. sleep_poll (sleep_call 1500000 \<lparr>sl_done = True, sl_handle = None, sl_seconds = 0, sl_micros = 0, sl_resumed = 0\<rparr>) =
     (IOSuspend, s1) \<and> sl_seconds s1 * 1000000 + sl_micros s1 = 1500000 \<and> sleep_event s1 = Some s2 \<and> sl_resumed s2 = 1"
  using sleep_fires_once [of 1500000 "\<lparr>sl_done = True, sl_handle = None, sl_seconds = 0, sl_micros = 0, sl_resumed = 0\<rparr>"]
  by auto

end
