(* ===== verification/Jinx_Stream.thy ===== *)
theory Jinx_Stream
  imports Jinx_AsyncIO Jinx_Buffer
begin

text \<open>
  Streams on sockets (\<^verbatim>\<open>StreamSend\<close> and \<^verbatim>\<open>StreamRecv\<close> of \<^verbatim>\<open>include/jinx/streamsocket.hpp\<close>): operations that
  write the whole content of a buffer view and read into its free space, on top of the asynchronous
  \<^verbatim>\<open>send\<close> and \<^verbatim>\<open>recv\<close>.

  The answers of the kernel are given: it would block, it fails with an error, it accepts at most
  \<open>k + 1\<close> bytes of a send, or it has the bytes \<open>bs\<close> for a receive. \<open>so_wire\<close> is what it has accepted. \<open>None\<close> is a
  call that never returns, an \<^verbatim>\<open>error::fatal\<close>, or the end of the given answers.
\<close>

section \<open>Sending\<close>

datatype send_answer = SendAgain | Accepted nat | SendRefused int

fun send_syscall :: "send_answer \<Rightarrow> nat \<Rightarrow> syscall" where
  "send_syscall SendAgain n = (-1, EAGAIN)"
| "send_syscall (Accepted k) n = (int (min (Suc k) n), 0)"
| "send_syscall (SendRefused e) n = (-1, e)"

record 'b send_op =
  so_io :: async_io
  so_view :: BufferView
  so_wire :: "'b list"

definition stream_send_call :: "BufferView \<Rightarrow> 'b send_op \<Rightarrow> 'b send_op" where
  "stream_send_call v s = s\<lparr>so_io := async_io_call (so_io s), so_view := v\<rparr>"

fun stream_send_poll ::
    "(nat \<Rightarrow> 'b) \<Rightarrow> send_answer list \<Rightarrow> 'b send_op \<Rightarrow> (io_action \<times> 'b send_op \<times> send_answer list) option" where
  "stream_send_poll mem [] s = None"
| "stream_send_poll mem (x # xs) s =
     (let sl = slice_for_consumer (so_view s)
      in do { (a, io) \<leftarrow> async_io_poll (convert_to_asyncio_error_code (send_syscall x (s_size sl))) (so_io s);
              if a = IOReturn
              then do { n \<leftarrow> ai_result io;
                        let s1 = s\<lparr>so_io := io, so_wire := so_wire s @
                                     (if ai_result (so_io s) = None then map mem [s_data sl ..< s_data sl + nat n] else [])\<rparr>;
                        (case bv_consume (nat n) (so_view s) of
                           (Failed, _) \<Rightarrow> None
                         | (Successful, v) \<Rightarrow>
                             if bv_size v > 0 then stream_send_poll mem xs (stream_send_call v s1)
                             else Some (IOReturn, s1\<lparr>so_view := v\<rparr>, xs)) }
              else Some (a, s\<lparr>so_io := io\<rparr>, xs) })"

text \<open>A write: whenever the operation suspends, its event fires and it is polled again.\<close>

partial_function (option) write_run ::
    "(nat \<Rightarrow> 'b) \<Rightarrow> send_answer list \<Rightarrow> 'b send_op \<Rightarrow> (io_action \<times> 'b send_op) option" where
  "write_run mem xs s =
     do { (a, s1, rest) \<leftarrow> stream_send_poll mem xs s;
          if a = IOSuspend
          then do { io \<leftarrow> io_event False (so_io s1); write_run mem rest (s1\<lparr>so_io := io\<rparr>) }
          else Some (a, s1) }"

section \<open>Receiving\<close>

datatype 'b recv_answer = RecvAgain | Received "'b list" | RecvRefused int

fun recv_syscall :: "'b recv_answer \<Rightarrow> nat \<Rightarrow> syscall" where
  "recv_syscall RecvAgain n = (-1, EAGAIN)"
| "recv_syscall (Received bs) n = (int (min (length bs) n), 0)"
| "recv_syscall (RecvRefused e) n = (-1, e)"

text \<open>Memory after the first \<open>n\<close> of the bytes \<open>bs\<close> were stored at \<open>p\<close>.\<close>

definition stored :: "nat \<Rightarrow> nat \<Rightarrow> 'b list \<Rightarrow> (nat \<Rightarrow> 'b) \<Rightarrow> nat \<Rightarrow> 'b" where
  "stored p n bs mem i = (if p \<le> i \<and> i < p + n then bs ! (i - p) else mem i)"

fun recv_store :: "'b recv_answer \<Rightarrow> Slice \<Rightarrow> (nat \<Rightarrow> 'b) \<Rightarrow> nat \<Rightarrow> 'b" where
  "recv_store (Received bs) sl mem =
     stored (s_data sl) (min (length bs) (s_size sl)) bs mem"
| "recv_store x sl mem = mem"

record 'b recv_op =
  ro_io :: async_io
  ro_view :: BufferView
  ro_mem :: "nat \<Rightarrow> 'b"

definition stream_recv_call :: "BufferView \<Rightarrow> 'b recv_op \<Rightarrow> 'b recv_op" where
  "stream_recv_call v s = s\<lparr>ro_io := async_io_call (ro_io s), ro_view := v\<rparr>"

definition stream_recv_poll :: "'b recv_answer \<Rightarrow> 'b recv_op \<Rightarrow> (io_action \<times> 'b recv_op) option" where
  "stream_recv_poll x s =
     (let sl = slice_for_producer (ro_view s)
      in do { (a, io) \<leftarrow> async_io_poll (convert_to_asyncio_error_code (recv_syscall x (s_size sl))) (ro_io s);
              let s1 = s\<lparr>ro_io := io, ro_mem := (if ai_result (ro_io s) = None then recv_store x sl (ro_mem s) else ro_mem s)\<rparr>;
              if a = IOReturn
              then do { n \<leftarrow> ai_result io;
                        if n = 0 then Some (IOThrow (make_error_stream ErrorStream_EndOfStream), s1)
                        else (case bv_commit (nat n) (ro_view s) of
                                (Failed, _) \<Rightarrow> None
                              | (Successful, v) \<Rightarrow> Some (IOReturn, s1\<lparr>ro_view := v\<rparr>)) }
              else Some (a, s1) })"

section \<open>Writes are complete\<close>

lemma wrapped [simp]:
  "n \<ge> 0 \<Longrightarrow> convert_to_asyncio_error_code (n, e) = Some \<lparr>io_error = Error_default, io_size = n\<rparr>"
  "convert_to_asyncio_error_code (-1, EAGAIN) = Some \<lparr>io_error = Error_make EAGAIN category_again, io_size = -1\<rparr>"
  by (simp_all add: syscall_wrapper_eq errnos)

lemma poll_wrapped [simp]:
  "ai_result io = None \<Longrightarrow>
     async_io_poll (Some \<lparr>io_error = Error_default, io_size = n\<rparr>) io = Some (IOReturn, io\<lparr>ai_result := Some n\<rparr>)"
  "ai_result io = None \<Longrightarrow>
     async_io_poll (Some \<lparr>io_error = Error_make EAGAIN category_again, io_size = -1\<rparr>) io =
       Some (IOSuspend, io\<lparr>ai_handle := Some EventPending\<rparr>)"
  by (simp_all add: async_io_poll_def Error_bool_def Error_default_def Error_make_def add_event_def errnos)

lemma bytes_split:
  assumes "bv_ok v" and "n \<le> bv_size v"
  shows "\<exists>v'. bv_consume n v = (Successful, v') \<and> bv_ok v' \<and> bv_size v' = bv_size v - n \<and>
    bv_bytes mem v = map mem [bv_data v ..< bv_data v + n] @ bv_bytes mem v'"
proof -
  let ?v = "v\<lparr>bv_begin := bv_begin v + n\<rparr>"
  have n: "bv_begin v + n \<le> bv_end v" using assms by (auto simp: bv_ok_simps) (auto simp: bv_ok_def)
  have ok: "bv_ok ?v" using assms(1) n by (auto simp: bv_ok_def)
  have "[bv_memory v + bv_begin v ..< bv_memory v + bv_end v] =
      [bv_memory v + bv_begin v ..< bv_memory v + bv_begin v + n] @ [bv_memory v + (bv_begin v + n) ..< bv_memory v + bv_end v]"
    using n upt_add_eq_append [of "bv_memory v + bv_begin v" "bv_memory v + bv_begin v + n" "bv_end v - (bv_begin v + n)"]
    by (simp add: add.assoc)
  then show ?thesis
    using n ok assms(1) by (simp add: bv_consume_ok bv_bytes_def bv_ok_simps)
qed

lemma bytes_append:
  assumes "bv_ok v" and "n \<le> bv_capacity v" and "n \<le> length bs"
  shows "\<exists>w. bv_commit n v = (Successful, w) \<and> bv_ok w \<and> bv_capacity w = bv_capacity v - n \<and> bv_begin w = bv_begin v \<and>
    bv_bytes (stored (bv_end_ptr v) n bs mem) w = bv_bytes mem v @ take n bs"
proof -
  let ?w = "v\<lparr>bv_end := bv_end v + n\<rparr>" and ?m = "stored (bv_end_ptr v) n bs mem"
  have n: "bv_end v + n \<le> bv_memory_size v" using assms(1,2) by (auto simp: bv_ok_simps) (auto simp: bv_ok_def)
  have ok: "bv_ok ?w" using assms(1) n by (auto simp: bv_ok_def)
  have le: "bv_begin v \<le> bv_end v" using assms(1) by (simp add: bv_ok_def)
  have c: "bv_commit n v = (Successful, ?w)" using bv_commit_ok [OF assms(1)] n by simp
  have new: "map ?m [bv_memory v + bv_end v ..< bv_memory v + bv_end v + n] = take n bs"
    using n assms(3) by (intro nth_equalityI) (auto simp: stored_def bv_ok_simps assms(1))
  have old: "map ?m [bv_memory v + bv_begin v ..< bv_memory v + bv_end v] = map mem [bv_memory v + bv_begin v ..< bv_memory v + bv_end v]"
    by (auto simp: stored_def bv_ok_simps assms(1))
  have "[bv_memory v + bv_begin v ..< bv_memory v + bv_end v + n] =
      [bv_memory v + bv_begin v ..< bv_memory v + bv_end v] @ [bv_memory v + bv_end v ..< bv_memory v + bv_end v + n]"
    using le upt_add_eq_append [of "bv_memory v + bv_begin v" "bv_memory v + bv_end v" n] by simp
  then have "bv_bytes ?m ?w = bv_bytes mem v @ take n bs"
    unfolding bv_bytes_def using new old by (simp add: bv_ok_simps ok assms(1) add.assoc)
  then show ?thesis using c ok assms(1) by (simp add: bv_ok_simps)
qed

fun accepted :: "send_answer \<Rightarrow> bool" where
  "accepted (Accepted k) = True"
| "accepted x = False"

fun refused :: "send_answer \<Rightarrow> bool" where
  "refused (SendRefused e) = True"
| "refused x = False"

lemma write_run_complete:
  assumes "bv_ok (so_view s)" and "ai_result (so_io s) = None"
    and "\<forall>x \<in> set xs. \<not> refused x" and "max 1 (bv_size (so_view s)) \<le> length (filter accepted xs)"
  shows "\<exists>s'. write_run mem xs s = Some (IOReturn, s') \<and> so_wire s' = so_wire s @ bv_bytes mem (so_view s) \<and>
    bv_ok (so_view s') \<and> bv_size (so_view s') = 0"
  using assms
proof (induction xs arbitrary: s)
  case Nil
  then show ?case by simp
next
  case (Cons x xs)
  let ?v = "so_view s"
  show ?case
  proof (cases x)
    case SendAgain
    let ?io = "(so_io s)\<lparr>ai_handle := Some EventPending\<rparr>"
    let ?s2 = "s\<lparr>so_io := ?io\<lparr>ai_resumed := ai_resumed (so_io s) @ [Error_default]\<rparr>\<rparr>"
    have "stream_send_poll mem (x # xs) s = Some (IOSuspend, s\<lparr>so_io := ?io\<rparr>, xs)"
      using Cons.prems(2) SendAgain by simp
    moreover have "io_event False ?io = Some (?io\<lparr>ai_resumed := ai_resumed (so_io s) @ [Error_default]\<rparr>)"
      using io_event_pending [of ?io EventPending] by simp
    ultimately have "write_run mem (x # xs) s = write_run mem xs ?s2" by (simp add: write_run.simps [of mem "x # xs"])
    then show ?thesis using Cons.IH [of ?s2] Cons.prems SendAgain by simp
  next
    case (Accepted k)
    define n where "n = min (Suc k) (bv_size ?v)"
    obtain v where v: "bv_consume n ?v = (Successful, v)" "bv_ok v" "bv_size v = bv_size ?v - n"
        "bv_bytes mem ?v = map mem [bv_data ?v ..< bv_data ?v + n] @ bv_bytes mem v"
      using bytes_split [OF Cons.prems(1), of n mem] by (auto simp: n_def)
    let ?s1 = "s\<lparr>so_io := (so_io s)\<lparr>ai_result := Some (int n)\<rparr>, so_wire := so_wire s @ map mem [bv_data ?v ..< bv_data ?v + n]\<rparr>"
    have step: "stream_send_poll mem (x # xs) s =
        (if bv_size v > 0 then stream_send_poll mem xs (stream_send_call v ?s1) else Some (IOReturn, ?s1\<lparr>so_view := v\<rparr>, xs))"
      using Cons.prems(2) Accepted v(1) by (simp add: Let_def slice_for_consumer_def n_def)
    show ?thesis
    proof (cases "bv_size v > 0")
      case True
      then have "write_run mem (x # xs) s = write_run mem xs (stream_send_call v ?s1)"
        using step by (simp add: write_run.simps [of mem "x # xs"] write_run.simps [of mem xs])
      moreover have "n \<ge> 1" using True v(3) by (auto simp: n_def)
      then have "max 1 (bv_size v) \<le> length (filter accepted xs)" using Cons.prems(4) v(3) True Accepted by auto
      ultimately show ?thesis
        using Cons.IH [of "stream_send_call v ?s1"] Cons.prems(3) v(2,4) by (auto simp: stream_send_call_def async_io_call_def)
    next
      case False
      then have "bv_bytes mem v = []" using v(2) by (auto simp: bv_bytes_def bv_ok_simps)
      then show ?thesis
        using step False v(2,4) by (simp add: write_run.simps [of mem "x # xs"])
    qed
  next
    case (SendRefused e)
    then show ?thesis using Cons.prems(3) by simp
  qed
qed

text \<open>
  A write on a stream sends everything. Whatever part of the buffer the kernel accepts at a time and
  however often it would block, the operation goes on until the view is empty; the bytes sent are the
  content of the view, in order and once.
\<close>

theorem stream_write_sends_everything:
  assumes "bv_ok v" and "\<forall>x \<in> set xs. \<not> refused x" and "max 1 (bv_size v) \<le> length (filter accepted xs)"
  shows "\<exists>s'. write_run mem xs (stream_send_call v s) = Some (IOReturn, s') \<and>
    so_wire s' = so_wire s @ bv_bytes mem v \<and> bv_size (so_view s') = 0"
  using write_run_complete [of "stream_send_call v s" xs mem] assms by (auto simp: stream_send_call_def async_io_call_def)

text \<open>
  A read appends to the view the bytes the kernel delivers, as many as fit. Without bytes the stream has
  ended. A view without free space also reads as the end of the stream.
\<close>

theorem stream_read_appends:
  assumes "bv_ok v"
  shows "\<exists>a s'. stream_recv_poll (Received bs) (stream_recv_call v s) = Some (a, s') \<and>
    (if bs = [] \<or> bv_capacity v = 0
     then a = IOThrow (make_error_stream ErrorStream_EndOfStream) \<and> ro_view s' = v
     else a = IOReturn \<and> bv_ok (ro_view s') \<and>
       bv_bytes (ro_mem s') (ro_view s') = bv_bytes (ro_mem s) v @ take (bv_capacity v) bs)"
proof -
  define n where "n = min (length bs) (bv_capacity v)"
  let ?m = "recv_store (Received bs) (slice_for_producer v) (ro_mem s)"
  have sys: "recv_syscall (Received bs) (bv_capacity v) = (int n, 0)" by (simp add: n_def)
  have poll: "stream_recv_poll (Received bs) (stream_recv_call v s) =
      (if n = 0 then Some (IOThrow (make_error_stream ErrorStream_EndOfStream),
         s\<lparr>ro_io := (ro_io s)\<lparr>ai_result := Some (int n)\<rparr>, ro_view := v, ro_mem := ?m\<rparr>)
       else case bv_commit n v of (Failed, _) \<Rightarrow> None
         | (Successful, w) \<Rightarrow> Some (IOReturn, s\<lparr>ro_io := (ro_io s)\<lparr>ai_result := Some (int n)\<rparr>, ro_view := w, ro_mem := ?m\<rparr>))"
    by (simp add: stream_recv_poll_def stream_recv_call_def async_io_call_def Let_def slice_for_producer_def sys
        del: recv_syscall.simps recv_store.simps split: prod.split SuccessfulFailed.split)
  show ?thesis
  proof (cases "n = 0")
    case True
    then have "bs = [] \<or> bv_capacity v = 0" by (auto simp: n_def min_def split: if_splits)
    then show ?thesis using poll True by simp
  next
    case False
    have n: "n \<le> bv_capacity v" "n \<le> length bs" by (simp_all add: n_def)
    have m: "?m = stored (bv_end_ptr v) n bs (ro_mem s)" by (simp add: slice_for_producer_def n_def)
    have "take n bs = take (bv_capacity v) bs" by (simp add: n_def min_def)
    moreover have "bs \<noteq> []" "bv_capacity v \<noteq> 0" using False by (auto simp: n_def)
    ultimately show ?thesis using poll False bytes_append [OF assms n, of "ro_mem s"] unfolding m by auto
  qed
qed

theorem stream_write_sends_everything_witness:
  "\<exists>s'. write_run id [Accepted 0, SendAgain, Accepted 7, Accepted 0] (stream_send_call (bv_new 100 8 2 5)
      \<lparr>so_io = sample_io, so_view = bv_new 0 0 0 0, so_wire = []\<rparr>) = Some (IOReturn, s') \<and> so_wire s' = [102, 103, 104]"
  using stream_write_sends_everything [of "bv_new 100 8 2 5" "[Accepted 0, SendAgain, Accepted 7, Accepted 0]" id
      "\<lparr>so_io = sample_io, so_view = bv_new 0 0 0 0, so_wire = []\<rparr>"]
  by (auto simp: bv_ok_def bv_new_def bv_size_def sub64_exact bv_bytes_def bv_data_def bv_end_ptr_def add64_exact upt_rec)

theorem stream_read_appends_witness:
  "\<exists>s'. stream_recv_poll (Received [7, 8, 9]) (stream_recv_call (bv_new 100 4 0 2)
      \<lparr>ro_io = sample_io, ro_view = bv_new 0 0 0 0, ro_mem = id\<rparr>) = Some (IOReturn, s') \<and>
     bv_bytes (ro_mem s') (ro_view s') = [100, 101, 7, 8]"
proof -
  have "bv_ok (bv_new 100 4 0 2)" "bv_capacity (bv_new 100 4 0 2) = 2" "bv_bytes id (bv_new 100 4 0 2) = [100, 101]"
    by (simp_all add: bv_ok_def bv_new_def bv_capacity_def sub64_exact bv_bytes_def bv_data_def bv_end_ptr_def add64_exact upt_rec)
  then show ?thesis
    using stream_read_appends [of "bv_new 100 4 0 2" "[7, 8, 9]" "\<lparr>ro_io = sample_io, ro_view = bv_new 0 0 0 0, ro_mem = id\<rparr>"]
    by auto
qed

end
