(* ===== verification/Jinx_Record.thy ===== *)
theory Jinx_Record
  imports Jinx_Hash "HOL-Library.Monad_Syntax"
begin

text \<open>
  Named records of values (\<^verbatim>\<open>include/jinx/record.hpp\<close>): the record classes, the category that owns them,
  and visitors.

  A record has a kind (its class template) and the type of its value (the template argument); both
  together are what \<^verbatim>\<open>get_type_id\<close> identifies. The values are those argument parsing uses. Numbers keep
  their width: \<^verbatim>\<open>size_t\<close> is a word of 64 bits, \<^verbatim>\<open>int\<close> one of 32 bits that is read with its sign. Of
  floating-point numbers only the operations in \<open>float_ops\<close> are used, which are a parameter.

  A category is a \<^verbatim>\<open>std::map\<close> from the hash of a name to a record: a list of pairs in the order of the
  hashes. A pointer to a record is its hash. An exception is a value of type \<open>failure\<close>, returned with the
  state in which it leaves the category; \<open>Undefined\<close> stands for a failed assertion.
\<close>

section \<open>Values and records\<close>

datatype val_type = TSize | TInt | TFloat | TBool | TString | TStringList

datatype 'f val = VSize "64 word" | VInt "32 word" | VFloat 'f | VBool bool | VString string | VList "string list"

primrec type_of :: "'f val \<Rightarrow> val_type" where
  "type_of (VSize n) = TSize"
| "type_of (VInt i) = TInt"
| "type_of (VFloat x) = TFloat"
| "type_of (VBool b) = TBool"
| "type_of (VString s) = TString"
| "type_of (VList ss) = TStringList"

datatype record_kind = RecordImmediate | RecordSecret | RecordSum

datatype failure = InvalidArgument string | OutOfRange string | Undefined

record 'f float_ops =
  fl_zero :: 'f
  fl_stof :: "string \<Rightarrow> failure + 'f"
  fl_less :: "'f \<Rightarrow> 'f \<Rightarrow> bool"
  fl_add :: "'f \<Rightarrow> 'f \<Rightarrow> 'f"
  fl_show :: "'f \<Rightarrow> string"

record 'f named_record =
  rc_name :: string
  rc_description :: string
  rc_kind :: record_kind
  rc_value :: "'f val"

definition record_new :: "record_kind \<Rightarrow> string \<Rightarrow> 'f val \<Rightarrow> 'f named_record" where
  "record_new k name v = \<lparr>rc_name = name, rc_description = [], rc_kind = k, rc_value = v\<rparr>"

definition get_type_id :: "'f named_record \<Rightarrow> record_kind \<times> val_type" where
  "get_type_id r = (rc_kind r, type_of (rc_value r))"

definition set_description :: "string \<Rightarrow> 'f named_record \<Rightarrow> 'f named_record" where
  "set_description d r = r\<lparr>rc_description := d\<rparr>"

text \<open>
  \<^verbatim>\<open>commit\<close>: a scalar record takes the value, a list appends it, a sum adds it. The type of the argument
  is checked at compile time; an addition of \<^verbatim>\<open>int\<close> that overflows is undefined. For \<^verbatim>\<open>bool\<close> and
  strings \<^verbatim>\<open>+=\<close> is a disjunction and a concatenation, for vectors it does not exist.
\<close>

definition record_commit :: "'f val \<Rightarrow> 'f named_record \<Rightarrow> 'f named_record option" where
  "record_commit v r = (case (rc_value r, v) of
       (VList xs, VString s) \<Rightarrow> if rc_kind r = RecordSum then None else Some (r\<lparr>rc_value := VList (xs @ [s])\<rparr>)
     | _ \<Rightarrow> if type_of v = type_of (rc_value r) \<and> rc_kind r \<noteq> RecordSum \<and> type_of v \<noteq> TStringList
           then Some (r\<lparr>rc_value := v\<rparr>) else None)"

definition sum_commit :: "'f float_ops \<Rightarrow> 'f val \<Rightarrow> 'f named_record \<Rightarrow> 'f named_record option" where
  "sum_commit fo v r = (if rc_kind r \<noteq> RecordSum then None else case (rc_value r, v) of
       (VSize a, VSize b) \<Rightarrow> Some (r\<lparr>rc_value := VSize (a + b)\<rparr>)
     | (VInt a, VInt b) \<Rightarrow> if sint (a + b) = sint a + sint b then Some (r\<lparr>rc_value := VInt (a + b)\<rparr>) else None
     | (VFloat x, VFloat y) \<Rightarrow> Some (r\<lparr>rc_value := VFloat (fl_add fo x y)\<rparr>)
     | (VBool a, VBool b) \<Rightarrow> Some (r\<lparr>rc_value := VBool (a \<or> b)\<rparr>)
     | (VString a, VString b) \<Rightarrow> Some (r\<lparr>rc_value := VString (a @ b)\<rparr>)
     | _ \<Rightarrow> None)"

text \<open>\<^verbatim>\<open>visit\<close>: secret records do not show their value. A visitor is a function on its own state.\<close>

type_synonym ('f, 's) visitor = "string \<Rightarrow> 'f val \<Rightarrow> 's \<Rightarrow> bool \<times> 's"

definition record_visit :: "('f, 's) visitor \<Rightarrow> 'f named_record \<Rightarrow> 's \<Rightarrow> bool \<times> 's" where
  "record_visit visitor r s = (if rc_kind r = RecordSecret then (False, s) else visitor (rc_name r) (rc_value r) s)"

text \<open>\<^verbatim>\<open>RecordVisitorGetValue<T>\<close> overrides the method for its own type.\<close>

definition visitor_get_value :: "val_type \<Rightarrow> ('f, 'f val option) visitor" where
  "visitor_get_value t name v s = (if type_of v = t \<and> t \<noteq> TStringList then (True, Some v) else (False, s))"

section \<open>Categories\<close>

type_synonym 'f category = "(64 word \<times> 'f named_record) list"

type_synonym ('f, 'a) cat_result = "(failure + 'a) \<times> 'f category"

text \<open>\<^verbatim>\<open>hash_string(name.c_str())\<close>.\<close>

definition name_hash :: "string \<Rightarrow> 64 word" where
  "name_hash name = (case hash_string (map of_char name @ [0]) of Some h \<Rightarrow> h | None \<Rightarrow> 0)"

definition type_conflict :: "string \<Rightarrow> failure" where
  "type_conflict name = InvalidArgument (''record '' @ [CHR 0x22] @ name @ [CHR 0x22] @ '' type conflict'')"

definition does_not_exist :: "string \<Rightarrow> failure" where
  "does_not_exist name = InvalidArgument (''record '' @ [CHR 0x22] @ name @ [CHR 0x22] @ '' does not exists'')"

definition map_emplace :: "64 word \<Rightarrow> 'f named_record \<Rightarrow> 'f category \<Rightarrow> 'f category" where
  "map_emplace h r c = insort_key fst (h, r) c"

definition update_record :: "64 word \<Rightarrow> ('f named_record \<Rightarrow> 'f named_record) \<Rightarrow> 'f category \<Rightarrow> 'f category" where
  "update_record h f c = map (\<lambda>(k, r). (k, if k = h then f r else r)) c"

definition category_insert :: "'f named_record \<Rightarrow> 'f category \<Rightarrow> ('f, bool) cat_result" where
  "category_insert record c =
     (let h = name_hash (rc_name record)
      in case map_of c h of
           Some r \<Rightarrow> if get_type_id record \<noteq> get_type_id r then (Inl (type_conflict (rc_name record)), c) else (Inr False, c)
         | None \<Rightarrow> (Inr True, map_emplace h record c))"

text \<open>\<^verbatim>\<open>get<R>(name, value)\<close>; the type of \<open>v\<close> is the one of the record class \<open>R\<close>.\<close>

definition category_get :: "record_kind \<Rightarrow> string \<Rightarrow> 'f val \<Rightarrow> 'f category \<Rightarrow> ('f, 64 word) cat_result" where
  "category_get k name v c =
     (let h = name_hash name
      in case map_of c h of
           Some r \<Rightarrow> if (k, type_of v) \<noteq> get_type_id r then (Inl (type_conflict name), c) else (Inr h, c)
         | None \<Rightarrow> (Inr h, map_emplace h (record_new k name v) c))"

definition category_check :: "record_kind \<Rightarrow> val_type \<Rightarrow> string \<Rightarrow> 'f category \<Rightarrow> failure + 64 word" where
  "category_check k t name c =
     (let h = name_hash name
      in case map_of c h of
           Some r \<Rightarrow> if (k, t) \<noteq> get_type_id r then Inl (type_conflict name) else Inr h
         | None \<Rightarrow> Inl (does_not_exist name))"

definition category_exists :: "string \<Rightarrow> 'f category \<Rightarrow> bool" where
  "category_exists name c \<longleftrightarrow> map_of c (name_hash name) \<noteq> None"

definition category_create :: "record_kind \<Rightarrow> string \<Rightarrow> string \<Rightarrow> 'f val \<Rightarrow> 'f category \<Rightarrow> ('f, 64 word) cat_result" where
  "category_create k name desc v c =
     (case category_get k name v c of
        (Inl e, c1) \<Rightarrow> (Inl e, c1)
      | (Inr h, c1) \<Rightarrow> (Inr h, update_record h (set_description desc) c1))"

definition category_visit_hash :: "('f, 's) visitor \<Rightarrow> 64 word \<Rightarrow> 'f category \<Rightarrow> 's \<Rightarrow> bool \<times> 's" where
  "category_visit_hash visitor h c s = (case map_of c h of None \<Rightarrow> (False, s) | Some r \<Rightarrow> record_visit visitor r s)"

definition category_visit :: "('f, 's) visitor \<Rightarrow> string \<Rightarrow> 'f category \<Rightarrow> 's \<Rightarrow> bool \<times> 's" where
  "category_visit visitor name c s =
     (case map_of c (name_hash name) of None \<Rightarrow> (False, s) | Some r \<Rightarrow> record_visit visitor r s)"

text \<open>\<^verbatim>\<open>foreach\<close> visits every record, also after the first success.\<close>

definition category_foreach :: "('f, 's) visitor \<Rightarrow> 'f category \<Rightarrow> 's \<Rightarrow> bool \<times> 's" where
  "category_foreach visitor c s =
     fold (\<lambda>(h, r) (res, s). let (b, s') = record_visit visitor r s in (res \<or> b, s')) c (False, s)"

section \<open>Printing\<close>

text \<open>Signed numbers as an output stream inserts them, and \<^verbatim>\<open>std::setw\<close> with \<^verbatim>\<open>std::left\<close>.\<close>

definition int_text :: "int \<Rightarrow> string" where
  "int_text i = (if i < 0 then CHR ''-'' # decimal (nat (- i)) else decimal (nat i))"

definition set_width :: "nat \<Rightarrow> string \<Rightarrow> string" where
  "set_width w s = s @ replicate (w - length s) (CHR '' '')"

fun comma_separated :: "string list \<Rightarrow> string" where
  "comma_separated [] = []"
| "comma_separated [s] = s"
| "comma_separated (s # t # ss) = s @ '','' @ comma_separated (t # ss)"

definition print_array :: "nat \<Rightarrow> string list \<Rightarrow> string" where
  "print_array vmax ss =
     ''['' @ comma_separated (take vmax ss) @ (if min (length ss) vmax < length ss then '',...'' else []) @ '']''"

primrec val_text :: "'f float_ops \<Rightarrow> 'f val \<Rightarrow> string" where
  "val_text fo (VSize n) = decimal (unat n)"
| "val_text fo (VInt i) = int_text (sint i)"
| "val_text fo (VFloat x) = fl_show fo x"
| "val_text fo (VBool b) = (if b then ''1'' else ''0'')"
| "val_text fo (VString s) = s"
| "val_text fo (VList ss) = print_array 16 ss"

definition visitor_print :: "'f float_ops \<Rightarrow> ('f, string) visitor" where
  "visitor_print fo name v out =
     (True, out @ (if type_of v = TStringList then '' '' @ name @ '': '' @ val_text fo v @ [LF]
                   else ''   '' @ set_width 30 name @ '': '' @ val_text fo v @ [LF]))"

definition category_print :: "'f float_ops \<Rightarrow> string \<Rightarrow> 'f category \<Rightarrow> string \<Rightarrow> bool \<times> string" where
  "category_print fo name c out = category_foreach (visitor_print fo) c (out @ name @ '': '' @ [LF])"

section \<open>Lookup\<close>

definition category_wf :: "'f category \<Rightarrow> bool" where
  "category_wf c \<longleftrightarrow> sorted (map fst c) \<and> distinct (map fst c) \<and> (\<forall>(h, r) \<in> set c. h = name_hash (rc_name r))"

lemma category_wf_empty [simp]: "category_wf []"
  by (simp add: category_wf_def)

lemma map_of_emplace:
  "map_of c h = None \<Longrightarrow> map_of (map_emplace h r c) k = (if k = h then Some r else map_of c k)"
  unfolding map_emplace_def by (induction c) (auto split: if_splits)

lemma map_of_update: "map_of (update_record h f c) k = (if k = h then map_option f (map_of c k) else map_of c k)"
  unfolding update_record_def by (induction c) auto

lemma keys_update [simp]: "map fst (update_record h f c) = map fst c"
  by (auto simp: update_record_def)

lemma wf_emplace:
  assumes "category_wf c" and "map_of c (name_hash (rc_name r)) = None"
  shows "category_wf (map_emplace (name_hash (rc_name r)) r c)"
  using assms unfolding category_wf_def map_emplace_def
  by (auto simp: sorted_insort_key distinct_insort set_insort_key map_of_eq_None_iff distinct_map)
    (metis fst_conv image_eqI)

lemma wf_update:
  assumes "category_wf c" and "\<And>r. name_hash (rc_name r) = h \<Longrightarrow> name_hash (rc_name (f r)) = h"
  shows "category_wf (update_record h f c)"
  using assms unfolding category_wf_def keys_update by (auto simp: update_record_def)

lemma wf_lookup: "category_wf c \<Longrightarrow> map_of c h = Some r \<Longrightarrow> h = name_hash (rc_name r)"
  by (auto simp: category_wf_def dest!: map_of_SomeD)

section \<open>Types are stable\<close>

text \<open>Committing through a pointer; the class of the record is known statically.\<close>

definition commit_at :: "'f float_ops \<Rightarrow> 64 word \<Rightarrow> 'f val \<Rightarrow> 'f category \<Rightarrow> 'f category option" where
  "commit_at fo h v c =
     do { r \<leftarrow> map_of c h;
          r' \<leftarrow> (if rc_kind r = RecordSum then sum_commit fo v r else record_commit v r);
          Some (update_record h (\<lambda>_. r') c) }"

datatype 'f rec_cmd = CmdInsert "'f named_record" | CmdCommit record_kind string string "'f val" "'f val"

text \<open>A program that creates records, commits to them, and catches the exceptions of type conflicts.\<close>

fun rec_exec :: "'f float_ops \<Rightarrow> 'f rec_cmd \<Rightarrow> 'f category \<Rightarrow> 'f category option" where
  "rec_exec fo (CmdInsert r) c = Some (snd (category_insert r c))"
| "rec_exec fo (CmdCommit k name desc d v) c =
     (case category_create k name desc d c of
        (Inl e, c1) \<Rightarrow> Some c1
      | (Inr h, c1) \<Rightarrow> commit_at fo h v c1)"

definition element_type :: "val_type \<Rightarrow> val_type" where
  "element_type t = (if t = TStringList then TString else t)"

text \<open>What the compiler checks: the argument has the type of the value or of its elements, and there is no sum of vectors.\<close>

fun cmd_typed :: "'f rec_cmd \<Rightarrow> bool" where
  "cmd_typed (CmdInsert r) \<longleftrightarrow> True"
| "cmd_typed (CmdCommit k name desc d v) \<longleftrightarrow>
     type_of v = element_type (type_of d) \<and> (k = RecordSum \<longrightarrow> type_of d \<noteq> TStringList)"

text \<open>The commit of a command adds two numbers of type \<^verbatim>\<open>int\<close> whose sum is none.\<close>

definition int_overflow :: "'f val \<Rightarrow> 'f val \<Rightarrow> bool" where
  "int_overflow x y = (case (x, y) of (VInt a, VInt b) \<Rightarrow> sint a + sint b \<notin> {- (2 ^ 31) ..< 2 ^ 31} | _ \<Rightarrow> False)"

fun sum_overflows :: "'f rec_cmd \<Rightarrow> 'f category \<Rightarrow> bool" where
  "sum_overflows (CmdInsert r) c = False"
| "sum_overflows (CmdCommit k name desc d v) c =
     (case category_create k name desc d c of
        (Inl e, c1) \<Rightarrow> False
      | (Inr h, c1) \<Rightarrow> k = RecordSum \<and> (case map_of c1 h of None \<Rightarrow> False | Some r \<Rightarrow> int_overflow (rc_value r) v))"

definition keeps_types :: "'f category \<Rightarrow> 'f category \<Rightarrow> bool" where
  "keeps_types c c' \<longleftrightarrow> (\<forall>h r. map_of c h = Some r \<longrightarrow>
     (\<exists>r'. map_of c' h = Some r' \<and> get_type_id r' = get_type_id r \<and> rc_name r' = rc_name r))"

lemma keeps_types_refl [simp]: "keeps_types c c"
  by (auto simp: keeps_types_def)

lemma keeps_types_trans: "keeps_types a b \<Longrightarrow> keeps_types b c \<Longrightarrow> keeps_types a c"
  unfolding keeps_types_def by metis

lemma keeps_types_update:
  assumes "\<And>r. map_of c h = Some r \<Longrightarrow> get_type_id (f r) = get_type_id r \<and> rc_name (f r) = rc_name r"
  shows "keeps_types c (update_record h f c)"
  using assms by (auto simp: keeps_types_def map_of_update)

lemma sint_add_overflow: "sint (a + b) = sint a + sint b \<longleftrightarrow> sint a + sint b \<in> {- (2 ^ 31) ..< 2 ^ 31}" for a b :: "32 word"
  using sint_greater_eq [of "a + b"] sint_less [of "a + b"]
  by (auto simp: sint_word_ariths(1) signed_take_bit_int_eq_self_iff)

lemma commit_typed:
  assumes "get_type_id r = (k, t)" and "type_of v = element_type t" and "k = RecordSum \<longrightarrow> t \<noteq> TStringList"
  shows "if k = RecordSum \<and> int_overflow (rc_value r) v
    then (if rc_kind r = RecordSum then sum_commit fo v r else record_commit v r) = None
    else \<exists>r'. (if rc_kind r = RecordSum then sum_commit fo v r else record_commit v r) = Some r' \<and>
      get_type_id r' = (k, t) \<and> rc_name r' = rc_name r"
  using assms
  by (cases "rc_value r"; cases v; cases "rc_kind r")
    (auto simp: get_type_id_def element_type_def record_commit_def sum_commit_def int_overflow_def sint_add_overflow)

lemma insert_ok:
  assumes "category_wf c"
  shows "category_wf (snd (category_insert r c)) \<and> keeps_types c (snd (category_insert r c))"
  using assms wf_emplace [OF assms, of r]
  by (auto simp: category_insert_def Let_def keeps_types_def map_of_emplace split: option.splits)

lemma get_ok:
  assumes "category_wf c"
  shows "category_wf (snd (category_get k name v c)) \<and> keeps_types c (snd (category_get k name v c)) \<and>
    (\<forall>h. fst (category_get k name v c) = Inr h \<longrightarrow>
      h = name_hash name \<and> (\<exists>r. map_of (snd (category_get k name v c)) h = Some r \<and> get_type_id r = (k, type_of v)))"
  using assms wf_emplace [OF assms, of "record_new k name v"]
  by (auto simp: category_get_def Let_def keeps_types_def map_of_emplace record_new_def get_type_id_def split: option.splits)

lemma create_ok:
  assumes "category_wf c"
  shows "category_wf (snd (category_create k name desc v c)) \<and> keeps_types c (snd (category_create k name desc v c)) \<and>
    (\<forall>h. fst (category_create k name desc v c) = Inr h \<longrightarrow>
      h = name_hash name \<and> (\<exists>r. map_of (snd (category_create k name desc v c)) h = Some r \<and> get_type_id r = (k, type_of v)))"
proof (cases "category_get k name v c")
  case (Pair res c1)
  have d: "get_type_id (set_description desc r) = get_type_id r" "rc_name (set_description desc r) = rc_name r" for r :: "'a named_record"
    by (simp_all add: set_description_def get_type_id_def)
  note g = get_ok [OF assms, of k name v, unfolded Pair fst_conv snd_conv]
  show ?thesis
    using g wf_update [of c1 _ "set_description desc"] keeps_types_trans [OF _ keeps_types_update, of c c1 _ "set_description desc"]
    by (cases res) (auto simp: category_create_def Pair map_of_update d)
qed

lemma rec_exec_ok:
  assumes "category_wf c" and "cmd_typed cmd"
  shows "if sum_overflows cmd c then rec_exec fo cmd c = None
    else \<exists>c'. rec_exec fo cmd c = Some c' \<and> category_wf c' \<and> keeps_types c c'"
proof (cases cmd)
  case (CmdInsert r)
  then show ?thesis using insert_ok [OF assms(1)] by simp
next
  case (CmdCommit k name desc d v)
  obtain res c1 where c1: "category_create k name desc d c = (res, c1)" by fastforce
  note k = create_ok [OF assms(1), of k name desc d, unfolded c1 fst_conv snd_conv]
  show ?thesis
  proof (cases res)
    case (Inr h)
    then obtain r where r: "map_of c1 h = Some r" "get_type_id r = (k, type_of d)" using k by auto
    have ov: "sum_overflows cmd c \<longleftrightarrow> k = RecordSum \<and> int_overflow (rc_value r) v" using CmdCommit c1 Inr r(1) by simp
    have t: "type_of v = element_type (type_of d)" "k = RecordSum \<longrightarrow> type_of d \<noteq> TStringList" using assms(2) CmdCommit by auto
    show ?thesis
    proof (cases "sum_overflows cmd c")
      case True
      then show ?thesis using commit_typed [OF r(2) t, of fo] ov CmdCommit c1 Inr r(1) by (simp add: commit_at_def)
    next
      case False
      obtain r' where r': "(if rc_kind r = RecordSum then sum_commit fo v r else record_commit v r) = Some r'"
          "get_type_id r' = (k, type_of d)" "rc_name r' = rc_name r"
        using commit_typed [OF r(2) t, of fo] ov False by auto
      have "category_wf (update_record h (\<lambda>_. r') c1)"
        using k r(1) r'(3) wf_lookup [of c1 h r] by (intro wf_update) auto
      moreover have "keeps_types c (update_record h (\<lambda>_. r') c1)"
        using k r r' by (auto intro!: keeps_types_trans [OF _ keeps_types_update])
      moreover have "rec_exec fo cmd c = Some (update_record h (\<lambda>_. r') c1)"
        using CmdCommit c1 Inr r(1) r'(1) by (simp add: commit_at_def)
      ultimately show ?thesis using False by auto
    qed
  qed (use k c1 CmdCommit in simp)
qed

lemma sum_overflows_kind: "sum_overflows (CmdCommit k name desc d v) c \<Longrightarrow> k = RecordSum"
  by (cases "category_create k name desc d c"; cases "fst (category_create k name desc d c)") auto

text \<open>Some command of the program overflows when its turn comes.\<close>

definition run_overflows :: "'f float_ops \<Rightarrow> 'f rec_cmd list \<Rightarrow> 'f category \<Rightarrow> bool" where
  "run_overflows fo cmds c \<longleftrightarrow>
     (\<exists>before cmd after c1. cmds = before @ cmd # after \<and> run_all (rec_exec fo) before c = Some c1 \<and> sum_overflows cmd c1)"

lemma run_overflows_Nil [simp]: "\<not> run_overflows fo [] c"
  by (simp add: run_overflows_def)

lemma run_overflows_Cons:
  "run_overflows fo (cmd # cmds) c \<longleftrightarrow> sum_overflows cmd c \<or> (\<exists>c1. rec_exec fo cmd c = Some c1 \<and> run_overflows fo cmds c1)"
proof
  assume "run_overflows fo (cmd # cmds) c"
  then obtain before x after c1 where b: "cmd # cmds = before @ x # after" "run_all (rec_exec fo) before c = Some c1" "sum_overflows x c1"
    by (auto simp: run_overflows_def)
  then show "sum_overflows cmd c \<or> (\<exists>c1. rec_exec fo cmd c = Some c1 \<and> run_overflows fo cmds c1)"
    by (cases before) (auto simp: run_overflows_def bind_Some_iff split: option.splits)
next
  assume "sum_overflows cmd c \<or> (\<exists>c1. rec_exec fo cmd c = Some c1 \<and> run_overflows fo cmds c1)"
  then show "run_overflows fo (cmd # cmds) c"
  proof
    assume "sum_overflows cmd c"
    then show ?thesis unfolding run_overflows_def by (intro exI [of _ "[]"] exI [of _ cmd] exI [of _ cmds] exI [of _ c]) simp
  next
    assume "\<exists>c1. rec_exec fo cmd c = Some c1 \<and> run_overflows fo cmds c1"
    then obtain c1 before x after c2 where "rec_exec fo cmd c = Some c1" "cmds = before @ x # after"
        "run_all (rec_exec fo) before c1 = Some c2" "sum_overflows x c2" by (auto simp: run_overflows_def)
    then show ?thesis unfolding run_overflows_def
      by (intro exI [of _ "cmd # before"] exI [of _ x] exI [of _ after] exI [of _ c2]) simp
  qed
qed

lemma records_run:
  assumes "category_wf c" and "\<forall>cmd \<in> set cmds. cmd_typed cmd"
  shows "if run_overflows fo cmds c then run_all (rec_exec fo) cmds c = None
    else \<exists>c'. run_all (rec_exec fo) cmds c = Some c' \<and> category_wf c' \<and> keeps_types c c'"
  using assms
proof (induction cmds arbitrary: c)
  case (Cons cmd cmds)
  show ?case
  proof (cases "sum_overflows cmd c")
    case True
    then show ?thesis using rec_exec_ok [OF Cons.prems(1), of cmd fo] Cons.prems(2) by (simp add: run_overflows_Cons)
  next
    case False
    then obtain c1 where c1: "rec_exec fo cmd c = Some c1" "category_wf c1" "keeps_types c c1"
      using rec_exec_ok [OF Cons.prems(1), of cmd fo] Cons.prems(2) by auto
    then show ?thesis
      using Cons.IH [OF c1(2)] Cons.prems(2) keeps_types_trans [OF c1(3)] False by (auto simp: run_overflows_Cons)
  qed
qed simp


definition sample_float :: "int float_ops" where
  "sample_float = \<lparr>fl_zero = 0, fl_stof = (\<lambda>s. if s = ''1'' then Inr 1 else Inl (InvalidArgument ''stof'')), fl_less = (<), fl_add = (+), fl_show = int_text\<rparr>"


section \<open>Secrets\<close>

definition same_public :: "'f category \<Rightarrow> 'f category \<Rightarrow> bool" where
  "same_public = list_all2 (\<lambda>(h, r) (k, q). h = k \<and> rc_kind r = rc_kind q \<and> (rc_kind r \<noteq> RecordSecret \<longrightarrow> r = q))"

text \<open>
  Secrets are not shown. Two categories that differ only in secret records look the same to every
  visitor, whether it visits them one by one or all together: no secret value flows into what a visitor
  computes or prints.
\<close>

theorem secrets_are_not_shown:
  assumes "same_public c d"
  shows "category_foreach visitor c s = category_foreach visitor d s \<and>
    category_visit visitor name c s = category_visit visitor name d s"
proof -
  have "fold (\<lambda>(h, r) (res, s). let (b, s') = record_visit visitor r s in (res \<or> b, s')) c st =
      fold (\<lambda>(h, r) (res, s). let (b, s') = record_visit visitor r s in (res \<or> b, s')) d st" for st
    using assms unfolding same_public_def
    by (induction arbitrary: st rule: list_all2_induct) (auto simp: record_visit_def)
  moreover have "(case map_of c h of None \<Rightarrow> (False, s) | Some r \<Rightarrow> record_visit visitor r s) =
      (case map_of d h of None \<Rightarrow> (False, s) | Some r \<Rightarrow> record_visit visitor r s)" for h
    using assms unfolding same_public_def
    by (induction rule: list_all2_induct) (auto simp: record_visit_def)
  ultimately show ?thesis by (simp add: category_foreach_def category_visit_def)
qed

theorem secrets_are_not_shown_witness:
  "category_print sample_float ''config'' [(name_hash ''pw'', record_new RecordSecret ''pw'' (VString ''abc''))] [] =
   category_print sample_float ''config'' [(name_hash ''pw'', record_new RecordSecret ''pw'' (VString ''xyz''))] []"
  unfolding category_print_def
  by (rule conjunct1 [OF secrets_are_not_shown]) (simp add: same_public_def record_new_def)

end
