(* ===== verification/Jinx_Args.thy ===== *)
theory Jinx_Args
  imports Jinx_Record
begin

text \<open>
  Command line arguments (\<^verbatim>\<open>include/jinx/argparse.hpp\<close>, \<^verbatim>\<open>src/argparse.cpp\<close>): the description of an option,
  the conversion of its text, and the functions that fill a category of records from a command line or a
  dictionary.

  \<^verbatim>\<open>std::stoul\<close> and the regular expression of an option are written out; reading a floating-point number
  is one of the \<open>float_ops\<close>. The options of a program are a list; the hash table that \<^verbatim>\<open>parse_argv\<close> builds
  of them is the list of the first option of each name, and the order in which the table is traversed is
  an argument, because it is unspecified. Help goes to the error stream, which is part of the result.
\<close>

section \<open>Arguments\<close>

datatype ArgumentType = TypeInvalid | TypeSize | TypeFloat | TypeBool | TypeInteger | TypeString | TypeStringList

record 'f argument =
  ag_name :: string
  ag_desc :: string
  ag_type :: ArgumentType
  ag_secret :: bool
  ag_size_default :: "64 word"
  ag_size_min :: "64 word"
  ag_size_max :: "64 word"
  ag_int_default :: "32 word"
  ag_int_min :: "32 word"
  ag_int_max :: "32 word"
  ag_float_default :: 'f
  ag_float_min :: 'f
  ag_float_max :: 'f
  ag_string_default :: string
  ag_string_min :: nat
  ag_string_max :: nat
  ag_bool_default :: bool
  ag_string_list_default :: "string list"

text \<open>The constructors set the fields of their type and leave the others at their initial values.\<close>

definition argument_base :: "'f float_ops \<Rightarrow> string \<Rightarrow> string \<Rightarrow> bool \<Rightarrow> ArgumentType \<Rightarrow> 'f argument" where
  "argument_base fo name desc secret ty = \<lparr>ag_name = name, ag_desc = desc, ag_type = ty, ag_secret = secret,
     ag_size_default = 0, ag_size_min = 0, ag_size_max = 0, ag_int_default = 0, ag_int_min = 0, ag_int_max = 0,
     ag_float_default = fl_zero fo, ag_float_min = fl_zero fo, ag_float_max = fl_zero fo,
     ag_string_default = [], ag_string_min = 0, ag_string_max = 0, ag_bool_default = False, ag_string_list_default = []\<rparr>"

definition argument_size :: "'f float_ops \<Rightarrow> string \<Rightarrow> 64 word \<Rightarrow> 64 word \<Rightarrow> 64 word \<Rightarrow> string \<Rightarrow> bool \<Rightarrow> 'f argument" where
  "argument_size fo name d lo hi desc secret = (argument_base fo name desc secret TypeSize)
     \<lparr>ag_size_default := d, ag_size_min := lo, ag_size_max := hi\<rparr>"

definition argument_float :: "'f float_ops \<Rightarrow> string \<Rightarrow> 'f \<Rightarrow> 'f \<Rightarrow> 'f \<Rightarrow> string \<Rightarrow> bool \<Rightarrow> 'f argument" where
  "argument_float fo name d lo hi desc secret = (argument_base fo name desc secret TypeFloat)
     \<lparr>ag_float_default := d, ag_float_min := lo, ag_float_max := hi\<rparr>"

definition argument_int :: "'f float_ops \<Rightarrow> string \<Rightarrow> 32 word \<Rightarrow> 32 word \<Rightarrow> 32 word \<Rightarrow> string \<Rightarrow> bool \<Rightarrow> 'f argument" where
  "argument_int fo name d lo hi desc secret = (argument_base fo name desc secret TypeInteger)
     \<lparr>ag_int_default := d, ag_int_min := lo, ag_int_max := hi\<rparr>"

definition argument_string :: "'f float_ops \<Rightarrow> string \<Rightarrow> string \<Rightarrow> nat \<Rightarrow> nat \<Rightarrow> string \<Rightarrow> bool \<Rightarrow> 'f argument" where
  "argument_string fo name d lo hi desc secret = (argument_base fo name desc secret TypeString)
     \<lparr>ag_string_default := d, ag_string_min := lo, ag_string_max := hi\<rparr>"

definition argument_bool :: "'f float_ops \<Rightarrow> string \<Rightarrow> bool \<Rightarrow> string \<Rightarrow> bool \<Rightarrow> 'f argument" where
  "argument_bool fo name d desc secret = (argument_base fo name desc secret TypeBool)\<lparr>ag_bool_default := d\<rparr>"

definition argument_string_list ::
    "'f float_ops \<Rightarrow> string \<Rightarrow> string list \<Rightarrow> nat \<Rightarrow> nat \<Rightarrow> string \<Rightarrow> bool \<Rightarrow> 'f argument" where
  "argument_string_list fo name d lo hi desc secret = (argument_base fo name desc secret TypeStringList)
     \<lparr>ag_string_list_default := d, ag_string_min := lo, ag_string_max := hi\<rparr>"

text \<open>\<^verbatim>\<open>get_default\<close>, overloaded on the type.\<close>

definition get_default :: "'f argument \<Rightarrow> val_type \<Rightarrow> 'f val" where
  "get_default a t = (case t of TSize \<Rightarrow> VSize (ag_size_default a) | TInt \<Rightarrow> VInt (ag_int_default a)
     | TFloat \<Rightarrow> VFloat (ag_float_default a) | TBool \<Rightarrow> VBool (ag_bool_default a)
     | TString \<Rightarrow> VString (ag_string_default a) | TStringList \<Rightarrow> VList (ag_string_list_default a))"

definition record_class :: "'f argument \<Rightarrow> record_kind" where
  "record_class a = (if ag_secret a then RecordSecret else RecordImmediate)"

text \<open>\<^verbatim>\<open>_commit<O, T>\<close> and \<^verbatim>\<open>_get<O, T>\<close>.\<close>

definition arg_commit :: "'f argument \<Rightarrow> val_type \<Rightarrow> 'f val \<Rightarrow> 'f category \<Rightarrow> ('f, unit) cat_result" where
  "arg_commit a t v c =
     (case category_create (record_class a) (ag_name a) (ag_desc a) (get_default a t) c of
        (Inl e, c1) \<Rightarrow> (Inl e, c1)
      | (Inr h, c1) \<Rightarrow>
          (case map_of c1 h \<bind> record_commit v of
             None \<Rightarrow> (Inl Undefined, c1)
           | Some r \<Rightarrow> (Inr (), update_record h (\<lambda>_. r) c1)))"

definition arg_get :: "'f argument \<Rightarrow> val_type \<Rightarrow> 'f category \<Rightarrow> ('f, 'f val) cat_result" where
  "arg_get a t c =
     (case category_create (record_class a) (ag_name a) (ag_desc a) (get_default a t) c of
        (Inl e, c1) \<Rightarrow> (Inl e, c1)
      | (Inr h, c1) \<Rightarrow> (case map_of c1 h of None \<Rightarrow> (Inl Undefined, c1) | Some r \<Rightarrow> (Inr (rc_value r), c1)))"

section \<open>Converting and checking values\<close>

text \<open>\<^verbatim>\<open>std::stoul\<close> in base 10: white space and a sign are accepted, what follows the digits is ignored.\<close>

definition stoul :: "string \<Rightarrow> failure + 64 word" where
  "stoul s =
     (let s1 = dropWhile isspace s;
          neg = (s1 \<noteq> [] \<and> hd s1 = CHR ''-'');
          s2 = (if s1 \<noteq> [] \<and> (hd s1 = CHR ''-'' \<or> hd s1 = CHR ''+'') then tl s1 else s1);
          ds = takeWhile isdigit s2; n = digits_value ds
      in if ds = [] then Inl (InvalidArgument ''stoul'')
         else if n \<ge> 2 ^ 64 then Inl (OutOfRange ''stoul'')
         else Inr (if neg then - of_nat n else of_nat n))"

definition truth_words :: "string list" where
  "truth_words = [''true'', ''True'', ''TRUE'', ''yes'', ''Yes'', ''YES'', ''ok'', ''positive'']"

text \<open>The value each branch of \<^verbatim>\<open>apply\<close> commits, and the type of the record it commits to.\<close>

definition arg_convert :: "'f float_ops \<Rightarrow> 'f argument \<Rightarrow> string \<Rightarrow> failure + val_type \<times> 'f val" where
  "arg_convert fo a s = (case ag_type a of
       TypeSize \<Rightarrow> map_sum id (\<lambda>n. (TSize, VSize n)) (stoul s)
     | TypeInteger \<Rightarrow> map_sum id (\<lambda>n. (TInt, VInt (ucast n))) (stoul s)
     | TypeFloat \<Rightarrow> map_sum id (\<lambda>x. (TFloat, VFloat x)) (fl_stof fo s)
     | TypeString \<Rightarrow> Inr (TString, VString s)
     | TypeBool \<Rightarrow> Inr (TBool, VBool (s \<in> set truth_words))
     | TypeStringList \<Rightarrow> Inr (TStringList, VString s)
     | TypeInvalid \<Rightarrow> Inl Undefined)"

definition arg_apply :: "'f float_ops \<Rightarrow> 'f argument \<Rightarrow> string \<Rightarrow> 'f category \<Rightarrow> ('f, unit) cat_result" where
  "arg_apply fo a s c = (case arg_convert fo a s of Inl e \<Rightarrow> (Inl e, c) | Inr (t, v) \<Rightarrow> arg_commit a t v c)"

definition range_message :: "string \<Rightarrow> string \<Rightarrow> string \<Rightarrow> string \<Rightarrow> failure" where
  "range_message name v lo hi =
     OutOfRange (''the value of '' @ name @ '' is '' @ v @ ''. min is '' @ lo @ ''. max is '' @ hi)"

definition length_message :: "string \<Rightarrow> string \<Rightarrow> string \<Rightarrow> nat \<Rightarrow> nat \<Rightarrow> failure" where
  "length_message what name s lo hi =
     OutOfRange (''the size of '' @ what @ '' '' @ name @ [CHR ''='', CHR 0x27] @ s @ [CHR 0x27] @ '' out of range. ('' @
       decimal lo @ '' <= size <= '' @ decimal hi @ '')'')"

text \<open>The checks of \<^verbatim>\<open>validate\<close>: \<^verbatim>\<open>_check_range\<close> for numbers, the length for texts.\<close>

definition check_value :: "'f float_ops \<Rightarrow> 'f argument \<Rightarrow> 'f val \<Rightarrow> failure + unit" where
  "check_value fo a v = (case v of
       VSize n \<Rightarrow> if n < ag_size_min a \<or> n > ag_size_max a
                  then Inl (range_message (ag_name a) (val_text fo v) (val_text fo (VSize (ag_size_min a))) (val_text fo (VSize (ag_size_max a))))
                  else Inr ()
     | VInt i \<Rightarrow> if sint i < sint (ag_int_min a) \<or> sint i > sint (ag_int_max a)
                  then Inl (range_message (ag_name a) (val_text fo v) (val_text fo (VInt (ag_int_min a))) (val_text fo (VInt (ag_int_max a))))
                  else Inr ()
     | VFloat x \<Rightarrow> if fl_less fo x (ag_float_min a) \<or> fl_less fo (ag_float_max a) x
                  then Inl (range_message (ag_name a) (val_text fo v) (val_text fo (VFloat (ag_float_min a))) (val_text fo (VFloat (ag_float_max a))))
                  else Inr ()
     | VString s \<Rightarrow> if length s < ag_string_min a \<or> length s > ag_string_max a
                  then Inl (length_message (if ag_type a = TypeStringList then ''list'' else ''string'') (ag_name a) s (ag_string_min a) (ag_string_max a))
                  else Inr ()
     | _ \<Rightarrow> Inr ())"

text \<open>The type of the record \<^verbatim>\<open>validate\<close> asks for: a text for lists of texts, too.\<close>

definition validated_type :: "'f argument \<Rightarrow> val_type option" where
  "validated_type a = (case ag_type a of TypeSize \<Rightarrow> Some TSize | TypeInteger \<Rightarrow> Some TInt | TypeFloat \<Rightarrow> Some TFloat
     | TypeString \<Rightarrow> Some TString | TypeBool \<Rightarrow> Some TBool | TypeStringList \<Rightarrow> Some TString | TypeInvalid \<Rightarrow> None)"

definition arg_validate :: "'f float_ops \<Rightarrow> 'f argument \<Rightarrow> 'f category \<Rightarrow> ('f, unit) cat_result" where
  "arg_validate fo a c = (case validated_type a of
       None \<Rightarrow> (Inl Undefined, c)
     | Some t \<Rightarrow> (case arg_get a t c of (Inl e, c1) \<Rightarrow> (Inl e, c1) | (Inr v, c1) \<Rightarrow> (check_value fo a v, c1)))"

section \<open>Command lines and dictionaries\<close>

definition print_help :: "'f argument list \<Rightarrow> string" where
  "print_help args =
     (let width = fold (\<lambda>a w. if length (ag_name a) > w then length (ag_name a) else w) args 0 + 10
      in concat (map (\<lambda>a. set_width width (''--'' @ ag_name a @ ''=...'') @ ag_desc a @ [LF]) args))"

text \<open>\<^verbatim>\<open>--([a-zA-Z0-9-]+)=(.+)\<close>, where the dot matches everything but a line terminator.\<close>

definition key_char :: "char \<Rightarrow> bool" where
  "key_char c \<longleftrightarrow> isdigit c \<or> c = CHR ''-'' \<or> (65 \<le> (of_char c :: nat) \<and> (of_char c :: nat) \<le> 90) \<or>
     (97 \<le> (of_char c :: nat) \<and> (of_char c :: nat) \<le> 122)"

definition match_option :: "string \<Rightarrow> (string \<times> string) option" where
  "match_option s =
     (let k = takeWhile key_char (drop 2 s); rest = dropWhile key_char (drop 2 s)
      in if take 2 s = ''--'' \<and> k \<noteq> [] \<and> rest \<noteq> [] \<and> hd rest = CHR ''='' \<and> tl rest \<noteq> [] \<and> LF \<notin> set (tl rest) \<and> CR \<notin> set (tl rest)
         then Some (k, tl rest) else None)"

text \<open>The table of arguments: \<^verbatim>\<open>emplace\<close> keeps the first one of a name.\<close>

definition argument_table :: "'f argument list \<Rightarrow> 'f argument list" where
  "argument_table args = fold (\<lambda>a m. if ag_name a \<in> ag_name ` set m then m else m @ [a]) args []"

fun apply_argv :: "'f float_ops \<Rightarrow> 'f argument list \<Rightarrow> 'f argument list \<Rightarrow> string list \<Rightarrow> 'f category \<Rightarrow>
    (failure + unit) \<times> 'f category \<times> string" where
  "apply_argv fo args table [] c = (Inr (), c, [])"
| "apply_argv fo args table (s # ss) c =
     (case match_option s of
        None \<Rightarrow> (Inl (InvalidArgument (''invalid option: '' @ s)), c, print_help args)
      | Some (key, value) \<Rightarrow>
          (case find (\<lambda>a. ag_name a = key) table of
             None \<Rightarrow> (Inl (InvalidArgument ''unknown option''), c, [])
           | Some a \<Rightarrow>
               (case arg_apply fo a value c of
                  (Inl e, c1) \<Rightarrow> (Inl e, c1, [])
                | (Inr _, c1) \<Rightarrow> apply_argv fo args table ss c1)))"

fun validate_all :: "'f float_ops \<Rightarrow> 'f argument list \<Rightarrow> 'f category \<Rightarrow> ('f, unit) cat_result" where
  "validate_all fo [] c = (Inr (), c)"
| "validate_all fo (a # as) c =
     (case arg_validate fo a c of (Inl e, c1) \<Rightarrow> (Inl e, c1) | (Inr _, c1) \<Rightarrow> validate_all fo as c1)"

definition parse_argv :: "'f float_ops \<Rightarrow> ('f argument list \<Rightarrow> 'f argument list) \<Rightarrow> string list \<Rightarrow> 'f argument list \<Rightarrow>
    'f category \<Rightarrow> (failure + unit) \<times> 'f category \<times> string" where
  "parse_argv fo order argv args c =
     (let table = argument_table args
      in case apply_argv fo args table (tl argv) c of
           (Inl e, c1, out) \<Rightarrow> (Inl e, c1, out)
         | (Inr _, c1, out) \<Rightarrow> (case validate_all fo (order table) c1 of (res, c2) \<Rightarrow> (res, c2, out)))"

text \<open>\<^verbatim>\<open>apply_options\<close> takes the options out of a dictionary; an option that is left is unknown.\<close>

fun apply_options_loop :: "'f float_ops \<Rightarrow> 'f argument list \<Rightarrow> (string \<times> string) list \<Rightarrow> 'f category \<Rightarrow>
    (failure + unit) \<times> (string \<times> string) list \<times> 'f category" where
  "apply_options_loop fo [] dict c = (Inr (), dict, c)"
| "apply_options_loop fo (a # as) dict c =
     (case (case map_of dict (ag_name a) of None \<Rightarrow> (Inr (), c) | Some s \<Rightarrow> arg_apply fo a s c) of
        (Inl e, c1) \<Rightarrow> (Inl e, dict, c1)
      | (Inr _, c1) \<Rightarrow>
          let dict1 = filter (\<lambda>(k, s). k \<noteq> ag_name a) dict
          in (case arg_validate fo a c1 of
                (Inl e, c2) \<Rightarrow> (Inl e, dict1, c2)
              | (Inr _, c2) \<Rightarrow> apply_options_loop fo as dict1 c2))"

definition apply_options :: "'f float_ops \<Rightarrow> (string \<times> string) list \<Rightarrow> 'f argument list \<Rightarrow> 'f category \<Rightarrow>
    (failure + unit) \<times> (string \<times> string) list \<times> 'f category" where
  "apply_options fo dict args c =
     (case apply_options_loop fo args dict c of
        (Inl e, d, c1) \<Rightarrow> (Inl e, d, c1)
      | (Inr _, d, c1) \<Rightarrow> (if d \<noteq> [] then Inl (InvalidArgument ''unknown option'') else Inr (), d, c1))"

section \<open>Reading numbers back\<close>

lemma takeWhile_digits: "takeWhile isdigit (decimal n) = decimal n"
  by (rule takeWhile_eq_all_conv [THEN iffD2]) (use decimal_digits in blast)

lemma hd_decimal: "isdigit (hd (decimal n))"
  by (intro decimal_digits [of _ n] hd_in_set) simp

lemma stoul_decimal:
  assumes "n < 2 ^ 64"
  shows "stoul (decimal n) = Inr (of_nat n)" "stoul (CHR ''-'' # decimal n) = Inr (- of_nat n)"
proof -
  have h: "hd (decimal n) \<noteq> CHR ''-''" "hd (decimal n) \<noteq> CHR ''+''" "dropWhile isspace (decimal n) = decimal n"
    using hd_decimal [of n] digit_is_no_space [OF hd_decimal, of n]
    by (auto simp: isdigit_def) (cases "decimal n"; simp)
  then show "stoul (decimal n) = Inr (of_nat n)"
    using assms by (simp add: stoul_def Let_def takeWhile_digits digits_value_decimal)
  have "\<not> isspace (CHR ''-'')" by (simp add: isspace_def CR_def LF_def TAB_def)
  then show "stoul (CHR ''-'' # decimal n) = Inr (- of_nat n)"
    using assms by (simp add: stoul_def Let_def takeWhile_digits digits_value_decimal)
qed

text \<open>
  The text of a number is read back as that number: every \<^verbatim>\<open>size_t\<close>, and every \<^verbatim>\<open>int\<close> with its sign, although
  \<^verbatim>\<open>int\<close> options are read with the unsigned \<^verbatim>\<open>std::stoul\<close> and narrowed.
\<close>

theorem number_options_roundtrip:
  "(ag_type a = TypeSize \<longrightarrow> arg_convert fo a (val_text fo (VSize n)) = Inr (TSize, VSize n)) \<and>
   (ag_type a = TypeInteger \<longrightarrow> arg_convert fo a (val_text fo (VInt i)) = Inr (TInt, VInt i))"
proof -
  have "unat n < 2 ^ 64" using unsigned_less [of n] by simp
  then have "stoul (decimal (unat n)) = Inr n" by (simp add: stoul_decimal)
  moreover have "\<exists>w. stoul (int_text (sint i)) = Inr w \<and> ucast w = i"
  proof (cases "sint i < 0")
    case True
    have lt: "nat (- sint i) < 2 ^ 64" using sint_greater_eq [of i] by simp
    have "(ucast (- of_nat (nat (- sint i)) :: 64 word) :: 32 word) = ucast (of_int (sint i) :: 64 word)"
      using True by simp
    also have "\<dots> = of_int (sint i)" by (rule ucast_of_int) simp
    finally show ?thesis using True stoul_decimal(2) [OF lt] by (simp add: int_text_def)
  next
    case False
    have lt: "nat (sint i) < 2 ^ 64" using sint_less [of i] by simp
    have "(ucast (of_nat (nat (sint i)) :: 64 word) :: 32 word) = ucast (of_int (sint i) :: 64 word)"
      using False by simp
    also have "\<dots> = of_int (sint i)" by (rule ucast_of_int) simp
    finally show ?thesis using False stoul_decimal(1) [OF lt] by (simp add: int_text_def)
  qed
  ultimately show ?thesis by (auto simp: arg_convert_def)
qed

theorem number_options_roundtrip_witness:
  "arg_convert sample_float (argument_int sample_float ''n'' 0 0 9 [] False) (val_text sample_float (VInt (- 5))) = Inr (TInt, VInt (- 5)) \<and>
   arg_convert sample_float (argument_size sample_float ''n'' 0 0 9 [] False) (val_text sample_float (VSize (- 1))) = Inr (TSize, VSize (- 1))"
  using number_options_roundtrip [of "argument_int sample_float ''n'' 0 0 9 [] False" sample_float 0 "- 5"]
    number_options_roundtrip [of "argument_size sample_float ''n'' 0 0 9 [] False" sample_float "- 1" 0]
  by (simp add: argument_int_def argument_size_def argument_base_def)

section \<open>Effects on the category\<close>

lemma type_of_default [simp]: "type_of (get_default a t) = t"
  by (cases t) (simp_all add: get_default_def)

lemma record_class_not_sum [simp]: "record_class a \<noteq> RecordSum"
  by (simp add: record_class_def)

definition arg_hash :: "'f argument \<Rightarrow> 64 word" where
  "arg_hash a = name_hash (ag_name a)"

text \<open>The record of an argument is of the type \<open>t\<close> if it exists; \<open>arg_value\<close> is what it holds or will hold.\<close>

definition arg_fits :: "'f category \<Rightarrow> 'f argument \<Rightarrow> val_type \<Rightarrow> bool" where
  "arg_fits c a t \<longleftrightarrow> (\<forall>r. map_of c (arg_hash a) = Some r \<longrightarrow> get_type_id r = (record_class a, t))"

definition arg_value :: "'f category \<Rightarrow> 'f argument \<Rightarrow> val_type \<Rightarrow> 'f val" where
  "arg_value c a t = (case map_of c (arg_hash a) of None \<Rightarrow> get_default a t | Some r \<Rightarrow> rc_value r)"

lemma create_effect:
  assumes "arg_fits c a t"
  obtains c1 r where "category_create (record_class a) (ag_name a) (ag_desc a) (get_default a t) c = (Inr (arg_hash a), c1)"
    and "map_of c1 = (map_of c)(arg_hash a \<mapsto> r)" and "get_type_id r = (record_class a, t)" and "rc_value r = arg_value c a t"
proof (cases "map_of c (arg_hash a)")
  case None
  let ?r = "set_description (ag_desc a) (record_new (record_class a) (ag_name a) (get_default a t))"
  show ?thesis
    by (rule that [of "update_record (arg_hash a) (set_description (ag_desc a))
          (map_emplace (arg_hash a) (record_new (record_class a) (ag_name a) (get_default a t)) c)" ?r])
      (use None in \<open>auto simp: category_create_def category_get_def Let_def arg_hash_def arg_value_def map_of_update map_of_emplace
        set_description_def record_new_def get_type_id_def fun_eq_iff\<close>)
next
  case (Some q)
  show ?thesis
    by (rule that [of "update_record (arg_hash a) (set_description (ag_desc a)) c" "set_description (ag_desc a) q"])
      (use Some assms in \<open>auto simp: category_create_def category_get_def Let_def arg_hash_def arg_value_def arg_fits_def map_of_update
        set_description_def get_type_id_def fun_eq_iff\<close>)
qed

lemma commit_effect:
  assumes "arg_fits c a t" and "type_of v = t" and "t \<noteq> TStringList"
  obtains c1 r where "arg_commit a t v c = (Inr (), c1)" and "map_of c1 = (map_of c)(arg_hash a \<mapsto> r)"
    and "get_type_id r = (record_class a, t)" and "rc_value r = v"
proof -
  obtain c1 r where c1: "category_create (record_class a) (ag_name a) (ag_desc a) (get_default a t) c = (Inr (arg_hash a), c1)"
      "map_of c1 = (map_of c)(arg_hash a \<mapsto> r)" "get_type_id r = (record_class a, t)"
    using create_effect [OF assms(1)] by metis
  have "record_commit v r = Some (r\<lparr>rc_value := v\<rparr>)"
    using c1(3) assms(2,3) record_class_not_sum [of a]
    by (cases "rc_value r"; cases v) (auto simp: record_commit_def get_type_id_def)
  then show ?thesis
    using that [of "update_record (arg_hash a) (\<lambda>_. r\<lparr>rc_value := v\<rparr>) c1" "r\<lparr>rc_value := v\<rparr>"] c1 assms(2)
    by (auto simp: arg_commit_def map_of_update get_type_id_def fun_eq_iff)
qed

lemma get_effect:
  assumes "arg_fits c a t"
  obtains c1 r where "arg_get a t c = (Inr (arg_value c a t), c1)" and "map_of c1 = (map_of c)(arg_hash a \<mapsto> r)"
    and "get_type_id r = (record_class a, t)" and "rc_value r = arg_value c a t"
proof -
  obtain c1 r where "category_create (record_class a) (ag_name a) (ag_desc a) (get_default a t) c = (Inr (arg_hash a), c1)"
      "map_of c1 = (map_of c)(arg_hash a \<mapsto> r)" "get_type_id r = (record_class a, t)" "rc_value r = arg_value c a t"
    using create_effect [OF assms] by metis
  then show ?thesis using that by (simp add: arg_get_def)
qed

lemma get_conflict:
  "\<not> arg_fits c a t \<Longrightarrow> arg_get a t c = (Inl (type_conflict (ag_name a)), c)"
  "\<not> arg_fits c a t \<Longrightarrow> arg_commit a t v c = (Inl (type_conflict (ag_name a)), c)"
  by (auto simp: arg_fits_def arg_get_def arg_commit_def category_create_def category_get_def arg_hash_def Let_def)

section \<open>What parsing guarantees\<close>

definition in_range :: "'f float_ops \<Rightarrow> 'f argument \<Rightarrow> 'f val \<Rightarrow> bool" where
  "in_range fo a v = (case v of
       VSize n \<Rightarrow> ag_size_min a \<le> n \<and> n \<le> ag_size_max a
     | VInt i \<Rightarrow> sint (ag_int_min a) \<le> sint i \<and> sint i \<le> sint (ag_int_max a)
     | VFloat x \<Rightarrow> \<not> fl_less fo x (ag_float_min a) \<and> \<not> fl_less fo (ag_float_max a) x
     | VString s \<Rightarrow> ag_string_min a \<le> length s \<and> length s \<le> ag_string_max a
     | _ \<Rightarrow> True)"

lemma check_value_iff: "check_value fo a v = Inr () \<longleftrightarrow> in_range fo a v"
  by (cases v) (auto simp: check_value_def in_range_def)

lemma check_value_fails: "\<not> in_range fo a v \<Longrightarrow> \<exists>m. check_value fo a v = Inl (OutOfRange m)"
  by (cases v) (auto simp: check_value_def in_range_def range_message_def length_message_def)

definition holds_valid :: "'f float_ops \<Rightarrow> 'f category \<Rightarrow> 'f argument \<Rightarrow> bool" where
  "holds_valid fo c a \<longleftrightarrow> (\<exists>t r. validated_type a = Some t \<and> map_of c (arg_hash a) = Some r \<and>
     get_type_id r = (record_class a, t) \<and> in_range fo a (rc_value r))"

text \<open>A check creates missing records and changes descriptions, but no value.\<close>

definition same_values :: "'f category \<Rightarrow> 'f category \<Rightarrow> bool" where
  "same_values c c' \<longleftrightarrow> (\<forall>h r. map_of c h = Some r \<longrightarrow>
     (\<exists>r'. map_of c' h = Some r' \<and> get_type_id r' = get_type_id r \<and> rc_value r' = rc_value r))"

lemma same_values_trans: "same_values a b \<Longrightarrow> same_values b c \<Longrightarrow> same_values a c"
  unfolding same_values_def by metis

lemma get_same_values: "same_values c (snd (arg_get a t c))"
proof (cases "arg_fits c a t")
  case True
  from get_effect [OF True] obtain c1 r where "arg_get a t c = (Inr (arg_value c a t), c1)"
    "map_of c1 = (map_of c)(arg_hash a \<mapsto> r)" "get_type_id r = (record_class a, t)" "rc_value r = arg_value c a t" by blast
  then show ?thesis using True by (auto simp: same_values_def arg_fits_def arg_value_def)
next
  case False
  then show ?thesis by (simp add: same_values_def get_conflict)
qed

lemma validate_same_values: "same_values c (snd (arg_validate fo a c))"
proof (cases "validated_type a")
  case (Some t)
  then show ?thesis using get_same_values [of c a t] by (auto simp: arg_validate_def split: prod.splits sum.splits)
qed (simp add: arg_validate_def same_values_def)

lemma validate_all_same_values: "same_values c (snd (validate_all fo as c))"
proof (induction "as" arbitrary: c)
  case (Cons a "as")
  show ?case
    using validate_same_values [of c fo a] Cons same_values_trans by (auto split: prod.splits sum.splits) fastforce
qed (simp add: same_values_def)

lemma validate_success:
  assumes "arg_validate fo a c = (Inr (), c1)"
  shows "holds_valid fo c1 a"
proof -
  obtain t where t: "validated_type a = Some t" using assms by (cases "validated_type a") (auto simp: arg_validate_def)
  have fits: "arg_fits c a t"
  proof (rule ccontr)
    assume "\<not> arg_fits c a t"
    then show False using assms t by (simp add: arg_validate_def get_conflict)
  qed
  from get_effect [OF fits] obtain c2 r where "arg_get a t c = (Inr (arg_value c a t), c2)"
    "map_of c2 = (map_of c)(arg_hash a \<mapsto> r)" "get_type_id r = (record_class a, t)" "rc_value r = arg_value c a t" by blast
  then show ?thesis using assms t by (auto simp: arg_validate_def holds_valid_def check_value_iff)
qed

lemma holds_valid_mono: "holds_valid fo c a \<Longrightarrow> same_values c c' \<Longrightarrow> holds_valid fo c' a"
  unfolding holds_valid_def same_values_def by metis

lemma validate_all_success:
  "validate_all fo as c = (Inr (), c') \<Longrightarrow> a \<in> set as \<Longrightarrow> holds_valid fo c' a"
proof (induction "as" arbitrary: c)
  case (Cons b bs)
  obtain c1 where c1: "arg_validate fo b c = (Inr (), c1)" "validate_all fo bs c1 = (Inr (), c')"
    using Cons.prems(1) by (auto split: prod.splits sum.splits)
  have "same_values c1 c'" using validate_all_same_values [of c1 fo bs] c1(2) by simp
  then show ?case using Cons.IH [OF c1(2)] Cons.prems(2) validate_success [OF c1(1)] holds_valid_mono by auto
qed simp

text \<open>
  Success means validity. If \<^verbatim>\<open>parse_argv\<close> returns, then every argument of the table has a record of the
  right class whose value lies within the limits of the argument, whatever the command line, whatever the
  category held before and in whatever order the table is traversed.
\<close>

theorem parse_argv_validates:
  assumes "parse_argv fo order argv args c = (Inr (), c', out)" and "\<forall>as. set (order as) = set as"
    and "a \<in> set (argument_table args)"
  shows "\<exists>t r. validated_type a = Some t \<and> category_check (record_class a) t (ag_name a) c' = Inr (name_hash (ag_name a)) \<and>
    map_of c' (name_hash (ag_name a)) = Some r \<and> in_range fo a (rc_value r)"
proof -
  obtain c1 where "validate_all fo (order (argument_table args)) c1 = (Inr (), c')"
    using assms(1) by (auto simp: parse_argv_def Let_def split: prod.splits sum.splits)
  then have "holds_valid fo c' a" using validate_all_success assms(2,3) by blast
  then show ?thesis by (auto simp: holds_valid_def arg_hash_def category_check_def Let_def)
qed

section \<open>A command line is applied in order\<close>

definition option_text :: "string \<times> string \<Rightarrow> string" where
  "option_text o' = ''--'' @ fst o' @ ''='' @ snd o'"

definition option_ok :: "string \<times> string \<Rightarrow> bool" where
  "option_ok o' \<longleftrightarrow> fst o' \<noteq> [] \<and> (\<forall>c \<in> set (fst o'). key_char c) \<and> snd o' \<noteq> [] \<and> LF \<notin> set (snd o') \<and> CR \<notin> set (snd o')"

lemma match_option_text: "option_ok o' \<Longrightarrow> match_option (option_text o') = Some o'"
proof -
  assume ok: "option_ok o'"
  have "\<not> key_char (CHR ''='')" by (simp add: key_char_def isdigit_def)
  then have "takeWhile key_char (fst o' @ CHR ''='' # snd o') = fst o'" "dropWhile key_char (fst o' @ CHR ''='' # snd o') = CHR ''='' # snd o'"
    using ok by (auto simp: option_ok_def takeWhile_append2 dropWhile_append2)
  then show ?thesis using ok by (simp add: match_option_def option_text_def option_ok_def Let_def)
qed

text \<open>Arguments whose names have different hashes and whose types are supported.\<close>

definition arguments_ok :: "'f argument list \<Rightarrow> bool" where
  "arguments_ok args \<longleftrightarrow> distinct (map arg_hash args) \<and> (\<forall>a \<in> set args. ag_type a \<noteq> TypeInvalid \<and> ag_type a \<noteq> TypeStringList)"

definition arg_type :: "'f argument \<Rightarrow> val_type" where
  "arg_type a = (case validated_type a of Some t \<Rightarrow> t | None \<Rightarrow> TBool)"

lemma supported_type:
  "arguments_ok args \<Longrightarrow> a \<in> set args \<Longrightarrow> validated_type a = Some (arg_type a) \<and> arg_type a \<noteq> TStringList"
  by (cases "ag_type a") (auto simp: arguments_ok_def arg_type_def validated_type_def)

lemma map_sum_Inr_conv: "map_sum f g x = Inr y \<longleftrightarrow> (\<exists>z. x = Inr z \<and> y = g z)"
  by (cases x) auto

lemma convert_type:
  assumes "arguments_ok args" and "a \<in> set args" and "arg_convert fo a s = Inr (t, v)"
  shows "t = arg_type a \<and> type_of v = t"
proof -
  have "ag_type a \<noteq> TypeInvalid" "ag_type a \<noteq> TypeStringList" using assms(1,2) by (auto simp: arguments_ok_def)
  then show ?thesis
    using assms(3) by (cases "ag_type a") (auto simp: arg_type_def validated_type_def arg_convert_def map_sum_Inr_conv)
qed

lemma hashes_differ: "arguments_ok args \<Longrightarrow> a \<in> set args \<Longrightarrow> b \<in> set args \<Longrightarrow> arg_hash a = arg_hash b \<longleftrightarrow> a = b"
  by (auto simp: arguments_ok_def distinct_map inj_on_def)

lemma argument_table_id: "arguments_ok args \<Longrightarrow> argument_table args = args"
proof -
  assume "arguments_ok args"
  then have d: "distinct (map ag_name args)"
    by (auto simp: arguments_ok_def distinct_map inj_on_def arg_hash_def)
  have "fold (\<lambda>a m. if ag_name a \<in> ag_name ` set m then m else m @ [a]) as m = m @ as"
    if "distinct (map ag_name (m @ as))" for "as" m :: "'a argument list"
    using that by (induction "as" arbitrary: m) auto
  from this [of "[]" args] d show ?thesis by (simp add: argument_table_def)
qed

lemma find_unique:
  assumes "a \<in> set xs" and "P a" and "\<And>b. b \<in> set xs \<Longrightarrow> P b \<Longrightarrow> b = a"
  shows "find P xs = Some a"
proof (cases "find P xs")
  case None
  then show ?thesis using assms(1,2) by (auto simp: find_None_iff)
next
  case (Some b)
  then have "b \<in> set xs \<and> P b" by (auto simp: find_Some_iff)
  then show ?thesis using assms(3) [of b] Some by simp
qed

text \<open>All records belong to the arguments and have their types.\<close>

definition all_fit :: "'f argument list \<Rightarrow> 'f category \<Rightarrow> bool" where
  "all_fit args c \<longleftrightarrow> (\<forall>a \<in> set args. arg_fits c a (arg_type a))"

text \<open>The value an argument ends up with: the last option with its name, or the default.\<close>

definition final_value :: "'f float_ops \<Rightarrow> (string \<times> string) list \<Rightarrow> 'f argument \<Rightarrow> 'f val \<Rightarrow> 'f val" where
  "final_value fo os a d = (case map_of (rev os) (ag_name a) of None \<Rightarrow> d
     | Some s \<Rightarrow> (case arg_convert fo a s of Inr (t, v) \<Rightarrow> v | Inl e \<Rightarrow> d))"

definition options_ok :: "'f float_ops \<Rightarrow> 'f argument list \<Rightarrow> (string \<times> string) list \<Rightarrow> bool" where
  "options_ok fo args os \<longleftrightarrow> (\<forall>o' \<in> set os. option_ok o' \<and> (\<exists>a \<in> set args. ag_name a = fst o' \<and> (\<exists>r. arg_convert fo a (snd o') = Inr r)))"

lemma apply_argv_ok:
  assumes "arguments_ok args" and "options_ok fo args os" and "all_fit args c"
  shows "\<exists>c'. apply_argv fo args args (map option_text os) c = (Inr (), c', []) \<and> all_fit args c' \<and>
    (\<forall>a \<in> set args. arg_value c' a (arg_type a) = final_value fo os a (arg_value c a (arg_type a)))"
  using assms(2,3)
proof (induction os arbitrary: c)
  case (Cons o' os)
  obtain a t v where a: "a \<in> set args" "ag_name a = fst o'" "arg_convert fo a (snd o') = Inr (t, v)" and o': "option_ok o'"
    using Cons.prems(1) by (auto simp: options_ok_def)
  have t: "t = arg_type a" "type_of v = t" "t \<noteq> TStringList"
    using convert_type [OF assms(1) a(1,3)] supported_type [OF assms(1) a(1)] by auto
  obtain c1 r where c1: "arg_commit a t v c = (Inr (), c1)" "map_of c1 = (map_of c)(arg_hash a \<mapsto> r)"
      "get_type_id r = (record_class a, t)" "rc_value r = v"
    using commit_effect [of c a t v] Cons.prems(2) a(1) t by (auto simp: all_fit_def)
  have unique: "b = a" if "b \<in> set args" "ag_name b = fst o'" for b
    using that(2) a(2) hashes_differ [OF assms(1) that(1) a(1)] by (simp add: arg_hash_def)
  have "find (\<lambda>b. ag_name b = fst o') args = Some a"
    by (rule find_unique [OF a(1)]) (use a(2) unique in auto)
  then have step: "apply_argv fo args args (map option_text (o' # os)) c = apply_argv fo args args (map option_text os) c1"
    using match_option_text [OF o'] a(3) c1(1) by (cases o') (simp add: arg_apply_def)
  have fit: "all_fit args c1"
    using Cons.prems(2) c1(2,3) t(1) a(1) hashes_differ [OF assms(1)] by (auto simp: all_fit_def arg_fits_def)
  have val: "arg_value c1 b (arg_type b) = (if b = a then v else arg_value c b (arg_type b))" if "b \<in> set args" for b
    using c1(2,4) hashes_differ [OF assms(1) that a(1)] by (auto simp: arg_value_def)
  obtain c' where c': "apply_argv fo args args (map option_text os) c1 = (Inr (), c', [])" "all_fit args c'"
      "\<forall>b \<in> set args. arg_value c' b (arg_type b) = final_value fo os b (arg_value c1 b (arg_type b))"
    using Cons.IH [OF _ fit] Cons.prems(1) by (auto simp: options_ok_def)
  have "final_value fo os b (arg_value c1 b (arg_type b)) = final_value fo (o' # os) b (arg_value c b (arg_type b))"
    if b: "b \<in> set args" for b
  proof (cases "b = a")
    case True
    have "\<exists>r. arg_convert fo a s = Inr r" if "map_of (rev os) (ag_name a) = Some s" for s
    proof -
      have "(ag_name a, s) \<in> set os" using map_of_SomeD [OF that] by simp
      then show ?thesis using Cons.prems(1) a(2) unique by (fastforce simp: options_ok_def)
    qed
    then show ?thesis using True val [OF b] a(2,3)
      by (cases o') (auto simp: final_value_def map_add_def split: option.splits)
  next
    case False
    then have "ag_name b \<noteq> fst o'" using hashes_differ [OF assms(1) b a(1)] a(2) by (auto simp: arg_hash_def)
    then show ?thesis using val [OF b] False by (cases o') (simp add: final_value_def map_add_def split: option.splits)
  qed
  then show ?case using step c' by auto
qed (simp add: final_value_def)

lemma validate_all_ok:
  assumes "arguments_ok args" and "set bs \<subseteq> set args" and "all_fit args c" and "\<forall>a \<in> set bs. in_range fo a (arg_value c a (arg_type a))"
  shows "\<exists>c'. validate_all fo bs c = (Inr (), c') \<and> all_fit args c' \<and> (\<forall>a \<in> set args. arg_value c' a (arg_type a) = arg_value c a (arg_type a))"
  using assms(2-4)
proof (induction bs arbitrary: c)
  case (Cons b bs)
  have b: "b \<in> set args" "validated_type b = Some (arg_type b)" using Cons.prems(1) supported_type [OF assms(1)] by auto
  have "arg_fits c b (arg_type b)" using Cons.prems(2) b(1) by (simp add: all_fit_def)
  from get_effect [OF this] obtain c1 r where c1: "arg_get b (arg_type b) c = (Inr (arg_value c b (arg_type b)), c1)"
    "map_of c1 = (map_of c)(arg_hash b \<mapsto> r)" "get_type_id r = (record_class b, arg_type b)" "rc_value r = arg_value c b (arg_type b)"
    by blast
  have step: "arg_validate fo b c = (Inr (), c1)"
    using c1(1) b(2) Cons.prems(3) check_value_iff [of fo b] by (simp add: arg_validate_def)
  have fit: "all_fit args c1"
    using Cons.prems(2) c1(2,3) b(1) hashes_differ [OF assms(1)] by (auto simp: all_fit_def arg_fits_def)
  have val: "arg_value c1 a (arg_type a) = arg_value c a (arg_type a)" if "a \<in> set args" for a
    using c1(2,4) hashes_differ [OF assms(1) that b(1)] by (auto simp: arg_value_def)
  have "\<forall>a \<in> set bs. in_range fo a (arg_value c1 a (arg_type a))"
    using Cons.prems(1,3) val by auto
  then show ?case using Cons.IH [OF _ fit] Cons.prems(1) step val by auto
qed simp

lemma validate_all_fails:
  assumes "arguments_ok args" and "set bs \<subseteq> set args" and "all_fit args c" and "a \<in> set bs" and "\<not> in_range fo a (arg_value c a (arg_type a))"
  shows "\<exists>m c'. validate_all fo bs c = (Inl (OutOfRange m), c')"
  using assms(2-5)
proof (induction bs arbitrary: c)
  case (Cons b bs)
  have b: "b \<in> set args" "validated_type b = Some (arg_type b)" using Cons.prems(1) supported_type [OF assms(1)] by auto
  have fits: "arg_fits c b (arg_type b)" using Cons.prems(2) b(1) by (simp add: all_fit_def)
  show ?case
  proof (cases "in_range fo b (arg_value c b (arg_type b))")
    case True
    then obtain c1 where c1: "validate_all fo [b] c = (Inr (), c1)" "all_fit args c1"
        "\<forall>a \<in> set args. arg_value c1 a (arg_type a) = arg_value c a (arg_type a)"
      using validate_all_ok [OF assms(1), of "[b]" c fo] Cons.prems(2) b(1) by auto
    then have "arg_validate fo b c = (Inr (), c1)" by (auto split: prod.splits sum.splits)
    then show ?thesis
      using Cons.IH [OF _ c1(2)] Cons.prems c1(3) True by (metis (no_types, lifting) case_prod_conv in_mono list.set_intros(2) old.sum.simps(6) set_ConsD set_subset_Cons subset_trans validate_all.simps(2))
  next
    case False
    from get_effect [OF fits] obtain c1 r where "arg_get b (arg_type b) c = (Inr (arg_value c b (arg_type b)), c1)" by blast
    then show ?thesis using check_value_fails [OF False] b(2) by (auto simp: arg_validate_def)
  qed
qed simp

text \<open>
  C20. A command line is applied. Let the arguments be of supported types with names of different hashes, and
  let every word after the first be an option of one of them with a value that can be converted. Then
  every argument gets the value of its last option, or its default. If all of these lie within their
  limits, \<^verbatim>\<open>parse_argv\<close> returns with exactly these values in records of the right class; if one does not,
  an \<^verbatim>\<open>out_of_range\<close> exception is thrown.
\<close>

theorem parse_argv_correct:
  assumes "arguments_ok args" and "options_ok fo args os" and "\<forall>as. set (order as) = set as"
  shows "if \<forall>a \<in> set args. in_range fo a (final_value fo os a (get_default a (arg_type a)))
    then \<exists>c. parse_argv fo order (prog # map option_text os) args [] = (Inr (), c, []) \<and>
      (\<forall>a \<in> set args. \<exists>r. map_of c (name_hash (ag_name a)) = Some r \<and> get_type_id r = (record_class a, arg_type a) \<and>
        rc_value r = final_value fo os a (get_default a (arg_type a)))
    else \<exists>m c. parse_argv fo order (prog # map option_text os) args [] = (Inl (OutOfRange m), c, [])"
proof -
  have fit0: "all_fit args []" by (simp add: all_fit_def arg_fits_def)
  obtain c1 where c1: "apply_argv fo args args (map option_text os) [] = (Inr (), c1, [])" "all_fit args c1"
      "\<forall>a \<in> set args. arg_value c1 a (arg_type a) = final_value fo os a (get_default a (arg_type a))"
    using apply_argv_ok [OF assms(1,2) fit0] by (auto simp: arg_value_def)
  have parse: "parse_argv fo order (prog # map option_text os) args [] = (case validate_all fo (order args) c1 of (res, c2) \<Rightarrow> (res, c2, []))"
    using c1(1) by (simp add: parse_argv_def argument_table_id [OF assms(1)] Let_def)
  have ord: "set (order args) \<subseteq> set args" "set (order args) = set args" using assms(3) by auto
  show ?thesis
  proof (cases "\<forall>a \<in> set args. in_range fo a (final_value fo os a (get_default a (arg_type a)))")
    case True
    then obtain c2 where c2: "validate_all fo (order args) c1 = (Inr (), c2)"
        "\<forall>a \<in> set args. arg_value c2 a (arg_type a) = arg_value c1 a (arg_type a)"
      using validate_all_ok [OF assms(1) ord(1) c1(2), of fo] c1(3) ord(2) by auto
    have "\<exists>r. map_of c2 (name_hash (ag_name a)) = Some r \<and> get_type_id r = (record_class a, arg_type a) \<and>
        rc_value r = final_value fo os a (get_default a (arg_type a))" if a: "a \<in> set args" for a
    proof -
      have "holds_valid fo c2 a" using validate_all_success [OF c2(1)] a ord(2) by simp
      then show ?thesis
        using supported_type [OF assms(1) a] c2(2) c1(3) a by (auto simp: holds_valid_def arg_hash_def arg_value_def)
    qed
    then show ?thesis using True parse c2(1) by simp
  next
    case False
    then obtain a where a: "a \<in> set args" "\<not> in_range fo a (arg_value c1 a (arg_type a))" using c1(3) by auto
    then show ?thesis
      using validate_all_fails [OF assms(1) ord(1) c1(2), of a fo] ord(2) False parse by auto
  qed
qed

definition sample_args :: "int argument list" where
  "sample_args = [argument_int sample_float ''n'' 1 0 9 ''a number'' False, argument_bool sample_float ''b'' True ''a flag'' True]"

lemma sample_hashes: "name_hash ''n'' \<noteq> name_hash ''b''"
  by (simp add: name_hash_def hash_string_def)

lemma sample_args_ok: "arguments_ok sample_args"
  using sample_hashes
  by (simp add: arguments_ok_def sample_args_def arg_hash_def argument_int_def argument_bool_def argument_base_def)

lemma sample_numbers: "stoul ''3'' = Inr 3" "stoul ''7'' = Inr 7"
  by (simp_all add: stoul_def isspace_def isdigit_def digits_value_def Let_def CR_def LF_def TAB_def)

theorem parse_argv_correct_witness:
  "\<exists>c r. parse_argv sample_float rev [''prog'', ''--n=3'', ''--n=7''] sample_args [] = (Inr (), c, []) \<and>
     map_of c (name_hash ''n'') = Some r \<and> rc_value r = VInt 7"
proof -
  let ?os = "[(''n'', ''3''), (''n'', ''7'')] :: (string \<times> string) list"
  have os: "options_ok sample_float sample_args ?os"
    by (auto simp: options_ok_def option_ok_def key_char_def isdigit_def CR_def LF_def sample_args_def argument_int_def argument_bool_def
        argument_base_def arg_convert_def sample_numbers)
  have "\<forall>a \<in> set sample_args. in_range sample_float a (final_value sample_float ?os a (get_default a (arg_type a)))"
    and n: "final_value sample_float ?os (hd sample_args) (get_default (hd sample_args) (arg_type (hd sample_args))) = VInt 7"
      "hd sample_args \<in> set sample_args" "ag_name (hd sample_args) = ''n''"
    by (simp_all add: in_range_def final_value_def sample_args_def argument_int_def argument_bool_def argument_base_def arg_convert_def
        sample_numbers get_default_def arg_type_def validated_type_def)
  then show ?thesis
    using parse_argv_correct [OF sample_args_ok os, of rev "''prog''"] by (fastforce simp: option_text_def)
qed

theorem parse_argv_validates_witness:
  "\<exists>c t r. parse_argv sample_float id [''prog''] [argument_bool sample_float ''b'' True [] False] [] = (Inr (), c, []) \<and>
     category_check RecordImmediate t ''b'' c = Inr (name_hash ''b'') \<and> map_of c (name_hash ''b'') = Some r"
proof -
  let ?a = "argument_bool sample_float ''b'' True [] False"
  obtain c where c: "parse_argv sample_float id [''prog''] [?a] [] = (Inr (), c, [])"
    by (simp add: parse_argv_def argument_table_def arg_validate_def validated_type_def argument_bool_def argument_base_def arg_get_def
        category_create_def category_get_def Let_def map_emplace_def update_record_def record_new_def get_default_def check_value_def
        set_description_def)
  have t: "?a \<in> set (argument_table [?a])" "record_class ?a = RecordImmediate" "ag_name ?a = ''b''"
    by (simp_all add: argument_table_def record_class_def argument_bool_def argument_base_def)
  show ?thesis using parse_argv_validates [OF c _ t(1)] c t(2,3) by auto
qed

text \<open>
  A dictionary is taken apart: if \<^verbatim>\<open>apply_options\<close> returns, every key was the name of an argument and no
  entry is left over.
\<close>

lemma options_left: "apply_options_loop fo as dict c = (Inr (), d, c') \<Longrightarrow> d = filter (\<lambda>(k, s). k \<notin> ag_name ` set as) dict"
proof (induction "as" arbitrary: dict c)
  case (Cons a "as")
  have eq: "filter (\<lambda>(k, s). k \<notin> ag_name ` set as) (filter (\<lambda>(k, s). k \<noteq> ag_name a) dict) =
      filter (\<lambda>(k, s). k \<notin> ag_name ` set (a # as)) dict"
    by (auto simp: case_prod_beta intro!: filter_cong)
  from Cons.prems obtain c2 where "apply_options_loop fo as (filter (\<lambda>(k, s). k \<noteq> ag_name a) dict) c2 = (Inr (), d, c')"
    by (auto simp: Let_def split: prod.splits sum.splits)
  from Cons.IH [OF this] show ?case unfolding eq .
qed simp

theorem apply_options_known:
  assumes "apply_options fo dict args c = (Inr (), d, c')"
  shows "d = [] \<and> fst ` set dict \<subseteq> ag_name ` set args"
proof -
  have "apply_options_loop fo args dict c = (Inr (), d, c')" "d = []"
    using assms by (auto simp: apply_options_def split: prod.splits sum.splits if_splits)
  moreover have "filter (\<lambda>(k, s). k \<notin> ag_name ` set args) dict = []"
    using options_left [OF calculation(1)] calculation(2) by simp
  ultimately show ?thesis by (fastforce simp: filter_empty_conv)
qed

theorem apply_options_known_witness:
  "\<exists>c. apply_options sample_float [(''b'', ''yes'')] [argument_bool sample_float ''b'' False [] False] [] = (Inr (), [], c) \<and>
     fst ` set [(''b'', ''yes'')] \<subseteq> ag_name ` set [argument_bool sample_float ''b'' False [] False]"
proof -
  let ?a = "argument_bool sample_float ''b'' False [] False"
  obtain c where c: "apply_options sample_float [(''b'', ''yes'')] [?a] [] = (Inr (), [], c)"
    by (simp add: apply_options_def arg_apply_def arg_convert_def arg_commit_def arg_validate_def validated_type_def argument_bool_def
        argument_base_def arg_get_def category_create_def category_get_def Let_def map_emplace_def update_record_def record_new_def
        get_default_def check_value_def set_description_def record_commit_def get_type_id_def record_class_def)
  then show ?thesis using apply_options_known [OF c] by blast
qed

text \<open>
  Where conversion is lenient. An \<^verbatim>\<open>int\<close> option that is too large is narrowed before it is checked; text
  behind the digits of a number is ignored; and an option for a list of texts can be applied but never
  validated, because its record is asked for as a text.
\<close>

lemma int_option_wraps: "ag_type a = TypeInteger \<Longrightarrow> arg_convert fo a ''4294967296'' = Inr (TInt, VInt 0)"
proof -
  have "stoul ''4294967296'' = Inr 4294967296"
    by (simp add: stoul_def isspace_def isdigit_def digits_value_def Let_def CR_def LF_def TAB_def)
  moreover have "(ucast (4294967296 :: 64 word) :: 32 word) = 0" by simp
  ultimately show "ag_type a = TypeInteger \<Longrightarrow> ?thesis" by (simp add: arg_convert_def)
qed

lemma text_behind_digits_is_ignored: "stoul ''12abc'' = Inr 12"
  by (simp add: stoul_def isspace_def isdigit_def digits_value_def Let_def CR_def LF_def TAB_def)

lemma string_lists_are_rejected:
  assumes "ag_type a = TypeStringList" and "arg_apply fo a s [] = (Inr (), c)"
  shows "arg_validate fo a c = (Inl (type_conflict (ag_name a)), c)"
proof -
  have "\<not> arg_fits c a TString"
    using assms by (auto simp: arg_apply_def arg_convert_def arg_commit_def category_create_def category_get_def Let_def map_emplace_def
        update_record_def set_description_def record_new_def get_default_def record_commit_def record_class_def arg_fits_def arg_hash_def get_type_id_def
        split: if_splits option.splits)
  then show ?thesis using assms(1) by (simp add: arg_validate_def validated_type_def get_conflict)
qed

end
