(* ===== verification/Jinx_Tls.thy ===== *)
theory Jinx_Tls
  imports Jinx_Stream Jinx_Pointer
begin

text \<open>
  TLS streams (\<^verbatim>\<open>libs/openssl/include/jinx/openssl/openssl.hpp\<close>): the counted OpenSSL objects, the
  operations on a connection and \<^verbatim>\<open>AsyncTLS\<close>, which waits for the socket whenever OpenSSL asks for it.

  OpenSSL is outside. A call is its result and what \<^verbatim>\<open>SSL_get_error\<close> says of it afterwards; a read or a
  write that succeeds transfers some of the bytes, at least one. The objects are counted as
  \<^verbatim>\<open>X_up_ref\<close> and \<^verbatim>\<open>X_free\<close> document it. \<open>None\<close> is \<^verbatim>\<open>error::fatal\<close>, an access to a freed
  object, or the end of the given answers.
\<close>

section \<open>Counted objects\<close>

text \<open>
  \<^verbatim>\<open>JINX_OPENSSL_OBJECT\<close>. Variables, objects and counts are those of the shared pointers.
\<close>

definition os_up_ref :: "nat \<Rightarrow> pointers \<Rightarrow> pointers option" where
  "os_up_ref x s =
     (case ps_ptr s x of
        None \<Rightarrow> Some s
      | Some ob \<Rightarrow> do { refc \<leftarrow> ps_heap s ob; Some (s\<lparr>ps_heap := (ps_heap s)(ob \<mapsto> refc + 1)\<rparr>) })"

definition os_free :: "nat \<Rightarrow> pointers \<Rightarrow> pointers option" where
  "os_free x s =
     (case ps_ptr s x of
        None \<Rightarrow> Some s
      | Some ob \<Rightarrow>
          do { refc \<leftarrow> ps_heap s ob;
               let s1 = (if refc = 1
                         then s\<lparr>ps_heap := (ps_heap s)(ob := None), ps_released := ps_released s @ [ob]\<rparr>
                         else s\<lparr>ps_heap := (ps_heap s)(ob \<mapsto> refc - 1)\<rparr>);
               Some (set_ptr x None s1) })"

definition os_new :: "nat \<Rightarrow> nat option \<Rightarrow> pointers \<Rightarrow> pointers" where
  "os_new x p s = set_ptr x p s"

definition os_release :: "nat \<Rightarrow> pointers \<Rightarrow> nat option \<times> pointers" where
  "os_release x s = (ps_ptr s x, set_ptr x None s)"

definition os_copy :: "nat \<Rightarrow> nat \<Rightarrow> pointers \<Rightarrow> pointers option" where
  "os_copy x y s = os_up_ref x (set_ptr x (ps_ptr s y) s)"

definition os_move :: "nat \<Rightarrow> nat \<Rightarrow> pointers \<Rightarrow> pointers" where
  "os_move x y s = (let (p, s1) = os_release y s in set_ptr x p s1)"

definition os_copy_assign :: "nat \<Rightarrow> nat \<Rightarrow> pointers \<Rightarrow> pointers option" where
  "os_copy_assign x y s = do { s1 \<leftarrow> os_free x s; os_up_ref x (set_ptr x (ps_ptr s1 y) s1) }"

definition os_move_assign :: "nat \<Rightarrow> nat \<Rightarrow> pointers \<Rightarrow> pointers option" where
  "os_move_assign x y s = do { s1 \<leftarrow> os_free x s; let (p, s2) = os_release y s1; Some (set_ptr x p s2) }"

definition os_reset :: "nat \<Rightarrow> nat option \<Rightarrow> pointers \<Rightarrow> pointers option" where
  "os_reset x p s = do { s1 \<leftarrow> os_free x s; Some (set_ptr x p s1) }"

definition os_destroy :: "nat \<Rightarrow> pointers \<Rightarrow> pointers option" where
  "os_destroy x s = os_free x s"

text \<open>The connection of \<^verbatim>\<open>StreamOpenSSL\<close>.\<close>

definition stream_initialize :: "nat \<Rightarrow> nat \<Rightarrow> pointers \<Rightarrow> pointers option" where
  "stream_initialize self connection s = os_copy_assign self connection s"

definition stream_reset :: "nat \<Rightarrow> pointers \<Rightarrow> pointers option" where
  "stream_reset self s = os_reset self None s"

section \<open>Errors\<close>

definition SSL_ERROR_NONE :: int where "SSL_ERROR_NONE = 0"
definition SSL_ERROR_SSL :: int where "SSL_ERROR_SSL = 1"
definition SSL_ERROR_WANT_READ :: int where "SSL_ERROR_WANT_READ = 2"
definition SSL_ERROR_WANT_WRITE :: int where "SSL_ERROR_WANT_WRITE = 3"
definition SSL_ERROR_WANT_X509_LOOKUP :: int where "SSL_ERROR_WANT_X509_LOOKUP = 4"
definition SSL_ERROR_SYSCALL :: int where "SSL_ERROR_SYSCALL = 5"
definition SSL_ERROR_ZERO_RETURN :: int where "SSL_ERROR_ZERO_RETURN = 6"
definition SSL_ERROR_WANT_CONNECT :: int where "SSL_ERROR_WANT_CONNECT = 7"
definition SSL_ERROR_WANT_ACCEPT :: int where "SSL_ERROR_WANT_ACCEPT = 8"

lemmas ssl_errors = SSL_ERROR_NONE_def SSL_ERROR_SSL_def SSL_ERROR_WANT_READ_def SSL_ERROR_WANT_WRITE_def
  SSL_ERROR_WANT_X509_LOOKUP_def SSL_ERROR_SYSCALL_def SSL_ERROR_ZERO_RETURN_def SSL_ERROR_WANT_CONNECT_def
  SSL_ERROR_WANT_ACCEPT_def

definition convert_to_streamtls_error_code :: "int \<Rightarrow> Error" where
  "convert_to_streamtls_error_code err =
     (if err = SSL_ERROR_WANT_READ then make_error_openssl ErrorCodeOpenSSL_WantRead
      else if err = SSL_ERROR_WANT_WRITE then make_error_openssl ErrorCodeOpenSSL_WantWrite
      else if err = SSL_ERROR_WANT_X509_LOOKUP then make_error_openssl ErrorCodeOpenSSL_X509Lookup
      else if err = SSL_ERROR_SSL then make_error_openssl ErrorCodeOpenSSL_ProtocolError
      else if err = SSL_ERROR_SYSCALL then make_error_openssl ErrorCodeOpenSSL_SysCall
      else Error_make err category_openssl)"

section \<open>Handshake and shutdown\<close>

type_synonym ssl_call = "int \<times> int"

text \<open>\<open>calls\<close> are the outcomes of the coming calls on the connection.\<close>

fun accept_io :: "ssl_call list \<Rightarrow> (IOResult \<times> ssl_call list) option" where
  "accept_io [] = None"
| "accept_io ((ret, err) # calls) =
     (let r = IOResult_new\<lparr>io_size := ret\<rparr>
      in if ret = 0 then Some (r\<lparr>io_error := make_error_openssl ErrorCodeOpenSSL_HandshakeFailed\<rparr>, calls)
         else if ret = 1 then Some (r\<lparr>io_error := make_error_openssl ErrorCodeOpenSSL_Established\<rparr>, calls)
         else Some (r\<lparr>io_error := convert_to_streamtls_error_code err\<rparr>, calls))"

fun connect_io :: "ssl_call list \<Rightarrow> (IOResult \<times> ssl_call list) option" where
  "connect_io [] = None"
| "connect_io ((ret, err) # calls) =
     (let r = IOResult_new\<lparr>io_size := ret\<rparr>
      in if ret = 0 then Some (r\<lparr>io_error := make_error_openssl ErrorCodeOpenSSL_HandshakeFailed\<rparr>, calls)
         else if ret = 1 then Some (r\<lparr>io_error := make_error_openssl ErrorCodeOpenSSL_Established\<rparr>, calls)
         else Some (r\<lparr>io_error := convert_to_streamtls_error_code err\<rparr>, calls))"

text \<open>\<open>ts_made\<close> are the calls made so far.\<close>

datatype ssl_function = SSL_shutdown | SSL_peek

record tls_shutdown =
  ts_wait_close_notify :: bool
  ts_calls :: "ssl_call list"
  ts_made :: "ssl_function list"

definition ssl_do :: "ssl_function \<Rightarrow> tls_shutdown \<Rightarrow> (ssl_call \<times> tls_shutdown) option" where
  "ssl_do f t =
     (case ts_calls t of [] \<Rightarrow> None | c # calls \<Rightarrow> Some (c, t\<lparr>ts_calls := calls, ts_made := ts_made t @ [f]\<rparr>))"

definition do_peek :: "tls_shutdown \<Rightarrow> (IOResult \<times> tls_shutdown) option" where
  "do_peek t =
     do { (c, t1) \<leftarrow> ssl_do SSL_peek t;
          let r = IOResult_new\<lparr>io_size := fst c\<rparr>;
          Some (if fst c < 0 then r\<lparr>io_error := convert_to_streamtls_error_code (snd c)\<rparr> else r, t1) }"

definition do_shutdown :: "tls_shutdown \<Rightarrow> (IOResult \<times> tls_shutdown) option" where
  "do_shutdown t =
     do { (c, t1) \<leftarrow> ssl_do SSL_shutdown t;
          let r = IOResult_new\<lparr>io_size := fst c\<rparr>;
          if fst c = 1 then Some (r, t1)
          else if fst c = 0 then do_peek t1
          else Some (r\<lparr>io_error := convert_to_streamtls_error_code (snd c)\<rparr>, t1) }"

definition shutdown_io :: "tls_shutdown \<Rightarrow> (IOResult \<times> tls_shutdown) option" where
  "shutdown_io t =
     (if ts_wait_close_notify t then do_peek t
      else do { (r, t1) \<leftarrow> do_shutdown t;
                if io_size r = 0 then do_peek (t1\<lparr>ts_wait_close_notify := True\<rparr>) else Some (r, t1) })"

section \<open>Reading and writing\<close>

text \<open>The length argument of \<^verbatim>\<open>SSL_read\<close> and \<^verbatim>\<open>SSL_write\<close> is a 32-bit number.\<close>

definition int_of_size :: "nat \<Rightarrow> int" where
  "int_of_size n = (int n + 2 ^ 31) mod 2 ^ 32 - 2 ^ 31"

datatype 'b ssl_answer = SslReturn int int | SslWritten nat | SslData "'b list"

fun ssl_write :: "'b ssl_answer \<Rightarrow> int \<Rightarrow> ssl_call" where
  "ssl_write (SslReturn ret err) num = (ret, err)"
| "ssl_write (SslWritten k) num =
     (if num > 0 then (int (min (Suc k) (nat num)), SSL_ERROR_NONE) else (-1, SSL_ERROR_SSL))"
| "ssl_write (SslData bs) num = (-1, SSL_ERROR_SSL)"

fun ssl_read :: "'b ssl_answer \<Rightarrow> int \<Rightarrow> ssl_call" where
  "ssl_read (SslReturn ret err) num = (ret, err)"
| "ssl_read (SslWritten k) num = (-1, SSL_ERROR_SSL)"
| "ssl_read (SslData bs) num =
     (if num > 0 \<and> bs \<noteq> [] then (int (min (length bs) (nat num)), SSL_ERROR_NONE) else (-1, SSL_ERROR_SSL))"

record 'b tls_write =
  tw_view :: BufferView
  tw_wire :: "'b list"

fun write_io :: "(nat \<Rightarrow> 'b) \<Rightarrow> 'b ssl_answer list \<Rightarrow> 'b tls_write \<Rightarrow> (IOResult \<times> 'b tls_write \<times> 'b ssl_answer list) option" where
  "write_io mem [] t = None"
| "write_io mem (x # xs) t =
     (let buf = slice_for_consumer (tw_view t);
          (ret, err) = ssl_write x (int_of_size (s_size buf));
          r = IOResult_new\<lparr>io_size := ret\<rparr>
      in if ret > 0
         then case bv_consume (nat ret) (tw_view t) of
                (Failed, _) \<Rightarrow> None
              | (Successful, v) \<Rightarrow>
                  let t1 = t\<lparr>tw_view := v, tw_wire := tw_wire t @ map mem [s_data buf ..< s_data buf + nat ret]\<rparr>
                  in if bv_size v > 0 then write_io mem xs t1 else Some (r, t1, xs)
         else Some (r\<lparr>io_error := convert_to_streamtls_error_code err\<rparr>, t, xs))"

record 'b tls_read =
  tr_view :: BufferView
  tr_mem :: "nat \<Rightarrow> 'b"

fun ssl_store :: "'b ssl_answer \<Rightarrow> nat \<Rightarrow> nat \<Rightarrow> (nat \<Rightarrow> 'b) \<Rightarrow> nat \<Rightarrow> 'b" where
  "ssl_store (SslData bs) p n mem = stored p n bs mem"
| "ssl_store x p n mem = mem"

fun read_io :: "'b ssl_answer list \<Rightarrow> 'b tls_read \<Rightarrow> (IOResult \<times> 'b tls_read \<times> 'b ssl_answer list) option" where
  "read_io [] t = None"
| "read_io (x # xs) t =
     (let buf = slice_for_producer (tr_view t);
          (ret, err) = ssl_read x (int_of_size (s_size buf));
          r = IOResult_new\<lparr>io_size := ret\<rparr>
      in if ret = 0 then Some (r\<lparr>io_error := make_error_openssl ErrorCodeOpenSSL_EndOfStream\<rparr>, t, xs)
         else if ret > 0
         then case bv_commit (nat ret) (tr_view t) of
                (Failed, _) \<Rightarrow> None
              | (Successful, v) \<Rightarrow> Some (r, t\<lparr>tr_view := v, tr_mem := ssl_store x (s_data buf) (nat ret) (tr_mem t)\<rparr>, xs)
         else Some (r\<lparr>io_error := convert_to_streamtls_error_code err\<rparr>, t, xs))"

section \<open>Waiting for the socket\<close>

datatype io_type = IOTypeRead | IOTypeWrite

text \<open>
  \<^verbatim>\<open>AsyncTLS\<close> over an event engine: \<open>'h\<close> is the event handle with what the engine keeps of it, \<open>'t\<close> the
  operation on the connection.
\<close>

record 'h async_tls =
  at_result :: "int option"
  at_handle :: 'h
  at_resumed :: "Error list"

definition do_tls_io ::
    "(io_type \<Rightarrow> 'h \<Rightarrow> SuccessfulFailed \<times> 'h) \<Rightarrow> ('t \<Rightarrow> (IOResult \<times> 't) option) \<Rightarrow> 'h async_tls \<Rightarrow> 't \<Rightarrow>
       (io_action \<times> 'h async_tls \<times> 't) option" where
  "do_tls_io add_io io s t =
     do { (r, t1) \<leftarrow> io t;
          let s1 = s\<lparr>at_result := Some (io_size r)\<rparr>;
          let failed = IOThrow (make_error_event_engine ErrorEventEngine_FailedToRegisterIOEvent);
          let other = (if \<not> Error_bool (io_error r) then IOReturn else IOThrow (io_error r));
          Some (if e_category (io_error r) = Some category_openssl
                then if e_value (io_error r) = value_ErrorCodeOpenSSL ErrorCodeOpenSSL_WantRead
                     then let (a, h) = add_io IOTypeRead (at_handle s1)
                          in (if a = Failed then failed else IOSuspend, s1\<lparr>at_handle := h\<rparr>, t1)
                     else if e_value (io_error r) = value_ErrorCodeOpenSSL ErrorCodeOpenSSL_WantWrite
                     then let (a, h) = add_io IOTypeWrite (at_handle s1)
                          in (if a = Failed then failed else IOSuspend, s1\<lparr>at_handle := h\<rparr>, t1)
                     else if e_value (io_error r) = value_ErrorCodeOpenSSL ErrorCodeOpenSSL_Established
                     then (IOReturn, s1, t1)
                     else (other, s1, t1)
                else (other, s1, t1)) }"

definition tls_callback :: "Error \<Rightarrow> 'h async_tls \<Rightarrow> 'h async_tls option" where
  "tls_callback e s = Some (s\<lparr>at_resumed := at_resumed s @ [e]\<rparr>)"

text \<open>A run: the operation is polled, and while it suspends the socket becomes ready for \<open>d\<close>.\<close>

fun tls_run ::
    "(io_type \<Rightarrow> 'h \<Rightarrow> SuccessfulFailed \<times> 'h) \<Rightarrow> (io_type \<Rightarrow> 'h async_tls \<Rightarrow> 'h async_tls option) \<Rightarrow>
     ('t \<Rightarrow> (IOResult \<times> 't) option) \<Rightarrow> io_type list \<Rightarrow> 'h async_tls \<Rightarrow> 't \<Rightarrow> (io_action \<times> 'h async_tls \<times> 't) option" where
  "tls_run add_io event io [] s t = do_tls_io add_io io s t"
| "tls_run add_io event io (d # ds) s t =
     do { (a, s1, t1) \<leftarrow> do_tls_io add_io io s t;
          if a = IOSuspend then do { s2 \<leftarrow> event d s1; tls_run add_io event io ds s2 t1 } else Some (a, s1, t1) }"

text \<open>The engine of libevent: the handle and the flags the event was registered with.\<close>

type_synonym ev_handle = "event_handle \<times> int"

definition IOFlags :: "io_type \<Rightarrow> int" where
  "IOFlags d = (case d of IOTypeRead \<Rightarrow> 2 | IOTypeWrite \<Rightarrow> 4)"

definition ev_add_io :: "io_type \<Rightarrow> ev_handle \<Rightarrow> SuccessfulFailed \<times> ev_handle" where
  "ev_add_io d h = (let (a, h1) = add_event (fst h) in (a, (h1, IOFlags d)))"

definition ev_tls_event :: "io_type \<Rightarrow> ev_handle async_tls \<Rightarrow> ev_handle async_tls option" where
  "ev_tls_event d s =
     (if snd (at_handle s) = IOFlags d
      then event_callback False tls_callback (\<lambda>s. fst (at_handle s)) (\<lambda>h s. s\<lparr>at_handle := (h, snd (at_handle s))\<rparr>) s
      else None)"

definition ev_tls_finalize :: "ev_handle async_tls \<Rightarrow> ev_handle async_tls option" where
  "ev_tls_finalize s =
     (if fst (at_handle s) \<noteq> None
      then do { _ \<leftarrow> remove_io (fst (at_handle s)); Some (s\<lparr>at_handle := (None, snd (at_handle s))\<rparr>) }
      else Some s)"

section \<open>What an operation needs of its engine\<close>

definition want :: "io_type \<Rightarrow> Error" where
  "want d = make_error_openssl (case d of IOTypeRead \<Rightarrow> ErrorCodeOpenSSL_WantRead | IOTypeWrite \<Rightarrow> ErrorCodeOpenSSL_WantWrite)"

definition established :: Error where
  "established = make_error_openssl ErrorCodeOpenSSL_Established"

definition final_action :: "Error \<Rightarrow> io_action" where
  "final_action e = (if \<not> Error_bool e \<or> e = established then IOReturn else IOThrow e)"

lemmas tls_error_defs = want_def established_def final_action_def make_error_openssl_def error_defs

lemma do_tls_io_final:
  assumes "io t = Some (r, t1)" and "\<And>d. io_error r \<noteq> want d"
  shows "do_tls_io add_io io s t = Some (final_action (io_error r), s\<lparr>at_result := Some (io_size r)\<rparr>, t1)"
proof -
  have "e_value (io_error r) \<noteq> 7 \<and> e_value (io_error r) \<noteq> 8" if "e_category (io_error r) = Some category_openssl"
    using assms(2) [of IOTypeRead] assms(2) [of IOTypeWrite] that by (cases "io_error r") (auto simp: tls_error_defs)
  moreover have "io_error r = established \<longleftrightarrow> e_category (io_error r) = Some category_openssl \<and> e_value (io_error r) = 2"
    by (cases "io_error r") (auto simp: tls_error_defs)
  ultimately show ?thesis using assms(1) by (auto simp: do_tls_io_def final_action_def Let_def)
qed

lemma do_tls_io_wants:
  assumes "io t = Some (r, t1)" and "io_error r = want d" and "add_io d (at_handle s) = (Successful, h)"
  shows "do_tls_io add_io io s t = Some (IOSuspend, s\<lparr>at_result := Some (io_size r), at_handle := h\<rparr>, t1)"
  using assms by (cases d) (simp_all add: do_tls_io_def tls_error_defs)

text \<open>The operation wants the events \<open>ds\<close>, one after the other, and gets from \<open>t\<close> to \<open>t'\<close>.\<close>

fun wants :: "('t \<Rightarrow> (IOResult \<times> 't) option) \<Rightarrow> io_type list \<Rightarrow> 't \<Rightarrow> 't \<Rightarrow> bool" where
  "wants io [] t t' \<longleftrightarrow> t = t'"
| "wants io (d # ds) t t' \<longleftrightarrow> (case io t of None \<Rightarrow> False | Some (r, t1) \<Rightarrow> io_error r = want d \<and> wants io ds t1 t')"

locale tls_engine =
  fixes add_io :: "io_type \<Rightarrow> 'h \<Rightarrow> SuccessfulFailed \<times> 'h"
    and event :: "io_type \<Rightarrow> 'h async_tls \<Rightarrow> 'h async_tls option"
    and finalize :: "'h async_tls \<Rightarrow> 'h async_tls option"
    and idle :: "'h \<Rightarrow> bool"
    and waiting :: "io_type \<Rightarrow> 'h \<Rightarrow> bool"
    and released :: "'h \<Rightarrow> bool"
  assumes registers: "idle h \<Longrightarrow> \<exists>h'. add_io d h = (Successful, h') \<and> waiting d h'"
    and fires: "waiting d (at_handle s) \<Longrightarrow>
      \<exists>h'. event d s = Some (s\<lparr>at_handle := h', at_resumed := at_resumed s @ [Error_default]\<rparr>) \<and> idle h'"
    and finalizes: "idle (at_handle s) \<or> waiting d (at_handle s) \<Longrightarrow> \<exists>h'. finalize s = Some (s\<lparr>at_handle := h'\<rparr>) \<and> released h'"
begin

lemma suspend_and_resume:
  assumes "idle (at_handle s)" and "io t = Some (r, t1)" and "io_error r = want d"
  shows "\<exists>s1 s2. do_tls_io add_io io s t = Some (IOSuspend, s1, t1) \<and> waiting d (at_handle s1) \<and>
    event d s1 = Some s2 \<and> idle (at_handle s2) \<and> at_resumed s2 = at_resumed s @ [Error_default]"
proof -
  obtain h where h: "add_io d (at_handle s) = (Successful, h)" "waiting d h" using registers assms(1) by blast
  let ?s1 = "s\<lparr>at_result := Some (io_size r), at_handle := h\<rparr>"
  obtain h' where "event d ?s1 = Some (?s1\<lparr>at_handle := h', at_resumed := at_resumed s @ [Error_default]\<rparr>)" "idle h'"
    using fires [of d ?s1] h(2) by auto
  then show ?thesis using do_tls_io_wants [of io t r t1 d add_io s h] assms(2,3) h by simp
qed

lemma run_waits:
  assumes "idle (at_handle s)" and "wants io ds t t'"
  shows "\<exists>s'. idle (at_handle s') \<and> at_resumed s' = at_resumed s @ replicate (length ds) Error_default \<and>
    tls_run add_io event io (ds @ es) s t = tls_run add_io event io es s' t'"
  using assms
proof (induction ds arbitrary: s t)
  case (Cons d ds)
  then obtain r t1 where r: "io t = Some (r, t1)" "io_error r = want d" "wants io ds t1 t'" by (auto split: option.splits)
  obtain s1 s2 where s: "do_tls_io add_io io s t = Some (IOSuspend, s1, t1)" "event d s1 = Some s2" "idle (at_handle s2)"
      "at_resumed s2 = at_resumed s @ [Error_default]"
    using suspend_and_resume [of s io t r t1 d] Cons.prems(1) r(1,2) by blast
  then show ?case using Cons.IH [OF s(3) r(3)] by auto
qed auto

lemma run_ends:
  assumes "idle (at_handle s)" and "wants io ds t t'" and "io t' = Some (r, t'')" and "\<And>d. io_error r \<noteq> want d"
  shows "\<exists>s' s''. tls_run add_io event io (ds @ es) s t = Some (final_action (io_error r), s', t'') \<and>
    at_result s' = Some (io_size r) \<and> at_resumed s' = at_resumed s @ replicate (length ds) Error_default \<and>
    idle (at_handle s') \<and> finalize s' = Some s'' \<and> released (at_handle s'')"
proof -
  obtain s1 where s1: "idle (at_handle s1)" "at_resumed s1 = at_resumed s @ replicate (length ds) Error_default"
      "tls_run add_io event io (ds @ es) s t = tls_run add_io event io es s1 t'"
    using run_waits [OF assms(1,2)] by blast
  let ?s = "s1\<lparr>at_result := Some (io_size r)\<rparr>"
  have fin: "\<exists>s''. finalize ?s = Some s'' \<and> released (at_handle s'')" using finalizes [of ?s] s1(1) by auto
  have d: "do_tls_io add_io io s1 t' = Some (final_action (io_error r), ?s, t'')"
    using do_tls_io_final [of io t' r t'' add_io s1] assms(3,4) by simp
  have "tls_run add_io event io es s1 t' = Some (final_action (io_error r), ?s, t'')"
  proof (cases es)
    case (Cons e es')
    then show ?thesis using d by (simp add: final_action_def)
  qed (simp add: d)
  then show ?thesis using s1 fin by auto
qed

end

definition ev_idle :: "ev_handle \<Rightarrow> bool" where
  "ev_idle h \<longleftrightarrow> fst h \<noteq> Some EventDeleted"

definition ev_waiting :: "io_type \<Rightarrow> ev_handle \<Rightarrow> bool" where
  "ev_waiting d h \<longleftrightarrow> h = (Some EventPending, IOFlags d)"

interpretation libevent: tls_engine ev_add_io ev_tls_event ev_tls_finalize ev_idle ev_waiting "\<lambda>h. fst h = None"
proof (unfold_locales, goal_cases)
  case (1 h d)
  then show ?case by (simp add: ev_add_io_def add_event_def ev_waiting_def)
next
  case (2 d s)
  let ?s = "s\<lparr>at_handle := (Some EventPending, IOFlags d), at_resumed := at_resumed s @ [Error_default]\<rparr>"
  have "ev_tls_event d s = Some ?s"
    using 2 by (cases s) (simp add: ev_waiting_def ev_tls_event_def event_callback_def tls_callback_def)
  then show ?case by (auto simp: ev_idle_def)
next
  case (3 s d)
  have "ev_tls_finalize s = Some (s\<lparr>at_handle := (None, snd (at_handle s))\<rparr>)"
    by (cases s; cases "fst (at_handle s)") (auto simp: ev_tls_finalize_def remove_io_def)
  then show ?case by auto
qed

section \<open>References to OpenSSL objects\<close>

lemma os_free_is_unref:
  assumes "ps_inv F raw s"
  shows "os_free x s = map_option (set_ptr x None) (ps_unref x s)"
proof (cases "ps_ptr s x")
  case None
  then have "set_ptr x None s = s" by (simp add: set_ptr_def fun_upd_idem)
  then show ?thesis using None by (simp add: os_free_def ps_unref_def)
next
  case (Some ob)
  then show ?thesis
    using ps_inv_alive [OF assms Some] owners_pos [OF assms Some]
    by (simp add: os_free_def ps_unref_def Let_def set_ptr_def)
qed

lemma os_up_ref_is_ref: "ps_ref x s = Some s' \<Longrightarrow> os_up_ref x s = Some s'"
  by (auto simp: ps_ref_def os_up_ref_def bind_Some_iff split: option.splits if_splits)

lemma os_free_drops:
  assumes "ps_inv F raw s" and "x \<in> F"
  shows "\<exists>s1. os_free x s = Some s1 \<and> ps_inv F raw s1 \<and> ps_ptr s1 = (ps_ptr s)(x := None) \<and>
    ps_released s1 = ps_released s @
      (case ps_ptr s x of Some ob \<Rightarrow> if owners F s ob + raw ob = 1 then [ob] else [] | None \<Rightarrow> [])"
proof -
  obtain s1 where s1: "ps_unref x s = Some s1" "ps_inv F raw (set_ptr x None s1)"
      "\<forall>z. z \<noteq> x \<longrightarrow> ps_ptr s1 z = ps_ptr s z"
      "ps_released s1 = ps_released s @
        (case ps_ptr s x of Some ob \<Rightarrow> if owners F s ob + raw ob = 1 then [ob] else [] | None \<Rightarrow> [])"
    using unref_drop [OF assms] by (fastforce split: option.splits if_splits)
  have "(ps_ptr s1)(x := None) = (ps_ptr s)(x := None)" using s1(3) by auto
  then show ?thesis using s1 os_free_is_unref [OF assms(1), of x] by simp
qed

lemma os_copies:
  assumes "ps_inv F raw s" and "x \<in> F" and "ps_ptr s x = None"
  shows "\<exists>s'. os_up_ref x (set_ptr x (ps_ptr s y) s) = Some s' \<and> ps_inv F raw s' \<and>
    ps_ptr s' = (ps_ptr s)(x := ps_ptr s y) \<and> ps_released s' = ps_released s"
  using take_copy [OF assms, of "ps_ptr s y"] ps_inv_alive [OF assms(1), of y] os_up_ref_is_ref by fastforce

lemma os_moves:
  assumes "ps_inv F raw s" and "x \<in> F" and "ps_ptr s x = None"
  shows "ps_inv F raw (set_ptr x (ps_ptr s y) (set_ptr y None s))"
proof (cases "x = y")
  case True
  then have "set_ptr x (ps_ptr s y) (set_ptr y None s) = s" using assms(3) by (simp add: set_ptr_def fun_upd_idem)
  then show ?thesis using assms(1) by simp
next
  case False
  then have "set_ptr x (ps_ptr s y) (set_ptr y None s) = set_ptr y None (set_ptr x (ps_ptr s y) s)"
    by (simp add: set_ptr_def fun_upd_twist)
  then show ?thesis using take_move [OF assms, of y] False by simp
qed

text \<open>
  The OpenSSL objects. Copying, moving, assigning, resetting and destroying the wrappers keeps the
  count of every object equal to the number of its owners; an object is freed exactly when its last
  owner goes, and none is used after that. This holds for assignments of a wrapper to itself too,
  which leave it empty.
\<close>

theorem openssl_objects_are_counted:
  assumes "ps_inv F raw s" and "x \<in> F" and "y \<in> F"
  shows "(\<exists>s'. os_destroy x s = Some s' \<and> ps_inv F raw s' \<and> ps_released s' = ps_released s @
        (case ps_ptr s x of Some ob \<Rightarrow> if owners F s ob + raw ob = 1 then [ob] else [] | None \<Rightarrow> [])) \<and>
    (\<exists>s'. os_copy_assign x y s = Some s' \<and> ps_inv F raw s' \<and>
      ps_ptr s' = (ps_ptr s)(x := if x = y then None else ps_ptr s y)) \<and>
    (\<exists>s'. os_move_assign x y s = Some s' \<and> ps_inv F raw s' \<and>
      ps_ptr s' = (ps_ptr s)(y := None, x := if x = y then None else ps_ptr s y)) \<and>
    (\<exists>s'. os_reset x None s = Some s' \<and> ps_inv F raw s' \<and> ps_ptr s' x = None) \<and>
    (ps_ptr s x = None \<longrightarrow> ps_inv F raw (os_move x y s) \<and>
      (\<exists>s'. os_copy x y s = Some s' \<and> ps_inv F raw s' \<and> ps_ptr s' = (ps_ptr s)(x := ps_ptr s y)))"
proof -
  obtain s1 where s1: "os_free x s = Some s1" "ps_inv F raw s1" "ps_ptr s1 = (ps_ptr s)(x := None)"
      "ps_released s1 = ps_released s @
        (case ps_ptr s x of Some ob \<Rightarrow> if owners F s ob + raw ob = 1 then [ob] else [] | None \<Rightarrow> [])"
    using os_free_drops [OF assms(1,2)] by blast
  have null: "ps_ptr s1 x = None" using s1(3) by simp
  then have same: "set_ptr x None s1 = s1" by (simp add: set_ptr_def fun_upd_idem)
  obtain s2 where s2: "os_up_ref x (set_ptr x (ps_ptr s1 y) s1) = Some s2" "ps_inv F raw s2"
      "ps_ptr s2 = (ps_ptr s1)(x := ps_ptr s1 y)"
    using os_copies [OF s1(2) assms(2) null] by blast
  have "\<exists>s'. os_copy_assign x y s = Some s' \<and> ps_inv F raw s' \<and>
      ps_ptr s' = (ps_ptr s)(x := if x = y then None else ps_ptr s y)"
    using s1(1,3) s2 by (auto simp: os_copy_assign_def)
  moreover have "\<exists>s'. os_move_assign x y s = Some s' \<and> ps_inv F raw s' \<and>
      ps_ptr s' = (ps_ptr s)(y := None, x := if x = y then None else ps_ptr s y)"
    using s1(1,3) os_moves [OF s1(2) assms(2) null, of y] by (auto simp: os_move_assign_def os_release_def)
  moreover have "\<exists>s'. os_reset x None s = Some s' \<and> ps_inv F raw s' \<and> ps_ptr s' x = None"
    using s1(1,2) same null by (simp add: os_reset_def)
  moreover have "ps_inv F raw (os_move x y s) \<and>
      (\<exists>s'. os_copy x y s = Some s' \<and> ps_inv F raw s' \<and> ps_ptr s' = (ps_ptr s)(x := ps_ptr s y))" if "ps_ptr s x = None"
    using os_moves [OF assms(1,2) that, of y] os_copies [OF assms(1,2) that, of y]
    by (auto simp: os_move_def os_release_def os_copy_def)
  ultimately show ?thesis using s1 by (simp add: os_destroy_def)
qed

theorem openssl_objects_are_counted_witness:
  "\<exists>s'. os_copy_assign 1 0 sole_owner = Some s' \<and> ps_inv {0, 1} (\<lambda>_. 0) s' \<and> ps_ptr s' = [0 \<mapsto> 7, 1 \<mapsto> 7]"
  using openssl_objects_are_counted [OF sole_owner_inv, of 1 0] by (simp add: sole_owner_def)

section \<open>Error codes\<close>

text \<open>
  The codes of \<^verbatim>\<open>SSL_get_error\<close> with a case of their own keep their meaning. The others are taken as values of
  the enumeration of the library as they are: a closed connection is reported as a certificate
  lookup, and an unconnected transport as waiting for the socket.
\<close>

theorem openssl_error_codes:
  "convert_to_streamtls_error_code SSL_ERROR_WANT_READ = want IOTypeRead"
  "convert_to_streamtls_error_code SSL_ERROR_WANT_WRITE = want IOTypeWrite"
  "convert_to_streamtls_error_code SSL_ERROR_SSL = make_error_openssl ErrorCodeOpenSSL_ProtocolError"
  "convert_to_streamtls_error_code SSL_ERROR_SYSCALL = make_error_openssl ErrorCodeOpenSSL_SysCall"
  "convert_to_streamtls_error_code SSL_ERROR_ZERO_RETURN = make_error_openssl ErrorCodeOpenSSL_X509Lookup"
  "convert_to_streamtls_error_code SSL_ERROR_WANT_CONNECT = want IOTypeRead"
  "convert_to_streamtls_error_code SSL_ERROR_WANT_ACCEPT = want IOTypeWrite"
  by (simp_all add: convert_to_streamtls_error_code_def ssl_errors tls_error_defs)

definition ssl_want :: "io_type \<Rightarrow> int" where
  "ssl_want d = (case d of IOTypeRead \<Rightarrow> SSL_ERROR_WANT_READ | IOTypeWrite \<Rightarrow> SSL_ERROR_WANT_WRITE)"

definition wanting :: "int \<Rightarrow> bool" where
  "wanting err \<longleftrightarrow> err \<in> {SSL_ERROR_WANT_READ, SSL_ERROR_WANT_WRITE, SSL_ERROR_WANT_CONNECT, SSL_ERROR_WANT_ACCEPT}"

lemma convert_want [simp]: "convert_to_streamtls_error_code (ssl_want d) = want d"
  by (cases d) (simp_all add: ssl_want_def convert_to_streamtls_error_code_def want_def ssl_errors)

lemma convert_wanting: "convert_to_streamtls_error_code err = want d \<Longrightarrow> wanting err"
  by (cases d) (auto simp: convert_to_streamtls_error_code_def wanting_def ssl_errors tls_error_defs split: if_splits)

lemma convert_established: "convert_to_streamtls_error_code err \<noteq> established"
  by (auto simp: convert_to_streamtls_error_code_def ssl_errors tls_error_defs)

lemma final_convert:
  "err \<noteq> SSL_ERROR_NONE \<Longrightarrow> final_action (convert_to_streamtls_error_code err) = IOThrow (convert_to_streamtls_error_code err)"
  using convert_established [of err]
  by (auto simp: final_action_def Error_bool_def convert_to_streamtls_error_code_def make_error_openssl_def Error_make_def ssl_errors)

section \<open>Handshakes\<close>

definition ask :: "io_type \<Rightarrow> ssl_call" where
  "ask d = (-1, ssl_want d)"

lemma connect_is_accept: "connect_io calls = accept_io calls"
  by (cases calls rule: accept_io.cases) simp_all

lemma handshake_wants: "wants accept_io ds (map ask ds @ calls) calls"
  by (induction ds) (simp_all add: ask_def Let_def)

definition handshake_error :: "int \<Rightarrow> int \<Rightarrow> Error" where
  "handshake_error ret err =
     (if ret = 0 then make_error_openssl ErrorCodeOpenSSL_HandshakeFailed
      else if ret = 1 then established else convert_to_streamtls_error_code err)"

lemma accept_io_error: "accept_io ((ret, err) # calls) = Some (\<lparr>io_error = handshake_error ret err, io_size = ret\<rparr>, calls)"
  by (simp add: handshake_error_def established_def IOResult_new_def)

lemma handshake_no_want: "ret = 0 \<or> ret = 1 \<or> \<not> wanting err \<Longrightarrow> handshake_error ret err \<noteq> want d"
  using convert_wanting [of err d] by (cases d) (auto simp: handshake_error_def tls_error_defs)

lemma final_handshake:
  "err \<noteq> SSL_ERROR_NONE \<Longrightarrow> final_action (handshake_error ret err) = (if ret = 1 then IOReturn else IOThrow (handshake_error ret err))"
  using final_convert [of err] by (auto simp: handshake_error_def) (auto simp: tls_error_defs)

text \<open>
  What the answer \<open>ret\<close> of \<^verbatim>\<open>SSL_accept\<close> or \<^verbatim>\<open>SSL_connect\<close>, with \<open>err\<close> from \<^verbatim>\<open>SSL_get_error\<close>, leads to, written as a
  table: a wait, or the error that is thrown. Codes without a name of their own go through as numbers, and
  the numbers of \<^verbatim>\<open>ErrorCodeOpenSSL\<close> are others than those of OpenSSL: 6 is \<^verbatim>\<open>X509Lookup\<close>, 7 and 8 are
  \<^verbatim>\<open>WantRead\<close> and \<^verbatim>\<open>WantWrite\<close>.
\<close>

definition handshake_wait :: "ssl_call \<Rightarrow> io_type option" where
  "handshake_wait c =
     (if fst c = 0 \<or> fst c = 1 then None
      else if snd c = SSL_ERROR_WANT_READ \<or> snd c = SSL_ERROR_WANT_CONNECT then Some IOTypeRead
      else if snd c = SSL_ERROR_WANT_WRITE \<or> snd c = SSL_ERROR_WANT_ACCEPT then Some IOTypeWrite
      else None)"

definition handshake_throws :: "ssl_call \<Rightarrow> Error" where
  "handshake_throws c =
     (if fst c = 0 then make_error_openssl ErrorCodeOpenSSL_HandshakeFailed
      else if snd c = SSL_ERROR_SSL then make_error_openssl ErrorCodeOpenSSL_ProtocolError
      else if snd c = SSL_ERROR_SYSCALL then make_error_openssl ErrorCodeOpenSSL_SysCall
      else if snd c = SSL_ERROR_WANT_X509_LOOKUP \<or> snd c = SSL_ERROR_ZERO_RETURN
      then make_error_openssl ErrorCodeOpenSSL_X509Lookup
      else \<lparr>e_category = Some category_openssl, e_value = snd c\<rparr>)"

lemma handshake_wait_error: "handshake_wait c = Some d \<Longrightarrow> handshake_error (fst c) (snd c) = want d"
  by (cases d) (auto simp: handshake_wait_def handshake_error_def convert_to_streamtls_error_code_def ssl_errors tls_error_defs
      split: if_splits)

lemma handshake_wait_None:
  "handshake_wait c = None \<longleftrightarrow> fst c = 0 \<or> fst c = 1 \<or> \<not> wanting (snd c)"
  by (auto simp: handshake_wait_def wanting_def)

lemma handshake_throws_eq:
  "handshake_wait c = None \<Longrightarrow> fst c \<noteq> 1 \<Longrightarrow> snd c \<noteq> SSL_ERROR_NONE \<Longrightarrow> handshake_error (fst c) (snd c) = handshake_throws c"
  by (auto simp: handshake_wait_def handshake_throws_def handshake_error_def convert_to_streamtls_error_code_def ssl_errors
      tls_error_defs split: if_splits)

lemma handshake_waits:
  "map handshake_wait cs = map Some ds \<Longrightarrow> wants accept_io ds (cs @ calls) calls"
proof (induction ds arbitrary: cs)
  case (Cons d ds)
  then obtain c cs' where c: "cs = c # cs'" "handshake_wait c = Some d" "map handshake_wait cs' = map Some ds"
    by (cases cs) auto
  show ?case
    using Cons.IH [OF c(3)] handshake_wait_error [OF c(2)] accept_io_error [of "fst c" "snd c" "cs' @ calls"] c(1) by simp
qed simp


definition sample_tls :: "ev_handle async_tls" where
  "sample_tls = \<lparr>at_result = None, at_handle = (None, 0), at_resumed = []\<rparr>"


section \<open>Shutting down\<close>

text \<open>
  One call of the shutdown. When OpenSSL has sent its own notification and waits for the other one, the
  operation peeks for it. If that has to wait, the operation does not remember it: when it is
  resumed it calls \<^verbatim>\<open>SSL_shutdown\<close> again.
\<close>

theorem shutdown_is_repeated:
  assumes "\<not> ts_wait_close_notify t" and "ts_calls t = (0, e) # ask IOTypeRead # (1, err) # calls"
  shows "\<exists>r t1 r' t2. shutdown_io t = Some (r, t1) \<and> io_error r = want IOTypeRead \<and> \<not> ts_wait_close_notify t1 \<and>
    ts_made t1 = ts_made t @ [SSL_shutdown, SSL_peek] \<and>
    shutdown_io t1 = Some (r', t2) \<and> \<not> Error_bool (io_error r') \<and>
    ts_made t2 = ts_made t @ [SSL_shutdown, SSL_peek, SSL_shutdown]"
  using assms by (simp add: shutdown_io_def do_shutdown_def do_peek_def ssl_do_def ask_def IOResult_new_def error_defs)

theorem shutdown_is_repeated_witness:
  "\<exists>t. ts_calls t = (0, 0) # ask IOTypeRead # (1, 0) # [] \<and>
     (\<exists>r t1 r' t2. shutdown_io t = Some (r, t1) \<and> shutdown_io t1 = Some (r', t2) \<and>
        ts_made t2 = [SSL_shutdown, SSL_peek, SSL_shutdown])"
  using shutdown_is_repeated [of "\<lparr>ts_wait_close_notify = False, ts_calls = [(0, 0), ask IOTypeRead, (1, 0)], ts_made = []\<rparr>"]
  by (intro exI [of _ "\<lparr>ts_wait_close_notify = False, ts_calls = [(0, 0), ask IOTypeRead, (1, 0)], ts_made = []\<rparr>"]) auto

text \<open>The flag is set only after a peek that found the end of the connection.\<close>

lemma close_notify_flag:
  assumes "shutdown_io t = Some (r, t1)" and "\<not> ts_wait_close_notify t" and "ts_wait_close_notify t1"
  shows "ts_made t1 = ts_made t @ [SSL_shutdown, SSL_peek, SSL_peek]"
  using assms
  by (auto simp: shutdown_io_def do_shutdown_def do_peek_def ssl_do_def bind_Some_iff Let_def IOResult_new_def
      split: list.splits if_splits prod.splits)

section \<open>Writes and reads\<close>

lemma int_of_size_exact: "n < 2 ^ 31 \<Longrightarrow> int_of_size n = int n"
  by (simp add: int_of_size_def)

fun answer_ok :: "'b ssl_answer \<Rightarrow> bool" where
  "answer_ok (SslReturn ret err) \<longleftrightarrow> ret < 0 \<and> (\<exists>d \<in> {IOTypeRead, IOTypeWrite}. err = ssl_want d)"
| "answer_ok (SslWritten k) \<longleftrightarrow> True"
| "answer_ok (SslData bs) \<longleftrightarrow> False"

fun answer_wants :: "'b ssl_answer \<Rightarrow> io_type list" where
  "answer_wants (SslReturn ret err) = [if err = SSL_ERROR_WANT_READ then IOTypeRead else IOTypeWrite]"
| "answer_wants x = []"

fun is_written :: "'b ssl_answer \<Rightarrow> bool" where
  "is_written (SslWritten k) = True"
| "is_written x = False"

abbreviation write_op :: "(nat \<Rightarrow> 'b) \<Rightarrow> 'b tls_write \<times> 'b ssl_answer list \<Rightarrow> (IOResult \<times> 'b tls_write \<times> 'b ssl_answer list) option" where
  "write_op mem p \<equiv> write_io mem (snd p) (fst p)"

lemma write_io_written:
  assumes "bv_ok (tw_view t)" and "0 < bv_size (tw_view t)" and "bv_size (tw_view t) < 2 ^ 31"
  shows "\<exists>v n. 0 < n \<and> bv_ok v \<and> bv_size v = bv_size (tw_view t) - n \<and>
    bv_bytes mem (tw_view t) = map mem [bv_data (tw_view t) ..< bv_data (tw_view t) + n] @ bv_bytes mem v \<and>
    write_io mem (SslWritten k # xs) t =
      (let t1 = t\<lparr>tw_view := v, tw_wire := tw_wire t @ map mem [bv_data (tw_view t) ..< bv_data (tw_view t) + n]\<rparr>
       in if bv_size v > 0 then write_io mem xs t1 else Some (\<lparr>io_error = Error_default, io_size = int n\<rparr>, t1, xs))"
proof -
  define n where "n = min (Suc k) (bv_size (tw_view t))"
  obtain v where v: "bv_consume n (tw_view t) = (Successful, v)" "bv_ok v" "bv_size v = bv_size (tw_view t) - n"
      "bv_bytes mem (tw_view t) = map mem [bv_data (tw_view t) ..< bv_data (tw_view t) + n] @ bv_bytes mem v"
    using bytes_split [OF assms(1), of n mem] by (auto simp: n_def)
  have "0 < n" using assms(2) by (simp add: n_def)
  have "ssl_write (SslWritten k :: 'a ssl_answer) (int_of_size (bv_size (tw_view t))) = (int n, SSL_ERROR_NONE)"
    using assms(2,3) by (simp add: int_of_size_exact n_def)
  then have "write_io mem (SslWritten k # xs) t =
      (let t1 = t\<lparr>tw_view := v, tw_wire := tw_wire t @ map mem [bv_data (tw_view t) ..< bv_data (tw_view t) + n]\<rparr>
       in if bv_size v > 0 then write_io mem xs t1 else Some (\<lparr>io_error = Error_default, io_size = int n\<rparr>, t1, xs))"
    using v(1) \<open>0 < n\<close> by (simp add: slice_for_consumer_def Let_def IOResult_new_def del: ssl_write.simps)
  then show ?thesis using v \<open>0 < n\<close> by blast
qed

text \<open>The operation reads its answers from the front: what it does with an answer that is taken at once is done in the same call.\<close>

lemma tls_run_cong: "io t = io t' \<Longrightarrow> tls_run add_io event io ds s t = tls_run add_io event io ds s t'"
  by (cases ds) (simp_all add: do_tls_io_def)

lemma tls_write_complete:
  assumes "ev_idle (at_handle s)" and "bv_ok (tw_view t)" and "0 < bv_size (tw_view t)" and "bv_size (tw_view t) < 2 ^ 31"
    and "\<forall>x \<in> set xs. answer_ok x" and "bv_size (tw_view t) \<le> length (filter is_written xs)"
  shows "\<exists>s' t' rest. tls_run ev_add_io ev_tls_event (write_op mem) (concat (map answer_wants xs)) s (t, xs) = Some (IOReturn, s', t', rest) \<and>
    tw_wire t' = tw_wire t @ bv_bytes mem (tw_view t) \<and> bv_size (tw_view t') = 0 \<and> ev_idle (at_handle s')"
  using assms
proof (induction xs arbitrary: s t)
  case Nil
  then show ?case by simp
next
  case (Cons x xs)
  let ?run = "tls_run ev_add_io ev_tls_event (write_op mem)"
  show ?case
  proof (cases x)
    case (SslReturn ret err)
    then obtain d where d: "ret < 0" "err = ssl_want d" using Cons.prems(5) by auto
    have a: "answer_wants x = [d]" using d(2) SslReturn by (cases d) (simp_all add: ssl_want_def ssl_errors)
    have "wants (write_op mem) [d] (t, x # xs) (t, xs)" using d SslReturn by simp
    then obtain s1 where s1: "ev_idle (at_handle s1)" "?run (d # concat (map answer_wants xs)) s (t, x # xs) = ?run (concat (map answer_wants xs)) s1 (t, xs)"
      using libevent.run_waits [OF Cons.prems(1), of "write_op mem" "[d]" "(t, x # xs)" "(t, xs)" "concat (map answer_wants xs)"] by auto
    then show ?thesis using Cons.IH [OF s1(1), of t] Cons.prems SslReturn a by simp
  next
    case (SslWritten k)
    obtain v n where v: "0 < n" "bv_ok v" "bv_size v = bv_size (tw_view t) - n"
      "bv_bytes mem (tw_view t) = map mem [bv_data (tw_view t) ..< bv_data (tw_view t) + n] @ bv_bytes mem v"
      "write_io mem (x # xs) t =
        (let t1 = t\<lparr>tw_view := v, tw_wire := tw_wire t @ map mem [bv_data (tw_view t) ..< bv_data (tw_view t) + n]\<rparr>
         in if bv_size v > 0 then write_io mem xs t1 else Some (\<lparr>io_error = Error_default, io_size = int n\<rparr>, t1, xs))"
      using write_io_written [OF Cons.prems(2-4), of mem k xs] SslWritten by blast
    let ?t1 = "t\<lparr>tw_view := v, tw_wire := tw_wire t @ map mem [bv_data (tw_view t) ..< bv_data (tw_view t) + n]\<rparr>"
    show ?thesis
    proof (cases "bv_size v > 0")
      case True
      then have "?run ds s (t, x # xs) = ?run ds s (?t1, xs)" for ds
        using v(5) by (intro tls_run_cong) (simp add: Let_def)
      then show ?thesis
        using Cons.IH [of s ?t1] Cons.prems v(1-4) True SslWritten by auto
    next
      case False
      have io: "write_op mem (t, x # xs) = Some (\<lparr>io_error = Error_default, io_size = int n\<rparr>, ?t1, xs)"
        using v(5) False by (simp add: Let_def)
      have "bv_bytes mem v = []" using False v(2) by (auto simp: bv_bytes_def bv_ok_simps)
      moreover have "Error_default \<noteq> want d" for d by (cases d) (simp_all add: tls_error_defs)
      moreover have "final_action Error_default = IOReturn" by (simp add: tls_error_defs)
      ultimately show ?thesis
        using libevent.run_ends [of s "write_op mem" "[]" "(t, x # xs)" "(t, x # xs)" "\<lparr>io_error = Error_default, io_size = int n\<rparr>"
            "(?t1, xs)" "concat (map answer_wants (x # xs))"] Cons.prems(1) io v(4) False by auto
    qed
  next
    case (SslData bs)
    then show ?thesis using Cons.prems(5) by simp
  qed
qed

text \<open>
  C12. A write on a TLS stream sends everything. Whatever part of the buffer OpenSSL takes at a time, and in whatever
  direction it wants the socket to become ready in between, the operation goes on until the view is empty; the bytes
  it passed on are the content of the view, in order and once.
\<close>

theorem tls_write_sends_everything:
  assumes "ev_idle (at_handle s)" and "bv_ok v" and "0 < bv_size v" and "bv_size v < 2 ^ 31"
    and "\<forall>x \<in> set xs. answer_ok x" and "bv_size v \<le> length (filter is_written xs)"
  shows "\<exists>s' t' rest. tls_run ev_add_io ev_tls_event (write_op mem) (concat (map answer_wants xs)) s
        (\<lparr>tw_view = v, tw_wire = wire\<rparr>, xs) = Some (IOReturn, s', t', rest) \<and>
    tw_wire t' = wire @ bv_bytes mem v \<and> bv_size (tw_view t') = 0"
  using tls_write_complete [of s "\<lparr>tw_view = v, tw_wire = wire\<rparr>" xs mem] assms by auto

theorem tls_write_sends_everything_witness:
  "\<exists>s' t' rest. tls_run ev_add_io ev_tls_event (write_op id)
      (concat (map answer_wants [SslWritten 0, SslReturn (-1) 2, SslWritten 7, SslReturn (-1) 3, SslWritten 0 :: nat ssl_answer])) sample_tls
      (\<lparr>tw_view = bv_new 100 8 2 5, tw_wire = []\<rparr>, [SslWritten 0, SslReturn (-1) 2, SslWritten 7, SslReturn (-1) 3, SslWritten 0]) =
        Some (IOReturn, s', t', rest) \<and> tw_wire t' = [102, 103, 104]"
  using tls_write_sends_everything [of sample_tls "bv_new 100 8 2 5" "[SslWritten 0, SslReturn (-1) 2, SslWritten 7, SslReturn (-1) 3, SslWritten 0]" id "[]"]
  by (auto simp: bv_ok_def bv_new_def bv_size_def sub64_exact bv_bytes_def bv_data_def bv_end_ptr_def add64_exact upt_rec
      sample_tls_def ev_idle_def ssl_want_def ssl_errors)

abbreviation read_op :: "'b tls_read \<times> 'b ssl_answer list \<Rightarrow> (IOResult \<times> 'b tls_read \<times> 'b ssl_answer list) option" where
  "read_op p \<equiv> read_io (snd p) (fst p)"

definition asked :: "io_type \<Rightarrow> 'b ssl_answer" where
  "asked d = SslReturn (-1) (ssl_want d)"

lemma read_wants: "wants read_op ds (t, map asked ds @ xs) (t, xs)"
  by (induction ds) (simp_all add: asked_def)

lemma read_io_data:
  assumes "bv_ok v" and "0 < bv_capacity v" and "bv_capacity v < 2 ^ 31" and "bs \<noteq> []"
  shows "\<exists>t'. read_io (SslData bs # xs) \<lparr>tr_view = v, tr_mem = mem\<rparr> =
      Some (\<lparr>io_error = Error_default, io_size = int (min (length bs) (bv_capacity v))\<rparr>, t', xs) \<and>
    bv_ok (tr_view t') \<and> bv_bytes (tr_mem t') (tr_view t') = bv_bytes mem v @ take (bv_capacity v) bs"
proof -
  let ?n = "min (length bs) (bv_capacity v)"
  have "ssl_read (SslData bs) (int_of_size (bv_capacity v)) = (int ?n, SSL_ERROR_NONE)"
    using assms(2-4) by (simp add: int_of_size_exact)
  moreover have "int ?n > 0" using assms(2,4) by simp
  moreover obtain w where "bv_commit ?n v = (Successful, w)" "bv_ok w"
      "bv_bytes (stored (bv_end_ptr v) ?n bs mem) w = bv_bytes mem v @ take ?n bs"
    using bytes_append [OF assms(1), of ?n bs mem] by auto
  moreover have "take ?n bs = take (bv_capacity v) bs" by (simp add: min_def)
  ultimately show ?thesis
    by (simp add: slice_for_producer_def Let_def IOResult_new_def del: ssl_read.simps min_less_iff_conj)
qed

text \<open>
  A read on a TLS stream waits for the socket as OpenSSL asks and then appends what it has decrypted to the view,
  as much as fits.
\<close>

theorem tls_read_appends:
  assumes "ev_idle (at_handle s)" and "bv_ok v" and "0 < bv_capacity v" and "bv_capacity v < 2 ^ 31" and "bs \<noteq> []"
  shows "\<exists>s' t'. tls_run ev_add_io ev_tls_event read_op ds s
      (\<lparr>tr_view = v, tr_mem = mem\<rparr>, map asked ds @ [SslData bs]) = Some (IOReturn, s', t', []) \<and>
    at_resumed s' = at_resumed s @ replicate (length ds) Error_default \<and>
    bv_ok (tr_view t') \<and> bv_bytes (tr_mem t') (tr_view t') = bv_bytes mem v @ take (bv_capacity v) bs"
proof -
  let ?t = "\<lparr>tr_view = v, tr_mem = mem\<rparr>"
  let ?r = "\<lparr>io_error = Error_default, io_size = int (min (length bs) (bv_capacity v))\<rparr>"
  obtain t' where t': "read_op (?t, [SslData bs]) = Some (?r, t', [])" "bv_ok (tr_view t')"
      "bv_bytes (tr_mem t') (tr_view t') = bv_bytes mem v @ take (bv_capacity v) bs"
    using read_io_data [OF assms(2-5), of "[]" mem] by auto
  have "io_error ?r \<noteq> want d" "final_action (io_error ?r) = IOReturn" for d by (cases d; simp add: tls_error_defs)+
  then show ?thesis
    using libevent.run_ends [OF assms(1) read_wants [of ds ?t "[SslData bs]"] t'(1), of "[]"] t'(2,3) by auto
qed

theorem tls_read_appends_witness:
  "\<exists>s' t'. tls_run ev_add_io ev_tls_event read_op [IOTypeWrite] sample_tls
      (\<lparr>tr_view = bv_new 100 4 0 2, tr_mem = id\<rparr>, map asked [IOTypeWrite] @ [SslData [7, 8, 9]]) = Some (IOReturn, s', t', []) \<and>
    bv_bytes (tr_mem t') (tr_view t') = [100, 101, 7, 8]"
proof -
  have "bv_ok (bv_new 100 4 0 2)" "bv_capacity (bv_new 100 4 0 2) = 2" "bv_bytes id (bv_new 100 4 0 2) = [100, 101]"
    by (simp_all add: bv_ok_def bv_new_def bv_capacity_def sub64_exact bv_bytes_def bv_data_def bv_end_ptr_def add64_exact upt_rec)
  then show ?thesis
    using tls_read_appends [of sample_tls "bv_new 100 4 0 2" "[7, 8, 9]" "[IOTypeWrite]" id]
    by (auto simp: sample_tls_def ev_idle_def)
qed

text \<open>A result of zero ends the stream, whatever \<^verbatim>\<open>SSL_get_error\<close> has to say of it.\<close>

lemma read_zero_is_end:
  "\<exists>r. read_io (SslReturn 0 err # xs) t = Some (r, t, xs) \<and> io_error r = make_error_openssl ErrorCodeOpenSSL_EndOfStream"
  by (simp add: Let_def)

end
