(* ===== verification/Jinx_Bio.thy ===== *)
theory Jinx_Bio
  imports Jinx_Tls
begin

text \<open>
  TLS over any stream (\<^verbatim>\<open>libs/openssl/include/jinx/openssl/bio.hpp\<close>, \<^verbatim>\<open>libs/openssl/src/bio.cpp\<close>): \<^verbatim>\<open>StreamBIO\<close> is
  the transport of a connection. What its user writes is what OpenSSL reads, and the other way round; \<^verbatim>\<open>BIOWrite\<close>
  and \<^verbatim>\<open>BIORead\<close> are the operations of the user, \<^verbatim>\<open>EventEngineBIO\<close> the engine the TLS operations wait on.

  Event handles and buffer views are numbers: \<open>sb_handles\<close> gives the flags of the event in a handle, \<open>sb_views\<close> the
  views of the user, which the operations reach through pointers. \<open>sb_retry_read\<close> and \<open>sb_retry_write\<close> are the flags
  \<^verbatim>\<open>BIO_FLAGS_READ\<close> and \<^verbatim>\<open>BIO_FLAGS_WRITE\<close> of the BIO. \<open>sb_log\<close> records the callbacks,
  \<open>sb_woken_read\<close> and \<open>sb_woken_write\<close> the calls of \<^verbatim>\<open>async_resume\<close>. \<open>None\<close> is the access through a null pointer or to an empty handle.
\<close>

section \<open>The stream\<close>

definition IOFlagRead :: nat where "IOFlagRead = 1"
definition IOFlagWrite :: nat where "IOFlagWrite = 2"
definition IOFlagReadWrite :: nat where "IOFlagReadWrite = 3"
definition IOFlagPersist :: nat where "IOFlagPersist = 4"

lemmas io_flags = IOFlagRead_def IOFlagWrite_def IOFlagReadWrite_def IOFlagPersist_def

record 'b stream_bio =
  sb_handles :: "nat \<Rightarrow> nat option"
  sb_pending_write :: "nat option"
  sb_read_view :: "nat option"
  sb_capacity :: nat
  sb_pending_read :: "nat option"
  sb_write_view :: "nat option"
  sb_views :: "nat \<Rightarrow> BufferView"
  sb_mem :: "nat \<Rightarrow> 'b"
  sb_retry_read :: bool
  sb_retry_write :: bool
  sb_log :: "(nat \<times> nat \<times> Error) list"
  sb_woken_read :: nat
  sb_woken_write :: nat

definition event_invoke :: "nat \<Rightarrow> 'b stream_bio \<Rightarrow> 'b stream_bio option" where
  "event_invoke e s = do { flags \<leftarrow> sb_handles s e; Some (s\<lparr>sb_log := sb_log s @ [(e, flags, Error_default)]\<rparr>) }"

definition event_cancel :: "nat \<Rightarrow> 'b stream_bio \<Rightarrow> 'b stream_bio option" where
  "event_cancel e s =
     do { flags \<leftarrow> sb_handles s e;
          Some (s\<lparr>sb_log := sb_log s @ [(e, flags, make_error_stream ErrorStream_BrokenStream)]\<rparr>) }"

section \<open>Reading from the stream\<close>

definition bio_read_call :: "nat \<Rightarrow> 'b stream_bio \<Rightarrow> 'b stream_bio" where
  "bio_read_call v s = s\<lparr>sb_read_view := Some v, sb_capacity := bv_capacity (sb_views s v)\<rparr>"

definition read_add_event :: "nat \<Rightarrow> 'b stream_bio \<Rightarrow> SuccessfulFailed \<times> 'b stream_bio" where
  "read_add_event e s =
     (if sb_pending_write s \<noteq> None then (Failed, s) else (Successful, s\<lparr>sb_pending_write := Some e\<rparr>))"

definition read_remove_event :: "nat \<Rightarrow> 'b stream_bio \<Rightarrow> SuccessfulFailed \<times> 'b stream_bio" where
  "read_remove_event e s =
     (if Some e \<noteq> sb_pending_write s \<and> sb_pending_write s \<noteq> None then (Failed, s)
      else (Successful, s\<lparr>sb_pending_write := None\<rparr>))"

definition bio_read_reset :: "'b stream_bio \<Rightarrow> 'b stream_bio option" where
  "bio_read_reset s =
     do { s1 \<leftarrow> (case sb_pending_write s of
                   None \<Rightarrow> Some s
                 | Some e \<Rightarrow> do { s1 \<leftarrow> event_cancel e s; Some (s1\<lparr>sb_pending_write := None\<rparr>) });
          Some (s1\<lparr>sb_read_view := None\<rparr>) }"

definition bio_read_finalize :: "'b stream_bio \<Rightarrow> 'b stream_bio" where
  "bio_read_finalize s = s\<lparr>sb_read_view := None\<rparr>"

definition read_notify :: "'b stream_bio \<Rightarrow> 'b stream_bio option" where
  "read_notify s =
     (case sb_pending_write s of
        None \<Rightarrow> Some s
      | Some e \<Rightarrow> do { s1 \<leftarrow> event_invoke e s;
                       flags \<leftarrow> sb_handles s1 e;
                       Some (if and flags IOFlagPersist = 0 then s1\<lparr>sb_pending_write := None\<rparr> else s1) })"

definition bio_read_poll :: "'b stream_bio \<Rightarrow> (io_action \<times> 'b stream_bio) option" where
  "bio_read_poll s =
     do { v \<leftarrow> sb_read_view s;
          if sb_capacity s > bv_capacity (sb_views s v) then Some (IOReturn, s)
          else do { s1 \<leftarrow> read_notify s; Some (IOSuspend, s1) } }"

section \<open>Writing to the stream\<close>

definition bio_write_call :: "nat \<Rightarrow> 'b stream_bio \<Rightarrow> 'b stream_bio" where
  "bio_write_call v s = s\<lparr>sb_write_view := Some v\<rparr>"

definition write_add_event :: "nat \<Rightarrow> 'b stream_bio \<Rightarrow> SuccessfulFailed \<times> 'b stream_bio" where
  "write_add_event e s =
     (if sb_pending_read s \<noteq> None then (Failed, s) else (Successful, s\<lparr>sb_pending_read := Some e\<rparr>))"

definition write_remove_event :: "nat \<Rightarrow> 'b stream_bio \<Rightarrow> SuccessfulFailed \<times> 'b stream_bio" where
  "write_remove_event e s =
     (if Some e \<noteq> sb_pending_read s \<and> sb_pending_read s \<noteq> None then (Failed, s)
      else (Successful, s\<lparr>sb_pending_read := None\<rparr>))"

definition bio_write_reset :: "'b stream_bio \<Rightarrow> 'b stream_bio option" where
  "bio_write_reset s =
     do { s1 \<leftarrow> (case sb_pending_read s of
                   None \<Rightarrow> Some s
                 | Some e \<Rightarrow> do { s1 \<leftarrow> event_cancel e s; Some (s1\<lparr>sb_pending_read := None\<rparr>) });
          Some (s1\<lparr>sb_write_view := None\<rparr>) }"

definition bio_write_finalize :: "'b stream_bio \<Rightarrow> 'b stream_bio" where
  "bio_write_finalize s = s\<lparr>sb_write_view := None\<rparr>"

definition write_notify :: "'b stream_bio \<Rightarrow> 'b stream_bio option" where
  "write_notify s =
     (case sb_pending_read s of
        None \<Rightarrow> Some s
      | Some e \<Rightarrow> do { s1 \<leftarrow> event_invoke e s;
                       flags \<leftarrow> sb_handles s1 e;
                       Some (if and flags IOFlagPersist = 0 then s1\<lparr>sb_pending_read := None\<rparr> else s1) })"

definition bio_write_poll :: "'b stream_bio \<Rightarrow> (io_action \<times> 'b stream_bio) option" where
  "bio_write_poll s =
     do { v \<leftarrow> sb_write_view s;
          if bv_size (sb_views s v) = 0 then Some (IOReturn, s)
          else do { s1 \<leftarrow> write_notify s; Some (IOSuspend, s1) } }"

section \<open>The side of OpenSSL\<close>

definition stream_add_io :: "nat \<Rightarrow> 'b stream_bio \<Rightarrow> (SuccessfulFailed \<times> 'b stream_bio) option" where
  "stream_add_io e s =
     do { flags \<leftarrow> sb_handles s e;
          Some (if and flags IOFlagRead \<noteq> 0 then write_add_event e s else read_add_event e s) }"

definition stream_remove_io :: "nat \<Rightarrow> 'b stream_bio \<Rightarrow> (SuccessfulFailed \<times> 'b stream_bio) option" where
  "stream_remove_io e s =
     do { flags \<leftarrow> sb_handles s e;
          Some (if and flags IOFlagRead \<noteq> 0 then write_remove_event e s else read_remove_event e s) }"

text \<open>\<^verbatim>\<open>StreamBIO::reset\<close> without the counted object.\<close>

definition stream_bio_reset :: "'b stream_bio \<Rightarrow> 'b stream_bio option" where
  "stream_bio_reset s = do { s1 \<leftarrow> bio_read_reset s; bio_write_reset s1 }"

text \<open>The methods of the BIO: the result and the bytes read, or the number of bytes written.\<close>

definition bio_read :: "nat \<Rightarrow> 'b stream_bio \<Rightarrow> int \<times> 'b list \<times> 'b stream_bio" where
  "bio_read sz s =
     (let s0 = s\<lparr>sb_retry_read := False\<rparr>; retry = (-1, [], s0\<lparr>sb_retry_read := True\<rparr>)
      in case sb_write_view s0 of
           None \<Rightarrow> retry
         | Some v \<Rightarrow>
             let view = sb_views s0 v
             in if bv_size view = 0 then retry
                else let wsz = min sz (bv_size view);
                         bytes = map (sb_mem s0) [bv_data view ..< bv_data view + wsz]
                     in (1, bytes, s0\<lparr>sb_views := (sb_views s0)(v := snd (bv_consume wsz view)),
                                      sb_woken_write := sb_woken_write s0 + 1\<rparr>))"

definition bio_write :: "'b list \<Rightarrow> 'b stream_bio \<Rightarrow> int \<times> nat \<times> 'b stream_bio" where
  "bio_write buf s =
     (let s0 = s\<lparr>sb_retry_write := False\<rparr>; retry = (-1, 0, s0\<lparr>sb_retry_write := True\<rparr>)
      in if length buf = 0 then (1, 0, s0)
         else case sb_read_view s0 of
                None \<Rightarrow> retry
              | Some v \<Rightarrow>
                  let view = sb_views s0 v
                  in if bv_capacity view = 0 then retry
                     else let rsz = min (length buf) (bv_capacity view)
                          in (1, rsz, s0\<lparr>sb_mem := stored (s_data (slice_for_producer view)) rsz buf (sb_mem s0),
                                         sb_views := (sb_views s0)(v := snd (bv_commit rsz view)),
                                         sb_woken_read := sb_woken_read s0 + 1\<rparr>))"

definition bio_ctrl :: "int \<Rightarrow> int" where
  "bio_ctrl cmd =
     (if cmd = 76 \<or> cmd = 73 then 0 else if cmd = 11 then 1 else if cmd = 6 \<or> cmd = 7 \<or> cmd = 12 then -1 else 0)"

section \<open>The engine\<close>

definition engine_add_io :: "nat \<Rightarrow> nat \<Rightarrow> 'b stream_bio \<Rightarrow> (SuccessfulFailed \<times> 'b stream_bio) option" where
  "engine_add_io flags e s =
     (let flags_rw = and flags IOFlagReadWrite
      in if flags_rw = IOFlagReadWrite \<or> flags_rw = 0 then Some (Failed, s)
         else stream_add_io e (s\<lparr>sb_handles := (sb_handles s)(e \<mapsto> flags)\<rparr>))"

definition engine_remove_io :: "nat \<Rightarrow> 'b stream_bio \<Rightarrow> (SuccessfulFailed \<times> 'b stream_bio) option" where
  "engine_remove_io e s = stream_remove_io e s"

text \<open>The engine as \<^verbatim>\<open>AsyncTLS\<close> uses it: a handle \<open>e\<close> on a stream.\<close>

definition bio_flag :: "io_type \<Rightarrow> nat" where
  "bio_flag d = (case d of IOTypeRead \<Rightarrow> IOFlagRead | IOTypeWrite \<Rightarrow> IOFlagWrite)"

definition bio_add_io :: "io_type \<Rightarrow> nat \<times> 'b stream_bio \<Rightarrow> SuccessfulFailed \<times> nat \<times> 'b stream_bio" where
  "bio_add_io d h =
     (case engine_add_io (bio_flag d) (fst h) (snd h) of None \<Rightarrow> (Failed, h) | Some (a, s) \<Rightarrow> (a, (fst h, s)))"

text \<open>The user of the stream polls its operation, which calls back the waiting TLS operation.\<close>

definition bio_tls_event :: "io_type \<Rightarrow> (nat \<times> 'b stream_bio) async_tls \<Rightarrow> (nat \<times> 'b stream_bio) async_tls option" where
  "bio_tls_event d s =
     (let (e, b) = at_handle s
      in if (case d of IOTypeRead \<Rightarrow> sb_pending_read b | IOTypeWrite \<Rightarrow> sb_pending_write b) = Some e
         then do { b1 \<leftarrow> (case d of IOTypeRead \<Rightarrow> write_notify b | IOTypeWrite \<Rightarrow> read_notify b);
                   tls_callback Error_default (s\<lparr>at_handle := (e, b1)\<rparr>) }
         else None)"

definition bio_tls_finalize :: "(nat \<times> 'b stream_bio) async_tls \<Rightarrow> (nat \<times> 'b stream_bio) async_tls option" where
  "bio_tls_finalize s =
     (let (e, b) = at_handle s
      in if sb_handles b e \<noteq> None
         then do { (_, b1) \<leftarrow> engine_remove_io e b;
                   Some (s\<lparr>at_handle := (e, b1\<lparr>sb_handles := (sb_handles b1)(e := None)\<rparr>)\<rparr>) }
         else Some s)"

definition bio_idle :: "nat \<times> 'b stream_bio \<Rightarrow> bool" where
  "bio_idle h \<longleftrightarrow> sb_pending_read (snd h) = None \<and> sb_pending_write (snd h) = None"

definition bio_waiting :: "io_type \<Rightarrow> nat \<times> 'b stream_bio \<Rightarrow> bool" where
  "bio_waiting d h \<longleftrightarrow> sb_handles (snd h) (fst h) = Some (bio_flag d) \<and>
     sb_pending_read (snd h) = (if d = IOTypeRead then Some (fst h) else None) \<and>
     sb_pending_write (snd h) = (if d = IOTypeRead then None else Some (fst h))"

definition bio_released :: "nat \<times> 'b stream_bio \<Rightarrow> bool" where
  "bio_released h \<longleftrightarrow> sb_pending_read (snd h) \<noteq> Some (fst h) \<and> sb_pending_write (snd h) \<noteq> Some (fst h) \<and>
     sb_handles (snd h) (fst h) = None"

lemma flag_values [simp]:
  "bio_flag d \<noteq> 0" "and (bio_flag d) IOFlagPersist = 0"
  "and (bio_flag d) IOFlagReadWrite = bio_flag d" "bio_flag d \<noteq> IOFlagReadWrite"
  "(and (bio_flag d) IOFlagRead = 0) = (d = IOTypeWrite)" "0 < and (bio_flag IOTypeRead) IOFlagRead"
  by (cases d; simp add: bio_flag_def io_flags)+

lemma engine_add_io_eq:
  "engine_add_io (bio_flag d) e s =
     (let s1 = s\<lparr>sb_handles := (sb_handles s)(e \<mapsto> bio_flag d)\<rparr>
      in Some (case d of IOTypeRead \<Rightarrow> write_add_event e s1 | IOTypeWrite \<Rightarrow> read_add_event e s1))"
  by (cases d) (simp_all add: engine_add_io_def stream_add_io_def bio_flag_def io_flags)

lemma engine_add_read:
  "sb_pending_read s = None \<Longrightarrow>
   engine_add_io IOFlagRead e s = Some (Successful, s\<lparr>sb_handles := (sb_handles s)(e \<mapsto> IOFlagRead), sb_pending_read := Some e\<rparr>)"
  using engine_add_io_eq [of IOTypeRead e s] by (simp add: bio_flag_def write_add_event_def)

lemmas add_event_defs = bio_add_io_def engine_add_io_eq write_add_event_def read_add_event_def
lemmas remove_event_defs = engine_remove_io_def stream_remove_io_def write_remove_event_def read_remove_event_def

lemma engine_remove_releases:
  assumes "sb_handles b e = Some f" and "bio_idle (e, b) \<or> bio_waiting d (e, b)"
  shows "\<exists>a b1. engine_remove_io e b = Some (a, b1) \<and> bio_released (e, b1\<lparr>sb_handles := (sb_handles b1)(e := None)\<rparr>)"
  using assms by (cases d) (auto simp: remove_event_defs bio_released_def bio_idle_def bio_waiting_def split: if_splits)

interpretation bio: tls_engine bio_add_io bio_tls_event bio_tls_finalize bio_idle bio_waiting bio_released
proof (unfold_locales, goal_cases)
  case (1 h d)
  then show ?case by (cases d) (auto simp: add_event_defs bio_idle_def bio_waiting_def)
next
  case (2 d s)
  obtain e b where h: "at_handle s = (e, b)" by (cases "at_handle s")
  then have w: "sb_handles b e = Some (bio_flag d)" "(case d of IOTypeRead \<Rightarrow> sb_pending_read b | IOTypeWrite \<Rightarrow> sb_pending_write b) = Some e"
    using 2 by (auto simp: bio_waiting_def split: io_type.splits)
  obtain b1 where b1: "(case d of IOTypeRead \<Rightarrow> write_notify b | IOTypeWrite \<Rightarrow> read_notify b) = Some b1" "bio_idle (e, b1)"
    using w 2 h by (cases d) (auto simp: write_notify_def read_notify_def event_invoke_def bio_idle_def bio_waiting_def)
  then have "bio_tls_event d s = Some (s\<lparr>at_handle := (e, b1), at_resumed := at_resumed s @ [Error_default]\<rparr>)"
    using w h by (simp add: bio_tls_event_def tls_callback_def)
  then show ?case using b1(2) by blast
next
  case (3 s d)
  obtain e b where h: "at_handle s = (e, b)" by (cases "at_handle s")
  show ?case
  proof (cases "sb_handles b e")
    case None
    then have "bio_released (e, b)" using 3 h by (auto simp: bio_released_def bio_idle_def bio_waiting_def)
    moreover have "bio_tls_finalize s = Some (s\<lparr>at_handle := (e, b)\<rparr>)"
      using None h by (cases s) (simp add: bio_tls_finalize_def)
    ultimately show ?thesis by blast
  next
    case (Some f)
    then obtain a b1 where "engine_remove_io e b = Some (a, b1)" "bio_released (e, b1\<lparr>sb_handles := (sb_handles b1)(e := None)\<rparr>)"
      using engine_remove_releases [of b e f d] 3 h by auto
    then show ?thesis using Some h by (fastforce simp: bio_tls_finalize_def)
  qed
qed

section \<open>The bytes\<close>

text \<open>What OpenSSL has not read yet of the view being written, and what it has written so far into the view being read.\<close>

definition outgoing :: "'b stream_bio \<Rightarrow> 'b list" where
  "outgoing s = (case sb_write_view s of None \<Rightarrow> [] | Some v \<Rightarrow> bv_bytes (sb_mem s) (sb_views s v))"

definition incoming :: "'b stream_bio \<Rightarrow> 'b list" where
  "incoming s = (case sb_read_view s of None \<Rightarrow> [] | Some v \<Rightarrow> bv_bytes (sb_mem s) (sb_views s v))"

definition views_ok :: "'b stream_bio \<Rightarrow> bool" where
  "views_ok s \<longleftrightarrow> (\<forall>v \<in> set_option (sb_write_view s) \<union> set_option (sb_read_view s). bv_ok (sb_views s v))"

definition separate :: "'b stream_bio \<Rightarrow> bool" where
  "separate s \<longleftrightarrow> sb_write_view s = None \<or> sb_write_view s \<noteq> sb_read_view s"

lemma bytes_length: "bv_ok v \<Longrightarrow> length (bv_bytes mem v) = bv_size v"
  by (auto simp: bv_bytes_def bv_ok_simps)

lemma bytes_empty: "bv_ok v \<Longrightarrow> bv_bytes mem v = [] \<longleftrightarrow> bv_size v = 0"
  using bytes_length [of v mem] by auto

lemma bio_read_takes:
  assumes "views_ok s" and "separate s"
  shows "\<exists>s'. bio_read n s = (if outgoing s = [] then -1 else 1, take n (outgoing s), s') \<and> outgoing s' = drop n (outgoing s) \<and>
    views_ok s' \<and> sb_write_view s' = sb_write_view s \<and> sb_read_view s' = sb_read_view s \<and>
    sb_retry_read s' = (outgoing s = []) \<and> sb_pending_read s' = sb_pending_read s \<and> sb_handles s' = sb_handles s \<and> sb_mem s' = sb_mem s \<and>
    (\<forall>w. sb_write_view s \<noteq> Some w \<longrightarrow> sb_views s' w = sb_views s w)"
proof (cases "sb_write_view s")
  case None
  then show ?thesis using assms by (simp add: bio_read_def outgoing_def views_ok_def separate_def)
next
  case (Some v)
  let ?v = "sb_views s v" and ?k = "min n (bv_size (sb_views s v))"
  have ok: "bv_ok ?v" using assms(1) Some by (simp add: views_ok_def)
  obtain w where w: "bv_consume ?k ?v = (Successful, w)" "bv_ok w"
      "bv_bytes (sb_mem s) ?v = map (sb_mem s) [bv_data ?v ..< bv_data ?v + ?k] @ bv_bytes (sb_mem s) w"
    using bytes_split [OF ok, of ?k "sb_mem s"] by auto
  have len: "length (map (sb_mem s) [bv_data ?v ..< bv_data ?v + ?k]) = ?k" by simp
  have cut: "take n (bv_bytes (sb_mem s) ?v) = map (sb_mem s) [bv_data ?v ..< bv_data ?v + ?k] \<and>
      drop n (bv_bytes (sb_mem s) ?v) = bv_bytes (sb_mem s) w"
  proof (cases "n \<le> bv_size ?v")
    case True
    then show ?thesis using w(3) by simp
  next
    case False
    then have "bv_bytes (sb_mem s) w = []" using w(3) len bytes_length [OF ok, of "sb_mem s"] by simp
    then show ?thesis using w(3) False by simp
  qed
  show ?thesis
  proof (cases "bv_size ?v = 0")
    case True
    then show ?thesis
      using Some ok bytes_empty [OF ok, of "sb_mem s"] assms by (simp add: bio_read_def outgoing_def views_ok_def separate_def)
  next
    case False
    then show ?thesis
      using Some ok w(1,2) cut bytes_empty [OF ok, of "sb_mem s"] assms
      by (simp add: bio_read_def outgoing_def views_ok_def separate_def Let_def)
  qed
qed

lemma bio_write_appends:
  assumes "views_ok s" and "separate s" and "buf \<noteq> []" and "sb_read_view s = Some v" and "0 < bv_capacity (sb_views s v)"
  shows "\<exists>s'. bio_write buf s = (1, min (length buf) (bv_capacity (sb_views s v)), s') \<and> views_ok s' \<and>
    sb_read_view s' = sb_read_view s \<and> incoming s' = incoming s @ take (bv_capacity (sb_views s v)) buf \<and> \<not> sb_retry_write s' \<and>
    bv_capacity (sb_views s' v) < bv_capacity (sb_views s v)"
proof -
  let ?v = "sb_views s v" and ?k = "min (length buf) (bv_capacity (sb_views s v))"
  have ok: "bv_ok ?v" using assms(1,4) by (simp add: views_ok_def)
  obtain w where w: "bv_commit ?k ?v = (Successful, w)" "bv_ok w" "bv_capacity w = bv_capacity ?v - ?k"
      "bv_bytes (stored (bv_end_ptr ?v) ?k buf (sb_mem s)) w = bv_bytes (sb_mem s) ?v @ take ?k buf"
    using bytes_append [OF ok, of ?k buf "sb_mem s"] by auto
  have "take ?k buf = take (bv_capacity ?v) buf" by (simp add: min_def)
  moreover have "bv_capacity w < bv_capacity ?v" using w(3) assms(3,5) by (auto simp: min_def)
  ultimately show ?thesis
    using assms w by (auto simp: bio_write_def incoming_def views_ok_def separate_def Let_def slice_for_producer_def)
qed

text \<open>OpenSSL reads from the stream with the sizes \<open>ns\<close>, one after the other.\<close>

fun bio_reads :: "nat list \<Rightarrow> 'b stream_bio \<Rightarrow> 'b list \<times> 'b stream_bio" where
  "bio_reads [] s = ([], s)"
| "bio_reads (n # ns) s = (let (_, bs, s1) = bio_read n s; (bs', s2) = bio_reads ns s1 in (bs @ bs', s2))"

text \<open>
  What is written to the stream reaches OpenSSL in order, once and completely: however it divides its reads, they
  give the front of the written view, and the rest stays in it.
\<close>

theorem bio_delivers_in_order:
  assumes "views_ok s" and "separate s"
  shows "\<exists>s'. bio_reads ns s = (take (sum_list ns) (outgoing s), s') \<and> outgoing s' = drop (sum_list ns) (outgoing s) \<and> views_ok s'"
  using assms
proof (induction ns arbitrary: s)
  case (Cons n ns)
  obtain s1 where s1: "bio_read n s = (if outgoing s = [] then -1 else 1, take n (outgoing s), s1)" "outgoing s1 = drop n (outgoing s)"
      "views_ok s1" "sb_write_view s1 = sb_write_view s" "sb_read_view s1 = sb_read_view s"
    using bio_read_takes [OF Cons.prems, of n] by blast
  then show ?case
    using Cons.IH [of s1] Cons.prems by (auto simp: take_add add.commute separate_def)
qed auto

definition sample_bio :: "nat stream_bio" where
  "sample_bio = \<lparr>sb_handles = Map.empty, sb_pending_write = None, sb_read_view = None, sb_capacity = 0, sb_pending_read = None,
     sb_write_view = Some 0, sb_views = (\<lambda>_. bv_new 100 8 2 5), sb_mem = id, sb_retry_read = False, sb_retry_write = False,
     sb_log = [], sb_woken_read = 0, sb_woken_write = 0\<rparr>"

lemma sample_bio_ok: "views_ok sample_bio" "outgoing sample_bio = [102, 103, 104]"
  by (simp_all add: views_ok_def sample_bio_def outgoing_def bv_ok_def bv_new_def bv_bytes_def bv_data_def bv_end_ptr_def add64_exact upt_rec)

theorem bio_delivers_in_order_witness:
  "\<exists>s'. bio_reads [2, 5] sample_bio = ([102, 103, 104], s') \<and> outgoing s' = []"
  using bio_delivers_in_order [OF sample_bio_ok(1), of "[2, 5]"] sample_bio_ok(2) by (auto simp: sample_bio_def separate_def)

section \<open>The two sides together\<close>

text \<open>
  The users of the stream, a task that writes views and a task that reads into views, and a TLS operation (its event
  handle is 0) that reads and writes through OpenSSL. A side is idle, about to be polled, or asleep; it is woken by
  \<^verbatim>\<open>async_resume\<close>. The users fill or empty a view before they pass it, and any operation may be cancelled.
\<close>

datatype side_phase = Resting | Ready | Asleep

record 'b bio_system =
  bs_stream :: "'b stream_bio"
  bs_writer :: side_phase
  bs_reader :: side_phase
  bs_tls :: side_phase

definition wake :: "side_phase \<Rightarrow> side_phase" where
  "wake p = (if p = Asleep then Ready else p)"

definition called_back :: "nat \<Rightarrow> 'b stream_bio \<Rightarrow> 'b stream_bio \<Rightarrow> bool" where
  "called_back e b b1 \<longleftrightarrow> e \<in> fst ` set (drop (length (sb_log b)) (sb_log b1))"

inductive bio_step :: "'b bio_system \<Rightarrow> 'b bio_system \<Rightarrow> bool" where
  user_write: "bs_writer s = Resting \<Longrightarrow> bv_ok view \<Longrightarrow> sb_read_view (bs_stream s) \<noteq> Some v \<Longrightarrow>
    b = (bs_stream s)\<lparr>sb_views := (sb_views (bs_stream s))(v := view), sb_mem := mem\<rparr> \<Longrightarrow>
    bio_step s (s\<lparr>bs_stream := bio_write_call v b, bs_writer := Ready\<rparr>)"
| write_done: "bs_writer s = Ready \<Longrightarrow> bio_write_poll (bs_stream s) = Some (IOReturn, b) \<Longrightarrow>
    bio_step s (s\<lparr>bs_stream := bio_write_finalize b, bs_writer := Resting\<rparr>)"
| write_waits: "bs_writer s = Ready \<Longrightarrow> bio_write_poll (bs_stream s) = Some (IOSuspend, b) \<Longrightarrow>
    bio_step s (s\<lparr>bs_stream := b, bs_writer := Asleep, bs_tls := if called_back 0 (bs_stream s) b then wake (bs_tls s) else bs_tls s\<rparr>)"
| write_cancelled: "bs_writer s \<noteq> Resting \<Longrightarrow>
    bio_step s (s\<lparr>bs_stream := bio_write_finalize (bs_stream s), bs_writer := Resting\<rparr>)"
| user_read: "bs_reader s = Resting \<Longrightarrow> bv_ok view \<Longrightarrow> sb_write_view (bs_stream s) \<noteq> Some v \<Longrightarrow>
    b = (bs_stream s)\<lparr>sb_views := (sb_views (bs_stream s))(v := view)\<rparr> \<Longrightarrow>
    bio_step s (s\<lparr>bs_stream := bio_read_call v b, bs_reader := Ready\<rparr>)"
| read_done: "bs_reader s = Ready \<Longrightarrow> bio_read_poll (bs_stream s) = Some (IOReturn, b) \<Longrightarrow>
    bio_step s (s\<lparr>bs_stream := bio_read_finalize b, bs_reader := Resting\<rparr>)"
| read_waits: "bs_reader s = Ready \<Longrightarrow> bio_read_poll (bs_stream s) = Some (IOSuspend, b) \<Longrightarrow>
    bio_step s (s\<lparr>bs_stream := b, bs_reader := Asleep, bs_tls := if called_back 0 (bs_stream s) b then wake (bs_tls s) else bs_tls s\<rparr>)"
| read_cancelled: "bs_reader s \<noteq> Resting \<Longrightarrow>
    bio_step s (s\<lparr>bs_stream := bio_read_finalize (bs_stream s), bs_reader := Resting\<rparr>)"
| tls_begins: "bs_tls s = Resting \<Longrightarrow> bio_step s (s\<lparr>bs_tls := Ready\<rparr>)"
| tls_reads: "bs_tls s = Ready \<Longrightarrow> bio_read n (bs_stream s) = (1, bs, b) \<Longrightarrow>
    bio_step s (s\<lparr>bs_stream := b,
      bs_writer := if sb_woken_write b = sb_woken_write (bs_stream s) then bs_writer s else wake (bs_writer s)\<rparr>)"
| tls_read_waits: "bs_tls s = Ready \<Longrightarrow> bio_read n (bs_stream s) = (-1, bs, b) \<Longrightarrow> engine_add_io IOFlagRead 0 b = Some (Successful, b') \<Longrightarrow>
    bio_step s (s\<lparr>bs_stream := b', bs_tls := Asleep\<rparr>)"
| tls_writes: "bs_tls s = Ready \<Longrightarrow> bio_write buf (bs_stream s) = (1, k, b) \<Longrightarrow>
    bio_step s (s\<lparr>bs_stream := b,
      bs_reader := if sb_woken_read b = sb_woken_read (bs_stream s) then bs_reader s else wake (bs_reader s)\<rparr>)"
| tls_write_waits: "bs_tls s = Ready \<Longrightarrow> bio_write buf (bs_stream s) = (-1, k, b) \<Longrightarrow> engine_add_io IOFlagWrite 0 b = Some (Successful, b') \<Longrightarrow>
    bio_step s (s\<lparr>bs_stream := b', bs_tls := Asleep\<rparr>)"
| tls_ends: "bs_tls s \<noteq> Resting \<Longrightarrow> bio_tls_finalize \<lparr>at_result = r, at_handle = (0, bs_stream s), at_resumed = rs\<rparr> = Some t \<Longrightarrow>
    bio_step s (s\<lparr>bs_stream := snd (at_handle t), bs_tls := Resting\<rparr>)"

inductive bio_reachable :: "'b bio_system \<Rightarrow> bool" where
  initial: "sb_write_view b = None \<Longrightarrow> sb_read_view b = None \<Longrightarrow> sb_pending_read b = None \<Longrightarrow> sb_pending_write b = None \<Longrightarrow>
    sb_handles b 0 = None \<Longrightarrow> bio_reachable \<lparr>bs_stream = b, bs_writer = Resting, bs_reader = Resting, bs_tls = Resting\<rparr>"
| step: "bio_reachable s \<Longrightarrow> bio_step s s' \<Longrightarrow> bio_reachable s'"

text \<open>
  A sleeping writer has unread bytes and no TLS operation waits for them. A sleeping reader has the free space it came
  with, and no TLS operation waits for it unless it came without any. A sleeping TLS operation is registered at the
  stream, for one direction.
\<close>

definition writer_inv :: "'b stream_bio \<Rightarrow> side_phase \<Rightarrow> bool" where
  "writer_inv b p \<longleftrightarrow> (p = Resting \<longleftrightarrow> sb_write_view b = None) \<and>
     (\<forall>v. sb_write_view b = Some v \<longrightarrow> bv_ok (sb_views b v) \<and>
        (p = Asleep \<longrightarrow> 0 < bv_size (sb_views b v) \<and> sb_pending_read b = None))"

definition reader_inv :: "'b stream_bio \<Rightarrow> side_phase \<Rightarrow> bool" where
  "reader_inv b p \<longleftrightarrow> (p = Resting \<longleftrightarrow> sb_read_view b = None) \<and>
     (\<forall>v. sb_read_view b = Some v \<longrightarrow> bv_ok (sb_views b v) \<and> bv_capacity (sb_views b v) \<le> sb_capacity b \<and>
        (p = Asleep \<longrightarrow> bv_capacity (sb_views b v) = sb_capacity b \<and> (sb_pending_write b = None \<or> sb_capacity b = 0)) \<and>
        (sb_pending_write b \<noteq> None \<longrightarrow> bv_capacity (sb_views b v) \<in> {0, sb_capacity b}))"

definition tls_inv :: "'b stream_bio \<Rightarrow> side_phase \<Rightarrow> bool" where
  "tls_inv b p \<longleftrightarrow> (sb_pending_read b, sb_pending_write b) \<in> {(None, None), (Some 0, None), (None, Some 0)} \<and>
     (p = Asleep \<longleftrightarrow> sb_pending_read b \<noteq> None \<or> sb_pending_write b \<noteq> None) \<and>
     (sb_pending_read b \<noteq> None \<longrightarrow> sb_handles b 0 = Some IOFlagRead) \<and>
     (sb_pending_write b \<noteq> None \<longrightarrow> sb_handles b 0 = Some IOFlagWrite) \<and> (p = Resting \<longrightarrow> sb_handles b 0 = None)"

definition bio_sys_inv :: "'b bio_system \<Rightarrow> bool" where
  "bio_sys_inv s \<longleftrightarrow> writer_inv (bs_stream s) (bs_writer s) \<and> reader_inv (bs_stream s) (bs_reader s) \<and>
     tls_inv (bs_stream s) (bs_tls s) \<and> separate (bs_stream s)"

lemmas bio_side_defs = writer_inv_def reader_inv_def tls_inv_def separate_def

lemma engine_add_write:
  "sb_pending_write s = None \<Longrightarrow>
   engine_add_io IOFlagWrite e s = Some (Successful, s\<lparr>sb_handles := (sb_handles s)(e \<mapsto> IOFlagWrite), sb_pending_write := Some e\<rparr>)"
  using engine_add_io_eq [of IOTypeWrite e s] by (simp add: bio_flag_def read_add_event_def)

lemma write_poll_cases:
  assumes "tls_inv b t" and "sb_write_view b = Some v"
  shows "bio_write_poll b = Some (if bv_size (sb_views b v) = 0 then (IOReturn, b)
    else (IOSuspend, if sb_pending_read b = None then b
       else b\<lparr>sb_pending_read := None, sb_log := sb_log b @ [(0, IOFlagRead, Error_default)]\<rparr>))"
  using assms by (auto simp: tls_inv_def bio_write_poll_def write_notify_def event_invoke_def io_flags)

lemma read_poll_cases:
  assumes "tls_inv b t" and "sb_read_view b = Some v"
  shows "bio_read_poll b = Some (if bv_capacity (sb_views b v) < sb_capacity b then (IOReturn, b)
    else (IOSuspend, if sb_pending_write b = None then b
       else b\<lparr>sb_pending_write := None, sb_log := sb_log b @ [(0, IOFlagWrite, Error_default)]\<rparr>))"
  using assms by (auto simp: tls_inv_def bio_read_poll_def read_notify_def event_invoke_def io_flags)

text \<open>What the methods of the BIO do to the views.\<close>

lemma bio_read_cases:
  assumes "writer_inv b p" and "bio_read n b = (r, bs, b')"
  shows "(r = -1 \<and> b' = b\<lparr>sb_retry_read := True\<rparr> \<and> (\<forall>v. sb_write_view b = Some v \<longrightarrow> bv_size (sb_views b v) = 0)) \<or>
    (\<exists>v w. r = 1 \<and> sb_write_view b = Some v \<and> 0 < bv_size (sb_views b v) \<and> bv_ok w \<and>
      b' = b\<lparr>sb_retry_read := False, sb_views := (sb_views b)(v := w), sb_woken_write := sb_woken_write b + 1\<rparr>)"
proof (cases "\<exists>v. sb_write_view b = Some v \<and> bv_size (sb_views b v) \<noteq> 0")
  case True
  then obtain v where v: "sb_write_view b = Some v" "bv_size (sb_views b v) \<noteq> 0" by blast
  then have "bv_ok (sb_views b v)" using assms(1) by (simp add: writer_inv_def)
  then have "bv_ok (snd (bv_consume (min n (bv_size (sb_views b v))) (sb_views b v)))"
    using bytes_split [of "sb_views b v" "min n (bv_size (sb_views b v))" "sb_mem b"] by auto
  then show ?thesis using assms(2) v by (auto simp: bio_read_def Let_def)
next
  case False
  then show ?thesis using assms(2) by (auto simp: bio_read_def Let_def split: option.splits)
qed

lemma bio_write_cases:
  assumes "reader_inv b p" and "bio_write buf b = (r, k, b')"
  shows "(r = -1 \<and> buf \<noteq> [] \<and> b' = b\<lparr>sb_retry_write := True\<rparr> \<and> (\<forall>v. sb_read_view b = Some v \<longrightarrow> bv_capacity (sb_views b v) = 0)) \<or>
    (r = 1 \<and> buf = [] \<and> b' = b\<lparr>sb_retry_write := False\<rparr>) \<or>
    (\<exists>v w m. r = 1 \<and> buf \<noteq> [] \<and> sb_read_view b = Some v \<and> 0 < bv_capacity (sb_views b v) \<and> 0 < k \<and> bv_ok w \<and>
      bv_capacity w < bv_capacity (sb_views b v) \<and>
      b' = b\<lparr>sb_retry_write := False, sb_mem := m, sb_views := (sb_views b)(v := w), sb_woken_read := sb_woken_read b + 1\<rparr>)"
proof (cases "buf \<noteq> [] \<and> (\<exists>v. sb_read_view b = Some v \<and> bv_capacity (sb_views b v) \<noteq> 0)")
  case True
  then obtain v where v: "buf \<noteq> []" "sb_read_view b = Some v" "0 < bv_capacity (sb_views b v)" by blast
  let ?k = "min (length buf) (bv_capacity (sb_views b v))"
  have "bv_ok (sb_views b v)" using assms(1) v by (simp add: reader_inv_def)
  then obtain w where "bv_commit ?k (sb_views b v) = (Successful, w)" "bv_ok w" "bv_capacity w = bv_capacity (sb_views b v) - ?k"
    using bytes_append [of "sb_views b v" ?k buf] by auto
  moreover have "0 < ?k" using v by simp
  ultimately show ?thesis using assms(2) v by (auto simp: bio_write_def Let_def)
next
  case False
  then show ?thesis using assms(2) by (auto simp: bio_write_def Let_def split: option.splits if_splits)
qed

lemma writer_poll_inv:
  assumes inv: "bio_sys_inv s" and "bs_writer s = Ready" and poll: "bio_write_poll (bs_stream s) = Some (a, b)"
  shows "if a = IOReturn then bio_sys_inv (s\<lparr>bs_stream := bio_write_finalize b, bs_writer := Resting\<rparr>)
    else bio_sys_inv (s\<lparr>bs_stream := b, bs_writer := Asleep,
      bs_tls := if called_back 0 (bs_stream s) b then wake (bs_tls s) else bs_tls s\<rparr>)"
proof -
  let ?b = "bs_stream s"
  have tls: "tls_inv ?b (bs_tls s)" and w: "writer_inv ?b Ready" using inv assms(2) by (auto simp: bio_sys_inv_def)
  obtain v where v: "sb_write_view ?b = Some v" using w by (auto simp: writer_inv_def)
  show ?thesis
  proof (cases "bv_size (sb_views ?b v) = 0")
    case True
    then have "a = IOReturn" "b = ?b" using write_poll_cases [OF tls v] poll by auto
    then show ?thesis using inv by (auto simp: bio_sys_inv_def bio_side_defs bio_write_finalize_def)
  next
    case False
    then have b: "a = IOSuspend" "b = (if sb_pending_read ?b = None then ?b
        else ?b\<lparr>sb_pending_read := None, sb_log := sb_log ?b @ [(0, IOFlagRead, Error_default)]\<rparr>)"
      using write_poll_cases [OF tls v] poll by auto
    have "called_back 0 ?b b \<longleftrightarrow> sb_pending_read ?b \<noteq> None" by (auto simp: b called_back_def)
    then show ?thesis
      using inv b v False by (auto simp: bio_sys_inv_def bio_side_defs wake_def)
  qed
qed

lemma reader_poll_inv:
  assumes inv: "bio_sys_inv s" and "bs_reader s = Ready" and poll: "bio_read_poll (bs_stream s) = Some (a, b)"
  shows "if a = IOReturn then bio_sys_inv (s\<lparr>bs_stream := bio_read_finalize b, bs_reader := Resting\<rparr>)
    else bio_sys_inv (s\<lparr>bs_stream := b, bs_reader := Asleep,
      bs_tls := if called_back 0 (bs_stream s) b then wake (bs_tls s) else bs_tls s\<rparr>)"
proof -
  let ?b = "bs_stream s"
  have tls: "tls_inv ?b (bs_tls s)" and r: "reader_inv ?b Ready" using inv assms(2) by (auto simp: bio_sys_inv_def)
  obtain v where v: "sb_read_view ?b = Some v" using r by (auto simp: reader_inv_def)
  show ?thesis
  proof (cases "bv_capacity (sb_views ?b v) < sb_capacity ?b")
    case True
    then have "a = IOReturn" "b = ?b" using read_poll_cases [OF tls v] poll by auto
    then show ?thesis using inv by (auto simp: bio_sys_inv_def bio_side_defs bio_read_finalize_def)
  next
    case False
    then have cap: "bv_capacity (sb_views ?b v) = sb_capacity ?b" using r v by (auto simp: reader_inv_def)
    have b: "a = IOSuspend" "b = (if sb_pending_write ?b = None then ?b
        else ?b\<lparr>sb_pending_write := None, sb_log := sb_log ?b @ [(0, IOFlagWrite, Error_default)]\<rparr>)"
      using read_poll_cases [OF tls v] poll False by auto
    have "called_back 0 ?b b \<longleftrightarrow> sb_pending_write ?b \<noteq> None" by (auto simp: b called_back_def)
    then show ?thesis
      using inv b v cap by (auto simp: bio_sys_inv_def bio_side_defs wake_def)
  qed
qed

lemma tls_read_inv:
  assumes inv: "bio_sys_inv s" and "bs_tls s = Ready" and read: "bio_read n (bs_stream s) = (r, bs, b)"
  shows "if r = 1 then bio_sys_inv (s\<lparr>bs_stream := b,
      bs_writer := if sb_woken_write b = sb_woken_write (bs_stream s) then bs_writer s else wake (bs_writer s)\<rparr>)
    else \<forall>b'. engine_add_io IOFlagRead 0 b = Some (Successful, b') \<longrightarrow> bio_sys_inv (s\<lparr>bs_stream := b', bs_tls := Asleep\<rparr>)"
proof -
  let ?b = "bs_stream s"
  have w: "writer_inv ?b (bs_writer s)" using inv by (simp add: bio_sys_inv_def)
  have none: "sb_pending_read ?b = None" "sb_pending_write ?b = None" using inv assms(2) by (auto simp: bio_sys_inv_def tls_inv_def)
  from bio_read_cases [OF w read] show ?thesis
  proof (elim disjE exE conjE)
    assume b: "r = -1" "b = ?b\<lparr>sb_retry_read := True\<rparr>" "\<forall>v. sb_write_view ?b = Some v \<longrightarrow> bv_size (sb_views ?b v) = 0"
    then have "writer_inv ?b (bs_writer s) \<and> bs_writer s \<noteq> Asleep" using w by (auto simp: writer_inv_def)
    then show ?thesis using inv b none engine_add_read [of b 0] by (auto simp: bio_sys_inv_def bio_side_defs)
  next
    fix v w
    assume b: "r = 1" "sb_write_view ?b = Some v" "0 < bv_size (sb_views ?b v)" "bv_ok w"
      "b = ?b\<lparr>sb_retry_read := False, sb_views := (sb_views ?b)(v := w), sb_woken_write := sb_woken_write ?b + 1\<rparr>"
    then show ?thesis using inv none by (auto simp: bio_sys_inv_def bio_side_defs wake_def)
  qed
qed

lemma tls_write_inv:
  assumes inv: "bio_sys_inv s" and "bs_tls s = Ready" and "bio_write buf (bs_stream s) = (r, k, b)"
  shows "if r = 1 then bio_sys_inv (s\<lparr>bs_stream := b,
      bs_reader := if sb_woken_read b = sb_woken_read (bs_stream s) then bs_reader s else wake (bs_reader s)\<rparr>)
    else \<forall>b'. engine_add_io IOFlagWrite 0 b = Some (Successful, b') \<longrightarrow> bio_sys_inv (s\<lparr>bs_stream := b', bs_tls := Asleep\<rparr>)"
proof -
  let ?b = "bs_stream s"
  have r: "reader_inv ?b (bs_reader s)" using inv by (simp add: bio_sys_inv_def)
  have none: "sb_pending_read ?b = None" "sb_pending_write ?b = None" using inv assms(2) by (auto simp: bio_sys_inv_def tls_inv_def)
  from bio_write_cases [OF r assms(3)] show ?thesis
  proof (elim disjE exE conjE)
    assume b: "r = -1" "b = ?b\<lparr>sb_retry_write := True\<rparr>" "\<forall>v. sb_read_view ?b = Some v \<longrightarrow> bv_capacity (sb_views ?b v) = 0"
    then show ?thesis using inv none engine_add_write [of b 0] by (auto simp: bio_sys_inv_def bio_side_defs)
  next
    assume "r = 1" "b = ?b\<lparr>sb_retry_write := False\<rparr>"
    then show ?thesis using inv by (auto simp: bio_sys_inv_def bio_side_defs)
  next
    fix v w m
    assume b: "r = 1" "sb_read_view ?b = Some v" "bv_ok w" "bv_capacity w < bv_capacity (sb_views ?b v)"
      "b = ?b\<lparr>sb_retry_write := False, sb_mem := m, sb_views := (sb_views ?b)(v := w), sb_woken_read := sb_woken_read ?b + 1\<rparr>"
    then show ?thesis using inv none by (auto simp: bio_sys_inv_def bio_side_defs wake_def)
  qed
qed

lemma tls_end_inv:
  assumes inv: "bio_sys_inv s"
    and "bio_tls_finalize \<lparr>at_result = r, at_handle = (0, bs_stream s), at_resumed = rs\<rparr> = Some t"
  shows "bio_sys_inv (s\<lparr>bs_stream := snd (at_handle t), bs_tls := Resting\<rparr>)"
proof (cases "sb_handles (bs_stream s) 0")
  case None
  then have t: "snd (at_handle t) = bs_stream s" using assms(2) by (auto simp: bio_tls_finalize_def)
  have "tls_inv (bs_stream s) Resting" using inv None by (auto simp: bio_sys_inv_def tls_inv_def)
  then show ?thesis using inv t by (simp add: bio_sys_inv_def)
next
  case (Some f)
  let ?b = "bs_stream s"
  obtain a b1 where b1: "engine_remove_io 0 ?b = Some (a, b1)"
      "snd (at_handle t) = b1\<lparr>sb_handles := (sb_handles b1)(0 := None)\<rparr>"
    using assms(2) Some by (auto simp: bio_tls_finalize_def bind_Some_iff)
  have tls: "tls_inv ?b (bs_tls s)" using inv by (simp add: bio_sys_inv_def)
  then have p: "sb_pending_read ?b \<noteq> None \<longrightarrow> sb_pending_read ?b = Some 0" "sb_pending_write ?b \<noteq> None \<longrightarrow> sb_pending_write ?b = Some 0"
    by (auto simp: tls_inv_def)
  have "b1 = ?b\<lparr>sb_pending_read := None\<rparr> \<and> sb_pending_write ?b = None \<or>
      b1 = ?b\<lparr>sb_pending_write := None\<rparr> \<and> sb_pending_read ?b = None"
  proof (cases "and f IOFlagRead = 0")
    case True
    then have "sb_pending_read ?b = None" using tls Some by (auto simp: tls_inv_def io_flags)
    then show ?thesis using True b1(1) Some p by (cases "sb_pending_write ?b") (simp_all add: remove_event_defs)
  next
    case False
    then have "sb_pending_write ?b = None" using tls Some by (auto simp: tls_inv_def io_flags)
    then show ?thesis using False b1(1) Some p by (cases "sb_pending_read ?b") (simp_all add: remove_event_defs)
  qed
  then show ?thesis
    using inv b1(2) by (elim disjE conjE) (simp_all add: bio_sys_inv_def bio_side_defs)
qed

lemma bio_step_inv:
  assumes "bio_step s s'" and inv: "bio_sys_inv s"
  shows "bio_sys_inv s'"
  using assms(1)
proof (cases rule: bio_step.cases)
  case (user_write view v b mem)
  then show ?thesis using inv by (auto simp: bio_sys_inv_def bio_side_defs bio_write_call_def)
next
  case (user_read view v b)
  then show ?thesis using inv by (auto simp: bio_sys_inv_def bio_side_defs bio_read_call_def)
next
  case write_cancelled
  then show ?thesis using inv by (auto simp: bio_sys_inv_def bio_side_defs bio_write_finalize_def)
next
  case read_cancelled
  then show ?thesis using inv by (auto simp: bio_sys_inv_def bio_side_defs bio_read_finalize_def)
next
  case tls_begins
  then show ?thesis using inv by (auto simp: bio_sys_inv_def tls_inv_def)
qed (use writer_poll_inv [OF inv] reader_poll_inv [OF inv] tls_read_inv [OF inv] tls_write_inv [OF inv] tls_end_inv [OF inv]
  in \<open>fastforce split: if_splits\<close>)+

lemma bio_reachable_inv: "bio_reachable s \<Longrightarrow> bio_sys_inv s"
proof (induction rule: bio_reachable.induct)
  case (initial b)
  then show ?case by (simp add: bio_sys_inv_def bio_side_defs)
next
  case (step s s')
  then show ?case using bio_step_inv by blast
qed


text \<open>The TLS operation waits, then the user writes three bytes.\<close>

definition quiet_bio :: "nat stream_bio" where
  "quiet_bio = sample_bio\<lparr>sb_write_view := None\<rparr>"

definition woken_system :: "nat bio_system" where
  "woken_system = \<lparr>bs_stream = sample_bio\<lparr>sb_handles := [0 \<mapsto> IOFlagRead], sb_pending_read := Some 0, sb_retry_read := True\<rparr>,
     bs_writer = Ready, bs_reader = Resting, bs_tls = Asleep\<rparr>"

lemma woken_system_reachable: "bio_reachable woken_system"
proof -
  let ?b = "quiet_bio\<lparr>sb_retry_read := True\<rparr>"
  let ?b1 = "?b\<lparr>sb_handles := [0 \<mapsto> IOFlagRead], sb_pending_read := Some 0\<rparr>"
  have r0: "bio_reachable \<lparr>bs_stream = quiet_bio, bs_writer = Resting, bs_reader = Resting, bs_tls = Resting\<rparr>"
    by (rule bio_reachable.initial) (simp_all add: quiet_bio_def sample_bio_def)
  have r1: "bio_reachable \<lparr>bs_stream = quiet_bio, bs_writer = Resting, bs_reader = Resting, bs_tls = Ready\<rparr>"
    using bio_reachable.step [OF r0 bio_step.tls_begins] by simp
  have r2: "bio_reachable \<lparr>bs_stream = ?b1, bs_writer = Resting, bs_reader = Resting, bs_tls = Asleep\<rparr>"
    using bio_reachable.step [OF r1 bio_step.tls_read_waits [where n = 1 and bs = "[]" and b = ?b and b' = ?b1]]
      engine_add_read [of ?b 0]
    by (simp add: bio_read_def quiet_bio_def sample_bio_def)
  have "bv_ok (bv_new 100 8 2 5)" by (simp add: bv_ok_def bv_new_def)
  then show ?thesis
    using bio_reachable.step [OF r2 bio_step.user_write [where view = "bv_new 100 8 2 5" and v = 0 and mem = id]]
    by (simp add: bio_write_call_def quiet_bio_def sample_bio_def woken_system_def fun_upd_idem)
qed


section \<open>Boundary cases\<close>

text \<open>
  Reading into a full view. The poll suspends, OpenSSL cannot write, and neither of them wakes the other:
  the operation returns only when the capacity has become smaller.
\<close>

lemma read_into_full_view_hangs:
  assumes "bv_capacity (sb_views s v) = 0" and "sb_pending_write s = None" and "buf \<noteq> []"
  shows "\<exists>s1 s2. bio_read_poll (bio_read_call v s) = Some (IOSuspend, s1) \<and> bio_write buf s1 = (-1, 0, s2) \<and>
    sb_woken_read s2 = sb_woken_read s \<and> bio_read_poll s2 = Some (IOSuspend, s2)"
  using assms by (simp add: bio_read_poll_def bio_read_call_def read_notify_def bio_write_def)

text \<open>Resetting the stream tells the waiting operation that the stream is broken.\<close>

lemma reset_cancels_waiters:
  assumes "sb_pending_read s = Some e" and "sb_handles s e = Some f" and "sb_pending_write s = None"
  shows "\<exists>s'. stream_bio_reset s = Some s' \<and> sb_pending_read s' = None \<and> sb_write_view s' = None \<and> sb_read_view s' = None \<and>
    sb_log s' = sb_log s @ [(e, f, make_error_stream ErrorStream_BrokenStream)]"
  using assms by (simp add: stream_bio_reset_def bio_read_reset_def bio_write_reset_def event_cancel_def)

text \<open>
  A TLS handshake over the stream: as over a socket, every wait registers an event at the stream, the user of the
  stream calls it back once, and finalizing leaves no pointer to the handle behind.
\<close>

theorem bio_handshake:
  assumes "sb_pending_read b = None" and "sb_pending_write b = None" and "ret = 0 \<or> ret = 1 \<or> \<not> wanting err" and "err \<noteq> SSL_ERROR_NONE"
  shows "\<exists>s' s''. tls_run bio_add_io bio_tls_event accept_io ds \<lparr>at_result = None, at_handle = (e, b), at_resumed = []\<rparr>
      (map ask ds @ [(ret, err)]) = Some (if ret = 1 then IOReturn else IOThrow (handshake_error ret err), s', []) \<and>
    at_resumed s' = replicate (length ds) Error_default \<and>
    bio_tls_finalize s' = Some s'' \<and> bio_released (at_handle s'')"
  using bio.run_ends [OF _ handshake_wants [of ds "[(ret, err)]"] accept_io_error, of "\<lparr>at_result = None, at_handle = (e, b), at_resumed = []\<rparr>" "[]"]
    handshake_no_want [OF assms(3)] final_handshake [OF assms(4)] assms(1,2)
  by (auto simp: bio_idle_def)

theorem bio_handshake_witness:
  "\<exists>s'. tls_run bio_add_io bio_tls_event accept_io [IOTypeRead, IOTypeWrite] \<lparr>at_result = None, at_handle = (0, sample_bio), at_resumed = []\<rparr>
      (map ask [IOTypeRead, IOTypeWrite] @ [(1, 5)]) = Some (IOReturn, s', []) \<and> at_resumed s' = [Error_default, Error_default]"
  using bio_handshake [of sample_bio 1 5 "[IOTypeRead, IOTypeWrite]" 0] by (auto simp: sample_bio_def ssl_errors numeral_2_eq_2)

end
