(* ===== verification/Jinx_Event.thy ===== *)
theory Jinx_Event
  imports Jinx_AsyncIO
begin

text \<open>
  The event engine on libevent (\<^verbatim>\<open>src/libevent.cpp\<close>): handles of input and output, timers and signals, the callbacks
  around the user's functions, polling and waking up.

  A handle is a number; \<open>en_handle\<close> gives the object in it, \<open>en_base\<close> the handles whose event is registered at
  libevent. An event without \<^verbatim>\<open>EV_PERSIST\<close> is no longer registered once it has fired. The functions of the user
  are numbers, and \<open>prog\<close> gives the calls they make of the engine; \<open>en_called\<close> are those called so far.
  \<open>None\<close> is the access to an empty handle, or the destruction of a function that is running.
\<close>

section \<open>State\<close>

definition EV_TIMEOUT :: nat where "EV_TIMEOUT = 1"
definition EV_SIGNAL :: nat where "EV_SIGNAL = 8"
definition EV_PERSIST :: nat where "EV_PERSIST = 16"
definition EVLOOP_ONCE :: int where "EVLOOP_ONCE = 1"
definition EVLOOP_NONBLOCK :: int where "EVLOOP_NONBLOCK = 2"
definition EVLOOP_NO_EXIT_ON_EMPTY :: int where "EVLOOP_NO_EXIT_ON_EMPTY = 4"

lemmas ev_flags = EV_TIMEOUT_def EV_SIGNAL_def EV_PERSIST_def EVLOOP_ONCE_def EVLOOP_NONBLOCK_def EVLOOP_NO_EXIT_ON_EMPTY_def

datatype event_class = EventDataIO | EventDataSimple | EventDataSimpleFunctional

text \<open>\<open>ed_fd\<close> is the descriptor, the number of the signal or -1, \<open>ed_timeout\<close> the seconds and microseconds of a timer.\<close>

record event_data =
  ed_class :: event_class
  ed_fd :: int
  ed_flags :: nat
  ed_timeout :: "(int \<times> int) option"
  ed_state :: EventState
  ed_callback :: nat

definition event_new :: "event_class \<Rightarrow> int \<Rightarrow> nat \<Rightarrow> (int \<times> int) option \<Rightarrow> nat \<Rightarrow> event_data" where
  "event_new cls fd flags tv cb =
     \<lparr>ed_class = cls, ed_fd = fd, ed_flags = flags, ed_timeout = tv, ed_state = EventPending, ed_callback = cb\<rparr>"

record engine =
  en_handle :: "nat \<Rightarrow> event_data option"
  en_base :: "nat list"
  en_poll_flags :: int
  en_additional_flags :: int
  en_loops :: "int list"
  en_called :: "(nat \<times> Error) list"

definition engine_new :: engine where
  "engine_new = \<lparr>en_handle = Map.empty, en_base = [], en_poll_flags = EVLOOP_ONCE, en_additional_flags = 0,
     en_loops = [], en_called = []\<rparr>"

section \<open>Adding and removing\<close>

text \<open>\<^verbatim>\<open>Optional::reset\<close> with the destructor of the event, which deregisters it.\<close>

definition handle_reset :: "nat \<Rightarrow> engine \<Rightarrow> engine option" where
  "handle_reset x s =
     (case en_handle s x of
        None \<Rightarrow> Some s
      | Some d \<Rightarrow>
          if ed_class d = EventDataSimpleFunctional \<and> ed_state d = EventRunning then None
          else Some (s\<lparr>en_handle := (en_handle s)(x := None), en_base := removeAll x (en_base s)\<rparr>))"

definition assign_and_add :: "nat \<Rightarrow> event_data \<Rightarrow> engine \<Rightarrow> engine" where
  "assign_and_add x d s = s\<lparr>en_handle := (en_handle s)(x \<mapsto> d), en_base := en_base s @ [x]\<rparr>"

definition set_state :: "nat \<Rightarrow> EventState \<Rightarrow> engine \<Rightarrow> engine" where
  "set_state x st s = s\<lparr>en_handle := (en_handle s)(x := map_option (\<lambda>d. d\<lparr>ed_state := st\<rparr>) (en_handle s x))\<rparr>"

definition add_signal :: "nat \<Rightarrow> int \<Rightarrow> nat \<Rightarrow> engine \<Rightarrow> (SuccessfulFailed \<times> engine) option" where
  "add_signal x sig cb s =
     do { s1 \<leftarrow> handle_reset x s;
          Some (Successful, assign_and_add x (event_new EventDataSimple sig EV_SIGNAL None cb) s1) }"

definition remove_signal :: "nat \<Rightarrow> engine \<Rightarrow> (SuccessfulFailed \<times> engine) option" where
  "remove_signal x s =
     (case en_handle s x of
        None \<Rightarrow> Some (Failed, s)
      | Some d \<Rightarrow> do { s1 \<leftarrow> (if ed_state d = EventRunning then Some (set_state x EventDeleted s) else handle_reset x s);
                       Some (Successful, s1) })"

definition add_signal_functional :: "nat \<Rightarrow> int \<Rightarrow> nat \<Rightarrow> engine \<Rightarrow> (SuccessfulFailed \<times> engine) option" where
  "add_signal_functional x sig cb s =
     do { s1 \<leftarrow> handle_reset x s;
          Some (Successful, assign_and_add x (event_new EventDataSimpleFunctional sig EV_SIGNAL None cb) s1) }"

definition remove_signal_functional :: "nat \<Rightarrow> engine \<Rightarrow> (SuccessfulFailed \<times> engine) option" where
  "remove_signal_functional x s =
     (case en_handle s x of
        None \<Rightarrow> Some (Failed, s)
      | Some d \<Rightarrow> do { s1 \<leftarrow> (if ed_state d = EventRunning then Some (set_state x EventDeleted s) else handle_reset x s);
                       Some (Successful, s1) })"

definition add_timer :: "nat \<Rightarrow> int \<times> int \<Rightarrow> nat \<Rightarrow> engine \<Rightarrow> (SuccessfulFailed \<times> engine) option" where
  "add_timer x tv cb s =
     do { s1 \<leftarrow> handle_reset x s;
          Some (Successful, assign_and_add x (event_new EventDataSimple (-1) EV_TIMEOUT (Some tv) cb) s1) }"

definition remove_timer_event :: "nat \<Rightarrow> engine \<Rightarrow> (SuccessfulFailed \<times> engine) option" where
  "remove_timer_event x s =
     (case en_handle s x of
        None \<Rightarrow> Some (Failed, s)
      | Some d \<Rightarrow> do { s1 \<leftarrow> (if ed_state d = EventRunning then Some (set_state x EventDeleted s) else handle_reset x s);
                       Some (Successful, s1) })"

definition add_io_event :: "nat \<Rightarrow> nat \<Rightarrow> int \<Rightarrow> nat \<Rightarrow> engine \<Rightarrow> (SuccessfulFailed \<times> engine) option" where
  "add_io_event flags x fd cb s =
     do { s1 \<leftarrow> handle_reset x s;
          Some (Successful, assign_and_add x (event_new EventDataIO fd flags None cb) s1) }"

definition remove_io_event :: "nat \<Rightarrow> engine \<Rightarrow> (SuccessfulFailed \<times> engine) option" where
  "remove_io_event x s =
     do { d \<leftarrow> en_handle s x;
          s1 \<leftarrow> (if ed_state d = EventRunning then Some (set_state x EventDeleted s) else handle_reset x s);
          Some (Successful, s1) }"

section \<open>Callbacks\<close>

datatype ev_cmd =
    AddSignal nat int nat | AddSignalFunctional nat int nat | AddTimer nat "int \<times> int" nat | AddIO nat nat int nat
  | RemoveSignal nat | RemoveSignalFunctional nat | RemoveTimer nat | RemoveIO nat | Wakeup

definition wakeup :: "engine \<Rightarrow> engine" where
  "wakeup s = s\<lparr>en_additional_flags := EVLOOP_NONBLOCK\<rparr>"

text \<open>The operations of the library look whether the handle is empty before they call \<^verbatim>\<open>remove_io\<close>.\<close>

fun exec_cmd :: "ev_cmd \<Rightarrow> engine \<Rightarrow> engine option" where
  "exec_cmd (AddSignal x sig cb) s = map_option snd (add_signal x sig cb s)"
| "exec_cmd (AddSignalFunctional x sig cb) s = map_option snd (add_signal_functional x sig cb s)"
| "exec_cmd (AddTimer x tv cb) s = map_option snd (add_timer x tv cb s)"
| "exec_cmd (AddIO flags x fd cb) s = map_option snd (add_io_event flags x fd cb s)"
| "exec_cmd (RemoveSignal x) s = map_option snd (remove_signal x s)"
| "exec_cmd (RemoveSignalFunctional x) s = map_option snd (remove_signal_functional x s)"
| "exec_cmd (RemoveTimer x) s = map_option snd (remove_timer_event x s)"
| "exec_cmd (RemoveIO x) s = (if en_handle s x \<noteq> None then map_option snd (remove_io_event x s) else Some s)"
| "exec_cmd Wakeup s = Some (wakeup s)"

text \<open>The callbacks of the three classes, around the function of the user.\<close>

definition event_data_callback :: "(nat \<Rightarrow> ev_cmd list) \<Rightarrow> bool \<Rightarrow> nat \<Rightarrow> engine \<Rightarrow> engine option" where
  "event_data_callback prog timeout x s =
     do { d \<leftarrow> en_handle s x;
          let s1 = set_state x EventRunning s;
          let e = (if timeout then Error_make 110 category_posix else Error_default);
          s2 \<leftarrow> run_all exec_cmd (prog (ed_callback d)) (s1\<lparr>en_called := en_called s1 @ [(ed_callback d, e)]\<rparr>);
          d2 \<leftarrow> en_handle s2 x;
          if ed_state d2 = EventDeleted then handle_reset x s2 else Some (set_state x EventPending s2) }"

text \<open>libevent activates an event: one that is not registered any more is skipped.\<close>

definition persistent :: "event_data \<Rightarrow> bool" where
  "persistent d \<longleftrightarrow> and (ed_flags d) EV_PERSIST \<noteq> 0"

definition activate :: "(nat \<Rightarrow> ev_cmd list) \<Rightarrow> nat \<times> bool \<Rightarrow> engine \<Rightarrow> engine option" where
  "activate prog ev s =
     (if fst ev \<in> set (en_base s)
      then do { d \<leftarrow> en_handle s (fst ev);
                event_data_callback prog (snd ev) (fst ev)
                  (if persistent d then s else s\<lparr>en_base := removeAll (fst ev) (en_base s)\<rparr>) }
      else Some s)"

section \<open>Polling\<close>

definition engine_poll :: "(nat \<Rightarrow> ev_cmd list) \<Rightarrow> (nat \<times> bool) list \<Rightarrow> engine \<Rightarrow> engine option" where
  "engine_poll prog ready s =
     do { s1 \<leftarrow> run_all (activate prog) ready
                  (s\<lparr>en_loops := en_loops s @ [or (en_poll_flags s) (en_additional_flags s)]\<rparr>);
          Some (s1\<lparr>en_additional_flags := 0\<rparr>) }"

definition set_non_blocking :: "bool \<Rightarrow> engine \<Rightarrow> engine" where
  "set_non_blocking enable s =
     s\<lparr>en_poll_flags := if enable then or (en_poll_flags s) EVLOOP_NONBLOCK
                        else and (en_poll_flags s) (not EVLOOP_NONBLOCK)\<rparr>"

definition set_no_exit_on_empty :: "bool \<Rightarrow> engine \<Rightarrow> engine" where
  "set_no_exit_on_empty enable s =
     s\<lparr>en_poll_flags := if enable then or (en_poll_flags s) EVLOOP_NO_EXIT_ON_EMPTY
                        else and (en_poll_flags s) (not EVLOOP_NO_EXIT_ON_EMPTY)\<rparr>"

section \<open>No event is left dangling\<close>

text \<open>
  A registered event has an object in its handle, and only the event \<open>r\<close> whose callback runs is in a state other than
  pending.
\<close>

definition en_inv :: "nat option \<Rightarrow> engine \<Rightarrow> bool" where
  "en_inv r s \<longleftrightarrow> distinct (en_base s) \<and> (\<forall>x \<in> set (en_base s). en_handle s x \<noteq> None) \<and>
     (\<forall>x d. r \<noteq> Some x \<longrightarrow> en_handle s x = Some d \<longrightarrow> ed_state d = EventPending)"

lemma en_invD:
  assumes "en_inv r s"
  shows "distinct (en_base s)" "x \<in> set (en_base s) \<Longrightarrow> \<exists>d. en_handle s x = Some d"
    "en_handle s x = Some d \<Longrightarrow> ed_state d = EventPending \<or> r = Some x"
  using assms by (auto simp: en_inv_def)

lemma handle_reset_inv:
  assumes "handle_reset x s = Some s1" and "en_inv r s"
  shows "en_inv r s1" "en_handle s1 = (en_handle s)(x := None)" "set (en_base s1) = set (en_base s) - {x}" "en_called s1 = en_called s"
proof -
  have "x \<notin> set (en_base s)" if "en_handle s x = None" using en_invD(2) [OF assms(2)] that by fastforce
  then show "en_inv r s1" "en_handle s1 = (en_handle s)(x := None)" "set (en_base s1) = set (en_base s) - {x}" "en_called s1 = en_called s"
    using assms by (auto simp: handle_reset_def en_inv_def distinct_removeAll fun_upd_idem split: option.splits if_splits)
qed

lemma assign_and_add_inv:
  assumes "en_inv r s" and "x \<notin> set (en_base s)" and "ed_state d = EventPending"
  shows "en_inv r (assign_and_add x d s)"
  using assms by (auto simp: assign_and_add_def en_inv_def)

lemma set_state_inv:
  assumes "en_inv r s" and "r = Some x \<or> st = EventPending"
  shows "en_inv r (set_state x st s)"
  using assms by (auto simp: set_state_def en_inv_def)

text \<open>Adding and removing, in the two shapes the calls have.\<close>

definition add_shape :: "nat \<Rightarrow> event_data \<Rightarrow> engine \<Rightarrow> engine option" where
  "add_shape x d s = map_option (assign_and_add x d) (handle_reset x s)"

definition remove_shape :: "nat \<Rightarrow> engine \<Rightarrow> engine option" where
  "remove_shape x s =
     (case en_handle s x of
        None \<Rightarrow> Some s
      | Some d \<Rightarrow> if ed_state d = EventRunning then Some (set_state x EventDeleted s) else handle_reset x s)"

fun cmd_target :: "ev_cmd \<Rightarrow> nat option" where
  "cmd_target (AddSignal x sig cb) = Some x"
| "cmd_target (AddSignalFunctional x sig cb) = Some x"
| "cmd_target (AddTimer x tv cb) = Some x"
| "cmd_target (AddIO flags x fd cb) = Some x"
| "cmd_target (RemoveSignal x) = Some x"
| "cmd_target (RemoveSignalFunctional x) = Some x"
| "cmd_target (RemoveTimer x) = Some x"
| "cmd_target (RemoveIO x) = Some x"
| "cmd_target Wakeup = None"

fun is_removal :: "ev_cmd \<Rightarrow> bool" where
  "is_removal (RemoveSignal x) = True"
| "is_removal (RemoveSignalFunctional x) = True"
| "is_removal (RemoveTimer x) = True"
| "is_removal (RemoveIO x) = True"
| "is_removal c = False"

lemmas add_defs = add_signal_def add_signal_functional_def add_timer_def add_io_event_def
lemmas remove_defs = remove_signal_def remove_signal_functional_def remove_timer_event_def remove_io_event_def

fun cmd_data :: "ev_cmd \<Rightarrow> event_data" where
  "cmd_data (AddSignalFunctional x sig cb) = event_new EventDataSimpleFunctional sig EV_SIGNAL None cb"
| "cmd_data (AddIO flags x fd cb) = event_new EventDataIO fd flags None cb"
| "cmd_data (AddSignal x sig cb) = event_new EventDataSimple sig EV_SIGNAL None cb"
| "cmd_data (AddTimer x tv cb) = event_new EventDataSimple (-1) EV_TIMEOUT (Some tv) cb"
| "cmd_data c = event_new EventDataSimple (-1) 0 None 0"

lemma cmd_data_pending [simp]: "ed_state (cmd_data c) = EventPending"
  by (cases c) (simp_all add: event_new_def)

lemma exec_add: "cmd_target c = Some x \<Longrightarrow> \<not> is_removal c \<Longrightarrow> exec_cmd c s = add_shape x (cmd_data c) s"
  by (cases c) (auto simp: add_defs add_shape_def split: bind_splits)

lemma exec_remove: "cmd_target c = Some x \<Longrightarrow> is_removal c \<Longrightarrow> exec_cmd c s = remove_shape x s"
  by (cases c) (auto simp: remove_defs remove_shape_def split: option.splits bind_splits)

lemma exec_cmd_inv:
  assumes "exec_cmd c s = Some s'" and "en_inv r s"
  shows "en_inv r s' \<and> (cmd_target c \<noteq> Some y \<longrightarrow> en_handle s' y = en_handle s y \<and> (y \<in> set (en_base s') \<longleftrightarrow> y \<in> set (en_base s))) \<and>
    en_called s' = en_called s"
proof (cases "cmd_target c")
  case None
  then show ?thesis using assms by (cases c) (auto simp: wakeup_def en_inv_def)
next
  case (Some x)
  show ?thesis
  proof (cases "is_removal c")
    case True
    then have "remove_shape x s = Some s'" using exec_remove Some assms(1) by simp
    then show ?thesis
    proof (cases "en_handle s x")
      case None
      then show ?thesis using \<open>remove_shape x s = Some s'\<close> assms(2) by (simp add: remove_shape_def)
    next
      case (Some d)
      show ?thesis
      proof (cases "ed_state d = EventRunning")
        case True
        then have "r = Some x" using en_invD(3) [OF assms(2) Some] by auto
        then show ?thesis
          using \<open>remove_shape x s = Some s'\<close> Some True set_state_inv [OF assms(2), of x EventDeleted] \<open>cmd_target c = Some x\<close>
          by (auto simp: remove_shape_def set_state_def)
      next
        case False
        then have "handle_reset x s = Some s'" using \<open>remove_shape x s = Some s'\<close> Some by (simp add: remove_shape_def)
        then show ?thesis using handle_reset_inv [OF _ assms(2)] \<open>cmd_target c = Some x\<close> by auto
      qed
    qed
  next
    case False
    then obtain s1 where s1: "handle_reset x s = Some s1" "s' = assign_and_add x (cmd_data c) s1"
      using exec_add [OF Some] assms(1) by (auto simp: add_shape_def)
    then show ?thesis
      using handle_reset_inv [OF s1(1) assms(2)] assign_and_add_inv [of r s1 x "cmd_data c"] Some
      by (auto simp: assign_and_add_def)
  qed
qed

lemma run_cmds_inv:
  assumes "run_all exec_cmd cs s = Some s'" and "en_inv r s"
  shows "en_inv r s' \<and> (Some y \<notin> set (map cmd_target cs) \<longrightarrow>
      en_handle s' y = en_handle s y \<and> (y \<in> set (en_base s') \<longleftrightarrow> y \<in> set (en_base s))) \<and> en_called s' = en_called s"
  using assms
proof (induction cs arbitrary: s)
  case (Cons c cs)
  then obtain s1 where s1: "exec_cmd c s = Some s1" "run_all exec_cmd cs s1 = Some s'" by (auto simp: bind_Some_iff)
  show ?case using Cons.IH [OF s1(2)] exec_cmd_inv [OF s1(1) Cons.prems(2), of y] by auto
qed auto

section \<open>Callbacks are safe\<close>

text \<open>What a callback may do with the handle of its own event: nothing, remove it once, or only add it again.\<close>

definition own_cmds :: "nat \<Rightarrow> ev_cmd list \<Rightarrow> ev_cmd list" where
  "own_cmds x cs = filter (\<lambda>c. cmd_target c = Some x) cs"

definition well_behaved :: "nat \<Rightarrow> ev_cmd list \<Rightarrow> bool" where
  "well_behaved x cs \<longleftrightarrow> (\<exists>c \<in> set cs. own_cmds x cs = [c] \<and> is_removal c) \<or> (\<forall>c \<in> set (own_cmds x cs). \<not> is_removal c)"

text \<open>The handle of the running event after the calls of its callback.\<close>

definition own_removed :: "nat \<Rightarrow> ev_cmd list \<Rightarrow> bool" where
  "own_removed x cs \<longleftrightarrow> own_cmds x cs \<noteq> [] \<and> is_removal (hd (own_cmds x cs))"

lemma run_adds:
  assumes "run_all exec_cmd cs s = Some s'" and "en_inv (Some x) s" and "\<forall>c \<in> set (own_cmds x cs). \<not> is_removal c"
    and "en_handle s x = Some d" and "ed_state d \<noteq> EventDeleted"
  shows "\<exists>d'. en_handle s' x = Some d' \<and> ed_state d' \<noteq> EventDeleted"
  using assms
proof (induction cs arbitrary: s d)
  case (Cons c cs)
  then obtain s1 where s1: "exec_cmd c s = Some s1" "run_all exec_cmd cs s1 = Some s'" by (auto simp: bind_Some_iff)
  have inv: "en_inv (Some x) s1" using exec_cmd_inv [OF s1(1) Cons.prems(2)] by blast
  have "\<exists>d1. en_handle s1 x = Some d1 \<and> ed_state d1 \<noteq> EventDeleted"
  proof (cases "cmd_target c = Some x")
    case True
    then have "\<not> is_removal c" using Cons.prems(3) by (simp add: own_cmds_def)
    then obtain s0 where "s1 = assign_and_add x (cmd_data c) s0" using exec_add [OF True] s1(1) by (auto simp: add_shape_def)
    then show ?thesis by (simp add: assign_and_add_def)
  next
    case False
    then show ?thesis using exec_cmd_inv [OF s1(1) Cons.prems(2), of x] Cons.prems(4,5) by simp
  qed
  then show ?case using Cons.IH [OF s1(2) inv] Cons.prems(3) by (auto simp: own_cmds_def split: if_splits)
qed auto

lemma run_removal:
  assumes "run_all exec_cmd cs s = Some s'" and "en_inv (Some x) s" and "own_cmds x cs = [c]" and "is_removal c"
    and "en_handle s x = Some d" and "ed_state d = EventRunning"
  shows "\<exists>d'. en_handle s' x = Some d' \<and> ed_state d' = EventDeleted"
  using assms
proof (induction cs arbitrary: s)
  case (Cons c' cs)
  then obtain s1 where s1: "exec_cmd c' s = Some s1" "run_all exec_cmd cs s1 = Some s'" by (auto simp: bind_Some_iff)
  have inv: "en_inv (Some x) s1" using exec_cmd_inv [OF s1(1) Cons.prems(2)] by blast
  show ?case
  proof (cases "cmd_target c' = Some x")
    case True
    then have c: "c' = c" "own_cmds x cs = []" using Cons.prems(3) by (auto simp: own_cmds_def)
    then have "s1 = set_state x EventDeleted s"
      using exec_remove [OF True] s1(1) Cons.prems(4-6) by (auto simp: remove_shape_def)
    moreover have "Some x \<notin> set (map cmd_target cs)" using c(2) by (auto simp: own_cmds_def filter_empty_conv)
    ultimately show ?thesis using run_cmds_inv [OF s1(2) inv, of x] Cons.prems(5) by (simp add: set_state_def)
  next
    case False
    then show ?thesis
      using Cons.IH [OF s1(2) inv] exec_cmd_inv [OF s1(1) Cons.prems(2), of x] Cons.prems(3-6) by (simp add: own_cmds_def)
  qed
qed (simp add: own_cmds_def)

lemma running_inv: "en_inv None s \<Longrightarrow> en_inv (Some x) ((set_state x EventRunning s)\<lparr>en_called := l\<rparr>)"
  by (auto simp: en_inv_def set_state_def)

lemma pending_inv: "en_inv (Some x) s \<Longrightarrow> en_inv None (set_state x EventPending s)"
  by (auto simp: en_inv_def set_state_def)

lemma deleted_inv:
  assumes "en_inv (Some x) s" and "en_handle s x = Some d" and "ed_state d = EventDeleted"
  shows "\<exists>s'. handle_reset x s = Some s' \<and> en_inv None s' \<and> en_handle s' x = None \<and> x \<notin> set (en_base s') \<and> en_called s' = en_called s"
proof -
  obtain s' where s': "handle_reset x s = Some s'" using assms(2,3) by (simp add: handle_reset_def)
  then show ?thesis using handle_reset_inv [OF s' assms(1)] by (auto simp: en_inv_def)
qed

definition event_error :: "bool \<Rightarrow> Error" where
  "event_error timeout = (if timeout then Error_make 110 category_posix else Error_default)"

lemma callback_safe:
  assumes "en_inv None s" and "en_handle s x = Some d" and "well_behaved x (prog (ed_callback d))"
    and "run_all exec_cmd (prog (ed_callback d))
          ((set_state x EventRunning s)\<lparr>en_called := en_called s @ [(ed_callback d, event_error timeout)]\<rparr>) = Some s2"
  shows "\<exists>s'. event_data_callback prog timeout x s = Some s' \<and> en_inv None s' \<and>
    (en_handle s' x = None \<longleftrightarrow> own_removed x (prog (ed_callback d))) \<and>
    en_called s' = en_called s @ [(ed_callback d, event_error timeout)]"
proof -
  let ?cs = "prog (ed_callback d)"
  let ?s1 = "(set_state x EventRunning s)\<lparr>en_called := en_called s @ [(ed_callback d, event_error timeout)]\<rparr>"
  have h1: "en_handle ?s1 x = Some (d\<lparr>ed_state := EventRunning\<rparr>)" using assms(2) by (simp add: set_state_def)
  have inv1: "en_inv (Some x) ?s1" using running_inv [OF assms(1)] .
  have inv2: "en_inv (Some x) s2" and called: "en_called s2 = en_called s @ [(ed_callback d, event_error timeout)]"
    using run_cmds_inv [OF assms(4) inv1] by auto
  have cb: "event_data_callback prog timeout x s =
      do { d2 \<leftarrow> en_handle s2 x; if ed_state d2 = EventDeleted then handle_reset x s2 else Some (set_state x EventPending s2) }"
    using assms(2,4) by (simp add: event_data_callback_def Let_def event_error_def set_state_def)
  show ?thesis
  proof (cases "\<forall>c \<in> set (own_cmds x ?cs). \<not> is_removal c")
    case True
    then have "\<not> own_removed x ?cs" by (cases "own_cmds x ?cs") (auto simp: own_removed_def)
    moreover obtain d2 where "en_handle s2 x = Some d2" "ed_state d2 \<noteq> EventDeleted"
      using run_adds [OF assms(4) inv1 True h1] by auto
    ultimately show ?thesis using cb pending_inv [OF inv2] called by (auto simp: set_state_def)
  next
    case False
    then obtain c where c: "own_cmds x ?cs = [c]" "is_removal c" using assms(3) by (auto simp: well_behaved_def)
    obtain d2 where "en_handle s2 x = Some d2" "ed_state d2 = EventDeleted"
      using run_removal [OF assms(4) inv1 c h1] by auto
    then show ?thesis using cb deleted_inv [OF inv2] c called by (auto simp: own_removed_def)
  qed
qed

text \<open>
  The callback of an event. If the function of the user leaves the handle of its own event alone, removes it once, or
  only adds it again, the callback never touches a destroyed event. Afterwards no event is in the running or
  deleted state and every registered event has its object; the handle is empty exactly if the function removed it.
\<close>

theorem event_callback_is_safe:
  assumes "en_inv None s" and "en_handle s x = Some d" and "well_behaved x (prog (ed_callback d))"
    and "run_all exec_cmd (prog (ed_callback d))
          ((set_state x EventRunning s)\<lparr>en_called := en_called s @ [(ed_callback d, event_error timeout)]\<rparr>) = Some s2"
  shows "\<exists>s'. event_data_callback prog timeout x s = Some s' \<and> en_inv None s' \<and>
    (en_handle s' x = None \<longleftrightarrow> own_removed x (prog (ed_callback d))) \<and>
    en_called s' = en_called s @ [(ed_callback d, event_error timeout)]"
  using assms by (rule callback_safe)

section \<open>Polling\<close>

definition plain :: "engine \<Rightarrow> bool" where
  "plain s \<longleftrightarrow> (\<forall>x d. en_handle s x = Some d \<longrightarrow> ed_class d \<noteq> EventDataSimpleFunctional)"

fun plain_cmd :: "ev_cmd \<Rightarrow> bool" where
  "plain_cmd (AddSignalFunctional x sig cb) = False"
| "plain_cmd c = True"

lemma reset_plain: "plain s \<Longrightarrow> \<exists>s'. handle_reset x s = Some s' \<and> plain s'"
  by (auto simp: plain_def handle_reset_def split: option.splits)

lemma set_state_plain: "plain s \<Longrightarrow> plain (set_state x st s)"
  by (auto simp: plain_def set_state_def)

lemma exec_plain:
  assumes "plain s" and "plain_cmd c"
  shows "\<exists>s'. exec_cmd c s = Some s' \<and> plain s'"
proof (cases "cmd_target c")
  case None
  then show ?thesis using assms(1) by (cases c) (auto simp: plain_def wakeup_def)
next
  case (Some x)
  obtain s1 where s1: "handle_reset x s = Some s1" "plain s1" using reset_plain [OF assms(1)] by blast
  show ?thesis
  proof (cases "is_removal c")
    case True
    then show ?thesis
      using exec_remove [OF Some] s1 assms(1) set_state_plain [OF assms(1)] by (auto simp: remove_shape_def split: option.splits)
  next
    case False
    then have "ed_class (cmd_data c) \<noteq> EventDataSimpleFunctional" using assms(2) Some by (cases c) (auto simp: event_new_def)
    then show ?thesis
      using exec_add [OF Some False] s1 by (auto simp: add_shape_def plain_def assign_and_add_def)
  qed
qed

lemma run_plain:
  assumes "plain s" and "\<forall>c \<in> set cs. plain_cmd c"
  shows "\<exists>s'. run_all exec_cmd cs s = Some s' \<and> plain s'"
  using assms
proof (induction cs arbitrary: s)
  case (Cons c cs)
  then obtain s1 where "exec_cmd c s = Some s1" "plain s1" using exec_plain [of s c] by auto
  then show ?case using Cons.IH [of s1] Cons.prems(2) by simp
qed simp

definition tame :: "(nat \<Rightarrow> ev_cmd list) \<Rightarrow> bool" where
  "tame prog \<longleftrightarrow> (\<forall>cb. (\<forall>x. well_behaved x (prog cb)) \<and> (\<forall>c \<in> set (prog cb). plain_cmd c))"

lemma callback_plain:
  assumes "en_inv None s" and "plain s" and "en_handle s x = Some d" and "tame prog"
  shows "\<exists>s'. event_data_callback prog timeout x s = Some s' \<and> en_inv None s' \<and> plain s'"
proof -
  let ?s1 = "(set_state x EventRunning s)\<lparr>en_called := en_called s @ [(ed_callback d, event_error timeout)]\<rparr>"
  have "plain ?s1" using set_state_plain [OF assms(2), of x EventRunning] by (simp add: plain_def)
  then obtain s2 where s2: "run_all exec_cmd (prog (ed_callback d)) ?s1 = Some s2" "plain s2"
    using run_plain [of ?s1 "prog (ed_callback d)"] assms(4) by (auto simp: tame_def)
  obtain s' where s': "event_data_callback prog timeout x s = Some s'" "en_inv None s'"
    using callback_safe [OF assms(1,3), of prog timeout s2] s2(1) assms(4) by (auto simp: tame_def)
  have "event_data_callback prog timeout x s =
      do { d2 \<leftarrow> en_handle s2 x; if ed_state d2 = EventDeleted then handle_reset x s2 else Some (set_state x EventPending s2) }"
    using assms(3) s2(1) by (simp add: event_data_callback_def Let_def event_error_def set_state_def)
  then have "plain s'"
    using s'(1) reset_plain [OF s2(2), of x] set_state_plain [OF s2(2), of x EventPending]
    by (cases "en_handle s2 x") (auto split: if_splits)
  then show ?thesis using s' by blast
qed

lemma activate_plain:
  assumes "en_inv None s" and "plain s" and "tame prog"
  shows "\<exists>s'. activate prog ev s = Some s' \<and> en_inv None s' \<and> plain s'"
proof (cases "fst ev \<in> set (en_base s)")
  case True
  then obtain d where d: "en_handle s (fst ev) = Some d" using en_invD(2) [OF assms(1)] by blast
  let ?s = "if persistent d then s else s\<lparr>en_base := removeAll (fst ev) (en_base s)\<rparr>"
  have "en_inv None ?s" "plain ?s" "en_handle ?s (fst ev) = Some d"
    using assms(1,2) d by (auto simp: en_inv_def plain_def distinct_removeAll)
  then show ?thesis using callback_plain [of ?s "fst ev" d prog "snd ev"] assms(3) True d by (simp add: activate_def)
next
  case False
  then show ?thesis using assms by (simp add: activate_def)
qed

lemma activations_plain:
  assumes "en_inv None s" and "plain s" and "tame prog"
  shows "\<exists>s'. run_all (activate prog) ready s = Some s' \<and> en_inv None s' \<and> plain s'"
  using assms
proof (induction ready arbitrary: s)
  case (Cons ev ready)
  then obtain s1 where "activate prog ev s = Some s1" "en_inv None s1" "plain s1" using activate_plain [of s prog ev] by blast
  then show ?case using Cons.IH [of s1] Cons.prems(3) by simp
qed simp

text \<open>
  C13. Polling. Whatever events become ready, and whatever the functions called for them add and remove, the poll ends
  and no event is used after its destruction: every event that is still registered has its object, and none is
  left in the running or deleted state. What the functions may do is restricted for every handle, their own and
  those of other events (\<open>tame\<close>): in one call a function either removes a handle once and does nothing else with it,
  or does not remove it; functional signals are left out.
\<close>

theorem engine_poll_is_safe:
  assumes "en_inv None s" and "plain s" and "tame prog"
  shows "\<exists>s'. engine_poll prog ready s = Some s' \<and> en_inv None s' \<and> plain s' \<and> en_additional_flags s' = 0"
proof -
  let ?s = "s\<lparr>en_loops := en_loops s @ [or (en_poll_flags s) (en_additional_flags s)]\<rparr>"
  have "en_inv None ?s" "plain ?s" using assms(1,2) by (auto simp: en_inv_def plain_def)
  then obtain s1 where "run_all (activate prog) ready ?s = Some s1" "en_inv None s1" "plain s1"
    using activations_plain [of ?s prog ready] assms(3) by blast
  then show ?thesis by (auto simp: engine_poll_def en_inv_def plain_def)
qed

text \<open>A timer whose function adds it again and removes another one.\<close>

definition sample_prog :: "nat \<Rightarrow> ev_cmd list" where
  "sample_prog cb = (if cb = 5 then [AddTimer 0 (1, 0) 5, RemoveTimer 1] else [])"

lemma sample_prog_tame: "tame sample_prog"
  by (auto simp: tame_def sample_prog_def well_behaved_def own_cmds_def)

definition sample_engine :: engine where
  "sample_engine = assign_and_add 0 (event_new EventDataSimple (-1) EV_TIMEOUT (Some (1, 0)) 5)
     (assign_and_add 1 (event_new EventDataSimple (-1) EV_TIMEOUT (Some (2, 0)) 6) engine_new)"

lemma sample_engine_ok: "en_inv None sample_engine" "plain sample_engine"
  by (auto simp: sample_engine_def engine_new_def en_inv_def plain_def assign_and_add_def event_new_def)

theorem event_callback_is_safe_witness:
  "\<exists>s'. event_data_callback sample_prog True 0 sample_engine = Some s' \<and> en_inv None s' \<and> en_handle s' 0 \<noteq> None \<and>
     en_called s' = [(5, event_error True)]"
proof -
  have d: "en_handle sample_engine 0 = Some (event_new EventDataSimple (-1) EV_TIMEOUT (Some (1, 0)) 5)"
    by (simp add: sample_engine_def assign_and_add_def)
  have "plain ((set_state 0 EventRunning sample_engine)\<lparr>en_called := l\<rparr>)" for l
    using set_state_plain [OF sample_engine_ok(2), of 0 EventRunning] by (simp add: plain_def)
  then obtain s2 where "run_all exec_cmd (sample_prog 5)
      ((set_state 0 EventRunning sample_engine)\<lparr>en_called := en_called sample_engine @ [(5, event_error True)]\<rparr>) = Some s2"
    using run_plain sample_prog_tame by (fastforce simp: tame_def)
  moreover have "\<not> own_removed 0 (sample_prog 5)" by (simp add: own_removed_def own_cmds_def sample_prog_def)
  moreover have "en_called sample_engine = []" by (simp add: sample_engine_def engine_new_def assign_and_add_def)
  ultimately show ?thesis
    using event_callback_is_safe [OF sample_engine_ok(1) d, of sample_prog True s2] sample_prog_tame by (simp add: tame_def event_new_def)
qed

theorem engine_poll_is_safe_witness:
  "\<exists>s'. engine_poll sample_prog [(0, True), (1, True)] sample_engine = Some s' \<and> en_inv None s'"
  using engine_poll_is_safe [OF sample_engine_ok sample_prog_tame] by blast

text \<open>
  Removing an event twice in its own callback destroys it at once: the second call finds it in the deleted state, and
  the callback goes on with the destroyed object.
\<close>

lemma double_removal_destroys:
  assumes "en_handle s x = Some d" and "prog (ed_callback d) = [RemoveTimer x, RemoveTimer x]"
  shows "event_data_callback prog timeout x s = None"
  using assms by (simp add: event_data_callback_def Let_def set_state_def remove_timer_event_def handle_reset_def)

text \<open>A functional signal that adds itself again destroys the function that is running.\<close>

lemma functional_readd_destroys:
  assumes "en_handle s x = Some d" and "ed_class d = EventDataSimpleFunctional" and "prog (ed_callback d) = [AddSignalFunctional x sig cb]"
  shows "event_data_callback prog timeout x s = None"
  using assms by (simp add: event_data_callback_def Let_def set_state_def add_signal_functional_def handle_reset_def)

section \<open>Waking up\<close>

lemma handle_reset_flags:
  "handle_reset x s = Some s' \<Longrightarrow> en_loops s' = en_loops s \<and> en_poll_flags s' = en_poll_flags s"
  by (auto simp: handle_reset_def split: option.splits if_splits)

lemma exec_flags: "exec_cmd c s = Some s' \<Longrightarrow> en_loops s' = en_loops s \<and> en_poll_flags s' = en_poll_flags s"
proof (cases "cmd_target c")
  case None
  then show "exec_cmd c s = Some s' \<Longrightarrow> ?thesis" by (cases c) (auto simp: wakeup_def)
next
  case (Some x)
  then show "exec_cmd c s = Some s' \<Longrightarrow> ?thesis"
    using exec_remove [OF Some] exec_add [OF Some] handle_reset_flags
    by (cases "is_removal c")
      (auto simp: remove_shape_def add_shape_def set_state_def assign_and_add_def split: option.splits if_splits)
qed

lemma run_cmds_flags: "run_all exec_cmd cs s = Some s' \<Longrightarrow> en_loops s' = en_loops s \<and> en_poll_flags s' = en_poll_flags s"
proof (induction cs arbitrary: s)
  case (Cons c cs)
  then obtain s1 where "exec_cmd c s = Some s1" "run_all exec_cmd cs s1 = Some s'" by (auto simp: bind_Some_iff)
  then show ?case using Cons.IH exec_flags by metis
qed simp

lemma activate_flags: "activate prog ev s = Some s' \<Longrightarrow> en_loops s' = en_loops s \<and> en_poll_flags s' = en_poll_flags s"
  by (auto simp: activate_def event_data_callback_def Let_def bind_Some_iff set_state_def
      dest!: run_cmds_flags handle_reset_flags split: if_splits)

lemma activations_flags:
  "run_all (activate prog) ready s = Some s' \<Longrightarrow> en_loops s' = en_loops s \<and> en_poll_flags s' = en_poll_flags s"
proof (induction ready arbitrary: s)
  case (Cons ev ready)
  then obtain s1 where "activate prog ev s = Some s1" "run_all (activate prog) ready s1 = Some s'" by (auto simp: bind_Some_iff)
  then show ?case using Cons.IH activate_flags by metis
qed simp

text \<open>
  Waking up. The poll after a wake-up does not block; the one after it uses the flags of the engine again, whatever
  the events in between did.
\<close>

theorem wakeup_unblocks_one_poll:
  assumes "engine_poll prog r1 (wakeup s) = Some s1" and "engine_poll prog r2 s1 = Some s2"
  shows "en_loops s2 = en_loops s @ [or (en_poll_flags s) EVLOOP_NONBLOCK, en_poll_flags s]"
  using assms by (auto simp: engine_poll_def wakeup_def bind_Some_iff dest!: activations_flags)

theorem wakeup_unblocks_one_poll_witness:
  "\<exists>s1 s2. engine_poll sample_prog [(0, True)] (wakeup engine_new) = Some s1 \<and> engine_poll sample_prog [] s1 = Some s2 \<and>
     en_loops s2 = [3, 1]"
proof -
  obtain s1 s2 where s: "engine_poll sample_prog [(0, True)] (wakeup engine_new) = Some s1" "engine_poll sample_prog [] s1 = Some s2"
    by (simp add: engine_poll_def activate_def wakeup_def engine_new_def)
  then show ?thesis using wakeup_unblocks_one_poll [OF s] by (auto simp: engine_new_def ev_flags)
qed

text \<open>The setters change one flag each.\<close>

lemma set_flags:
  "bit (en_poll_flags (set_non_blocking b s)) i = (if i = 1 then b else bit (en_poll_flags s) i)"
  "bit (en_poll_flags (set_no_exit_on_empty b s)) i = (if i = 2 then b else bit (en_poll_flags s) i)"
proof -
  have "bit EVLOOP_NONBLOCK i = (i = 1)" "bit EVLOOP_NO_EXIT_ON_EMPTY i = (i = 2)"
    using bit_push_bit_iff [of 1 "1 :: int" i] bit_push_bit_iff [of 2 "1 :: int" i] by (auto simp: bit_1_iff ev_flags)
  then show "bit (en_poll_flags (set_non_blocking b s)) i = (if i = 1 then b else bit (en_poll_flags s) i)"
    "bit (en_poll_flags (set_no_exit_on_empty b s)) i = (if i = 2 then b else bit (en_poll_flags s) i)"
    by (auto simp: set_non_blocking_def set_no_exit_on_empty_def bit_or_iff bit_and_iff bit_not_iff)
qed

section \<open>The handles of the operations\<close>

text \<open>
  The state of one handle, as the operations on descriptors and timers see it, is an abstraction of the engine.
\<close>

definition handle_view :: "nat \<Rightarrow> engine \<Rightarrow> event_handle" where
  "handle_view x s = map_option ed_state (en_handle s x)"

text \<open>
  The engine implements the event handles of the operations: adding an event, removing it and the callback around
  a function act on the handle as the abstract operations do, and on no other handle.
\<close>

theorem engine_refines_handles:
  assumes "plain s"
  shows "(\<exists>s1. add_io_event flags x fd cb s = Some (fst (add_event (handle_view x s)), s1) \<and>
      handle_view x s1 = snd (add_event (handle_view x s)) \<and> (\<forall>y. y \<noteq> x \<longrightarrow> handle_view y s1 = handle_view y s)) \<and>
    map_option (\<lambda>(a, s1). (a, handle_view x s1)) (remove_io_event x s) = remove_io (handle_view x s) \<and>
    map_option (\<lambda>(a, s1). (a, handle_view x s1)) (remove_timer_event x s) = Some (remove_timer (handle_view x s))"
proof (intro conjI)
  obtain s0 where s0: "handle_reset x s = Some s0" "en_handle s0 = (en_handle s)(x := None)"
    using assms by (cases "en_handle s x") (auto simp: handle_reset_def plain_def fun_upd_idem)
  then show "\<exists>s1. add_io_event flags x fd cb s = Some (fst (add_event (handle_view x s)), s1) \<and>
      handle_view x s1 = snd (add_event (handle_view x s)) \<and> (\<forall>y. y \<noteq> x \<longrightarrow> handle_view y s1 = handle_view y s)"
    by (simp add: add_io_event_def add_event_def handle_view_def assign_and_add_def event_new_def)
  show "map_option (\<lambda>(a, s1). (a, handle_view x s1)) (remove_io_event x s) = remove_io (handle_view x s)"
    using s0 by (cases "en_handle s x") (auto simp: remove_io_event_def remove_io_def handle_view_def set_state_def)
  show "map_option (\<lambda>(a, s1). (a, handle_view x s1)) (remove_timer_event x s) = Some (remove_timer (handle_view x s))"
    using s0 by (cases "en_handle s x") (auto simp: remove_timer_event_def remove_timer_def handle_view_def set_state_def)
qed

theorem engine_refines_handles_witness:
  "map_option (\<lambda>(a, s1). (a, handle_view 0 s1)) (remove_io_event 0 sample_engine) = Some (Successful, None)"
proof -
  have "handle_view 0 sample_engine = Some EventPending" by (simp add: handle_view_def sample_engine_def assign_and_add_def event_new_def)
  then show ?thesis using engine_refines_handles [OF sample_engine_ok(2)] by (simp add: remove_io_def)
qed

end
