(* ===== verification/Jinx_Routine.thy ===== *)
theory Jinx_Routine
  imports Jinx_Loop Jinx_Optional
begin

text \<open>
  Routines and futures (\<^verbatim>\<open>MixinResult\<close>, \<^verbatim>\<open>MixinRoutine\<close>, \<^verbatim>\<open>AsyncFuture\<close> and \<^verbatim>\<open>AsyncDoNothing\<close> of
  \<^verbatim>\<open>include/jinx/async/awaitable.hpp\<close>): awaitables that are written as a chain of member functions, each of which
  names the function that continues, and awaitables that wait for a value.

  The member functions of a routine are numbers, and \<open>code\<close> says how each of them ends; \<open>us_trace\<close> records the
  functions that were entered. The objects are the awaitables of the engine. \<open>None\<close> is a call through the null
  pointer of a routine that was never started, or an access to an empty result.
\<close>

section \<open>Routines\<close>

text \<open>What \<^verbatim>\<open>_run\<close> and \<^verbatim>\<open>_mem\<close> hold.\<close>

datatype binding = Unbound | UninitializedHandler | Bound nat

record 'v users =
  us_bind :: "nat \<Rightarrow> binding"
  us_trace :: "(nat \<times> nat) list"
  us_result :: "nat \<Rightarrow> 'v Optional"

text \<open>
  The ways a member function may end. The last three name the function that continues: \<^verbatim>\<open>async_yield(&T::f)\<close>,
  \<^verbatim>\<open>async_await(callee, &T::f)\<close>, and \<^verbatim>\<open>async_start(&T::f)\<close> followed by a suspension.
\<close>

datatype stage_end =
    StageReturn | StageSuspend | StageThrow Error | StageYield nat | StageAwait nat nat | StageStartSuspend nat

definition heapless_bind :: "nat \<Rightarrow> binding \<Rightarrow> 'v users \<Rightarrow> 'v users" where
  "heapless_bind n b u = u\<lparr>us_bind := (us_bind u)(n := b)\<rparr>"

definition routine_start :: "nat \<Rightarrow> nat \<Rightarrow> 'v users \<Rightarrow> 'v users" where
  "routine_start n k u = heapless_bind n (Bound k) u"

definition routine_yield :: "nat \<Rightarrow> nat \<Rightarrow> 'v users \<Rightarrow> 'v users \<times> action" where
  "routine_yield n k u = (heapless_bind n (Bound k) u, YieldA)"

definition routine_await :: "nat \<Rightarrow> nat \<Rightarrow> nat \<Rightarrow> 'v users \<Rightarrow> 'v users \<times> action" where
  "routine_await n callee k u = (heapless_bind n (Bound k) u, AwaitA callee)"

definition routine_pack :: "nat \<Rightarrow> nat \<Rightarrow> nat \<Rightarrow> 'v users \<Rightarrow> 'v users \<times> action" where
  "routine_pack n callee k u = (heapless_bind n (Bound k) u, AwaitA callee)"

definition routine_uninitialized :: action where
  "routine_uninitialized = ThrowA (make_error_awaitable ErrorAwaitable_Uninitialized)"

fun stage_action :: "nat \<Rightarrow> stage_end \<Rightarrow> 'v users \<Rightarrow> 'v users \<times> action" where
  "stage_action n StageReturn u = (u, ReturnA)"
| "stage_action n StageSuspend u = (u, SuspendA)"
| "stage_action n (StageThrow e) u = (u, ThrowA e)"
| "stage_action n (StageYield k) u = routine_yield n k u"
| "stage_action n (StageAwait c k) u = routine_await n c k u"
| "stage_action n (StageStartSuspend k) u = (routine_start n k u, SuspendA)"

definition routine_poll :: "(nat \<Rightarrow> nat \<Rightarrow> stage_end) \<Rightarrow> nat \<Rightarrow> 'v users \<Rightarrow> ('v users \<times> action) option" where
  "routine_poll code n u =
     (case us_bind u n of
        Unbound \<Rightarrow> None
      | UninitializedHandler \<Rightarrow> Some (u, routine_uninitialized)
      | Bound k \<Rightarrow> Some (stage_action n (code n k) (u\<lparr>us_trace := us_trace u @ [(n, k)]\<rparr>)))"

definition routine_finalize :: "nat \<Rightarrow> 'v users \<Rightarrow> 'v users" where
  "routine_finalize n u = heapless_bind n UninitializedHandler u"

section \<open>Results and futures\<close>

definition result_empty :: "nat \<Rightarrow> 'v users \<Rightarrow> bool" where
  "result_empty n u \<longleftrightarrow> op_empty (us_result u n)"

definition get_result :: "nat \<Rightarrow> 'v users \<Rightarrow> 'v option" where
  "get_result n u = opt_get (us_result u n)"

definition result_reset :: "nat \<Rightarrow> 'v users \<Rightarrow> 'v users option" where
  "result_reset n u = map_option (\<lambda>x. u\<lparr>us_result := (us_result u)(n := x)\<rparr>) (opt_reset (us_result u n))"

definition result_release :: "nat \<Rightarrow> 'v users \<Rightarrow> ('v \<times> 'v users) option" where
  "result_release n u =
     map_option (\<lambda>(v, x). (v, u\<lparr>us_result := (us_result u)(n := x)\<rparr>)) (opt_release (us_result u n))"

definition emplace_result :: "nat \<Rightarrow> 'v \<Rightarrow> 'v users \<Rightarrow> 'v users option" where
  "emplace_result n v u =
     map_option (\<lambda>x. u\<lparr>us_result := (us_result u)(n := x)\<rparr>) (opt_emplace v (us_result u n))"

definition future_is_done :: "nat \<Rightarrow> 'v users \<Rightarrow> bool" where
  "future_is_done n u \<longleftrightarrow> \<not> result_empty n u"

definition future_emplace :: "nat \<Rightarrow> 'v \<Rightarrow> 'v users world \<Rightarrow> (SuccessfulFailed \<times> 'v users world) option" where
  "future_emplace n v w =
     do { u \<leftarrow> emplace_result n v (user w); Some (async_resume (Obj n) Error_default (w\<lparr>user := u\<rparr>)) }"

definition future_set_error :: "nat \<Rightarrow> Error \<Rightarrow> 'v users world \<Rightarrow> SuccessfulFailed \<times> 'v users world" where
  "future_set_error n e w = async_resume (Obj n) e w"

definition future_poll :: "nat \<Rightarrow> 'v users \<Rightarrow> 'v users \<times> action" where
  "future_poll n u = (u, if \<not> result_empty n u then ReturnA else SuspendA)"

definition nothing_poll :: "'v users \<Rightarrow> 'v users \<times> action" where
  "nothing_poll u = (u, ReturnA)"

section \<open>Routines in the engine\<close>

text \<open>The object \<open>n\<close> is a routine, a future, or does nothing.\<close>

definition is_routine :: "'v users vtable \<Rightarrow> (nat \<Rightarrow> nat \<Rightarrow> stage_end) \<Rightarrow> nat \<Rightarrow> bool" where
  "is_routine vt code n \<longleftrightarrow>
     (\<forall>u u' act. routine_poll code n u = Some (u', act) \<longrightarrow> vt_poll vt n u = Done u' act) \<and>
     (\<forall>u. vt_final vt n u = routine_finalize n u)"

definition is_future :: "'v users vtable \<Rightarrow> nat \<Rightarrow> bool" where
  "is_future vt n \<longleftrightarrow> (\<forall>u. vt_poll vt n u = Done (fst (future_poll n u)) (snd (future_poll n u))) \<and> (\<forall>u. vt_final vt n u = u)"

definition is_nothing :: "'v users vtable \<Rightarrow> nat \<Rightarrow> bool" where
  "is_nothing vt n \<longleftrightarrow> (\<forall>u. vt_poll vt n u = Done (fst (nothing_poll u)) (snd (nothing_poll u))) \<and> (\<forall>u. vt_final vt n u = u)"

text \<open>An awaitable that returns when it is polled: one that does nothing, or a future that has its value.\<close>

definition ready_callee :: "'v users vtable \<Rightarrow> nat \<Rightarrow> 'v users \<Rightarrow> bool" where
  "ready_callee vt n u \<longleftrightarrow> is_nothing vt n \<or> (is_future vt n \<and> future_is_done n u)"

lemma ready_calleeD:
  "ready_callee vt n u \<Longrightarrow> vt_poll vt n u = Done u ReturnA" "ready_callee vt n u \<Longrightarrow> vt_final vt n u' = u'"
  by (auto simp: ready_callee_def is_nothing_def is_future_def nothing_poll_def future_poll_def future_is_done_def)

lemma call_returns:
  assumes "ready_callee vt c (user w)" and "\<not> Error_bool (aw_error (aws w (Obj c)))"
    and "aw_task (aws w (Obj n)) = Some t" and "c \<noteq> n"
  shows "\<exists>w'. aw_run vt (Obj c) (async_call_link (Obj n) c w) = Some (Val Ready, w') \<and>
    tasks w' = (tasks w)(t := (tasks w t)\<lparr>t_top := Some (Obj n)\<rparr>) \<and>
    (\<forall>b. b \<noteq> Obj c \<longrightarrow> aws w' b = aws w b) \<and> \<not> Error_bool (aw_error (aws w' (Obj c))) \<and> user w' = user w"
proof -
  let ?w = "async_call_link (Obj n) c w"
  have link: "aw_task (aws ?w (Obj c)) = Some t" "aw_caller (aws ?w (Obj c)) = Some (Obj n)"
      "\<not> Error_bool (aw_error (aws ?w (Obj c)))" "user ?w = user w" "tasks ?w = tasks w"
      "\<And>b. b \<noteq> Obj c \<Longrightarrow> aws ?w b = aws w b"
    using assms(2,3) by (simp_all add: async_call_link_def)
  show ?thesis
    using link assms(4) ready_calleeD [OF assms(1)]
    by (simp add: aw_run.simps [of vt "Obj c"] virtual_call_def after_poll_def async_return_def Let_def Error_bool_def Error_default_def)
qed

text \<open>One function of a routine that awaits something that is ready: the engine goes on with the function it named.\<close>

lemma routine_stage:
  assumes "is_routine vt code n" and "us_bind (user w) n = Bound k" and "code n k = StageAwait c k'"
    and "ready_callee vt c (user w)" and "\<not> Error_bool (aw_error (aws w (Obj c)))" and "\<not> Error_bool (aw_error (aws w (Obj n)))"
    and "aw_task (aws w (Obj n)) = Some t" and "c \<noteq> n"
  shows "\<exists>w'. aw_run vt (Obj n) w = aw_run vt (Obj n) w' \<and> us_bind (user w') = (us_bind (user w))(n := Bound k') \<and>
    us_trace (user w') = us_trace (user w) @ [(n, k)] \<and> us_result (user w') = us_result (user w) \<and>
    (\<forall>b. b \<noteq> Obj c \<longrightarrow> aws w' b = aws w b) \<and> \<not> Error_bool (aw_error (aws w' (Obj c))) \<and>
    tasks w' = (tasks w)(t := (tasks w t)\<lparr>t_top := Some (Obj n)\<rparr>)"
proof -
  let ?u = "heapless_bind n (Bound k') ((user w)\<lparr>us_trace := us_trace (user w) @ [(n, k)]\<rparr>)"
  let ?w1 = "w\<lparr>user := ?u\<rparr>"
  have poll: "vt_poll vt n (user w) = Done ?u (AwaitA c)"
    using assms(1-3) by (auto simp: is_routine_def routine_poll_def routine_await_def)
  have "ready_callee vt c ?u"
    using assms(4) by (auto simp: ready_callee_def future_is_done_def result_empty_def heapless_bind_def)
  then obtain w2 where w2: "aw_run vt (Obj c) (async_call_link (Obj n) c ?w1) = Some (Val Ready, w2)"
      "tasks w2 = (tasks w)(t := (tasks w t)\<lparr>t_top := Some (Obj n)\<rparr>)" "\<forall>b. b \<noteq> Obj c \<longrightarrow> aws w2 b = aws w b"
      "\<not> Error_bool (aw_error (aws w2 (Obj c)))" "user w2 = ?u"
    using call_returns [of vt c ?w1 n t] assms(5,7,8) by auto
  have "aw_run vt (Obj n) w = aw_run vt (Obj n) w2"
    using poll w2 assms(6,7,8)
    by (simp add: aw_run.simps [of vt "Obj n" w] virtual_call_def after_poll_def Let_def)
  then show ?thesis using w2 by (intro exI [of _ w2]) (simp add: heapless_bind_def)
qed

text \<open>The functions a routine goes through, from \<open>k\<close> to \<open>k'\<close>, with what each of them awaits.\<close>

fun awaits :: "(nat \<Rightarrow> nat \<Rightarrow> stage_end) \<Rightarrow> nat \<Rightarrow> nat \<Rightarrow> (nat \<times> nat) list \<Rightarrow> nat \<Rightarrow> bool" where
  "awaits code n k [] k' \<longleftrightarrow> k = k'"
| "awaits code n k ((c, k1) # ps) k' \<longleftrightarrow> code n k = StageAwait c k1 \<and> awaits code n k1 ps k'"

lemma routine_returns:
  assumes "is_routine vt code n" and "us_bind (user w) n = Bound k" and "code n k = StageReturn"
    and "\<not> Error_bool (aw_error (aws w (Obj n)))" and "aw_task (aws w (Obj n)) = Some t"
    and "aw_caller (aws w (Obj n)) = Some a" and "a \<noteq> Obj n"
  shows "\<exists>w'. aw_run vt (Obj n) w = Some (Val Ready, w') \<and> t_top (tasks w' t) = Some a \<and>
    us_bind (user w') n = UninitializedHandler \<and> us_trace (user w') = us_trace (user w) @ [(n, k)]"
proof -
  let ?u = "(user w)\<lparr>us_trace := us_trace (user w) @ [(n, k)]\<rparr>"
  have "vt_poll vt n (user w) = Done ?u ReturnA"
    using assms(1-3) by (auto simp: is_routine_def routine_poll_def)
  moreover have "vt_final vt n u = heapless_bind n UninitializedHandler u" for u
    using assms(1) by (simp add: is_routine_def routine_finalize_def)
  ultimately show ?thesis
    using assms(4-7)
    by (simp add: aw_run.simps [of vt "Obj n"] virtual_call_def after_poll_def async_return_def Let_def heapless_bind_def)
qed

lemma ready_callee_cong: "us_result u' = us_result u \<Longrightarrow> ready_callee vt c u' = ready_callee vt c u"
  by (simp add: ready_callee_def future_is_done_def result_empty_def)

lemma routine_chain:
  assumes "is_routine vt code n" and "us_bind (user w) n = Bound k" and "awaits code n k ps k'" and "code n k' = StageReturn"
    and "\<forall>c \<in> fst ` set ps. ready_callee vt c (user w) \<and> \<not> Error_bool (aw_error (aws w (Obj c))) \<and> c \<noteq> n"
    and "\<not> Error_bool (aw_error (aws w (Obj n)))" and "aw_task (aws w (Obj n)) = Some t"
    and "aw_caller (aws w (Obj n)) = Some a" and "a \<noteq> Obj n"
  shows "\<exists>w'. aw_run vt (Obj n) w = Some (Val Ready, w') \<and> t_top (tasks w' t) = Some a \<and>
    us_bind (user w') n = UninitializedHandler \<and> us_trace (user w') = us_trace (user w) @ map (Pair n) (k # map snd ps)"
  using assms
proof (induction ps arbitrary: k w)
  case Nil
  then show ?case using routine_returns [OF Nil.prems(1,2) _ Nil.prems(6-9)] by simp
next
  case (Cons p ps)
  obtain c k1 where p: "p = (c, k1)" by (cases p)
  obtain w1 where w1: "aw_run vt (Obj n) w = aw_run vt (Obj n) w1" "us_bind (user w1) = (us_bind (user w))(n := Bound k1)"
      "us_trace (user w1) = us_trace (user w) @ [(n, k)]" "us_result (user w1) = us_result (user w)"
      "\<forall>b. b \<noteq> Obj c \<longrightarrow> aws w1 b = aws w b" "\<not> Error_bool (aw_error (aws w1 (Obj c)))"
    using routine_stage [OF Cons.prems(1,2), of c k1 t] Cons.prems(3,5-7) p by auto
  have "\<not> Error_bool (aw_error (aws w1 (Obj d)))" if "d \<in> fst ` set ps" for d
    using that Cons.prems(5) w1(5,6) by (cases "d = c") auto
  moreover have "c \<noteq> n" using Cons.prems(5) p by simp
  ultimately show ?case
    using Cons.IH [of w1 k1] Cons.prems(1,3-9) p w1 ready_callee_cong [OF w1(4)] by auto
qed

text \<open>
  C22. Routines. A routine whose functions await things that are ready, one after the other, and whose last function
  returns runs all of them within one poll, in the order in which they name each other. It returns to its
  caller and is uninitialized afterwards.
\<close>

theorem routine_runs_in_order:
  assumes "is_routine vt code n" and "us_bind (user w) n = Bound k" and "awaits code n k ps k'" and "code n k' = StageReturn"
    and "\<forall>c \<in> fst ` set ps. ready_callee vt c (user w) \<and> \<not> Error_bool (aw_error (aws w (Obj c))) \<and> c \<noteq> n"
    and "\<not> Error_bool (aw_error (aws w (Obj n)))" and "aw_task (aws w (Obj n)) = Some t"
    and "aw_caller (aws w (Obj n)) = Some a" and "a \<noteq> Obj n"
  shows "\<exists>w'. aw_run vt (Obj n) w = Some (Val Ready, w') \<and> t_top (tasks w' t) = Some a \<and>
    us_bind (user w') n = UninitializedHandler \<and> us_trace (user w') = us_trace (user w) @ map (Pair n) (k # map snd ps)"
  using assms by (rule routine_chain)

text \<open>Object 1 is a routine with the functions 10, 11 and 12; the others do nothing.\<close>

definition sample_code :: "nat \<Rightarrow> nat \<Rightarrow> stage_end" where
  "sample_code n k = (if k = 10 then StageAwait 2 11 else if k = 11 then StageAwait 3 12 else StageReturn)"

definition sample_vtable :: "int users vtable" where
  "sample_vtable = \<lparr>vt_poll = (\<lambda>n u. if n = 1 then (case routine_poll sample_code 1 u of Some (u', act) \<Rightarrow> Done u' act | None \<Rightarrow> Done u ReturnA)
       else Done u ReturnA),
     vt_error = (\<lambda>n e u. Done u RaiseA), vt_final = (\<lambda>n u. if n = 1 then routine_finalize 1 u else u)\<rparr>"

definition sample_users :: "int users" where
  "sample_users = routine_start 1 10 \<lparr>us_bind = (\<lambda>_. Unbound), us_trace = [], us_result = (\<lambda>_. opt_new)\<rparr>"

definition sample_world :: "int users world" where
  "sample_world = upd_aw (Obj 1) (\<lambda>x. x\<lparr>aw_task := Some 1, aw_caller := Some (TaskA 1)\<rparr>) (empty_world sample_users)"

theorem routine_runs_in_order_witness:
  "\<exists>w'. aw_run sample_vtable (Obj 1) sample_world = Some (Val Ready, w') \<and> us_trace (user w') = [(1, 10), (1, 11), (1, 12)]"
proof -
  have "is_routine sample_vtable sample_code 1"
    by (auto simp: is_routine_def sample_vtable_def)
  moreover have "ready_callee sample_vtable c u" if "c \<noteq> 1" for c u
    using that by (simp add: ready_callee_def is_nothing_def nothing_poll_def sample_vtable_def)
  moreover have "awaits sample_code 1 10 [(2, 11), (3, 12)] 12" "sample_code 1 12 = StageReturn" by (simp_all add: sample_code_def)
  ultimately show ?thesis
    using routine_runs_in_order [of sample_vtable sample_code 1 sample_world 10 "[(2, 11), (3, 12)]" 12 1 "TaskA 1"]
    by (auto simp: sample_world_def sample_users_def empty_world_def routine_start_def heapless_bind_def Error_bool_def Error_default_def
        upd_aw_def idle_awaitable_def)
qed

text \<open>A routine that is polled again without being started throws; one that was never started is called through a null pointer.\<close>

lemma finished_routine_throws:
  "routine_poll code n (routine_finalize n u) = Some (routine_finalize n u, ThrowA (make_error_awaitable ErrorAwaitable_Uninitialized))"
  by (simp add: routine_poll_def routine_finalize_def heapless_bind_def routine_uninitialized_def)

lemma unstarted_routine_crashes: "us_bind u n = Unbound \<Longrightarrow> routine_poll code n u = None"
  by (simp add: routine_poll_def)

text \<open>
  Futures. A future without a value suspends its caller. Giving it a value stores the value and resumes the task
  that waits, and from then on a poll returns.
\<close>

theorem future_resolves:
  assumes "opt_ok (us_result (user w) n)" and "result_empty n (user w)"
  shows "future_poll n (user w) = (user w, SuspendA) \<and>
    (\<exists>u. future_emplace n v w = Some (async_resume (Obj n) Error_default (w\<lparr>user := u\<rparr>)) \<and>
      get_result n u = Some v \<and> future_is_done n u \<and> future_poll n u = (u, ReturnA) \<and> us_bind u = us_bind (user w))"
proof -
  obtain y where "opt_emplace v (us_result (user w) n) = Some y" "\<not> op_empty y" "opt_get y = Some v"
    using opt_emplace_total [OF assms(1), of v] by blast
  moreover define u where "u = (user w)\<lparr>us_result := (us_result (user w))(n := y)\<rparr>"
  ultimately have "emplace_result n v (user w) = Some u" "us_result u n = y" "us_bind u = us_bind (user w)"
    by (simp_all add: emplace_result_def)
  then show ?thesis
    using assms(2) \<open>\<not> op_empty y\<close> \<open>opt_get y = Some v\<close>
    by (auto simp: future_poll_def future_emplace_def get_result_def future_is_done_def result_empty_def)
qed

theorem future_resolves_witness:
  "\<exists>u. future_emplace 2 7 sample_world = Some (async_resume (Obj 2) Error_default (sample_world\<lparr>user := u\<rparr>)) \<and>
     get_result 2 u = Some 7 \<and> future_poll 2 u = (u, ReturnA)"
proof -
  have "opt_ok (us_result (user sample_world) 2)" "result_empty 2 (user sample_world)"
    by (simp_all add: sample_world_def empty_world_def sample_users_def routine_start_def heapless_bind_def
        result_empty_def opt_ok_def opt_new_def)
  from future_resolves [OF this, of 7] show ?thesis by blast
qed

end
