(* ===== verification/Jinx_Join.thy ===== *)
theory Jinx_Join
  imports Jinx_Loop
begin

text \<open>
  Waiting for another task (\<^verbatim>\<open>AsyncJoin\<close> of \<^verbatim>\<open>include/jinx/async/awaitable.ipp\<close> and \<^verbatim>\<open>AwaitableTaskNode\<close> of
  \<^verbatim>\<open>include/jinx/async/task.hpp\<close>): the awaitable puts a hook below the entry of the task it waits for. When the
  entry has returned or failed, the hook is polled, takes itself out and resumes the task of the observer.

  The virtual methods are programs of the engine. A join is the number of its object, its hook another one.
  \<open>None\<close> is a null dereference.
\<close>

section \<open>Definitions\<close>

record joins =
  jn_target :: "nat \<Rightarrow> nat option"
  jn_done :: "nat \<Rightarrow> bool"
  jn_observer :: "nat \<Rightarrow> nat option"

definition join_call :: "nat \<Rightarrow> nat \<Rightarrow> joins \<Rightarrow> joins" where
  "join_call j t u = u\<lparr>jn_target := (jn_target u)(j \<mapsto> t)\<rparr>"

definition hook_call :: "nat \<Rightarrow> nat \<Rightarrow> joins \<Rightarrow> joins" where
  "hook_call h obs u = u\<lparr>jn_done := (jn_done u)(h := False), jn_observer := (jn_observer u)(h \<mapsto> obs)\<rparr>"

definition join_poll :: "nat \<Rightarrow> nat \<Rightarrow> nat \<Rightarrow> joins \<Rightarrow> joins prog option" where
  "join_poll j h self u =
     (if jn_done u h then Some (Done u ReturnA)
      else do { t \<leftarrow> jn_target u j; Some (Do (OpAddHook t h) (\<lambda>_. Done (hook_call h self u) SuspendA)) })"

definition join_finalize :: "nat \<Rightarrow> joins \<Rightarrow> joins" where
  "join_finalize j u = u\<lparr>jn_target := (jn_target u)(j := None)\<rparr>"

text \<open>\<open>t\<close> is the task the hook belongs to.\<close>

definition hook_resume :: "nat \<Rightarrow> nat \<Rightarrow> Error \<Rightarrow> action \<Rightarrow> joins \<Rightarrow> joins prog option" where
  "hook_resume h t e act u =
     do { obs \<leftarrow> jn_observer u h;
          Some (Do (OpRemoveHook t h) (\<lambda>_. Do (OpResume (TaskA obs) e) (\<lambda>_.
            Done (u\<lparr>jn_done := (jn_done u)(h := True), jn_observer := (jn_observer u)(h := None)\<rparr>) act))) }"

definition hook_poll :: "nat \<Rightarrow> nat \<Rightarrow> joins \<Rightarrow> joins prog option" where
  "hook_poll h t u = hook_resume h t Error_default ReturnA u"

definition hook_handle_error :: "nat \<Rightarrow> nat \<Rightarrow> Error \<Rightarrow> joins \<Rightarrow> joins prog option" where
  "hook_handle_error h t e u = hook_resume h t e (ThrowA e) u"

definition hook_finalize :: "nat \<Rightarrow> joins \<Rightarrow> joins" where
  "hook_finalize h u = u\<lparr>jn_observer := (jn_observer u)(h := None)\<rparr>"

section \<open>Joining\<close>

text \<open>The hook \<open>h\<close> hangs between the entry \<open>n\<close> of the task \<open>t\<close> and the task.\<close>

definition hooked :: "nat \<Rightarrow> nat \<Rightarrow> nat \<Rightarrow> 'u world \<Rightarrow> bool" where
  "hooked t n h w \<longleftrightarrow> n \<noteq> h \<and> aw_caller (aws w (Obj n)) = Some (Obj h) \<and>
     aw_task (aws w (Obj h)) = Some t \<and> aw_caller (aws w (Obj h)) = Some (TaskA t) \<and> aw_next (aws w (Obj h)) = Some (Obj n) \<and>
     aw_caller (aws w (TaskA t)) = Some (Obj h)"

lemma join_hooks:
  assumes "\<not> jn_done u h" and "jn_target u j = Some t" and "n \<noteq> h"
    and "aw_caller (aws w (Obj n)) = Some (TaskA t)" and "aw_caller (aws w (TaskA t)) = Some (Obj n)"
  shows "\<exists>p w'. join_poll j h self u = Some p \<and> run_prog vt p w = Some (SuspendA, w') \<and> hooked t n h w' \<and>
    jn_observer (user w') h = Some self \<and> tasks w' = tasks w \<and> (\<forall>b. b \<notin> {Obj n, Obj h, TaskA t} \<longrightarrow> aws w' b = aws w b)"
  using assms by (auto simp: join_poll_def exec_op_def add_hook_def hooked_def hook_call_def Let_def)

definition is_hook :: "joins vtable \<Rightarrow> nat \<Rightarrow> nat \<Rightarrow> bool" where
  "is_hook vt h t \<longleftrightarrow>
     (\<forall>u p. hook_poll h t u = Some p \<longrightarrow> vt_poll vt h u = p) \<and>
     (\<forall>u e p. hook_handle_error h t e u = Some p \<longrightarrow> vt_error vt h e u = p) \<and> (\<forall>u. vt_final vt h u = hook_finalize h u)"

text \<open>The hook is polled: it is taken out, the observer is scheduled, and the task is on top of its own stack.\<close>

lemma hook_runs:
  assumes "is_hook vt h t" and "hooked t n h w" and "\<not> Error_bool (aw_error (aws w (Obj h)))"
    and "jn_observer (user w) h = Some obs" and "obs \<noteq> t" and "aw_task (aws w (TaskA obs)) = Some obs"
    and "t_queued (tasks w obs)" and "t_state (tasks w obs) = Suspended" and "sched_inv w rs" and "Suc (length rs) < size_max"
  shows "\<exists>w'. aw_run vt (Obj h) w = Some (Val Ready, w') \<and> sched_inv w' (obs # rs) \<and> jn_done (user w') h \<and>
    aw_error (aws w' (TaskA obs)) = Error_default \<and> t_top (tasks w' t) = Some (TaskA t) \<and> t_state (tasks w' t) = t_state (tasks w t) \<and>
    aw_caller (aws w' (Obj n)) = Some (TaskA t) \<and> aw_error (aws w' (TaskA t)) = aw_error (aws w (TaskA t))"
proof -
  let ?u = "(user w)\<lparr>jn_done := (jn_done (user w))(h := True), jn_observer := (jn_observer (user w))(h := None)\<rparr>"
  note hk = assms(2) [unfolded hooked_def]
  obtain w1 where w1: "remove_hook t h w = Some w1" "tasks w1 = tasks w" "tasks_ready w1 = tasks_ready w"
      "aws w1 = (aws w)(Obj n := (aws w (Obj n))\<lparr>aw_caller := Some (TaskA t)\<rparr>, TaskA t := (aws w (TaskA t))\<lparr>aw_caller := Some (Obj n)\<rparr>,
         Obj h := (aws w (Obj h))\<lparr>aw_next := None\<rparr>)" "user w1 = user w"
    using hk by (simp add: remove_hook_def Let_def)
  have inv1: "sched_inv w1 rs" "t_state (tasks w1 obs) \<notin> {Ready, Exited}"
    using assms(8,9) w1(2,3) by (simp_all add: sched_inv_def)
  obtain w2 where w2: "TaskQueue_schedule obs Error_default w1 = (Successful, w2)" "sched_inv w2 (obs # rs)"
      "aw_error (aws w2 (TaskA obs)) = Error_default"
    using schedule_accepted [OF inv1 assms(10)] by blast
  have w2': "aws w2 = (aws w1)(TaskA obs := (aws w1 (TaskA obs))\<lparr>aw_error := Error_default\<rparr>)"
      "tasks w2 = (tasks w1)(obs := (tasks w1 obs)\<lparr>t_state := Ready\<rparr>)" "user w2 = user w"
    using w2(1) assms(8) w1(2,5) by (auto simp: TaskQueue_schedule_def set_error_def Let_def)
  let ?w3 = "w2\<lparr>wakeups := wakeups w2 + 1\<rparr>"
  have res: "async_resume (TaskA obs) Error_default w1 = (Successful, ?w3)"
    using w1(2,4) w2(1) assms(5-7) by (simp add: async_resume_def Task_resume_def Loop_schedule_def)
  have "vt_poll vt h (user w) = Do (OpRemoveHook t h) (\<lambda>_. Do (OpResume (TaskA obs) Error_default) (\<lambda>_. Done ?u ReturnA))"
    using assms(1,4) by (auto simp: is_hook_def hook_poll_def hook_resume_def)
  then have call: "virtual_call vt (Obj h) w = Some (ReturnA, ?w3\<lparr>user := ?u\<rparr>)"
    using assms(3) w1(1) res by (simp add: virtual_call_def Let_def exec_op_def)
  have h3: "aw_task (aws ?w3 (Obj h)) = Some t" "aw_caller (aws ?w3 (Obj h)) = Some (TaskA t)"
    using hk w1(4) w2'(1) by simp_all
  let ?w4 = "upd_task t (\<lambda>x. x\<lparr>t_top := Some (TaskA t)\<rparr>) (?w3\<lparr>user := ?u\<rparr>)"
  have "aw_run vt (Obj h) w = Some (Val Ready, async_finalize vt (Obj h) ?w4)"
    using call h3 assms(3) by (simp add: aw_run.simps [of vt "Obj h"] after_poll_def async_return_def Let_def)
  moreover have "vt_final vt h v = hook_finalize h v" for v using assms(1) by (simp add: is_hook_def)
  moreover have "sched_inv (async_finalize vt (Obj h) ?w4) (obs # rs)"
    using w2(2) assms(5) by (auto simp: sched_inv_def)
  ultimately show ?thesis
    using w2(3) w2' w1(2,4) assms(5) hk by (simp add: hook_finalize_def)
qed

lemma entry_returns:
  assumes "returning vt n" and "\<forall>u. vt_final vt n u = u" and "hooked t n h w" and "aw_task (aws w (Obj n)) = Some t"
    and "\<not> Error_bool (aw_error (aws w (Obj n)))"
  shows "\<exists>w'. aw_run vt (Obj n) w = Some (Val Ready, w') \<and> hooked t n h w' \<and> t_top (tasks w' t) = Some (Obj h) \<and>
    (\<forall>b. b \<noteq> Obj n \<longrightarrow> aws w' b = aws w b) \<and> (\<forall>s. t_state (tasks w' s) = t_state (tasks w s) \<and> t_queued (tasks w' s) = t_queued (tasks w s)) \<and>
    user w' = user w \<and> tasks_ready w' = tasks_ready w"
  using assms
  by (auto simp: aw_run.simps [of vt "Obj n"] virtual_call_def returning_def after_poll_def async_return_def Let_def hooked_def
      async_finalize_aws)

text \<open>
  C21. Joining a task. A join that has put its hook into the task waits. When the entry of the task returns, the task
  runs the hook and exits; the observer is on the ready list, once and without an error, and when it is polled
  the join returns.
\<close>

theorem join_completes:
  assumes "is_hook vt h t" and "hooked t n h w" and "returning vt n" and "\<forall>u. vt_final vt n u = u"
    and "t_top (tasks w t) = Some (Obj n)" and "aw_task (aws w (Obj n)) = Some t"
    and "\<forall>b \<in> {Obj n, Obj h, TaskA t}. \<not> Error_bool (aw_error (aws w b))"
    and "jn_observer (user w) h = Some obs" and "obs \<noteq> t" and "aw_task (aws w (TaskA obs)) = Some obs"
    and "t_queued (tasks w obs)" and "t_state (tasks w obs) = Suspended" and "sched_inv w rs" and "Suc (length rs) < size_max"
    and "t \<notin> set rs"
  shows "\<exists>w'. Task_run vt t w = Some (Val Exited, w') \<and> t_state (tasks w' t) = Exited \<and> sched_inv w' (obs # rs) \<and>
    aw_error (aws w' (TaskA obs)) = Error_default \<and> join_poll j h obs (user w') = Some (Done (user w') ReturnA)"
proof -
  obtain w1 where w1: "aw_run vt (Obj n) w = Some (Val Ready, w1)" "hooked t n h w1" "t_top (tasks w1 t) = Some (Obj h)"
      "\<forall>b. b \<noteq> Obj n \<longrightarrow> aws w1 b = aws w b"
      "\<forall>s. t_state (tasks w1 s) = t_state (tasks w s) \<and> t_queued (tasks w1 s) = t_queued (tasks w s)"
      "user w1 = user w" "tasks_ready w1 = tasks_ready w"
    using entry_returns [OF assms(3,4,2,6)] assms(7) by auto
  have h: "h \<noteq> n" using assms(2) by (simp add: hooked_def)
  have "sched_inv w1 rs" using assms(13) w1(5,7) by (simp add: sched_inv_def)
  then obtain w2 where w2: "aw_run vt (Obj h) w1 = Some (Val Ready, w2)" "sched_inv w2 (obs # rs)" "jn_done (user w2) h"
      "aw_error (aws w2 (TaskA obs)) = Error_default" "t_top (tasks w2 t) = Some (TaskA t)"
      "aw_error (aws w2 (TaskA t)) = aw_error (aws w1 (TaskA t))"
    using hook_runs [OF assms(1) w1(2), of obs rs] assms(7-12,14) w1(4-6) h by auto
  have "\<not> Error_bool (aw_error (aws w2 (TaskA t)))" using w2(6) w1(4) assms(7) by simp
  let ?w3 = "upd_task t (\<lambda>x. x\<lparr>t_top := None, t_state := Exited\<rparr>) w2"
  have "Task_run vt t w = Some (Val Exited, ?w3)"
    using Task_run_step [OF assms(5) w1(1)] Task_run_step [OF w1(3) w2(1)]
      Task_run_stop [OF w2(5) aw_run_task_return [OF \<open>\<not> Error_bool (aw_error (aws w2 (TaskA t)))\<close>]] by simp
  moreover have "sched_inv ?w3 (obs # rs)" using w2(2) assms(9,15) by (auto simp: sched_inv_def)
  ultimately show ?thesis using w2(3,4) by (auto simp: join_poll_def)
qed

text \<open>Task 1 with the entry 3 and the hook 5; task 2 observes it.\<close>

definition join_vtable :: "joins vtable" where
  "join_vtable = \<lparr>vt_poll = (\<lambda>n u. if n = 5 then (case hook_poll 5 1 u of Some p \<Rightarrow> p | None \<Rightarrow> Done u ReturnA) else Done u ReturnA),
     vt_error = (\<lambda>n e u. if n = 5 then (case hook_handle_error 5 1 e u of Some p \<Rightarrow> p | None \<Rightarrow> Done u RaiseA) else Done u RaiseA),
     vt_final = (\<lambda>n u. if n = 5 then hook_finalize 5 u else u)\<rparr>"

definition join_user :: joins where
  "join_user = \<lparr>jn_target = [4 \<mapsto> 1], jn_done = (\<lambda>_. False), jn_observer = [5 \<mapsto> 2]\<rparr>"

definition join_world :: "joins world" where
  "join_world = the (add_hook 1 5 (upd_task 2 (\<lambda>x. x\<lparr>t_queued := True\<rparr>) (Task_init 2 4 (Task_init 1 3 (empty_world join_user)))))"

lemmas join_world_defs = join_world_def add_hook_def Task_init_def empty_world_def idle_awaitable_def idle_task_def Let_def

lemma join_world_facts:
  "hooked 1 3 5 join_world" "t_top (tasks join_world 1) = Some (Obj 3)" "aw_task (aws join_world (Obj 3)) = Some 1"
  "user join_world = join_user" "aw_task (aws join_world (TaskA 2)) = Some 2" "t_queued (tasks join_world 2)"
  "t_state (tasks join_world 2) = Suspended" "tasks_ready join_world = ts_new"
  by (simp_all add: join_world_defs hooked_def)

lemma join_world_errors: "b \<in> {Obj 3, Obj 5, TaskA 1} \<Longrightarrow> \<not> Error_bool (aw_error (aws join_world b))"
  by (auto simp: join_world_defs Error_bool_def Error_default_def)

theorem join_completes_witness:
  "\<exists>w'. Task_run join_vtable 1 join_world = Some (Val Exited, w') \<and> sched_inv w' [2] \<and>
     join_poll 4 5 2 (user w') = Some (Done (user w') ReturnA)"
proof -
  have v: "is_hook join_vtable 5 1" "returning join_vtable 3" "\<forall>u. vt_final join_vtable 3 u = u"
    by (auto simp: is_hook_def join_vtable_def returning_def)
  have s: "sched_inv join_world []" using join_world_facts(8) by (simp add: sched_inv_def ts.rep_new)
  have o: "jn_observer (user join_world) 5 = Some 2" using join_world_facts(4) by (simp add: join_user_def)
  show ?thesis
    using join_completes [OF v(1) join_world_facts(1) v(2,3) join_world_facts(2,3) _ o _ join_world_facts(5-7) s, of 4]
      join_world_errors by auto
qed

section \<open>Limits\<close>

text \<open>
  A join that has completed once is done for ever: used again with another task it returns at once, without waiting.
\<close>

lemma reused_join_does_not_wait:
  "jn_done u h \<Longrightarrow> join_poll j h self (join_call j t u) = Some (Done (join_call j t u) ReturnA)"
  by (simp add: join_poll_def join_call_def)

text \<open>A failure of the task is thrown into the observer.\<close>

lemma join_passes_the_error:
  "jn_observer u h = Some obs \<Longrightarrow> \<exists>u'. hook_handle_error h t e u =
     Some (Do (OpRemoveHook t h) (\<lambda>_. Do (OpResume (TaskA obs) e) (\<lambda>_. Done u' (ThrowA e)))) \<and> jn_done u' h"
  by (rule exI [of _ "u\<lparr>jn_done := (jn_done u)(h := True), jn_observer := (jn_observer u)(h := None)\<rparr>"])
    (simp add: hook_handle_error_def hook_resume_def)

end
