(* ===== verification/Jinx_Allocator.thy ===== *)
theory Jinx_Allocator
  imports Jinx_Pool
begin

text \<open>
  \<^verbatim>\<open>BufferAllocator\<close> (\<^verbatim>\<open>include/jinx/buffer.hpp\<close>): a chain of buffer pools, one per configuration, that share a
  memory provider.

  The templates find the pool of a configuration at compile time; here the chain is a list and the configurations are
  numbers. The provider is threaded through the pools. \<open>None\<close> is a program that does not compile, because the
  configuration has no pool, or undefined behaviour of the pool.
\<close>

section \<open>The chain\<close>

type_synonym 'm pool_chain = "(nat \<times> 'm pool) list"

record buffer_config =
  cf_id :: nat
  cf_size :: nat
  cf_reserve :: nat
  cf_limit :: int

text \<open>The constructors: the rest of the chain is a member in front of the pool, so it is built first.\<close>

fun chain_new :: "'m provider_ops \<Rightarrow> nat \<Rightarrow> buffer_config list \<Rightarrow> 'm \<Rightarrow> ('m pool_chain \<times> 'm) option" where
  "chain_new pops sz [] m = Some ([], m)"
| "chain_new pops sz (cf # cfs) m =
     do { (ps, m1) \<leftarrow> chain_new pops sz cfs m;
          p \<leftarrow> pool_new pops sz m1 (cf_size cf) (cf_reserve cf) (cf_limit cf);
          Some ((cf_id cf, p) # ps, bp_provider p) }"

fun chain_get_pool :: "nat \<Rightarrow> 'm pool_chain \<Rightarrow> 'm pool option" where
  "chain_get_pool c [] = None"
| "chain_get_pool c ((d, p) # ps) = (if c = d then Some p else chain_get_pool c ps)"

fun chain_allocate ::
    "'m provider_ops \<Rightarrow> nat \<Rightarrow> nat \<Rightarrow> 'm pool_chain \<Rightarrow> 'm \<Rightarrow> (nat option \<times> 'm pool_chain \<times> 'm) option" where
  "chain_allocate pops sz c [] m = None"
| "chain_allocate pops sz c ((d, p) # ps) m =
     (if c = d
      then do { (x, p1) \<leftarrow> pool_allocate pops sz (p\<lparr>bp_provider := m\<rparr>); Some (x, (d, p1) # ps, bp_provider p1) }
      else do { (x, ps1, m1) \<leftarrow> chain_allocate pops sz c ps m; Some (x, (d, p) # ps1, m1) })"

text \<open>
  \<^verbatim>\<open>reconfigure\<close>: the arguments are the tag of a configuration and numbers. A pool whose configuration is not the tag
  passes the arguments on without their head.
\<close>

datatype chain_arg = Tag nat | Number nat

fun chain_reconfigure :: "'m provider_ops \<Rightarrow> nat \<Rightarrow> chain_arg list \<Rightarrow> 'm pool_chain \<Rightarrow> 'm \<Rightarrow> ('m pool_chain \<times> 'm) option" where
  "chain_reconfigure pops sz args [] m = (if args = [] then Some ([], m) else None)"
| "chain_reconfigure pops sz [] (p # ps) m = None"
| "chain_reconfigure pops sz (arg # args) ((d, p) # ps) m =
     (if arg = Tag d
      then (case args of
              [Number reserve, Number limit] \<Rightarrow>
                do { p1 \<leftarrow> pool_reconfigure pops sz reserve (int limit) (p\<lparr>bp_provider := m\<rparr>);
                     Some ((d, p1) # ps, bp_provider p1) }
            | _ \<Rightarrow> None)
      else do { (ps1, m1) \<leftarrow> chain_reconfigure pops sz args ps m; Some ((d, p) # ps1, m1) })"

definition chain_access :: "('m pool \<Rightarrow> 's \<Rightarrow> 's) \<Rightarrow> 'm pool_chain \<Rightarrow> 's \<Rightarrow> 's" where
  "chain_access f ps s = fold (\<lambda>(d, p). f p) ps s"

definition active_buffer_count :: "'m pool_chain \<Rightarrow> nat" where
  "active_buffer_count ps = chain_access (\<lambda>p s. add64 s (bp_active p)) ps 0"

definition reserve_buffer_count :: "'m pool_chain \<Rightarrow> nat" where
  "reserve_buffer_count ps = chain_access (\<lambda>p s. add64 s (get_size_unsafe (bp_reserve_buffers p))) ps 0"

definition pending_request_count :: "'m pool_chain \<Rightarrow> nat" where
  "pending_request_count ps = chain_access (\<lambda>p s. add64 s (ll_size (bp_pending p))) ps 0"

section \<open>The pools do not share memory\<close>

definition pool_well :: "heap \<Rightarrow> heap pool \<Rightarrow> bool" where
  "pool_well m p \<longleftrightarrow> (\<exists>rs qs. pool_inv h_used (p\<lparr>bp_provider := m\<rparr>) rs qs {})"

definition apart :: "heap pool \<Rightarrow> heap pool \<Rightarrow> bool" where
  "apart p q \<longleftrightarrow> dom (bp_memory p) \<inter> dom (bp_memory q) = {}"

definition chain_inv :: "heap \<Rightarrow> heap pool_chain \<Rightarrow> bool" where
  "chain_inv m ps \<longleftrightarrow> distinct (map fst ps) \<and> (\<forall>(d, p) \<in> set ps. pool_well m p) \<and>
     (\<forall>(d, p) \<in> set ps. \<forall>(e, q) \<in> set ps. d \<noteq> e \<longrightarrow> apart p q)"

lemma pool_well_mono: "pool_well m p \<Longrightarrow> h_used m \<subseteq> h_used m' \<Longrightarrow> pool_well m' p"
  unfolding pool_well_def pool_inv_def by simp blast

lemma pool_well_used: "pool_well m p \<Longrightarrow> dom (bp_memory p) \<subseteq> h_used m"
  by (auto simp: pool_well_def pool_inv_def)

lemma chain_invD:
  assumes "chain_inv m ps"
  shows "(d, p) \<in> set ps \<Longrightarrow> pool_well m p" "(d, p) \<in> set ps \<Longrightarrow> (e, q) \<in> set ps \<Longrightarrow> d \<noteq> e \<Longrightarrow> apart p q"
  using assms unfolding chain_inv_def by blast+

lemma posix_alloc_used:
  "posix_alloc n h = (x, h') \<Longrightarrow> h_used h \<subseteq> h_used h' \<and> (\<forall>a. x = Some a \<longrightarrow> a \<notin> h_used h)"
  by (auto simp: posix_alloc_def split: option.splits if_splits)

text \<open>A pool that allocates takes a block of its own reserve, or one that nobody uses.\<close>

lemma pool_allocate_takes:
  assumes "pool_allocate posix_provider sz p = Some (x, p')"
  shows "h_used (bp_provider p) \<subseteq> h_used (bp_provider p') \<and>
    dom (bp_memory p') \<subseteq> dom (bp_memory p) \<union> set_option x \<and>
    (\<forall>a. x = Some a \<longrightarrow> a \<in> dom (bp_memory p) \<or> a \<notin> h_used (bp_provider p))"
proof (cases "ts_pop (bp_reserve_buffers p)")
  case (Pair y l)
  show ?thesis
  proof (cases y)
    case None
    obtain z m where z: "posix_alloc (add64 (add64 sz (bp_size p)) 8) (bp_provider p) = (z, m)" by fastforce
    then show ?thesis
      using assms Pair None posix_alloc_used [OF z]
      by (auto simp: pool_allocate_def allocate_memory_def take_reference_def posix_provider_def bind_Some_iff
          split: if_splits option.splits)
  next
    case (Some a)
    then show ?thesis
      using assms Pair
      by (auto simp: pool_allocate_def reset_memory_def take_reference_def bind_Some_iff split: if_splits)
  qed
qed

lemma pool_allocates:
  assumes "pool_well m p" and "bp_active p + 1 < size_max - 1"
  shows "\<exists>x p'. pool_allocate posix_provider sz (p\<lparr>bp_provider := m\<rparr>) = Some (x, p') \<and> pool_well (bp_provider p') p' \<and>
    (\<forall>a. x = Some a \<longrightarrow> (\<exists>b. bp_memory p' a = Some b \<and> fresh_block sz a b))"
proof -
  let ?p = "p\<lparr>bp_provider := m\<rparr>"
  obtain rs qs where inv: "pool_inv h_used ?p rs qs {}" using assms(1) by (auto simp: pool_well_def)
  have well: "pool_inv h_used p' rs' qs' {} \<Longrightarrow> pool_well (bp_provider p') p'" for p' rs' qs'
    unfolding pool_well_def by (intro exI [of _ rs'] exI [of _ qs']) simp
  show ?thesis
  proof (cases rs)
    case (Cons a rs')
    then show ?thesis using posix.allocate_from_reserve [of ?p a rs' qs "{}" sz] inv well by auto
  next
    case Nil
    note new = posix.allocate_new [of ?p qs "{}" sz]
    show ?thesis
    proof (cases "bp_active ?p > unsigned_long (bp_limit ?p)")
      case True
      then show ?thesis using new inv Nil well [of ?p "[]" qs] by auto
    next
      case False
      then show ?thesis using new inv Nil well assms(2) by fastforce
    qed
  qed
qed

lemma apart_after:
  assumes "pool_well m q" and "apart q p" and "pool_allocate posix_provider sz (p\<lparr>bp_provider := m\<rparr>) = Some (x, p')"
  shows "apart q p'" "x = Some a \<Longrightarrow> bp_memory q a = None"
proof -
  have q: "dom (bp_memory q) \<subseteq> h_used m" using pool_well_used [OF assms(1)] .
  have t: "dom (bp_memory p') \<subseteq> dom (bp_memory p) \<union> set_option x" "\<forall>a. x = Some a \<longrightarrow> a \<in> dom (bp_memory p) \<or> a \<notin> h_used m"
    using pool_allocate_takes [OF assms(3)] by auto
  have none: "a \<notin> dom (bp_memory q)" if "x = Some a" for a using t(2) q assms(2) that by (auto simp: apart_def)
  then show "x = Some a \<Longrightarrow> bp_memory q a = None" by (simp add: domIff)
  have "dom (bp_memory q) \<inter> set_option x = {}" using none by (cases x) auto
  then show "apart q p'" using t(1) assms(2) unfolding apart_def by blast
qed

text \<open>The chain allocates in the first pool with the configuration, and leaves the others alone.\<close>

lemma chain_allocate_at:
  assumes "c \<notin> fst ` set qs" and "pool_allocate pops sz (p\<lparr>bp_provider := m\<rparr>) = Some (x, p')"
  shows "chain_allocate pops sz c (qs @ (c, p) # ps) m = Some (x, qs @ (c, p') # ps, bp_provider p')"
  using assms by (induction qs) auto

lemma chain_get_pool_at:
  "c \<notin> fst ` set qs \<Longrightarrow> chain_get_pool c (qs @ (c, p) # ps) = Some p"
  "d \<noteq> c \<Longrightarrow> chain_get_pool d (qs @ (c, p) # ps) = chain_get_pool d (qs @ ps)"
  by (induction qs) auto

lemma chain_split:
  assumes "c \<in> fst ` set ps" and "distinct (map fst ps)"
  shows "\<exists>qs p rs. ps = qs @ (c, p) # rs \<and> c \<notin> fst ` set (qs @ rs)"
proof -
  obtain p where "(c, p) \<in> set ps" using assms(1) by auto
  then obtain qs rs where "ps = qs @ (c, p) # rs" by (auto simp: in_set_conv_decomp)
  then show ?thesis using assms(2) by (intro exI [of _ qs] exI [of _ p] exI [of _ rs]) auto
qed

text \<open>
  The allocator. Allocating with a configuration uses the pool of this configuration and no other. A block that
  is returned carries one reference and an empty view, and no other pool has it: buffers of different
  configurations never share memory.
\<close>

theorem allocator_pools_are_apart:
  assumes "chain_inv m ps" and "c \<in> fst ` set ps" and "\<forall>(d, p) \<in> set ps. bp_active p + 1 < size_max - 1"
  shows "\<exists>x ps' m'. chain_allocate posix_provider sz c ps m = Some (x, ps', m') \<and> chain_inv m' ps' \<and>
    (\<forall>d. d \<noteq> c \<longrightarrow> chain_get_pool d ps' = chain_get_pool d ps) \<and>
    (\<forall>a. x = Some a \<longrightarrow> (\<exists>p b. chain_get_pool c ps' = Some p \<and> bp_memory p a = Some b \<and> fresh_block sz a b) \<and>
       (\<forall>(d, p) \<in> set ps. d \<noteq> c \<longrightarrow> bp_memory p a = None))"
proof -
  obtain qs p rs where ps: "ps = qs @ (c, p) # rs" "c \<notin> fst ` set (qs @ rs)"
    using chain_split [OF assms(2)] assms(1) by (auto simp: chain_inv_def)
  have well: "pool_well m p" and act: "bp_active p + 1 < size_max - 1"
    using assms(1,3) ps(1) by (auto simp: chain_inv_def)
  obtain x p' where x: "pool_allocate posix_provider sz (p\<lparr>bp_provider := m\<rparr>) = Some (x, p')" "pool_well (bp_provider p') p'"
      "\<forall>a. x = Some a \<longrightarrow> (\<exists>b. bp_memory p' a = Some b \<and> fresh_block sz a b)"
    using pool_allocates [OF well act, of sz] by blast
  have used: "h_used m \<subseteq> h_used (bp_provider p')" using pool_allocate_takes [OF x(1)] by simp
  have other: "pool_well m q" "apart q p" if "(e, q) \<in> set (qs @ rs)" for e q
  proof -
    have "e \<noteq> c" using ps(2) that by force
    moreover have "(e, q) \<in> set ps" "(c, p) \<in> set ps" using that ps(1) by auto
    ultimately show "pool_well m q" "apart q p" using chain_invD [OF assms(1)] by blast+
  qed
  let ?ps = "qs @ (c, p') # rs"
  have "distinct (map fst ?ps)" using assms(1) ps by (simp add: chain_inv_def)
  moreover have "pool_well (bp_provider p') q" if "(e, q) \<in> set ?ps" for e q
    using that other(1) x(2) pool_well_mono [OF _ used] by auto
  moreover have "apart q1 q2" if "(e1, q1) \<in> set ?ps" "(e2, q2) \<in> set ?ps" "e1 \<noteq> e2" for e1 q1 e2 q2
  proof -
    have "apart q1 q2" if "(e1, q1) \<in> set ps" "(e2, q2) \<in> set ps"
      using chain_invD(2) [OF assms(1) that \<open>e1 \<noteq> e2\<close>] .
    moreover have "apart q p'" if "(e, q) \<in> set (qs @ rs)" for e q using apart_after(1) [OF other [OF that] x(1)] .
    moreover have "apart q1 q2 = apart q2 q1" by (auto simp: apart_def)
    ultimately show ?thesis using that ps by auto
  qed
  ultimately have "chain_inv (bp_provider p') ?ps" unfolding chain_inv_def by blast
  moreover have "\<forall>(d, q) \<in> set ps. d \<noteq> c \<longrightarrow> bp_memory q a = None" if "x = Some a" for a
    using apart_after(2) [OF other x(1) that] ps by auto
  moreover have c: "c \<notin> fst ` set qs" using ps(2) by auto
  moreover have "chain_allocate posix_provider sz c ps m = Some (x, ?ps, bp_provider p')"
    unfolding ps(1) by (rule chain_allocate_at [OF c x(1)])
  moreover have "chain_get_pool d ?ps = chain_get_pool d ps" if "d \<noteq> c" for d
    using that by (simp add: ps(1) chain_get_pool_at(2))
  moreover have "chain_get_pool c ?ps = Some p'" by (rule chain_get_pool_at(1) [OF c])
  ultimately show ?thesis
    using x(3) by (intro exI [of _ x] exI [of _ ?ps] exI [of _ "bp_provider p'"]) simp
qed

text \<open>Two configurations on an empty heap.\<close>

definition sample_chain :: "heap pool_chain" where
  "sample_chain = [(0, sample_pool), (1, sample_pool\<lparr>bp_size := 32\<rparr>)]"

lemma sample_chain_inv: "chain_inv sample_heap sample_chain"
proof -
  have p: "sample_pool\<lparr>bp_provider := sample_heap\<rparr> = sample_pool" by (simp add: sample_pool_eq)
  have "pool_well sample_heap sample_pool" unfolding pool_well_def p using sample_pool_inv by blast
  moreover have "pool_well sample_heap (sample_pool\<lparr>bp_size := 32\<rparr>)"
    using calculation by (auto simp: pool_well_def pool_inv_def)
  ultimately show ?thesis by (auto simp: chain_inv_def sample_chain_def apart_def sample_pool_eq)
qed

theorem allocator_pools_are_apart_witness:
  "\<exists>x ps' m'. chain_allocate posix_provider 64 1 sample_chain sample_heap = Some (x, ps', m') \<and> chain_inv m' ps' \<and>
     chain_get_pool 0 ps' = Some sample_pool"
proof -
  have "\<forall>(d, p) \<in> set sample_chain. bp_active p + 1 < size_max - 1" "1 \<in> fst ` set sample_chain"
    by (auto simp: sample_chain_def sample_pool_eq)
  then show ?thesis
    using allocator_pools_are_apart [OF sample_chain_inv, of 1 64] by (fastforce simp: sample_chain_def)
qed

text \<open>Reconfiguring a pool that is not the first one does nothing at all, where it compiles.\<close>

lemma numbers_are_dropped:
  "chain_reconfigure pops sz (map Number ns) ps m = Some (ps', m') \<Longrightarrow> ps' = ps \<and> m' = m"
proof (induction ps arbitrary: ns ps' m')
  case (Cons dp ps)
  then show ?case by (cases dp; cases ns) (auto simp: bind_Some_iff)
qed (auto split: if_splits)

lemma reconfigure_reaches_only_the_first:
  assumes "chain_reconfigure pops sz [Tag c, Number reserve, Number limit] ((d, p) # ps) m = Some (ps', m')" and "c \<noteq> d"
  shows "ps' = (d, p) # ps \<and> m' = m"
  using assms numbers_are_dropped [of pops sz "[reserve, limit]" ps m] by (auto simp: bind_Some_iff)

text \<open>The counters are the sums over the pools, as long as these fit.\<close>

lemma sum_access:
  assumes "n + sum_list (map (f \<circ> snd) ps) < size_max"
  shows "chain_access (\<lambda>p s. add64 s (f p)) ps n = n + sum_list (map (f \<circ> snd) ps)"
  using assms
proof (induction ps arbitrary: n)
  case (Cons dp ps)
  then show ?case using Cons.IH [of "n + f (snd dp)"] by (cases dp) (simp add: chain_access_def add64_exact)
qed (simp add: chain_access_def)

lemma counters_are_sums:
  "sum_list (map (bp_active \<circ> snd) ps) < size_max \<Longrightarrow> active_buffer_count ps = sum_list (map (bp_active \<circ> snd) ps)"
  "sum_list (map ((\<lambda>p. ll_size (bp_pending p)) \<circ> snd) ps) < size_max \<Longrightarrow>
     pending_request_count ps = sum_list (map ((\<lambda>p. ll_size (bp_pending p)) \<circ> snd) ps)"
  using sum_access [of 0 bp_active ps] sum_access [of 0 "\<lambda>p. ll_size (bp_pending p)" ps]
  by (simp_all add: active_buffer_count_def pending_request_count_def)

end
