(* ===== verification/Jinx_Posix.thy ===== *)
theory Jinx_Posix
  imports Jinx_Event Jinx_Address Jinx_Buffer
begin

text \<open>
  The operations on descriptors (\<^verbatim>\<open>detail::PosixConnect\<close> to \<^verbatim>\<open>detail::PosixSendMsg\<close> and \<^verbatim>\<open>detail::AsyncIOCommon\<close> of
  \<^verbatim>\<open>include/jinx/posix.hpp\<close>) on the wrappers of the system calls and the typed registration of events
  (\<^verbatim>\<open>include/jinx/libevent.hpp\<close>).

  A request is a system call with the arguments the source passes; pointers are numbers, a null pointer is \<open>None\<close>.
  The kernel is the list of its coming answers: the result of the call with \<^verbatim>\<open>errno\<close>, and what it stores
  through the pointers of a call that succeeds. \<open>k_requests\<close> are the calls made so far, \<open>k_addrs\<close> the
  address objects of the program. \<open>None\<close> is a wrapper that never returns, or the end of the given answers.
\<close>

section \<open>The kernel\<close>

datatype sys_request =
    SysConnect int "nat option" nat
  | SysGetSockError int
  | SysAccept int "nat option"
  | SysSendTo int nat nat int "nat option" nat
  | SysRecvFrom int nat nat int "nat option" nat
  | SysRecv int nat nat int
  | SysSend int nat nat int
  | SysRead int nat nat
  | SysWrite int nat nat
  | SysReadV int "nat option" int
  | SysWriteV int "nat option" int
  | SysRecvMsg int "nat option" int
  | SysSendMsg int "nat option" int
  | SysShutdown int int
  | SysSocket int int int
  | SysBind int SocketAddress
  | SysListen int int
  | SysSetSockOpt int int int
  | SysGetSockOpt int int
  | SysGetFlags int
  | SysSetFlags int int

text \<open>\<open>an_value\<close> is the number the call stores (a length, an option), \<open>an_addr\<close> the family and the bytes of an address.\<close>

record sys_answer =
  an_call :: syscall
  an_value :: nat
  an_addr :: "nat \<times> 8 word list"

record kernel =
  k_answers :: "sys_answer list"
  k_requests :: "sys_request list"
  k_addrs :: "nat \<Rightarrow> SocketAddress"

definition sys_call :: "sys_request \<Rightarrow> kernel \<Rightarrow> (sys_answer \<times> kernel) option" where
  "sys_call q k =
     (case k_answers k of
        [] \<Rightarrow> None
      | a # as \<Rightarrow> Some (a, k\<lparr>k_answers := as, k_requests := k_requests k @ [q]\<rparr>))"

text \<open>A call that succeeds stores the address; a call that fails stores nothing.\<close>

definition store_address :: "nat option \<Rightarrow> sys_answer \<Rightarrow> kernel \<Rightarrow> kernel" where
  "store_address p a k =
     (case p of
        None \<Rightarrow> k
      | Some x \<Rightarrow>
          if fst (an_call a) = -1 then k
          else k\<lparr>k_addrs := (k_addrs k)(x := (k_addrs k x)\<lparr>sa_family := fst (an_addr a), sa_data := snd (an_addr a)\<rparr>)\<rparr>)"

definition store_size :: "nat option \<Rightarrow> sys_answer \<Rightarrow> kernel \<Rightarrow> kernel" where
  "store_size p a k =
     (case p of
        None \<Rightarrow> k
      | Some x \<Rightarrow>
          if fst (an_call a) = -1 then k
          else k\<lparr>k_addrs := (k_addrs k)(x := (k_addrs k x)\<lparr>sa_size := an_value a\<rparr>)\<rparr>)"

section \<open>The wrappers\<close>

text \<open>The call, then \<^verbatim>\<open>convert_to_asyncio_error_code\<close> on its result.\<close>

definition converted :: "sys_request \<Rightarrow> kernel \<Rightarrow> (IOResult \<times> sys_answer \<times> kernel) option" where
  "converted q k =
     do { (a, k1) \<leftarrow> sys_call q k; r \<leftarrow> convert_to_asyncio_error_code (an_call a); Some (r, a, k1) }"

definition forget :: "(IOResult \<times> sys_answer \<times> kernel) option \<Rightarrow> (IOResult \<times> kernel) option" where
  "forget x = map_option (\<lambda>(r, a, k). (r, k)) x"

text \<open>\<^verbatim>\<open>connect\<close> repeats its call: the outcomes it looks at are taken from the answers.\<close>

definition engine_connect :: "int \<Rightarrow> nat option \<Rightarrow> nat \<Rightarrow> kernel \<Rightarrow> (IOResult \<times> kernel) option" where
  "engine_connect fd addr len k =
     do { (r, rest) \<leftarrow> ev_connect (map an_call (k_answers k));
          let n = length (k_answers k) - length rest;
          Some (r, k\<lparr>k_answers := drop n (k_answers k),
                     k_requests := k_requests k @ replicate n (SysConnect fd addr len)\<rparr>) }"

definition engine_accept :: "int \<Rightarrow> nat option \<Rightarrow> kernel \<Rightarrow> (IOResult \<times> kernel) option" where
  "engine_accept fd addr k =
     do { (r, a, k1) \<leftarrow> converted (SysAccept fd addr) k; Some (r, store_size addr a (store_address addr a k1)) }"

definition engine_read :: "int \<Rightarrow> Slice \<Rightarrow> kernel \<Rightarrow> (IOResult \<times> kernel) option" where
  "engine_read fd b k = forget (converted (SysRead fd (s_data b) (s_size b)) k)"

definition engine_write :: "int \<Rightarrow> Slice \<Rightarrow> kernel \<Rightarrow> (IOResult \<times> kernel) option" where
  "engine_write fd b k = forget (converted (SysWrite fd (s_data b) (s_size b)) k)"

definition engine_recv :: "int \<Rightarrow> Slice \<Rightarrow> int \<Rightarrow> kernel \<Rightarrow> (IOResult \<times> kernel) option" where
  "engine_recv fd b flags k = forget (converted (SysRecv fd (s_data b) (s_size b) flags) k)"

definition engine_send :: "int \<Rightarrow> Slice \<Rightarrow> int \<Rightarrow> kernel \<Rightarrow> (IOResult \<times> kernel) option" where
  "engine_send fd b flags k = forget (converted (SysSend fd (s_data b) (s_size b) flags) k)"

text \<open>\<^verbatim>\<open>recvfrom\<close> stores the length through the given pointer: it is returned.\<close>

definition engine_recvfrom ::
    "int \<Rightarrow> Slice \<Rightarrow> int \<Rightarrow> nat option \<Rightarrow> nat \<Rightarrow> kernel \<Rightarrow> (IOResult \<times> nat \<times> kernel) option" where
  "engine_recvfrom fd b flags addr len k =
     do { (r, a, k1) \<leftarrow> converted (SysRecvFrom fd (s_data b) (s_size b) flags addr len) k;
          Some (r, if fst (an_call a) = -1 then len else an_value a, store_address addr a k1) }"

definition engine_sendto :: "int \<Rightarrow> Slice \<Rightarrow> int \<Rightarrow> nat option \<Rightarrow> nat \<Rightarrow> kernel \<Rightarrow> (IOResult \<times> kernel) option" where
  "engine_sendto fd b flags addr len k = forget (converted (SysSendTo fd (s_data b) (s_size b) flags addr len) k)"

definition engine_readv :: "int \<Rightarrow> nat option \<Rightarrow> int \<Rightarrow> kernel \<Rightarrow> (IOResult \<times> kernel) option" where
  "engine_readv fd bs count k = forget (converted (SysReadV fd bs count) k)"

definition engine_writev :: "int \<Rightarrow> nat option \<Rightarrow> int \<Rightarrow> kernel \<Rightarrow> (IOResult \<times> kernel) option" where
  "engine_writev fd bs count k = forget (converted (SysWriteV fd bs count) k)"

definition engine_recvmsg :: "int \<Rightarrow> nat option \<Rightarrow> int \<Rightarrow> kernel \<Rightarrow> (IOResult \<times> kernel) option" where
  "engine_recvmsg fd m flags k = forget (converted (SysRecvMsg fd m flags) k)"

definition engine_sendmsg :: "int \<Rightarrow> nat option \<Rightarrow> int \<Rightarrow> kernel \<Rightarrow> (IOResult \<times> kernel) option" where
  "engine_sendmsg fd m flags k = forget (converted (SysSendMsg fd m flags) k)"

definition engine_shutdown :: "int \<Rightarrow> int \<Rightarrow> kernel \<Rightarrow> (IOResult \<times> kernel) option" where
  "engine_shutdown fd how k = forget (converted (SysShutdown fd how) k)"

section \<open>Typed registration\<close>

definition EV_READ :: nat where "EV_READ = 2"
definition EV_WRITE :: nat where "EV_WRITE = 4"

datatype io_type = IOTypeRead | IOTypeWrite | IOTypeReadWrite

fun io_flags :: "io_type \<Rightarrow> nat" where
  "io_flags IOTypeRead = EV_READ"
| "io_flags IOTypeWrite = EV_WRITE"
| "io_flags IOTypeReadWrite = or EV_READ EV_WRITE"

definition add_io_typed :: "io_type \<Rightarrow> nat \<Rightarrow> int \<Rightarrow> nat \<Rightarrow> engine \<Rightarrow> (SuccessfulFailed \<times> engine) option" where
  "add_io_typed ty x fd cb s =
     (case ty of
        IOTypeRead \<Rightarrow> add_io_event (io_flags IOTypeRead) x fd cb s
      | IOTypeWrite \<Rightarrow> add_io_event (io_flags IOTypeWrite) x fd cb s
      | IOTypeReadWrite \<Rightarrow> add_io_event (io_flags IOTypeReadWrite) x fd cb s)"

text \<open>
  The static functions find the engine through the task of an awaitable: \<^verbatim>\<open>get_event_engine\<close> asserts that it is of the
  expected class, by the address of a variable of that class.
\<close>

record event_engine =
  ee_tag :: nat
  ee_engine :: engine

definition libevent_type_tag :: nat where
  "libevent_type_tag = 1"

definition get_event_engine :: "nat \<Rightarrow> event_engine \<Rightarrow> engine option" where
  "get_event_engine tag e = (if ee_tag e = tag then Some (ee_engine e) else None)"

definition on_engine ::
    "(engine \<Rightarrow> (SuccessfulFailed \<times> engine) option) \<Rightarrow> event_engine \<Rightarrow> (SuccessfulFailed \<times> event_engine) option" where
  "on_engine f e =
     do { s \<leftarrow> get_event_engine libevent_type_tag e; (r, s1) \<leftarrow> f s; Some (r, e\<lparr>ee_engine := s1\<rparr>) }"

definition awaitable_add_io_flags :: "nat \<Rightarrow> nat \<Rightarrow> int \<Rightarrow> nat \<Rightarrow> event_engine \<Rightarrow> (SuccessfulFailed \<times> event_engine) option" where
  "awaitable_add_io_flags flags x fd cb e = on_engine (add_io_event flags x fd cb) e"

definition awaitable_add_io :: "io_type \<Rightarrow> nat \<Rightarrow> int \<Rightarrow> nat \<Rightarrow> event_engine \<Rightarrow> (SuccessfulFailed \<times> event_engine) option" where
  "awaitable_add_io ty x fd cb e = awaitable_add_io_flags (io_flags ty) x fd cb e"

definition awaitable_remove_io :: "nat \<Rightarrow> event_engine \<Rightarrow> (SuccessfulFailed \<times> event_engine) option" where
  "awaitable_remove_io x e = on_engine (remove_io_event x) e"

definition awaitable_add_signal :: "nat \<Rightarrow> int \<Rightarrow> nat \<Rightarrow> event_engine \<Rightarrow> (SuccessfulFailed \<times> event_engine) option" where
  "awaitable_add_signal x sig cb e = on_engine (add_signal x sig cb) e"

definition awaitable_remove_signal :: "nat \<Rightarrow> event_engine \<Rightarrow> (SuccessfulFailed \<times> event_engine) option" where
  "awaitable_remove_signal x e = on_engine (remove_signal x) e"

definition awaitable_add_timer :: "nat \<Rightarrow> int \<times> int \<Rightarrow> nat \<Rightarrow> event_engine \<Rightarrow> (SuccessfulFailed \<times> event_engine) option" where
  "awaitable_add_timer x tv cb e = on_engine (add_timer x tv cb) e"

definition awaitable_remove_timer :: "nat \<Rightarrow> event_engine \<Rightarrow> (SuccessfulFailed \<times> event_engine) option" where
  "awaitable_remove_timer x e = on_engine (remove_timer_event x) e"

section \<open>The operations\<close>

text \<open>Each class has its fields, the default values of \<^verbatim>\<open>reset\<close>, and one call of the engine in \<^verbatim>\<open>do_io\<close>.\<close>

definition slice_empty :: Slice where
  "slice_empty = \<lparr>s_data = 0, s_size = 0\<rparr>"

record PosixConnect =
  pc_handle :: int
  pc_address :: "nat option"
  pc_len :: nat
  pc_connected :: bool

definition PosixConnect_new :: "int \<Rightarrow> nat option \<Rightarrow> nat \<Rightarrow> PosixConnect" where
  "PosixConnect_new fd addr len = \<lparr>pc_handle = fd, pc_address = addr, pc_len = len, pc_connected = False\<rparr>"

definition PosixConnect_reset :: PosixConnect where
  "PosixConnect_reset = \<lparr>pc_handle = -1, pc_address = None, pc_len = 0, pc_connected = False\<rparr>"

definition PosixConnect_do_io :: "PosixConnect \<Rightarrow> kernel \<Rightarrow> (IOResult \<times> PosixConnect \<times> kernel) option" where
  "PosixConnect_do_io i k =
     (if pc_connected i
      then do { (a, k1) \<leftarrow> sys_call (SysGetSockError (pc_handle i)) k;
                let err = (if fst (an_call a) \<noteq> 0 then snd (an_call a) else int (an_value a));
                Some (\<lparr>io_error = Error_make err category_posix, io_size = err\<rparr>, i, k1) }
      else do { (r, k1) \<leftarrow> engine_connect (pc_handle i) (pc_address i) (pc_len i) k; Some (r, i\<lparr>pc_connected := True\<rparr>, k1) })"

record PosixAccept =
  pa_handle :: int
  pa_address :: "nat option"
  pa_connected :: bool

definition PosixAccept_new :: "int \<Rightarrow> nat option \<Rightarrow> PosixAccept" where
  "PosixAccept_new fd addr = \<lparr>pa_handle = fd, pa_address = addr, pa_connected = False\<rparr>"

definition PosixAccept_reset :: PosixAccept where
  "PosixAccept_reset = \<lparr>pa_handle = -1, pa_address = None, pa_connected = False\<rparr>"

definition PosixAccept_do_io :: "PosixAccept \<Rightarrow> kernel \<Rightarrow> (IOResult \<times> PosixAccept \<times> kernel) option" where
  "PosixAccept_do_io i k = do { (r, k1) \<leftarrow> engine_accept (pa_handle i) (pa_address i) k; Some (r, i, k1) }"

record PosixSendTo =
  st_handle :: int
  st_buffer :: Slice
  st_flags :: int
  st_address :: "nat option"
  st_len :: nat

definition PosixSendTo_new :: "int \<Rightarrow> Slice \<Rightarrow> int \<Rightarrow> nat option \<Rightarrow> nat \<Rightarrow> PosixSendTo" where
  "PosixSendTo_new fd b flags addr len =
     \<lparr>st_handle = fd, st_buffer = b, st_flags = flags, st_address = addr, st_len = len\<rparr>"

definition PosixSendTo_reset :: PosixSendTo where
  "PosixSendTo_reset = \<lparr>st_handle = -1, st_buffer = slice_empty, st_flags = 0, st_address = None, st_len = 0\<rparr>"

definition PosixSendTo_do_io :: "PosixSendTo \<Rightarrow> kernel \<Rightarrow> (IOResult \<times> PosixSendTo \<times> kernel) option" where
  "PosixSendTo_do_io i k =
     do { (r, k1) \<leftarrow> engine_sendto (st_handle i) (st_buffer i) (st_flags i) (st_address i) (st_len i) k; Some (r, i, k1) }"

text \<open>
  \<^verbatim>\<open>PosixRecvFrom\<close> holds an \<^verbatim>\<open>AddressChecker\<close>; \<open>rf_target\<close> is the address object the checker points at while
  \<^verbatim>\<open>ck_addr\<close> holds. The first constructor takes the length from the object, the second one its capacity.
\<close>

record PosixRecvFrom =
  rf_handle :: int
  rf_buffer :: Slice
  rf_flags :: int
  rf_target :: nat
  rf_address :: AddressChecker

definition PosixRecvFrom_raw :: "int \<Rightarrow> Slice \<Rightarrow> int \<Rightarrow> nat \<Rightarrow> kernel \<Rightarrow> PosixRecvFrom" where
  "PosixRecvFrom_raw fd b flags p k =
     \<lparr>rf_handle = fd, rf_buffer = b, rf_flags = flags, rf_target = p,
      rf_address = \<lparr>ck_addr = True, ck_capacity = sa_size (k_addrs k p)\<rparr>\<rparr>"

definition PosixRecvFrom_new :: "int \<Rightarrow> Slice \<Rightarrow> int \<Rightarrow> nat \<Rightarrow> kernel \<Rightarrow> PosixRecvFrom" where
  "PosixRecvFrom_new fd b flags p k =
     \<lparr>rf_handle = fd, rf_buffer = b, rf_flags = flags, rf_target = p, rf_address = sa_buffer (k_addrs k p)\<rparr>"

definition PosixRecvFrom_reset :: "PosixRecvFrom \<Rightarrow> PosixRecvFrom" where
  "PosixRecvFrom_reset i =
     i\<lparr>rf_handle := -1, rf_buffer := slice_empty, rf_flags := 0, rf_address := \<lparr>ck_addr = False, ck_capacity = 0\<rparr>\<rparr>"

text \<open>
  Moving a checker: the new one takes over the address, the other one is discarded. The assignment overwrites what the
  target held, committed or not.
\<close>

definition ck_move :: "AddressChecker \<Rightarrow> AddressChecker \<times> AddressChecker" where
  "ck_move other = (other, ck_discard other)"

definition ck_move_assign :: "AddressChecker \<Rightarrow> AddressChecker \<Rightarrow> AddressChecker \<times> AddressChecker" where
  "ck_move_assign k other = (k\<lparr>ck_addr := ck_addr other, ck_capacity := ck_capacity other\<rparr>, ck_discard other)"

text \<open>The pointer the checker gives out, and \<^verbatim>\<open>commit\<close> on the object it points at.\<close>

definition checker_data :: "PosixRecvFrom \<Rightarrow> nat option" where
  "checker_data i = (if ck_addr (rf_address i) then Some (rf_target i) else None)"

definition checker_commit :: "PosixRecvFrom \<Rightarrow> kernel \<Rightarrow> (PosixRecvFrom \<times> kernel) option" where
  "checker_commit i k =
     do { (r, c, a) \<leftarrow> ck_commit unspecified_check (rf_address i) (k_addrs k (rf_target i));
          Some (i\<lparr>rf_address := c\<rparr>, k\<lparr>k_addrs := (k_addrs k)(rf_target i := a)\<rparr>) }"

definition PosixRecvFrom_do_io :: "PosixRecvFrom \<Rightarrow> kernel \<Rightarrow> (IOResult \<times> PosixRecvFrom \<times> kernel) option" where
  "PosixRecvFrom_do_io i k =
     do { (r, len, k1) \<leftarrow> engine_recvfrom (rf_handle i) (rf_buffer i) (rf_flags i) (checker_data i)
                              (ck_capacity (rf_address i)) k;
          let i1 = i\<lparr>rf_address := (rf_address i)\<lparr>ck_capacity := len\<rparr>\<rparr>;
          (i2, k2) \<leftarrow> (if \<not> Error_bool (io_error r) then checker_commit i1 k1 else Some (i1, k1));
          Some (r, i2, k2) }"

record PosixRecv =
  rv_handle :: int
  rv_buffer :: Slice
  rv_flags :: int

definition PosixRecv_new :: "int \<Rightarrow> Slice \<Rightarrow> int \<Rightarrow> PosixRecv" where
  "PosixRecv_new fd b flags = \<lparr>rv_handle = fd, rv_buffer = b, rv_flags = flags\<rparr>"

definition PosixRecv_reset :: PosixRecv where
  "PosixRecv_reset = \<lparr>rv_handle = -1, rv_buffer = slice_empty, rv_flags = 0\<rparr>"

definition PosixRecv_do_io :: "PosixRecv \<Rightarrow> kernel \<Rightarrow> (IOResult \<times> PosixRecv \<times> kernel) option" where
  "PosixRecv_do_io i k = do { (r, k1) \<leftarrow> engine_recv (rv_handle i) (rv_buffer i) (rv_flags i) k; Some (r, i, k1) }"

record PosixSend =
  sd_handle :: int
  sd_buffer :: Slice
  sd_flags :: int

definition PosixSend_new :: "int \<Rightarrow> Slice \<Rightarrow> int \<Rightarrow> PosixSend" where
  "PosixSend_new fd b flags = \<lparr>sd_handle = fd, sd_buffer = b, sd_flags = flags\<rparr>"

definition PosixSend_reset :: PosixSend where
  "PosixSend_reset = \<lparr>sd_handle = -1, sd_buffer = slice_empty, sd_flags = 0\<rparr>"

definition PosixSend_do_io :: "PosixSend \<Rightarrow> kernel \<Rightarrow> (IOResult \<times> PosixSend \<times> kernel) option" where
  "PosixSend_do_io i k = do { (r, k1) \<leftarrow> engine_send (sd_handle i) (sd_buffer i) (sd_flags i) k; Some (r, i, k1) }"

record PosixRead =
  rd_handle :: int
  rd_buffer :: Slice

definition PosixRead_new :: "int \<Rightarrow> Slice \<Rightarrow> PosixRead" where
  "PosixRead_new fd b = \<lparr>rd_handle = fd, rd_buffer = b\<rparr>"

definition PosixRead_reset :: PosixRead where
  "PosixRead_reset = \<lparr>rd_handle = -1, rd_buffer = slice_empty\<rparr>"

definition PosixRead_do_io :: "PosixRead \<Rightarrow> kernel \<Rightarrow> (IOResult \<times> PosixRead \<times> kernel) option" where
  "PosixRead_do_io i k = do { (r, k1) \<leftarrow> engine_read (rd_handle i) (rd_buffer i) k; Some (r, i, k1) }"

record PosixWrite =
  wr_handle :: int
  wr_buffer :: Slice

definition PosixWrite_new :: "int \<Rightarrow> Slice \<Rightarrow> PosixWrite" where
  "PosixWrite_new fd b = \<lparr>wr_handle = fd, wr_buffer = b\<rparr>"

definition PosixWrite_reset :: PosixWrite where
  "PosixWrite_reset = \<lparr>wr_handle = -1, wr_buffer = slice_empty\<rparr>"

definition PosixWrite_do_io :: "PosixWrite \<Rightarrow> kernel \<Rightarrow> (IOResult \<times> PosixWrite \<times> kernel) option" where
  "PosixWrite_do_io i k = do { (r, k1) \<leftarrow> engine_write (wr_handle i) (wr_buffer i) k; Some (r, i, k1) }"

record PosixReadV =
  rw_handle :: int
  rw_buffers :: "nat option"
  rw_count :: int

definition PosixReadV_new :: "int \<Rightarrow> nat option \<Rightarrow> int \<Rightarrow> PosixReadV" where
  "PosixReadV_new fd bs count = \<lparr>rw_handle = fd, rw_buffers = bs, rw_count = count\<rparr>"

definition PosixReadV_reset :: PosixReadV where
  "PosixReadV_reset = \<lparr>rw_handle = -1, rw_buffers = None, rw_count = 0\<rparr>"

definition PosixReadV_do_io :: "PosixReadV \<Rightarrow> kernel \<Rightarrow> (IOResult \<times> PosixReadV \<times> kernel) option" where
  "PosixReadV_do_io i k = do { (r, k1) \<leftarrow> engine_readv (rw_handle i) (rw_buffers i) (rw_count i) k; Some (r, i, k1) }"

record PosixWriteV =
  wv_handle :: int
  wv_buffers :: "nat option"
  wv_count :: int

definition PosixWriteV_new :: "int \<Rightarrow> nat option \<Rightarrow> int \<Rightarrow> PosixWriteV" where
  "PosixWriteV_new fd bs count = \<lparr>wv_handle = fd, wv_buffers = bs, wv_count = count\<rparr>"

definition PosixWriteV_reset :: PosixWriteV where
  "PosixWriteV_reset = \<lparr>wv_handle = -1, wv_buffers = None, wv_count = 0\<rparr>"

definition PosixWriteV_do_io :: "PosixWriteV \<Rightarrow> kernel \<Rightarrow> (IOResult \<times> PosixWriteV \<times> kernel) option" where
  "PosixWriteV_do_io i k = do { (r, k1) \<leftarrow> engine_writev (wv_handle i) (wv_buffers i) (wv_count i) k; Some (r, i, k1) }"

record PosixRecvMsg =
  rm_handle :: int
  rm_msg :: "nat option"
  rm_flags :: int

definition PosixRecvMsg_new :: "int \<Rightarrow> nat option \<Rightarrow> int \<Rightarrow> PosixRecvMsg" where
  "PosixRecvMsg_new fd m flags = \<lparr>rm_handle = fd, rm_msg = m, rm_flags = flags\<rparr>"

definition PosixRecvMsg_reset :: PosixRecvMsg where
  "PosixRecvMsg_reset = \<lparr>rm_handle = -1, rm_msg = None, rm_flags = 0\<rparr>"

definition PosixRecvMsg_do_io :: "PosixRecvMsg \<Rightarrow> kernel \<Rightarrow> (IOResult \<times> PosixRecvMsg \<times> kernel) option" where
  "PosixRecvMsg_do_io i k = do { (r, k1) \<leftarrow> engine_recvmsg (rm_handle i) (rm_msg i) (rm_flags i) k; Some (r, i, k1) }"

record PosixSendMsg =
  sm_handle :: int
  sm_msg :: "nat option"
  sm_flags :: int

definition PosixSendMsg_new :: "int \<Rightarrow> nat option \<Rightarrow> int \<Rightarrow> PosixSendMsg" where
  "PosixSendMsg_new fd m flags = \<lparr>sm_handle = fd, sm_msg = m, sm_flags = flags\<rparr>"

definition PosixSendMsg_reset :: PosixSendMsg where
  "PosixSendMsg_reset = \<lparr>sm_handle = -1, sm_msg = None, sm_flags = 0\<rparr>"

definition PosixSendMsg_do_io :: "PosixSendMsg \<Rightarrow> kernel \<Rightarrow> (IOResult \<times> PosixSendMsg \<times> kernel) option" where
  "PosixSendMsg_do_io i k = do { (r, k1) \<leftarrow> engine_sendmsg (sm_handle i) (sm_msg i) (sm_flags i) k; Some (r, i, k1) }"

section \<open>The interface\<close>

text \<open>\<^verbatim>\<open>AsyncIOPosix\<close>: the classes an \<^verbatim>\<open>AsyncIOCommon\<close> is made for.\<close>

datatype posix_op =
    OpWrite PosixWrite
  | OpRead PosixRead
  | OpReadV PosixReadV
  | OpWriteV PosixWriteV
  | OpSendMsg PosixSendMsg
  | OpRecvMsg PosixRecvMsg
  | OpSend PosixSend
  | OpRecv PosixRecv
  | OpSendTo PosixSendTo
  | OpRecvFrom PosixRecvFrom
  | OpAccept PosixAccept
  | OpConnect PosixConnect

fun op_native_handle :: "posix_op \<Rightarrow> int" where
  "op_native_handle (OpWrite i) = wr_handle i"
| "op_native_handle (OpRead i) = rd_handle i"
| "op_native_handle (OpReadV i) = rw_handle i"
| "op_native_handle (OpWriteV i) = wv_handle i"
| "op_native_handle (OpSendMsg i) = sm_handle i"
| "op_native_handle (OpRecvMsg i) = rm_handle i"
| "op_native_handle (OpSend i) = sd_handle i"
| "op_native_handle (OpRecv i) = rv_handle i"
| "op_native_handle (OpSendTo i) = st_handle i"
| "op_native_handle (OpRecvFrom i) = rf_handle i"
| "op_native_handle (OpAccept i) = pa_handle i"
| "op_native_handle (OpConnect i) = pc_handle i"

fun op_reset :: "posix_op \<Rightarrow> posix_op" where
  "op_reset (OpWrite i) = OpWrite PosixWrite_reset"
| "op_reset (OpRead i) = OpRead PosixRead_reset"
| "op_reset (OpReadV i) = OpReadV PosixReadV_reset"
| "op_reset (OpWriteV i) = OpWriteV PosixWriteV_reset"
| "op_reset (OpSendMsg i) = OpSendMsg PosixSendMsg_reset"
| "op_reset (OpRecvMsg i) = OpRecvMsg PosixRecvMsg_reset"
| "op_reset (OpSend i) = OpSend PosixSend_reset"
| "op_reset (OpRecv i) = OpRecv PosixRecv_reset"
| "op_reset (OpSendTo i) = OpSendTo PosixSendTo_reset"
| "op_reset (OpRecvFrom i) = OpRecvFrom (PosixRecvFrom_reset i)"
| "op_reset (OpAccept i) = OpAccept PosixAccept_reset"
| "op_reset (OpConnect i) = OpConnect PosixConnect_reset"

fun op_do_io :: "posix_op \<Rightarrow> kernel \<Rightarrow> (IOResult \<times> posix_op \<times> kernel) option" where
  "op_do_io (OpWrite i) k = map_option (map_prod id (map_prod OpWrite id)) (PosixWrite_do_io i k)"
| "op_do_io (OpRead i) k = map_option (map_prod id (map_prod OpRead id)) (PosixRead_do_io i k)"
| "op_do_io (OpReadV i) k = map_option (map_prod id (map_prod OpReadV id)) (PosixReadV_do_io i k)"
| "op_do_io (OpWriteV i) k = map_option (map_prod id (map_prod OpWriteV id)) (PosixWriteV_do_io i k)"
| "op_do_io (OpSendMsg i) k = map_option (map_prod id (map_prod OpSendMsg id)) (PosixSendMsg_do_io i k)"
| "op_do_io (OpRecvMsg i) k = map_option (map_prod id (map_prod OpRecvMsg id)) (PosixRecvMsg_do_io i k)"
| "op_do_io (OpSend i) k = map_option (map_prod id (map_prod OpSend id)) (PosixSend_do_io i k)"
| "op_do_io (OpRecv i) k = map_option (map_prod id (map_prod OpRecv id)) (PosixRecv_do_io i k)"
| "op_do_io (OpSendTo i) k = map_option (map_prod id (map_prod OpSendTo id)) (PosixSendTo_do_io i k)"
| "op_do_io (OpRecvFrom i) k = map_option (map_prod id (map_prod OpRecvFrom id)) (PosixRecvFrom_do_io i k)"
| "op_do_io (OpAccept i) k = map_option (map_prod id (map_prod OpAccept id)) (PosixAccept_do_io i k)"
| "op_do_io (OpConnect i) k = map_option (map_prod id (map_prod OpConnect id)) (PosixConnect_do_io i k)"

fun op_type :: "posix_op \<Rightarrow> io_type" where
  "op_type (OpWrite i) = IOTypeWrite"
| "op_type (OpRead i) = IOTypeRead"
| "op_type (OpReadV i) = IOTypeRead"
| "op_type (OpWriteV i) = IOTypeWrite"
| "op_type (OpSendMsg i) = IOTypeWrite"
| "op_type (OpRecvMsg i) = IOTypeRead"
| "op_type (OpSend i) = IOTypeWrite"
| "op_type (OpRecv i) = IOTypeRead"
| "op_type (OpSendTo i) = IOTypeWrite"
| "op_type (OpRecvFrom i) = IOTypeRead"
| "op_type (OpAccept i) = IOTypeRead"
| "op_type (OpConnect i) = IOTypeWrite"

text \<open>\<^verbatim>\<open>IOTypeName\<close>, as a backtrace prints it.\<close>

fun op_type_name :: "posix_op \<Rightarrow> string" where
  "op_type_name (OpWrite i) = ''write''"
| "op_type_name (OpRead i) = ''read''"
| "op_type_name (OpReadV i) = ''readv''"
| "op_type_name (OpWriteV i) = ''writev''"
| "op_type_name (OpSendMsg i) = ''writev''"
| "op_type_name (OpRecvMsg i) = ''recvmsg''"
| "op_type_name (OpSend i) = ''send''"
| "op_type_name (OpRecv i) = ''recv''"
| "op_type_name (OpSendTo i) = ''sendto''"
| "op_type_name (OpRecvFrom i) = ''recvfrom''"
| "op_type_name (OpAccept i) = ''accept''"
| "op_type_name (OpConnect i) = ''connect''"

record 'i io_ops =
  io_do_io :: "'i \<Rightarrow> kernel \<Rightarrow> (IOResult \<times> 'i \<times> kernel) option"
  io_native_handle :: "'i \<Rightarrow> int"
  io_kind :: "'i \<Rightarrow> io_type"
  io_reset :: "'i \<Rightarrow> 'i"

definition posix_ops :: "posix_op io_ops" where
  "posix_ops = \<lparr>io_do_io = op_do_io, io_native_handle = op_native_handle, io_kind = op_type, io_reset = op_reset\<rparr>"

section \<open>Asynchronous operations\<close>

text \<open>
  \<^verbatim>\<open>AsyncIOCommon\<close> for a class given by its operations: the result, the class with its fields, the number of
  its event handle and of its callback at the engine.
\<close>

record 'i async_common =
  ac_result :: "int option"
  ac_impl :: 'i
  ac_handle :: nat
  ac_callback :: nat

record io_world =
  iw_kernel :: kernel
  iw_engine :: event_engine

abbreviation iw_handle :: "io_world \<Rightarrow> nat \<Rightarrow> event_data option" where
  "iw_handle w \<equiv> en_handle (ee_engine (iw_engine w))"

abbreviation iw_base :: "io_world \<Rightarrow> nat list" where
  "iw_base w \<equiv> en_base (ee_engine (iw_engine w))"

definition common_call :: "'i \<Rightarrow> 'i async_common \<Rightarrow> 'i async_common" where
  "common_call i s = s\<lparr>ac_result := None, ac_impl := i\<rparr>"

definition common_poll ::
    "'i io_ops \<Rightarrow> 'i async_common \<Rightarrow> io_world \<Rightarrow> (io_action \<times> 'i async_common \<times> io_world) option" where
  "common_poll ops s w =
     (if ac_result s \<noteq> None then Some (IOReturn, s, w)
      else do { (r, i, k) \<leftarrow> io_do_io ops (ac_impl s) (iw_kernel w);
                let s1 = s\<lparr>ac_impl := i\<rparr>;
                let w1 = w\<lparr>iw_kernel := k\<rparr>;
                if \<not> Error_bool (io_error r) then Some (IOReturn, s1\<lparr>ac_result := Some (io_size r)\<rparr>, w1)
                else if e_category (io_error r) = Some category_again
                then do { (ok, e) \<leftarrow> awaitable_add_io (io_kind ops i) (ac_handle s) (io_native_handle ops i) (ac_callback s) (iw_engine w1);
                          Some (if ok = Failed then IOThrow (make_error_event_engine ErrorEventEngine_FailedToRegisterIOEvent)
                                else IOSuspend, s1, w1\<lparr>iw_engine := e\<rparr>) }
                else Some (IOThrow (io_error r), s1, w1) })"

definition common_finalize ::
    "'i io_ops \<Rightarrow> 'i async_common \<Rightarrow> io_world \<Rightarrow> ('i async_common \<times> io_world) option" where
  "common_finalize ops s w =
     do { w1 \<leftarrow> (if iw_handle w (ac_handle s) \<noteq> None
                 then do { (_, e) \<leftarrow> awaitable_remove_io (ac_handle s) (iw_engine w);
                           e1 \<leftarrow> handle_reset (ac_handle s) (ee_engine e);
                           Some (w\<lparr>iw_engine := e\<lparr>ee_engine := e1\<rparr>\<rparr>) }
                 else Some w);
          Some (s\<lparr>ac_impl := io_reset ops (ac_impl s)\<rparr>, w1) }"

text \<open>The event fires: \<^verbatim>\<open>io_callback\<close> only resumes the task.\<close>

definition common_fire :: "bool \<Rightarrow> 'i async_common \<Rightarrow> io_world \<Rightarrow> io_world option" where
  "common_fire timeout s w =
     do { e \<leftarrow> activate (\<lambda>_. []) (ac_handle s, timeout) (ee_engine (iw_engine w));
          Some (w\<lparr>iw_engine := (iw_engine w)\<lparr>ee_engine := e\<rparr>\<rparr>) }"

text \<open>At most \<open>n\<close> polls, with the event firing after each one that suspends.\<close>

fun common_run ::
    "'i io_ops \<Rightarrow> nat \<Rightarrow> 'i async_common \<Rightarrow> io_world \<Rightarrow> (io_action \<times> 'i async_common \<times> io_world) option" where
  "common_run ops 0 s w = None"
| "common_run ops (Suc n) s w =
     do { (a, s1, w1) \<leftarrow> common_poll ops s w;
          if a = IOSuspend then do { w2 \<leftarrow> common_fire False s1 w1; common_run ops n s1 w2 } else Some (a, s1, w1) }"

section \<open>Refinement of the abstract operation\<close>

text \<open>The state of the handle and the resumptions of the task, as the abstract operation has them.\<close>

definition common_abs :: "'i async_common \<Rightarrow> io_world \<Rightarrow> async_io" where
  "common_abs s w =
     \<lparr>ai_result = ac_result s, ai_handle = map_option ed_state (iw_handle w (ac_handle s)),
      ai_resumed = map snd (filter (\<lambda>c. fst c = ac_callback s) (en_called (ee_engine (iw_engine w))))\<rparr>"

definition common_ok :: "'i async_common \<Rightarrow> io_world \<Rightarrow> bool" where
  "common_ok s w \<longleftrightarrow> ee_tag (iw_engine w) = libevent_type_tag \<and> en_inv None (ee_engine (iw_engine w)) \<and>
     (\<forall>d. iw_handle w (ac_handle s) = Some d \<longrightarrow> ed_class d = EventDataIO)"

text \<open>The overloads with an awaitable and those of the engine itself register the same event.\<close>

lemma add_io_overloads: "awaitable_add_io ty x fd cb e = on_engine (add_io_typed ty x fd cb) e"
  by (cases ty) (simp_all add: awaitable_add_io_def awaitable_add_io_flags_def add_io_typed_def [abs_def])

lemma awaitable_add_ok:
  assumes "common_ok s w"
  shows "\<exists>e. awaitable_add_io ty (ac_handle s) fd (ac_callback s) (iw_engine w) = Some (Successful, e) \<and>
    common_ok s (w\<lparr>iw_engine := e\<rparr>) \<and>
    en_handle (ee_engine e) = (iw_handle w)(ac_handle s \<mapsto> event_new EventDataIO fd (io_flags ty) None (ac_callback s)) \<and>
    ac_handle s \<in> set (en_base (ee_engine e)) \<and> en_called (ee_engine e) = en_called (ee_engine (iw_engine w))"
proof -
  let ?x = "ac_handle s" and ?s = "ee_engine (iw_engine w)"
  have inv: "en_inv None ?s" and tag: "ee_tag (iw_engine w) = libevent_type_tag" using assms by (auto simp: common_ok_def)
  obtain s1 where s1: "handle_reset ?x ?s = Some s1"
    using assms by (cases "iw_handle w ?x") (auto simp: handle_reset_def common_ok_def)
  note r = handle_reset_inv [OF s1 inv]
  have "en_inv None (assign_and_add ?x (event_new EventDataIO fd (io_flags ty) None (ac_callback s)) s1)"
    using assign_and_add_inv [OF r(1)] r(3) by (simp add: event_new_def)
  then show ?thesis
    using s1 tag r(2,4)
    by (auto simp: awaitable_add_io_def awaitable_add_io_flags_def on_engine_def get_event_engine_def add_io_event_def
        assign_and_add_def common_ok_def event_new_def)
qed

lemma poll_refines:
  assumes "common_ok s w" and "common_poll ops s w = Some (a, s', w')"
  shows "common_ok s' w' \<and>
    async_io_poll (map_option fst (io_do_io ops (ac_impl s) (iw_kernel w))) (common_abs s w) = Some (a, common_abs s' w')"
proof (cases "ac_result s")
  case (Some v)
  then show ?thesis using assms by (auto simp: common_poll_def async_io_poll_def common_abs_def)
next
  case None
  then obtain r i k where d: "io_do_io ops (ac_impl s) (iw_kernel w) = Some (r, i, k)"
    using assms(2) by (auto simp: common_poll_def bind_Some_iff)
  let ?s1 = "s\<lparr>ac_impl := i\<rparr>" and ?w1 = "w\<lparr>iw_kernel := k\<rparr>"
  have ok1: "common_ok ?s1 ?w1" using assms(1) by (simp add: common_ok_def)
  have abs1: "common_abs ?s1 ?w1 = common_abs s w" by (simp add: common_abs_def)
  show ?thesis
  proof (cases "again r")
    case True
    obtain e where e: "awaitable_add_io (io_kind ops i) (ac_handle ?s1) (io_native_handle ops i) (ac_callback ?s1) (iw_engine ?w1) = Some (Successful, e)"
        "common_ok ?s1 (?w1\<lparr>iw_engine := e\<rparr>)"
        "en_handle (ee_engine e) = (iw_handle ?w1)(ac_handle ?s1 \<mapsto> event_new EventDataIO (io_native_handle ops i) (io_flags (io_kind ops i)) None (ac_callback ?s1))"
        "en_called (ee_engine e) = en_called (ee_engine (iw_engine ?w1))"
      using awaitable_add_ok [OF ok1] by blast
    then have "a = IOSuspend" "s' = ?s1" "w' = ?w1\<lparr>iw_engine := e\<rparr>"
      using assms(2) True None d by (auto simp: common_poll_def again_def)
    moreover have "async_io_poll (Some r) (common_abs s w) = Some (IOSuspend, common_abs ?s1 (?w1\<lparr>iw_engine := e\<rparr>))"
      using True None e(3,4) by (simp add: async_io_poll_def again_def common_abs_def add_event_def event_new_def)
    ultimately show ?thesis using e(2) d by simp
  next
    case False
    then have "common_ok s' w' \<and> async_io_poll (Some r) (common_abs s w) = Some (a, common_abs s' w')"
      using assms(2) None d ok1 by (auto simp: common_poll_def again_def async_io_poll_def common_abs_def common_ok_def split: if_splits)
    then show ?thesis using d by simp
  qed
qed

lemma fire_refines:
  assumes "common_ok s w" and "ac_handle s \<in> set (iw_base w)" and "\<forall>d. iw_handle w (ac_handle s) = Some d \<longrightarrow> ed_callback d = ac_callback s"
  shows "\<exists>w'. common_fire timeout s w = Some w' \<and> common_ok s w' \<and> iw_kernel w' = iw_kernel w \<and>
    io_event timeout (common_abs s w) = Some (common_abs s w')"
proof -
  let ?s = "ee_engine (iw_engine w)" and ?x = "ac_handle s"
  have inv: "en_inv None ?s" using assms(1) by (simp add: common_ok_def)
  obtain d where d: "iw_handle w ?x = Some d" using en_invD(2) [OF inv assms(2)] by blast
  have st: "ed_state d = EventPending" using en_invD(3) [OF inv d] by simp
  let ?b = "if persistent d then ?s else ?s\<lparr>en_base := removeAll ?x (en_base ?s)\<rparr>"
  let ?e = "?b\<lparr>en_called := en_called ?s @ [(ed_callback d, event_error timeout)]\<rparr>"
  have "activate (\<lambda>_. []) (?x, timeout) ?s = Some ?e"
    using assms(2) d st
    by (auto simp: activate_def event_data_callback_def set_state_def Let_def event_error_def fun_upd_idem)
  moreover have "en_inv None ?e" using inv by (auto simp: en_inv_def distinct_removeAll)
  ultimately show ?thesis
    using assms(1,3) d st
    by (auto simp: common_fire_def common_ok_def common_abs_def io_event_def event_callback_def io_callback_def event_error_def)
qed

section \<open>The contract of a class\<close>

text \<open>
  What \<^verbatim>\<open>AsyncIOCommon\<close> needs of the class it is made for: an attempt keeps the descriptor and the kind of event, and
  makes no other system call than its \<open>request\<close>. A \<open>simple\<close> class makes one call per attempt, and an attempt
  that fails changes nothing, so that the next one is the same.
\<close>

locale io_class =
  fixes ops :: "'i io_ops"
    and request :: "'i \<Rightarrow> sys_request"
    and simple :: "'i \<Rightarrow> bool"
  assumes kept: "io_do_io ops i k = Some (r, j, k') \<Longrightarrow> io_native_handle ops j = io_native_handle ops i \<and> io_kind ops j = io_kind ops i"
    and calls: "io_do_io ops i k = Some (r, j, k') \<Longrightarrow>
      \<exists>n > 0. k_answers k' = drop n (k_answers k) \<and> k_requests k' = k_requests k @ replicate n (request i)"
    and reset_closed: "io_native_handle ops (io_reset ops i) = -1"
    and answered: "simple i \<Longrightarrow> k_answers k = a # as \<Longrightarrow> convert_to_asyncio_error_code (an_call a) = Some r \<Longrightarrow>
      \<exists>j k'. io_do_io ops i k = Some (r, j, k') \<and> k_answers k' = as \<and> k_requests k' = k_requests k @ [request i] \<and>
        (Error_bool (io_error r) \<longrightarrow> j = i \<and> k_addrs k' = k_addrs k)"
begin

lemma poll_suspended:
  assumes "common_ok s w" and "common_poll ops s w = Some (IOSuspend, s', w')"
  shows "ac_handle s' \<in> set (iw_base w') \<and> iw_handle w' (ac_handle s') =
      Some (event_new EventDataIO (io_native_handle ops (ac_impl s)) (io_flags (io_kind ops (ac_impl s))) None (ac_callback s'))"
proof -
  obtain r i k where d: "io_do_io ops (ac_impl s) (iw_kernel w) = Some (r, i, k)" and n: "ac_result s = None"
    using assms(2) by (auto simp: common_poll_def bind_Some_iff split: if_splits)
  have ok1: "common_ok (s\<lparr>ac_impl := i\<rparr>) (w\<lparr>iw_kernel := k\<rparr>)" using assms(1) by (simp add: common_ok_def)
  show ?thesis
    using assms(2) n d awaitable_add_ok [OF ok1, of "io_kind ops i" "io_native_handle ops i"] kept [OF d]
    by (auto simp: common_poll_def Let_def split: if_splits)
qed

lemma poll_again:
  assumes "common_ok s w" and "ac_result s = None" and "simple (ac_impl s)"
    and "k_answers (iw_kernel w) = a # as" and "an_call a = (-1, EAGAIN)"
  shows "\<exists>w1 w2. common_poll ops s w = Some (IOSuspend, s, w1) \<and> common_fire False s w1 = Some w2 \<and> common_ok s w2 \<and>
    k_answers (iw_kernel w2) = as \<and> k_requests (iw_kernel w2) = k_requests (iw_kernel w) @ [request (ac_impl s)] \<and>
    k_addrs (iw_kernel w2) = k_addrs (iw_kernel w)"
proof -
  let ?r = "\<lparr>io_error = Error_make EAGAIN category_again, io_size = -1\<rparr>"
  have err: "Error_bool (io_error ?r)" "e_category (io_error ?r) = Some category_again"
    by (simp_all add: Error_bool_def Error_make_def errnos)
  have "convert_to_asyncio_error_code (an_call a) = Some ?r" using assms(5) by (simp add: syscall_wrapper_eq errnos)
  then obtain k where k: "io_do_io ops (ac_impl s) (iw_kernel w) = Some (?r, ac_impl s, k)" "k_answers k = as"
      "k_requests k = k_requests (iw_kernel w) @ [request (ac_impl s)]" "k_addrs k = k_addrs (iw_kernel w)"
    using answered [OF assms(3,4)] err by blast
  have ok1: "common_ok s (w\<lparr>iw_kernel := k\<rparr>)" using assms(1) by (simp add: common_ok_def)
  obtain e where "awaitable_add_io (io_kind ops (ac_impl s)) (ac_handle s) (io_native_handle ops (ac_impl s)) (ac_callback s) (iw_engine w) = Some (Successful, e)"
    using awaitable_add_ok [OF ok1] by auto
  then have p: "common_poll ops s w = Some (IOSuspend, s, w\<lparr>iw_kernel := k, iw_engine := e\<rparr>)"
    using assms(2) k(1) err by (simp add: common_poll_def)
  note sus = poll_suspended [OF assms(1) p] and ok = poll_refines [OF assms(1) p]
  show ?thesis
    using p fire_refines [of s "w\<lparr>iw_kernel := k, iw_engine := e\<rparr>" False] sus ok k(2-4) by (auto simp: event_new_def)
qed

lemma run_simple:
  assumes "common_ok s w" and "ac_result s = None" and "simple (ac_impl s)"
    and "k_answers (iw_kernel w) = ws @ x # rest" and "\<forall>a \<in> set ws. an_call a = (-1, EAGAIN)"
    and "convert_to_asyncio_error_code (an_call x) = Some r" and "\<not> again r"
  shows "\<exists>j k w1. common_ok s w1 \<and>
    io_do_io ops (ac_impl s) (iw_kernel w1) = Some (r, j, k) \<and> k_answers (iw_kernel w1) = x # rest \<and>
    k_requests k = k_requests (iw_kernel w) @ replicate (Suc (length ws)) (request (ac_impl s)) \<and> k_answers k = rest \<and>
    k_addrs (iw_kernel w1) = k_addrs (iw_kernel w) \<and> (Error_bool (io_error r) \<longrightarrow> k_addrs k = k_addrs (iw_kernel w)) \<and>
    common_run ops (Suc (length ws)) s w =
      Some (if Error_bool (io_error r) then (IOThrow (io_error r), s\<lparr>ac_impl := j\<rparr>, w1\<lparr>iw_kernel := k\<rparr>)
            else (IOReturn, s\<lparr>ac_impl := j, ac_result := Some (io_size r)\<rparr>, w1\<lparr>iw_kernel := k\<rparr>))"
  using assms(1,4,5)
proof (induction ws arbitrary: w)
  case Nil
  then obtain j k where k: "io_do_io ops (ac_impl s) (iw_kernel w) = Some (r, j, k)" "k_answers k = rest"
      "k_requests k = k_requests (iw_kernel w) @ [request (ac_impl s)]" "Error_bool (io_error r) \<longrightarrow> k_addrs k = k_addrs (iw_kernel w)"
    using answered [OF assms(3) _ assms(6)] by fastforce
  have "common_poll ops s w = Some (if Error_bool (io_error r) then (IOThrow (io_error r), s\<lparr>ac_impl := j\<rparr>, w\<lparr>iw_kernel := k\<rparr>)
            else (IOReturn, s\<lparr>ac_impl := j, ac_result := Some (io_size r)\<rparr>, w\<lparr>iw_kernel := k\<rparr>))"
    using assms(2,7) k(1) by (simp add: common_poll_def again_def)
  then show ?case using Nil k by (intro exI [of _ j] exI [of _ k] exI [of _ w]) auto
next
  case (Cons a ws)
  obtain w1 w2 where w: "common_poll ops s w = Some (IOSuspend, s, w1)" "common_fire False s w1 = Some w2" "common_ok s w2"
      "k_answers (iw_kernel w2) = ws @ x # rest" "k_requests (iw_kernel w2) = k_requests (iw_kernel w) @ [request (ac_impl s)]"
      "k_addrs (iw_kernel w2) = k_addrs (iw_kernel w)"
    using poll_again [OF Cons.prems(1) assms(2,3), of a "ws @ x # rest"] Cons.prems by auto
  have "common_run ops (Suc (length (a # ws))) s w = common_run ops (Suc (length ws)) s w2"
    using w(1,2) by (subst common_run.simps) simp
  then show ?case using Cons.IH [OF w(3,4)] Cons.prems(3) w(5,6) by auto
qed

lemma finalized:
  assumes "common_ok s w"
  shows "\<exists>s' w'. common_finalize ops s w = Some (s', w') \<and> common_ok s' w' \<and> iw_handle w' (ac_handle s) = None \<and>
    ac_handle s \<notin> set (iw_base w') \<and> io_native_handle ops (ac_impl s') = -1 \<and> iw_kernel w' = iw_kernel w"
proof -
  let ?x = "ac_handle s" and ?s = "ee_engine (iw_engine w)"
  have inv: "en_inv None ?s" and tag: "ee_tag (iw_engine w) = libevent_type_tag" using assms by (auto simp: common_ok_def)
  show ?thesis
  proof (cases "iw_handle w ?x")
    case None
    then have "?x \<notin> set (iw_base w)" using en_invD(2) [OF inv] by fastforce
    then show ?thesis using None assms reset_closed by (auto simp: common_finalize_def common_ok_def)
  next
    case (Some d)
    then have d: "ed_state d = EventPending" "ed_class d = EventDataIO" using en_invD(3) [OF inv] assms by (auto simp: common_ok_def)
    obtain s1 where s1: "handle_reset ?x ?s = Some s1" using Some d by (simp add: handle_reset_def)
    note r = handle_reset_inv [OF s1 inv]
    have "handle_reset ?x s1 = Some s1" using r(2) by (simp add: handle_reset_def)
    then show ?thesis
      using Some d s1 r tag reset_closed
      by (auto simp: common_finalize_def awaitable_remove_io_def on_engine_def get_event_engine_def remove_io_event_def common_ok_def)
  qed
qed

end

section \<open>The classes meet the contract\<close>

fun op_request :: "posix_op \<Rightarrow> sys_request" where
  "op_request (OpWrite i) = SysWrite (wr_handle i) (s_data (wr_buffer i)) (s_size (wr_buffer i))"
| "op_request (OpRead i) = SysRead (rd_handle i) (s_data (rd_buffer i)) (s_size (rd_buffer i))"
| "op_request (OpReadV i) = SysReadV (rw_handle i) (rw_buffers i) (rw_count i)"
| "op_request (OpWriteV i) = SysWriteV (wv_handle i) (wv_buffers i) (wv_count i)"
| "op_request (OpSendMsg i) = SysSendMsg (sm_handle i) (sm_msg i) (sm_flags i)"
| "op_request (OpRecvMsg i) = SysRecvMsg (rm_handle i) (rm_msg i) (rm_flags i)"
| "op_request (OpSend i) = SysSend (sd_handle i) (s_data (sd_buffer i)) (s_size (sd_buffer i)) (sd_flags i)"
| "op_request (OpRecv i) = SysRecv (rv_handle i) (s_data (rv_buffer i)) (s_size (rv_buffer i)) (rv_flags i)"
| "op_request (OpSendTo i) = SysSendTo (st_handle i) (s_data (st_buffer i)) (s_size (st_buffer i)) (st_flags i) (st_address i) (st_len i)"
| "op_request (OpRecvFrom i) = SysRecvFrom (rf_handle i) (s_data (rf_buffer i)) (s_size (rf_buffer i)) (rf_flags i) (checker_data i) (ck_capacity (rf_address i))"
| "op_request (OpAccept i) = SysAccept (pa_handle i) (pa_address i)"
| "op_request (OpConnect i) = (if pc_connected i then SysGetSockError (pc_handle i) else SysConnect (pc_handle i) (pc_address i) (pc_len i))"

text \<open>Connecting makes two different calls, and a checker that was committed must not be used again.\<close>

fun op_simple :: "posix_op \<Rightarrow> bool" where
  "op_simple (OpConnect i) = False"
| "op_simple (OpRecvFrom i) = ck_addr (rf_address i)"
| "op_simple i = True"

lemmas op_do_io_defs = PosixWrite_do_io_def PosixRead_do_io_def PosixReadV_do_io_def PosixWriteV_do_io_def PosixSendMsg_do_io_def
  PosixRecvMsg_do_io_def PosixSend_do_io_def PosixRecv_do_io_def PosixSendTo_do_io_def PosixAccept_do_io_def
  engine_read_def engine_write_def engine_recv_def engine_send_def engine_sendto_def engine_readv_def engine_writev_def
  engine_recvmsg_def engine_sendmsg_def engine_accept_def forget_def

lemmas op_reset_defs = PosixWrite_reset_def PosixRead_reset_def PosixReadV_reset_def PosixWriteV_reset_def PosixSendMsg_reset_def
  PosixRecvMsg_reset_def PosixSend_reset_def PosixRecv_reset_def PosixSendTo_reset_def PosixAccept_reset_def
  PosixConnect_reset_def PosixRecvFrom_reset_def

lemma store_kernel [simp]:
  "k_answers (store_address p a k) = k_answers k" "k_requests (store_address p a k) = k_requests k"
  "k_answers (store_size p a k) = k_answers k" "k_requests (store_size p a k) = k_requests k"
  by (auto simp: store_address_def store_size_def split: option.splits)

lemma store_failed [simp]: "fst (an_call a) = -1 \<Longrightarrow> store_address p a k = k" "fst (an_call a) = -1 \<Longrightarrow> store_size p a k = k"
  by (auto simp: store_address_def store_size_def split: option.splits)

lemma converted_Some:
  "converted q k = Some (r, a, k') \<longleftrightarrow>
     (\<exists>as. k_answers k = a # as \<and> convert_to_asyncio_error_code (an_call a) = Some r \<and>
       k' = k\<lparr>k_answers := as, k_requests := k_requests k @ [q]\<rparr>)"
  by (auto simp: converted_def sys_call_def bind_Some_iff split: list.splits)

lemma convert_error: "convert_to_asyncio_error_code c = Some r \<Longrightarrow> Error_bool (io_error r) \<Longrightarrow> fst c = -1"
  by (cases c) (auto simp: syscall_wrapper_eq Error_bool_def Error_default_def split: if_splits)

lemma answered_plain:
  assumes "k_answers k = a # as" and "convert_to_asyncio_error_code (an_call a) = Some r"
  shows "converted q k = Some (r, a, k\<lparr>k_answers := as, k_requests := k_requests k @ [q]\<rparr>)"
  using assms by (simp add: converted_Some)

lemma recvfrom_answered:
  assumes "ck_addr (rf_address i)" and "k_answers k = a # as" and "convert_to_asyncio_error_code (an_call a) = Some r"
  shows "\<exists>j k'. PosixRecvFrom_do_io i k = Some (r, j, k') \<and> k_answers k' = as \<and> k_requests k' = k_requests k @ [op_request (OpRecvFrom i)] \<and>
    (if Error_bool (io_error r) then j = i \<and> k_addrs k' = k_addrs k
     else \<not> ck_addr (rf_address j) \<and>
       (fst (an_call a) \<noteq> -1 \<longrightarrow> k_addrs k' = (k_addrs k)(rf_target i :=
          \<lparr>sa_family = fst (an_addr a), sa_data = snd (an_addr a), sa_size = an_value a\<rparr>)))"
  using assms convert_error [OF assms(3)]
  by (cases "k_addrs k (rf_target i)")
     (auto simp: PosixRecvFrom_do_io_def engine_recvfrom_def converted_Some answered_plain [OF assms(2,3)] checker_commit_def
       ck_commit_def ck_discard_def unspecified_check_def checker_data_def Let_def store_address_def fun_upd_def)

lemma op_answered:
  assumes "op_simple i" and "k_answers k = a # as" and "convert_to_asyncio_error_code (an_call a) = Some r"
  shows "\<exists>j k'. op_do_io i k = Some (r, j, k') \<and> k_answers k' = as \<and> k_requests k' = k_requests k @ [op_request i] \<and>
    (Error_bool (io_error r) \<longrightarrow> j = i \<and> k_addrs k' = k_addrs k)"
proof (cases i)
  case (OpRecvFrom x)
  then show ?thesis using recvfrom_answered [of x k a as r] assms by (fastforce split: if_splits)
qed (use assms convert_error [OF assms(3)] in \<open>auto simp: op_do_io_defs answered_plain [OF assms(2,3)] store_address_def split: option.splits\<close>)

lemma connect_loop_rest: "connect_loop cs s = Some (r, rest) \<Longrightarrow> \<exists>n > 0. rest = drop n cs \<and> n \<le> length cs"
proof (induction cs arbitrary: s)
  case (Cons c cs)
  obtain err r0 where s: "s = (err, r0)" by (cases s)
  then consider "rest = cs" | s1 where "connect_loop cs s1 = Some (r, rest)"
    using Cons.prems by (auto simp: Let_def split: if_splits)
  then show ?case
  proof cases
    case 1
    then show ?thesis by (intro exI [of _ 1]) simp
  next
    case 2
    then obtain n where "rest = drop n cs" "n \<le> length cs" using Cons.IH by blast
    then show ?thesis by (intro exI [of _ "Suc n"]) simp
  qed
qed simp

lemma engine_connect_calls:
  assumes "engine_connect fd addr len k = Some (r, k')"
  shows "\<exists>n > 0. k_answers k' = drop n (k_answers k) \<and> k_requests k' = k_requests k @ replicate n (SysConnect fd addr len)"
proof -
  obtain rest where e: "ev_connect (map an_call (k_answers k)) = Some (r, rest)"
      "k' = k\<lparr>k_answers := drop (length (k_answers k) - length rest) (k_answers k),
              k_requests := k_requests k @ replicate (length (k_answers k) - length rest) (SysConnect fd addr len)\<rparr>"
    using assms by (auto simp: engine_connect_def bind_Some_iff Let_def)
  obtain n where "n > 0" "rest = drop n (map an_call (k_answers k))" "n \<le> length (k_answers k)"
    using connect_loop_rest [OF e(1) [unfolded ev_connect_def]] by auto
  then show ?thesis using e(2) by auto
qed

lemma commit_calls [simp]:
  "checker_commit i k = Some (j, k') \<Longrightarrow> k_answers k' = k_answers k \<and> k_requests k' = k_requests k \<and> rf_handle j = rf_handle i"
  by (auto simp: checker_commit_def bind_Some_iff)

lemma recvfrom_calls:
  assumes "PosixRecvFrom_do_io i k = Some (r, j, k')"
  shows "k_answers k' = drop 1 (k_answers k) \<and> k_requests k' = k_requests k @ [op_request (OpRecvFrom i)] \<and> rf_handle j = rf_handle i"
proof -
  obtain len k1 where e: "engine_recvfrom (rf_handle i) (rf_buffer i) (rf_flags i) (checker_data i) (ck_capacity (rf_address i)) k = Some (r, len, k1)"
    and c: "(if \<not> Error_bool (io_error r) then checker_commit (i\<lparr>rf_address := (rf_address i)\<lparr>ck_capacity := len\<rparr>\<rparr>) k1
       else Some (i\<lparr>rf_address := (rf_address i)\<lparr>ck_capacity := len\<rparr>\<rparr>, k1)) = Some (j, k')"
    using assms unfolding PosixRecvFrom_do_io_def Let_def by (auto simp: bind_Some_iff simp del: if_split)
  have "k_answers k1 = drop 1 (k_answers k) \<and> k_requests k1 = k_requests k @ [op_request (OpRecvFrom i)]"
    using e by (auto simp: engine_recvfrom_def converted_Some bind_Some_iff)
  then show ?thesis using c commit_calls by (cases "Error_bool (io_error r)") fastforce+
qed

lemma op_one_call:
  assumes "op_do_io i k = Some (r, j, k')" and "\<forall>x. i = OpConnect x \<longrightarrow> pc_connected x"
  shows "k_answers k' = drop 1 (k_answers k) \<and> k_requests k' = k_requests k @ [op_request i]"
proof (cases i)
  case (OpConnect x)
  then show ?thesis
    using assms by (auto simp: PosixConnect_do_io_def sys_call_def bind_Some_iff Let_def split: list.splits)
next
  case (OpRecvFrom x)
  then show ?thesis using assms recvfrom_calls [of x k] by auto
qed (use assms in \<open>auto simp: op_do_io_defs converted_Some bind_Some_iff\<close>)

lemma op_calls:
  assumes "op_do_io i k = Some (r, j, k')"
  shows "\<exists>n > 0. k_answers k' = drop n (k_answers k) \<and> k_requests k' = k_requests k @ replicate n (op_request i)"
proof (cases "\<forall>x. i = OpConnect x \<longrightarrow> pc_connected x")
  case True
  then show ?thesis using op_one_call [OF assms] by (intro exI [of _ 1]) simp
next
  case False
  then obtain x where x: "i = OpConnect x" "\<not> pc_connected x" by blast
  then obtain r1 k1 where "engine_connect (pc_handle x) (pc_address x) (pc_len x) k = Some (r1, k1)" "k' = k1"
    using assms by (auto simp: PosixConnect_do_io_def bind_Some_iff)
  then show ?thesis using engine_connect_calls x by auto
qed

lemma op_kept:
  assumes "op_do_io i k = Some (r, j, k')"
  shows "op_native_handle j = op_native_handle i \<and> op_type j = op_type i"
proof (cases i)
  case (OpRecvFrom x)
  then show ?thesis using assms recvfrom_calls [of x k] by auto
qed (use assms in \<open>auto simp: op_do_io_defs PosixConnect_do_io_def bind_Some_iff Let_def split: if_splits\<close>)

interpretation posix_class: io_class posix_ops op_request op_simple
proof
  fix i r j and k k' :: kernel
  assume "io_do_io posix_ops i k = Some (r, j, k')"
  then show "io_native_handle posix_ops j = io_native_handle posix_ops i \<and> io_kind posix_ops j = io_kind posix_ops i"
    and "\<exists>n > 0. k_answers k' = drop n (k_answers k) \<and> k_requests k' = k_requests k @ replicate n (op_request i)"
    using op_kept op_calls by (simp_all add: posix_ops_def)
next
  fix i
  show "io_native_handle posix_ops (io_reset posix_ops i) = -1"
    by (cases i) (simp_all add: posix_ops_def op_reset_defs)
next
  fix i a as r and k :: kernel
  assume "op_simple i" "k_answers k = a # as" "convert_to_asyncio_error_code (an_call a) = Some r"
  then show "\<exists>j k'. io_do_io posix_ops i k = Some (r, j, k') \<and> k_answers k' = as \<and> k_requests k' = k_requests k @ [op_request i] \<and>
        (Error_bool (io_error r) \<longrightarrow> j = i \<and> k_addrs k' = k_addrs k)"
    using op_answered by (simp add: posix_ops_def)
qed

section \<open>Operations on descriptors\<close>

lemma answer_converted:
  assumes "fst c = -1 \<longrightarrow> snd c \<notin> {0, EAGAIN, EINTR}"
  shows "\<exists>r. convert_to_asyncio_error_code c = Some r \<and> \<not> again r \<and> io_size r = fst c \<and>
    Error_bool (io_error r) = (fst c = -1) \<and> (fst c = -1 \<longrightarrow> io_error r = Error_make (snd c) category_posix)"
  using assms
  by (cases c) (auto simp: syscall_wrapper_eq again_def Error_bool_def Error_make_def Error_default_def errnos)

text \<open>An interrupted call is examined over and over: the attempt does not come back.\<close>

lemma op_interrupted:
  assumes "op_simple i" and "k_answers k = a # as" and "an_call a = (-1, EINTR)"
  shows "op_do_io i k = None"
proof -
  have c: "converted q k = None" for q
    using assms(2,3) by (simp add: converted_def sys_call_def syscall_wrapper_eq)
  show ?thesis
    using assms(1) c by (cases i) (simp_all add: op_do_io_defs PosixRecvFrom_do_io_def engine_recvfrom_def)
qed

lemma run_interrupted:
  assumes "common_ok s w" and "ac_result s = None" and "op_simple (ac_impl s)"
    and "k_answers (iw_kernel w) = ws @ x # rest" and "\<forall>a \<in> set ws. an_call a = (-1, EAGAIN)" and "an_call x = (-1, EINTR)"
  shows "common_run posix_ops n s w = None"
  using assms(1,4,5)
proof (induction n arbitrary: w ws)
  case (Suc n)
  show ?case
  proof (cases ws)
    case Nil
    then have "op_do_io (ac_impl s) (iw_kernel w) = None" using op_interrupted [OF assms(3) _ assms(6)] Suc.prems(2) by simp
    then show ?thesis using assms(2) by (simp add: common_poll_def posix_ops_def)
  next
    case (Cons a as)
    obtain w1 w2 where "common_poll posix_ops s w = Some (IOSuspend, s, w1)" "common_fire False s w1 = Some w2" "common_ok s w2"
        "k_answers (iw_kernel w2) = as @ x # rest"
      using posix_class.poll_again [OF Suc.prems(1) assms(2,3), of a "as @ x # rest"] Suc.prems(2,3) Cons by auto
    then show ?thesis using Suc.IH [of w2 as] Suc.prems(3) Cons by simp
  qed
qed simp


text \<open>A world with an engine that has no events, for the witnesses.\<close>

definition world_of :: "sys_answer list \<Rightarrow> io_world" where
  "world_of as = \<lparr>iw_kernel = \<lparr>k_answers = as, k_requests = [], k_addrs = \<lambda>_. sa_new\<rparr>,
     iw_engine = \<lparr>ee_tag = libevent_type_tag, ee_engine = engine_new\<rparr>\<rparr>"

definition answer :: "int \<Rightarrow> int \<Rightarrow> sys_answer" where
  "answer res err = \<lparr>an_call = (res, err), an_value = 0, an_addr = (0, [])\<rparr>"

lemma world_of_ok [simp]: "common_ok s (world_of as)"
  by (simp add: common_ok_def world_of_def engine_new_def en_inv_def)

lemma world_of_kernel [simp]:
  "k_answers (iw_kernel (world_of as)) = as" "k_requests (iw_kernel (world_of as)) = []" "k_addrs (iw_kernel (world_of as)) p = sa_new"
  by (simp_all add: world_of_def)

definition sample_read :: "posix_op async_common" where
  "sample_read = \<lparr>ac_result = None, ac_impl = OpRead (PosixRead_new 5 \<lparr>s_data = 100, s_size = 64\<rparr>), ac_handle = 0, ac_callback = 9\<rparr>"


text \<open>
  What the answers of the kernel mean to an operation, written down without its code. A call that succeeds is its result; one
  that fails is its \<^verbatim>\<open>errno\<close>, in the category for trying again if it would block; an interrupted one is no result at all.
  Connecting has two parts. The first goes on after an interruption, until a call fails; the second reads the error of the socket.
\<close>

definition call_meaning :: "syscall \<Rightarrow> IOResult option" where
  "call_meaning c =
     (if fst c \<noteq> -1 then Some \<lparr>io_error = Error_default, io_size = fst c\<rparr>
      else if snd c = EINTR then None
      else Some \<lparr>io_error = \<lparr>e_category = Some (if snd c = EAGAIN then category_again else category_posix), e_value = snd c\<rparr>, io_size = -1\<rparr>)"

fun connect_meaning :: "bool \<Rightarrow> syscall list \<Rightarrow> IOResult option" where
  "connect_meaning interrupted [] = None"
| "connect_meaning interrupted (c # cs) =
     (if fst c = -1
      then if snd c = EINTR then connect_meaning True cs
           else Some \<lparr>io_error = \<lparr>e_category = Some (if snd c = EINPROGRESS then category_again else category_posix), e_value = snd c\<rparr>, io_size = -1\<rparr>
      else if interrupted then connect_meaning True cs
      else Some \<lparr>io_error = Error_default, io_size = fst c\<rparr>)"

definition so_error_meaning :: "sys_answer \<Rightarrow> IOResult" where
  "so_error_meaning a =
     (let err = (if fst (an_call a) \<noteq> 0 then snd (an_call a) else int (an_value a))
      in \<lparr>io_error = \<lparr>e_category = Some category_posix, e_value = err\<rparr>, io_size = err\<rparr>)"

definition op_meaning :: "posix_op \<Rightarrow> sys_answer list \<Rightarrow> IOResult option" where
  "op_meaning i as =
     (case i of
        OpConnect x \<Rightarrow>
          if pc_connected x then (case as of [] \<Rightarrow> None | a # _ \<Rightarrow> Some (so_error_meaning a))
          else connect_meaning False (map an_call as)
      | _ \<Rightarrow> (case as of [] \<Rightarrow> None | a # _ \<Rightarrow> call_meaning (an_call a)))"

lemma call_meaning_eq: "convert_to_asyncio_error_code c = call_meaning c"
  by (cases c) (simp add: syscall_wrapper_eq call_meaning_def Error_make_def errnos)

lemma connect_loop_meaning:
  "map_option fst (connect_loop cs (if b then EINTR else 0, if b then r else IOResult_new)) = connect_meaning b cs"
proof (induction cs arbitrary: b r)
  case (Cons c cs)
  show ?case
  proof (cases "fst c = -1 \<and> snd c = EINTR \<or> fst c \<noteq> -1 \<and> b")
    case True
    then obtain r' where "connect_loop (c # cs) (if b then EINTR else 0, if b then r else IOResult_new) = connect_loop cs (EINTR, r')"
      by (auto simp: Let_def)
    moreover have "map_option fst (connect_loop cs (EINTR, r')) = connect_meaning True cs" using Cons.IH [of True r'] by simp
    ultimately show ?thesis using True by auto
  next
    case False
    then show ?thesis by (auto simp: Let_def IOResult_new_def Error_make_def errnos)
  qed
qed simp

lemma op_do_io_meaning:
  assumes "op_do_io i k = Some (r, j, k')"
  shows "op_meaning i (k_answers k) = Some r"
proof (cases i)
  case (OpConnect x)
  show ?thesis
  proof (cases "pc_connected x")
    case True
    then show ?thesis
      using assms OpConnect
      by (auto simp: op_meaning_def so_error_meaning_def PosixConnect_do_io_def sys_call_def Error_make_def bind_Some_iff Let_def split: list.splits)
  next
    case False
    then obtain rest where "ev_connect (map an_call (k_answers k)) = Some (r, rest)"
      using assms OpConnect by (auto simp: PosixConnect_do_io_def engine_connect_def bind_Some_iff Let_def)
    then show ?thesis
      using connect_loop_meaning [of "map an_call (k_answers k)" False] False OpConnect by (simp add: op_meaning_def ev_connect_def)
  qed
next
  case (OpRecvFrom x)
  then obtain len k1 where "engine_recvfrom (rf_handle x) (rf_buffer x) (rf_flags x) (checker_data x) (ck_capacity (rf_address x)) k = Some (r, len, k1)"
    using assms by (auto simp: PosixRecvFrom_do_io_def bind_Some_iff Let_def simp del: if_split)
  then show ?thesis using OpRecvFrom by (auto simp: op_meaning_def engine_recvfrom_def converted_Some call_meaning_eq bind_Some_iff)
qed (use assms in \<open>auto simp: op_meaning_def op_do_io_defs converted_Some call_meaning_eq bind_Some_iff\<close>)

text \<open>
  C15. The detailed operation refines the abstract one, for every class. A poll that comes back is a step of \<^verbatim>\<open>async_io\<close> on the
  result of the operation, the state of its handle and the resumptions of its task, with exactly the result the coming answers of
  the kernel mean (\<open>op_meaning\<close>): the value of a call that succeeds, the \<^verbatim>\<open>errno\<close> and the category of one that fails, and for
  connecting the outcome of \<^verbatim>\<open>connect\<close> and then the error of the socket. The event that fires while it waits is the event of
  \<^verbatim>\<open>async_io\<close>. A suspended operation is registered for its own descriptor and for reading or writing as its class says.
\<close>

theorem posix_refines_async_io:
  assumes "common_ok s w" and "common_poll posix_ops s w = Some (a, s', w')"
  shows "common_ok s' w' \<and>
    async_io_poll (op_meaning (ac_impl s) (k_answers (iw_kernel w))) (common_abs s w) = Some (a, common_abs s' w') \<and>
    (a = IOSuspend \<longrightarrow> ac_handle s' \<in> set (iw_base w') \<and>
      (\<exists>d. iw_handle w' (ac_handle s') = Some d \<and> ed_fd d = op_native_handle (ac_impl s) \<and> ed_flags d = io_flags (op_type (ac_impl s))) \<and>
      (\<exists>w''. common_fire t s' w' = Some w'' \<and> common_ok s' w'' \<and> io_event t (common_abs s' w') = Some (common_abs s' w'')))"
proof -
  have ok: "common_ok s' w'"
    and p: "async_io_poll (map_option fst (op_do_io (ac_impl s) (iw_kernel w))) (common_abs s w) = Some (a, common_abs s' w')"
    using poll_refines [OF assms] by (auto simp: posix_ops_def)
  have "async_io_poll (op_meaning (ac_impl s) (k_answers (iw_kernel w))) (common_abs s w) = Some (a, common_abs s' w')"
  proof (cases "op_do_io (ac_impl s) (iw_kernel w)")
    case None
    then show ?thesis using p by (auto simp: async_io_poll_def split: if_splits)
  next
    case (Some y)
    then show ?thesis using p op_do_io_meaning [of "ac_impl s" "iw_kernel w"] by (cases y) auto
  qed
  moreover have "a = IOSuspend \<longrightarrow> ac_handle s' \<in> set (iw_base w') \<and>
      (\<exists>d. iw_handle w' (ac_handle s') = Some d \<and> ed_fd d = op_native_handle (ac_impl s) \<and> ed_flags d = io_flags (op_type (ac_impl s))) \<and>
      (\<exists>w''. common_fire t s' w' = Some w'' \<and> common_ok s' w'' \<and> io_event t (common_abs s' w') = Some (common_abs s' w''))"
    using posix_class.poll_suspended [OF assms(1)] assms(2) fire_refines [OF ok, of t]
    by (auto simp: posix_ops_def event_new_def)
  ultimately show ?thesis using ok by blast
qed

lemmas poll_eval = common_poll_def posix_ops_def op_do_io_defs converted_def sys_call_def syscall_wrapper_eq awaitable_add_io_def awaitable_add_io_flags_def
  on_engine_def get_event_engine_def add_io_event_def handle_reset_def assign_and_add_def Error_bool_def Error_make_def

theorem posix_refines_async_io_witness:
  "\<exists>s' w' w''. common_poll posix_ops sample_read (world_of [answer (-1) EAGAIN]) = Some (IOSuspend, s', w') \<and>
     map_option ed_fd (iw_handle w' 0) = Some 5 \<and> map_option ed_flags (iw_handle w' 0) = Some EV_READ \<and>
     common_fire False s' w' = Some w'' \<and> ai_resumed (common_abs s' w'') = [Error_default]"
proof -
  obtain s' w' where p: "common_poll posix_ops sample_read (world_of [answer (-1) EAGAIN]) = Some (IOSuspend, s', w')"
      "ac_handle s' = 0" "ai_resumed (common_abs s' w') = []"
    by (simp add: poll_eval sample_read_def world_of_def answer_def PosixRead_new_def engine_new_def errnos common_abs_def)
  have h: "op_native_handle (ac_impl sample_read) = 5" "op_type (ac_impl sample_read) = IOTypeRead"
    by (simp_all add: sample_read_def PosixRead_new_def)
  obtain w'' where f: "common_fire False s' w' = Some w''" "io_event False (common_abs s' w') = Some (common_abs s' w'')"
      "map_option ed_fd (iw_handle w' 0) = Some 5" "map_option ed_flags (iw_handle w' 0) = Some EV_READ"
    using posix_refines_async_io [OF world_of_ok p(1), of False] p(2) h by auto
  have "ai_resumed (common_abs s' w'') = [Error_default]"
    using arg_cong [OF f(2), of "map_option ai_resumed"] p(3)
    by (auto simp: io_event_def event_callback_def io_callback_def bind_Some_iff split: if_splits bind_splits)
  then show ?thesis using p(1) f by blast
qed

text \<open>
  \<^verbatim>\<open>recvfrom\<close> with an address. The address object keeps its size and content while the call would block and when it
  fails; a datagram that arrives stores the address of its sender and the length the kernel reports, and uses up the checker,
  so that its destructor accepts it.
\<close>

theorem recvfrom_address:
  assumes "common_ok s w" and "ac_result s = None" and "ac_impl s = OpRecvFrom (PosixRecvFrom_new fd b flags p (iw_kernel w))"
    and "k_answers (iw_kernel w) = ws @ x # rest" and "\<forall>a \<in> set ws. an_call a = (-1, EAGAIN)"
    and "fst (an_call x) = -1 \<longrightarrow> snd (an_call x) \<notin> {0, EAGAIN, EINTR}"
  shows "\<exists>a s' w' i. common_run posix_ops (Suc (length ws)) s w = Some (a, s', w') \<and> ac_impl s' = OpRecvFrom i \<and>
    k_addrs (iw_kernel w') =
      (if fst (an_call x) = -1 then k_addrs (iw_kernel w)
       else (k_addrs (iw_kernel w))(p := \<lparr>sa_family = fst (an_addr x), sa_data = snd (an_addr x), sa_size = an_value x\<rparr>)) \<and>
    (ck_destroy (rf_address i) = Some () \<longleftrightarrow> fst (an_call x) \<noteq> -1) \<and> ck_destroy (rf_address (PosixRecvFrom_reset i)) = Some ()"
proof -
  let ?i = "PosixRecvFrom_new fd b flags p (iw_kernel w)"
  have i: "ck_addr (rf_address ?i)" "rf_target ?i = p" by (simp_all add: PosixRecvFrom_new_def sa_buffer_def)
  obtain r where r: "convert_to_asyncio_error_code (an_call x) = Some r" "\<not> again r" "Error_bool (io_error r) = (fst (an_call x) = -1)"
    using answer_converted [OF assms(6)] by blast
  have simple: "op_simple (ac_impl s)" using assms(3) i by simp
  obtain j k w1 where run: "op_do_io (ac_impl s) (iw_kernel w1) = Some (r, j, k)" "k_answers (iw_kernel w1) = x # rest"
      "k_addrs (iw_kernel w1) = k_addrs (iw_kernel w)"
      "common_run posix_ops (Suc (length ws)) s w =
        Some (if Error_bool (io_error r) then (IOThrow (io_error r), s\<lparr>ac_impl := j\<rparr>, w1\<lparr>iw_kernel := k\<rparr>)
              else (IOReturn, s\<lparr>ac_impl := j, ac_result := Some (io_size r)\<rparr>, w1\<lparr>iw_kernel := k\<rparr>))"
    using posix_class.run_simple [OF assms(1,2) simple assms(4,5) r(1,2)] by (auto simp: posix_ops_def)
  obtain j' where j': "j = OpRecvFrom j'" "PosixRecvFrom_do_io ?i (iw_kernel w1) = Some (r, j', k)"
    using run(1) assms(3) by auto
  then have "k_addrs k = (if fst (an_call x) = -1 then k_addrs (iw_kernel w)
       else (k_addrs (iw_kernel w))(p := \<lparr>sa_family = fst (an_addr x), sa_data = snd (an_addr x), sa_size = an_value x\<rparr>))"
      "ck_addr (rf_address j') \<longleftrightarrow> fst (an_call x) = -1"
    using recvfrom_answered [OF i(1) run(2) r(1)] r(3) i run(3) by (auto split: if_splits)
  then show ?thesis using run(4) j'(1) r(3) by (auto simp: ck_destroy_def PosixRecvFrom_reset_def)
qed

definition sample_datagram :: sys_answer where
  "sample_datagram = \<lparr>an_call = (7, 0), an_value = 16, an_addr = (AF_INET, replicate 126 1)\<rparr>"

theorem recvfrom_address_witness:
  "\<exists>a s' w'. common_run posix_ops (Suc (Suc 0))
       \<lparr>ac_result = None, ac_impl = OpRecvFrom (PosixRecvFrom_new 4 slice_empty 0 3 (iw_kernel (world_of [answer (-1) EAGAIN, sample_datagram]))),
        ac_handle = 0, ac_callback = 9\<rparr> (world_of [answer (-1) EAGAIN, sample_datagram]) = Some (a, s', w') \<and>
     sa_size (k_addrs (iw_kernel w') 3) = 16 \<and> k_addrs (iw_kernel w') 2 = sa_new"
  using recvfrom_address [of "\<lparr>ac_result = None, ac_impl = OpRecvFrom (PosixRecvFrom_new 4 slice_empty 0 3
        (iw_kernel (world_of [answer (-1) EAGAIN, sample_datagram]))), ac_handle = 0, ac_callback = 9\<rparr>"
      "world_of [answer (-1) EAGAIN, sample_datagram]" 4 slice_empty 0 3 "[answer (-1) EAGAIN]" sample_datagram "[]"]
  by (auto simp: answer_def sample_datagram_def simp del: common_run.simps)

text \<open>Giving an operation a new class with a checker leaves no checker that its destructor would refuse, whatever it held.\<close>

lemma checker_assigned:
  "ck_move_assign k other = (c, rest) \<Longrightarrow> c = other \<and> ck_destroy rest = Some ()"
  "ck_move other = (c, rest) \<Longrightarrow> c = other \<and> ck_destroy rest = Some ()"
  by (auto simp: ck_move_assign_def ck_move_def ck_destroy_def ck_discard_def)

text \<open>A backtrace calls an operation by its system call, except that \<^verbatim>\<open>sendmsg\<close> is called \<^verbatim>\<open>writev\<close>.\<close>

lemma sendmsg_called_writev: "op_type_name (OpSendMsg i) = op_type_name (OpWriteV j)"
  by simp

end
