(* ===== verification/Jinx_Socket.thy ===== *)
theory Jinx_Socket
  imports Jinx_Posix "HOL-Library.Multiset"
begin

text \<open>
  Sockets (\<^verbatim>\<open>Socket\<close> of \<^verbatim>\<open>include/jinx/posix.hpp\<close> and \<^verbatim>\<open>src/posix.cpp\<close>) and the stream on a socket (\<^verbatim>\<open>StreamSocket\<close> of
  \<^verbatim>\<open>include/jinx/streamsocket.hpp\<close>).

  A socket is a number; \<open>sk_handles\<close> has its descriptor and the calls of \<^verbatim>\<open>close\<close>, \<open>sk_kernel\<close> the other system calls.
  \<open>sk_created\<close> and \<open>sk_released\<close> record the descriptors that came from \<^verbatim>\<open>socket\<close> and those given away by \<^verbatim>\<open>release\<close>.
\<close>

unbundle bit_operations_syntax

section \<open>State\<close>

record sockets =
  sk_kernel :: kernel
  sk_handles :: io_handles
  sk_created :: "int list"
  sk_released :: "int list"

abbreviation sk_fd :: "nat \<Rightarrow> sockets \<Rightarrow> int" where
  "sk_fd x s \<equiv> ih_handle (sk_handles s) x"

definition SO_REUSEADDR :: int where "SO_REUSEADDR = 2"
definition SO_SNDBUF :: int where "SO_SNDBUF = 7"
definition SO_RCVBUF :: int where "SO_RCVBUF = 8"
definition SO_KEEPALIVE :: int where "SO_KEEPALIVE = 9"
definition SO_REUSEPORT :: int where "SO_REUSEPORT = 15"
definition O_NONBLOCK :: int where "O_NONBLOCK = 2048"
definition SHUT_WR :: int where "SHUT_WR = 1"
definition SHUT_RDWR :: int where "SHUT_RDWR = 2"
definition MSG_PEEK :: int where "MSG_PEEK = 2"
definition MSG_NOSIGNAL :: int where "MSG_NOSIGNAL = 16384"

text \<open>A system call whose result the source uses as it is.\<close>

definition raw_call :: "sys_request \<Rightarrow> sockets \<Rightarrow> (sys_answer \<times> sockets) option" where
  "raw_call q s = do { (a, k) \<leftarrow> sys_call q (sk_kernel s); Some (a, s\<lparr>sk_kernel := k\<rparr>) }"

definition raw_result :: "sys_request \<Rightarrow> sockets \<Rightarrow> (int \<times> sockets) option" where
  "raw_result q s = do { (a, s1) \<leftarrow> raw_call q s; Some (fst (an_call a), s1) }"

section \<open>Options\<close>

text \<open>\<^verbatim>\<open>size\<close> is 0 until the call stores the option.\<close>

definition get_option_value :: "int \<Rightarrow> nat \<Rightarrow> sockets \<Rightarrow> (int \<times> sockets) option" where
  "get_option_value opt x s =
     do { (a, s1) \<leftarrow> raw_call (SysGetSockOpt (sk_fd x s) opt) s;
          Some (if fst (an_call a) = 0 then int (an_value a) else 0, s1) }"

definition get_receive_buffer_size :: "nat \<Rightarrow> sockets \<Rightarrow> (int \<times> sockets) option" where
  "get_receive_buffer_size x s = get_option_value SO_RCVBUF x s"

definition get_send_buffer_size :: "nat \<Rightarrow> sockets \<Rightarrow> (int \<times> sockets) option" where
  "get_send_buffer_size x s = get_option_value SO_SNDBUF x s"

definition set_receive_buffer_size :: "nat \<Rightarrow> int \<Rightarrow> sockets \<Rightarrow> (int \<times> sockets) option" where
  "set_receive_buffer_size x n s = raw_result (SysSetSockOpt (sk_fd x s) SO_RCVBUF n) s"

definition set_send_buffer_size :: "nat \<Rightarrow> int \<Rightarrow> sockets \<Rightarrow> (int \<times> sockets) option" where
  "set_send_buffer_size x n s = raw_result (SysSetSockOpt (sk_fd x s) SO_SNDBUF n) s"

definition set_reuse_address :: "nat \<Rightarrow> bool \<Rightarrow> sockets \<Rightarrow> (int \<times> sockets) option" where
  "set_reuse_address x enable s = raw_result (SysSetSockOpt (sk_fd x s) SO_REUSEADDR (of_bool enable)) s"

definition set_reuse_port :: "nat \<Rightarrow> bool \<Rightarrow> sockets \<Rightarrow> (int \<times> sockets) option" where
  "set_reuse_port x enable s = raw_result (SysSetSockOpt (sk_fd x s) SO_REUSEPORT (of_bool enable)) s"

definition set_keep_alive :: "nat \<Rightarrow> bool \<Rightarrow> sockets \<Rightarrow> (int \<times> sockets) option" where
  "set_keep_alive x enable s = raw_result (SysSetSockOpt (sk_fd x s) SO_KEEPALIVE (of_bool enable)) s"

text \<open>The result of reading the flags is not looked at.\<close>

definition handle_set_non_blocking :: "nat \<Rightarrow> bool \<Rightarrow> sockets \<Rightarrow> sockets option" where
  "handle_set_non_blocking x enable s =
     do { (flags, s1) \<leftarrow> raw_result (SysGetFlags (sk_fd x s)) s;
          let flags1 = (if enable then flags OR O_NONBLOCK else flags AND NOT O_NONBLOCK);
          (_, s2) \<leftarrow> raw_result (SysSetFlags (sk_fd x s) flags1) s1;
          Some s2 }"

section \<open>Connections\<close>

definition sock_shutdown :: "nat \<Rightarrow> int \<Rightarrow> sockets \<Rightarrow> (int \<times> sockets) option" where
  "sock_shutdown x how s = raw_result (SysShutdown (sk_fd x s) how) s"

definition sock_bind :: "nat \<Rightarrow> SocketAddress \<Rightarrow> sockets \<Rightarrow> (int \<times> sockets) option" where
  "sock_bind x a s = raw_result (SysBind (sk_fd x s) a) s"

definition sock_bind_string :: "inet_pton \<Rightarrow> nat \<Rightarrow> string \<Rightarrow> 16 word \<Rightarrow> sockets \<Rightarrow> (int \<times> sockets) option" where
  "sock_bind_string pton x str port s =
     do { (_, a) \<leftarrow> set_address_port pton str port sa_new; raw_result (SysBind (sk_fd x s) a) s }"

definition sock_listen :: "nat \<Rightarrow> int \<Rightarrow> sockets \<Rightarrow> (int \<times> sockets) option" where
  "sock_listen x backlog s = raw_result (SysListen (sk_fd x s) backlog) s"

definition sock_create :: "nat \<Rightarrow> int \<Rightarrow> int \<Rightarrow> int \<Rightarrow> sockets \<Rightarrow> (int \<times> sockets) option" where
  "sock_create x family ty proto s =
     do { (fd, s1) \<leftarrow> raw_result (SysSocket family ty proto) s;
          h \<leftarrow> ih_reset x fd (sk_handles s1);
          Some (fd, s1\<lparr>sk_handles := h, sk_created := sk_created s1 @ (if fd = -1 then [] else [fd])\<rparr>) }"

text \<open>The destructor shuts the connection down; then \<^verbatim>\<open>~IOHandle\<close> closes the descriptor.\<close>

definition sock_destroy :: "nat \<Rightarrow> sockets \<Rightarrow> sockets option" where
  "sock_destroy x s =
     do { (_, s1) \<leftarrow> raw_result (SysShutdown (sk_fd x s) SHUT_RDWR) s;
          h \<leftarrow> ih_destroy x (sk_handles s1);
          Some (s1\<lparr>sk_handles := h\<rparr>) }"

definition sock_release :: "nat \<Rightarrow> sockets \<Rightarrow> int \<times> sockets" where
  "sock_release x s =
     (let (fd, h) = ih_release x (sk_handles s)
      in (fd, s\<lparr>sk_handles := h, sk_released := sk_released s @ (if fd = -1 then [] else [fd])\<rparr>))"

text \<open>The text of an address; \<open>None\<close> is the output of a buffer that was never written.\<close>

definition address_output :: "(nat \<Rightarrow> 8 word list \<Rightarrow> string) \<Rightarrow> SocketAddress \<Rightarrow> string option" where
  "address_output ntop a = snd (get_address_string ntop a)"

section \<open>Streams on sockets\<close>

text \<open>
  \<^verbatim>\<open>StreamSocket\<close>: \<open>ss_handle\<close> is its descriptor, \<open>ss_buf\<close> the address of its one byte, \<open>ss_recv\<close>, \<open>ss_send\<close> and \<open>ss_socket_recv\<close> its
  operations with the view of the first two.
\<close>

record stream_socket =
  ss_handle :: nat
  ss_buf :: nat
  ss_recv :: "posix_op async_common"
  ss_recv_view :: "BufferView option"
  ss_send :: "posix_op async_common"
  ss_send_view :: "BufferView option"
  ss_socket_recv :: "posix_op async_common"

definition ss_initialize :: "nat \<Rightarrow> stream_socket \<Rightarrow> sockets \<Rightarrow> sockets option" where
  "ss_initialize y t s = do { h \<leftarrow> ih_move_assign (ss_handle t) y (sk_handles s); Some (s\<lparr>sk_handles := h\<rparr>) }"

definition ss_reset :: "stream_socket \<Rightarrow> sockets \<Rightarrow> sockets option" where
  "ss_reset t s = do { h \<leftarrow> ih_reset (ss_handle t) (-1) (sk_handles s); Some (s\<lparr>sk_handles := h\<rparr>) }"

definition ss_read :: "BufferView \<Rightarrow> stream_socket \<Rightarrow> sockets \<Rightarrow> stream_socket" where
  "ss_read v t s =
     t\<lparr>ss_recv := common_call (OpRecv (PosixRecv_new (sk_fd (ss_handle t) s) (slice_for_producer v) 0)) (ss_recv t),
       ss_recv_view := Some v\<rparr>"

definition ss_write :: "BufferView \<Rightarrow> stream_socket \<Rightarrow> sockets \<Rightarrow> stream_socket" where
  "ss_write v t s =
     t\<lparr>ss_send := common_call (OpSend (PosixSend_new (sk_fd (ss_handle t) s) (slice_for_consumer v) MSG_NOSIGNAL)) (ss_send t),
       ss_send_view := Some v\<rparr>"

definition ss_shutdown :: "stream_socket \<Rightarrow> sockets \<Rightarrow> (stream_socket \<times> sockets) option" where
  "ss_shutdown t s =
     do { (_, k) \<leftarrow> engine_shutdown (sk_fd (ss_handle t) s) SHUT_WR (sk_kernel s);
          Some (t\<lparr>ss_socket_recv := common_call (OpRecv (PosixRecv_new (sk_fd (ss_handle t) s) \<lparr>s_data = ss_buf t, s_size = 1\<rparr> MSG_PEEK))
                      (ss_socket_recv t)\<rparr>, s\<lparr>sk_kernel := k\<rparr>) }"

definition ss_recv_finalize :: "stream_socket \<Rightarrow> io_world \<Rightarrow> (stream_socket \<times> io_world) option" where
  "ss_recv_finalize t w =
     do { (op, w1) \<leftarrow> common_finalize posix_ops (ss_recv t) w; Some (t\<lparr>ss_recv := op, ss_recv_view := None\<rparr>, w1) }"

definition ss_send_finalize :: "stream_socket \<Rightarrow> io_world \<Rightarrow> (stream_socket \<times> io_world) option" where
  "ss_send_finalize t w =
     do { (op, w1) \<leftarrow> common_finalize posix_ops (ss_send t) w; Some (t\<lparr>ss_send := op, ss_send_view := None\<rparr>, w1) }"

section \<open>Descriptors are neither lost nor closed twice\<close>

text \<open>A program on sockets. A socket is constructed by a move only where there is none.\<close>

datatype sock_cmd =
    SockCreate nat int int int | SockMove nat nat | SockMoveAssign nat nat | SockRelease nat | SockReset nat | SockDestroy nat
  | SockShutdown nat int | SockListen nat int | SockBind nat SocketAddress

definition on_handles :: "(io_handles \<Rightarrow> io_handles option) \<Rightarrow> sockets \<Rightarrow> sockets option" where
  "on_handles f s = do { h \<leftarrow> f (sk_handles s); Some (s\<lparr>sk_handles := h\<rparr>) }"

fun sock_exec :: "sock_cmd \<Rightarrow> sockets \<Rightarrow> sockets option" where
  "sock_exec (SockCreate x family ty proto) s = map_option snd (sock_create x family ty proto s)"
| "sock_exec (SockMove x y) s = (if sk_fd x s = -1 \<and> x \<noteq> y then on_handles (\<lambda>h. Some (ih_move x y h)) s else None)"
| "sock_exec (SockMoveAssign x y) s = on_handles (ih_move_assign x y) s"
| "sock_exec (SockRelease x) s = Some (snd (sock_release x s))"
| "sock_exec (SockReset x) s = on_handles (ih_reset x (-1)) s"
| "sock_exec (SockDestroy x) s = sock_destroy x s"
| "sock_exec (SockShutdown x how) s = map_option snd (sock_shutdown x how s)"
| "sock_exec (SockListen x backlog) s = map_option snd (sock_listen x backlog s)"
| "sock_exec (SockBind x a) s = map_option snd (sock_bind x a s)"

fun cmd_sockets :: "sock_cmd \<Rightarrow> nat set" where
  "cmd_sockets (SockMove x y) = {x, y}"
| "cmd_sockets (SockMoveAssign x y) = {x, y}"
| "cmd_sockets (SockCreate x family ty proto) = {x}"
| "cmd_sockets (SockRelease x) = {x}"
| "cmd_sockets (SockReset x) = {x}"
| "cmd_sockets (SockDestroy x) = {x}"
| "cmd_sockets (SockShutdown x how) = {x}"
| "cmd_sockets (SockListen x backlog) = {x}"
| "cmd_sockets (SockBind x a) = {x}"

definition held_in :: "nat \<Rightarrow> (nat \<Rightarrow> int) \<Rightarrow> int multiset" where
  "held_in N h = filter_mset (\<lambda>fd. fd \<noteq> -1) (image_mset h (mset_set {..<N}))"

abbreviation held :: "nat \<Rightarrow> sockets \<Rightarrow> int multiset" where
  "held N s \<equiv> held_in N (ih_handle (sk_handles s))"

definition one :: "int \<Rightarrow> int multiset" where
  "one fd = (if fd = -1 then {#} else {#fd#})"

lemma held_upd:
  assumes "x < N"
  shows "held_in N (h(x := fd)) + one (h x) = held_in N h + one fd"
proof -
  have "mset_set {..<N} = add_mset x (mset_set ({..<N} - {x}))"
    using assms by (simp add: mset_set.remove)
  moreover have "image_mset (h(x := fd)) (mset_set ({..<N} - {x})) = image_mset h (mset_set ({..<N} - {x}))"
    by (rule image_mset_cong) auto
  ultimately show ?thesis by (simp add: held_in_def one_def)
qed

lemma close_once:
  assumes "\<forall>c \<in> set calls. \<not> (fst c = -1 \<and> snd c = EINTR)"
  shows "close_loop fd 0 calls closed = (case calls of [] \<Rightarrow> None | c # rest \<Rightarrow> Some (closed @ [fd], rest))"
  using assms by (cases calls) (auto simp: Let_def errnos)

text \<open>Of the handles: what is closed was held, and the coming closes are not interrupted.\<close>

definition uninterrupted :: "io_handles \<Rightarrow> bool" where
  "uninterrupted h \<longleftrightarrow> (\<forall>c \<in> set (ih_closes h). \<not> (fst c = -1 \<and> snd c = EINTR))"

lemma reset_balance:
  assumes "ih_reset x fd h = Some h'" and "x < N" and "uninterrupted h"
  shows "mset (ih_closed h') + held_in N (ih_handle h') = mset (ih_closed h) + held_in N (ih_handle h) + one fd \<and>
    uninterrupted h' \<and> ih_handle h' = (ih_handle h)(x := fd)"
  using assms held_upd [OF assms(2), of "ih_handle h" fd]
  by (auto simp: ih_reset_def uninterrupted_def close_once one_def bind_Some_iff split: if_splits list.splits)

definition balanced :: "nat \<Rightarrow> sockets \<Rightarrow> bool" where
  "balanced N s \<longleftrightarrow> uninterrupted (sk_handles s) \<and>
     mset (sk_created s) = mset (ih_closed (sk_handles s)) + mset (sk_released s) + held N s"

lemma raw_result_handles:
  assumes "raw_result q s = Some (r, s')"
  shows "sk_handles s' = sk_handles s \<and> sk_created s' = sk_created s \<and> sk_released s' = sk_released s"
  using assms by (auto simp: raw_result_def raw_call_def bind_Some_iff)

lemma raw_balanced: "raw_result q s = Some (r, s') \<Longrightarrow> balanced N s \<Longrightarrow> balanced N s'"
  using raw_result_handles by (auto simp: balanced_def)

lemma moved_balance:
  assumes "x < N" "y < N" "h x = -1"
  shows "held_in N (h(x := h y, y := -1)) = held_in N h"
proof (cases "x = y")
  case True
  then have "h(x := h y, y := -1) = h" using assms(3) by auto
  then show ?thesis by simp
next
  case False
  have "held_in N (h(x := h y)) = held_in N h + one (h y)"
    using held_upd [OF assms(1), of h "h y"] assms(3) by (simp add: one_def)
  moreover have "held_in N (h(x := h y, y := -1)) + one (h y) = held_in N (h(x := h y))"
    using held_upd [OF assms(2), of "h(x := h y)" "-1"] False by (simp add: one_def)
  ultimately show ?thesis by simp
qed

lemma reset_balanced:
  assumes "on_handles (ih_reset x (-1)) s = Some s'" and "x < N" and "balanced N s"
  shows "balanced N s' \<and> sk_fd x s' = -1"
  using assms reset_balance [of x "-1" "sk_handles s" _ N]
  by (auto simp: on_handles_def balanced_def bind_Some_iff one_def)

lemma create_balanced:
  assumes "sock_create x family ty proto s = Some (fd, s')" and "x < N" and "balanced N s"
  shows "balanced N s'"
proof -
  obtain s1 h where s1: "raw_result (SysSocket family ty proto) s = Some (fd, s1)" "ih_reset x fd (sk_handles s1) = Some h"
      "s' = s1\<lparr>sk_handles := h, sk_created := sk_created s1 @ (if fd = -1 then [] else [fd])\<rparr>"
    using assms(1) by (auto simp: sock_create_def bind_Some_iff)
  have "balanced N s1" using raw_balanced [OF s1(1) assms(3)] .
  then show ?thesis
    using reset_balance [OF s1(2) assms(2)] s1(3) by (auto simp: balanced_def one_def)
qed

lemma move_assign_balanced:
  assumes "on_handles (ih_move_assign x y) s = Some s'" and "x < N" "y < N" and "balanced N s"
  shows "balanced N s'"
proof -
  obtain s1 where s1: "on_handles (ih_reset x (-1)) s = Some s1" "s' = s1\<lparr>sk_handles := ih_move x y (sk_handles s1)\<rparr>"
    using assms(1) by (auto simp: on_handles_def ih_move_assign_def bind_Some_iff)
  have "balanced N s1" "sk_fd x s1 = -1" using reset_balanced [OF s1(1) assms(2,4)] by auto
  then show ?thesis
    using moved_balance [OF assms(2,3), of "ih_handle (sk_handles s1)"] s1(2) by (simp add: balanced_def uninterrupted_def ih_move_def)
qed

lemma sock_exec_balanced:
  assumes "sock_exec c s = Some s'" and "cmd_sockets c \<subseteq> {..<N}" and "balanced N s"
  shows "balanced N s'"
proof (cases c)
  case (SockCreate x family ty proto)
  then show ?thesis using assms create_balanced by auto
next
  case (SockMove x y)
  then show ?thesis
    using assms moved_balance [of x N y "ih_handle (sk_handles s)"]
    by (auto simp: on_handles_def ih_move_def balanced_def uninterrupted_def split: if_splits)
next
  case (SockMoveAssign x y)
  then show ?thesis using assms move_assign_balanced by auto
next
  case (SockRelease x)
  then show ?thesis
    using assms held_upd [of x N "ih_handle (sk_handles s)" "-1"]
    by (auto simp: sock_release_def ih_release_def balanced_def uninterrupted_def one_def split: if_splits)
next
  case (SockReset x)
  then show ?thesis using assms reset_balanced by auto
next
  case (SockDestroy x)
  then obtain r s1 where s1: "raw_result (SysShutdown (sk_fd x s) SHUT_RDWR) s = Some (r, s1)" "on_handles (ih_reset x (-1)) s1 = Some s'"
    using assms(1) by (auto simp: sock_destroy_def ih_destroy_def on_handles_def bind_Some_iff)
  then show ?thesis using raw_balanced [OF s1(1) assms(3)] reset_balanced [OF s1(2)] SockDestroy assms(2) by auto
qed (use assms raw_balanced in \<open>auto simp: sock_shutdown_def sock_listen_def sock_bind_def\<close>)

lemma run_balanced:
  assumes "run_all sock_exec cs s = Some s'" and "\<forall>c \<in> set cs. cmd_sockets c \<subseteq> {..<N}" and "balanced N s"
  shows "balanced N s'"
  using assms
proof (induction cs arbitrary: s)
  case (Cons c cs)
  then obtain s1 where s1: "sock_exec c s = Some s1" "run_all sock_exec cs s1 = Some s'" by (auto simp: bind_Some_iff)
  have "balanced N s1" using sock_exec_balanced [OF s1(1)] Cons.prems(2,3) by simp
  then show ?case using Cons.IH [OF s1(2)] Cons.prems(2) by simp
qed simp

definition sockets_new :: "sys_answer list \<Rightarrow> syscall list \<Rightarrow> sockets" where
  "sockets_new as closes =
     \<lparr>sk_kernel = \<lparr>k_answers = as, k_requests = [], k_addrs = \<lambda>_. sa_new\<rparr>,
      sk_handles = \<lparr>ih_handle = \<lambda>_. -1, ih_closed = [], ih_closes = closes\<rparr>, sk_created = [], sk_released = []\<rparr>"

text \<open>
  C16. Sockets own their descriptors. Whatever a program does with sockets (creating over an old one, moving, assigning,
  releasing, resetting, destroying), the descriptors that came from \<^verbatim>\<open>socket\<close> are exactly those that were closed, each once,
  those that were released, and those still held by a socket; as long as no close is interrupted by a signal.
\<close>

theorem sockets_own_descriptors:
  assumes "run_all sock_exec cs (sockets_new as closes) = Some s" and "\<forall>c \<in> set cs. cmd_sockets c \<subseteq> {..<N}"
    and "\<forall>c \<in> set closes. \<not> (fst c = -1 \<and> snd c = EINTR)"
  shows "mset (sk_created s) = mset (ih_closed (sk_handles s)) + mset (sk_released s) +
    filter_mset (\<lambda>fd. fd \<noteq> -1) (image_mset (\<lambda>x. sk_fd x s) (mset_set {..<N}))"
proof -
  have "balanced N (sockets_new as closes)"
    using assms(3) by (auto simp: balanced_def uninterrupted_def sockets_new_def held_in_def)
  then have "balanced N s" using run_balanced [OF assms(1)] assms(2) by simp
  then show ?thesis by (simp add: balanced_def held_in_def)
qed

theorem sockets_own_descriptors_witness:
  "\<exists>s. run_all sock_exec [SockCreate 0 2 1 0, SockMove 1 0, SockCreate 0 2 1 0, SockMoveAssign 0 1, SockDestroy 0]
       (sockets_new [answer 5 0, answer 6 0, answer 0 0] [(0, 0), (0, 0)]) = Some s \<and>
     sk_created s = [5, 6] \<and> mset (ih_closed (sk_handles s)) = {#5, 6#}"
proof -
  let ?cs = "[SockCreate 0 2 1 0, SockMove 1 0, SockCreate 0 2 1 0, SockMoveAssign 0 1, SockDestroy 0]"
    and ?s = "sockets_new [answer 5 0, answer 6 0, answer 0 0] [(0, 0), (0, 0)]"
  obtain s where s: "run_all sock_exec ?cs ?s = Some s" "sk_created s = [5, 6]" "sk_released s = []" "\<forall>x < 2. sk_fd x s = -1"
    by (simp add: sock_create_def raw_result_def raw_call_def sys_call_def sockets_new_def answer_def ih_reset_def on_handles_def
        ih_move_def ih_move_assign_def sock_destroy_def ih_destroy_def errnos)
  have "filter_mset (\<lambda>fd. fd \<noteq> -1) (image_mset (\<lambda>x. sk_fd x s) (mset_set {..<2})) = {#}"
    using s(4) by (auto simp: filter_mset_eq_conv)
  then show ?thesis using sockets_own_descriptors [OF s(1), of 2] s by auto
qed

section \<open>Binding and shutting down\<close>

lemma raw_result_Some:
  "k_answers (sk_kernel s) = a # as \<Longrightarrow>
   raw_result q s = Some (fst (an_call a), s\<lparr>sk_kernel := (sk_kernel s)\<lparr>k_answers := as, k_requests := k_requests (sk_kernel s) @ [q]\<rparr>\<rparr>)"
  by (simp add: raw_result_def raw_call_def sys_call_def)

text \<open>
  Binding to an address given as text makes one call of \<^verbatim>\<open>bind\<close>, with the complete address if the text is one; but
  a text that is no address is not reported: \<^verbatim>\<open>bind\<close> is called with an address of size 0.
\<close>

lemma bind_string_request:
  assumes "pton_ok pton" and "k_answers (sk_kernel s) = a # as"
  shows "\<exists>addr s'. sock_bind_string pton x str port s = Some (fst (an_call a), s') \<and>
    k_requests (sk_kernel s') = k_requests (sk_kernel s) @ [SysBind (sk_fd x s) addr] \<and>
    sa_size addr = (if fst (pton AF_INET str) = 1 then 16 else if fst (pton AF_INET6 str) = 1 then 28 else 0)"
proof -
  have p: "fst (pton AF_INET str) \<in> {0, 1}" "fst (pton AF_INET6 str) \<in> {0, 1}" using assms(1) by (auto simp: pton_ok_def)
  have "\<exists>r addr. set_address_port pton str port sa_new = Some (r, addr) \<and>
      sa_size addr = (if fst (pton AF_INET str) = 1 then 16 else if fst (pton AF_INET6 str) = 1 then 28 else 0)"
    using p by (auto simp: set_address_port_def set_address_def set_port_def store_pton_def families Let_def sa_new_def sa_reset_def)
  then show ?thesis using assms(2) by (auto simp: sock_bind_string_def raw_result_Some)
qed

text \<open>
  Shutting a stream down ends the sending direction and then waits, with a receive that takes nothing, until the peer has sent
  a byte or closed, or an error occurs.
\<close>

theorem stream_shutdown_waits:
  assumes "k_answers (sk_kernel s) = z # ws @ x # rest" and "\<not> (fst (an_call z) = -1 \<and> snd (an_call z) = EINTR)"
    and "\<forall>a \<in> set ws. an_call a = (-1, EAGAIN)" and "fst (an_call x) = -1 \<longrightarrow> snd (an_call x) \<notin> {0, EAGAIN, EINTR}"
    and "common_ok (ss_socket_recv t) \<lparr>iw_kernel = sk_kernel s, iw_engine = e\<rparr>"
  shows "\<exists>t' s' a op w. ss_shutdown t s = Some (t', s') \<and>
    common_run posix_ops (Suc (length ws)) (ss_socket_recv t') \<lparr>iw_kernel = sk_kernel s', iw_engine = e\<rparr> = Some (a, op, w) \<and>
    k_requests (iw_kernel w) = k_requests (sk_kernel s) @ SysShutdown (sk_fd (ss_handle t) s) SHUT_WR #
      replicate (Suc (length ws)) (SysRecv (sk_fd (ss_handle t) s) (ss_buf t) 1 MSG_PEEK) \<and>
    (if fst (an_call x) = -1 then a = IOThrow (Error_make (snd (an_call x)) category_posix)
     else a = IOReturn \<and> ac_result op = Some (fst (an_call x)))"
proof -
  let ?fd = "sk_fd (ss_handle t) s"
  obtain r0 where r0: "convert_to_asyncio_error_code (an_call z) = Some r0"
    using assms(2) by (cases "an_call z") (auto simp: syscall_wrapper_eq)
  let ?k = "(sk_kernel s)\<lparr>k_answers := ws @ x # rest, k_requests := k_requests (sk_kernel s) @ [SysShutdown ?fd SHUT_WR]\<rparr>"
  let ?op = "OpRecv (PosixRecv_new ?fd \<lparr>s_data = ss_buf t, s_size = 1\<rparr> MSG_PEEK)"
  let ?t = "t\<lparr>ss_socket_recv := common_call ?op (ss_socket_recv t)\<rparr>"
  let ?w = "\<lparr>iw_kernel = ?k, iw_engine = e\<rparr>"
  have sh: "ss_shutdown t s = Some (?t, s\<lparr>sk_kernel := ?k\<rparr>)"
    using assms(1) answered_plain [OF assms(1) r0] by (simp add: ss_shutdown_def engine_shutdown_def forget_def)
  obtain r where r: "convert_to_asyncio_error_code (an_call x) = Some r" "\<not> again r" "io_size r = fst (an_call x)"
      "Error_bool (io_error r) = (fst (an_call x) = -1)" "fst (an_call x) = -1 \<longrightarrow> io_error r = Error_make (snd (an_call x)) category_posix"
    using answer_converted [OF assms(4)] by blast
  have ok: "common_ok (ss_socket_recv ?t) ?w" using assms(5) by (simp add: common_ok_def common_call_def)
  have impl: "ac_result (ss_socket_recv ?t) = None" "ac_impl (ss_socket_recv ?t) = ?op" "op_simple (ac_impl (ss_socket_recv ?t))"
    by (simp_all add: common_call_def)
  show ?thesis
    using posix_class.run_simple [OF ok impl(1,3), of ws x rest r] assms(3) r sh impl(2) by (auto simp: PosixRecv_new_def)
qed

section \<open>Flags and output\<close>

text \<open>
  The flag for non-blocking descriptors is set or cleared and no other flag of the descriptor changes. But a failure to
  read the flags goes unnoticed: then -1 without the flag, or with it, is written as the new flags.
\<close>

lemma non_blocking_flags:
  assumes "k_answers (sk_kernel s) = a # b # as"
  shows "\<exists>s' flags. handle_set_non_blocking x enable s = Some s' \<and>
    k_requests (sk_kernel s') = k_requests (sk_kernel s) @ [SysGetFlags (sk_fd x s), SysSetFlags (sk_fd x s) flags] \<and>
    bit flags n = (if n = 11 then enable else bit (fst (an_call a)) n)"
proof -
  have "bit O_NONBLOCK n = bit ((2::int) ^ 11) n" by (simp add: O_NONBLOCK_def)
  moreover have "bit ((2::int) ^ 11) n = (n = 11)" by (subst bit_exp_iff) auto
  ultimately have "bit O_NONBLOCK n = (n = 11)" by simp
  then show ?thesis
    using assms by (auto simp: handle_set_non_blocking_def raw_result_Some Let_def bit_simps)
qed

lemma failed_flags_written:
  assumes "k_answers (sk_kernel s) = a # b # as" and "fst (an_call a) = -1"
  shows "\<exists>s'. handle_set_non_blocking x True s = Some s' \<and>
    k_requests (sk_kernel s') = k_requests (sk_kernel s) @ [SysGetFlags (sk_fd x s), SysSetFlags (sk_fd x s) (-1)]"
  using assms by (simp add: handle_set_non_blocking_def raw_result_Some Let_def)

text \<open>An address of another family is written out from a buffer nothing was stored in.\<close>

lemma output_of_other_family: "address_output ntop a = None \<longleftrightarrow> sa_family a \<notin> {AF_INET, AF_INET6}"
  by (auto simp: address_output_def get_address_string_def)

end
