(* ===== verification/Jinx_Dns.thy ===== *)
theory Jinx_Dns
  imports Jinx_AsyncIO
begin

text \<open>
  The resolver (\<^verbatim>\<open>AsyncResolve\<close> of \<^verbatim>\<open>libs/evdns/include/jinx/evdns/evdns.hpp\<close>).

  The library evdns of libevent is outside. Of it the model has what its documentation says: starting a
  resolution gives a request or a null pointer (\<open>dn_starts\<close>, the coming outcomes); a request is pending until its callback runs
  or it is cancelled; only a pending request may be cancelled. A reply has the result, the type and the addresses, which are missing
  if the resolution failed. \<open>None\<close> is an \<^verbatim>\<open>error::fatal\<close>, an access through a null pointer, or the use of a request that is
  no longer pending.
\<close>

section \<open>State\<close>

datatype DNSType = DNS_A | DNS_AAAA

definition EVDNS_TYPE_A :: int where "EVDNS_TYPE_A = 1"
definition EVDNS_TYPE_AAAA :: int where "EVDNS_TYPE_AAAA = 28"

record evdns =
  dn_starts :: "nat option list"
  dn_pending :: "nat list"
  dn_queries :: "(string \<times> DNSType) list"

record dns_reply =
  rp_result :: int
  rp_type :: int
  rp_addresses :: "int list option"

record async_resolve =
  rs_request :: "nat option"
  rs_buffer :: "int list"
  rs_done :: bool
  rs_resumed :: nat

section \<open>Operations\<close>

text \<open>The library: a query for the address of the given type, and the cancellation of a pending request.\<close>

definition evdns_resolve :: "string \<Rightarrow> DNSType \<Rightarrow> evdns \<Rightarrow> (nat option \<times> evdns) option" where
  "evdns_resolve name ty d =
     (case dn_starts d of
        [] \<Rightarrow> None
      | r # rs \<Rightarrow> Some (r, d\<lparr>dn_starts := rs, dn_pending := (case r of None \<Rightarrow> dn_pending d | Some q \<Rightarrow> q # dn_pending d),
                             dn_queries := dn_queries d @ [(name, ty)]\<rparr>))"

definition evdns_cancel_request :: "nat \<Rightarrow> evdns \<Rightarrow> evdns option" where
  "evdns_cancel_request q d = (if q \<in> set (dn_pending d) then Some (d\<lparr>dn_pending := remove1 q (dn_pending d)\<rparr>) else None)"

definition resolve_call :: "string \<Rightarrow> DNSType \<Rightarrow> async_resolve \<Rightarrow> evdns \<Rightarrow> (async_resolve \<times> evdns) option" where
  "resolve_call name type s d =
     do { (r, d1) \<leftarrow> evdns_resolve name DNS_A d; Some (s\<lparr>rs_done := False, rs_request := r\<rparr>, d1) }"

definition get_address :: "async_resolve \<Rightarrow> int list" where
  "get_address s = rs_buffer s"

definition resolve_finalize :: "async_resolve \<Rightarrow> evdns \<Rightarrow> (async_resolve \<times> evdns) option" where
  "resolve_finalize s d =
     (case rs_request s of
        None \<Rightarrow> Some (s, d)
      | Some q \<Rightarrow> do { d1 \<leftarrow> evdns_cancel_request q d; Some (s\<lparr>rs_request := None\<rparr>, d1) })"

definition resolve_poll :: "async_resolve \<Rightarrow> io_action" where
  "resolve_poll s =
     (if rs_request s = None then IOThrow (Error_make (value_ErrorEvdns ErrorEvdns_Failed) category_evdns)
      else if rs_done s then IOReturn else IOSuspend)"

text \<open>\<^verbatim>\<open>memcpy\<close> of \<open>n\<close> bytes to the start of the buffer.\<close>

definition copied :: "nat \<Rightarrow> int list option \<Rightarrow> int list \<Rightarrow> int list option" where
  "copied n addresses buf =
     (case addresses of
        None \<Rightarrow> None
      | Some bs \<Rightarrow> if n \<le> length bs then Some (take n bs @ drop n buf) else None)"

definition resolve_callback :: "dns_reply \<Rightarrow> async_resolve \<Rightarrow> async_resolve option" where
  "resolve_callback r s =
     do { buf \<leftarrow> (if rp_type r = EVDNS_TYPE_A then copied 4 (rp_addresses r) (rs_buffer s)
                  else if rp_type r = EVDNS_TYPE_AAAA then copied 16 (rp_addresses r) (rs_buffer s)
                  else None);
          let s1 = s\<lparr>rs_buffer := buf\<rparr>;
          let s2 = (if rs_request s1 \<noteq> None then s1\<lparr>rs_resumed := rs_resumed s1 + 1\<rparr> else s1);
          Some (s2\<lparr>rs_done := True\<rparr>) }"

text \<open>The library delivers the reply to a pending request.\<close>

definition evdns_deliver :: "dns_reply \<Rightarrow> nat \<Rightarrow> async_resolve \<Rightarrow> evdns \<Rightarrow> (async_resolve \<times> evdns) option" where
  "evdns_deliver r q s d =
     (if q \<in> set (dn_pending d)
      then do { s1 \<leftarrow> resolve_callback r s; Some (s1, d\<lparr>dn_pending := remove1 q (dn_pending d)\<rparr>) }
      else None)"

section \<open>Properties\<close>

text \<open>
  A resolution that succeeds. It starts one query, suspends, is resumed exactly once by the reply, returns, and then its buffer
  starts with the first address of the reply. A resolution that could not be started throws.
\<close>

theorem resolve_succeeds:
  assumes "dn_starts d = Some q # rs" and "q \<notin> set (dn_pending d)"
    and "rp_type r = EVDNS_TYPE_A" and "rp_addresses r = Some bs" and "length bs \<ge> 4" and "length (rs_buffer s) = 16"
  shows "\<exists>s1 d1 s2 d2. resolve_call name type s d = Some (s1, d1) \<and> resolve_poll s1 = IOSuspend \<and>
    evdns_deliver r q s1 d1 = Some (s2, d2) \<and> rs_resumed s2 = rs_resumed s + 1 \<and> resolve_poll s2 = IOReturn \<and>
    take 4 (get_address s2) = take 4 bs \<and> length (get_address s2) = 16 \<and> dn_pending d2 = dn_pending d"
  using assms
  by (simp add: resolve_call_def evdns_resolve_def resolve_poll_def evdns_deliver_def resolve_callback_def copied_def get_address_def)

theorem resolve_succeeds_witness:
  "\<exists>s1 d1 s2 d2. resolve_call ''whoyouare'' DNS_A \<lparr>rs_request = None, rs_buffer = replicate 16 0, rs_done = False, rs_resumed = 0\<rparr>
       \<lparr>dn_starts = [Some 7], dn_pending = [], dn_queries = []\<rparr> = Some (s1, d1) \<and>
     evdns_deliver \<lparr>rp_result = 0, rp_type = 1, rp_addresses = Some [1, 2, 3, 4]\<rparr> 7 s1 d1 = Some (s2, d2) \<and>
     take 4 (get_address s2) = [1, 2, 3, 4]"
  using resolve_succeeds [of "\<lparr>dn_starts = [Some 7], dn_pending = [], dn_queries = []\<rparr>" 7 "[]"
      "\<lparr>rp_result = 0, rp_type = 1, rp_addresses = Some [1, 2, 3, 4]\<rparr>" "[1, 2, 3, 4]"
      "\<lparr>rs_request = None, rs_buffer = replicate 16 0, rs_done = False, rs_resumed = 0\<rparr>" "''whoyouare''" DNS_A]
  by (auto simp: EVDNS_TYPE_A_def)

lemma resolve_not_started:
  assumes "dn_starts d = None # rs"
  shows "\<exists>s1 d1. resolve_call name type s d = Some (s1, d1) \<and> (\<exists>e. resolve_poll s1 = IOThrow e) \<and> resolve_finalize s1 d1 = Some (s1, d1)"
  using assms by (simp add: resolve_call_def evdns_resolve_def resolve_poll_def resolve_finalize_def)

text \<open>An operation that is abandoned while it waits cancels its request, and then holds none.\<close>

lemma resolve_cancelled:
  assumes "dn_starts d = Some q # rs" and "q \<notin> set (dn_pending d)"
  shows "\<exists>s1 d1 s2 d2. resolve_call name type s d = Some (s1, d1) \<and> resolve_finalize s1 d1 = Some (s2, d2) \<and>
    rs_request s2 = None \<and> dn_pending d2 = dn_pending d"
  using assms by (simp add: resolve_call_def evdns_resolve_def resolve_finalize_def evdns_cancel_request_def)

text \<open>
  Failures. The result of a reply is never looked at: a reply without addresses stops the program, whatever its
  result and type; so does the cancellation, which is reported to the callback by such a reply.
\<close>

theorem failed_resolution_is_fatal:
  assumes "rp_addresses r = None"
  shows "resolve_callback r s = None"
  using assms by (simp add: resolve_callback_def copied_def)

text \<open>
  After its reply the operation still holds the request. Finalizing it, as happens to every operation that
  returns, cancels a request that is no longer pending.
\<close>

theorem finished_request_is_cancelled:
  assumes "resolve_call name type s d = Some (s1, d1)" and "rs_request s1 = Some q" and "distinct (dn_pending d1)"
    and "evdns_deliver r q s1 d1 = Some (s2, d2)"
  shows "resolve_poll s2 = IOReturn \<and> resolve_finalize s2 d2 = None"
  using assms
  by (auto simp: evdns_deliver_def resolve_callback_def resolve_finalize_def evdns_cancel_request_def resolve_poll_def bind_Some_iff
      split: if_splits)

theorem finished_request_is_cancelled_witness:
  "\<exists>s1 d1 s2 d2. resolve_call ''a'' DNS_A \<lparr>rs_request = None, rs_buffer = replicate 16 0, rs_done = False, rs_resumed = 0\<rparr>
       \<lparr>dn_starts = [Some 7], dn_pending = [], dn_queries = []\<rparr> = Some (s1, d1) \<and>
     evdns_deliver \<lparr>rp_result = 0, rp_type = 1, rp_addresses = Some [1, 2, 3, 4]\<rparr> 7 s1 d1 = Some (s2, d2) \<and> resolve_finalize s2 d2 = None"
proof -
  let ?r = "\<lparr>rp_result = 0, rp_type = 1, rp_addresses = Some [1, 2, 3, 4]\<rparr>"
  obtain s1 d1 s2 d2 where c: "resolve_call ''a'' DNS_A \<lparr>rs_request = None, rs_buffer = replicate 16 0, rs_done = False, rs_resumed = 0\<rparr>
      \<lparr>dn_starts = [Some 7], dn_pending = [], dn_queries = []\<rparr> = Some (s1, d1)" "rs_request s1 = Some 7" "dn_pending d1 = [7]"
      "evdns_deliver ?r 7 s1 d1 = Some (s2, d2)"
    by (simp add: resolve_call_def evdns_resolve_def evdns_deliver_def resolve_callback_def copied_def EVDNS_TYPE_A_def)
  then show ?thesis using finished_request_is_cancelled [OF c(1,2) _ c(4)] by auto
qed

text \<open>The type is ignored: every query is for an IPv4 address.\<close>

lemma query_is_always_ipv4:
  assumes "resolve_call name type s d = Some (s1, d1)"
  shows "dn_queries d1 = dn_queries d @ [(name, DNS_A)]"
  using assms by (auto simp: resolve_call_def evdns_resolve_def bind_Some_iff split: list.splits)

end
