(* ===== verification/Jinx_Raii.thy ===== *)
theory Jinx_Raii
  imports Jinx_Tls "HOL-Library.Multiset" "HOL-Library.Monad_Syntax"
begin

text \<open>
  Owners of foreign objects: the classes made by \<^verbatim>\<open>JINX_RAII_SIMPLE_OBJECT\<close> and \<^verbatim>\<open>JINX_RAII_SHARED_OBJECT\<close>
  (\<^verbatim>\<open>include/jinx/raii.hpp\<close>), and \<^verbatim>\<open>JSON_String\<close> and \<^verbatim>\<open>JSON_Object\<close> (\<^verbatim>\<open>libs/cjson/include/jinx/cjson/cjson.hpp\<close>).

  Owners and objects are numbers; \<open>ow_obj\<close> gives the pointer in an owner, \<open>ow_freed\<close> logs the calls of the function that frees
  an object. The function that frees is foreign: the model only records its calls. cJSON is foreign too: a printed text is the
  pointer it returns.
\<close>

section \<open>Simple owners\<close>

record owners =
  ow_obj :: "nat \<Rightarrow> nat option"
  ow_freed :: "nat list"

definition set_obj :: "nat \<Rightarrow> nat option \<Rightarrow> owners \<Rightarrow> owners" where
  "set_obj x p s = s\<lparr>ow_obj := (ow_obj s)(x := p)\<rparr>"

definition raii_new :: "nat \<Rightarrow> nat option \<Rightarrow> owners \<Rightarrow> owners" where
  "raii_new x p s = set_obj x p s"

definition raii_reset :: "nat \<Rightarrow> owners \<Rightarrow> owners" where
  "raii_reset x s =
     (case ow_obj s x of None \<Rightarrow> s | Some p \<Rightarrow> set_obj x None (s\<lparr>ow_freed := ow_freed s @ [p]\<rparr>))"

definition raii_release :: "nat \<Rightarrow> owners \<Rightarrow> nat option \<times> owners" where
  "raii_release x s = (ow_obj s x, set_obj x None s)"

definition raii_move :: "nat \<Rightarrow> nat \<Rightarrow> owners \<Rightarrow> owners" where
  "raii_move x y s = (let (p, s1) = raii_release y s in set_obj x p s1)"

definition raii_move_assign :: "nat \<Rightarrow> nat \<Rightarrow> owners \<Rightarrow> owners" where
  "raii_move_assign x y s = (let (p, s1) = raii_release y (raii_reset x s) in set_obj x p s1)"

definition raii_assign :: "nat \<Rightarrow> nat option \<Rightarrow> owners \<Rightarrow> owners" where
  "raii_assign x p s = set_obj x p (raii_reset x s)"

definition raii_destroy :: "nat \<Rightarrow> owners \<Rightarrow> owners" where
  "raii_destroy x s = raii_reset x s"

definition raii_bool :: "nat \<Rightarrow> owners \<Rightarrow> bool" where
  "raii_bool x s \<longleftrightarrow> ow_obj s x \<noteq> None"

section \<open>Shared owners\<close>

text \<open>
  Variables, objects and counts are those of the shared pointers; the foreign functions count up and down, and destroy an object
  with its last reference. Unlike \<^verbatim>\<open>free\<close> of the OpenSSL objects, \<^verbatim>\<open>unref\<close> leaves the pointer in the variable.
\<close>

definition shared_ref :: "nat \<Rightarrow> pointers \<Rightarrow> pointers option" where
  "shared_ref x s =
     (case ps_ptr s x of
        None \<Rightarrow> Some s
      | Some ob \<Rightarrow> do { refc \<leftarrow> ps_heap s ob; Some (s\<lparr>ps_heap := (ps_heap s)(ob \<mapsto> refc + 1)\<rparr>) })"

definition shared_unref :: "nat \<Rightarrow> pointers \<Rightarrow> pointers option" where
  "shared_unref x s =
     (case ps_ptr s x of
        None \<Rightarrow> Some s
      | Some ob \<Rightarrow>
          do { refc \<leftarrow> ps_heap s ob;
               Some (if refc = 1
                     then s\<lparr>ps_heap := (ps_heap s)(ob := None), ps_released := ps_released s @ [ob]\<rparr>
                     else s\<lparr>ps_heap := (ps_heap s)(ob \<mapsto> refc - 1)\<rparr>) })"

definition shared_new :: "nat \<Rightarrow> nat option \<Rightarrow> pointers \<Rightarrow> pointers" where
  "shared_new x p s = set_ptr x p s"

definition shared_copy :: "nat \<Rightarrow> nat \<Rightarrow> pointers \<Rightarrow> pointers option" where
  "shared_copy x y s = shared_ref x (set_ptr x (ps_ptr s y) s)"

definition shared_release :: "nat \<Rightarrow> pointers \<Rightarrow> nat option \<times> pointers" where
  "shared_release x s = (ps_ptr s x, set_ptr x None s)"

definition shared_move :: "nat \<Rightarrow> nat \<Rightarrow> pointers \<Rightarrow> pointers" where
  "shared_move x y s = (let (p, s1) = shared_release y s in set_ptr x p s1)"

text \<open>The destructor: afterwards the variable does not exist, which is the null value here.\<close>

definition shared_destroy :: "nat \<Rightarrow> pointers \<Rightarrow> pointers option" where
  "shared_destroy x s = map_option (set_ptr x None) (shared_unref x s)"

definition shared_copy_assign :: "nat \<Rightarrow> nat \<Rightarrow> pointers \<Rightarrow> pointers option" where
  "shared_copy_assign x y s = do { s1 \<leftarrow> shared_unref x s; shared_ref x (set_ptr x (ps_ptr s1 y) s1) }"

definition shared_move_assign :: "nat \<Rightarrow> nat \<Rightarrow> pointers \<Rightarrow> pointers option" where
  "shared_move_assign x y s = do { s1 \<leftarrow> shared_unref x s; let (p, s2) = shared_release y s1; Some (set_ptr x p s2) }"

definition shared_reset :: "nat \<Rightarrow> pointers \<Rightarrow> pointers option" where
  "shared_reset x s = do { s1 \<leftarrow> shared_unref x s; Some (set_ptr x None s1) }"

definition shared_reset_to :: "nat \<Rightarrow> nat option \<Rightarrow> pointers \<Rightarrow> pointers option" where
  "shared_reset_to x p s = do { s1 \<leftarrow> shared_unref x s; Some (set_ptr x p s1) }"

section \<open>JSON\<close>

text \<open>Two families of owners: texts are freed by \<^verbatim>\<open>free\<close>, objects by \<^verbatim>\<open>cJSON_Delete\<close>.\<close>

record json =
  js_strings :: owners
  js_objects :: owners

definition on_strings :: "(owners \<Rightarrow> owners) \<Rightarrow> json \<Rightarrow> json" where
  "on_strings f w = w\<lparr>js_strings := f (js_strings w)\<rparr>"

definition on_objects :: "(owners \<Rightarrow> owners) \<Rightarrow> json \<Rightarrow> json" where
  "on_objects f w = w\<lparr>js_objects := f (js_objects w)\<rparr>"

definition json_string_new :: "nat \<Rightarrow> nat option \<Rightarrow> json \<Rightarrow> json" where
  "json_string_new x p w = on_strings (set_obj x p) w"

definition json_string_free :: "nat \<Rightarrow> json \<Rightarrow> json" where
  "json_string_free x w =
     (case ow_obj (js_strings w) x of
        None \<Rightarrow> w
      | Some p \<Rightarrow> on_strings (\<lambda>s. set_obj x None (s\<lparr>ow_freed := ow_freed s @ [p]\<rparr>)) w)"

definition json_string_release :: "nat \<Rightarrow> json \<Rightarrow> nat option \<times> json" where
  "json_string_release x w = (ow_obj (js_strings w) x, on_strings (set_obj x None) w)"

definition json_string_move :: "nat \<Rightarrow> nat \<Rightarrow> json \<Rightarrow> json" where
  "json_string_move x y w = (let (p, w1) = json_string_release y w in on_strings (set_obj x p) w1)"

definition json_string_assign :: "nat \<Rightarrow> nat \<Rightarrow> json \<Rightarrow> json" where
  "json_string_assign x y w = (let (p, w1) = json_string_release y (json_string_free x w) in on_strings (set_obj x p) w1)"

definition json_string_destroy :: "nat \<Rightarrow> json \<Rightarrow> json" where
  "json_string_destroy x w = json_string_free x w"

definition json_object_new :: "nat \<Rightarrow> nat option \<Rightarrow> json \<Rightarrow> json" where
  "json_object_new x p w = on_objects (set_obj x p) w"

definition json_object_free :: "nat \<Rightarrow> json \<Rightarrow> json" where
  "json_object_free x w =
     (case ow_obj (js_objects w) x of
        None \<Rightarrow> w
      | Some p \<Rightarrow> on_objects (\<lambda>s. set_obj x None (s\<lparr>ow_freed := ow_freed s @ [p]\<rparr>)) w)"

definition json_object_release :: "nat \<Rightarrow> json \<Rightarrow> nat option \<times> json" where
  "json_object_release x w = (ow_obj (js_objects w) x, on_objects (set_obj x None) w)"

definition json_object_move :: "nat \<Rightarrow> nat \<Rightarrow> json \<Rightarrow> json" where
  "json_object_move x y w = (let (p, w1) = json_object_release y w in on_objects (set_obj x p) w1)"

definition json_object_assign :: "nat \<Rightarrow> nat \<Rightarrow> json \<Rightarrow> json" where
  "json_object_assign x y w = (let (p, w1) = json_object_release y (json_object_free x w) in on_objects (set_obj x p) w1)"

definition json_object_destroy :: "nat \<Rightarrow> json \<Rightarrow> json" where
  "json_object_destroy x w = json_object_free x w"

text \<open>\<open>cprint\<close> is \<^verbatim>\<open>cJSON_Print\<close> or \<^verbatim>\<open>cJSON_PrintUnformatted\<close>: the new text, or a null pointer; the owner of the text is \<open>z\<close>.\<close>

definition json_print :: "(nat option \<Rightarrow> nat option) \<Rightarrow> nat \<Rightarrow> nat \<Rightarrow> json \<Rightarrow> json" where
  "json_print cprint z x w = json_string_new z (cprint (ow_obj (js_objects w) x)) w"

definition json_print_unformatted :: "(nat option \<Rightarrow> nat option) \<Rightarrow> nat \<Rightarrow> nat \<Rightarrow> json \<Rightarrow> json" where
  "json_print_unformatted cprint z x w = json_string_new z (cprint (ow_obj (js_objects w) x)) w"

section \<open>The contract of an owner\<close>

text \<open>A program on owners: an owner is constructed only where there is none.\<close>

record 's owner_ops =
  oo_new :: "nat \<Rightarrow> nat option \<Rightarrow> 's \<Rightarrow> 's"
  oo_move :: "nat \<Rightarrow> nat \<Rightarrow> 's \<Rightarrow> 's"
  oo_move_assign :: "nat \<Rightarrow> nat \<Rightarrow> 's \<Rightarrow> 's"
  oo_release :: "nat \<Rightarrow> 's \<Rightarrow> nat option \<times> 's"
  oo_free :: "nat \<Rightarrow> 's \<Rightarrow> 's"
  oo_destroy :: "nat \<Rightarrow> 's \<Rightarrow> 's"

datatype owner_cmd = OwnNew nat "nat option" | OwnMove nat nat | OwnMoveAssign nat nat | OwnRelease nat | OwnFree nat | OwnDestroy nat

text \<open>The state with the objects that owners were given and those they gave away.\<close>

fun owner_exec ::
    "('s \<Rightarrow> nat \<Rightarrow> nat option) \<Rightarrow> 's owner_ops \<Rightarrow> owner_cmd \<Rightarrow> 's \<times> nat list \<times> nat list \<Rightarrow> ('s \<times> nat list \<times> nat list) option" where
  "owner_exec held ops (OwnNew x p) (s, given, away) =
     (if held s x = None then Some (oo_new ops x p s, given @ (case p of None \<Rightarrow> [] | Some v \<Rightarrow> [v]), away) else None)"
| "owner_exec held ops (OwnMove x y) (s, given, away) =
     (if held s x = None \<and> x \<noteq> y then Some (oo_move ops x y s, given, away) else None)"
| "owner_exec held ops (OwnMoveAssign x y) (s, given, away) = Some (oo_move_assign ops x y s, given, away)"
| "owner_exec held ops (OwnRelease x) (s, given, away) =
     (let (p, s1) = oo_release ops x s in Some (s1, given, away @ (case p of None \<Rightarrow> [] | Some v \<Rightarrow> [v])))"
| "owner_exec held ops (OwnFree x) (s, given, away) = Some (oo_free ops x s, given, away)"
| "owner_exec held ops (OwnDestroy x) (s, given, away) = Some (oo_destroy ops x s, given, away)"

fun owner_cmd_owners :: "owner_cmd \<Rightarrow> nat set" where
  "owner_cmd_owners (OwnNew x p) = {x}"
| "owner_cmd_owners (OwnMove x y) = {x, y}"
| "owner_cmd_owners (OwnMoveAssign x y) = {x, y}"
| "owner_cmd_owners (OwnRelease x) = {x}"
| "owner_cmd_owners (OwnFree x) = {x}"
| "owner_cmd_owners (OwnDestroy x) = {x}"

definition objs :: "nat option \<Rightarrow> nat list" where
  "objs p = (case p of None \<Rightarrow> [] | Some v \<Rightarrow> [v])"

definition owned :: "nat \<Rightarrow> (nat \<Rightarrow> nat option) \<Rightarrow> nat multiset" where
  "owned N h = (\<Sum>x<N. mset (objs (h x)))"

lemma owned_upd:
  assumes "x < N"
  shows "owned N (h(x := p)) + mset (objs (h x)) = owned N h + mset (objs p)"
proof -
  have "owned N g = mset (objs (g x)) + (\<Sum>y\<in>{..<N} - {x}. mset (objs (g y)))" for g
    using assms by (simp add: owned_def sum.remove)
  moreover have "(\<Sum>y\<in>{..<N} - {x}. mset (objs ((h(x := p)) y))) = (\<Sum>y\<in>{..<N} - {x}. mset (objs (h y)))"
    by (rule sum.cong) auto
  ultimately show ?thesis by simp
qed

lemma owned_move:
  assumes "x < N" and "y < N"
  shows "owned N (h(x := h y, y := None)) + mset (objs (h x)) = owned N h"
proof (cases "x = y")
  case True
  then show ?thesis using owned_upd [OF assms(1), of h None] by (simp add: objs_def)
next
  case False
  let ?A = "owned N (h(x := h y, y := None))"
  have "?A + mset (objs (h x)) + mset (objs (h y)) = ?A + mset (objs (h y)) + mset (objs (h x))" by (simp add: ac_simps)
  also have "?A + mset (objs (h y)) = owned N (h(x := h y))"
    using owned_upd [OF assms(2), of "h(x := h y)" None] False by (simp add: objs_def)
  also have "owned N (h(x := h y)) + mset (objs (h x)) = owned N h + mset (objs (h y))" by (rule owned_upd [OF assms(1)])
  finally show ?thesis by (rule add_right_imp_eq)
qed

lemma owned_empty [simp]: "owned N (\<lambda>_. None) = {#}"
  by (simp add: owned_def objs_def)

locale owner =
  fixes held :: "'s \<Rightarrow> nat \<Rightarrow> nat option"
    and freed :: "'s \<Rightarrow> nat list"
    and ops :: "'s owner_ops"
  assumes new: "held (oo_new ops x p s) = (held s)(x := p)" "freed (oo_new ops x p s) = freed s"
    and free: "held (oo_free ops x s) = (held s)(x := None)" "freed (oo_free ops x s) = freed s @ objs (held s x)"
    and destroy: "oo_destroy ops x s = oo_free ops x s"
    and release: "fst (oo_release ops x s) = held s x" "held (snd (oo_release ops x s)) = (held s)(x := None)"
      "freed (snd (oo_release ops x s)) = freed s"
    and move: "x \<noteq> y \<Longrightarrow> held (oo_move ops x y s) = (held s)(x := held s y, y := None)" "freed (oo_move ops x y s) = freed s"
    and move_assign: "held (oo_move_assign ops x y s) = (held s)(x := held s y, y := None)"
      "freed (oo_move_assign ops x y s) = freed s @ objs (held s x)"
begin

lemma exec_balance:
  assumes "owner_exec held ops c (s, given, away) = Some (s', given', away')" and "owner_cmd_owners c \<subseteq> {..<N}"
    and "mset given = mset (freed s) + mset away + owned N (held s)"
  shows "mset given' = mset (freed s') + mset away' + owned N (held s')"
proof (cases c)
  case (OwnNew x p)
  then show ?thesis
    using assms owned_upd [of x N "held s" p] by (auto simp: new objs_def split: if_splits option.splits)
next
  case (OwnMove x y)
  then show ?thesis using assms owned_move [of x N y "held s"] by (auto simp: move objs_def split: if_splits)
next
  case (OwnMoveAssign x y)
  then show ?thesis using assms owned_move [of x N y "held s"] by (auto simp: move_assign ac_simps)
next
  case (OwnRelease x)
  then show ?thesis
    using assms owned_upd [of x N "held s" None] release [of x s]
    by (auto simp: objs_def split: prod.splits option.splits)
next
  case (OwnFree x)
  then show ?thesis using assms owned_upd [of x N "held s" None] by (auto simp: free objs_def ac_simps)
next
  case (OwnDestroy x)
  then show ?thesis using assms owned_upd [of x N "held s" None] by (auto simp: destroy free objs_def ac_simps)
qed

lemma run_balance:
  assumes "run_all (owner_exec held ops) cs (s, given, away) = Some (s', given', away')"
    and "\<forall>c \<in> set cs. owner_cmd_owners c \<subseteq> {..<N}" and "mset given = mset (freed s) + mset away + owned N (held s)"
  shows "mset given' = mset (freed s') + mset away' + owned N (held s')"
  using assms
proof (induction cs arbitrary: s given away)
  case (Cons c cs)
  then obtain s1 given1 away1 where c: "owner_exec held ops c (s, given, away) = Some (s1, given1, away1)"
      "run_all (owner_exec held ops) cs (s1, given1, away1) = Some (s', given', away')"
    by (auto simp: bind_Some_iff)
  show ?case using Cons.IH [OF c(2)] exec_balance [OF c(1)] Cons.prems(2,3) by simp
qed simp

lemma self_assignment_frees:
  assumes "held s x = Some p"
  shows "held (oo_move_assign ops x x s) x = None \<and> freed (oo_move_assign ops x x s) = freed s @ [p]"
  using assms by (simp add: move_assign objs_def)

end

definition simple_ops :: "owners owner_ops" where
  "simple_ops = \<lparr>oo_new = raii_new, oo_move = raii_move, oo_move_assign = raii_move_assign, oo_release = raii_release,
     oo_free = raii_reset, oo_destroy = raii_destroy\<rparr>"

definition json_string_ops :: "json owner_ops" where
  "json_string_ops = \<lparr>oo_new = json_string_new, oo_move = json_string_move, oo_move_assign = json_string_assign,
     oo_release = json_string_release, oo_free = json_string_free, oo_destroy = json_string_destroy\<rparr>"

definition json_object_ops :: "json owner_ops" where
  "json_object_ops = \<lparr>oo_new = json_object_new, oo_move = json_object_move, oo_move_assign = json_object_assign,
     oo_release = json_object_release, oo_free = json_object_free, oo_destroy = json_object_destroy\<rparr>"

lemmas simple_defs = simple_ops_def raii_new_def raii_reset_def raii_release_def raii_move_def raii_move_assign_def raii_destroy_def
  set_obj_def objs_def

lemmas json_defs = json_string_ops_def json_string_new_def json_string_free_def json_string_release_def json_string_move_def
  json_string_assign_def json_string_destroy_def json_object_ops_def json_object_new_def json_object_free_def
  json_object_release_def json_object_move_def json_object_assign_def json_object_destroy_def on_strings_def on_objects_def
  set_obj_def objs_def

interpretation simple_owner: owner ow_obj ow_freed simple_ops
  by unfold_locales (auto simp: simple_defs fun_upd_idem split: option.splits)

interpretation json_string: owner "\<lambda>w. ow_obj (js_strings w)" "\<lambda>w. ow_freed (js_strings w)" json_string_ops
  by unfold_locales (auto simp: json_defs fun_upd_idem split: option.splits)

interpretation json_object: owner "\<lambda>w. ow_obj (js_objects w)" "\<lambda>w. ow_freed (js_objects w)" json_object_ops
  by unfold_locales (auto simp: json_defs fun_upd_idem split: option.splits)

section \<open>Nothing is lost or freed twice\<close>

text \<open>
  C19. Simple owners. Whatever a program does with owners (constructing, moving, assigning, releasing, freeing, destroying), the
  objects that were given to owners are exactly those that were freed, each once, those that were given away, and those an
  owner still holds. The same holds for the texts and the objects of JSON.
\<close>

theorem owners_conserve_objects:
  assumes "\<forall>c \<in> set cs. owner_cmd_owners c \<subseteq> {..<N}"
  shows "(run_all (owner_exec ow_obj simple_ops) cs (\<lparr>ow_obj = \<lambda>_. None, ow_freed = []\<rparr>, [], []) = Some (s, given, away) \<longrightarrow>
      mset given = mset (ow_freed s) + mset away + (\<Sum>x<N. mset (objs (ow_obj s x)))) \<and>
    (run_all (owner_exec (\<lambda>w. ow_obj (js_strings w)) json_string_ops) cs
        (\<lparr>js_strings = \<lparr>ow_obj = \<lambda>_. None, ow_freed = []\<rparr>, js_objects = os\<rparr>, [], []) = Some (w, given, away) \<longrightarrow>
      mset given = mset (ow_freed (js_strings w)) + mset away + (\<Sum>x<N. mset (objs (ow_obj (js_strings w) x)))) \<and>
    (run_all (owner_exec (\<lambda>w. ow_obj (js_objects w)) json_object_ops) cs
        (\<lparr>js_strings = ss, js_objects = \<lparr>ow_obj = \<lambda>_. None, ow_freed = []\<rparr>\<rparr>, [], []) = Some (w, given, away) \<longrightarrow>
      mset given = mset (ow_freed (js_objects w)) + mset away + (\<Sum>x<N. mset (objs (ow_obj (js_objects w) x))))"
  using simple_owner.run_balance [OF _ assms] json_string.run_balance [OF _ assms] json_object.run_balance [OF _ assms]
  unfolding owned_def [symmetric] by simp

theorem owners_conserve_objects_witness:
  "\<exists>s. run_all (owner_exec ow_obj simple_ops) [OwnNew 0 (Some 7), OwnMove 1 0, OwnNew 0 (Some 8), OwnMoveAssign 0 1, OwnDestroy 0]
       (\<lparr>ow_obj = \<lambda>_. None, ow_freed = []\<rparr>, [], []) = Some (s, [7, 8], []) \<and> mset (ow_freed s) = {#7, 8#}"
proof -
  let ?cs = "[OwnNew 0 (Some 7), OwnMove 1 0, OwnNew 0 (Some 8), OwnMoveAssign 0 1, OwnDestroy 0]"
  obtain s where s: "run_all (owner_exec ow_obj simple_ops) ?cs (\<lparr>ow_obj = \<lambda>_. None, ow_freed = []\<rparr>, [], []) = Some (s, [7, 8], [])"
      "\<forall>x < 2. ow_obj s x = None"
    by (simp add: simple_defs)
  have "(\<Sum>x<2. mset (objs (ow_obj s x))) = {#}" using s(2) by (simp add: objs_def)
  then show ?thesis using owners_conserve_objects [of ?cs 2 s "[7, 8]" "[]"] s(1) by (auto simp del: sum_eq_empty_iff)
qed

section \<open>Shared owners are counted\<close>

lemma shared_is_openssl:
  "shared_copy x y s = os_copy x y s" "shared_move x y s = os_move x y s" "shared_destroy x s = os_destroy x s"
  "shared_reset_to x p s = os_reset x p s"
  "x \<noteq> y \<Longrightarrow> shared_copy_assign x y s = os_copy_assign x y s" "x \<noteq> y \<Longrightarrow> shared_move_assign x y s = os_move_assign x y s"
proof -
  have free: "os_free x s = map_option (set_ptr x None) (shared_unref x s)"
    by (auto simp: os_free_def shared_unref_def set_ptr_def fun_upd_idem Let_def split: option.splits bind_splits)
  have ref: "shared_ref = os_up_ref" by (intro ext) (simp add: shared_ref_def os_up_ref_def)
  have set: "set_ptr x p (set_ptr x None t) = set_ptr x p t" for p t by (simp add: set_ptr_def)
  show "shared_copy x y s = os_copy x y s" by (simp add: shared_copy_def os_copy_def ref)
  show "shared_move x y s = os_move x y s" by (simp add: shared_move_def os_move_def shared_release_def os_release_def)
  show "shared_destroy x s = os_destroy x s" by (simp add: shared_destroy_def os_destroy_def free)
  show "shared_reset_to x p s = os_reset x p s"
    by (simp add: shared_reset_to_def os_reset_def free set bind_map_option comp_def)
  show "shared_copy_assign x y s = os_copy_assign x y s" if "x \<noteq> y"
    using that by (simp add: shared_copy_assign_def os_copy_assign_def free ref set bind_map_option comp_def)
  show "shared_move_assign x y s = os_move_assign x y s" if "x \<noteq> y"
    using that by (simp add: shared_move_assign_def os_move_assign_def free shared_release_def os_release_def bind_map_option comp_def Let_def)
      (simp add: set_ptr_def fun_upd_twist)
qed

text \<open>
  Shared owners keep the count of every object equal to the number of its owners, as the OpenSSL objects do: an object is
  destroyed exactly with its last owner and never used after that. The assignments need two different owners.
\<close>

theorem shared_objects_are_counted:
  assumes "ps_inv F raw s" and "x \<in> F" and "y \<in> F" and "x \<noteq> y"
  shows "(\<exists>s'. shared_destroy x s = Some s' \<and> ps_inv F raw s' \<and> ps_released s' = ps_released s @
        (case ps_ptr s x of Some ob \<Rightarrow> if owners F s ob + raw ob = 1 then [ob] else [] | None \<Rightarrow> [])) \<and>
    (\<exists>s'. shared_copy_assign x y s = Some s' \<and> ps_inv F raw s' \<and> ps_ptr s' = (ps_ptr s)(x := ps_ptr s y)) \<and>
    (\<exists>s'. shared_move_assign x y s = Some s' \<and> ps_inv F raw s' \<and> ps_ptr s' = (ps_ptr s)(y := None, x := ps_ptr s y)) \<and>
    (ps_ptr s x = None \<longrightarrow> ps_inv F raw (shared_move x y s) \<and> (\<exists>s'. shared_copy x y s = Some s' \<and> ps_inv F raw s'))"
proof -
  obtain s1 where s1: "os_free x s = Some s1" "ps_inv F raw s1" "ps_ptr s1 = (ps_ptr s)(x := None)"
      "ps_released s1 = ps_released s @
        (case ps_ptr s x of Some ob \<Rightarrow> if owners F s ob + raw ob = 1 then [ob] else [] | None \<Rightarrow> [])"
    using os_free_drops [OF assms(1,2)] by blast
  have null: "ps_ptr s1 x = None" using s1(3) by simp
  obtain s2 where "os_up_ref x (set_ptr x (ps_ptr s1 y) s1) = Some s2" "ps_inv F raw s2" "ps_ptr s2 = (ps_ptr s1)(x := ps_ptr s1 y)"
    using os_copies [OF s1(2) assms(2) null] by blast
  moreover have "ps_inv F raw (os_move x y s) \<and> (\<exists>s'. os_copy x y s = Some s' \<and> ps_inv F raw s')" if "ps_ptr s x = None"
    using os_moves [OF assms(1,2) that, of y] os_copies [OF assms(1,2) that, of y] by (auto simp: os_move_def os_release_def os_copy_def)
  ultimately show ?thesis
    using s1 assms(4) os_moves [OF s1(2) assms(2) null, of y]
    by (auto simp: shared_is_openssl os_destroy_def os_copy_assign_def os_move_assign_def os_release_def)
qed

text \<open>
  An owner assigned to itself is not safe. Copying the only owner of an object onto itself counts an object that was just
  destroyed; moving an owner onto itself gives back its reference but keeps the pointer; and so does a direct call of \<^verbatim>\<open>unref\<close>,
  after which the destructor gives the reference back again.
\<close>

lemma shared_self_copy: "ps_ptr s x = Some ob \<Longrightarrow> ps_heap s ob = Some 1 \<Longrightarrow> shared_copy_assign x x s = None"
  by (simp add: shared_copy_assign_def shared_unref_def shared_ref_def set_ptr_def)

lemma shared_self_move:
  "ps_ptr s x = Some ob \<Longrightarrow> ps_heap s ob = Some n \<Longrightarrow> n \<noteq> 1 \<Longrightarrow>
   \<exists>s'. shared_move_assign x x s = Some s' \<and> ps_ptr s' x = Some ob \<and> ps_heap s' ob = Some (n - 1)"
  by (simp add: shared_move_assign_def shared_unref_def shared_release_def set_ptr_def)

lemma shared_unref_then_destroy:
  "ps_ptr s x = Some ob \<Longrightarrow> ps_heap s ob = Some 1 \<Longrightarrow> Option.bind (shared_unref x s) (shared_destroy x) = None"
  by (simp add: shared_unref_def shared_destroy_def)

end
