(* ===== verification/Jinx_Spawn.thy ===== *)
theory Jinx_Spawn
  imports Jinx_Engine Jinx_Pool
begin

text \<open>
  How tasks come into being and end: the classes \<^verbatim>\<open>TaskStatic\<close>, \<^verbatim>\<open>TaskHeap\<close>, \<^verbatim>\<open>TaskEntry\<close>, \<^verbatim>\<open>TaskTagged\<close> and \<^verbatim>\<open>TaskBound\<close>
  (\<^verbatim>\<open>include/jinx/async/task.hpp\<close>), \<^verbatim>\<open>TaskBufferred\<close> (\<^verbatim>\<open>include/jinx/buffer.hpp\<close>), and \<^verbatim>\<open>task_new\<close>, \<^verbatim>\<open>task_create\<close> and
  \<^verbatim>\<open>task_allocate\<close> of \<^verbatim>\<open>Awaitable\<close> (\<^verbatim>\<open>include/jinx/async/awaitable.ipp\<close>) and \<^verbatim>\<open>Loop\<close>.

  The state is that of the engine with the class of every task, the tasks that were destroyed, the task each
  task is bound to, and the pool that buffered tasks live in. The awaitable in a task is the object \<open>n\<close>;
  \<open>start\<close> is the call of its \<^verbatim>\<open>operator()\<close>. \<open>pops\<close> and \<open>sz\<close> are those of the pool. \<open>None\<close> is an \<^verbatim>\<open>error::fatal\<close>, a failed assertion or
  a null dereference.
\<close>

section \<open>Classes of tasks\<close>

datatype task_class = TaskPlain | TaskStatic | TaskHeap | TaskBufferred nat

record ('u, 'm, 'tag) spawner =
  sp_world :: "'u world"
  sp_class :: "nat \<Rightarrow> task_class"
  sp_tag :: "nat \<Rightarrow> 'tag"
  sp_bound :: "nat \<Rightarrow> nat option"
  sp_destroyed :: "nat list"
  sp_pool :: "'m pool"

type_synonym ('u, 'm, 'tag) spawn = "('u, 'm, 'tag) spawner"

definition on_world :: "('u world \<Rightarrow> 'u world) \<Rightarrow> ('u, 'm, 'tag) spawn \<Rightarrow> ('u, 'm, 'tag) spawn" where
  "on_world f s = s\<lparr>sp_world := f (sp_world s)\<rparr>"

definition refs :: "nat \<Rightarrow> ('u, 'm, 'tag) spawn \<Rightarrow> int" where
  "refs t s = t_refc (tasks (sp_world s) t)"

text \<open>\<^verbatim>\<open>destroy_task\<close> of a buffered task: the buffer is given back after the task was destroyed.\<close>

definition bufferred_destroy_task ::
    "'m provider_ops \<Rightarrow> nat \<Rightarrow> nat \<Rightarrow> nat \<Rightarrow> ('u, 'm, 'tag) spawn \<Rightarrow> ('u, 'm, 'tag) spawn option" where
  "bufferred_destroy_task pops sz b t s =
     do { let s1 = s\<lparr>sp_destroyed := sp_destroyed s @ [t]\<rparr>;
          p \<leftarrow> buffer_unref pops sz b (sp_pool s1);
          Some (s1\<lparr>sp_pool := p\<rparr>) }"

text \<open>\<^verbatim>\<open>shared_pointer_release\<close>: what the last reference does depends on the class.\<close>

definition task_release ::
    "'m provider_ops \<Rightarrow> nat \<Rightarrow> nat \<Rightarrow> ('u, 'm, 'tag) spawn \<Rightarrow> ('u, 'm, 'tag) spawn option" where
  "task_release pops sz t s =
     (case sp_class s t of
        TaskPlain \<Rightarrow> None
      | TaskStatic \<Rightarrow> Some s
      | TaskHeap \<Rightarrow> Some (s\<lparr>sp_destroyed := sp_destroyed s @ [t]\<rparr>)
      | TaskBufferred b \<Rightarrow> bufferred_destroy_task pops sz b t s)"

text \<open>
  \<^verbatim>\<open>PointerShared<Task>::unref\<close>: when one reference is left, a bound task is let go, which may be the last or the last but one
  reference to it.
\<close>

partial_function (option) ptr_unref ::
    "'m provider_ops \<Rightarrow> nat \<Rightarrow> nat \<Rightarrow> ('u, 'm, 'tag) spawn \<Rightarrow> ('u, 'm, 'tag) spawn option" where
  "ptr_unref pops sz t s =
     do { w \<leftarrow> task_unref t (sp_world s);
          let s1 = s\<lparr>sp_world := w\<rparr>;
          if refs t s = 1 then task_release pops sz t s1
          else if refs t s = 2
          then (case sp_bound s1 t of
                  None \<Rightarrow> Some s1
                | Some b \<Rightarrow> do { s2 \<leftarrow> ptr_unref pops sz b s1; Some (s2\<lparr>sp_bound := (sp_bound s2)(t := None)\<rparr>) })
          else Some s1 }"

definition ptr_ref :: "nat \<Rightarrow> ('u, 'm, 'tag) spawn \<Rightarrow> ('u, 'm, 'tag) spawn option" where
  "ptr_ref t s = do { w \<leftarrow> task_ref t (sp_world s); Some (s\<lparr>sp_world := w\<rparr>) }"

definition get_task :: "awt \<Rightarrow> ('u, 'm, 'tag) spawn \<Rightarrow> (nat \<times> ('u, 'm, 'tag) spawn) option" where
  "get_task a s = do { t \<leftarrow> aw_task (aws (sp_world s) a); s1 \<leftarrow> ptr_ref t s; Some (t, s1) }"

text \<open>\<^verbatim>\<open>~TaskStatic\<close>.\<close>

definition static_destructor :: "nat \<Rightarrow> ('u, 'm, 'tag) spawn \<Rightarrow> ('u, 'm, 'tag) spawn option" where
  "static_destructor t s =
     (let s1 = on_world (upd_task t (\<lambda>x. x\<lparr>t_refc := t_refc x - 1\<rparr>)) s
      in if refs t s \<noteq> 1 then None else Some (s1\<lparr>sp_destroyed := sp_destroyed s1 @ [t]\<rparr>))"

definition set_tag :: "nat \<Rightarrow> 'tag \<Rightarrow> ('u, 'm, 'tag) spawn \<Rightarrow> ('u, 'm, 'tag) spawn" where
  "set_tag t v s = s\<lparr>sp_tag := (sp_tag s)(t := v)\<rparr>"

definition get_tag :: "nat \<Rightarrow> ('u, 'm, 'tag) spawn \<Rightarrow> 'tag" where
  "get_tag t s = sp_tag s t"

section \<open>Making tasks\<close>

text \<open>A new task object has one reference and is in no queue.\<close>

definition task_construct :: "task_class \<Rightarrow> nat \<Rightarrow> ('u, 'm, 'tag) spawn \<Rightarrow> ('u, 'm, 'tag) spawn" where
  "task_construct c t s =
     on_world (\<lambda>w. upd_task t (\<lambda>_. \<lparr>t_refc = 1, t_state = Suspended, t_top = None, t_queued = False, t_exception = None,
                                    t_exc = None, t_destroyed = False\<rparr>) w)
       (s\<lparr>sp_class := (sp_class s)(t := c), sp_bound := (sp_bound s)(t := None)\<rparr>)"

text \<open>\<^verbatim>\<open>new(std::nothrow)\<close>: \<open>mem\<close> is the task it makes, if there is memory.\<close>

definition new_task :: "nat option \<Rightarrow> ('u, 'm, 'tag) spawn \<Rightarrow> nat option \<times> ('u, 'm, 'tag) spawn" where
  "new_task mem s = (case mem of None \<Rightarrow> (None, s) | Some t \<Rightarrow> (Some t, task_construct TaskHeap t s))"

definition entry_call :: "('u \<Rightarrow> 'u) \<Rightarrow> nat \<Rightarrow> nat \<Rightarrow> ('u, 'm, 'tag) spawn \<Rightarrow> ('u, 'm, 'tag) spawn" where
  "entry_call start t n s = on_world (\<lambda>w. Task_init t n (w\<lparr>user := start (user w)\<rparr>)) s"

definition spawn_on :: "nat \<Rightarrow> ('u, 'm, 'tag) spawn \<Rightarrow> (SuccessfulFailed \<times> ('u, 'm, 'tag) spawn) option" where
  "spawn_on t s = do { (r, w) \<leftarrow> TaskQueue_spawn t (sp_world s); Some (r, s\<lparr>sp_world := w\<rparr>) }"

definition loop_task_new ::
    "('u \<Rightarrow> 'u) \<Rightarrow> nat option \<Rightarrow> nat \<Rightarrow> ('u, 'm, 'tag) spawn \<Rightarrow> (nat option \<times> ('u, 'm, 'tag) spawn) option" where
  "loop_task_new start mem n s =
     (case new_task mem s of
        (None, s1) \<Rightarrow> Some (None, s1)
      | (Some t, s1) \<Rightarrow> do { (_, s2) \<leftarrow> spawn_on t (entry_call start t n s1); Some (Some t, s2) })"

definition loop_task_create_static :: "nat \<Rightarrow> ('u, 'm, 'tag) spawn \<Rightarrow> (SuccessfulFailed \<times> ('u, 'm, 'tag) spawn) option" where
  "loop_task_create_static t s = spawn_on t s"

definition loop_task_create :: "nat \<Rightarrow> ('u, 'm, 'tag) spawn \<Rightarrow> (SuccessfulFailed \<times> ('u, 'm, 'tag) spawn) option" where
  "loop_task_create t s = spawn_on t s"

text \<open>The members of \<^verbatim>\<open>Awaitable\<close> reach the queue through the task of the awaitable.\<close>

definition in_queue :: "awt \<Rightarrow> ('u, 'm, 'tag) spawn \<Rightarrow> bool" where
  "in_queue a s \<longleftrightarrow> (\<exists>t \<in> set_option (aw_task (aws (sp_world s) a)). t_queued (tasks (sp_world s) t))"

definition awaitable_task_new ::
    "('u \<Rightarrow> 'u) \<Rightarrow> awt \<Rightarrow> nat option \<Rightarrow> nat \<Rightarrow> ('u, 'm, 'tag) spawn \<Rightarrow> (nat option \<times> ('u, 'm, 'tag) spawn) option" where
  "awaitable_task_new start a mem n s =
     (case new_task mem s of
        (None, s1) \<Rightarrow> Some (None, s1)
      | (Some t, s1) \<Rightarrow>
          let s2 = entry_call start t n s1
          in if in_queue a s2 then do { (_, s3) \<leftarrow> spawn_on t s2; Some (Some t, s3) } else None)"

definition awaitable_task_create_static ::
    "awt \<Rightarrow> nat \<Rightarrow> ('u, 'm, 'tag) spawn \<Rightarrow> (SuccessfulFailed \<times> ('u, 'm, 'tag) spawn) option" where
  "awaitable_task_create_static a t s = (if in_queue a s then spawn_on t s else None)"

definition awaitable_task_create ::
    "awt \<Rightarrow> nat \<Rightarrow> ('u, 'm, 'tag) spawn \<Rightarrow> (SuccessfulFailed \<times> ('u, 'm, 'tag) spawn) option" where
  "awaitable_task_create a t s = (if in_queue a s then spawn_on t s else None)"

text \<open>
  \<^verbatim>\<open>TaskBufferred::allocate\<close>: the task is built in a buffer of the pool, at its address; \<open>align\<close> and \<open>tsize\<close> are the alignment and the size of its
  type. The reference of the local pointer goes at the end, that of the buffer stays with the task.
\<close>

definition bufferred_allocate ::
    "'m provider_ops \<Rightarrow> nat \<Rightarrow> nat \<Rightarrow> nat \<Rightarrow> ('u \<Rightarrow> 'u) \<Rightarrow> nat \<Rightarrow> ('u, 'm, 'tag) spawn \<Rightarrow> (SuccessfulFailed \<times> ('u, 'm, 'tag) spawn) option" where
  "bufferred_allocate pops sz align tsize start n s =
     do { (b, p) \<leftarrow> pool_allocate pops sz (sp_pool s);
          let s1 = s\<lparr>sp_pool := p\<rparr>;
          (case b of
             None \<Rightarrow> Some (Failed, s1)
           | Some a \<Rightarrow>
               do { m \<leftarrow> bp_memory p a;
                    let offset = bv_memory (m_view m) mod align;
                    let (r, v) = (if offset \<noteq> 0 then bv_cut offset (m_view m) else (Successful, m_view m));
                    if r = Failed
                    then do { p1 \<leftarrow> buffer_unref pops sz a p; Some (Failed, s\<lparr>sp_pool := p1\<rparr>) }
                    else if bv_memory_size v < tsize then None
                    else do { let s2 = s1\<lparr>sp_pool := p\<lparr>bp_memory := (bp_memory p)(a \<mapsto> m\<lparr>m_view := v\<rparr>)\<rparr>\<rparr>;
                              let t = bv_memory v;
                              let s3 = entry_call start t n (task_construct (TaskBufferred a) t s2);
                              (_, s4) \<leftarrow> spawn_on t s3;
                              s5 \<leftarrow> ptr_unref pops sz t s4;
                              Some (Successful, s5) } }) }"

definition awaitable_task_allocate where
  "awaitable_task_allocate pops sz align tsize start n a s =
     (if in_queue a s then bufferred_allocate pops sz align tsize start n s else None)"

definition loop_task_allocate where
  "loop_task_allocate pops sz align tsize start n s = bufferred_allocate pops sz align tsize start n s"

text \<open>The queue lets a task go: \<^verbatim>\<open>TaskQueue::pop\<close> with the release the engine leaves to the class.\<close>

definition queue_pop ::
    "'m provider_ops \<Rightarrow> nat \<Rightarrow> nat \<Rightarrow> ('u, 'm, 'tag) spawn \<Rightarrow> (SuccessfulFailed \<times> ('u, 'm, 'tag) spawn) option" where
  "queue_pop pops sz t s =
     do { (r, l) \<leftarrow> erase (Node t) (tasks_all (sp_world s));
          let s1 = on_world (\<lambda>w. w\<lparr>tasks_all := l\<rparr>) s;
          if r = Failed then Some (Failed, s1)
          else do { s2 \<leftarrow> ptr_unref pops sz t (on_world (upd_task t (\<lambda>x. x\<lparr>t_queued := False\<rparr>)) s1); Some (Successful, s2) } }"

section \<open>References\<close>

lemma on_world_fields [simp]:
  "sp_world (on_world f s) = f (sp_world s)" "sp_class (on_world f s) = sp_class s" "sp_bound (on_world f s) = sp_bound s"
  "sp_destroyed (on_world f s) = sp_destroyed s" "sp_pool (on_world f s) = sp_pool s" "sp_tag (on_world f s) = sp_tag s"
  by (simp_all add: on_world_def)

lemma unref_more:
  assumes "refs t s > 1" and "refs t s = 2 \<longrightarrow> sp_bound s t = None"
  shows "ptr_unref pops sz t s = Some (on_world (upd_task t (\<lambda>x. x\<lparr>t_refc := t_refc x - 1\<rparr>)) s)"
  using assms by (subst ptr_unref.simps) (auto simp: refs_def task_unref_def Let_def on_world_def)

lemma unref_one:
  assumes "refs t s = 1"
  shows "ptr_unref pops sz t s =
    task_release pops sz t (on_world (upd_task t (\<lambda>x. x\<lparr>t_refc := t_refc x - 1, t_destroyed := True\<rparr>)) s)"
  using assms by (subst ptr_unref.simps) (auto simp: refs_def task_unref_def Let_def on_world_def upd_task_def)

text \<open>
  When only the reference of the owner is left, the task lets go of the one it is bound to; if nobody else holds that one,
  it ends too.
\<close>

lemma bound_task_released:
  assumes "refs t s = 2" and "sp_bound s t = Some b" and "b \<noteq> t" and "refs b s = 1" and "sp_class s b = TaskHeap"
  shows "\<exists>s'. ptr_unref pops sz t s = Some s' \<and> sp_bound s' t = None \<and> refs t s' = 1 \<and> sp_destroyed s' = sp_destroyed s @ [b]"
proof -
  let ?s = "on_world (upd_task t (\<lambda>x. x\<lparr>t_refc := t_refc x - 1\<rparr>)) s"
  have "refs b ?s = 1" using assms(3,4) by (simp add: refs_def)
  then have "ptr_unref pops sz b ?s = Some ((on_world (upd_task b (\<lambda>x. x\<lparr>t_refc := t_refc x - 1, t_destroyed := True\<rparr>)) ?s)\<lparr>sp_destroyed := sp_destroyed s @ [b]\<rparr>)"
    using assms(5) by (simp add: unref_one task_release_def)
  then show ?thesis
    using assms by (subst ptr_unref.simps) (auto simp: refs_def task_unref_def Let_def on_world_def)
qed

datatype life_cmd = TakeRef | DropRef

fun life_exec ::
    "'m provider_ops \<Rightarrow> nat \<Rightarrow> nat \<Rightarrow> life_cmd \<Rightarrow> ('u, 'm, 'tag) spawn \<Rightarrow> ('u, 'm, 'tag) spawn option" where
  "life_exec pops sz t TakeRef s = ptr_ref t s"
| "life_exec pops sz t DropRef s = ptr_unref pops sz t s"

fun net :: "life_cmd list \<Rightarrow> int" where
  "net [] = 0"
| "net (TakeRef # cs) = net cs + 1"
| "net (DropRef # cs) = net cs - 1"

lemma life_step:
  assumes "refs t s \<ge> 0" and "sp_class s t = TaskHeap" and "sp_bound s t = None"
  shows "if refs t s = 0 then life_exec pops sz t c s = None
    else \<exists>s'. life_exec pops sz t c s = Some s' \<and> refs t s' = refs t s + net [c] \<and> sp_class s' t = TaskHeap \<and> sp_bound s' t = None \<and>
      sp_destroyed s' = sp_destroyed s @ (if refs t s' = 0 then [t] else [])"
proof (cases "refs t s = 0")
  case True
  moreover have "ptr_unref pops sz t s = None" using True by (subst ptr_unref.simps) (simp add: refs_def task_unref_def Let_def)
  ultimately show ?thesis by (cases c) (simp_all add: ptr_ref_def task_ref_def refs_def)
next
  case False
  then have "refs t s = 1 \<or> refs t s > 1" using assms(1) by linarith
  then consider "c = TakeRef" | "c = DropRef" "refs t s = 1" | "c = DropRef" "refs t s > 1" by (cases c) auto
  then show ?thesis
  proof cases
    case 1
    then show ?thesis using False assms by (simp add: ptr_ref_def task_ref_def refs_def)
  next
    case 2
    then show ?thesis using False assms by (simp add: unref_one task_release_def) (simp add: refs_def)
  next
    case 3
    then show ?thesis using False assms by (simp add: unref_more) (simp add: refs_def)
  qed
qed

lemma life_run:
  assumes "refs t s \<ge> 0" and "sp_class s t = TaskHeap" and "sp_bound s t = None"
  shows "(\<exists>s'. run_all (life_exec pops sz t) cs s = Some s') \<longleftrightarrow> (\<forall>k < length cs. refs t s + net (take k cs) > 0)"
    and "run_all (life_exec pops sz t) cs s = Some s' \<Longrightarrow>
      refs t s' = refs t s + net cs \<and> sp_destroyed s' = sp_destroyed s @ (if refs t s' = 0 \<and> cs \<noteq> [] then [t] else [])"
proof -
  have "((\<exists>s'. run_all (life_exec pops sz t) cs s = Some s') \<longleftrightarrow> (\<forall>k < length cs. refs t s + net (take k cs) > 0)) \<and>
    (\<forall>s'. run_all (life_exec pops sz t) cs s = Some s' \<longrightarrow>
      refs t s' = refs t s + net cs \<and> sp_destroyed s' = sp_destroyed s @ (if refs t s' = 0 \<and> cs \<noteq> [] then [t] else []))"
    using assms
  proof (induction cs arbitrary: s)
    case (Cons c cs)
    note step = life_step [OF Cons.prems, of pops sz c]
    show ?case
    proof (cases "refs t s = 0")
      case True
      then show ?thesis using step by (auto intro: exI [of _ 0])
    next
      case False
      then obtain s1 where s1: "life_exec pops sz t c s = Some s1" "refs t s1 = refs t s + net [c]" "sp_class s1 t = TaskHeap"
          "sp_bound s1 t = None" "sp_destroyed s1 = sp_destroyed s @ (if refs t s1 = 0 then [t] else [])"
        using step by auto
      have pos: "refs t s > 0" using False Cons.prems(1) by simp
      then have "refs t s1 \<ge> 0" using s1(2) by (cases c) auto
      note IH = Cons.IH [OF this s1(3,4)]
      have net: "net (c # xs) = net [c] + net xs" for xs by (cases c) simp_all
      have run: "run_all (life_exec pops sz t) (c # cs) s = run_all (life_exec pops sz t) cs s1" using s1(1) by simp
      have pre: "(\<forall>k < length (c # cs). refs t s + net (take k (c # cs)) > 0) \<longleftrightarrow> (\<forall>k < length cs. refs t s1 + net (take k cs) > 0)"
      proof -
        have "net (c # take k cs) = net [c] + net (take k cs)" for k by (rule net)
        then show ?thesis using pos s1(2) by (simp add: All_less_Suc2 add.assoc del: net.simps(2,3))
      qed
      have "refs t s' = refs t s + net (c # cs) \<and> sp_destroyed s' = sp_destroyed s @ (if refs t s' = 0 \<and> c # cs \<noteq> [] then [t] else [])"
        if r: "run_all (life_exec pops sz t) cs s1 = Some s'" for s'
      proof (cases cs)
        case Nil
        then show ?thesis using r s1(2,5) by simp
      next
        case (Cons c' cs')
        then have "0 < length cs" by simp
        then have "refs t s1 + net (take 0 cs) > 0" using conjunct1 [OF IH] r by blast
        then have "sp_destroyed s1 = sp_destroyed s" using s1(5) by simp
        moreover have "refs t s' = refs t s1 + net cs \<and> sp_destroyed s' = sp_destroyed s1 @ (if refs t s' = 0 \<and> cs \<noteq> [] then [t] else [])"
          using conjunct2 [OF IH] r by blast
        ultimately show ?thesis using s1(2) net [of cs] Cons by simp
      qed
      then show ?thesis unfolding run pre using conjunct1 [OF IH] by blast
    qed
  qed simp
  then show "(\<exists>s'. run_all (life_exec pops sz t) cs s = Some s') \<longleftrightarrow> (\<forall>k < length cs. refs t s + net (take k cs) > 0)"
    and "run_all (life_exec pops sz t) cs s = Some s' \<Longrightarrow>
      refs t s' = refs t s + net cs \<and> sp_destroyed s' = sp_destroyed s @ (if refs t s' = 0 \<and> cs \<noteq> [] then [t] else [])"
    by blast+
qed

section \<open>Spawning\<close>

text \<open>\<open>ts\<close> are the tasks of the queue, \<open>rs\<close> those that are ready; \<open>t\<close> is none of them.\<close>

definition spawnable :: "nat \<Rightarrow> nat list \<Rightarrow> nat list \<Rightarrow> 'u world \<Rightarrow> bool" where
  "spawnable t ts rs w \<longleftrightarrow> ll_rep (tasks_all w) ts \<and> t \<notin> set ts \<and> Suc (length ts) < size_max \<and>
     sched_inv w rs \<and> t \<notin> set rs \<and> Suc (length rs) < size_max"

lemma spawn_fresh:
  assumes "spawnable t ts rs (sp_world s)" and "t_state (tasks (sp_world s) t) = Suspended" and "refs t s \<ge> 1"
  shows "\<exists>s'. spawn_on t s = Some (Successful, s') \<and> refs t s' = refs t s + 1 \<and> ll_rep (tasks_all (sp_world s')) (t # ts) \<and>
    sched_inv (sp_world s') (t # rs) \<and> t_top (tasks (sp_world s') t) = t_top (tasks (sp_world s) t) \<and>
    sp_class s' = sp_class s \<and> sp_bound s' = sp_bound s \<and> sp_destroyed s' = sp_destroyed s \<and> sp_pool s' = sp_pool s"
proof -
  let ?w = "sp_world s"
  obtain l where l: "push_front t (tasks_all ?w) = (Successful, l)" "ll_rep l (t # ts)"
    using flist.ins_new [of "tasks_all ?w" ts t] assms(1) by (auto simp: spawnable_def)
  let ?w1 = "(upd_task t (\<lambda>x. x\<lparr>t_queued := True\<rparr>) (upd_task t (\<lambda>x. x\<lparr>t_refc := t_refc x + 1\<rparr>) ?w))\<lparr>tasks_all := l\<rparr>"
  have push: "TaskQueue_push t ?w = Some (Successful, ?w1)"
    using l assms(3) by (simp add: TaskQueue_push_def task_ref_def refs_def)
  have ts: "ts_rep (ts_push t (tasks_ready ?w)) (t # rs)"
    using assms(1) by (intro ts_push_rep) (auto simp: spawnable_def sched_inv_def)
  show ?thesis
    using push l(2) ts assms
    by (auto simp: spawn_on_def TaskQueue_spawn_def Loop_schedule_def TaskQueue_schedule_def Let_def refs_def set_error_def
        sched_inv_def spawnable_def)
qed

lemma constructed:
  "refs t (task_construct c t s) = 1" "sp_class (task_construct c t s) t = c" "sp_bound (task_construct c t s) t = None"
  "sp_destroyed (task_construct c t s) = sp_destroyed s" "sp_pool (task_construct c t s) = sp_pool s"
  by (simp_all add: task_construct_def refs_def)

lemma entry_called:
  "refs t (entry_call start t n s) = refs t s" "sp_class (entry_call start t n s) = sp_class s" "sp_bound (entry_call start t n s) = sp_bound s"
  "sp_destroyed (entry_call start t n s) = sp_destroyed s" "sp_pool (entry_call start t n s) = sp_pool s"
  "t_state (tasks (sp_world (entry_call start t n s)) t) = Suspended" "t_top (tasks (sp_world (entry_call start t n s)) t) = Some (Obj n)"
  by (simp_all add: entry_call_def refs_def Task_init_def Let_def)

lemma constructed_spawnable:
  assumes "spawnable t ts rs (sp_world s)"
  shows "spawnable t ts rs (sp_world (entry_call start t n (task_construct c t s)))"
  using assms by (auto simp: spawnable_def entry_call_def task_construct_def Task_init_def Let_def sched_inv_def)

text \<open>
  C17. A task made by \<^verbatim>\<open>task_new\<close> is in the queue and ready, at its entry, and has two references, that of the queue and that of the
  caller. However references to it are taken and dropped after that, the first moment at which none is left is the one at which it is
  destroyed, once; before that moment nothing is refused, after it everything is. Without memory nothing happens.
\<close>

theorem task_new_lifetime:
  assumes "spawnable t ts rs (sp_world s)"
  shows "loop_task_new start None n s = Some (None, s) \<and>
    (\<exists>s1. loop_task_new start (Some t) n s = Some (Some t, s1) \<and> refs t s1 = 2 \<and> ll_rep (tasks_all (sp_world s1)) (t # ts) \<and>
      sched_inv (sp_world s1) (t # rs) \<and> t_top (tasks (sp_world s1) t) = Some (Obj n) \<and>
      (\<forall>cs. ((\<exists>s2. run_all (life_exec pops sz t) cs s1 = Some s2) \<longleftrightarrow> (\<forall>k < length cs. 2 + net (take k cs) > 0)) \<and>
        (\<forall>s2. run_all (life_exec pops sz t) cs s1 = Some s2 \<longrightarrow>
          sp_destroyed s2 = sp_destroyed s @ (if net cs = -2 then [t] else []))))"
proof -
  let ?s = "entry_call start t n (task_construct TaskHeap t s)"
  have "refs t ?s = 1" "t_state (tasks (sp_world ?s) t) = Suspended" by (simp_all add: entry_called constructed)
  then obtain s1 where s1: "spawn_on t ?s = Some (Successful, s1)" "refs t s1 = 2" "ll_rep (tasks_all (sp_world s1)) (t # ts)"
      "sched_inv (sp_world s1) (t # rs)" "t_top (tasks (sp_world s1) t) = Some (Obj n)" "sp_class s1 t = TaskHeap"
      "sp_bound s1 t = None" "sp_destroyed s1 = sp_destroyed s"
    using spawn_fresh [OF constructed_spawnable [OF assms, of start n TaskHeap]] by (auto simp: entry_called constructed)
  have "loop_task_new start (Some t) n s = Some (Some t, s1)" using s1(1) by (simp add: loop_task_new_def new_task_def)
  moreover have "refs t s1 \<ge> 0" using s1(2) by simp
  note life = life_run [OF this s1(6,7), of pops sz]
  have "sp_destroyed s2 = sp_destroyed s @ (if net cs = -2 then [t] else [])" if "run_all (life_exec pops sz t) cs s1 = Some s2" for cs s2
    using life(2) [OF that] s1(2,8) by (cases cs) auto
  ultimately show ?thesis using s1(2-5) life(1) by (auto simp: loop_task_new_def new_task_def)
qed

definition sample_spawn :: "(unit, heap, nat) spawn" where
  "sample_spawn = \<lparr>sp_world = empty_world (), sp_class = (\<lambda>_. TaskPlain), sp_tag = (\<lambda>_. 0), sp_bound = (\<lambda>_. None),
     sp_destroyed = [], sp_pool = sample_pool\<rparr>"

lemma sample_spawnable: "spawnable t [] [] (sp_world sample_spawn)"
  unfolding spawnable_def sample_spawn_def by (simp add: sched_inv_empty) (simp add: empty_world_def flist.rep_new)

theorem task_new_lifetime_witness:
  "\<exists>s1 s2. loop_task_new id (Some 3) 8 sample_spawn = Some (Some 3, s1) \<and>
     run_all (life_exec posix_provider 64 3) [TakeRef, DropRef, DropRef, DropRef] s1 = Some s2 \<and> sp_destroyed s2 = [3]"
proof -
  let ?cs = "[TakeRef, DropRef, DropRef, DropRef]"
  obtain s1 where s1: "loop_task_new id (Some 3) 8 sample_spawn = Some (Some 3, s1)"
      "(\<exists>s2. run_all (life_exec posix_provider 64 3) ?cs s1 = Some s2) \<longleftrightarrow> (\<forall>k < length ?cs. 2 + net (take k ?cs) > 0)"
      "\<forall>s2. run_all (life_exec posix_provider 64 3) ?cs s1 = Some s2 \<longrightarrow> sp_destroyed s2 = sp_destroyed sample_spawn @ (if net ?cs = -2 then [3] else [])"
    using task_new_lifetime [OF sample_spawnable, of id 8 3 posix_provider 64] by blast
  have "\<forall>k < length ?cs. 2 + net (take k ?cs) > 0" by (simp add: All_less_Suc2)
  then show ?thesis using s1 by (auto simp: sample_spawn_def simp del: run_all.simps)
qed

text \<open>
  A task that lives in an object of its own. Spawning it adds the reference of the queue; destroying the object before the task has
  left the queue is fatal, after that it is accepted.
\<close>

theorem static_task_lifetime:
  assumes "spawnable t ts rs (sp_world s)" and "sp_class s t = TaskStatic" and "sp_bound s t = None" and "refs t s = 1"
    and "t_state (tasks (sp_world s) t) = Suspended"
  shows "\<exists>s1 s2 s3. loop_task_create_static t s = Some (Successful, s1) \<and> refs t s1 = 2 \<and> static_destructor t s1 = None \<and>
    queue_pop pops sz t s1 = Some (Successful, s2) \<and> refs t s2 = 1 \<and> sp_destroyed s2 = sp_destroyed s \<and>
    static_destructor t s2 = Some s3 \<and> sp_destroyed s3 = sp_destroyed s @ [t]"
proof -
  obtain s1 where s1: "spawn_on t s = Some (Successful, s1)" "refs t s1 = 2" "ll_rep (tasks_all (sp_world s1)) (t # ts)"
      "sp_bound s1 = sp_bound s" "sp_destroyed s1 = sp_destroyed s"
    using spawn_fresh [OF assms(1,5)] assms(4) by auto
  obtain l where l: "erase (Node t) (tasks_all (sp_world s1)) = Some (Successful, l)"
    using flist.del_in [of "tasks_all (sp_world s1)" "[]" t ts] s1(3) by auto
  let ?s = "on_world (upd_task t (\<lambda>x. x\<lparr>t_queued := False\<rparr>)) (on_world (\<lambda>w. w\<lparr>tasks_all := l\<rparr>) s1)"
  have "refs t ?s = 2" using s1(2) by (simp add: refs_def)
  then have "ptr_unref pops sz t ?s = Some (on_world (upd_task t (\<lambda>x. x\<lparr>t_refc := t_refc x - 1\<rparr>)) ?s)"
    using unref_more [of t ?s] assms(3) s1(4) by simp
  then show ?thesis
    using s1 l by (auto simp: loop_task_create_static_def queue_pop_def static_destructor_def refs_def)
qed

theorem static_task_lifetime_witness:
  "\<exists>s1 s2 s3. loop_task_create_static 3 (entry_call id 3 8 (task_construct TaskStatic 3 sample_spawn)) = Some (Successful, s1) \<and>
     static_destructor 3 s1 = None \<and> queue_pop posix_provider 64 3 s1 = Some (Successful, s2) \<and> static_destructor 3 s2 = Some s3"
  using static_task_lifetime [OF constructed_spawnable [OF sample_spawnable, of 3 id 8 TaskStatic], of posix_provider 64]
  by (auto simp: entry_called constructed)

section \<open>Tasks in buffers\<close>

lemma pop_last_reference:
  assumes "ll_rep (tasks_all (sp_world s)) (t # ts)" and "refs t s = 1"
  shows "\<exists>s0. queue_pop pops sz t s = map_option (Pair Successful) (task_release pops sz t s0) \<and>
    sp_class s0 = sp_class s \<and> sp_destroyed s0 = sp_destroyed s \<and> sp_pool s0 = sp_pool s \<and> ll_rep (tasks_all (sp_world s0)) ts"
proof -
  obtain l where l: "erase (Node t) (tasks_all (sp_world s)) = Some (Successful, l)" "ll_rep l ts"
    using flist.del_in [of "tasks_all (sp_world s)" "[]" t ts] assms(1) by auto
  let ?s = "on_world (upd_task t (\<lambda>x. x\<lparr>t_queued := False\<rparr>)) (on_world (\<lambda>w. w\<lparr>tasks_all := l\<rparr>) s)"
  have "refs t ?s = 1" using assms(2) by (simp add: refs_def)
  note u = unref_one [OF this, of pops sz]
  let ?s0 = "on_world (upd_task t (\<lambda>x. x\<lparr>t_refc := t_refc x - 1, t_destroyed := True\<rparr>)) ?s"
  show ?thesis
    using l u by (intro exI [of _ ?s0]) (auto simp: queue_pop_def split: bind_splits)
qed

lemma allocated_block:
  assumes "pool_inv h_used q ps [] {}" and "pool_allocate posix_provider sz q = Some (Some a, p)" and "bp_active p < size_max - 1"
    and "bp_memory p a = Some m"
  shows "\<exists>ps'. pool_inv h_used p ps' [] {} \<and> fresh_block sz a m"
proof (cases ps)
  case Nil
  then show ?thesis
    using posix.allocate_new [of q "[]" "{}" sz] assms by (cases "bp_active q > unsigned_long (bp_limit q)") auto
next
  case (Cons b ps')
  then show ?thesis using posix.allocate_from_reserve [of q b ps' "[]" "{}" sz] assms by auto
qed

text \<open>
  C18. A task built in a buffer of the pool. If the memory of the fresh block is not aligned for the task, the task is refused and the
  block goes back. Otherwise the task is spawned and holds the only reference to its block; when the queue lets it go it
  is destroyed once, and its block is handed back to the pool, which keeps it in reserve or frees it.
\<close>

theorem bufferred_task_lifetime:
  assumes "pool_inv h_used (sp_pool s) ps [] {}" and "pool_allocate posix_provider sz (sp_pool s) = Some (Some a, p)"
    and "bp_active p < size_max - 1" and "spawnable (add64 a sz) ts rs (sp_world s)"
    and "bp_memory p a = Some m" and "tsize \<le> m_memory_size m"
  shows "if add64 a sz mod align \<noteq> 0
    then \<exists>s1 ps1. bufferred_allocate posix_provider sz align tsize start n s = Some (Failed, s1) \<and>
      sp_world s1 = sp_world s \<and> pool_inv h_used (sp_pool s1) ps1 [] {} \<and> (a \<in> set ps1 \<or> bp_memory (sp_pool s1) a = None)
    else \<exists>s1 s2 ps2. bufferred_allocate posix_provider sz align tsize start n s = Some (Successful, s1) \<and>
      refs (add64 a sz) s1 = 1 \<and> ll_rep (tasks_all (sp_world s1)) (add64 a sz # ts) \<and> sched_inv (sp_world s1) (add64 a sz # rs) \<and>
      map_option m_refc (bp_memory (sp_pool s1) a) = Some 1 \<and>
      queue_pop posix_provider sz (add64 a sz) s1 = Some (Successful, s2) \<and> sp_destroyed s2 = sp_destroyed s @ [add64 a sz] \<and>
      pool_inv h_used (sp_pool s2) ps2 [] {} \<and> (a \<in> set ps2 \<or> bp_memory (sp_pool s2) a = None)"
proof -
  let ?t = "add64 a sz"
  obtain ps1 where inv: "pool_inv h_used p ps1 [] {}" and m: "fresh_block sz a m"
    using allocated_block [OF assms(1,2,3,5)] by blast
  have refc: "m_refc m = 1" and view: "m_view m = bv_new ?t (m_memory_size m) 0 0" using m by (simp_all add: fresh_block_def)
  have gives: "\<exists>p' ps'. buffer_unref posix_provider sz a q = Some p' \<and> pool_inv h_used p' ps' [] {} \<and> (a \<in> set ps' \<or> bp_memory p' a = None)"
    if "pool_inv h_used q ps1 [] {}" "bp_memory q a = Some m" for q
    using posix.unref_cases [OF that refc, of sz] by (auto split: if_splits) (meson list.set_intros(1))
  show ?thesis
  proof (cases "?t mod align = 0")
    case False
    then show ?thesis
      using assms(2,5) view gives [OF inv assms(5)]
      by (auto simp: bufferred_allocate_def bv_cut_def bv_new_def Let_def)
  next
    case True
    let ?s2 = "s\<lparr>sp_pool := p\<lparr>bp_memory := (bp_memory p)(a \<mapsto> m)\<rparr>\<rparr>"
    have p: "p\<lparr>bp_memory := (bp_memory p)(a \<mapsto> m)\<rparr> = p" using assms(5) by (simp add: fun_upd_idem)
    let ?s3 = "entry_call start ?t n (task_construct (TaskBufferred a) ?t ?s2)"
    have "spawnable ?t ts rs (sp_world ?s2)" using assms(4) by simp
    from spawn_fresh [OF constructed_spawnable [OF this, of start n "TaskBufferred a"]]
    obtain s4 where s4: "spawn_on ?t ?s3 = Some (Successful, s4)" "refs ?t s4 = 2" "ll_rep (tasks_all (sp_world s4)) (?t # ts)"
        "sched_inv (sp_world s4) (?t # rs)" "sp_class s4 ?t = TaskBufferred a" "sp_bound s4 ?t = None" "sp_destroyed s4 = sp_destroyed s"
        "sp_pool s4 = p"
      by (auto simp: entry_called constructed p)
    let ?s5 = "on_world (upd_task ?t (\<lambda>x. x\<lparr>t_refc := t_refc x - 1\<rparr>)) s4"
    have u: "ptr_unref posix_provider sz ?t s4 = Some ?s5" using unref_more [of ?t s4] s4(2,6) by simp
    have run: "bufferred_allocate posix_provider sz align tsize start n s = Some (Successful, ?s5)"
    proof -
      have v: "bv_memory (m_view m) = ?t" "bv_memory_size (m_view m) = m_memory_size m" "m\<lparr>m_view := m_view m\<rparr> = m"
        using view by (simp_all add: bv_new_def)
      show ?thesis using True assms(2,5,6) v s4(1) u by (simp add: bufferred_allocate_def Let_def p)
    qed
    have s5: "refs ?t ?s5 = 1" "ll_rep (tasks_all (sp_world ?s5)) (?t # ts)" "sched_inv (sp_world ?s5) (?t # rs)"
      using s4(2-4) by (auto simp: refs_def sched_inv_def)
    obtain s0 where s0: "queue_pop posix_provider sz ?t ?s5 = map_option (Pair Successful) (task_release posix_provider sz ?t s0)"
        "sp_class s0 ?t = TaskBufferred a" "sp_destroyed s0 = sp_destroyed s" "sp_pool s0 = p"
      using pop_last_reference [OF s5(2,1), of posix_provider sz] s4(5,7,8) by auto
    obtain p' ps' where "buffer_unref posix_provider sz a p = Some p'" "pool_inv h_used p' ps' [] {}" "a \<in> set ps' \<or> bp_memory p' a = None"
      using gives [OF inv assms(5)] by blast
    then show ?thesis
      using True run s5 s0 s4(8) assms(5) refc by (auto simp: task_release_def bufferred_destroy_task_def)
  qed
qed

theorem bufferred_task_lifetime_witness:
  "\<exists>s1 s2. bufferred_allocate posix_provider 64 8 16 id 8 sample_spawn = Some (Successful, s1) \<and>
     queue_pop posix_provider 64 1064 s1 = Some (Successful, s2) \<and> sp_destroyed s2 = [1064]"
proof -
  have run: "pool_allocate posix_provider 64 (sp_pool sample_spawn) = Some (Some 1000, held_pool)"
    using sample_pool_run by (simp add: sample_spawn_def held_pool_def)
  obtain m where m: "bp_memory held_pool 1000 = Some m" "m_memory_size m = 16"
    by (simp add: held_pool_def sample_pool_eq pool_allocate_def ts_pop_def ts_new_def unsigned_long_def
        allocate_memory_def posix_provider_def posix_alloc_def sample_heap_def take_reference_def BufferMemory_new_def Let_def)
  have "bp_active held_pool < size_max - 1" using held_pool_facts(1) by (simp add: pool_inv_def)
  then show ?thesis
    using bufferred_task_lifetime [of sample_spawn "[]" 64 1000 held_pool "[]" "[]" m 16 8 id 8] run m sample_pool_inv
      sample_spawnable [of 1064]
    by (auto simp: sample_spawn_def add64_exact)
qed

end
