(* ===== verification/Jinx_Branch.thy ===== *)
theory Jinx_Branch
  imports Jinx_Wait
begin

text \<open>
  The queue of a \<^verbatim>\<open>Wait\<close> inside the queue of its task (\<^verbatim>\<open>include/jinx/async/pausable.hpp\<close>): making branches, and the virtual
  functions \<^verbatim>\<open>schedule\<close>, \<^verbatim>\<open>cancel\<close> and \<^verbatim>\<open>spawn\<close> of the \<^verbatim>\<open>Wait\<close>, which pass on to the outer queue.

  The state is the store of awaitables and tasks with the queue of the \<^verbatim>\<open>Wait\<close>, as in \<open>Jinx_Wait\<close>, and beside it the members of the
  outer queue, a \<^verbatim>\<open>Loop\<close>. The links of a task are in the task itself, in whichever list it is: the lists share them. When the outer
  list is made to remove a branch it follows the links of the list of the \<^verbatim>\<open>Wait\<close>; \<open>nt_stray\<close> is where its head points after that, if
  it points into the other list.
\<close>

section \<open>Two queues over one store\<close>

record 'v nest =
  nt_world :: "'v wait world"
  nt_self :: awt
  nt_all :: "nat linked_list"
  nt_ready :: "nat tslist"
  nt_running :: "nat option"
  nt_wakeups :: nat
  nt_stray :: "nat addr option"

definition outer_world :: "'v nest \<Rightarrow> 'v wait world" where
  "outer_world n = (nt_world n)\<lparr>tasks_all := nt_all n, tasks_ready := nt_ready n, running_task := nt_running n, wakeups := nt_wakeups n\<rparr>"

definition set_outer :: "'v wait world \<Rightarrow> 'v nest \<Rightarrow> 'v nest" where
  "set_outer w n = n\<lparr>nt_world := (nt_world n)\<lparr>aws := aws w, tasks := tasks w, user := user w\<rparr>,
     nt_all := tasks_all w, nt_ready := tasks_ready w, nt_running := running_task w, nt_wakeups := wakeups w\<rparr>"

definition wait_schedule :: "nat \<Rightarrow> Error \<Rightarrow> 'v nest \<Rightarrow> SuccessfulFailed \<times> 'v nest" where
  "wait_schedule t e n =
     (case TaskQueue_schedule t e (nt_world n) of
        (Failed, w) \<Rightarrow> (Failed, n\<lparr>nt_world := w\<rparr>)
      | (Successful, w) \<Rightarrow>
          let n1 = n\<lparr>nt_world := w\<rparr>
          in case async_resume (nt_self n1) Error_default (outer_world n1) of (r, w1) \<Rightarrow> (r, set_outer w1 n1))"

section \<open>Branches\<close>

text \<open>\<^verbatim>\<open>TaskQueue::spawn\<close> of the \<^verbatim>\<open>Wait\<close> itself; the virtual \<^verbatim>\<open>schedule\<close> it calls is the one above.\<close>

definition branch_spawn :: "nat \<Rightarrow> 'v nest \<Rightarrow> (SuccessfulFailed \<times> 'v nest) option" where
  "branch_spawn t n =
     do { (r, w) \<leftarrow> TaskQueue_push t (nt_world n);
          let n1 = n\<lparr>nt_world := w\<rparr>;
          if r = Failed then Some (Failed, n1) else Some (wait_schedule t Error_default n1) }"

text \<open>\<open>mem\<close> is the task that \<^verbatim>\<open>new(std::nothrow)\<close> makes, if there is memory; \<open>a\<close> is its entry and \<open>start\<close> the call of the entry.\<close>

definition branch_new :: "('v \<Rightarrow> 'v) \<Rightarrow> nat option \<Rightarrow> nat \<Rightarrow> 'v nest \<Rightarrow> (nat option \<times> 'v nest) option" where
  "branch_new start mem a n =
     (case mem of
        None \<Rightarrow> Some (None, n)
      | Some t \<Rightarrow>
          do { let w1 = upd_task t (\<lambda>_. idle_task) (nt_world n);
               let w2 = upd_wait_state (\<lambda>u. u\<lparr>wt_bound := (wt_bound u)(t := None), wt_user := start (wt_user u)\<rparr>) w1;
               (_, n1) \<leftarrow> branch_spawn t (n\<lparr>nt_world := Task_init t a w2\<rparr>);
               Some (Some t, n1) })"

definition branch_create :: "nat \<Rightarrow> 'v nest \<Rightarrow> (SuccessfulFailed \<times> 'v nest) option" where
  "branch_create t n = branch_spawn t n"

section \<open>Passing on\<close>

definition wait_handle_error :: "awt \<Rightarrow> 'v wait world \<Rightarrow> action" where
  "wait_handle_error a w = (if is_paused a w then PassthroughA else RaiseA)"

text \<open>The outer queue is that of the task of the \<^verbatim>\<open>Wait\<close>.\<close>

definition has_outer_queue :: "'v nest \<Rightarrow> bool" where
  "has_outer_queue n \<longleftrightarrow> (\<exists>ob \<in> set_option (aw_task (aws (nt_world n) (nt_self n))). t_queued (tasks (nt_world n) ob))"

definition wait_spawn :: "nat \<Rightarrow> 'v nest \<Rightarrow> (SuccessfulFailed \<times> 'v nest) option" where
  "wait_spawn t n =
     (if has_outer_queue n then do { (r, w) \<leftarrow> TaskQueue_spawn t (outer_world n); Some (r, set_outer w n) } else None)"

text \<open>\<^verbatim>\<open>_tasks_all.erase(task)\<close> of the outer queue.\<close>

definition outer_erase :: "nat \<Rightarrow> 'v nest \<Rightarrow> (SuccessfulFailed \<times> 'v nest) option" where
  "outer_erase t n =
     (let w = nt_world n; l = tasks_all w
      in if \<not> is_inserted t l then do { (r, l') \<leftarrow> erase (Node t) (nt_all n); Some (r, n\<lparr>nt_all := l'\<rparr>) }
         else let n1 = n\<lparr>nt_all := (nt_all n)\<lparr>ll_size := sub64 (ll_size (nt_all n)) 1\<rparr>\<rparr>
              in case (ll_next l (Node t), ll_prev l (Node t)) of
                   (Some nx, None) \<Rightarrow>
                     Some (Successful, n1\<lparr>nt_stray := Some nx,
                       nt_world := w\<lparr>tasks_all := l\<lparr>ll_next := (ll_next l)(Node t := None), ll_prev := (ll_prev l)(nx := None)\<rparr>\<rparr>\<rparr>)
                 | (Some nx, Some p) \<Rightarrow>
                     Some (Successful, n1\<lparr>nt_world := w\<lparr>tasks_all := l\<lparr>ll_next := (ll_next l)(p := Some nx, Node t := None),
                       ll_prev := (ll_prev l)(nx := Some p, Node t := None)\<rparr>\<rparr>\<rparr>)
                 | (None, _) \<Rightarrow> None)"

definition outer_pop :: "nat \<Rightarrow> 'v nest \<Rightarrow> (SuccessfulFailed \<times> 'v nest) option" where
  "outer_pop t n =
     do { (r, n1) \<leftarrow> outer_erase t n;
          if r = Failed then Some (Failed, n1)
          else do { w \<leftarrow> task_unref t (upd_task t (\<lambda>x. x\<lparr>t_queued := False\<rparr>) (nt_world n1));
                    Some (Successful, n1\<lparr>nt_world := w\<rparr>) } }"

definition outer_cancel :: "'v vtable \<Rightarrow> nat \<Rightarrow> 'v nest \<Rightarrow> (ErrorCancel \<times> 'v nest) option" where
  "outer_cancel vt t n =
     (if nt_running n = Some t then Some (ErrorCancel_CancelRunningTask, n)
      else do { w1 \<leftarrow> unwind_stack (lift_vt vt) t (nt_world n);
                let state = t_state (tasks w1 t);
                let w2 = upd_task t (\<lambda>x. x\<lparr>t_state := Ready\<rparr>) w1;
                if state = Ready then Some (ErrorCancel_DeferredDequeue, n\<lparr>nt_world := set_error t Error_default w2\<rparr>)
                else do { (_, n1) \<leftarrow> outer_pop t (n\<lparr>nt_world := upd_task t (\<lambda>x. x\<lparr>t_state := Exited\<rparr>) w2\<rparr>);
                          Some (ErrorCancel_NoError, n1) } })"

definition wait_cancel :: "'v vtable \<Rightarrow> nat \<Rightarrow> 'v nest \<Rightarrow> (ErrorCancel \<times> 'v nest) option" where
  "wait_cancel vt t n =
     (if running_task (nt_world n) = Some t then Some (ErrorCancel_CancelRunningTask, n)
      else if has_outer_queue n then outer_cancel vt t n else None)"

section \<open>A branch wakes its Wait\<close>

lemma outer_world_fields [simp]:
  "aws (outer_world n) = aws (nt_world n)" "tasks (outer_world n) = tasks (nt_world n)" "user (outer_world n) = user (nt_world n)"
  "tasks_all (outer_world n) = nt_all n" "tasks_ready (outer_world n) = nt_ready n" "running_task (outer_world n) = nt_running n"
  "wakeups (outer_world n) = nt_wakeups n"
  by (simp_all add: outer_world_def)

lemma set_outer_fields [simp]:
  "aws (nt_world (set_outer w n)) = aws w" "tasks (nt_world (set_outer w n)) = tasks w" "user (nt_world (set_outer w n)) = user w"
  "tasks_all (nt_world (set_outer w n)) = tasks_all (nt_world n)" "tasks_ready (nt_world (set_outer w n)) = tasks_ready (nt_world n)"
  "running_task (nt_world (set_outer w n)) = running_task (nt_world n)"
  "nt_all (set_outer w n) = tasks_all w" "nt_ready (set_outer w n) = tasks_ready w" "nt_self (set_outer w n) = nt_self n"
  "nt_wakeups (set_outer w n) = wakeups w" "nt_running (set_outer w n) = running_task w"
  by (simp_all add: set_outer_def)

text \<open>
  Both queues hold ready tasks at most once, and no task is in both.
\<close>

definition nest_inv :: "'v nest \<Rightarrow> nat list \<Rightarrow> nat list \<Rightarrow> bool" where
  "nest_inv n rs os \<longleftrightarrow> sched_inv (nt_world n) rs \<and> sched_inv (outer_world n) os \<and> set rs \<inter> set os = {}"

text \<open>
  C28. Resuming a branch of a \<^verbatim>\<open>Wait\<close> that is being awaited. The branch becomes ready in the queue of the \<^verbatim>\<open>Wait\<close>, with the error it was
  resumed with, and the task of the \<^verbatim>\<open>Wait\<close> is ready in the outer queue: it is put there, and the loop woken up, unless it is ready
  already. In both queues each task stays once. So no wake-up of a branch is lost however many branches are resumed before the task runs.
\<close>

theorem branch_wakes_wait:
  assumes "nest_inv n rs os" and "Suc (length rs) < size_max" and "Suc (length os) < size_max"
    and "t_state (tasks (nt_world n) t) \<notin> {Ready, Exited}"
    and "aw_task (aws (nt_world n) (nt_self n)) = Some ob" and "t_queued (tasks (nt_world n) ob)"
    and "t_state (tasks (nt_world n) ob) \<noteq> Exited" and "ob \<noteq> t" and "ob \<notin> set rs"
    and "nt_self n \<noteq> TaskA t"
  defines "awake \<equiv> t_state (tasks (nt_world n) ob) = Ready"
  shows "\<exists>n'. wait_schedule t e n = (if awake then Failed else Successful, n') \<and>
    nest_inv n' (t # rs) (if awake then os else ob # os) \<and> t_state (tasks (nt_world n') ob) = Ready \<and>
    aw_error (aws (nt_world n') (TaskA t)) = e \<and> nt_wakeups n' = nt_wakeups n + (if awake then 0 else 1)"
proof -
  have inv: "sched_inv (nt_world n) rs" "sched_inv (outer_world n) os" "set rs \<inter> set os = {}"
    using assms(1) by (simp_all add: nest_inv_def)
  let ?w = "(set_error t e (upd_task t (\<lambda>x. x\<lparr>t_state := Ready\<rparr>) (nt_world n)))\<lparr>tasks_ready := ts_push t (tasks_ready (nt_world n))\<rparr>"
  let ?n = "n\<lparr>nt_world := ?w\<rparr>"
  have "t \<notin> set rs" "t \<notin> set os" using inv assms(4) by (auto simp: sched_inv_def)
  have s: "TaskQueue_schedule t e (nt_world n) = (Successful, ?w)"
    using assms(4) by (simp add: TaskQueue_schedule_def Let_def set_error_def)
  have rt: "ts_rep (ts_push t (tasks_ready (nt_world n))) (t # rs)"
    using inv(1) \<open>t \<notin> set rs\<close> assms(2) by (intro ts_push_rep) (auto simp: sched_inv_def)
  have res: "async_resume (nt_self n) Error_default (outer_world ?n) = Loop_schedule ob Error_default (outer_world ?n)"
    using assms(5,6,8,10) by (simp add: async_resume_def Task_resume_def set_error_def)
  show ?thesis
  proof (cases awake)
    case True
    then have "Loop_schedule ob Error_default (outer_world ?n) = (Failed, outer_world ?n)"
      using assms(8) by (simp add: Loop_schedule_def schedule_refused awake_def set_error_def)
    then show ?thesis
      using True s res rt inv \<open>t \<notin> set rs\<close> \<open>t \<notin> set os\<close> assms(8)
      by (auto simp: wait_schedule_def Let_def nest_inv_def sched_inv_def set_error_def awake_def)
  next
    case False
    have "ob \<notin> set os" using False inv(2) by (auto simp: sched_inv_def awake_def)
    then have ro: "ts_rep (ts_push ob (nt_ready n)) (ob # os)"
      using inv(2) assms(3) by (intro ts_push_rep) (auto simp: sched_inv_def)
    have "TaskQueue_schedule ob Error_default (outer_world ?n) =
        (Successful, (set_error ob Error_default (upd_task ob (\<lambda>x. x\<lparr>t_state := Ready\<rparr>) (outer_world ?n)))\<lparr>tasks_ready := ts_push ob (nt_ready n)\<rparr>)"
      using False assms(7,8) by (simp add: TaskQueue_schedule_def Let_def set_error_def awake_def)
    then show ?thesis
      using False s res rt ro inv \<open>t \<notin> set rs\<close> \<open>t \<notin> set os\<close> \<open>ob \<notin> set os\<close> assms(8,9)
      by (auto simp: wait_schedule_def Let_def Loop_schedule_def nest_inv_def sched_inv_def set_error_def)
  qed
qed

definition sample_nest :: "unit nest" where
  "sample_nest = \<lparr>nt_world = (empty_world sample_wait)\<lparr>aws := (\<lambda>_. idle_awaitable)(Obj 5 := idle_awaitable\<lparr>aw_task := Some 9\<rparr>),
       tasks := (\<lambda>_. idle_task)(9 := idle_task\<lparr>t_queued := True\<rparr>)\<rparr>,
     nt_self = Obj 5, nt_all = ll_new, nt_ready = ts_new, nt_running = None, nt_wakeups = 0, nt_stray = None\<rparr>"

theorem branch_wakes_wait_witness:
  "\<exists>n'. wait_schedule 1 Error_default sample_nest = (Successful, n') \<and> nest_inv n' [1] [9] \<and> nt_wakeups n' = 1"
proof -
  have "nest_inv sample_nest [] []" "aw_task (aws (nt_world sample_nest) (nt_self sample_nest)) = Some 9"
      "t_queued (tasks (nt_world sample_nest) 9)" "t_state (tasks (nt_world sample_nest) 9) = Suspended"
      "t_state (tasks (nt_world sample_nest) 1) = Suspended" "nt_wakeups sample_nest = 0" "nt_self sample_nest = Obj 5"
    by (simp_all add: nest_inv_def sched_inv_def sample_nest_def outer_world_def empty_world_def idle_task_def ts.rep_new)
  then show ?thesis using branch_wakes_wait [of sample_nest "[]" "[]" 1 9 Error_default] by auto
qed

text \<open>Before the \<^verbatim>\<open>Wait\<close> is called it has no task: a branch is queued and made ready, but the call reports a failure.\<close>

lemma early_branch_reports_failure:
  assumes "ll_rep (tasks_all (nt_world n)) bs" and "t \<notin> set bs" and "Suc (length bs) < size_max"
    and "t_state (tasks (nt_world n) t) = Suspended" and "t_refc (tasks (nt_world n) t) \<ge> 1"
    and "aw_task (aws (nt_world n) (nt_self n)) = None" and "nt_self n \<noteq> TaskA t"
  shows "\<exists>n'. branch_create t n = Some (Failed, n') \<and> ll_rep (tasks_all (nt_world n')) (t # bs) \<and>
    tasks_ready (nt_world n') = ts_push t (tasks_ready (nt_world n)) \<and>
    tasks (nt_world n') = (tasks (nt_world n))(t := (tasks (nt_world n) t)\<lparr>t_refc := t_refc (tasks (nt_world n) t) + 1, t_queued := True, t_state := Ready\<rparr>) \<and>
    aws (nt_world n') = (aws (nt_world n))(TaskA t := (aws (nt_world n) (TaskA t))\<lparr>aw_error := Error_default\<rparr>) \<and>
    user (nt_world n') = user (nt_world n) \<and> nt_self n' = nt_self n"
proof -
  let ?w = "nt_world n"
  obtain l where l: "push_front t (tasks_all ?w) = (Successful, l)" "ll_rep l (t # bs)"
    using flist.ins_new [OF assms(1-3)] by auto
  have "TaskQueue_push t ?w = Some (Successful, (upd_task t (\<lambda>x. x\<lparr>t_queued := True\<rparr>) (upd_task t (\<lambda>x. x\<lparr>t_refc := t_refc x + 1\<rparr>) ?w))\<lparr>tasks_all := l\<rparr>)"
    using l(1) assms(5) by (simp add: TaskQueue_push_def task_ref_def)
  then show ?thesis
    using l(2) assms(4,6,7)
    by (simp add: branch_create_def branch_spawn_def wait_schedule_def TaskQueue_schedule_def async_resume_def set_error_def Let_def fun_eq_iff)
qed

lemma branches_created:
  assumes "ll_rep (tasks_all (nt_world n)) bs" and "ts_rep (tasks_ready (nt_world n)) rs" and "distinct ts"
    and "set ts \<inter> set bs = {}" and "set ts \<inter> set rs = {}" and "length ts + length bs < size_max" and "length ts + length rs < size_max"
    and "\<And>t. t \<in> set ts \<Longrightarrow> t_state (tasks (nt_world n) t) = Suspended \<and> t_refc (tasks (nt_world n) t) \<ge> 1"
    and "aw_task (aws (nt_world n) (nt_self n)) = None" and "nt_self n = Obj c"
  shows "\<exists>n'. run_all (\<lambda>t n. map_option snd (branch_create t n)) ts n = Some n' \<and> ll_rep (tasks_all (nt_world n')) (rev ts @ bs) \<and>
    ts_rep (tasks_ready (nt_world n')) (rev ts @ rs) \<and> user (nt_world n') = user (nt_world n) \<and>
    (\<forall>t. tasks (nt_world n') t = (if t \<in> set ts
       then (tasks (nt_world n) t)\<lparr>t_refc := t_refc (tasks (nt_world n) t) + 1, t_queued := True, t_state := Ready\<rparr> else tasks (nt_world n) t)) \<and>
    (\<forall>a. aws (nt_world n') a = (if a \<in> TaskA ` set ts then (aws (nt_world n) a)\<lparr>aw_error := Error_default\<rparr> else aws (nt_world n) a))"
  using assms
proof (induction ts arbitrary: n bs rs)
  case (Cons t ts)
  have "t_state (tasks (nt_world n) t) = Suspended" "t_refc (tasks (nt_world n) t) \<ge> 1" "t \<notin> set bs" "Suc (length bs) < size_max"
      "nt_self n \<noteq> TaskA t"
    using Cons.prems(4,6,8,10) by auto
  from early_branch_reports_failure [OF Cons.prems(1) this(3,4,1,2) Cons.prems(9) this(5)] obtain n1 where
    n1: "branch_create t n = Some (Failed, n1)" "ll_rep (tasks_all (nt_world n1)) (t # bs)"
      "tasks_ready (nt_world n1) = ts_push t (tasks_ready (nt_world n))"
      "tasks (nt_world n1) = (tasks (nt_world n))(t := (tasks (nt_world n) t)\<lparr>t_refc := t_refc (tasks (nt_world n) t) + 1, t_queued := True, t_state := Ready\<rparr>)"
      "aws (nt_world n1) = (aws (nt_world n))(TaskA t := (aws (nt_world n) (TaskA t))\<lparr>aw_error := Error_default\<rparr>)"
      "user (nt_world n1) = user (nt_world n)" "nt_self n1 = nt_self n"
    by blast
  have r: "ts_rep (tasks_ready (nt_world n1)) (t # rs)"
    using Cons.prems(2,5,7) n1(3) by (auto intro!: ts_push_rep)
  have "\<exists>n'. run_all (\<lambda>t n. map_option snd (branch_create t n)) ts n1 = Some n' \<and> ll_rep (tasks_all (nt_world n')) (rev ts @ t # bs) \<and>
    ts_rep (tasks_ready (nt_world n')) (rev ts @ t # rs) \<and> user (nt_world n') = user (nt_world n1) \<and>
    (\<forall>s. tasks (nt_world n') s = (if s \<in> set ts
       then (tasks (nt_world n1) s)\<lparr>t_refc := t_refc (tasks (nt_world n1) s) + 1, t_queued := True, t_state := Ready\<rparr> else tasks (nt_world n1) s)) \<and>
    (\<forall>a. aws (nt_world n') a = (if a \<in> TaskA ` set ts then (aws (nt_world n1) a)\<lparr>aw_error := Error_default\<rparr> else aws (nt_world n1) a))"
    using Cons.prems(3-10) n1(4,5,7) by (intro Cons.IH [OF n1(2) r]) auto
  then show ?case using n1(1,4-6) Cons.prems(3) by auto
qed simp

text \<open>
  C27. A whole \<^verbatim>\<open>Wait\<close>. Branches are made for a fresh \<^verbatim>\<open>Wait\<close>, each of which will return; then an awaitable of the task \<open>ob\<close> calls the \<^verbatim>\<open>Wait\<close>. Its
  first poll ends in a pause. It has run all of the branches, the one that was made last first, and hands them all over, or with
  \<^verbatim>\<open>FirstCompleted\<close> only the one that was made last, while the others stay ready. A branch that ran has exited and left the queue.
\<close>

theorem branches_run_to_completion:
  assumes "ll_rep (tasks_all (nt_world n)) []" and "ts_rep (tasks_ready (nt_world n)) []" and "ts_rep (wt_done (user (nt_world n))) []"
    and "\<forall>s. wt_bound (user (nt_world n)) s = None" and "nt_self n = Obj c"
    and "aw_task (aws (nt_world n) (Obj c)) = None" and "aw_prev (aws (nt_world n) (Obj c)) = None"
    and "aw_task (aws (nt_world n) p) = Some ob" and "p \<noteq> Obj c" and "ob \<notin> set ts"
    and "ts \<noteq> []" and "distinct ts" and "length ts < size_max"
    and "\<And>t. t \<in> set ts \<Longrightarrow> t_state (tasks (nt_world n) t) = Suspended \<and> will_return (lift_vt vt) (nt_world n) t"
  defines "first \<equiv> wt_condition (user (nt_world n)) = FirstCompleted"
  shows "\<exists>n' w'. run_all (\<lambda>t n. map_option snd (branch_create t n)) ts n = Some n' \<and>
    wait_poll vt engine (Obj c) (async_call_link p c (nt_world n')) = Some (PauseA, w') \<and>
    ts_rep (wt_done (user w')) (if first then [last ts] else ts) \<and> wait_is_done w' = (\<not> first \<or> length ts = 1) \<and>
    (first \<longrightarrow> ts_rep (tasks_ready w') (rev (butlast ts))) \<and>
    (\<forall>s \<in> set (if first then [last ts] else ts). t_state (tasks w' s) = Exited \<and> \<not> t_queued (tasks w' s))"
proof -
  have ok: "t_state (tasks (nt_world n) t) = Suspended \<and> t_refc (tasks (nt_world n) t) \<ge> 1" if "t \<in> set ts" for t
    using assms(14) [OF that] by (simp add: will_return_def)
  have "aw_task (aws (nt_world n) (nt_self n)) = None" using assms(5,6) by simp
  from branches_created [OF assms(1,2,12) _ _ _ _ ok this assms(5)] assms(13) obtain n' where
    n': "run_all (\<lambda>t n. map_option snd (branch_create t n)) ts n = Some n'" "ll_rep (tasks_all (nt_world n')) (rev ts)"
      "ts_rep (tasks_ready (nt_world n')) (rev ts)" "user (nt_world n') = user (nt_world n)"
      "\<forall>t. tasks (nt_world n') t = (if t \<in> set ts
         then (tasks (nt_world n) t)\<lparr>t_refc := t_refc (tasks (nt_world n) t) + 1, t_queued := True, t_state := Ready\<rparr> else tasks (nt_world n) t)"
      "\<forall>a. aws (nt_world n') a = (if a \<in> TaskA ` set ts then (aws (nt_world n) a)\<lparr>aw_error := Error_default\<rparr> else aws (nt_world n) a)"
    by auto
  let ?w = "async_call_link p c (nt_world n')"
  have f: "tasks_all ?w = tasks_all (nt_world n')" "tasks_ready ?w = tasks_ready (nt_world n')" "user ?w = user (nt_world n)"
      "tasks ?w = tasks (nt_world n')" "aw_task (aws ?w (Obj c)) = Some ob" "\<not> is_paused (Obj c) ?w"
    using n'(4,6) assms(5,7,8) by (auto simp: async_call_link_def is_paused_def)
  have wr: "will_return (lift_vt vt) ?w t" if "t \<in> set (rev ts)" for t
  proof -
    have t: "t \<in> set ts" using that by simp
    obtain ns where ns: "call_stack (nt_world n) t (t_top (tasks (nt_world n) t)) ns" "distinct ns"
        "\<forall>m \<in> set ns. returns (lift_vt vt) m \<and> \<not> Error_bool (aw_error (aws (nt_world n) (Obj m)))" "t_refc (tasks (nt_world n) t) \<ge> 1"
      using assms(14) [OF t] by (auto simp: will_return_def)
    have "m \<noteq> c" if "m \<in> set ns" for m using call_stack_member [OF ns(1) that] assms(6) by auto
    then have same: "aws ?w (Obj m) = aws (nt_world n) (Obj m)" if "m \<in> set ns" for m
      using that n'(6) by (auto simp: async_call_link_def)
    then have "call_stack ?w t (t_top (tasks ?w t)) ns"
      using ns(1) call_stack_cong [of ns ?w "nt_world n"] f(4) n'(5) by auto
    moreover have "aw_error (aws ?w (TaskA t)) = Error_default" using t n'(6) by (simp add: async_call_link_def)
    ultimately show ?thesis
      using ns same f(4) n'(5) t by (auto simp: will_return_def Error_bool_def Error_default_def)
  qed
  have "bound_to ob ?w" using assms(4) f(3) by (simp add: bound_to_def)
  from wait_completes [of ?w "rev ts" "rev ts" vt ob engine] wr this n'(2,3) f assms(3,10,11,13) obtain w' where
    w': "wait_queue_run vt engine ob ?w = Some (PauseA, w')"
      "if first then ts_rep (wt_done (user w')) [hd (rev ts)] \<and> ts_rep (tasks_ready w') (tl (rev ts)) \<and>
         (\<exists>ys. ll_rep (tasks_all w') ys \<and> set ys = set (tl (rev ts)))
       else ts_rep (wt_done (user w')) ts \<and> ll_rep (tasks_all w') []"
      "\<forall>s. s \<in> set (if first then [hd (rev ts)] else rev ts) \<longrightarrow> t_state (tasks w' s) = Exited \<and> \<not> t_queued (tasks w' s)"
    unfolding first_def by (auto split: if_splits)
  have hd: "hd (rev ts) = last ts" "tl (rev ts) = rev (butlast ts)" using assms(11) by (cases ts rule: rev_cases; simp)+
  have "wait_is_done w' = (set ys = {})" if "ll_rep (tasks_all w') ys" for ys
    using flist.rep_empty [OF that] by (simp add: wait_is_done_def TaskQueue_empty_def)
  moreover have "\<exists>ys. ll_rep (tasks_all w') ys \<and> set ys = (if first then set (butlast ts) else {})"
    using w'(2) unfolding hd by (cases first) auto
  ultimately have "wait_is_done w' = (if first then set (butlast ts) = {} else True)" by (cases first) fastforce+
  moreover have "butlast ts = [] \<longleftrightarrow> length ts = 1" using assms(11) by (cases ts) auto
  ultimately have "wait_is_done w' = (\<not> first \<or> length ts = 1)" by simp
  moreover have "wait_poll vt engine (Obj c) ?w = Some (PauseA, w')"
    using f(5,6) w'(1) by (simp add: wait_poll_def pausable_poll_def)
  ultimately show ?thesis using n'(1) w'(2,3) unfolding hd by (auto split: if_splits)
qed

definition fresh_nest :: "unit nest" where
  "fresh_nest = \<lparr>nt_world = (empty_world sample_wait)\<lparr>aws := (\<lambda>_. idle_awaitable)(Obj 6 := idle_awaitable\<lparr>aw_task := Some 9\<rparr>),
       tasks := (\<lambda>t. idle_task\<lparr>t_top := Some (TaskA t)\<rparr>)\<rparr>,
     nt_self = Obj 5, nt_all = ll_new, nt_ready = ts_new, nt_running = None, nt_wakeups = 0, nt_stray = None\<rparr>"

theorem branches_run_to_completion_witness:
  "\<exists>n' w'. run_all (\<lambda>t n. map_option snd (branch_create t n)) [1, 2] fresh_nest = Some n' \<and>
    wait_poll default_vt Some (Obj 5) (async_call_link (Obj 6) 5 (nt_world n')) = Some (PauseA, w') \<and>
    ts_rep (wt_done (user w')) [1, 2] \<and> wait_is_done w'"
proof -
  let ?n = fresh_nest
  have "will_return (lift_vt default_vt) (nt_world ?n) t" for t
    by (auto simp: will_return_def fresh_nest_def idle_awaitable_def idle_task_def Error_bool_def Error_default_def intro: exI [of _ "[]"])
  moreover have "ll_rep (tasks_all (nt_world ?n)) []" "ts_rep (tasks_ready (nt_world ?n)) []" "ts_rep (wt_done (user (nt_world ?n))) []"
      "\<forall>s. wt_bound (user (nt_world ?n)) s = None" "nt_self ?n = Obj 5" "aw_task (aws (nt_world ?n) (Obj 5)) = None"
      "aw_prev (aws (nt_world ?n) (Obj 5)) = None" "aw_task (aws (nt_world ?n) (Obj 6)) = Some 9"
      "wt_condition (user (nt_world ?n)) = AllCompleted" "t_state (tasks (nt_world ?n) t) = Suspended" for t
    using ll_new_rep ts.rep_new by (simp_all add: fresh_nest_def empty_world_def sample_wait_def idle_awaitable_def idle_task_def)
  ultimately show ?thesis
    using branches_run_to_completion [of ?n 5 "Obj 6" 9 "[1, 2]" default_vt Some] by auto
qed

text \<open>A branch from the heap has two references, that of the queue and that of the caller, and waits at its entry.\<close>

lemma branch_new_ready:
  assumes "ll_rep (tasks_all (nt_world n)) bs" and "t \<notin> set bs" and "Suc (length bs) < size_max"
    and "aw_task (aws (nt_world n) (nt_self n)) = None" and "nt_self n \<notin> {TaskA t, Obj a}"
  shows "branch_new start None a n = Some (None, n) \<and>
    (\<exists>n'. branch_new start (Some t) a n = Some (Some t, n') \<and> ll_rep (tasks_all (nt_world n')) (t # bs) \<and>
      tasks_ready (nt_world n') = ts_push t (tasks_ready (nt_world n)) \<and>
      t_refc (tasks (nt_world n') t) = 2 \<and> t_state (tasks (nt_world n') t) = Ready \<and>
      call_stack (nt_world n') t (t_top (tasks (nt_world n') t)) [a])"
proof -
  let ?w = "upd_wait_state (\<lambda>u. u\<lparr>wt_bound := (wt_bound u)(t := None), wt_user := start (wt_user u)\<rparr>) (upd_task t (\<lambda>_. idle_task) (nt_world n))"
  let ?n = "n\<lparr>nt_world := Task_init t a ?w\<rparr>"
  have "ll_rep (tasks_all (nt_world ?n)) bs" "t_state (tasks (nt_world ?n) t) = Suspended" "t_refc (tasks (nt_world ?n) t) = 1"
      "aw_task (aws (nt_world ?n) (nt_self ?n)) = None" "nt_self ?n \<noteq> TaskA t"
      "t_top (tasks (nt_world ?n) t) = Some (Obj a)" "tasks_ready (nt_world ?n) = tasks_ready (nt_world n)"
      "aw_task (aws (nt_world ?n) (Obj a)) = Some t" "aw_caller (aws (nt_world ?n) (Obj a)) = Some (TaskA t)"
    using assms(1,4,5) by (auto simp: Task_init_def Let_def idle_task_def)
  with early_branch_reports_failure [of ?n bs t] assms(2,3) obtain n' where
    "branch_create t ?n = Some (Failed, n')" "ll_rep (tasks_all (nt_world n')) (t # bs)"
    "tasks_ready (nt_world n') = ts_push t (tasks_ready (nt_world n))"
    "t_refc (tasks (nt_world n') t) = 2" "t_state (tasks (nt_world n') t) = Ready" "t_top (tasks (nt_world n') t) = Some (Obj a)"
    "aw_task (aws (nt_world n') (Obj a)) = Some t" "aw_caller (aws (nt_world n') (Obj a)) = Some (TaskA t)"
    by auto
  then show ?thesis by (simp add: branch_new_def branch_create_def)
qed

section \<open>Cancelling a branch\<close>

lemma links_of_member:
  assumes "t \<notin> set as"
  shows "nextf (as @ t # bs) (Node t) = Some (first_addr bs)"
    and "prevf p (as @ t # bs) (Node t) = (if as = [] then p else Some (Node (last as)))"
  using assms by (induction as arbitrary: p) auto

lemma task_unref_held:
  "t_refc (tasks w t) \<ge> 1 \<Longrightarrow> \<exists>w'. task_unref t w = Some w' \<and> tasks_all w' = tasks_all w \<and> user w' = user w \<and>
     t_state (tasks w' t) = t_state (tasks w t)"
  by (auto simp: task_unref_def Let_def)

lemma outer_erase_branch:
  assumes "ll_rep (tasks_all (nt_world n)) (as @ t # bs)"
  shows "\<exists>n' l'. outer_erase t n = Some (Successful, n') \<and> nt_world n' = (nt_world n)\<lparr>tasks_all := l'\<rparr> \<and>
    ll_size l' = Suc (length as + length bs) \<and> ll_size (nt_all n') = sub64 (ll_size (nt_all n)) 1 \<and>
    nt_stray n' = (if as = [] then Some (first_addr bs) else nt_stray n)"
proof -
  have lk: "ll_links (tasks_all (nt_world n)) (as @ t # bs)" using assms by (simp add: ll_rep_def)
  then have ins: "is_inserted t (tasks_all (nt_world n))" by (simp add: is_inserted_iff)
  have "t \<notin> set as" using lk by (simp add: ll_links_def)
  note nx = links_of_member [OF this]
  show ?thesis using ins lk nx by (cases "as = []") (auto simp: outer_erase_def ll_links_def Let_def)
qed

text \<open>
  \<^verbatim>\<open>Wait::cancel\<close> hands the branch to the outer queue, which removes it from a list it is not in. The branch is finalized and has exited, but
  it is subtracted from the tasks of the outer queue and not from those of the \<^verbatim>\<open>Wait\<close>: the \<^verbatim>\<open>Wait\<close> is never done, and when its
  own task was the only one of the loop, the loop takes its queue for empty. If the branch was the first of its list, the head of the
  outer list points into the list of the \<^verbatim>\<open>Wait\<close>.
\<close>

theorem cancelled_branch_is_miscounted:
  assumes "call_stack (nt_world n) t (t_top (tasks (nt_world n) t)) ns" and "distinct ns" and "has_outer_queue n"
    and "running_task (nt_world n) \<noteq> Some t" and "nt_running n \<noteq> Some t"
    and "ll_rep (tasks_all (nt_world n)) (as @ t # bs)" and "ll_rep (nt_all n) os" and "os \<noteq> []"
    and "t_state (tasks (nt_world n) t) \<noteq> Ready" and "t_refc (tasks (nt_world n) t) \<ge> 1"
  shows "\<exists>n'. wait_cancel vt t n = Some (ErrorCancel_NoError, n') \<and> t_state (tasks (nt_world n') t) = Exited \<and>
    user (nt_world n') = fold (vt_final (lift_vt vt)) ns (user (nt_world n)) \<and> \<not> wait_is_done (nt_world n') \<and>
    ll_size (nt_all n') = length os - 1 \<and> (TaskQueue_empty (outer_world n') \<longleftrightarrow> length os = 1) \<and>
    nt_stray n' = (if as = [] then Some (first_addr bs) else nt_stray n)"
proof -
  obtain w1 where w1: "unwind_stack (lift_vt vt) t (nt_world n) = Some w1"
    "tasks w1 = (tasks (nt_world n))(t := (tasks (nt_world n) t)\<lparr>t_top := Some (TaskA t)\<rparr>)"
    "tasks_all w1 = tasks_all (nt_world n)" "user w1 = fold (vt_final (lift_vt vt)) ns (user (nt_world n))"
    using unwind_stack_spec [OF assms(1,2), of "lift_vt vt"] by metis
  have sz: "sub64 (ll_size (nt_all n)) 1 = length os - 1"
    using assms(7,8) by (cases os) (auto simp: ll_rep_def ll_links_def sub64_exact)
  let ?w2 = "upd_task t (\<lambda>x. x\<lparr>t_state := Exited\<rparr>) (upd_task t (\<lambda>x. x\<lparr>t_state := Ready\<rparr>) w1)"
  obtain n1 l where n1: "outer_erase t (n\<lparr>nt_world := ?w2\<rparr>) = Some (Successful, n1)" "nt_world n1 = ?w2\<lparr>tasks_all := l\<rparr>"
      "ll_size l = Suc (length as + length bs)" "ll_size (nt_all n1) = length os - 1"
      "nt_stray n1 = (if as = [] then Some (first_addr bs) else nt_stray n)"
    using outer_erase_branch [of "n\<lparr>nt_world := ?w2\<rparr>" as t bs] assms(6) w1(3) sz by auto
  have "t_refc (tasks (upd_task t (\<lambda>x. x\<lparr>t_queued := False\<rparr>) (nt_world n1)) t) \<ge> 1" using assms(10) n1(2) w1(2) by simp
  from task_unref_held [OF this] n1(2) obtain w3 where
    "task_unref t (upd_task t (\<lambda>x. x\<lparr>t_queued := False\<rparr>) (nt_world n1)) = Some w3" "tasks_all w3 = l" "user w3 = user w1"
    "t_state (tasks w3 t) = Exited"
    by auto
  then have "outer_pop t (n\<lparr>nt_world := ?w2\<rparr>) = Some (Successful, n1\<lparr>nt_world := w3\<rparr>)" "tasks_all w3 = l" "user w3 = user w1"
    "t_state (tasks w3 t) = Exited"
    using n1(1) by (simp_all add: outer_pop_def)
  then show ?thesis
    using assms(3-5,8,9) w1 n1(3-5) by (cases os)
      (auto simp: wait_cancel_def outer_cancel_def wait_is_done_def TaskQueue_empty_def ll_empty_def Let_def)
qed

end
