(* ===== verification/Jinx_RecordClass.thy ===== *)
theory Jinx_RecordClass
  imports Jinx_Record Complex_Main
begin

text \<open>
  The class templates of records (\<^verbatim>\<open>include/jinx/record.hpp\<close>), one by one: \<^verbatim>\<open>RecordImmediate\<close>, \<^verbatim>\<open>RecordSecret\<close> and their versions for
  vectors, \<^verbatim>\<open>RecordSum\<close> and \<^verbatim>\<open>RecordHarmonicMean\<close>.

  A class template is a function on records that is polymorphic in the type of the value. The records of a category, in
  \<open>Jinx_Record\<close>, know their class and their type at run time; they are an abstraction of the classes here. A visitor is called with
  the value, or for a vector with its elements.
\<close>

section \<open>Classes with one value\<close>

record 'a immediate =
  im_name :: string
  im_description :: string
  im_value :: 'a

definition immediate_new :: "string \<Rightarrow> 'a \<Rightarrow> 'a immediate" where
  "immediate_new name v = \<lparr>im_name = name, im_description = [], im_value = v\<rparr>"

definition immediate_visit :: "(string \<Rightarrow> 'a \<Rightarrow> 's \<Rightarrow> bool \<times> 's) \<Rightarrow> 'a immediate \<Rightarrow> 's \<Rightarrow> bool \<times> 's" where
  "immediate_visit visitor r s = visitor (im_name r) (im_value r) s"

definition immediate_commit :: "'a \<Rightarrow> 'a immediate \<Rightarrow> 'a immediate" where
  "immediate_commit v r = r\<lparr>im_value := v\<rparr>"

definition immediate_get_value :: "'a immediate \<Rightarrow> 'a" where
  "immediate_get_value r = im_value r"

record 'a secret =
  sc_name :: string
  sc_description :: string
  sc_value :: 'a

definition secret_new :: "string \<Rightarrow> 'a \<Rightarrow> 'a secret" where
  "secret_new name v = \<lparr>sc_name = name, sc_description = [], sc_value = v\<rparr>"

definition secret_visit :: "(string \<Rightarrow> 'a \<Rightarrow> 's \<Rightarrow> bool \<times> 's) \<Rightarrow> 'a secret \<Rightarrow> 's \<Rightarrow> bool \<times> 's" where
  "secret_visit visitor r s = (False, s)"

definition secret_commit :: "'a \<Rightarrow> 'a secret \<Rightarrow> 'a secret" where
  "secret_commit v r = r\<lparr>sc_value := v\<rparr>"

definition secret_get_value :: "'a secret \<Rightarrow> 'a" where
  "secret_get_value r = sc_value r"

section \<open>Vectors\<close>

definition vector_new :: "string \<Rightarrow> 'a list \<Rightarrow> 'a list immediate" where
  "vector_new name vs = \<lparr>im_name = name, im_description = [], im_value = vs\<rparr>"

definition vector_visit :: "(string \<Rightarrow> 'a list \<Rightarrow> nat \<Rightarrow> 's \<Rightarrow> bool \<times> 's) \<Rightarrow> 'a list immediate \<Rightarrow> 's \<Rightarrow> bool \<times> 's" where
  "vector_visit visitor r s = visitor (im_name r) (im_value r) (length (im_value r)) s"

definition vector_commit :: "'a \<Rightarrow> 'a list immediate \<Rightarrow> 'a list immediate" where
  "vector_commit v r = r\<lparr>im_value := im_value r @ [v]\<rparr>"

definition secret_vector_new :: "string \<Rightarrow> 'a list \<Rightarrow> 'a list secret" where
  "secret_vector_new name vs = \<lparr>sc_name = name, sc_description = [], sc_value = vs\<rparr>"

definition secret_vector_visit :: "(string \<Rightarrow> 'a list \<Rightarrow> nat \<Rightarrow> 's \<Rightarrow> bool \<times> 's) \<Rightarrow> 'a list secret \<Rightarrow> 's \<Rightarrow> bool \<times> 's" where
  "secret_vector_visit visitor r s = (False, s)"

definition secret_vector_commit :: "'a \<Rightarrow> 'a list secret \<Rightarrow> 'a list secret" where
  "secret_vector_commit v r = r\<lparr>sc_value := sc_value r @ [v]\<rparr>"

section \<open>Sums and means\<close>

text \<open>\<open>addf\<close> is the addition of the type of the value; it is undefined where the addition of C++ is.\<close>

record 'a summed =
  sm_name :: string
  sm_description :: string
  sm_value :: 'a

definition sum_new :: "string \<Rightarrow> 'a \<Rightarrow> 'a summed" where
  "sum_new name v = \<lparr>sm_name = name, sm_description = [], sm_value = v\<rparr>"

definition sum_visit :: "(string \<Rightarrow> 'a \<Rightarrow> 's \<Rightarrow> bool \<times> 's) \<Rightarrow> 'a summed \<Rightarrow> 's \<Rightarrow> bool \<times> 's" where
  "sum_visit visitor r s = visitor (sm_name r) (sm_value r) s"

definition summed_commit :: "('a \<Rightarrow> 'a \<Rightarrow> 'a option) \<Rightarrow> 'a \<Rightarrow> 'a summed \<Rightarrow> 'a summed option" where
  "summed_commit addf v r = do { x \<leftarrow> addf (sm_value r) v; Some (r\<lparr>sm_value := x\<rparr>) }"

definition sum_get_value :: "'a summed \<Rightarrow> 'a" where
  "sum_get_value r = sm_value r"

text \<open>
  Arithmetic of the type of a mean: \<open>mo_accumulate x v\<close> is \<^verbatim>\<open>x += 1.0F / v\<close>, \<open>mo_ratio n x\<close> the quotient of the two as \<^verbatim>\<open>double\<close>, back in the
  type of the value. Either may be undefined for a type that is not a floating-point type.
\<close>

record 'a mean_ops =
  mo_accumulate :: "'a \<Rightarrow> 'a \<Rightarrow> 'a option"
  mo_ratio :: "nat \<Rightarrow> 'a \<Rightarrow> 'a option"

record 'a harmonic_mean =
  hm_name :: string
  hm_description :: string
  hm_value :: 'a
  hm_n :: nat

definition mean_new :: "string \<Rightarrow> 'a \<Rightarrow> 'a harmonic_mean" where
  "mean_new name v = \<lparr>hm_name = name, hm_description = [], hm_value = v, hm_n = 0\<rparr>"

definition mean_visit ::
    "'a mean_ops \<Rightarrow> (string \<Rightarrow> 'a \<Rightarrow> 's \<Rightarrow> bool \<times> 's) \<Rightarrow> 'a harmonic_mean \<Rightarrow> 's \<Rightarrow> (bool \<times> 's) option" where
  "mean_visit mo visitor r s = do { v \<leftarrow> mo_ratio mo (hm_n r) (hm_value r); Some (visitor (hm_name r) v s) }"

definition mean_commit :: "'a mean_ops \<Rightarrow> 'a \<Rightarrow> 'a harmonic_mean \<Rightarrow> 'a harmonic_mean option" where
  "mean_commit mo v r =
     do { let r1 = r\<lparr>hm_n := add64 (hm_n r) 1\<rparr>;
          x \<leftarrow> mo_accumulate mo (hm_value r1) v;
          Some (r1\<lparr>hm_value := x\<rparr>) }"

definition mean_get_value :: "'a harmonic_mean \<Rightarrow> 'a" where
  "mean_get_value r = hm_value r"

text \<open>\<^verbatim>\<open>~RecordCategory\<close> deletes the records one after another.\<close>

definition category_destroy :: "'f category \<Rightarrow> 'f named_record list" where
  "category_destroy c = map snd c"

section \<open>The records of a category are these classes\<close>

text \<open>\<open>con\<close> is the type of the value, as a constructor of \<open>val\<close>.\<close>

definition abs_immediate :: "('a \<Rightarrow> 'f val) \<Rightarrow> 'a immediate \<Rightarrow> 'f named_record" where
  "abs_immediate con r = \<lparr>rc_name = im_name r, rc_description = im_description r, rc_kind = RecordImmediate, rc_value = con (im_value r)\<rparr>"

definition abs_secret :: "('a \<Rightarrow> 'f val) \<Rightarrow> 'a secret \<Rightarrow> 'f named_record" where
  "abs_secret con r = \<lparr>rc_name = sc_name r, rc_description = sc_description r, rc_kind = RecordSecret, rc_value = con (sc_value r)\<rparr>"

definition abs_summed :: "('a \<Rightarrow> 'f val) \<Rightarrow> 'a summed \<Rightarrow> 'f named_record" where
  "abs_summed con r = \<lparr>rc_name = sm_name r, rc_description = sm_description r, rc_kind = RecordSum, rc_value = con (sm_value r)\<rparr>"

definition scalar :: "('a \<Rightarrow> 'f val) \<Rightarrow> bool" where
  "scalar con \<longleftrightarrow> (\<exists>t. t \<noteq> TStringList \<and> (\<forall>x. type_of (con x) = t))"

text \<open>What the addition of each type gives.\<close>

definition size_plus :: "64 word \<Rightarrow> 64 word \<Rightarrow> 64 word option" where
  "size_plus a b = Some (a + b)"

definition int_plus :: "32 word \<Rightarrow> 32 word \<Rightarrow> 32 word option" where
  "int_plus a b = (if sint (a + b) = sint a + sint b then Some (a + b) else None)"

lemmas class_defs = immediate_new_def immediate_visit_def immediate_commit_def secret_new_def secret_visit_def secret_commit_def
  vector_new_def vector_visit_def vector_commit_def secret_vector_new_def secret_vector_visit_def secret_vector_commit_def
  sum_new_def sum_visit_def summed_commit_def abs_immediate_def abs_secret_def abs_summed_def

lemma scalar_commit:
  assumes "scalar con" and "rc_kind r \<noteq> RecordSum" and "rc_value r = con x"
  shows "record_commit (con v) r = Some (r\<lparr>rc_value := con v\<rparr>)"
proof -
  have "type_of (con v) = type_of (con x)" "type_of (con x) \<noteq> TStringList" using assms(1) by (auto simp: scalar_def)
  then show ?thesis using assms(2,3) by (cases "con x"; cases "con v") (auto simp: record_commit_def)
qed

text \<open>
  The records of a category are an abstraction of the classes: constructing, committing and visiting an object of a class gives the
  record that constructing, committing and visiting give in the category, for values of every type, for vectors of strings, and for
  sums of each type of number, which are undefined in the same cases.
\<close>

theorem classes_implement_records:
  "(\<forall>(con :: 'a \<Rightarrow> 'f val) name v. abs_immediate con (immediate_new name v) = record_new RecordImmediate name (con v) \<and>
      abs_secret con (secret_new name v) = record_new RecordSecret name (con v) \<and>
      abs_summed con (sum_new name v) = record_new RecordSum name (con v)) \<and>
   (\<forall>(con :: 'a \<Rightarrow> 'f val) v r q. if scalar con
      then record_commit (con v) (abs_immediate con r) = Some (abs_immediate con (immediate_commit v r)) \<and>
        record_commit (con v) (abs_secret con q) = Some (abs_secret con (secret_commit v q))
      else True) \<and>
   (\<forall>s r q. record_commit (VString s) (abs_immediate VList r :: 'f named_record) = Some (abs_immediate VList (vector_commit s r)) \<and>
      record_commit (VString s) (abs_secret VList q :: 'f named_record) = Some (abs_secret VList (secret_vector_commit s q))) \<and>
   (\<forall>v r. sum_commit fo (VSize v) (abs_summed VSize r) = map_option (abs_summed VSize) (summed_commit size_plus v r)) \<and>
   (\<forall>v r. sum_commit fo (VInt v) (abs_summed VInt r) = map_option (abs_summed VInt) (summed_commit int_plus v r)) \<and>
   (\<forall>v r. sum_commit fo (VFloat v) (abs_summed VFloat r) =
      map_option (abs_summed VFloat) (summed_commit (\<lambda>x y. Some (fl_add fo x y)) v r)) \<and>
   (\<forall>(con :: 'a \<Rightarrow> 'f val) visitor r q m (s :: 's). record_visit visitor (abs_immediate con r) s = immediate_visit (\<lambda>name v. visitor name (con v)) r s \<and>
      record_visit visitor (abs_secret con q) s = secret_visit (\<lambda>name v. visitor name (con v)) q s \<and>
      record_visit visitor (abs_summed con m) s = sum_visit (\<lambda>name v. visitor name (con v)) m s)"
proof (intro conjI allI)
  fix con :: "'a \<Rightarrow> 'f val" and v and r :: "'a immediate" and q :: "'a secret"
  show "if scalar con
      then record_commit (con v) (abs_immediate con r) = Some (abs_immediate con (immediate_commit v r)) \<and>
        record_commit (con v) (abs_secret con q) = Some (abs_secret con (secret_commit v q))
      else True"
    using scalar_commit [of con "abs_immediate con r" "im_value r" v] scalar_commit [of con "abs_secret con q" "sc_value q" v]
    by (simp add: class_defs)
qed (simp_all add: class_defs record_new_def record_commit_def sum_commit_def record_visit_def size_plus_def int_plus_def)

section \<open>The harmonic mean\<close>

definition real_mean :: "real mean_ops" where
  "real_mean = \<lparr>mo_accumulate = (\<lambda>x v. Some (x + 1 / v)), mo_ratio = (\<lambda>n x. Some (real n / x))\<rparr>"

lemma mean_commits:
  assumes "hm_n r + length xs < size_max"
  shows "\<exists>r'. run_all (mean_commit real_mean) xs r = Some r' \<and> hm_n r' = hm_n r + length xs \<and> hm_name r' = hm_name r \<and>
    hm_value r' = hm_value r + (\<Sum>x\<leftarrow>xs. 1 / x)"
  using assms
proof (induction xs arbitrary: r)
  case (Cons x xs)
  let ?r = "r\<lparr>hm_n := hm_n r + 1, hm_value := hm_value r + 1 / x\<rparr>"
  have "mean_commit real_mean x r = Some ?r" using Cons.prems by (simp add: mean_commit_def real_mean_def add64_exact)
  moreover have "hm_n ?r + length xs < size_max" using Cons.prems by simp
  from Cons.IH [OF this] obtain r' where "run_all (mean_commit real_mean) xs ?r = Some r'" "hm_n r' = hm_n ?r + length xs"
      "hm_name r' = hm_name ?r" "hm_value r' = hm_value ?r + (\<Sum>x\<leftarrow>xs. 1 / x)" by blast
  ultimately show ?case by simp
qed simp

text \<open>
  In exact arithmetic a visitor sees the harmonic mean of the values that were committed, provided that the record was made with the
  value 0: what the constructor is given counts as a sum of reciprocals.
\<close>

theorem mean_is_harmonic:
  assumes "length xs < size_max"
  shows "\<exists>r. run_all (mean_commit real_mean) xs (mean_new name x) = Some r \<and>
    mean_visit real_mean visitor r s = Some (visitor name (real (length xs) / (x + (\<Sum>y\<leftarrow>xs. 1 / y))) s)"
  using mean_commits [of "mean_new name x" xs] assms by (auto simp: mean_new_def mean_visit_def real_mean_def)

theorem mean_is_harmonic_witness:
  "\<exists>r. run_all (mean_commit real_mean) [1, 3, 3 / 2] (mean_new ''rate'' 0) = Some r \<and>
     mean_visit real_mean (\<lambda>name v s. (True, v)) r 0 = Some (True, 3 / 2)"
  using mean_is_harmonic [of "[1, 3, 3 / 2]" "''rate''" 0 "\<lambda>name v s. (True, v)" 0] by simp

text \<open>A mean of whole numbers: the sum of reciprocals is cut back to a whole number with every commit, so that only ones count.\<close>

definition truncate_real :: "real \<Rightarrow> int" where
  "truncate_real x = (if x < 0 then \<lceil>x\<rceil> else \<lfloor>x\<rfloor>)"

definition whole_mean :: "int mean_ops" where
  "whole_mean = \<lparr>mo_accumulate = (\<lambda>x v. if v = 0 then None else Some (truncate_real (real_of_int x + 1 / real_of_int v))),
     mo_ratio = (\<lambda>n x. if x = 0 then None else Some (truncate_real (real n / real_of_int x)))\<rparr>"

lemma whole_mean_forgets:
  assumes "v > 1" and "hm_value r \<ge> 0"
  shows "map_option hm_value (mean_commit whole_mean v r) = Some (hm_value r)"
proof -
  have "\<lfloor>1 / real_of_int v\<rfloor> = 0" using assms by (intro floor_unique) (simp_all add: divide_simps)
  then have "\<lfloor>real_of_int (hm_value r) + 1 / real_of_int v\<rfloor> = hm_value r" by (simp add: floor_add_int [symmetric] add.commute)
  moreover have "\<not> real_of_int (hm_value r) + 1 / real_of_int v < 0" using assms by (simp add: not_less)
  ultimately show ?thesis using assms by (simp add: mean_commit_def whole_mean_def truncate_real_def Let_def)
qed

section \<open>Destruction\<close>

lemma category_destroys_once:
  assumes "category_wf c"
  shows "distinct (map (name_hash \<circ> rc_name) (category_destroy c))"
proof -
  have "map (name_hash \<circ> rc_name) (category_destroy c) = map fst c"
    using assms by (auto simp: category_destroy_def category_wf_def)
  then show ?thesis using assms by (simp add: category_wf_def)
qed

end
