(* ===== verification/Jinx_TlsStream.thy ===== *)
theory Jinx_TlsStream
  imports Jinx_Tls
begin

text \<open>
  \<^verbatim>\<open>StreamOpenSSL\<close> of \<^verbatim>\<open>libs/openssl/openssl.hpp\<close>: a stream that owns a connection and has one \<^verbatim>\<open>AsyncTLS\<close> for each operation. A call gives
  the operation a fresh implementation with the plain pointer of the connection, without a reference of its own, and starts it.
  What an operation does when it is polled is in \<open>Jinx_Tls\<close>.
\<close>

section \<open>The stream\<close>

datatype tls_impl =
  TLSAccept "nat option"
| TLSConnect "nat option"
| TLSShutdown "nat option" bool
| TLSRead "nat option" nat
| TLSWrite "nat option" nat

text \<open>The second argument of \<^verbatim>\<open>TLSShutdown\<close> is \<^verbatim>\<open>_wait_close_notify\<close>; a view is known by its address.\<close>

fun impl_connection :: "tls_impl \<Rightarrow> nat option" where
  "impl_connection (TLSAccept p) = p"
| "impl_connection (TLSConnect p) = p"
| "impl_connection (TLSShutdown p b) = p"
| "impl_connection (TLSRead p v) = p"
| "impl_connection (TLSWrite p v) = p"

record tls_call =
  tc_impl :: tls_impl
  tc_started :: bool

definition tls_call_start :: "tls_impl \<Rightarrow> tls_call \<Rightarrow> tls_call" where
  "tls_call_start impl c = c\<lparr>tc_impl := impl, tc_started := True\<rparr>"

text \<open>\<^verbatim>\<open>SSL_get_fd\<close> is a parameter; it must not be called without a connection.\<close>

definition get_native_handle :: "(nat \<Rightarrow> int) \<Rightarrow> tls_call \<Rightarrow> int option" where
  "get_native_handle ssl_get_fd c = map_option ssl_get_fd (impl_connection (tc_impl c))"

record tls_stream =
  st_connection :: nat
  st_accept :: tls_call
  st_connect :: tls_call
  st_shutdown :: tls_call
  st_recv :: tls_call
  st_send :: tls_call

definition stream_openssl_new :: "nat \<Rightarrow> tls_stream" where
  "stream_openssl_new x =
     \<lparr>st_connection = x, st_accept = \<lparr>tc_impl = TLSAccept None, tc_started = False\<rparr>, st_connect = \<lparr>tc_impl = TLSConnect None, tc_started = False\<rparr>,
      st_shutdown = \<lparr>tc_impl = TLSShutdown None False, tc_started = False\<rparr>, st_recv = \<lparr>tc_impl = TLSRead None 0, tc_started = False\<rparr>,
      st_send = \<lparr>tc_impl = TLSWrite None 0, tc_started = False\<rparr>\<rparr>"

definition stream_get :: "tls_stream \<Rightarrow> pointers \<Rightarrow> nat option" where
  "stream_get st s = ps_ptr s (st_connection st)"

definition stream_shutdown :: "pointers \<Rightarrow> tls_stream \<Rightarrow> tls_stream" where
  "stream_shutdown s st = st\<lparr>st_shutdown := tls_call_start (TLSShutdown (stream_get st s) False) (st_shutdown st)\<rparr>"

definition stream_accept :: "pointers \<Rightarrow> tls_stream \<Rightarrow> tls_stream" where
  "stream_accept s st = st\<lparr>st_accept := tls_call_start (TLSAccept (stream_get st s)) (st_accept st)\<rparr>"

definition stream_connect :: "pointers \<Rightarrow> tls_stream \<Rightarrow> tls_stream" where
  "stream_connect s st = st\<lparr>st_connect := tls_call_start (TLSConnect (stream_get st s)) (st_connect st)\<rparr>"

definition stream_read :: "nat \<Rightarrow> pointers \<Rightarrow> tls_stream \<Rightarrow> tls_stream" where
  "stream_read v s st = st\<lparr>st_recv := tls_call_start (TLSRead (stream_get st s) v) (st_recv st)\<rparr>"

definition stream_write :: "nat \<Rightarrow> pointers \<Rightarrow> tls_stream \<Rightarrow> tls_stream" where
  "stream_write v s st = st\<lparr>st_send := tls_call_start (TLSWrite (stream_get st s) v) (st_send st)\<rparr>"

section \<open>The program around a stream\<close>

text \<open>Calls of the stream, and what the rest of the program does with wrappers of its own.\<close>

datatype stream_cmd =
  CallAccept | CallConnect | CallShutdown | CallRead nat | CallWrite nat
| WrapCopy nat nat | WrapMove nat nat | WrapDestroy nat

fun stream_exec :: "stream_cmd \<Rightarrow> tls_stream \<times> pointers \<Rightarrow> (tls_stream \<times> pointers) option" where
  "stream_exec CallAccept (st, s) = Some (stream_accept s st, s)"
| "stream_exec CallConnect (st, s) = Some (stream_connect s st, s)"
| "stream_exec CallShutdown (st, s) = Some (stream_shutdown s st, s)"
| "stream_exec (CallRead v) (st, s) = Some (stream_read v s st, s)"
| "stream_exec (CallWrite v) (st, s) = Some (stream_write v s st, s)"
| "stream_exec (WrapCopy x y) (st, s) = map_option (Pair st) (os_copy_assign x y s)"
| "stream_exec (WrapMove x y) (st, s) = map_option (Pair st) (os_move_assign x y s)"
| "stream_exec (WrapDestroy x) (st, s) = map_option (Pair st) (os_destroy x s)"

text \<open>The variables a command writes to; a copy may be made of the connection of the stream.\<close>

fun cmd_ok :: "nat set \<Rightarrow> nat \<Rightarrow> stream_cmd \<Rightarrow> bool" where
  "cmd_ok F self (WrapCopy x y) \<longleftrightarrow> x \<in> F - {self} \<and> y \<in> F"
| "cmd_ok F self (WrapMove x y) \<longleftrightarrow> x \<in> F - {self} \<and> y \<in> F - {self}"
| "cmd_ok F self (WrapDestroy x) \<longleftrightarrow> x \<in> F - {self}"
| "cmd_ok F self _ \<longleftrightarrow> True"

text \<open>Every operation that was started works on the object \<open>ob\<close>.\<close>

definition works_on :: "nat \<Rightarrow> tls_stream \<Rightarrow> bool" where
  "works_on ob st \<longleftrightarrow>
     (\<forall>c \<in> set [st_accept st, st_connect st, st_shutdown st, st_recv st, st_send st]. tc_started c \<longrightarrow> impl_connection (tc_impl c) = Some ob)"

definition stream_inv :: "nat set \<Rightarrow> (nat \<Rightarrow> nat) \<Rightarrow> nat \<Rightarrow> nat \<Rightarrow> tls_stream \<times> pointers \<Rightarrow> bool" where
  "stream_inv F raw self ob z \<longleftrightarrow>
     ps_inv F raw (snd z) \<and> st_connection (fst z) = self \<and> ps_ptr (snd z) self = Some ob \<and> works_on ob (fst z)"

lemmas stream_calls = stream_accept_def stream_connect_def stream_shutdown_def stream_read_def stream_write_def stream_get_def
  tls_call_start_def works_on_def

lemma os_copy_assigned:
  assumes "ps_inv F raw s" and "x \<in> F"
  shows "\<exists>s'. os_copy_assign x y s = Some s' \<and> ps_inv F raw s' \<and> ps_ptr s' = (ps_ptr s)(x := if x = y then None else ps_ptr s y)"
proof -
  obtain s1 where s1: "os_free x s = Some s1" "ps_inv F raw s1" "ps_ptr s1 = (ps_ptr s)(x := None)"
    using os_free_drops [OF assms] by blast
  obtain s2 where "os_up_ref x (set_ptr x (ps_ptr s1 y) s1) = Some s2" "ps_inv F raw s2" "ps_ptr s2 = (ps_ptr s1)(x := ps_ptr s1 y)"
    using os_copies [OF s1(2) assms(2), of y] s1(3) by auto
  then show ?thesis using s1 by (auto simp: os_copy_assign_def)
qed

lemma os_move_assigned:
  assumes "ps_inv F raw s" and "x \<in> F"
  shows "\<exists>s'. os_move_assign x y s = Some s' \<and> ps_inv F raw s' \<and>
    ps_ptr s' = (ps_ptr s)(y := None, x := if x = y then None else ps_ptr s y)"
proof -
  obtain s1 where "os_free x s = Some s1" "ps_inv F raw s1" "ps_ptr s1 = (ps_ptr s)(x := None)"
    using os_free_drops [OF assms] by blast
  then show ?thesis using os_moves [of F raw s1 x y] assms(2) by (auto simp: os_move_assign_def os_release_def)
qed

lemma stream_exec_inv:
  assumes "stream_inv F raw self ob z" and "cmd_ok F self cmd"
  shows "\<exists>z'. stream_exec cmd z = Some z' \<and> stream_inv F raw self ob z'"
proof -
  obtain st s where z: "z = (st, s)" by fastforce
  have inv: "ps_inv F raw s" "st_connection st = self" "ps_ptr s self = Some ob" "works_on ob st"
    using assms(1) by (simp_all add: stream_inv_def z)
  show ?thesis
  proof (cases cmd)
    case (WrapCopy x y)
    then have "x \<in> F" "x \<noteq> self" using assms(2) by auto
    then obtain s' where "os_copy_assign x y s = Some s'" "ps_inv F raw s'" "ps_ptr s' self = Some ob"
      using os_copy_assigned [OF inv(1), of x y] inv(3) by auto
    then show ?thesis using WrapCopy inv by (simp add: stream_inv_def z)
  next
    case (WrapMove x y)
    then have "x \<in> F" "x \<noteq> self" "y \<noteq> self" using assms(2) by auto
    then obtain s' where "os_move_assign x y s = Some s'" "ps_inv F raw s'" "ps_ptr s' self = Some ob"
      using os_move_assigned [OF inv(1), of x y] inv(3) by auto
    then show ?thesis using WrapMove inv by (simp add: stream_inv_def z)
  next
    case (WrapDestroy x)
    then have "x \<in> F" "x \<noteq> self" using assms(2) by auto
    then obtain s' where "os_destroy x s = Some s'" "ps_inv F raw s'" "ps_ptr s' self = Some ob"
      using os_free_drops [OF inv(1), of x] inv(3) by (auto simp: os_destroy_def)
    then show ?thesis using WrapDestroy inv by (simp add: stream_inv_def z)
  qed (use inv in \<open>auto simp: stream_inv_def z stream_calls\<close>)
qed

text \<open>
  A stream keeps its connection. It is given a connection that another wrapper owns. Whatever operations are called on it after that, and
  whatever the program does with its own wrappers (it may copy, move and destroy all of them), every operation that was started works on that
  connection, and the connection has not been freed. The counts stay those of the owners.
\<close>

theorem tls_stream_keeps_connection:
  assumes "ps_inv F raw s" and "self \<in> F" and "c \<noteq> self" and "ps_ptr s c = Some ob" and "\<forall>cmd \<in> set cmds. cmd_ok F self cmd"
  shows "\<exists>s1 st' s'. stream_initialize self c s = Some s1 \<and> run_all stream_exec cmds (stream_openssl_new self, s1) = Some (st', s') \<and>
    works_on ob st' \<and> ps_heap s' ob \<noteq> None \<and> ps_inv F raw s'"
proof -
  obtain s1 where s1: "stream_initialize self c s = Some s1" "ps_inv F raw s1" "ps_ptr s1 self = Some ob"
    using os_copy_assigned [OF assms(1,2), of c] assms(3,4) by (auto simp: stream_initialize_def)
  have "stream_inv F raw self ob (stream_openssl_new self, s1)"
    using s1(2,3) by (simp add: stream_inv_def stream_openssl_new_def works_on_def)
  then have "\<exists>z'. run_all stream_exec cmds (stream_openssl_new self, s1) = Some z' \<and> stream_inv F raw self ob z'"
    using assms(5)
  proof (induction cmds arbitrary: s1 rule: rev_induct)
    case (snoc cmd cmds)
    obtain z where z: "run_all stream_exec cmds (stream_openssl_new self, s1) = Some z" "stream_inv F raw self ob z"
      using snoc.IH [OF snoc.prems(1)] snoc.prems(2) by auto
    have "cmd_ok F self cmd" using snoc.prems(2) by simp
    from stream_exec_inv [OF z(2) this] z(1) show ?case by (auto simp: run_all_append)
  qed auto
  then obtain st' s' where z': "run_all stream_exec cmds (stream_openssl_new self, s1) = Some (st', s')" "ps_inv F raw s'"
      "ps_ptr s' self = Some ob" "works_on ob st'"
    by (auto simp: stream_inv_def)
  then show ?thesis using s1(1) ps_inv_alive [OF z'(2,3)] by fastforce
qed

theorem tls_stream_keeps_connection_witness:
  "\<exists>s1 st' s'. stream_initialize 1 0 sole_owner = Some s1 \<and>
     run_all stream_exec [CallAccept, WrapDestroy 0, CallWrite 3] (stream_openssl_new 1, s1) = Some (st', s') \<and> works_on 7 st' \<and> ps_heap s' 7 \<noteq> None"
  using tls_stream_keeps_connection [OF sole_owner_inv, of 1 0 7 "[CallAccept, WrapDestroy 0, CallWrite 3]"]
  by (auto simp: sole_owner_def)

text \<open>
  The operations hold no reference: resetting the stream while one of them is waiting frees the connection the operation goes on with.
\<close>

lemma reset_under_operation:
  assumes "ps_inv F raw s" and "self \<in> F" and "ps_ptr s self = Some ob" and "owners F s ob + raw ob = 1"
  shows "\<exists>s'. stream_reset self s = Some s' \<and> ob \<in> set (ps_released s') \<and>
    impl_connection (tc_impl (st_recv (stream_read v s (stream_openssl_new self)))) = Some ob"
  using os_free_drops [OF assms(1,2)] assms(3,4)
  by (auto simp: stream_reset_def os_reset_def stream_calls stream_openssl_new_def set_ptr_def)

end
