(* ===== verification/Spec2Isabelle.thy ===== *)
theory Spec2Isabelle
  imports Jinx_Variant Jinx_Client Jinx_Wait Jinx_Queue2 Jinx_Pool Jinx_Webapp Jinx_Lock Jinx_Pointer Jinx_Address Jinx_Stream
    Jinx_Args Jinx_Bio Jinx_Event Jinx_Routine Jinx_Join Jinx_Allocator Jinx_Posix Jinx_Socket Jinx_Dns Jinx_Raii Jinx_Spawn
    Jinx_Branch Jinx_RecordClass Jinx_TlsStream
begin

text \<open>
  Verification of jinx, a C++ library for asynchronous programs without coroutines of the language.

  \<^bold>\<open>The program.\<close> A task is a stack of awaitables; each of them is a routine that a loop polls until it
  returns. An awaitable may call another one, suspend until somebody resumes it, yield, or fail, and an
  error travels down the stack until an awaitable handles it. A \<^verbatim>\<open>TaskQueue\<close> keeps the ready tasks and a
  \<^verbatim>\<open>Loop\<close> alternates between the ready tasks and an event engine (libevent). On top of this engine the
  library has queues, locks, buffer pools, asynchronous operations on descriptors, streams, TLS, typed
  records with a parser of the command line, and in \<^verbatim>\<open>libs/http\<close> a parser and a builder of HTTP headers and a small web framework. The parts interact
  through resumption: an operation that cannot finish puts itself on an intrusive waiting list (or
  registers an event) and suspends; the counterpart completes it and resumes its task.

  \<^bold>\<open>Theories and sources.\<close> All paths are below \<^verbatim>\<open>src/\<close>; a definition has the name of the function it
  models, with the class in front of it where two classes share a name.

  \<^item> \<open>Jinx_Prelude\<close>: \<^verbatim>\<open>include/jinx/result.hpp\<close> (the results \<^verbatim>\<open>Successful\<close> and \<^verbatim>\<open>Failed\<close>), 64-bit
    sizes, and the collections of simplification rules the components share.
  \<^item> \<open>Jinx_Error\<close>: \<^verbatim>\<open>error.hpp\<close>, \<^verbatim>\<open>error.cpp\<close> and the categories, codes and messages of every part.
  \<^item> \<open>Jinx_LinkedList\<close>: \<^verbatim>\<open>linkedlist.hpp\<close>, the doubly linked list over explicit pointers with its sentinel
    and the thread-safe stack. Their contracts are the locales \<open>node_list\<close>, \<open>back_list\<close>, \<open>front_list\<close> and
    \<open>stack\<close>, which say what sequence a list represents after every operation; the clients use those.
  \<^item> \<open>Jinx_Optional\<close>: \<^verbatim>\<open>optional.hpp\<close> over a storage cell with the lifetime of the object in it, and the
    results that must be handled.
  \<^item> \<open>Jinx_Task\<close>, \<open>Jinx_Engine\<close>, \<open>Jinx_Loop\<close>: \<^verbatim>\<open>async/awaitable.hpp\<close>, \<^verbatim>\<open>awaitable.ipp\<close>, \<^verbatim>\<open>async/task.hpp\<close>,
    \<^verbatim>\<open>src/async.cpp\<close>. The definitions; scheduling, cancellation and the propagation of errors; whole runs of
    the loop.
  \<^item> \<open>Jinx_Routine\<close>, \<open>Jinx_Join\<close>: \<^verbatim>\<open>async/awaitable.hpp\<close>, \<^verbatim>\<open>async/awaitable.ipp\<close> and \<^verbatim>\<open>async/task.hpp\<close>: routines as chains of
    member functions, results, futures, and waiting for another task through a hook, as clients of the engine.
  \<^item> \<open>Jinx_Spawn\<close>: the classes of tasks in \<^verbatim>\<open>async/task.hpp\<close>, \<^verbatim>\<open>async/awaitable.ipp\<close> and \<^verbatim>\<open>buffer.hpp\<close>: where a task lives (the
    heap, memory of the caller, a buffer of a pool), how it is created in a queue, and what its last reference releases.
  \<^item> \<open>Jinx_Pausable\<close>, \<open>Jinx_Wait\<close>, \<open>Jinx_Branch\<close>: \<^verbatim>\<open>async/pausable.hpp\<close>: generators that are parked inside their caller's
    stack, an awaitable that runs several tasks in a queue of its own, and that queue inside the queue of its task.
  \<^item> \<open>Jinx_Container\<close>, \<open>Jinx_Queue\<close>, \<open>Jinx_Queue2\<close>: \<^verbatim>\<open>queue.hpp\<close> and \<^verbatim>\<open>queue2.hpp\<close>. The contract of a
    container is a locale, (\<open>fifo\<close>), interpreted for the bounded adaptor and for the ring in an array; the awaitable
    \<^verbatim>\<open>Get\<close> and \<^verbatim>\<open>Put\<close> are verified over that contract once.
  \<^item> \<open>Jinx_Lock\<close>: \<^verbatim>\<open>lock.hpp\<close>, threads and awaitables as an inductive transition system in which \<^verbatim>\<open>unlock\<close> takes two
    steps (it wakes the next waiter, then removes it from the list) and an awaitable may be cancelled at any time.
  \<^item> \<open>Jinx_Pointer\<close>: \<^verbatim>\<open>pointer.hpp\<close>, intrusive reference counts.
  \<^item> \<open>Jinx_Buffer\<close>, \<open>Jinx_Pool\<close>, \<open>Jinx_Allocator\<close>: \<^verbatim>\<open>slice.hpp\<close> and \<^verbatim>\<open>buffer.hpp\<close>: views into memory, the pool of
    blocks with its reserve, its limit and the requests that wait (over the locale \<open>memory_provider\<close>), and the chain
    of pools, one per configuration.
  \<^item> \<open>Jinx_AsyncIO\<close>, \<open>Jinx_Stream\<close>, \<open>Jinx_Address\<close>: \<^verbatim>\<open>posix.hpp\<close>, \<^verbatim>\<open>libevent.hpp\<close>, \<^verbatim>\<open>streamsocket.hpp\<close> and
    \<^verbatim>\<open>src/posix.cpp\<close>: descriptors, the wrappers of the system calls, operations that wait for an event,
    timers, streams, and socket addresses.
  \<^item> \<open>Jinx_Posix\<close>, \<open>Jinx_Socket\<close>: \<^verbatim>\<open>posix.hpp\<close>, \<^verbatim>\<open>libevent.hpp\<close>, \<^verbatim>\<open>streamsocket.hpp\<close>, \<^verbatim>\<open>src/posix.cpp\<close> and
    \<^verbatim>\<open>src/libevent.cpp\<close>: the twelve classes of operations, each with its arguments and its system call, over one contract
    (the locale \<open>io_class\<close>); the options and the lifetime of sockets, and the methods of a \<^verbatim>\<open>StreamSocket\<close>. A refinement
    connects the whole operation, with the engine inside, to the abstract one of \<open>Jinx_AsyncIO\<close>.
  \<^item> \<open>Jinx_Event\<close>: \<^verbatim>\<open>src/libevent.cpp\<close>: the engine with all its handles, the callbacks around the user's functions,
    polling and waking up; the handles \<open>Jinx_AsyncIO\<close> uses are an abstraction of it.
  \<^item> \<open>Jinx_Tls\<close>, \<open>Jinx_TlsStream\<close>, \<open>Jinx_Bio\<close>: \<^verbatim>\<open>libs/openssl/openssl.hpp\<close> and \<^verbatim>\<open>libs/openssl/bio.hpp\<close>: counted OpenSSL objects, the
    operations on a TLS connection, the stream that owns the connection, and TLS over any stream. What the operations need of an event engine is the
    locale \<open>tls_engine\<close>, interpreted for libevent and for the engine of \<^verbatim>\<open>StreamBIO\<close>.
  \<^item> \<open>Jinx_Dns\<close>: \<^verbatim>\<open>libs/evdns/evdns.hpp\<close>: the awaitable over a request to the resolver of libevent.
  \<^item> \<open>Jinx_Raii\<close>: \<^verbatim>\<open>raii.hpp\<close> and \<^verbatim>\<open>libs/cjson/cjson.hpp\<close>: objects of C libraries with one owner (the locale \<open>owner\<close>,
    interpreted for every class) or with a counter.
  \<^item> \<open>Jinx_Record\<close>, \<open>Jinx_RecordClass\<close>, \<open>Jinx_Args\<close>: \<^verbatim>\<open>record.hpp\<close>, \<^verbatim>\<open>argparse.hpp\<close> and \<^verbatim>\<open>src/argparse.cpp\<close>: typed records in categories with
    their reporters, and the arguments of the command line that fill them.
  \<^item> \<open>Jinx_Hash\<close>: \<^verbatim>\<open>hash.hpp\<close> at its widths.
  \<^item> \<open>Jinx_Http\<close>, \<open>Jinx_HttpBuilder\<close>, \<open>Jinx_Router\<close>, \<open>Jinx_Webapp\<close>: \<^verbatim>\<open>libs/http/http.hpp\<close>,
    \<^verbatim>\<open>libs/http/webapp.hpp\<close> and \<^verbatim>\<open>libs/http/http.cpp\<close>: parser, builder, routes, and the application that
    connects them.
  \<^item> \<open>Jinx_Client\<close>: \<^verbatim>\<open>libs/http/client.hpp\<close>: the client, with its parser fed by a stream in chunks.
  \<^item> \<open>Jinx_Variant\<close>: \<^verbatim>\<open>variant.hpp\<close> and \<^verbatim>\<open>meta.hpp\<close>: the two implementations of a variant.
  \<^item> This theory: what spans the HTTP builder and the stream, and the web application and the client.

  \<^bold>\<open>State and effects.\<close> Every class is a record, every enumeration a datatype, every method a function that
  returns the new state. Pointers between objects are identifiers into a map, so that aliasing (a task
  that is in two lists, a view and its memory) is visible. Virtual methods are a parameter (a table of
  programs), so the theorems on the engine hold for every user of the library; what the engine needs of
  them is a hypothesis. Sizes of 64 bits are natural numbers with the wrap-around written out.
  A result of type \<open>option\<close> is \<open>None\<close> where the C++ program aborts in an assertion, has undefined
  behaviour, or loops for ever; the theorems therefore prove that the value is \<open>Some\<close>. Answers of the
  kernel and of the allocator are lists of arguments, in the order in which they are asked for.

  \<^bold>\<open>Loops and fuel.\<close> Loops over lists and texts are total functions. Loops that may not end (the resume
  loop, a run of the queue, repeated system calls, the search of the call stack) are partial functions
  with value \<open>None\<close>, and the theorems give conditions under which they return; no fuel is used except
  lists of answers, whose length the theorems state.

  \<^bold>\<open>What is shown.\<close> Engine: an unhandled error finalizes every awaitable of the stack once and is reported
  by the task; cancellation finalizes the whole stack; a task is scheduled at most once; runs of the queue
  and of the loop complete. Generators re-enter where they were parked and are finalized with their
  caller; a wait runs its branches and completes when its condition holds, and a branch that is resumed wakes it. Queue: no value is lost, duplicated or invented, the
  containers are first in first out, the callback queue behaves like the plain one. Lock: mutual exclusion
  on every reachable state, and no waiter is forgotten unless an awaitable is cancelled after it has been handed the
  lock, which strands the waiters behind it. Pointers: the counter is the number of owners and an object is released
  exactly with its last owner or, the one exception, when its sole owner is copied to itself. Buffers: views stay inside their memory and refine a byte queue; an
  allocated block is shared with nobody; a released block serves a waiting request first. Input and
  output: an operation retries while the descriptor would block and is resumed once per event; a write
  sends exactly the bytes of the view whatever portions the kernel takes. HTTP: the parser ends on every input and touches no byte outside what its buffer holds,
  it reads back what the builder writes, the routes choose the page a declarative relation names, an error is
  answered with one page as long as the stream is intact (a bad request behind an unknown path gets two); the client reports a response however the stream cuts it into chunks, and so the
  error page of the server. Variants: both implementations refine an optional typed value, comparison included, except for the comparison of
  different types and for copying a variant to itself. Events: whatever
  the functions called for events add and remove, no destroyed event is used, and the next poll after a wake-up
  does not block. TLS: for every answer of OpenSSL the handshake waits, returns or throws what a table says, a write passes on everything,
  and between the user of a \<^verbatim>\<open>StreamBIO\<close>, reading or writing, and the TLS operation no wake-up is lost, except when
  the user reads into a full view. Routines run their functions in
  the order in which they name each other; a join resumes its observer once. Pools of different configurations
  share no memory. Tasks are released exactly once, where they live, with their last reference. Every operation of
  \<^verbatim>\<open>posix.hpp\<close> makes the system call of its class with its own arguments until it does not block, and returns what
  that call returned or throws its error; only an interrupted call is repeated for ever; descriptors and objects of C libraries have one owner. Records keep the type they were given, a run of commits is undefined exactly when a sum of type \<^verbatim>\<open>int\<close> overflows, and secrets are not shown; the command line sets exactly
  the records of the options it names, within their bounds. A number of theorems and lemmas show where the code does not do what it means to:
  lost exceptions, waiters forgotten by a reset, a wait and a join that cannot be reused, interrupted calls,
  misreported errors of OpenSSL, and others named in their theories.

  \<^bold>\<open>Not modelled.\<close> OpenSSL, libevent and cJSON themselves; the rounding and the formats of floating-point numbers in \<^verbatim>\<open>record.hpp\<close>; macros, logging and
  backtraces; the interleavings of compare-and-swap in \<^verbatim>\<open>LinkedListThreadSafe\<close>, which is
  a sequential stack here; the bytes of a message body in the web application.
\<close>

section \<open>From the builder to the wire\<close>

lemma bytes_of_slice:
  "j \<le> length xs \<Longrightarrow> map ((!) xs) [i ..< j] = take (j - i) (drop i xs)"
  by (intro nth_equalityI) auto

lemma builder_bytes:
  assumes "hb_ok b"
  shows "bv_bytes ((!) (hb_mem b)) (hb_buffer b) = hb_text b"
proof -
  have v: "bv_ok (hb_buffer b)" "bv_memory (hb_buffer b) + bv_memory_size (hb_buffer b) \<le> length (hb_mem b)"
    using assms by (auto simp: hb_ok_def)
  then have "bv_end_ptr (hb_buffer b) \<le> length (hb_mem b)" "bv_size (hb_buffer b) = bv_end_ptr (hb_buffer b) - bv_data (hb_buffer b)"
    by (auto simp: bv_ok_simps) (auto simp: bv_ok_def)
  then show ?thesis by (simp add: bv_bytes_def hb_text_def bytes_of_slice)
qed

text \<open>
  C24. From the builder to the wire. A client builds a request in an empty buffer that is large enough and
  writes the buffer to its stream: whatever portions the kernel accepts, exactly the text of the
  request reaches the wire (and that text is what the parser of the other side reads back).
\<close>

theorem request_reaches_the_wire:
  assumes "bv_ok v" and "bv_memory v + bv_memory_size v \<le> length mem" and "bv_size v = 0"
    and "length (request_text m t ver fs) \<le> bv_capacity v"
    and "\<forall>x \<in> set xs. \<not> refused x" and "length (request_text m t ver fs) \<le> length (filter accepted xs)"
  shows "\<exists>b s'. build_request m t ver fs (builder_new mem v) = Some (Successful, b) \<and>
    write_run ((!) (hb_mem b)) xs (stream_send_call (hb_buffer b) s) = Some (IOReturn, s') \<and>
    so_wire s' = so_wire s @ request_text m t ver fs \<and> bv_size (so_view s') = 0"
proof -
  have b0: "hb_ok (builder_new mem v)" "\<not> hb_overflow (builder_new mem v)" "hb_room (builder_new mem v) = bv_capacity v"
      "hb_text (builder_new mem v) = []"
    using builder_new_ok [OF assms(1,2)] assms(3) by (simp_all add: builder_new_def hb_room_def hb_text_def)
  obtain b where b: "build_request m t ver fs (builder_new mem v) = Some (Successful, b)" "hb_ok b"
      "hb_text b = request_text m t ver fs"
    using build_request_ok [OF b0(1), of m t ver fs] b0(2-4) assms(4) by (auto simp: wrote_def builder_new_def)
  have bytes: "bv_bytes ((!) (hb_mem b)) (hb_buffer b) = request_text m t ver fs"
    using builder_bytes [OF b(2)] b(3) by simp
  have ok: "bv_ok (hb_buffer b)" using b(2) by (simp add: hb_ok_def)
  have "bv_size (hb_buffer b) = length (request_text m t ver fs)"
    using arg_cong [OF bytes, of length] ok by (simp add: bv_bytes_def bv_ok_simps)
  moreover have "request_text m t ver fs \<noteq> []" by (simp add: request_text_def)
  ultimately have "max 1 (bv_size (hb_buffer b)) \<le> length (filter accepted xs)"
    using assms(6) by (cases "request_text m t ver fs") auto
  from write_run_complete [of "stream_send_call (hb_buffer b) s" xs "(!) (hb_mem b)"] this ok assms(5)
  obtain s' where "write_run ((!) (hb_mem b)) xs (stream_send_call (hb_buffer b) s) = Some (IOReturn, s')"
      "so_wire s' = so_wire s @ bv_bytes ((!) (hb_mem b)) (hb_buffer b)" "bv_size (so_view s') = 0"
    by (auto simp: stream_send_call_def async_io_call_def)
  then show ?thesis using b(1) bytes by auto
qed

theorem request_reaches_the_wire_witness:
  "\<exists>b s'. build_request ''GET'' ''/'' ''HTTP/1.1'' [] (builder_new (replicate 99 (CHR ''-'')) (bv_new 0 99 0 0)) =
      Some (Successful, b) \<and>
    write_run ((!) (hb_mem b)) (SendAgain # replicate 99 (Accepted 20)) (stream_send_call (hb_buffer b)
      \<lparr>so_io = sample_io, so_view = bv_new 0 0 0 0, so_wire = []\<rparr>) = Some (IOReturn, s') \<and>
    so_wire s' = request_text ''GET'' ''/'' ''HTTP/1.1'' []"
proof -
  have v: "bv_ok (bv_new 0 99 0 0)" "bv_memory (bv_new 0 99 0 0) + bv_memory_size (bv_new 0 99 0 0) \<le> length (replicate 99 (CHR ''-''))"
      "bv_size (bv_new 0 99 0 0) = 0" "bv_capacity (bv_new 0 99 0 0) = 99"
    by (simp_all add: bv_ok_def bv_new_def bv_size_def bv_capacity_def sub64_exact)
  have l: "length (request_text ''GET'' ''/'' ''HTTP/1.1'' []) = 36"
    by (simp add: request_text_def request_fields_def field_text_def)
  show ?thesis
    using request_reaches_the_wire [OF v(1-3), of "''GET''" "''/''" "''HTTP/1.1''" "[]" "SendAgain # replicate 99 (Accepted 20)"
        "\<lparr>so_io = sample_io, so_view = bv_new 0 0 0 0, so_wire = []\<rparr>"] v(4) l by auto
qed

section \<open>From the error page to the client\<close>

lemma message_http_text: "message_http code = Some msg \<Longrightarrow> CR \<notin> set msg \<and> msg \<noteq> [] \<and> hd msg \<noteq> CHR '' ''"
  by (auto simp: message_http_def message_http_table_def CR_def split: option.splits if_splits)

lemma error_response:
  assumes "message_http code = Some msg"
  shows "response_ok ''HTTP/1.1'' (decimal (unsigned_int code)) msg (error_fields code)"
    "error_header code msg = response_text ''HTTP/1.1'' (decimal (unsigned_int code)) msg (error_fields code)"
    "fold note_connection (error_fields code) st = ConnectionClose"
proof -
  show "response_ok ''HTTP/1.1'' (decimal (unsigned_int code)) msg (error_fields code)"
    using message_http_text [OF assms] decimal_digits digit_is_no_space
    by (auto simp: response_ok_def error_fields_def field_ok_def isspace_def CR_def TAB_def LF_def)
  show "error_header code msg = response_text ''HTTP/1.1'' (decimal (unsigned_int code)) msg (error_fields code)"
    by (simp add: error_header_def response_text_def)
  have "trim ''close'' = ''close''" by (simp add: trim_def isspace_def CR_def TAB_def LF_def)
  then show "fold note_connection (error_fields code) st = ConnectionClose"
    by (simp add: error_fields_def note_connection_def same_name_def connection_of_def ascii_lower_def char_of_def bit_0)
qed

text \<open>
  C25. From the error page to the client. The error page of the web application, sent over a stream that cuts
  it into any chunks, is what the client reports: the protocol version, the code, its message and the
  fields the page wrote, with the connection to be closed and exactly the body of the page left to read.
\<close>

theorem error_page_reaches_client:
  assumes "hb_ok (wa_builder s)" and "\<not> hb_overflow (wa_builder s)" and "\<not> hb_custom_server_name (wa_builder s)"
    and "hb_text (wa_builder s) = []" and "message_http (wa_error_code s) = Some msg"
    and "length (error_header (wa_error_code s) msg) \<le> hb_room (wa_builder s)"
    and "hp_ok (hc_parser c)" and "hp_state (hc_parser c) = ParserStartLine" and "hp_input (hc_parser c) = []"
  shows "\<exists>s'. error_page_request s = Some (PageSend, s') \<and>
    (\<forall>cs. concat cs = hb_text (wa_builder s') @ error_page_body (wa_error_code s) \<and>
        length (concat cs) \<le> bv_capacity (hp_buffer (hc_parser c)) \<longrightarrow>
      (\<exists>c' ds. client_run cs c = Some (CPause, c', ds) \<and>
        hc_events c' = hc_events c @ EvStart ''HTTP/1.1'' (decimal (unsigned_int (wa_error_code s))) msg # field_events (error_fields (wa_error_code s)) \<and>
        hc_connection_state c' = ConnectionClose \<and> hp_input (hc_parser c') @ concat ds = error_page_body (wa_error_code s)))"
proof -
  obtain s' where s': "error_page_request s = Some (PageSend, s')" "hb_text (wa_builder s') = error_header (wa_error_code s) msg"
    using error_page_request_ok [OF assms(1-3,5)] assms(4,6) by (auto simp: Let_def)
  note r = error_response [OF assms(5)]
  have "received (client_run cs c)
      (hc_events c @ EvStart ''HTTP/1.1'' (decimal (unsigned_int (wa_error_code s))) msg # field_events (error_fields (wa_error_code s)))
      ConnectionClose (error_page_body (wa_error_code s))"
    if "concat cs = hb_text (wa_builder s') @ error_page_body (wa_error_code s)"
      "length (concat cs) \<le> bv_capacity (hp_buffer (hc_parser c))" for cs
    using receive_response [OF assms(7,8) r(1), of cs "error_page_body (wa_error_code s)"] that s'(2) r(2,3) assms(9) by simp
  then show ?thesis using s'(1) by (auto simp: received_def)
qed

theorem error_page_reaches_client_witness:
  "\<exists>s' c' ds. error_page_request (sample_app (sample_parser [] ParserStartLine)) = Some (PageSend, s') \<and>
     client_run [hb_text (wa_builder s') @ html_404]
       ((sample_client [])\<lparr>hc_parser := snd (parser_initialize (replicate 500 (CHR ''-'')) (bv_new 0 500 0 0) (sample_parser [] ParserStartLine))\<rparr>) =
       Some (CPause, c', ds) \<and>
     hc_events c' = EvStart ''HTTP/1.1'' ''404'' ''Not Found'' # field_events (error_fields 404) \<and>
     hc_connection_state c' = ConnectionClose \<and> hp_input (hc_parser c') @ concat ds = html_404"
proof -
  let ?s = "sample_app (sample_parser [] ParserStartLine)"
  let ?c = "(sample_client [])\<lparr>hc_parser := snd (parser_initialize (replicate 500 (CHR ''-'')) (bv_new 0 500 0 0) (sample_parser [] ParserStartLine))\<rparr>"
  have b: "hb_ok (wa_builder ?s)" "\<not> hb_overflow (wa_builder ?s)" "\<not> hb_custom_server_name (wa_builder ?s)"
      "hb_room (wa_builder ?s) = 200" "hb_text (wa_builder ?s) = []" "wa_error_code ?s = 404"
    using builder_new_ok [of "bv_new 0 200 0 0" "replicate 200 (CHR ''-'')"]
    by (simp_all add: bv_ok_def bv_new_def) (simp_all add: builder_new_def hb_room_def hb_text_def bv_capacity_def bv_size_def sub64_exact)
  have m: "message_http (wa_error_code ?s) = Some ''Not Found''" by (simp add: message_http_def message_http_table_def)
  have d: "decimal 404 = ''404''" "decimal 131 = ''131''" by (simp_all add: decimal.simps char_of_def bit_0)
  have l: "error_page_body 404 = html_404" "length html_404 = 131" by (simp_all add: error_page_body_def html_404_def html_page_def)
  have h: "length (error_header 404 ''Not Found'') = 120"
    by (simp add: error_header_def error_fields_def field_text_def l d)
  have c: "hp_ok (hc_parser ?c)" "hp_state (hc_parser ?c) = ParserStartLine" "hp_input (hc_parser ?c) = []"
      "bv_capacity (hp_buffer (hc_parser ?c)) = 500" "hc_events ?c = []"
    by (simp_all add: parser_initialize_def parser_finalize_def Let_def hp_ok_def bv_ok_def bv_new_def hp_input_def bv_size_def
        bv_capacity_def sub64_exact sample_client_def)
  obtain s' where s': "error_page_request ?s = Some (PageSend, s')" "hb_text (wa_builder s') = error_header 404 ''Not Found''"
    using error_page_request_ok [OF b(1-3) m] b(4-6) h by (auto simp: Let_def)
  show ?thesis
    using error_page_reaches_client [OF b(1-3,5) m _ c(1-3)] b(4,6) s' h c(4,5) l d(1) by auto
qed

end
